(* ===== verification/Prelude.thy ===== *)
theory Prelude
  imports Main "HOL-Library.Word" "HOL-Library.Signed_Division" "HOL-Library.Option_ord"
begin

text \<open>
  The shared vocabulary of the development: the collections of simplification facts the
  component theories fill, the machine integers of the engine (\<open>int64_t\<close> ticks and the
  narrowing casts), the C rule for integer division, and list lemmas that several
  components use.  Integers that the source adds and compares are \<open>int\<close>; where the
  source narrows or clamps, the width is written out below.
\<close>

named_theorems frame_simps "fields an operation does not write"
named_theorems lookup_simps "what a lookup returns after an operation"

subsection \<open>Machine integers\<close>

definition int64_max :: int where "int64_max = 2 ^ 63 - 1"
definition int64_min :: int where "int64_min = - (2 ^ 63)"

definition in_int64 :: "int \<Rightarrow> bool" where
  "in_int64 x \<longleftrightarrow> int64_min \<le> x \<and> x \<le> int64_max"

text \<open>Two's complement narrowing, as \<open>static_cast<int16_t>\<close> performs it.\<close>

definition to_int16 :: "int \<Rightarrow> int" where
  "to_int16 x = (x + 2 ^ 15) mod 2 ^ 16 - 2 ^ 15"

definition to_uint16 :: "int \<Rightarrow> int" where
  "to_uint16 x = x mod 2 ^ 16"

lemma to_int16_id [simp]: "- 32768 \<le> x \<Longrightarrow> x \<le> 32767 \<Longrightarrow> to_int16 x = x"
  by (simp add: to_int16_def)

lemma to_uint16_id [simp]: "0 \<le> x \<Longrightarrow> x \<le> 65535 \<Longrightarrow> to_uint16 x = x"
  by (simp add: to_uint16_def)

subsection \<open>Lists\<close>

text \<open>
  \<open>std::lower_bound\<close> and \<open>std::upper_bound\<close> return the partition point of a
  predicate on a sorted range; the linear reading below is their specification, and the
  hand-written binary searches of the engine are proved equal to it where they are modelled.
\<close>

definition partition_point :: "('a \<Rightarrow> bool) \<Rightarrow> 'a list \<Rightarrow> nat" where
  "partition_point before xs = length (takeWhile before xs)"

lemma partition_point_le: "partition_point P xs \<le> length xs"
  by (simp add: partition_point_def length_takeWhile_le)

lemma partition_point_before: "i < partition_point P xs \<Longrightarrow> P (xs ! i)"
  by (metis nth_mem partition_point_def set_takeWhileD takeWhile_nth)

lemma partition_point_stops:
  "partition_point P xs < length xs \<Longrightarrow> \<not> P (xs ! partition_point P xs)"
  by (simp add: partition_point_def nth_length_takeWhile)

text \<open>Erasing at an index, as \<open>vector::erase(begin() + i)\<close> does.\<close>

definition erase_at :: "nat \<Rightarrow> 'a list \<Rightarrow> 'a list" where
  "erase_at i xs = take i xs @ drop (Suc i) xs"

definition insert_at :: "nat \<Rightarrow> 'a \<Rightarrow> 'a list \<Rightarrow> 'a list" where
  "insert_at i x xs = take i xs @ x # drop i xs"

lemma insert_at_0 [simp]: "insert_at 0 x xs = x # xs"
  by (simp add: insert_at_def)

lemma erase_insert_at: "i \<le> length xs \<Longrightarrow> erase_at i (insert_at i x xs) = xs"
  by (simp add: erase_at_def insert_at_def)

lemma length_insert_at [simp]: "length (insert_at i x xs) = Suc (length xs)"
  by (simp add: insert_at_def)

lemma set_insert_at [simp]: "set (insert_at i x xs) = insert x (set xs)"
  by (auto simp: insert_at_def dest: in_set_takeD in_set_dropD)
     (metis UnE append_take_drop_id set_append)

lemma length_erase_at: "i < length xs \<Longrightarrow> length (erase_at i xs) = length xs - 1"
  by (simp add: erase_at_def)

lemma set_erase_at_subset: "set (erase_at i xs) \<subseteq> set xs"
  by (auto simp: erase_at_def dest: in_set_takeD in_set_dropD)

text \<open>The running maximum of a loop \<open>highest = max(highest, f x)\<close>.\<close>

definition fold_max :: "int \<Rightarrow> int list \<Rightarrow> int" where
  "fold_max start xs = fold (\<lambda>x highest. max highest x) xs start"

lemma fold_max_Nil [simp]: "fold_max a [] = a"
  and fold_max_Cons [simp]: "fold_max a (x # xs) = fold_max (max a x) xs"
  by (simp_all add: fold_max_def)

lemma fold_max_ge_start: "a \<le> fold_max a xs"
proof (induction xs arbitrary: a)
  case (Cons x xs)
  show ?case using Cons.IH [of "max a x"] by simp
qed simp

lemma fold_max_ge: "x \<in> set xs \<Longrightarrow> x \<le> fold_max a xs"
proof (induction xs arbitrary: a)
  case (Cons y ys)
  then show ?case
    using fold_max_ge_start [of "max a y" ys] by auto
qed simp

lemma fold_max_in: "fold_max a xs = a \<or> fold_max a xs \<in> set xs"
  by (induction xs arbitrary: a) (auto simp: max_def)

subsection \<open>Decimal text\<close>

text \<open>\<open>std::to_string\<close>.\<close>

definition digit_char :: "nat \<Rightarrow> char" where "digit_char d = char_of (48 + d)"

fun nat_to_string :: "nat \<Rightarrow> string" where
  "nat_to_string n =
     (if n < 10 then [digit_char n] else nat_to_string (n div 10) @ [digit_char (n mod 10)])"

declare nat_to_string.simps [simp del]

definition int_to_string :: "int \<Rightarrow> string" where
  "int_to_string i = (if i < 0 then CHR ''-'' # nat_to_string (nat (- i)) else nat_to_string (nat i))"

fun decimal_value :: "nat \<Rightarrow> string \<Rightarrow> nat" where
  "decimal_value acc [] = acc"
| "decimal_value acc (c # cs) = decimal_value (acc * 10 + (of_char c - 48)) cs"

lemma decimal_value_append: "decimal_value a (xs @ ys) = decimal_value (decimal_value a xs) ys"
  by (induction xs arbitrary: a) auto

lemma of_digit_char: "d < 10 \<Longrightarrow> (of_char (digit_char d) :: nat) = 48 + d"
  by (simp add: digit_char_def)

lemma decimal_value_nat: "decimal_value 0 (nat_to_string n) = n"
proof (induction n rule: nat_to_string.induct)
  case (1 n)
  then show ?case
    by (subst nat_to_string.simps) (auto simp: decimal_value_append of_digit_char)
qed

lemma nat_to_string_inject: "nat_to_string m = nat_to_string n \<longleftrightarrow> m = n"
  by (metis decimal_value_nat)

end
