(* ===== verification/Ordered_Map.thy ===== *)
theory Ordered_Map
  imports Prelude
begin

text \<open>
  \<open>std::map\<close>: a finite map that iterates in ascending key order.  The representation is
  the strictly ascending list of entries, carried by a type, so that two maps with equal
  lookups are equal (\<open>om_eqI\<close>) and iteration order is a function of the contents.
\<close>

typedef (overloaded) ('v, 'k::linorder) ordered_map =
  "{xs :: ('k \<times> 'v) list. sorted_wrt (<) (map fst xs)}"
  morphisms om_entries OMap
  by (rule exI [of _ "[]"]) simp

type_synonym ('k, 'v) omap = "('v, 'k) ordered_map"

setup_lifting type_definition_ordered_map

lemma om_entries_sorted [simp]: "sorted_wrt (<) (map fst (om_entries m))"
  using om_entries [of m] by simp

lemma om_entries_distinct [simp]: "distinct (map fst (om_entries m))"
  using om_entries_sorted [of m] strict_sorted_iff by blast

subsection \<open>The entry-list algorithms\<close>

fun ins_entry :: "'k::linorder \<Rightarrow> 'v \<Rightarrow> ('k \<times> 'v) list \<Rightarrow> ('k \<times> 'v) list" where
  "ins_entry k v [] = [(k, v)]"
| "ins_entry k v ((k', v') # xs) =
     (if k < k' then (k, v) # (k', v') # xs
      else if k = k' then (k, v) # xs
      else (k', v') # ins_entry k v xs)"

lemma fst_set_ins_entry: "fst ` set (ins_entry k v xs) = insert k (fst ` set xs)"
  by (induction k v xs rule: ins_entry.induct) auto

lemma sorted_ins_entry:
  "sorted_wrt (<) (map fst xs) \<Longrightarrow> sorted_wrt (<) (map fst (ins_entry k v xs))"
proof (induction k v xs rule: ins_entry.induct)
  case (2 k v k' v' xs)
  have "\<forall>y \<in> set (map fst (ins_entry k v xs)). y = k \<or> y \<in> set (map fst xs)"
    using fst_set_ins_entry [of k v xs] by auto
  moreover have "\<forall>y \<in> set (map fst xs). k' < y" using 2 by simp
  ultimately have "k' \<noteq> k \<Longrightarrow> \<not> k < k' \<Longrightarrow> \<forall>y \<in> set (map fst (ins_entry k v xs)). k' < y"
    by (metis linorder_neqE)
  with 2 show ?case by (auto intro: less_trans)
qed simp

lemma map_of_ins_entry:
  "sorted_wrt (<) (map fst xs) \<Longrightarrow> map_of (ins_entry k v xs) = (map_of xs)(k \<mapsto> v)"
  by (induction k v xs rule: ins_entry.induct) auto

lemma sorted_filter_entries:
  "sorted_wrt (<) (map fst xs) \<Longrightarrow> sorted_wrt (<) (map fst (filter P xs))"
  by (induction xs) auto

lemma sorted_map_entries:
  "sorted_wrt (<) (map fst xs) \<Longrightarrow> sorted_wrt (<) (map fst (map (\<lambda>(k, v). (k, f k v)) xs))"
  by (simp add: case_prod_beta comp_def)

lemma map_of_eq_sorted:
  assumes "sorted_wrt (<) (map fst xs)" and "sorted_wrt (<) (map fst ys)"
    and "map_of xs = map_of (ys :: ('k::linorder \<times> 'v) list)"
  shows "xs = ys"
proof -
  have d: "distinct (map fst xs)" "distinct (map fst ys)"
    and s: "sorted (map fst xs)" "sorted (map fst ys)"
    using assms(1,2) strict_sorted_iff by blast+
  have eq: "set xs = set ys"
    using assms(3) d map_of_inject_set by blast
  have "inj_on fst (set xs \<union> set ys)"
    using d(1) eq by (simp add: distinct_map)
  then show ?thesis
    using map_sorted_distinct_set_unique [of fst xs ys] d s eq by blast
qed

lemma fst_set_collect:
  "fst ` set (List.map_filter (\<lambda>(k, v). map_option (Pair k) (f k v)) xs) \<subseteq> fst ` set xs"
  by (induction xs) (auto simp: map_filter_simps split: option.splits)

lemma sorted_collect_entries:
  "sorted_wrt (<) (map fst xs) \<Longrightarrow>
   sorted_wrt (<) (map fst (List.map_filter (\<lambda>(k, v). map_option (Pair k) (f k v)) xs))"
proof (induction xs)
  case (Cons x xs)
  let ?g = "List.map_filter (\<lambda>(k, v). map_option (Pair k) (f k v))"
  obtain k v where x: "x = (k, v)" by fastforce
  have "\<forall>y \<in> fst ` set xs. k < y" using Cons.prems x by auto
  then have "\<forall>y \<in> fst ` set (?g xs). k < y" using fst_set_collect [of f xs] by blast
  with Cons x show ?case by (simp add: map_filter_simps split: option.split)
qed (simp add: map_filter_simps)

lemma map_of_collect:
  "distinct (map fst xs) \<Longrightarrow>
   map_of (List.map_filter (\<lambda>(k, v). map_option (Pair k) (f k v)) xs) j = Option.bind (map_of xs j) (f j)"
proof (induction xs)
  case (Cons x xs)
  obtain k v where x: "x = (k, v)" by fastforce
  have "map_of xs k = None" using Cons.prems x by (simp add: map_of_eq_None_iff)
  with Cons x show ?case by (auto simp: map_filter_simps split: option.split)
qed (simp add: map_filter_simps)

subsection \<open>The operations\<close>

lift_definition om_empty :: "('k::linorder, 'v) omap" is "[]" by simp

lift_definition om_find :: "('k::linorder, 'v) omap \<Rightarrow> 'k \<Rightarrow> 'v option" is map_of .

lift_definition om_insert :: "'k::linorder \<Rightarrow> 'v \<Rightarrow> ('k, 'v) omap \<Rightarrow> ('k, 'v) omap" is ins_entry
  by (rule sorted_ins_entry)

lift_definition om_erase :: "'k::linorder \<Rightarrow> ('k, 'v) omap \<Rightarrow> ('k, 'v) omap" is
  "\<lambda>k. filter (\<lambda>e. fst e \<noteq> k)"
  by (rule sorted_filter_entries)

lift_definition om_map :: "('k \<Rightarrow> 'v \<Rightarrow> 'w) \<Rightarrow> ('k::linorder, 'v) omap \<Rightarrow> ('k, 'w) omap" is
  "\<lambda>f. map (\<lambda>(k, v). (k, f k v))"
  by (rule sorted_map_entries)

lift_definition om_filter :: "('k \<Rightarrow> 'v \<Rightarrow> bool) \<Rightarrow> ('k::linorder, 'v) omap \<Rightarrow> ('k, 'v) omap" is
  "\<lambda>P. filter (\<lambda>(k, v). P k v)"
  by (rule sorted_filter_entries)

lift_definition om_collect :: "('k \<Rightarrow> 'v \<Rightarrow> 'w option) \<Rightarrow> ('k::linorder, 'v) omap \<Rightarrow> ('k, 'w) omap" is
  "\<lambda>f. List.map_filter (\<lambda>(k, v). map_option (Pair k) (f k v))"
  by (rule sorted_collect_entries)

text \<open>\<open>map::emplace\<close> leaves an existing entry alone.\<close>

definition om_emplace :: "'k::linorder \<Rightarrow> 'v \<Rightarrow> ('k, 'v) omap \<Rightarrow> ('k, 'v) omap" where
  "om_emplace k v m = (if om_find m k = None then om_insert k v m else m)"

definition om_count :: "('k::linorder, 'v) omap \<Rightarrow> 'k \<Rightarrow> bool" where
  "om_count m k \<longleftrightarrow> om_find m k \<noteq> None"

definition om_size :: "('k::linorder, 'v) omap \<Rightarrow> nat" where
  "om_size m = length (om_entries m)"

definition om_keys :: "('k::linorder, 'v) omap \<Rightarrow> 'k list" where
  "om_keys m = map fst (om_entries m)"

definition om_values :: "('k::linorder, 'v) omap \<Rightarrow> 'v list" where
  "om_values m = map snd (om_entries m)"

subsection \<open>What a lookup sees\<close>

lemma om_find_empty [simp]: "om_find om_empty k = None"
  by transfer simp

lemma om_find_insert [simp]: "om_find (om_insert k v m) j = (if j = k then Some v else om_find m j)"
  by transfer (simp add: map_of_ins_entry)

lemma map_of_filter_key:
  "map_of (filter (\<lambda>e. fst e \<noteq> k) xs) j = (if j = k then None else map_of xs j)"
  by (induction xs) auto

lemma map_of_map_key: "map_of (map (\<lambda>(k, v). (k, f k v)) xs) j = map_option (f j) (map_of xs j)"
  by (induction xs) auto

lemma om_find_erase [simp]: "om_find (om_erase k m) j = (if j = k then None else om_find m j)"
  by transfer (rule map_of_filter_key)

lemma om_find_map [simp]: "om_find (om_map f m) k = map_option (f k) (om_find m k)"
  by transfer (rule map_of_map_key)

lemma map_of_filter_pair:
  "distinct (map fst xs) \<Longrightarrow> map_of (filter (\<lambda>(k, v). P k v) xs) j =
     (case map_of xs j of None \<Rightarrow> None | Some v \<Rightarrow> if P j v then Some v else None)"
  by (induction xs) (auto split: option.splits simp: map_of_eq_None_iff [symmetric])

lemma om_find_filter [simp]:
  fixes k :: "'k::linorder"
  shows "om_find (om_filter P m) k =
     (case om_find m k of None \<Rightarrow> None | Some v \<Rightarrow> if P k v then Some v else None)"
proof (transfer fixing: P k)
  fix xs :: "('k \<times> 'a) list"
  assume "sorted_wrt (<) (map fst xs)"
  then have "distinct (map fst xs)" by (simp add: strict_sorted_iff)
  then show "map_of (filter (\<lambda>(k, v). P k v) xs) k =
      (case map_of xs k of None \<Rightarrow> None | Some v \<Rightarrow> if P k v then Some v else None)"
    by (rule map_of_filter_pair)
qed

lemma om_find_collect [simp]:
  fixes k :: "'k::linorder"
  shows "om_find (om_collect f m) k = Option.bind (om_find m k) (f k)"
proof (transfer fixing: f k)
  fix xs :: "('k \<times> 'b) list"
  assume "sorted_wrt (<) (map fst xs)"
  then have "distinct (map fst xs)" by (simp add: strict_sorted_iff)
  then show "map_of (List.map_filter (\<lambda>(k, v). map_option (Pair k) (f k v)) xs) k =
      Option.bind (map_of xs k) (f k)"
    by (rule map_of_collect)
qed

lemma om_eqI: "(\<And>k. om_find m k = om_find m' k) \<Longrightarrow> m = m'"
  by (transfer, rule map_of_eq_sorted) auto

lemma om_eq_iff: "m = m' \<longleftrightarrow> (\<forall>k. om_find m k = om_find m' k)"
  using om_eqI by blast

lemma in_om_entries [simp]: "(k, v) \<in> set (om_entries m) \<longleftrightarrow> om_find m k = Some v"
proof (transfer fixing: k v)
  fix xs :: "('a \<times> 'b) list"
  assume "sorted_wrt (<) (map fst xs)"
  then have "distinct (map fst xs)" by (simp add: strict_sorted_iff)
  then show "(k, v) \<in> set xs \<longleftrightarrow> map_of xs k = Some v"
    by (auto simp: map_of_eq_Some_iff)
qed

lemma om_entries_ball: "(\<forall>e \<in> set (om_entries m). P e) \<longleftrightarrow> (\<forall>k v. om_find m k = Some v \<longrightarrow> P (k, v))"
  by (auto simp flip: in_om_entries)

lemma om_keys_set [simp]: "k \<in> set (om_keys m) \<longleftrightarrow> om_find m k \<noteq> None"
  by (auto simp: om_keys_def image_iff Bex_def)

lemma om_keys_distinct [simp]: "distinct (om_keys m)"
  by (simp add: om_keys_def)

lemma om_keys_sorted [simp]: "sorted_wrt (<) (om_keys m)"
  by (simp add: om_keys_def)

lemma om_values_set: "v \<in> set (om_values m) \<longleftrightarrow> (\<exists>k. om_find m k = Some v)"
  by (auto simp: om_values_def image_iff Bex_def)

lemma om_count_iff [simp]: "om_count m k \<longleftrightarrow> om_find m k \<noteq> None"
  by (simp add: om_count_def)

lemma om_find_emplace [simp]:
  "om_find (om_emplace k v m) j = (if j = k \<and> om_find m k = None then Some v else om_find m j)"
  by (auto simp: om_emplace_def)

subsection \<open>Round trips of the operations\<close>

lemma om_erase_insert: "om_find m k = None \<Longrightarrow> om_erase k (om_insert k v m) = m"
  by (rule om_eqI) simp

lemma om_insert_erase: "om_find m k = Some v \<Longrightarrow> om_insert k v (om_erase k m) = m"
  by (rule om_eqI) simp

lemma om_insert_same: "om_find m k = Some v \<Longrightarrow> om_insert k v m = m"
  by (rule om_eqI) simp

lemma om_insert_insert [simp]: "om_insert k w (om_insert k v m) = om_insert k w m"
  by (rule om_eqI) simp

lemma om_erase_none: "om_find m k = None \<Longrightarrow> om_erase k m = m"
  by (rule om_eqI) simp

lemma om_map_idI: "(\<And>k v. om_find m k = Some v \<Longrightarrow> f k v = v) \<Longrightarrow> om_map f m = m"
  by (rule om_eqI) (auto simp: map_option_case split: option.split)

lemma om_map_om_map: "om_map g (om_map f m) = om_map (\<lambda>k v. g k (f k v)) m"
  by (rule om_eqI) (simp add: option.map_comp comp_def)

lemma om_map_cong:
  "(\<And>k v. om_find m k = Some v \<Longrightarrow> f k v = g k v) \<Longrightarrow> om_map f m = om_map g m"
  by (rule om_eqI) (auto simp: map_option_case split: option.split)

subsection \<open>Updating the entries of a list of keys\<close>

text \<open>A write through a found iterator; nothing happens when the key is absent.\<close>

definition om_update :: "'k::linorder \<Rightarrow> ('v \<Rightarrow> 'v) \<Rightarrow> ('k, 'v) omap \<Rightarrow> ('k, 'v) omap" where
  "om_update k f m = (case om_find m k of None \<Rightarrow> m | Some v \<Rightarrow> om_insert k (f v) m)"

lemma om_find_update [simp]:
  "om_find (om_update k f m) j = (if j = k then map_option f (om_find m k) else om_find m j)"
  by (simp add: om_update_def split: option.split)

lemma om_find_fold_update:
  "distinct ks \<Longrightarrow> om_find (fold (\<lambda>k. om_update k (f k)) ks m) j =
     (if j \<in> set ks then map_option (f j) (om_find m j) else om_find m j)"
  by (induction ks arbitrary: m) auto

lemma om_find_fold_update_entries:
  "distinct (map fst es) \<Longrightarrow> om_find (fold (\<lambda>(k, x). om_update k (f x)) es m) j =
     (case map_of es j of None \<Rightarrow> om_find m j | Some x \<Rightarrow> map_option (f x) (om_find m j))"
proof (induction es arbitrary: m)
  case (Cons e es)
  obtain k x where e: "e = (k, x)" by fastforce
  have "map_of es k = None" using Cons.prems e by (simp add: map_of_eq_None_iff)
  with Cons e show ?case by (auto split: option.split)
qed simp

lemma map_of_om_entries [simp]: "map_of (om_entries m) = om_find m"
  by (rule ext, transfer) simp

lemma om_find_fold_erase:
  "om_find (fold om_erase ks m) j = (if j \<in> set ks then None else om_find m j)"
  by (induction ks arbitrary: m) auto

lemma om_find_fold_insert:
  "om_find (fold (\<lambda>v. om_insert (key v) v) vs m) j =
     (case find (\<lambda>v. key v = j) (rev vs) of None \<Rightarrow> om_find m j | Some v \<Rightarrow> Some v)"
  by (induction vs arbitrary: m rule: rev_induct) auto

text \<open>Putting entries back: where the written values agree with \<open>m\<close>, the result is \<open>m\<close>.\<close>

lemma om_find_fold_insert_agree:
  "\<forall>v \<in> set vs. om_find m (key v) = Some v \<Longrightarrow>
   om_find (fold (\<lambda>v. om_insert (key v) v) vs m') j =
     (if j \<in> key ` set vs then om_find m j else om_find m' j)"
  by (induction vs arbitrary: m') auto

lemma om_filter_True: "(\<And>k v. om_find m k = Some v \<Longrightarrow> P k v) \<Longrightarrow> om_filter P m = m"
  by (rule om_eqI) (auto split: option.split)

lemma fold_update_keys: "fold (\<lambda>k. om_update k (f k)) (om_keys m) m = om_map f m"
  by (rule om_eqI) (simp add: om_find_fold_update map_option_case split: option.split)

lemma fold_update_where:
  assumes "distinct ks" and "\<And>k v. om_find m k = Some v \<Longrightarrow> k \<notin> set ks \<Longrightarrow> f k v = v"
  shows "fold (\<lambda>k. om_update k (f k)) ks m = om_map f m"
  using assms by (intro om_eqI) (auto simp: om_find_fold_update map_option_case split: option.split)

lemma fold_erase_where:
  assumes "\<And>k v. om_find m k = Some v \<Longrightarrow> k \<in> set ks \<longleftrightarrow> \<not> P k v"
  shows "fold om_erase ks m = om_filter P m"
  using assms by (intro om_eqI) (auto simp: om_find_fold_erase split: option.split)

subsection \<open>Evaluation on concrete maps\<close>

lemma om_entries_empty [simp, code]: "om_entries om_empty = []"
  by transfer simp

lemma om_entries_insert [simp, code]: "om_entries (om_insert k v m) = ins_entry k v (om_entries m)"
  by transfer simp

lemma om_entries_erase [simp, code]: "om_entries (om_erase k m) = filter (\<lambda>e. fst e \<noteq> k) (om_entries m)"
  by transfer simp

lemma om_entries_map [simp, code]: "om_entries (om_map f m) = map (\<lambda>(k, v). (k, f k v)) (om_entries m)"
  by transfer simp

lemma om_entries_filter [simp, code]: "om_entries (om_filter P m) = filter (\<lambda>(k, v). P k v) (om_entries m)"
  by transfer simp

lemma om_entries_collect [simp, code]:
  "om_entries (om_collect f m) = List.map_filter (\<lambda>(k, v). map_option (Pair k) (f k v)) (om_entries m)"
  by transfer simp

lemma om_keys_map [simp]: "om_keys (om_map f m) = om_keys m"
  by (simp add: om_keys_def case_prod_beta comp_def)

lemma om_size_map [simp]: "om_size (om_map f m) = om_size m"
  by (simp add: om_size_def)

instantiation ordered_map :: (equal, "{equal, linorder}") equal
begin

definition equal_ordered_map :: "('b, 'a) omap \<Rightarrow> ('b, 'a) omap \<Rightarrow> bool" where
  "equal_ordered_map m m' \<longleftrightarrow> HOL.equal (om_entries m) (om_entries m')"

instance
  by standard (simp add: equal_ordered_map_def equal_eq om_entries_inject)

end

text \<open>
  A map of a given size bound has room for a key that is not in it; used where the code
  searches for a fresh name.
\<close>

lemma om_keys_length: "length (om_keys m) = om_size m"
  by (simp add: om_keys_def om_size_def)

lemma om_find_finite: "finite {k. om_find m k \<noteq> None}"
proof -
  have "{k. om_find m k \<noteq> None} = set (om_keys m)" by auto
  then show ?thesis by simp
qed

end
