(* ===== verification/Ids.thy ===== *)
theory Ids
  imports Ordered_Map
begin

unbundle bit_operations_syntax

text \<open>
  Entity identity (\<open>model/ids.h\<close>, \<open>model/ids.cpp\<close>): the entity kinds with their file
  prefixes, 128-bit ULIDs as two 64-bit words ordered by value, typed identifiers as a
  phantom-typed wrapper (an identifier of one kind is not one of another), the Crockford
  base-32 codec, and the generator with its 48-bit clock and 80-bit monotonic random field.
\<close>

subsection \<open>Entity kinds\<close>

datatype entity_kind = KInstrument | KPattern | KArrangementLane | KClip | KMixerTrack
  | KEffect | KProject

fun entityPrefix :: "entity_kind \<Rightarrow> string" where
  "entityPrefix KInstrument = ''ins''"
| "entityPrefix KPattern = ''pat''"
| "entityPrefix KArrangementLane = ''lan''"
| "entityPrefix KClip = ''clp''"
| "entityPrefix KMixerTrack = ''mix''"
| "entityPrefix KEffect = ''efx''"
| "entityPrefix KProject = ''prj''"

fun entityNoun :: "entity_kind \<Rightarrow> string" where
  "entityNoun KInstrument = ''instrument''"
| "entityNoun KPattern = ''pattern''"
| "entityNoun KArrangementLane = ''lane''"
| "entityNoun KClip = ''clip''"
| "entityNoun KMixerTrack = ''mixer track''"
| "entityNoun KEffect = ''effect''"
| "entityNoun KProject = ''project''"

subsection \<open>Raw and typed identifiers\<close>

datatype raw_id = RawId (rid_high: "64 word") (rid_low: "64 word")

definition raw_valid :: "raw_id \<Rightarrow> bool" where
  "raw_valid r \<longleftrightarrow> rid_high r \<noteq> 0 \<or> rid_low r \<noteq> 0"

definition raw_zero :: raw_id where "raw_zero = RawId 0 0"

instantiation raw_id :: linorder
begin

definition less_raw_id :: "raw_id \<Rightarrow> raw_id \<Rightarrow> bool" where
  "less_raw_id a b \<longleftrightarrow>
     (if rid_high a \<noteq> rid_high b then rid_high a < rid_high b else rid_low a < rid_low b)"

definition less_eq_raw_id :: "raw_id \<Rightarrow> raw_id \<Rightarrow> bool" where
  "less_eq_raw_id a b \<longleftrightarrow> a = b \<or> a < b"

instance
proof
  fix a b c :: raw_id
  show "(a < b) = (a \<le> b \<and> \<not> b \<le> a)"
    by (auto simp: less_raw_id_def less_eq_raw_id_def split: if_splits)
  show "a \<le> a" by (simp add: less_eq_raw_id_def)
  show "a \<le> b \<Longrightarrow> b \<le> c \<Longrightarrow> a \<le> c"
    by (auto simp: less_raw_id_def less_eq_raw_id_def split: if_splits)
  show "a \<le> b \<Longrightarrow> b \<le> a \<Longrightarrow> a = b"
    by (auto simp: less_raw_id_def less_eq_raw_id_def split: if_splits)
  show "a \<le> b \<or> b \<le> a"
    by (cases a; cases b) (auto simp: less_raw_id_def less_eq_raw_id_def)
qed

end

text \<open>
  \<open>TypedId<K>\<close>.  The kind is a phantom type: \<open>'k\<close> has no values in the datatype, and two
  identifiers of different kinds have different types.
\<close>

datatype 'k typed_id = TypedId (raw: raw_id)

instantiation typed_id :: (type) linorder
begin

definition less_typed_id :: "'a typed_id \<Rightarrow> 'a typed_id \<Rightarrow> bool" where
  "less_typed_id a b \<longleftrightarrow> raw a < raw b"

definition less_eq_typed_id :: "'a typed_id \<Rightarrow> 'a typed_id \<Rightarrow> bool" where
  "less_eq_typed_id a b \<longleftrightarrow> raw a \<le> raw b"

instance
  by standard (auto simp: less_typed_id_def less_eq_typed_id_def typed_id.expand)

end

definition valid_id :: "'k typed_id \<Rightarrow> bool" where
  "valid_id i \<longleftrightarrow> raw_valid (raw i)"

definition no_id :: "'k typed_id" where "no_id = TypedId raw_zero"

datatype instrument_kind = Instrument_Kind
datatype pattern_kind = Pattern_Kind
datatype lane_kind = Lane_Kind
datatype clip_kind = Clip_Kind
datatype track_kind = Track_Kind
datatype effect_kind = Effect_Kind

type_synonym instrument_id = "instrument_kind typed_id"
type_synonym pattern_id = "pattern_kind typed_id"
type_synonym lane_id = "lane_kind typed_id"
type_synonym clip_id = "clip_kind typed_id"
type_synonym track_id = "track_kind typed_id"
type_synonym effect_id = "effect_kind typed_id"

subsection \<open>The ULID text codec\<close>

definition Alphabet :: string where
  "Alphabet = ''0123456789ABCDEFGHJKMNPQRSTVWXYZ''"

definition UlidChars :: nat where "UlidChars = 26"

definition fiveBitsAt :: "raw_id \<Rightarrow> nat \<Rightarrow> nat" where
  "fiveBitsAt r shift =
     (let value =
        (if 64 \<le> shift then drop_bit (shift - 64) (rid_high r)
         else if shift = 0 then rid_low r
         else drop_bit shift (rid_low r) OR push_bit (64 - shift) (rid_high r))
      in unat (value AND 0x1F))"

text \<open>The index of a character in the alphabet: the scanning loop of \<open>decodeChar\<close>.\<close>

fun alphabet_index :: "string \<Rightarrow> char \<Rightarrow> nat \<Rightarrow> nat option" where
  "alphabet_index [] c i = None"
| "alphabet_index (a # as) c i = (if a = c then Some i else alphabet_index as c (Suc i))"

definition is_lower :: "char \<Rightarrow> bool" where
  "is_lower c \<longleftrightarrow> (97::nat) \<le> of_char c \<and> (of_char c :: nat) \<le> 122"

definition to_upper :: "char \<Rightarrow> char" where
  "to_upper c = char_of ((of_char c :: nat) - 32)"

definition decodeChar :: "char \<Rightarrow> nat option" where
  "decodeChar c =
     (case alphabet_index Alphabet c 0 of
        Some i \<Rightarrow> Some i
      | None \<Rightarrow>
          if c \<in> {CHR ''i'', CHR ''I'', CHR ''l'', CHR ''L''} then Some 1
          else if c \<in> {CHR ''o'', CHR ''O''} then Some 0
          else if is_lower c then alphabet_index Alphabet (to_upper c) 0
          else None)"

definition encodeUlid :: "raw_id \<Rightarrow> string" where
  "encodeUlid r = map (\<lambda>i. Alphabet ! fiveBitsAt r (125 - 5 * i)) [0..<UlidChars]"

text \<open>One digit: the 128-bit value moves left by five and the digit drops in.\<close>

definition decode_step :: "raw_id \<Rightarrow> nat \<Rightarrow> raw_id" where
  "decode_step r d =
     RawId (push_bit 5 (rid_high r) OR drop_bit 59 (rid_low r))
           (push_bit 5 (rid_low r) OR of_nat d)"

fun decode_loop :: "raw_id \<Rightarrow> string \<Rightarrow> raw_id option" where
  "decode_loop r [] = Some r"
| "decode_loop r (c # cs) =
     (case decodeChar c of None \<Rightarrow> None | Some d \<Rightarrow> decode_loop (decode_step r d) cs)"

definition decodeUlid :: "string \<Rightarrow> raw_id option" where
  "decodeUlid text = (if length text \<noteq> UlidChars then None else decode_loop raw_zero text)"

text \<open>\<open>TypedId<K>::str\<close> and \<open>TypedId<K>::parse\<close>, for the kind \<open>k\<close>.\<close>

definition id_str :: "entity_kind \<Rightarrow> 'k typed_id \<Rightarrow> string" where
  "id_str k i = entityPrefix k @ ''_'' @ encodeUlid (raw i)"

definition id_parse :: "entity_kind \<Rightarrow> string \<Rightarrow> 'k typed_id option" where
  "id_parse k text =
     (let prefix = entityPrefix k; n = length prefix in
      if length text \<noteq> n + 1 + 26 then None
      else if take n text \<noteq> prefix then None
      else if text ! n \<noteq> CHR ''_'' then None
      else map_option TypedId (decodeUlid (drop (n + 1) text)))"

subsection \<open>The generator\<close>

record id_generator =
  rng_state :: "64 word"
  fixed_now_ms :: "64 word"
  deterministic :: bool
  last_ms :: "64 word"
  last_random_high :: "64 word"
  last_random_low :: "64 word"
  has_last :: bool

definition make_generator :: "64 word \<Rightarrow> 64 word \<Rightarrow> bool \<Rightarrow> id_generator" where
  "make_generator seed start_ms det =
     \<lparr>rng_state = seed OR 1, fixed_now_ms = start_ms, deterministic = det, last_ms = 0,
      last_random_high = 0, last_random_low = 0, has_last = False\<rparr>"

text \<open>\<open>IdGenerator::deterministic\<close>; the clock never moves.\<close>

definition deterministic_generator :: "64 word \<Rightarrow> 64 word \<Rightarrow> id_generator" where
  "deterministic_generator seed start_ms = make_generator seed start_ms True"

text \<open>\<open>clock\<close> is what \<open>system_clock\<close> would read, in milliseconds.\<close>

definition nowMilliseconds :: "64 word \<Rightarrow> id_generator \<Rightarrow> 64 word" where
  "nowMilliseconds clock g =
     (if deterministic g then fixed_now_ms g else clock AND 0xFFFFFFFFFFFF)"

definition nextRandom :: "id_generator \<Rightarrow> 64 word \<times> id_generator" where
  "nextRandom g =
     (let s = rng_state g + 0x9E3779B97F4A7C15;
          z1 = (s XOR drop_bit 30 s) * 0xBF58476D1CE4E5B9;
          z2 = (z1 XOR drop_bit 27 z1) * 0x94D049BB133111EB
      in (z2 XOR drop_bit 31 z2, g\<lparr>rng_state := s\<rparr>))"

definition nextRaw :: "64 word \<Rightarrow> id_generator \<Rightarrow> raw_id \<times> id_generator" where
  "nextRaw clock g =
     (let ms = nowMilliseconds clock g;
          g' = (if has_last g \<and> ms = last_ms g then
                  let low = last_random_low g + 1 in
                  g\<lparr>last_random_low := low,
                    last_random_high :=
                      (if low = 0 then (last_random_high g + 1) AND 0xFFFF
                       else last_random_high g)\<rparr>
                else
                  let (r1, g1) = nextRandom (g\<lparr>last_ms := ms\<rparr>);
                      (r2, g2) = nextRandom g1
                  in g2\<lparr>last_random_high := r1 AND 0xFFFF, last_random_low := r2,
                        has_last := True\<rparr>)
      in (RawId (push_bit 16 (ms AND 0xFFFFFFFFFFFF) OR last_random_high g')
                (last_random_low g'), g'))"

text \<open>\<open>n\<close> identifiers in a row, the clock reading \<open>clock i\<close> at the \<open>i\<close>-th call.\<close>

fun next_ids :: "nat \<Rightarrow> (nat \<Rightarrow> 64 word) \<Rightarrow> id_generator \<Rightarrow> raw_id list \<times> id_generator" where
  "next_ids 0 clock g = ([], g)"
| "next_ids (Suc n) clock g =
     (let (i, g1) = nextRaw (clock 0) g;
          (is, g2) = next_ids n (\<lambda>k. clock (Suc k)) g1
      in (i # is, g2))"

subsection \<open>The codec is a bijection onto its image\<close>

text \<open>Bit \<open>n\<close> of the 128-bit value.\<close>

definition rbit :: "raw_id \<Rightarrow> nat \<Rightarrow> bool" where
  "rbit r n \<longleftrightarrow> (if n < 64 then bit (rid_low r) n else bit (rid_high r) (n - 64))"

lemma raw_eqI:
  assumes "\<And>n. n < 128 \<Longrightarrow> rbit a n = rbit b n"
  shows "a = b"
proof (rule raw_id.expand, intro conjI)
  show "rid_high a = rid_high b"
  proof (rule bit_word_eqI)
    fix n assume "n < LENGTH(64)"
    then show "bit (rid_high a) n = bit (rid_high b) n"
      using assms [of "n + 64"] by (simp add: rbit_def)
  qed
  show "rid_low a = rid_low b"
  proof (rule bit_word_eqI)
    fix n assume "n < LENGTH(64)"
    then show "bit (rid_low a) n = bit (rid_low b) n"
      using assms [of n] by (simp add: rbit_def)
  qed
qed

lemma bit_31: "bit (31::64 word) n \<longleftrightarrow> n < 5"
proof -
  have "(31 :: 64 word) = mask 5" by (simp add: mask_eq_exp_minus_1)
  then show ?thesis by (simp only: bit_mask_iff) auto
qed

lemma bit_low_five: "bit (unat (w AND 0x1F)) n \<longleftrightarrow> n < 5 \<and> bit (w :: 64 word) n"
proof -
  have w: "w AND 0x1F = take_bit 5 w" by (simp add: take_bit_eq_mask mask_eq_exp_minus_1)
  show ?thesis unfolding w by (simp add: bit_unsigned_iff bit_take_bit_iff)
qed

lemma bit_fiveBitsAt:
  assumes "shift \<le> 125"
  shows "bit (fiveBitsAt r shift) n \<longleftrightarrow> n < 5 \<and> shift + n < 128 \<and> rbit r (shift + n)"
  using assms unfolding fiveBitsAt_def Let_def bit_low_five
  by (auto simp: bit_drop_bit_eq bit_or_iff bit_push_bit_iff rbit_def add.commute
      dest: bit_imp_le_length)

lemma fiveBitsAt_less: "fiveBitsAt r shift < 32"
proof -
  have "unat (x AND 31) < 32" for x :: "64 word"
  proof -
    have "unat (x AND 31) \<le> unat (31 :: 64 word)"
      by (rule word_and_le1 [THEN word_le_nat_alt [THEN iffD1]])
    then show ?thesis by simp
  qed
  then show ?thesis by (simp add: fiveBitsAt_def Let_def)
qed

lemma decode_alphabet: "d < 32 \<Longrightarrow> decodeChar (Alphabet ! d) = Some d"
proof -
  have "\<forall>d \<in> set [0..<32]. decodeChar (Alphabet ! d) = Some d"
    by code_simp
  then show "d < 32 \<Longrightarrow> ?thesis" by simp
qed

lemma rbit_decode_step:
  assumes "d < 32" "n < 128"
  shows "rbit (decode_step r d) n = (if n < 5 then bit d n else rbit r (n - 5))"
proof -
  have "bit (of_nat d :: 64 word) n \<longleftrightarrow> n < 5 \<and> bit d n" if "n < 64" for n
  proof -
    have "take_bit 5 d = d" using assms(1) by (simp add: take_bit_nat_eq_self_iff)
    then have "bit d n \<Longrightarrow> n < 5" by (metis bit_take_bit_iff)
    then show ?thesis using that by (auto simp: bit_of_nat_iff)
  qed
  then show ?thesis
    using assms(2)
    by (auto simp: decode_step_def rbit_def bit_or_iff bit_push_bit_iff bit_drop_bit_eq not_less
        dest: bit_imp_le_length)
qed

lemma rbit_decode_loop:
  assumes "\<forall>d \<in> set ds. d < 32" and "n < 128"
    and "decode_loop r (map ((!) Alphabet) ds) = Some s"
  shows "rbit s n = (if n div 5 < length ds then bit (ds ! (length ds - 1 - n div 5)) (n mod 5)
                     else rbit r (n - 5 * length ds))"
  using assms
proof (induction ds arbitrary: r)
  case (Cons d ds)
  have step: "rbit s n = (if n div 5 < length ds then bit (ds ! (length ds - 1 - n div 5)) (n mod 5)
      else rbit (decode_step r d) (n - 5 * length ds))"
    using Cons by (simp add: decode_alphabet)
  show ?case
  proof (cases "n div 5 < length ds")
    case True
    then show ?thesis using step by (simp add: nth_Cons')
  next
    case False
    then have *: "5 * length ds \<le> n" by linarith
    have lt: "n - 5 * length ds < 5 \<longleftrightarrow> n div 5 = length ds" using False by linarith
    have md: "n div 5 = length ds \<Longrightarrow> n - 5 * length ds = n mod 5" by presburger
    show ?thesis
      using step False lt md Cons.prems(1,2) by (auto simp: rbit_decode_step nth_Cons' add.commute)
  qed
qed simp

lemma decode_loop_some:
  "\<forall>d \<in> set ds. d < 32 \<Longrightarrow> \<exists>s. decode_loop r (map ((!) Alphabet) ds) = Some s"
  by (induction ds arbitrary: r) (auto simp: decode_alphabet)

lemma decode_encode_ulid: "decodeUlid (encodeUlid r) = Some r"
proof -
  define ds where "ds = map (\<lambda>i. fiveBitsAt r (125 - 5 * i)) [0..<26]"
  have enc: "encodeUlid r = map ((!) Alphabet) ds"
    by (simp add: encodeUlid_def ds_def UlidChars_def comp_def)
  have lt: "\<forall>d \<in> set ds. d < 32" by (auto simp: ds_def fiveBitsAt_less)
  then obtain s where s: "decode_loop raw_zero (map ((!) Alphabet) ds) = Some s"
    using decode_loop_some by blast
  have "s = r"
  proof (rule raw_eqI)
    fix n :: nat assume n: "n < 128"
    have len: "length ds = 26" by (simp add: ds_def)
    have ix: "n div 5 < 26" "125 - 5 * (25 - n div 5) = 5 * (n div 5)"
      using n by auto
    have "rbit s n = bit (ds ! (25 - n div 5)) (n mod 5)"
      using rbit_decode_loop [OF lt n s] ix(1) n unfolding len by simp
    also have "ds ! (25 - n div 5) = fiveBitsAt r (5 * (n div 5))"
      unfolding ds_def using ix by (subst nth_map) (auto simp del: upt_Suc)
    also have "bit \<dots> (n mod 5) \<longleftrightarrow> rbit r n"
      using n by (subst bit_fiveBitsAt) auto
    finally show "rbit s n = rbit r n" .
  qed
  with s show ?thesis by (simp add: decodeUlid_def enc UlidChars_def ds_def)
qed


lemma length_encodeUlid [simp]: "length (encodeUlid r) = 26"
  by (simp add: encodeUlid_def UlidChars_def)

lemma length_entityPrefix [simp]: "length (entityPrefix k) = 3"
  by (cases k) auto

lemma entityPrefix_inject [simp]: "entityPrefix k = entityPrefix k' \<longleftrightarrow> k = k'"
  by (cases k; cases k') auto

lemma id_parse_str: "id_parse k (id_str k i) = Some i"
  by (simp add: id_parse_def id_str_def Let_def decode_encode_ulid nth_append)

lemma id_parse_other_kind: "k \<noteq> k' \<Longrightarrow> id_parse k' (id_str k i) = None"
  by (simp add: id_parse_def id_str_def Let_def)

subsection \<open>What the generator guarantees\<close>

definition gen_id :: "id_generator \<Rightarrow> raw_id" where
  "gen_id g = RawId (push_bit 16 (last_ms g AND 0xFFFFFFFFFFFF) OR last_random_high g)
                    (last_random_low g)"

definition gen_field :: "id_generator \<Rightarrow> nat" where
  "gen_field g = unat (last_random_high g) * 2 ^ 64 + unat (last_random_low g)"

definition gen_ok :: "id_generator \<Rightarrow> bool" where
  "gen_ok g \<longleftrightarrow> has_last g \<and> unat (last_random_high g) < 2 ^ 16 \<and> unat (last_ms g) < 2 ^ 48"

lemma unat_low_and:
  "unat ((x :: 64 word) AND 0xFFFF) = unat x mod 2 ^ 16"
  "unat (x AND 0xFFFFFFFFFFFF) = unat x mod 2 ^ 48"
proof -
  have "x AND 0xFFFF = take_bit 16 x" "x AND 0xFFFFFFFFFFFF = take_bit 48 x"
    by (simp_all add: take_bit_eq_mask mask_eq_exp_minus_1)
  then show "unat (x AND 0xFFFF) = unat x mod 2 ^ 16"
    "unat (x AND 0xFFFFFFFFFFFF) = unat x mod 2 ^ 48"
    by (metis take_bit_eq_mod unsigned_take_bit_eq)+
qed

lemma unat_high_word:
  assumes "unat (a :: 64 word) < 2 ^ 48" and "unat (h :: 64 word) < 2 ^ 16"
  shows "unat (push_bit 16 a OR h) = unat a * 2 ^ 16 + unat h"
proof -
  have "\<not> bit (push_bit 16 a) n \<or> \<not> bit h n" for n
  proof (cases "n < 16")
    case False
    have "take_bit 16 (unat h) = unat h" using assms(2) by (simp add: take_bit_nat_eq_self_iff)
    then have "bit (unat h) n \<Longrightarrow> n < 16" by (metis bit_take_bit_iff)
    with False have "\<not> bit (unat h) n" by blast
    then show ?thesis by (auto simp: bit_unsigned_iff dest: bit_imp_le_length)
  qed (simp add: bit_push_bit_iff)
  then have "push_bit 16 a OR h = push_bit 16 a + h"
    by (simp add: disjunctive_add)
  moreover have "unat (push_bit 16 a) = unat a * 2 ^ 16"
    using assms(1) by (simp add: push_bit_eq_mult unat_word_ariths)
  ultimately show ?thesis
    using assms by (simp add: unat_word_ariths)
qed

lemma nextRaw_gen_id: "nextRaw clock g = (i, g') \<Longrightarrow> i = gen_id g' \<and> last_ms g' = nowMilliseconds clock g"
  by (auto simp: nextRaw_def Let_def gen_id_def nextRandom_def split: if_splits prod.splits)

lemma nextRaw_ok:
  assumes "nextRaw clock g = (i, g')" and "unat (nowMilliseconds clock g) < 2 ^ 48"
    and "has_last g \<Longrightarrow> gen_ok g"
  shows "gen_ok g'"
  using assms
  by (auto simp: nextRaw_def Let_def nextRandom_def gen_ok_def unat_low_and split: if_splits prod.splits)

lemma nextRaw_fixed:
  assumes "nextRaw clock g = (i, g')"
  shows "deterministic g' = deterministic g \<and> fixed_now_ms g' = fixed_now_ms g \<and> has_last g'"
  using assms by (auto simp: nextRaw_def Let_def nextRandom_def split: if_splits prod.splits)

text \<open>Within one millisecond the 80-bit field counts up, modulo its width.\<close>

lemma nextRaw_counts:
  assumes "nextRaw clock g = (i, g')" and "gen_ok g" and "nowMilliseconds clock g = last_ms g"
  shows "gen_field g' = (gen_field g + 1) mod 2 ^ 80"
proof -
  let ?l = "unat (last_random_low g)" and ?h = "unat (last_random_high g)"
  have l: "?l < 2 ^ 64" using unsigned_less [of "last_random_low g", where ?'a = nat] by simp
  have h: "?h < 2 ^ 16" using assms(2) by (simp add: gen_ok_def)
  have g': "g' = g\<lparr>last_random_low := last_random_low g + 1,
      last_random_high := (if last_random_low g + 1 = 0 then (last_random_high g + 1) AND 0xFFFF
        else last_random_high g)\<rparr>"
    using assms by (auto simp: nextRaw_def Let_def gen_ok_def)
  have l1: "unat (last_random_low g + 1) = (?l + 1) mod 2 ^ 64"
    by (simp add: unat_word_ariths)
  have h1: "unat (last_random_high g + 1) = ?h + 1"
    using h by (simp add: unat_word_ariths)
  show ?thesis
  proof (cases "?l + 1 = 2 ^ 64")
    case True
    then have "last_random_low g + 1 = 0" using l1 by (simp flip: unat_eq_0)
    then have "gen_field g' = ((?h + 1) mod 2 ^ 16) * 2 ^ 64"
      by (simp add: g' gen_field_def unat_low_and h1 del: One_nat_def)
    also have "\<dots> = ((?h + 1) * 2 ^ 64) mod 2 ^ 80"
      by (simp add: mult_mod_left)
    also have "(?h + 1) * 2 ^ 64 = gen_field g + 1" using True by (simp add: gen_field_def)
    finally show ?thesis .
  next
    case False
    with l have lt: "?l + 1 < 2 ^ 64" by linarith
    with l1 have "last_random_low g + 1 \<noteq> 0" by (simp flip: unat_eq_0)
    then have "gen_field g' = gen_field g + 1"
      using lt l1 by (simp add: g' gen_field_def)
    moreover have "gen_field g + 1 < 2 ^ 80" using h lt by (simp add: gen_field_def)
    ultimately show ?thesis by simp
  qed
qed

lemma gen_field_less: "gen_ok g \<Longrightarrow> gen_field g < 2 ^ 80"
  using unsigned_less [of "last_random_low g", where ?'a = nat]
  by (simp add: gen_ok_def gen_field_def)

lemma unat_gen_id_high:
  "gen_ok g \<Longrightarrow> unat (rid_high (gen_id g)) = unat (last_ms g) * 2 ^ 16 + unat (last_random_high g)"
proof -
  assume g: "gen_ok g"
  have "unat (last_ms g AND 0xFFFFFFFFFFFF) = unat (last_ms g)"
    using g by (simp add: unat_low_and gen_ok_def)
  then show ?thesis
    using g unat_high_word [of "last_ms g AND 0xFFFFFFFFFFFF" "last_random_high g"]
    by (simp add: gen_id_def gen_ok_def)
qed

text \<open>Identifiers compare as (millisecond, random field) pairs.\<close>

lemma gen_id_less:
  assumes "gen_ok g" and "gen_ok g'"
    and "last_ms g < last_ms g' \<or> last_ms g = last_ms g' \<and> gen_field g < gen_field g'"
  shows "gen_id g < gen_id g'"
proof -
  let ?H = "\<lambda>g. unat (last_ms g) * 2 ^ 16 + unat (last_random_high g)"
  have l: "unat (last_random_low g) < 2 ^ 64" for g
    using unsigned_less [of "last_random_low g", where ?'a = nat] by simp
  have h: "unat (last_random_high g) < 2 ^ 16" "unat (last_random_high g') < 2 ^ 16"
    using assms by (auto simp: gen_ok_def)
  have "?H g < ?H g' \<or> ?H g = ?H g' \<and> unat (last_random_low g) < unat (last_random_low g')"
    using assms(3) l [of g] l [of g'] h by (auto simp: word_less_nat_alt gen_field_def)
  moreover have "rid_low (gen_id g) = last_random_low g" for g by (simp add: gen_id_def)
  moreover have "rid_high (gen_id g) < rid_high (gen_id g') \<longleftrightarrow> ?H g < ?H g'"
    and "rid_high (gen_id g) = rid_high (gen_id g') \<longleftrightarrow> ?H g = ?H g'"
    using assms(1,2) by (simp_all add: word_less_nat_alt unat_gen_id_high word_unat_eq_iff)
  ultimately show ?thesis
    by (auto simp: less_raw_id_def word_less_nat_alt)
qed

lemma nextRaw_greater:
  assumes "gen_ok g" and "nextRaw clock g = (i, g')"
    and "unat (nowMilliseconds clock g) < 2 ^ 48"
    and "last_ms g \<le> nowMilliseconds clock g"
    and "gen_field g < 2 ^ 80 - 1"
  shows "gen_id g < i"
proof -
  have g': "gen_ok g'" and i: "i = gen_id g'" and ms: "last_ms g' = nowMilliseconds clock g"
    using nextRaw_ok [OF assms(2,3)] nextRaw_gen_id [OF assms(2)] assms(1) by auto
  show ?thesis
  proof (cases "nowMilliseconds clock g = last_ms g")
    case True
    then have "gen_field g' = gen_field g + 1"
      using nextRaw_counts [OF assms(2,1)] assms(5) by simp
    with True show ?thesis unfolding i using assms(1) g' ms by (intro gen_id_less) auto
  next
    case False
    then show ?thesis unfolding i using assms(1,4) g' ms by (intro gen_id_less) auto
  qed
qed


lemma length_next_ids [simp]: "length (fst (next_ids n clock g)) = n"
  by (induction n arbitrary: clock g) (auto simp: case_prod_beta)

lemma next_ids_nth:
  assumes "gen_ok g" and "deterministic g" and "last_ms g = fixed_now_ms g" and "k < n"
  shows "\<exists>gk. gen_ok gk \<and> last_ms gk = last_ms g \<and> fst (next_ids n clock g) ! k = gen_id gk \<and>
          gen_field gk = (gen_field g + 1 + k) mod 2 ^ 80"
  using assms
proof (induction n arbitrary: k g clock)
  case (Suc n)
  obtain i g1 where r: "nextRaw (clock 0) g = (i, g1)" by force
  have now: "nowMilliseconds (clock 0) g = last_ms g"
    using Suc.prems by (simp add: nowMilliseconds_def)
  have g1: "gen_ok g1" "i = gen_id g1" "last_ms g1 = last_ms g" "deterministic g1"
    "last_ms g1 = fixed_now_ms g1"
    using nextRaw_ok [OF r] nextRaw_gen_id [OF r] nextRaw_fixed [OF r] Suc.prems now
    by (auto simp: gen_ok_def)
  have f1: "gen_field g1 = (gen_field g + 1) mod 2 ^ 80"
    using nextRaw_counts [OF r Suc.prems(1) now] .
  let ?rest = "fst (next_ids n (\<lambda>k. clock (Suc k)) g1)"
  have fst_eq: "fst (next_ids (Suc n) clock g) = i # ?rest"
    by (simp add: r case_prod_beta)
  show ?case
  proof (cases k)
    case 0
    then show ?thesis unfolding fst_eq using g1 f1 by auto
  next
    case (Suc k')
    then have "k' < n" using Suc.prems(4) by simp
    from Suc.IH [OF g1(1,4,5) this, of "\<lambda>k. clock (Suc k)"] obtain gk where
      gk: "gen_ok gk" "last_ms gk = last_ms g1" "?rest ! k' = gen_id gk"
      and f: "gen_field gk = (gen_field g1 + 1 + k') mod 2 ^ 80" by blast
    have "gen_field gk = ((gen_field g + 1) mod 2 ^ 80 + (1 + k')) mod 2 ^ 80"
      using f f1 by (simp only: add.assoc)
    also have "\<dots> = (gen_field g + 1 + k) mod 2 ^ 80"
      unfolding mod_add_left_eq by (simp only: Suc) simp
    finally show ?thesis
      unfolding fst_eq Suc using gk g1(3) by (intro exI [of _ gk]) simp
  qed
qed simp

lemma gen_id_eq_field:
  assumes "gen_ok g" "gen_ok g'" "last_ms g = last_ms g'" "gen_id g = gen_id g'"
  shows "gen_field g = gen_field g'"
  using gen_id_less [OF assms(1,2)] gen_id_less [OF assms(2,1)] assms(3,4)
  by (metis less_irrefl linorder_neqE_nat)

lemma next_ids_distinct:
  assumes g: "gen_ok g" "deterministic g" "last_ms g = fixed_now_ms g" and n: "n < 2 ^ 80"
  shows "distinct (gen_id g # fst (next_ids n clock g))"
proof -
  let ?is = "gen_id g # fst (next_ids n clock g)"
  have nth: "\<exists>gk. gen_ok gk \<and> last_ms gk = last_ms g \<and> ?is ! k = gen_id gk \<and>
      gen_field gk = (gen_field g + k) mod 2 ^ 80" if "k < Suc n" for k
  proof (cases k)
    case 0
    then show ?thesis using g(1) gen_field_less by auto
  next
    case (Suc k')
    with that next_ids_nth [OF g, of k' n clock] show ?thesis by auto
  qed
  have "?is ! i \<noteq> ?is ! j" if "i < j" "j < Suc n" for i j
  proof
    assume eq: "?is ! i = ?is ! j"
    from that have "i < Suc n" by simp
    with nth that(2) eq have "(gen_field g + i) mod 2 ^ 80 = (gen_field g + j) mod 2 ^ 80"
      by (metis gen_id_eq_field)
    then have "(2::nat) ^ 80 dvd (gen_field g + j) - (gen_field g + i)"
      using that(1) by (metis mod_eq_dvd_iff_nat add_left_mono less_imp_le)
    with that n show False by (auto dest: dvd_imp_le)
  qed
  then show ?thesis
    unfolding distinct_conv_nth by (metis length_Cons length_next_ids linorder_neqE_nat)
qed

lemma deterministic_first:
  assumes "unat start < 2 ^ 48" and "nextRaw clock (deterministic_generator seed start) = (i, g)"
  shows "gen_ok g \<and> deterministic g \<and> last_ms g = fixed_now_ms g \<and> i = gen_id g"
  using nextRaw_ok [OF assms(2)] nextRaw_gen_id [OF assms(2)] nextRaw_fixed [OF assms(2)] assms(1)
  by (auto simp: deterministic_generator_def make_generator_def nowMilliseconds_def)

lemma deterministic_distinct:
  assumes "unat start < 2 ^ 48" and "n \<le> 2 ^ 80"
  shows "distinct (fst (next_ids n clock (deterministic_generator seed start)))"
proof (cases n)
  case (Suc m)
  obtain i g where r: "nextRaw (clock 0) (deterministic_generator seed start) = (i, g)" by force
  then show ?thesis
    using deterministic_first [OF assms(1) r] next_ids_distinct [of g m "\<lambda>k. clock (Suc k)"]
      assms(2) Suc by (simp add: case_prod_beta)
qed simp

subsection \<open>Properties\<close>

text \<open>
  Writing any 128-bit identifier as 26 Crockford characters and reading it back
  gives the identifier: no bit is lost at the word boundary or in the 3-bit leading digit.
\<close>

theorem ulid_round_trip: "decodeUlid (encodeUlid r) = Some r"
  by (rule decode_encode_ulid)

text \<open>
  Claim C23. The text of a typed identifier parses back to it under its own kind and is
  rejected under every other kind: a reference of the wrong kind is a load error.
\<close>

theorem typed_id_round_trip: "id_parse k' (id_str k i) = (if k = k' then Some i else None)"
  by (simp add: id_parse_str id_parse_other_kind)

text \<open>
  Claim C24. As long as the clock does not go backwards and the 80-bit random field has room,
  the next identifier is greater than the last one: identifiers sort by creation order.
\<close>

theorem nextRaw_increasing:
  assumes "gen_ok g" and "nextRaw clock g = (i, g')"
    and "unat (nowMilliseconds clock g) < 2 ^ 48"
    and "last_ms g \<le> nowMilliseconds clock g"
    and "gen_field g < 2 ^ 80 - 1"
  shows "gen_id g < i"
  using assms by (rule nextRaw_greater)

text \<open>A generator at millisecond 7 whose low word is about to carry.\<close>

definition carry_generator :: id_generator where
  "carry_generator = \<lparr>rng_state = 1, fixed_now_ms = 7, deterministic = False, last_ms = 7,
     last_random_high = 5, last_random_low = - 1, has_last = True\<rparr>"

theorem nextRaw_increasing_witness:
  "gen_id carry_generator < fst (nextRaw 7 carry_generator) \<and>
   fst (nextRaw 7 carry_generator) = RawId (push_bit 16 7 OR 6) 0"
proof
  show "gen_id carry_generator < fst (nextRaw 7 carry_generator)"
    by (rule nextRaw_increasing [where g' = "snd (nextRaw 7 carry_generator)" and clock = 7])
       (simp_all add: carry_generator_def gen_ok_def nowMilliseconds_def gen_field_def unsigned_minus_1_eq_mask mask_eq_exp_minus_1)
  show "fst (nextRaw 7 carry_generator) = RawId (push_bit 16 7 OR 6) 0"
    by (simp add: carry_generator_def nextRaw_def nowMilliseconds_def Let_def)
qed

text \<open>
  A deterministic generator, whose clock never moves, hands out up to \<open>2 ^ 80\<close>
  identifiers without a repetition, whatever its seed: no identifier is reused.
\<close>

theorem deterministic_ids_distinct:
  assumes "unat start < 2 ^ 48" and "n \<le> 2 ^ 80"
  shows "distinct (fst (next_ids n clock (deterministic_generator seed start)))"
  using assms by (rule deterministic_distinct)

theorem deterministic_ids_distinct_witness:
  "distinct (fst (next_ids 1000 (\<lambda>_. 0) (deterministic_generator 42 1700000000000)))"
  by (rule deterministic_ids_distinct) simp_all

end
