(* ===== verification/Floats.thy ===== *)
theory Floats
  imports Complex_Main Prelude "HOL-Library.Log_Nat"
begin

text \<open>
  IEEE 754 \<open>float\<close> and \<open>double\<close>, as far as the engine computes with them.  A finite
  value is its exact rational; an operation is the exact rational operation followed by
  rounding to nearest, ties to even, in the format's precision and exponent range, with
  overflow to an infinity.  The sign of zero is not kept: the one place that could observe
  it (\<open>formatReal\<close>) erases it explicitly.  Conversions to integers outside \<open>int64_t\<close> are
  undefined behaviour in C++; the model gives the mathematical integer there, and 0 for a
  NaN or an infinity.
\<close>

datatype fp = Fin rat | PInf | NInf | NaN

definition ilog2 :: "rat \<Rightarrow> int" where
  "ilog2 q = (let (a, b) = quotient_of q;
                  e = bitlen a - bitlen b
              in if q < 2 powi e then e - 1 else e)"

text \<open>Round half to even.\<close>

definition round_even :: "rat \<Rightarrow> int" where
  "round_even q = (let f = \<lfloor>q\<rfloor>; d = q - of_int f in
     if d < 1 / 2 then f else if 1 / 2 < d then f + 1
     else if even f then f else f + 1)"

text \<open>Rounding to \<open>p\<close> bits with least exponent \<open>emin\<close>, overflowing at \<open>2 ^ emax\<close>.\<close>

definition rnd :: "int \<Rightarrow> int \<Rightarrow> int \<Rightarrow> rat \<Rightarrow> fp" where
  "rnd p emin emax q =
     (if q = 0 then Fin 0
      else let e = max emin (ilog2 \<bar>q\<bar> - p + 1);
               r = of_int (round_even (q / 2 powi e)) * 2 powi e
           in if 2 powi emax \<le> r then PInf else if r \<le> - (2 powi emax) then NInf else Fin r)"

definition rnd64 :: "rat \<Rightarrow> fp" where "rnd64 = rnd 53 (- 1074) 1024"
definition rnd32 :: "rat \<Rightarrow> fp" where "rnd32 = rnd 24 (- 149) 128"

subsection \<open>Arithmetic in \<open>double\<close>\<close>

definition fp_inf :: "bool \<Rightarrow> fp" where
  "fp_inf neg = (if neg then NInf else PInf)"

fun fp_sgn :: "fp \<Rightarrow> int" where
  "fp_sgn (Fin q) = (if q = 0 then 0 else if q < 0 then - 1 else 1)"
| "fp_sgn PInf = 1"
| "fp_sgn NInf = - 1"
| "fp_sgn NaN = 0"

fun dmul :: "fp \<Rightarrow> fp \<Rightarrow> fp" where
  "dmul (Fin a) (Fin b) = rnd64 (a * b)"
| "dmul NaN _ = NaN"
| "dmul _ NaN = NaN"
| "dmul a b = (if fp_sgn a * fp_sgn b = 0 then NaN else fp_inf (fp_sgn a * fp_sgn b < 0))"

fun ddiv :: "fp \<Rightarrow> fp \<Rightarrow> fp" where
  "ddiv (Fin a) (Fin b) =
     (if b = 0 then (if a = 0 then NaN else fp_inf (a < 0)) else rnd64 (a / b))"
| "ddiv NaN _ = NaN"
| "ddiv _ NaN = NaN"
| "ddiv (Fin a) _ = Fin 0"
| "ddiv a (Fin b) = fp_inf (fp_sgn a * (if b < 0 then - 1 else 1) < 0)"
| "ddiv _ _ = NaN"

definition dofint :: "int \<Rightarrow> fp" where
  "dofint n = rnd64 (of_int n)"

text \<open>\<open>static_cast<float>\<close> of a double.\<close>

fun to_float :: "fp \<Rightarrow> fp" where
  "to_float (Fin q) = rnd32 q"
| "to_float x = x"

text \<open>The same operations in \<open>float\<close>.\<close>

fun fmul :: "fp \<Rightarrow> fp \<Rightarrow> fp" where
  "fmul (Fin a) (Fin b) = rnd32 (a * b)"
| "fmul NaN _ = NaN"
| "fmul _ NaN = NaN"
| "fmul a b = (if fp_sgn a * fp_sgn b = 0 then NaN else fp_inf (fp_sgn a * fp_sgn b < 0))"

fun fdiv :: "fp \<Rightarrow> fp \<Rightarrow> fp" where
  "fdiv (Fin a) (Fin b) =
     (if b = 0 then (if a = 0 then NaN else fp_inf (a < 0)) else rnd32 (a / b))"
| "fdiv NaN _ = NaN"
| "fdiv _ NaN = NaN"
| "fdiv (Fin a) _ = Fin 0"
| "fdiv a (Fin b) = fp_inf (fp_sgn a * (if b < 0 then - 1 else 1) < 0)"
| "fdiv _ _ = NaN"

subsection \<open>Comparison: every comparison with a NaN is false\<close>

fun fp_less :: "fp \<Rightarrow> fp \<Rightarrow> bool" where
  "fp_less (Fin a) (Fin b) = (a < b)"
| "fp_less NaN _ = False"
| "fp_less _ NaN = False"
| "fp_less NInf b = (b \<noteq> NInf)"
| "fp_less a PInf = (a \<noteq> PInf)"
| "fp_less _ _ = False"

fun fp_eq :: "fp \<Rightarrow> fp \<Rightarrow> bool" where
  "fp_eq NaN _ = False"
| "fp_eq a b = (a = b)"

definition fp_le :: "fp \<Rightarrow> fp \<Rightarrow> bool" where
  "fp_le a b \<longleftrightarrow> fp_less a b \<or> fp_eq a b"

text \<open>\<open>std::clamp\<close>.\<close>

definition clamp_fp :: "fp \<Rightarrow> fp \<Rightarrow> fp \<Rightarrow> fp" where
  "clamp_fp x lo hi = (if fp_less x lo then lo else if fp_less hi x then hi else x)"

definition fp_is_finite :: "fp \<Rightarrow> bool" where
  "fp_is_finite x \<longleftrightarrow> (case x of Fin _ \<Rightarrow> True | _ \<Rightarrow> False)"

subsection \<open>Conversions to integers\<close>

text \<open>\<open>static_cast<int64_t>\<close> truncates towards zero.\<close>

definition trunc_rat :: "rat \<Rightarrow> int" where
  "trunc_rat q = (if q < 0 then - \<lfloor>- q\<rfloor> else \<lfloor>q\<rfloor>)"

fun dtrunc :: "fp \<Rightarrow> int" where
  "dtrunc (Fin q) = trunc_rat q"
| "dtrunc _ = 0"

text \<open>\<open>std::llround\<close> and \<open>std::round\<close>: halves go away from zero.\<close>

definition round_away :: "rat \<Rightarrow> int" where
  "round_away q = (if q < 0 then - \<lfloor>- q + 1 / 2\<rfloor> else \<lfloor>q + 1 / 2\<rfloor>)"

fun llround :: "fp \<Rightarrow> int" where
  "llround (Fin q) = round_away q"
| "llround _ = 0"

subsection \<open>Exact results\<close>

lemma round_even_of_int [simp]: "round_even (of_int n) = n"
  by (simp add: round_even_def)

lemma round_even_nonneg: "0 \<le> q \<Longrightarrow> 0 \<le> round_even q"
  by (auto simp: round_even_def Let_def)

lemma round_away_of_int [simp]: "round_away (of_int n) = n"
proof -
  have "\<lfloor>(of_int n :: rat) + 1 / 2\<rfloor> = n" for n :: int
    by (simp add: floor_eq_iff)
  moreover have "- (of_int n :: rat) = of_int (- n)" by simp
  ultimately show ?thesis
    unfolding round_away_def by (metis add.inverse_inverse)
qed

lemma round_away_nonneg: "0 \<le> q \<Longrightarrow> 0 \<le> round_away q"
  by (simp add: round_away_def)

lemma round_away_nonpos: "q \<le> 0 \<Longrightarrow> round_away q \<le> 0"
proof (cases "q = 0")
  case False
  moreover assume "q \<le> 0"
  ultimately have "q < 0" by simp
  then show ?thesis by (simp add: round_away_def)
qed (use round_away_of_int [of 0] in simp)

lemma trunc_rat_of_int [simp]: "trunc_rat (of_int n) = n"
proof -
  have "- (of_int n :: rat) = of_int (- n)" by simp
  then show ?thesis unfolding trunc_rat_def by (metis add.inverse_inverse floor_of_int)
qed

lemma trunc_rat_nonneg: "0 \<le> q \<Longrightarrow> 0 \<le> trunc_rat q"
  by (simp add: trunc_rat_def)

lemma ilog2_bounds:
  assumes "0 < q"
  shows "2 powi (ilog2 q) \<le> q" and "q < 2 powi (ilog2 q + 1)"
proof -
  obtain a b where ab: "quotient_of q = (a, b)" by force
  have b: "0 < b" using quotient_of_denom_pos [OF ab] .
  have q: "q = of_int a / of_int b" using quotient_of_div [OF ab] .
  with assms b have a: "0 < a" by (simp add: zero_less_divide_iff)
  define x y where "x = nat (bitlen a - 1)" and "y = nat (bitlen b - 1)"
  have pos: "1 \<le> bitlen a" "1 \<le> bitlen b"
    using a b bitlen_nonneg [of a] bitlen_nonneg [of b]
    by (auto simp: bitlen_eq_zero_iff order_le_less int_one_le_iff_zero_less)
  have xs: "nat (bitlen a) = Suc x" "nat (bitlen b) = Suc y"
    using pos by (auto simp: x_def y_def)
  have ax: "(2::rat) ^ x \<le> of_int a" "of_int a < (2::rat) ^ Suc x"
    using bitlen_bounds [OF a] xs
    by (metis of_int_le_iff of_int_numeral of_int_power x_def,
        metis of_int_less_iff of_int_numeral of_int_power)
  have bx: "(2::rat) ^ y \<le> of_int b" "of_int b < (2::rat) ^ Suc y"
    using bitlen_bounds [OF b] xs
    by (metis of_int_le_iff of_int_numeral of_int_power y_def,
        metis of_int_less_iff of_int_numeral of_int_power)
  define e where "e = int x - int y"
  have pe: "(2::rat) powi e = 2 ^ x / 2 ^ y"
    by (simp add: e_def power_int_diff)
  have pe1: "(2::rat) powi (e + 1) = 2 ^ Suc x / 2 ^ y"
    by (simp add: e_def power_int_diff power_int_add)
  have pe2: "(2::rat) powi (e - 1) = 2 ^ x / 2 ^ Suc y"
    by (simp add: e_def power_int_diff)
  have up: "q < 2 powi (e + 1)"
    unfolding q pe1 using ax bx a b by (intro frac_less) auto
  have lo: "2 powi (e - 1) \<le> q"
    unfolding q pe2 using ax bx a b by (intro frac_le) auto
  have il: "ilog2 q = (if q < 2 powi e then e - 1 else e)"
    using pos by (simp add: ilog2_def ab Let_def e_def x_def y_def)
  show "2 powi (ilog2 q) \<le> q" using lo by (simp add: il)
  show "q < 2 powi (ilog2 q + 1)" using up by (simp add: il)
qed

lemma ilog2_less: "0 < q \<Longrightarrow> q < 2 powi n \<Longrightarrow> ilog2 q < n"
proof -
  assume "0 < q" "q < 2 powi n"
  then have "(2::rat) powi (ilog2 q) < 2 powi n"
    using ilog2_bounds(1) [of q] by simp
  then show ?thesis by (metis not_less power_int_increasing one_le_numeral)
qed

lemma rnd_int:
  assumes "\<bar>n\<bar> < 2 ^ nat p" and "0 < p" and "emin \<le> 0" and "p \<le> emax"
  shows "rnd p emin emax (of_int n) = Fin (of_int n)"
proof (cases "n = 0")
  case False
  define e where "e = max emin (ilog2 \<bar>of_int n\<bar> - p + 1)"
  have n: "(\<bar>of_int n\<bar> :: rat) < 2 powi p"
  proof -
    have "(of_int \<bar>n\<bar> :: rat) < of_int (2 ^ nat p)"
      using assms(1) by (simp only: of_int_less_iff)
    then show ?thesis using \<open>0 < p\<close> by (simp add: power_int_def)
  qed
  then have "ilog2 \<bar>of_int n\<bar> < p"
    using False by (intro ilog2_less) auto
  then have e: "e \<le> 0" using assms(3) by (simp add: e_def)
  have "(of_int n :: rat) / 2 powi e = of_int (n * 2 ^ nat (- e))"
    using e by (auto simp: power_int_def power_one_over)
  then have r: "of_int (round_even (of_int n / 2 powi e)) * 2 powi e = (of_int n :: rat)"
    by (metis nonzero_eq_divide_eq power_int_not_zero round_even_of_int zero_neq_numeral)
  have "(2::rat) powi p \<le> 2 powi emax"
    using assms(4) by (intro power_int_increasing) auto
  with n have "(of_int n :: rat) < 2 powi emax" "- (2 powi emax) < (of_int n :: rat)"
    by linarith+
  with False r show ?thesis
    unfolding rnd_def by (simp add: Let_def flip: e_def)
qed (simp add: rnd_def)

lemma dofint_exact: "\<bar>n\<bar> < 2 ^ 53 \<Longrightarrow> dofint n = Fin (of_int n)"
  unfolding dofint_def rnd64_def by (rule rnd_int) auto

lemma rnd64_int: "\<bar>n\<bar> < 2 ^ 53 \<Longrightarrow> rnd64 (of_int n) = Fin (of_int n)"
  unfolding rnd64_def by (rule rnd_int) auto

lemma rnd_nonneg:
  assumes "0 \<le> q"
  shows "rnd p emin emax q = PInf \<or> (\<exists>r \<ge> 0. rnd p emin emax q = Fin r)"
proof (cases "q = 0")
  case False
  define e where "e = max emin (ilog2 \<bar>q\<bar> - p + 1)"
  have r: "0 \<le> (of_int (round_even (q / 2 powi e)) * 2 powi e :: rat)"
    using assms by (intro mult_nonneg_nonneg) (auto intro: round_even_nonneg)
  have "0 < (2 :: rat) powi emax" by simp
  with r have "\<not> (of_int (round_even (q / 2 powi e)) * 2 powi e :: rat) \<le> - (2 powi emax)"
    by linarith
  with r False show ?thesis
    unfolding rnd_def by (auto simp: Let_def simp flip: e_def)
qed (simp add: rnd_def)

text \<open>Multiplying a value by an exact 1 changes nothing that is already representable.\<close>

lemma dmul_one_int: "\<bar>n\<bar> < 2 ^ 53 \<Longrightarrow> dmul (dofint n) (Fin 1) = Fin (of_int n)"
  by (simp add: dofint_exact rnd64_int)

end
