(* ===== verification/Notes.thy ===== *)
theory Notes
  imports Floats Ordered_Map "HOL-Library.Product_Lexorder" "HOL-Library.Multiset"
begin

text \<open>
  The one note representation (\<open>model/note_sequence.h\<close>): ticks, velocities, notes, and the
  sequence that keeps its notes in canonical order (start, then key, then length).  Ticks are
  \<open>int64_t\<close>; they are mathematical integers here, and the validity of a note bounds them.
\<close>

type_synonym ticks = int
type_synonym velocity = int  \<comment> \<open>\<open>uint16_t\<close>\<close>

definition TicksPerQuarter :: ticks where "TicksPerQuarter = 960"
definition TicksPerBarFourFour :: ticks where "TicksPerBarFourFour = TicksPerQuarter * 4"
definition MaxVelocity :: velocity where "MaxVelocity = 16383"
definition DefaultVelocity :: velocity where "DefaultVelocity = 100 * 129"

definition velocityFromMidi1 :: "int \<Rightarrow> velocity" where
  "velocityFromMidi1 midi = to_uint16 (midi * 129)"

definition velocityToUnit :: "velocity \<Rightarrow> fp" where
  "velocityToUnit v = fdiv (rnd32 (of_int v)) (rnd32 (of_int MaxVelocity))"

record Note =
  note_start :: ticks
  note_length :: ticks
  note_key :: int
  note_velocity :: velocity

definition isValidNote :: "Note \<Rightarrow> bool" where
  "isValidNote n \<longleftrightarrow> note_start n \<ge> 0 \<and> note_length n > 0 \<and> note_key n \<ge> 0 \<and> note_key n \<le> 127 \<and>
     note_velocity n \<le> MaxVelocity \<and> note_length n \<le> int64_max - note_start n"

definition noteOrderBefore :: "Note \<Rightarrow> Note \<Rightarrow> bool" where
  "noteOrderBefore a b =
     (if note_start a \<noteq> note_start b then note_start a < note_start b
      else if note_key a \<noteq> note_key b then note_key a < note_key b
      else note_length a < note_length b)"

text \<open>The key the comparison sorts by, for the library's stable sort.\<close>

definition note_rank :: "Note \<Rightarrow> int \<times> int \<times> int" where
  "note_rank n = (note_start n, note_key n, note_length n)"

lemma noteOrderBefore_rank: "noteOrderBefore a b \<longleftrightarrow> note_rank a < note_rank b"
  by (auto simp: noteOrderBefore_def note_rank_def)

subsection \<open>The sequence\<close>

type_synonym note_sequence = "Note list"

definition isSorted :: "note_sequence \<Rightarrow> bool" where
  "isSorted xs \<longleftrightarrow> sorted_wrt (\<lambda>a b. \<not> noteOrderBefore b a) xs"

lemma isSorted_rank: "isSorted xs \<longleftrightarrow> sorted (map note_rank xs)"
  by (simp add: isSorted_def noteOrderBefore_rank not_less sorted_wrt_map)

text \<open>\<open>insert\<close>: at \<open>upper_bound\<close>, returning the index the note landed at.\<close>

definition seq_insert :: "Note \<Rightarrow> note_sequence \<Rightarrow> nat \<times> note_sequence" where
  "seq_insert n xs =
     (let index = partition_point (\<lambda>x. \<not> noteOrderBefore n x) xs in (index, insert_at index n xs))"

definition seq_eraseAt :: "nat \<Rightarrow> note_sequence \<Rightarrow> note_sequence" where
  "seq_eraseAt index xs = (if index < length xs then erase_at index xs else xs)"

text \<open>
  \<open>erase\<close>: from \<open>lower_bound\<close>, scan the run of notes of equal rank for an equal note.
\<close>

fun erase_run :: "Note \<Rightarrow> note_sequence \<Rightarrow> note_sequence option" where
  "erase_run n [] = None"
| "erase_run n (x # xs) =
     (if noteOrderBefore n x then None
      else if x = n then Some xs
      else map_option ((#) x) (erase_run n xs))"

definition seq_erase :: "Note \<Rightarrow> note_sequence \<Rightarrow> bool \<times> note_sequence" where
  "seq_erase n xs =
     (let p = partition_point (\<lambda>x. noteOrderBefore x n) xs in
      case erase_run n (drop p xs) of
        None \<Rightarrow> (False, xs)
      | Some ys \<Rightarrow> (True, take p xs @ ys))"

definition assignSorted :: "Note list \<Rightarrow> note_sequence" where
  "assignSorted notes = (if isSorted notes then notes else sort_key note_rank notes)"

definition startingIn :: "ticks \<Rightarrow> ticks \<Rightarrow> note_sequence \<Rightarrow> Note list" where
  "startingIn start end xs =
     (if end \<le> start then []
      else let first = partition_point (\<lambda>n. note_start n < start) xs;
               count = partition_point (\<lambda>n. note_start n < end) (drop first xs)
           in take count (drop first xs))"

definition contentEnd :: "note_sequence \<Rightarrow> ticks" where
  "contentEnd xs = fold_max 0 (map (\<lambda>n. note_start n + note_length n) xs)"

subsection \<open>Order\<close>

lemma assignSorted_eq: "assignSorted notes = sort_key note_rank notes"
  by (simp add: assignSorted_def isSorted_rank sort_key_id_if_sorted)

lemma assignSorted_sorted [simp]: "isSorted (assignSorted notes)"
  by (simp add: assignSorted_eq isSorted_rank)

lemma assignSorted_mset [simp]: "mset (assignSorted notes) = mset notes"
  by (simp add: assignSorted_eq)

lemma assignSorted_set [simp]: "set (assignSorted notes) = set notes"
  by (simp add: assignSorted_eq)

lemma assignSorted_eq_Nil [simp]: "assignSorted notes = [] \<longleftrightarrow> notes = []"
  by (metis assignSorted_set set_empty)

lemma assignSorted_id: "isSorted notes \<Longrightarrow> assignSorted notes = notes"
  by (simp add: assignSorted_def)

lemma takeWhile_sorted:
  assumes "sorted (map f xs)" and "\<And>a b. f a \<le> f b \<Longrightarrow> P b \<Longrightarrow> P a"
  shows "takeWhile P xs = filter P xs"
  using assms(1)
proof (induction xs)
  case (Cons x xs)
  show ?case
  proof (cases "P x")
    case False
    with Cons.prems have "\<forall>y \<in> set xs. \<not> P y" by (auto dest: assms(2))
    with False show ?thesis by (simp add: filter_empty_conv)
  qed (use Cons in simp)
qed simp

lemma dropWhile_sorted:
  assumes "sorted (map f xs)" and "\<And>a b. f a \<le> f b \<Longrightarrow> P b \<Longrightarrow> P a"
  shows "dropWhile P xs = filter (\<lambda>x. \<not> P x) xs"
  using assms(1)
proof (induction xs)
  case (Cons x xs)
  show ?case
  proof (cases "P x")
    case False
    with Cons.prems have "\<forall>y \<in> set xs. \<not> P y" by (auto dest: assms(2))
    with False show ?thesis by (simp add: filter_id_conv)
  qed (use Cons in simp)
qed simp

lemma filter_split_sorted:
  assumes "sorted (map f xs)" and "\<And>a b. f a \<le> f b \<Longrightarrow> P b \<Longrightarrow> P a"
  shows "filter P xs @ filter (\<lambda>x. \<not> P x) xs = xs"
  using takeWhile_sorted [of f xs P, OF assms] dropWhile_sorted [of f xs P, OF assms]
    takeWhile_dropWhile_id [of P xs] by simp

lemma drop_partition_point: "drop (partition_point P xs) xs = dropWhile P xs"
  by (simp add: partition_point_def dropWhile_eq_drop)

lemma take_partition_point: "take (partition_point P xs) xs = takeWhile P xs"
  unfolding partition_point_def by (rule takeWhile_eq_take [symmetric])

lemma seq_insert_split:
  "snd (seq_insert n xs) = takeWhile (\<lambda>x. \<not> noteOrderBefore n x) xs @ n #
     dropWhile (\<lambda>x. \<not> noteOrderBefore n x) xs"
  by (simp add: seq_insert_def Let_def insert_at_def take_partition_point drop_partition_point)

lemma seq_insert_mset: "mset (snd (seq_insert n xs)) = add_mset n (mset xs)"
proof -
  let ?P = "\<lambda>x. \<not> noteOrderBefore n x"
  have "mset xs = mset (takeWhile ?P xs) + mset (dropWhile ?P xs)"
    by (metis mset_append takeWhile_dropWhile_id)
  then show ?thesis by (simp add: seq_insert_split)
qed

lemma seq_insert_sorted:
  assumes "isSorted xs"
  shows "isSorted (snd (seq_insert n xs))"
proof -
  let ?P = "\<lambda>x. note_rank x \<le> note_rank n"
  have s: "sorted (map note_rank xs)" using assms by (simp add: isSorted_rank)
  have P: "\<And>a b. note_rank a \<le> note_rank b \<Longrightarrow> ?P b \<Longrightarrow> ?P a" by (rule order_trans)
  have "snd (seq_insert n xs) = filter ?P xs @ n # filter (\<lambda>x. \<not> ?P x) xs"
    by (simp add: seq_insert_split noteOrderBefore_rank not_less takeWhile_sorted [OF s P]
        dropWhile_sorted [OF s P])
  then show ?thesis
    using s by (auto simp: isSorted_rank sorted_append not_le intro: sorted_filter less_imp_le)
qed

lemma seq_insert_index:
  "fst (seq_insert n xs) < length (snd (seq_insert n xs)) \<and>
   snd (seq_insert n xs) ! fst (seq_insert n xs) = n"
  using partition_point_le [of "\<lambda>x. \<not> noteOrderBefore n x" xs]
  by (simp add: seq_insert_def Let_def insert_at_def nth_append)

lemma erase_run_Some:
  "erase_run n xs = Some ys \<Longrightarrow> \<exists>us vs. xs = us @ n # vs \<and> ys = us @ vs"
proof (induction xs arbitrary: ys)
  case (Cons x xs)
  show ?case
  proof (cases "x = n")
    case True
    with Cons.prems show ?thesis by (auto split: if_splits intro: exI [of _ "[]"])
  next
    case False
    with Cons.prems obtain zs where "erase_run n xs = Some zs" "ys = x # zs"
      by (auto split: if_splits)
    with Cons.IH obtain us vs where "xs = us @ n # vs" "ys = (x # us) @ vs" by fastforce
    then show ?thesis by (metis append_Cons)
  qed
qed simp

lemma erase_run_None:
  assumes "sorted (map note_rank xs)" and "erase_run n xs = None"
  shows "n \<notin> set xs"
  using assms
proof (induction xs)
  case (Cons x xs)
  then show ?case
    by (auto simp: noteOrderBefore_rank split: if_splits)
qed simp

text \<open>On an ordered sequence, \<open>erase\<close> removes exactly one equal note, or reports its absence.\<close>

lemma seq_erase_spec:
  assumes "isSorted xs"
  shows "fst (seq_erase n xs) \<longleftrightarrow> n \<in> set xs"
    and "mset (snd (seq_erase n xs)) = mset xs - {# n #}"
    and "isSorted (snd (seq_erase n xs))"
proof -
  let ?P = "\<lambda>x. note_rank x < note_rank n"
  have s: "sorted (map note_rank xs)" using assms by (simp add: isSorted_rank)
  have P: "\<And>a b. note_rank a \<le> note_rank b \<Longrightarrow> ?P b \<Longrightarrow> ?P a" by (rule le_less_trans)
  let ?us = "filter ?P xs" and ?vs = "filter (\<lambda>x. \<not> ?P x) xs"
  have xs: "?us @ ?vs = xs" using filter_split_sorted [OF s P] .
  have eq: "seq_erase n xs = (case erase_run n ?vs of None \<Rightarrow> (False, xs)
      | Some ys \<Rightarrow> (True, ?us @ ys))"
    by (simp add: seq_erase_def Let_def take_partition_point drop_partition_point
        noteOrderBefore_rank takeWhile_sorted [OF s P] dropWhile_sorted [OF s P]
        split: option.split)
  have notin: "n \<notin> set ?us" by simp
  have sv: "sorted (map note_rank ?vs)" using s by (rule sorted_filter)
  show "fst (seq_erase n xs) \<longleftrightarrow> n \<in> set xs"
  proof (cases "erase_run n ?vs")
    case None
    then show ?thesis using erase_run_None [OF sv None] by (auto simp: eq)
  next
    case (Some ys)
    then have "n \<in> set ?vs" using erase_run_Some by fastforce
    then show ?thesis using Some by (auto simp: eq)
  qed
  show "mset (snd (seq_erase n xs)) = mset xs - {# n #}"
  proof (cases "erase_run n ?vs")
    case None
    then have "n \<notin> set xs" using erase_run_None [OF sv None] by auto
    then show ?thesis using None by (simp add: eq)
  next
    case (Some ys)
    then obtain as bs where ab: "?vs = as @ n # bs" "ys = as @ bs" using erase_run_Some by blast
    have "mset xs = mset (?us @ as @ n # bs)" using xs ab(1) by metis
    then have "mset xs = add_mset n (mset (?us @ as @ bs))" by simp
    then have "mset xs - {# n #} = mset (?us @ as @ bs)" by (metis add_mset_remove_trivial)
    then show ?thesis using Some ab(2) by (simp only: eq option.case snd_conv)
  qed
  show "isSorted (snd (seq_erase n xs))"
  proof (cases "erase_run n ?vs")
    case (Some ys)
    then obtain as bs where ab: "?vs = as @ n # bs" "ys = as @ bs" using erase_run_Some by blast
    have "sorted (map note_rank (?us @ as @ n # bs))" using s xs ab(1) by metis
    then show ?thesis using Some ab(2) by (auto simp: eq isSorted_rank sorted_append)
  qed (use assms eq in simp)
qed

lemma seq_erase_insert:
  assumes "isSorted xs" and "n \<notin> set xs"
  shows "seq_erase n (snd (seq_insert n xs)) = (True, xs)"
proof -
  let ?le = "\<lambda>x. note_rank x \<le> note_rank n" and ?lt = "\<lambda>x. note_rank x < note_rank n"
  have s: "sorted (map note_rank xs)" using assms by (simp add: isSorted_rank)
  have le: "\<And>a b. note_rank a \<le> note_rank b \<Longrightarrow> ?le b \<Longrightarrow> ?le a" by (rule order_trans)
  have lt: "\<And>a b. note_rank a \<le> note_rank b \<Longrightarrow> ?lt b \<Longrightarrow> ?lt a" by (rule le_less_trans)
  define ys where "ys = snd (seq_insert n xs)"
  have ys: "ys = filter ?le xs @ n # filter (\<lambda>x. \<not> ?le x) xs"
    by (simp add: ys_def seq_insert_split noteOrderBefore_rank not_less takeWhile_sorted [OF s le]
        dropWhile_sorted [OF s le])
  have sy: "sorted (map note_rank ys)"
    using seq_insert_sorted [OF assms(1), of n] by (simp add: ys_def isSorted_rank)
  let ?eq = "filter (\<lambda>x. note_rank x = note_rank n) xs"
  have le_split: "filter ?le xs = filter ?lt xs @ ?eq"
  proof -
    have "sorted (map note_rank (filter ?le xs))" using s by (rule sorted_filter)
    then have "filter ?le xs = filter ?lt (filter ?le xs) @ filter (\<lambda>x. \<not> ?lt x) (filter ?le xs)"
      using filter_split_sorted [of note_rank "filter ?le xs" ?lt] lt by simp
    also have "\<dots> = filter ?lt xs @ ?eq"
      by (auto intro!: arg_cong2 [where f = append] filter_cong)
    finally show ?thesis .
  qed
  have run: "erase_run n (us @ n # vs) = Some (us @ vs)"
    if "\<forall>x \<in> set us. note_rank x = note_rank n \<and> x \<noteq> n" for us vs
    using that by (induction us) (auto simp: noteOrderBefore_rank)
  have "erase_run n (?eq @ n # filter (\<lambda>x. \<not> ?le x) xs) = Some (?eq @ filter (\<lambda>x. \<not> ?le x) xs)"
    using assms(2) by (intro run) auto
  moreover have "filter ?lt ys = filter ?lt xs" "filter (\<lambda>x. \<not> ?lt x) ys = ?eq @ n # filter (\<lambda>x. \<not> ?le x) xs"
    unfolding ys
    by (auto simp: le_split filter_empty_conv intro!: filter_cong arg_cong2 [where f = append]
        arg_cong [where f = "(#) n"])
  ultimately have "seq_erase n ys = (True, filter ?lt xs @ ?eq @ filter (\<lambda>x. \<not> ?le x) xs)"
    by (simp add: seq_erase_def Let_def take_partition_point drop_partition_point
        noteOrderBefore_rank takeWhile_sorted [OF sy lt] dropWhile_sorted [OF sy lt])
  also have "filter ?lt xs @ ?eq @ filter (\<lambda>x. \<not> ?le x) xs = xs"
    using takeWhile_dropWhile_id [of ?le xs]
    by (simp add: takeWhile_sorted [OF s le] dropWhile_sorted [OF s le] flip: le_split append_assoc)
  finally show ?thesis by (simp add: ys_def)
qed

lemma startingIn_filter:
  assumes "isSorted xs"
  shows "startingIn s e xs = filter (\<lambda>n. s \<le> note_start n \<and> note_start n < e) xs"
proof -
  have s: "sorted (map note_start xs)"
    using assms unfolding isSorted_rank
    by (induction xs) (auto simp: note_rank_def less_eq_prod_def)
  have P: "\<And>a b c. note_start a \<le> note_start b \<Longrightarrow> note_start b < c \<Longrightarrow> note_start a < c"
    by (rule le_less_trans)
  have "sorted (map note_start (filter (\<lambda>n. \<not> note_start n < s) xs))"
    using s by (rule sorted_filter)
  then show ?thesis
    by (auto simp: startingIn_def Let_def take_partition_point drop_partition_point
        dropWhile_sorted [OF s P] takeWhile_sorted [OF _ P] not_less filter_empty_conv
        intro!: filter_cong)
qed

subsection \<open>Bounds\<close>

lemma contentEnd_nonneg [simp]: "0 \<le> contentEnd xs"
  unfolding contentEnd_def by (rule fold_max_ge_start)

lemma contentEnd_ge: "n \<in> set xs \<Longrightarrow> note_start n + note_length n \<le> contentEnd xs"
  unfolding contentEnd_def by (rule fold_max_ge) simp

lemma contentEnd_Nil [simp]: "contentEnd [] = 0"
  by (simp add: contentEnd_def)

lemma contentEnd_attained:
  "contentEnd xs = 0 \<or> (\<exists>n \<in> set xs. contentEnd xs = note_start n + note_length n)"
  using fold_max_in [of 0 "map (\<lambda>n. note_start n + note_length n) xs"]
  by (auto simp: contentEnd_def)

lemma contentEnd_int64: "\<forall>n \<in> set xs. isValidNote n \<Longrightarrow> in_int64 (contentEnd xs)"
  using contentEnd_attained [of xs] contentEnd_nonneg [of xs]
  by (auto simp: in_int64_def isValidNote_def int64_min_def int64_max_def)

subsection \<open>Properties\<close>


definition sample_notes :: "Note list" where
  "sample_notes = [\<lparr>note_start = 0, note_length = 240, note_key = 60, note_velocity = 100\<rparr>,
     \<lparr>note_start = 0, note_length = 240, note_key = 64, note_velocity = 90\<rparr>,
     \<lparr>note_start = 960, note_length = 120, note_key = 60, note_velocity = 80\<rparr>]"

lemma sample_notes_sorted: "isSorted sample_notes"
  by (simp add: isSorted_def sample_notes_def noteOrderBefore_def)


text \<open>
  Claim C26. On a sorted sequence the two binary searches of \<open>startingIn\<close> return exactly the notes
  that start in \<open>[start, end)\<close>, in order.
\<close>

theorem startingIn_exact:
  assumes "isSorted xs"
  shows "startingIn s e xs = filter (\<lambda>n. s \<le> note_start n \<and> note_start n < e) xs"
  using assms by (rule startingIn_filter)

theorem startingIn_exact_witness: "length (startingIn 0 960 sample_notes) = 2"
  using startingIn_exact [OF sample_notes_sorted, of 0 960] by (simp add: sample_notes_def)

end
