(* ===== verification/Entities.thy ===== *)
theory Entities
  imports Ids Notes
begin

text \<open>
  The domain entities (\<open>model/entities.h\<close>): the signal axis (plugins, instruments, effect
  slots, mixer tracks), the time axis (patterns, lanes, clips with their three sources), the
  derived geometry of audio clips and patterns, and the project-level values.  A colour or a
  name is a byte string; a \<open>float\<close> or \<open>double\<close> field is an \<open>fp\<close>.
\<close>

type_synonym param_id = "32 word"
type_synonym port_id = "32 word"

definition InvalidParamId :: param_id where "InvalidParamId = 0xFFFFFFFF"

subsection \<open>Signal axis\<close>

datatype PluginFormat = FmtUnknown | FmtBuiltin | FmtClap | FmtVst3 | FmtAudioUnit

record PluginRef =
  pr_format :: PluginFormat
  pr_id :: string
  pr_name :: string
  pr_vendor :: string
  pr_path_hint :: string
  pr_state_ref :: string
  pr_state_sha256 :: string

definition default_plugin_ref :: PluginRef where
  "default_plugin_ref = \<lparr>pr_format = FmtUnknown, pr_id = '''', pr_name = '''', pr_vendor = '''',
     pr_path_hint = '''', pr_state_ref = '''', pr_state_sha256 = ''''\<rparr>"

record OutputRoute =
  route_port :: port_id
  route_track :: track_id

record NoteDefaults =
  nd_velocity :: velocity
  nd_pan :: fp
  nd_pitch_offset :: int

definition default_note_defaults :: NoteDefaults where
  "default_note_defaults = \<lparr>nd_velocity = DefaultVelocity, nd_pan = Fin 0, nd_pitch_offset = 0\<rparr>"

record ChannelSettings =
  cs_gate_percent :: int
  cs_shift_ticks :: ticks
  cs_cut_group :: int
  cs_cut_by_group :: int
  cs_max_polyphony :: int
  cs_mono :: bool
  cs_portamento :: bool
  cs_root_key :: int
  cs_key_low :: int
  cs_key_high :: int
  cs_fine_tune_cents :: int
  cs_velocity_tracking :: fp
  cs_mod_x :: int
  cs_mod_y :: int
  cs_arpeggiator :: bool
  cs_arpeggiator_time_ticks :: int
  cs_arpeggiator_gate_percent :: int
  cs_echo_time_ticks :: int
  cs_echo_feedback_percent :: int

definition default_channel_settings :: ChannelSettings where
  "default_channel_settings = \<lparr>cs_gate_percent = 100, cs_shift_ticks = 0, cs_cut_group = 0,
     cs_cut_by_group = 0, cs_max_polyphony = 0, cs_mono = False, cs_portamento = False,
     cs_root_key = 60, cs_key_low = 0, cs_key_high = 127, cs_fine_tune_cents = 0,
     cs_velocity_tracking = Fin 1, cs_mod_x = 0, cs_mod_y = 0, cs_arpeggiator = False,
     cs_arpeggiator_time_ticks = TicksPerQuarter div 4, cs_arpeggiator_gate_percent = 100,
     cs_echo_time_ticks = 0, cs_echo_feedback_percent = 0\<rparr>"

record Instrument =
  inst_id :: instrument_id
  inst_name :: string
  inst_color :: string
  inst_order :: int
  inst_plugin :: PluginRef
  inst_note_defaults :: NoteDefaults
  inst_channel_settings :: ChannelSettings
  inst_routing :: "OutputRoute list"
  inst_muted :: bool
  inst_soloed :: bool
  inst_gain :: fp
  inst_pan :: fp

definition default_instrument :: Instrument where
  "default_instrument = \<lparr>inst_id = no_id, inst_name = '''', inst_color = ''#6C8CFF'',
     inst_order = 0, inst_plugin = default_plugin_ref, inst_note_defaults = default_note_defaults,
     inst_channel_settings = default_channel_settings, inst_routing = [], inst_muted = False,
     inst_soloed = False, inst_gain = Fin 1, inst_pan = Fin 0\<rparr>"

record EffectSlot =
  slot_id :: effect_id
  slot_plugin :: PluginRef
  slot_bypassed :: bool
  slot_params :: "(param_id, fp) omap"

definition default_effect_slot :: EffectSlot where
  "default_effect_slot = \<lparr>slot_id = no_id, slot_plugin = default_plugin_ref,
     slot_bypassed = False, slot_params = om_empty\<rparr>"

record MixerTrack =
  track_id :: track_id
  track_name :: string
  track_output :: "track_id option"
  track_gain :: fp
  track_pan :: fp
  track_muted :: bool
  track_soloed :: bool
  track_effects :: "EffectSlot list"

definition default_mixer_track :: MixerTrack where
  "default_mixer_track = \<lparr>track_id = no_id, track_name = '''', track_output = None,
     track_gain = Fin 1, track_pan = Fin 0, track_muted = False, track_soloed = False,
     track_effects = []\<rparr>"

definition findEffect :: "MixerTrack \<Rightarrow> effect_id \<Rightarrow> EffectSlot option" where
  "findEffect t e = find (\<lambda>s. slot_id s = e) (track_effects t)"

subsection \<open>Time axis\<close>

record TimeSignature =
  ts_numerator :: int
  ts_denominator :: int

definition common_time :: TimeSignature where
  "common_time = \<lparr>ts_numerator = 4, ts_denominator = 4\<rparr>"

record AutomationPoint =
  pt_position :: ticks
  pt_value :: fp

datatype TargetKind = TargetInstrument | TargetMixerTrack | TargetEffect

record AutomationSource =
  as_target_kind :: TargetKind
  as_instrument :: instrument_id
  as_mixer_track :: track_id
  as_effect :: effect_id
  as_parameter :: param_id
  as_points :: "AutomationPoint list"

definition default_automation :: AutomationSource where
  "default_automation = \<lparr>as_target_kind = TargetInstrument, as_instrument = no_id,
     as_mixer_track = no_id, as_effect = no_id, as_parameter = InvalidParamId, as_points = []\<rparr>"

record Pattern =
  pat_id :: pattern_id
  pat_name :: string
  pat_color :: string
  pat_length :: ticks
  pat_order :: int
  pat_group :: string
  pat_time_signature :: TimeSignature
  pat_swing :: fp
  pat_sequences :: "(instrument_id, note_sequence) omap"
  pat_automation :: "AutomationSource list"

definition default_pattern :: Pattern where
  "default_pattern = \<lparr>pat_id = no_id, pat_name = '''', pat_color = ''#6C8CFF'',
     pat_length = TicksPerBarFourFour * 4, pat_order = 0, pat_group = '''',
     pat_time_signature = common_time, pat_swing = Fin 0, pat_sequences = om_empty,
     pat_automation = []\<rparr>"

text \<open>A lane has no instrument, no effects, no routing and no audio: there is no such field.\<close>

record ArrangementLane =
  lane_id :: lane_id
  lane_name :: string
  lane_color :: string
  lane_height :: int
  lane_order :: int
  lane_collapsed :: bool
  lane_muted :: bool
  lane_soloed :: bool
  lane_group_id :: "lane_id option"

definition default_lane :: ArrangementLane where
  "default_lane = \<lparr>lane_id = no_id, lane_name = '''', lane_color = ''#6C8CFF'', lane_height = 88,
     lane_order = 0, lane_collapsed = False, lane_muted = False, lane_soloed = False,
     lane_group_id = None\<rparr>"

datatype StretchMode = StretchOff | StretchResample | StretchStretch

record AudioSource =
  au_path :: string
  au_source_offset :: ticks
  au_source_length :: ticks
  au_gain :: fp
  au_reversed :: bool
  au_destination :: track_id
  au_stretch_mode :: StretchMode
  au_source_bpm :: fp

definition default_audio :: AudioSource where
  "default_audio = \<lparr>au_path = '''', au_source_offset = 0, au_source_length = 0, au_gain = Fin 1,
     au_reversed = False, au_destination = no_id, au_stretch_mode = StretchOff,
     au_source_bpm = Fin 0\<rparr>"

text \<open>\<open>std::variant<PatternSource, AudioSource, AutomationSource>\<close>.\<close>

datatype ClipSource = SrcPattern pattern_id | SrcAudio AudioSource | SrcAutomation AutomationSource

record ClipTransforms =
  tr_transpose :: int
  tr_loop :: bool
  tr_window_start :: ticks
  tr_velocity_scale :: fp
  tr_time_nudge :: ticks
  tr_probability :: fp

definition default_transforms :: ClipTransforms where
  "default_transforms = \<lparr>tr_transpose = 0, tr_loop = False, tr_window_start = 0,
     tr_velocity_scale = Fin 1, tr_time_nudge = 0, tr_probability = Fin 1\<rparr>"

record Clip =
  clip_id :: clip_id
  clip_lane :: lane_id
  clip_start :: ticks
  clip_length :: ticks
  clip_muted :: bool
  clip_source :: ClipSource
  clip_transforms :: ClipTransforms

definition default_clip :: Clip where
  "default_clip = \<lparr>clip_id = no_id, clip_lane = no_id, clip_start = 0, clip_length = 0,
     clip_muted = False, clip_source = SrcPattern no_id, clip_transforms = default_transforms\<rparr>"

fun clip_pattern :: "Clip \<Rightarrow> pattern_id option" where
  "clip_pattern c = (case clip_source c of SrcPattern p \<Rightarrow> Some p | _ \<Rightarrow> None)"

fun clip_audio :: "Clip \<Rightarrow> AudioSource option" where
  "clip_audio c = (case clip_source c of SrcAudio a \<Rightarrow> Some a | _ \<Rightarrow> None)"

fun clip_automation :: "Clip \<Rightarrow> AutomationSource option" where
  "clip_automation c = (case clip_source c of SrcAutomation a \<Rightarrow> Some a | _ \<Rightarrow> None)"

declare clip_pattern.simps [simp del] clip_audio.simps [simp del] clip_automation.simps [simp del]

subsection \<open>Audio-clip geometry\<close>

definition audioSourceSpan :: "AudioSource \<Rightarrow> ticks \<Rightarrow> ticks \<Rightarrow> ticks" where
  "audioSourceSpan source len source_duration =
     (if au_source_length source > 0 then au_source_length source
      else if source_duration > au_source_offset source then source_duration - au_source_offset source
      else len)"

definition audioStretchRatio :: "AudioSource \<Rightarrow> ticks \<Rightarrow> ticks \<Rightarrow> fp" where
  "audioStretchRatio source len source_duration =
     (if au_stretch_mode source = StretchOff then Fin 1
      else let span = audioSourceSpan source len source_duration in
        if span \<le> 0 \<or> len \<le> 0 then Fin 1
        else ddiv (dofint span) (dofint len))"

definition audioLengthAtTempo :: "AudioSource \<Rightarrow> ticks \<Rightarrow> fp \<Rightarrow> ticks \<Rightarrow> ticks" where
  "audioLengthAtTempo source len project_bpm source_duration =
     (if fp_le (au_source_bpm source) (Fin 0) \<or> fp_le project_bpm (Fin 0) then 0
      else let span = audioSourceSpan source len source_duration in
        if span \<le> 0 then 0
        else let scaled = dmul (dofint span) (ddiv (au_source_bpm source) project_bpm);
                 result = llround scaled
             in if result > 0 then result else 1)"

subsection \<open>Pattern length\<close>

definition patternContentEnd :: "Pattern \<Rightarrow> ticks" where
  "patternContentEnd p = fold_max 0 (map contentEnd (om_values (pat_sequences p)))"

definition patternLoopLength :: "Pattern \<Rightarrow> ticks" where
  "patternLoopLength p =
     (let content = patternContentEnd p in
      if content \<le> 0 then TicksPerBarFourFour
      else ((content + TicksPerBarFourFour - 1) sdiv TicksPerBarFourFour) * TicksPerBarFourFour)"

definition patternEffectiveLength :: "Pattern \<Rightarrow> ticks" where
  "patternEffectiveLength p =
     (let declared = (if pat_length p > 0 then pat_length p else TicksPerBarFourFour);
          content = patternContentEnd p
      in if content \<le> declared then declared else patternLoopLength p)"

subsection \<open>Project-level state\<close>

record TransportState =
  tp_tempo :: fp
  tp_time_signature :: TimeSignature
  tp_metronome_enabled :: bool
  tp_loop_enabled :: bool
  tp_loop_start :: ticks
  tp_loop_end :: ticks

definition default_transport :: TransportState where
  "default_transport = \<lparr>tp_tempo = Fin 120, tp_time_signature = common_time,
     tp_metronome_enabled = False, tp_loop_enabled = True, tp_loop_start = 0,
     tp_loop_end = TicksPerBarFourFour * 8\<rparr>"

record ProjectMeta =
  meta_name :: string
  meta_created_with :: string

definition default_meta :: ProjectMeta where
  "default_meta = \<lparr>meta_name = ''Untitled'', meta_created_with = ''''\<rparr>"

subsection \<open>Facts about the geometry\<close>

lemma clip_source_cases:
  "clip_pattern c = Some p \<longleftrightarrow> clip_source c = SrcPattern p"
  "clip_audio c = Some a \<longleftrightarrow> clip_source c = SrcAudio a"
  "clip_automation c = Some m \<longleftrightarrow> clip_source c = SrcAutomation m"
  by (auto simp: clip_pattern.simps clip_audio.simps clip_automation.simps split: ClipSource.splits)

lemma clip_source_None:
  "clip_pattern c = None \<longleftrightarrow> (\<forall>p. clip_source c \<noteq> SrcPattern p)"
  "clip_audio c = None \<longleftrightarrow> (\<forall>a. clip_source c \<noteq> SrcAudio a)"
  "clip_automation c = None \<longleftrightarrow> (\<forall>m. clip_source c \<noteq> SrcAutomation m)"
  by (auto simp: clip_pattern.simps clip_audio.simps clip_automation.simps split: ClipSource.splits)

lemma patternContentEnd_nonneg: "0 \<le> patternContentEnd p"
  unfolding patternContentEnd_def by (rule fold_max_ge_start)

lemma patternContentEnd_ge:
  assumes "om_find (pat_sequences p) i = Some xs" and "n \<in> set xs"
  shows "note_start n + note_length n \<le> patternContentEnd p"
proof -
  have "xs \<in> set (om_values (pat_sequences p))"
    unfolding om_values_set using assms(1) by (rule exI)
  then have "contentEnd xs \<in> set (map contentEnd (om_values (pat_sequences p)))"
    unfolding set_map by (rule imageI)
  then have "contentEnd xs \<le> patternContentEnd p"
    unfolding patternContentEnd_def by (rule fold_max_ge)
  with contentEnd_ge [OF assms(2)] show ?thesis by linarith
qed

lemma patternLoopLength_ge: "patternContentEnd p \<le> patternLoopLength p \<and>
    patternLoopLength p mod TicksPerBarFourFour = 0 \<and> 0 < patternLoopLength p"
proof (cases "patternContentEnd p \<le> 0")
  case False
  let ?c = "patternContentEnd p"
  have "(?c + 3840 - 1) sdiv 3840 = (?c + 3840 - 1) div 3840"
    using False by (simp add: signed_divide_int_def sgn_if)
  moreover have "?c \<le> (?c + 3840 - 1) div 3840 * 3840" by linarith
  ultimately show ?thesis
    using False by (simp add: patternLoopLength_def Let_def TicksPerBarFourFour_def
        TicksPerQuarter_def)
qed (simp add: patternLoopLength_def TicksPerBarFourFour_def TicksPerQuarter_def)

lemma patternEffectiveLength_bounds:
  "patternContentEnd p \<le> patternEffectiveLength p \<and> 0 < patternEffectiveLength p \<and>
   pat_length p \<le> patternEffectiveLength p"
  using patternLoopLength_ge [of p]
  by (auto simp: patternEffectiveLength_def Let_def TicksPerBarFourFour_def TicksPerQuarter_def)

end
