(* ===== verification/Project_State.thy ===== *)
theory Project_State
  imports Entities
begin

text \<open>
  The state of \<open>model/project.h\<close>: the change vocabulary of \<open>model/changes.h\<close>, the
  project record, the lookups, and \<open>emit\<close>.  \<open>changes\<close> is what a listener subscribed to
  the bus since the project was made has received, in order.  \<open>aborted\<close> records that
  \<open>checkInvariants\<close> has called \<open>std::abort\<close>; nothing clears it.
\<close>

datatype ChangeType = Added | Removed | Modified

datatype ChangeField = FAll | FName | FColor | FMuted | FSoloed | FOrder | FHeight | FCollapsed
  | FGroup | FRouting | FPlugin | FNoteDefaults | FNotes | FLength | FStart | FLane | FSource
  | FTransforms | FGain | FPan | FOutput | FTransport | FMeta | FEffects | FEffectParam

record ChangeEvent =
  ev_type :: ChangeType
  ev_kind :: entity_kind
  ev_id :: raw_id
  ev_field :: ChangeField
  ev_related :: raw_id

subsection \<open>The change bus\<close>

text \<open>
  Listeners are external code, named by a value of \<open>'l\<close>; \<open>bus_emit\<close> returns the calls it
  makes, in order.
\<close>

record 'l change_bus =
  listeners :: "(nat \<times> 'l) list"
  next_token :: nat

definition new_bus :: "'l change_bus" where
  "new_bus = \<lparr>listeners = [], next_token = 0\<rparr>"

definition subscribe :: "'l \<Rightarrow> 'l change_bus \<Rightarrow> nat \<times> 'l change_bus" where
  "subscribe listener b =
     (let token = next_token b + 1 in
      (token, b\<lparr>next_token := token, listeners := listeners b @ [(token, listener)]\<rparr>))"

fun erase_token :: "nat \<Rightarrow> (nat \<times> 'l) list \<Rightarrow> (nat \<times> 'l) list" where
  "erase_token t [] = []"
| "erase_token t (e # es) = (if fst e = t then es else e # erase_token t es)"

definition unsubscribe :: "nat \<Rightarrow> 'l change_bus \<Rightarrow> 'l change_bus" where
  "unsubscribe token b = b\<lparr>listeners := erase_token token (listeners b)\<rparr>"

definition bus_emit :: "ChangeEvent \<Rightarrow> 'l change_bus \<Rightarrow> ('l \<times> ChangeEvent) list" where
  "bus_emit e b = map (\<lambda>l. (snd l, e)) (listeners b)"

definition listenerCount :: "'l change_bus \<Rightarrow> nat" where
  "listenerCount b = length (listeners b)"

subsection \<open>The project\<close>

record Preferences =
  auto_create_mixer_track :: bool

record Tables =
  instruments :: "(instrument_id, Instrument) omap"
  patterns :: "(pattern_id, Pattern) omap"
  lanes :: "(lane_id, ArrangementLane) omap"
  clips :: "(clip_id, Clip) omap"
  mixer_tracks :: "(track_id, MixerTrack) omap"
  master :: track_id
  transport :: TransportState
  meta :: ProjectMeta

text \<open>\<open>Project\<close> has the members of \<open>Project::Tables\<close> and these.\<close>

record project = Tables +
  generator :: id_generator
  changes :: "ChangeEvent list"
  preferences :: Preferences
  debug_checks :: bool
  aborted :: bool

definition emit :: "ChangeType \<Rightarrow> entity_kind \<Rightarrow> raw_id \<Rightarrow> ChangeField \<Rightarrow> raw_id \<Rightarrow> project \<Rightarrow> project" where
  "emit t k i f r p =
     p\<lparr>changes := changes p @ [\<lparr>ev_type = t, ev_kind = k, ev_id = i, ev_field = f, ev_related = r\<rparr>]\<rparr>"

definition mintId :: "64 word \<Rightarrow> project \<Rightarrow> 'k typed_id \<times> project" where
  "mintId clock p = (let (r, g) = nextRaw clock (generator p) in (TypedId r, p\<lparr>generator := g\<rparr>))"

definition new_project :: "64 word \<Rightarrow> id_generator \<Rightarrow> project" where
  "new_project clock g =
     (let (r, g') = nextRaw clock g; mid = TypedId r in
      \<lparr>instruments = om_empty, patterns = om_empty, lanes = om_empty, clips = om_empty,
       mixer_tracks = om_emplace mid (default_mixer_track\<lparr>track_id := mid, track_name := ''Master'',
         track_output := None\<rparr>) om_empty,
       master = mid, transport = default_transport, meta = default_meta,
       generator = g', changes = [], preferences = \<lparr>auto_create_mixer_track = True\<rparr>,
       debug_checks = True, aborted = False\<rparr>)"

definition copyTables :: "project \<Rightarrow> Tables" where
  "copyTables p =
     \<lparr>instruments = instruments p, patterns = patterns p, lanes = lanes p, clips = clips p,
      mixer_tracks = mixer_tracks p, master = master p, transport = transport p, meta = meta p\<rparr>"

definition adopt :: "Tables \<Rightarrow> project \<Rightarrow> project" where
  "adopt t p = p\<lparr>instruments := instruments t, patterns := patterns t, lanes := lanes t,
     clips := clips t, mixer_tracks := mixer_tracks t, master := master t,
     transport := transport t, meta := meta t\<rparr>"

subsection \<open>Lookups\<close>

definition findInstrument :: "('a Tables_scheme) \<Rightarrow> instrument_id \<Rightarrow> Instrument option" where
  "findInstrument p i = om_find (instruments p) i"

definition findPattern :: "('a Tables_scheme) \<Rightarrow> pattern_id \<Rightarrow> Pattern option" where
  "findPattern p i = om_find (patterns p) i"

definition findLane :: "('a Tables_scheme) \<Rightarrow> lane_id \<Rightarrow> ArrangementLane option" where
  "findLane p i = om_find (lanes p) i"

definition findClip :: "('a Tables_scheme) \<Rightarrow> clip_id \<Rightarrow> Clip option" where
  "findClip p i = om_find (clips p) i"

definition findMixerTrack :: "('a Tables_scheme) \<Rightarrow> track_id \<Rightarrow> MixerTrack option" where
  "findMixerTrack p i = om_find (mixer_tracks p) i"

lemmas find_defs = findInstrument_def findPattern_def findLane_def findClip_def findMixerTrack_def

definition clip_ids_where :: "(Clip \<Rightarrow> bool) \<Rightarrow> ('a Tables_scheme) \<Rightarrow> clip_id list" where
  "clip_ids_where P p = map fst (filter (\<lambda>(i, c). P c) (om_entries (clips p)))"

definition clipsOnLane :: "('a Tables_scheme) \<Rightarrow> lane_id \<Rightarrow> clip_id list" where
  "clipsOnLane p i = clip_ids_where (\<lambda>c. clip_lane c = i) p"

definition clipsUsingPattern :: "('a Tables_scheme) \<Rightarrow> pattern_id \<Rightarrow> clip_id list" where
  "clipsUsingPattern p i = clip_ids_where (\<lambda>c. clip_pattern c = Some i) p"

definition patternUsageCount :: "('a Tables_scheme) \<Rightarrow> pattern_id \<Rightarrow> nat" where
  "patternUsageCount p i = length (clipsUsingPattern p i)"

text \<open>The switch over \<open>target_kind\<close> that \<open>createClip\<close> and the checker both make.\<close>

definition automation_resolves :: "('a Tables_scheme) \<Rightarrow> AutomationSource \<Rightarrow> bool" where
  "automation_resolves p a =
     (case as_target_kind a of
        TargetInstrument \<Rightarrow> findInstrument p (as_instrument a) \<noteq> None
      | TargetMixerTrack \<Rightarrow> findMixerTrack p (as_mixer_track a) \<noteq> None
      | TargetEffect \<Rightarrow>
          (case findMixerTrack p (as_mixer_track a) of
             None \<Rightarrow> False
           | Some t \<Rightarrow> findEffect t (as_effect a) \<noteq> None))"

subsection \<open>Frames\<close>

lemma emit_frame [simp, frame_simps]:
  "instruments (emit t k i f r p) = instruments p" "patterns (emit t k i f r p) = patterns p"
  "lanes (emit t k i f r p) = lanes p" "clips (emit t k i f r p) = clips p"
  "mixer_tracks (emit t k i f r p) = mixer_tracks p" "master (emit t k i f r p) = master p"
  "transport (emit t k i f r p) = transport p" "meta (emit t k i f r p) = meta p"
  "generator (emit t k i f r p) = generator p" "preferences (emit t k i f r p) = preferences p"
  "debug_checks (emit t k i f r p) = debug_checks p" "aborted (emit t k i f r p) = aborted p"
  by (simp_all add: emit_def)

lemma mintId_frame [simp, frame_simps]:
  "instruments (snd (mintId n p)) = instruments p" "patterns (snd (mintId n p)) = patterns p"
  "lanes (snd (mintId n p)) = lanes p" "clips (snd (mintId n p)) = clips p"
  "mixer_tracks (snd (mintId n p)) = mixer_tracks p" "master (snd (mintId n p)) = master p"
  "transport (snd (mintId n p)) = transport p" "meta (snd (mintId n p)) = meta p"
  "changes (snd (mintId n p)) = changes p" "preferences (snd (mintId n p)) = preferences p"
  "debug_checks (snd (mintId n p)) = debug_checks p" "aborted (snd (mintId n p)) = aborted p"
  by (simp_all add: mintId_def split_beta Let_def)

lemma copyTables_adopt [simp]: "copyTables (adopt t p) = t"
  by (simp add: copyTables_def adopt_def)

lemma adopt_copyTables [simp]: "adopt (copyTables p) p = p"
  by (simp add: copyTables_def adopt_def)

lemma copyTables_eq_iff:
  "copyTables p = copyTables q \<longleftrightarrow>
     instruments p = instruments q \<and> patterns p = patterns q \<and> lanes p = lanes q \<and>
     clips p = clips q \<and> mixer_tracks p = mixer_tracks q \<and> master p = master q \<and>
     transport p = transport q \<and> meta p = meta q"
  by (auto simp: copyTables_def)

lemma copyTables_sel [simp]:
  "instruments (copyTables p) = instruments p" "patterns (copyTables p) = patterns p"
  "lanes (copyTables p) = lanes p" "clips (copyTables p) = clips p"
  "mixer_tracks (copyTables p) = mixer_tracks p" "master (copyTables p) = master p"
  "transport (copyTables p) = transport p" "meta (copyTables p) = meta p"
  by (simp_all add: copyTables_def)

lemma clip_ids_where_set [simp]:
  "i \<in> set (clip_ids_where P p) \<longleftrightarrow> (\<exists>c. om_find (clips p) i = Some c \<and> P c)"
  by (auto simp: clip_ids_where_def image_iff Bex_def)

lemma clip_ids_where_distinct [simp]: "distinct (clip_ids_where P p)"
  unfolding clip_ids_where_def by (rule distinct_map_filter) simp

text \<open>A listener that unsubscribes is the only one that stops hearing events.\<close>

definition bus_ok :: "'l change_bus \<Rightarrow> bool" where
  "bus_ok b \<longleftrightarrow> distinct (map fst (listeners b)) \<and> (\<forall>e \<in> set (listeners b). fst e \<le> next_token b)"

lemma erase_token_filter: "distinct (map fst es) \<Longrightarrow> erase_token t es = filter (\<lambda>e. fst e \<noteq> t) es"
proof (induction es)
  case (Cons e es)
  have "t \<notin> fst ` set es \<Longrightarrow> filter (\<lambda>e. fst e \<noteq> t) es = es"
    by (rule filter_True) auto
  with Cons show ?case by auto
qed simp

lemma erase_token_last: "t \<notin> fst ` set es \<Longrightarrow> erase_token t (es @ [(t, l)]) = es"
  by (induction es) auto

lemma bus_ok_new [simp]: "bus_ok new_bus"
  by (simp add: bus_ok_def new_bus_def)

lemma bus_ok_subscribe: "bus_ok b \<Longrightarrow> bus_ok (snd (subscribe l b))"
  by (force simp: bus_ok_def subscribe_def Let_def)

lemma bus_ok_unsubscribe: "bus_ok b \<Longrightarrow> bus_ok (unsubscribe t b)"
  by (auto simp: bus_ok_def unsubscribe_def erase_token_filter distinct_map_filter)

lemma unsubscribe_subscribe:
  "bus_ok b \<Longrightarrow> listeners (unsubscribe (fst (subscribe l b)) (snd (subscribe l b))) = listeners b"
  by (auto simp: bus_ok_def unsubscribe_def subscribe_def Let_def intro!: erase_token_last)

end
