(* ===== verification/Invariants.thy ===== *)
theory Invariants
  imports Project_State
begin

text \<open>
  The referential-integrity checker of \<open>model/invariants.cpp\<close>: \<open>checkReferentialIntegrity\<close>
  returns the messages the source pushes, section by section and in its order, and
  \<open>project_integrity\<close> says declaratively when it returns none.  The walk to Master is the
  source's loop with its \<open>seen\<close> set; it ends because \<open>seen\<close> only holds live tracks.
\<close>

definition describe :: "entity_kind \<Rightarrow> raw_id \<Rightarrow> string" where
  "describe k i = entityNoun k @ '' '' @ entityPrefix k @ ''_'' @ encodeUlid i"

subsection \<open>Instruments\<close>

fun check_routes :: "('a Tables_scheme) \<Rightarrow> instrument_id \<Rightarrow> port_id set \<Rightarrow> OutputRoute list \<Rightarrow> string list" where
  "check_routes p i ports [] = []"
| "check_routes p i ports (r # rs) =
     (if findMixerTrack p (route_track r) = None then
        [describe KInstrument (raw i) @ '' routes port '' @ nat_to_string (unat (route_port r)) @
         '' to missing '' @ describe KMixerTrack (raw (route_track r))]
      else []) @
     (if route_port r \<in> ports then
        [describe KInstrument (raw i) @ '' routes port '' @ nat_to_string (unat (route_port r)) @
         '' twice'']
      else []) @
     check_routes p i (insert (route_port r) ports) rs"

definition check_instruments :: "('a Tables_scheme) \<Rightarrow> string list" where
  "check_instruments p =
     concat (map (\<lambda>(i, inst). check_routes p i {} (inst_routing inst)) (om_entries (instruments p)))"

subsection \<open>Patterns\<close>

definition check_sequence :: "('a Tables_scheme) \<Rightarrow> pattern_id \<Rightarrow> instrument_id \<Rightarrow> note_sequence \<Rightarrow> string list" where
  "check_sequence p pid i s =
     (if findInstrument p i = None then
        [describe KPattern (raw pid) @ '' holds a sequence for missing '' @ describe KInstrument (raw i)]
      else []) @
     (if s = [] then
        [describe KPattern (raw pid) @ '' keeps an empty sequence for '' @ describe KInstrument (raw i)]
      else []) @
     (if \<not> isSorted s then
        [describe KPattern (raw pid) @ '' has an unsorted sequence for '' @ describe KInstrument (raw i)]
      else []) @
     (if \<exists>n \<in> set s. \<not> isValidNote n then
        [describe KPattern (raw pid) @ '' has an out-of-range note'']
      else [])"

definition check_patterns :: "('a Tables_scheme) \<Rightarrow> string list" where
  "check_patterns p =
     concat (map (\<lambda>(pid, pat). concat (map (\<lambda>(i, s). check_sequence p pid i s)
       (om_entries (pat_sequences pat)))) (om_entries (patterns p)))"

subsection \<open>Lanes\<close>

definition check_group :: "('a Tables_scheme) \<Rightarrow> lane_id \<Rightarrow> ArrangementLane \<Rightarrow> string list" where
  "check_group p i l =
     (case lane_group_id l of
        None \<Rightarrow> []
      | Some g \<Rightarrow>
          if g = i then [describe KArrangementLane (raw i) @ '' is its own group'']
          else if findLane p g = None then
            [describe KArrangementLane (raw i) @ '' belongs to missing '' @
             describe KArrangementLane (raw g)]
          else [])"

fun check_lane_list :: "('a Tables_scheme) \<Rightarrow> int set \<Rightarrow> (lane_id \<times> ArrangementLane) list \<Rightarrow> string list" where
  "check_lane_list p orders [] = []"
| "check_lane_list p orders ((i, l) # ls) =
     (if lane_order l \<in> orders then
        [describe KArrangementLane (raw i) @ '' shares order '' @ int_to_string (lane_order l) @
         '' with another lane'']
      else []) @
     check_group p i l @
     check_lane_list p (insert (lane_order l) orders) ls"

definition check_lanes :: "('a Tables_scheme) \<Rightarrow> string list" where
  "check_lanes p = check_lane_list p {} (om_entries (lanes p))"

subsection \<open>Clips\<close>

definition check_clip :: "('a Tables_scheme) \<Rightarrow> clip_id \<Rightarrow> Clip \<Rightarrow> string list" where
  "check_clip p i c =
     (if findLane p (clip_lane c) = None then
        [describe KClip (raw i) @ '' sits on missing '' @ describe KArrangementLane (raw (clip_lane c))]
      else []) @
     (if clip_length c < 0 \<or> clip_start c < 0 then
        [describe KClip (raw i) @ '' has a negative start or length'']
      else []) @
     (case clip_source c of
        SrcPattern pid \<Rightarrow>
          if findPattern p pid = None then
            [describe KClip (raw i) @ '' references missing '' @ describe KPattern (raw pid)]
          else []
      | SrcAudio a \<Rightarrow>
          (if findMixerTrack p (au_destination a) = None then
             [describe KClip (raw i) @ '' plays into missing '' @
              describe KMixerTrack (raw (au_destination a))]
           else []) @
          (if au_source_offset a < 0 \<or> au_source_length a < 0 then
             [describe KClip (raw i) @ '' has a negative source window'']
           else []) @
          (if au_stretch_mode a \<noteq> StretchOff \<and> au_source_length a \<le> 0 \<and> clip_length c \<le> 0 then
             [describe KClip (raw i) @ '' is stretched with no length to stretch'']
           else [])
      | SrcAutomation m \<Rightarrow>
          if \<not> automation_resolves p m then
            [describe KClip (raw i) @ '' automates a missing target'']
          else [])"

definition check_clips :: "('a Tables_scheme) \<Rightarrow> string list" where
  "check_clips p = concat (map (\<lambda>(i, c). check_clip p i c) (om_entries (clips p)))"

subsection \<open>The mixer\<close>

fun check_effects :: "track_id \<Rightarrow> effect_id set \<Rightarrow> EffectSlot list \<Rightarrow> string list" where
  "check_effects t ids [] = []"
| "check_effects t ids (s # ss) =
     (if \<not> valid_id (slot_id s) then
        [describe KMixerTrack (raw t) @ '' has an unidentified effect slot''] @ check_effects t ids ss
      else
        (if slot_id s \<in> ids then
           [describe KMixerTrack (raw t) @ '' has two slots sharing '' @
            describe KEffect (raw (slot_id s))]
         else []) @ check_effects t (insert (slot_id s) ids) ss)"

text \<open>The walk; true when it comes back to a track it has seen.\<close>

function walk_cycles :: "(track_id, MixerTrack) omap \<Rightarrow> track_id set \<Rightarrow> track_id \<Rightarrow> bool" where
  "walk_cycles m seen walker =
     (case om_find m walker of
        None \<Rightarrow> False
      | Some next \<Rightarrow>
          (case track_output next of
             None \<Rightarrow> False
           | Some out \<Rightarrow>
               if walker \<in> seen then True else walk_cycles m (insert walker seen) out))"
  by pat_completeness auto

termination
proof (relation "measure (\<lambda>(m, seen, _). card (set (om_keys m) - seen))")
  fix m :: "(track_id, MixerTrack) omap" and seen walker "next" out
  assume a: "om_find m walker = Some next" "walker \<notin> seen"
  have "walker \<in> set (om_keys m)" using a(1) by simp
  then have "set (om_keys m) - insert walker seen \<subset> set (om_keys m) - seen"
    using a(2) by blast
  then have "card (set (om_keys m) - insert walker seen) < card (set (om_keys m) - seen)"
    by (intro psubset_card_mono) simp_all
  then show "((m, insert walker seen, out), (m, seen, walker))
      \<in> measure (\<lambda>(m, seen, _). card (set (om_keys m) - seen))"
    by simp
qed simp

declare walk_cycles.simps [simp del]

definition check_output :: "('a Tables_scheme) \<Rightarrow> track_id \<Rightarrow> MixerTrack \<Rightarrow> string list" where
  "check_output p i t =
     (case track_output t of
        None \<Rightarrow> []
      | Some out \<Rightarrow>
          if out = i then [describe KMixerTrack (raw i) @ '' outputs into itself'']
          else if findMixerTrack p out = None then
            [describe KMixerTrack (raw i) @ '' outputs into missing '' @ describe KMixerTrack (raw out)]
          else if walk_cycles (mixer_tracks p) {i} out then
            [describe KMixerTrack (raw i) @ '' is part of a routing cycle'']
          else [])"

definition count_masters :: "('a Tables_scheme) \<Rightarrow> nat" where
  "count_masters p = length (filter (\<lambda>(i, t). track_output t = None) (om_entries (mixer_tracks p)))"

definition check_mixer :: "('a Tables_scheme) \<Rightarrow> string list" where
  "check_mixer p =
     concat (map (\<lambda>(i, t). check_effects i {} (track_effects t) @ check_output p i t)
       (om_entries (mixer_tracks p))) @
     (if count_masters p \<noteq> 1 then
        [''the project has '' @ nat_to_string (count_masters p) @
         '' master tracks; it must have exactly 1'']
      else []) @
     (if findMixerTrack p (master p) = None then [''the master track is missing''] else [])"

definition checkReferentialIntegrity :: "('a Tables_scheme) \<Rightarrow> string list" where
  "checkReferentialIntegrity p =
     check_instruments p @ check_patterns p @ check_lanes p @ check_clips p @ check_mixer p"

text \<open>\<open>Project::checkInvariants\<close>, in a build that has the check compiled in.\<close>

definition checkInvariants :: "project \<Rightarrow> project" where
  "checkInvariants p =
     (if debug_checks p \<and> checkReferentialIntegrity p \<noteq> [] then p\<lparr>aborted := True\<rparr> else p)"

subsection \<open>What the checker decides\<close>

text \<open>The output of a track, and the track \<open>n\<close> outputs further on.\<close>

definition output_of :: "(track_id, MixerTrack) omap \<Rightarrow> track_id \<Rightarrow> track_id option" where
  "output_of m t = (case om_find m t of None \<Rightarrow> None | Some tr \<Rightarrow> track_output tr)"

fun output_steps :: "(track_id, MixerTrack) omap \<Rightarrow> nat \<Rightarrow> track_id \<Rightarrow> track_id option" where
  "output_steps m 0 t = Some t"
| "output_steps m (Suc n) t =
     (case output_of m t of None \<Rightarrow> None | Some out \<Rightarrow> output_steps m n out)"

definition routing_ends :: "(track_id, MixerTrack) omap \<Rightarrow> bool" where
  "routing_ends m \<longleftrightarrow> (\<forall>t. \<exists>n. output_steps m n t = None)"

definition instruments_ok :: "('a Tables_scheme) \<Rightarrow> bool" where
  "instruments_ok p \<longleftrightarrow>
     (\<forall>i inst. om_find (instruments p) i = Some inst \<longrightarrow>
        (\<forall>r \<in> set (inst_routing inst). om_find (mixer_tracks p) (route_track r) \<noteq> None) \<and>
        distinct (map route_port (inst_routing inst)))"

definition sequence_ok :: "note_sequence \<Rightarrow> bool" where
  "sequence_ok s \<longleftrightarrow> s \<noteq> [] \<and> isSorted s \<and> (\<forall>n \<in> set s. isValidNote n)"

definition patterns_ok :: "('a Tables_scheme) \<Rightarrow> bool" where
  "patterns_ok p \<longleftrightarrow>
     (\<forall>pid pat i s. om_find (patterns p) pid = Some pat \<longrightarrow> om_find (pat_sequences pat) i = Some s \<longrightarrow>
        om_find (instruments p) i \<noteq> None \<and> sequence_ok s)"

definition lanes_ok :: "('a Tables_scheme) \<Rightarrow> bool" where
  "lanes_ok p \<longleftrightarrow>
     (\<forall>i j l l'. om_find (lanes p) i = Some l \<longrightarrow> om_find (lanes p) j = Some l' \<longrightarrow>
        lane_order l = lane_order l' \<longrightarrow> i = j) \<and>
     (\<forall>i l g. om_find (lanes p) i = Some l \<longrightarrow> lane_group_id l = Some g \<longrightarrow>
        g \<noteq> i \<and> om_find (lanes p) g \<noteq> None)"

definition clip_ok :: "('a Tables_scheme) \<Rightarrow> Clip \<Rightarrow> bool" where
  "clip_ok p c \<longleftrightarrow>
     om_find (lanes p) (clip_lane c) \<noteq> None \<and> 0 \<le> clip_length c \<and> 0 \<le> clip_start c \<and>
     (case clip_source c of
        SrcPattern pid \<Rightarrow> om_find (patterns p) pid \<noteq> None
      | SrcAudio a \<Rightarrow> om_find (mixer_tracks p) (au_destination a) \<noteq> None \<and>
          0 \<le> au_source_offset a \<and> 0 \<le> au_source_length a \<and>
          (au_stretch_mode a = StretchOff \<or> 0 < au_source_length a \<or> 0 < clip_length c)
      | SrcAutomation m \<Rightarrow> automation_resolves p m)"

definition clips_ok :: "('a Tables_scheme) \<Rightarrow> bool" where
  "clips_ok p \<longleftrightarrow> (\<forall>i c. om_find (clips p) i = Some c \<longrightarrow> clip_ok p c)"

definition effects_ok :: "EffectSlot list \<Rightarrow> bool" where
  "effects_ok es \<longleftrightarrow> distinct (map slot_id es) \<and> (\<forall>s \<in> set es. valid_id (slot_id s))"

definition mixer_ok :: "('a Tables_scheme) \<Rightarrow> bool" where
  "mixer_ok p \<longleftrightarrow>
     (\<forall>i t. om_find (mixer_tracks p) i = Some t \<longrightarrow>
        effects_ok (track_effects t) \<and>
        (\<forall>out. track_output t = Some out \<longrightarrow> om_find (mixer_tracks p) out \<noteq> None)) \<and>
     routing_ends (mixer_tracks p) \<and>
     (\<exists>!i. \<exists>t. om_find (mixer_tracks p) i = Some t \<and> track_output t = None) \<and>
     om_find (mixer_tracks p) (master p) \<noteq> None"

definition project_integrity :: "('a Tables_scheme) \<Rightarrow> bool" where
  "project_integrity p \<longleftrightarrow>
     instruments_ok p \<and> patterns_ok p \<and> lanes_ok p \<and> clips_ok p \<and> mixer_ok p"

subsection \<open>Section by section\<close>

lemma concat_map_Nil: "concat (map f xs) = [] \<longleftrightarrow> (\<forall>x \<in> set xs. f x = [])"
  by (induction xs) auto

lemma check_routes_Nil:
  "check_routes p i ports rs = [] \<longleftrightarrow>
     (\<forall>r \<in> set rs. om_find (mixer_tracks p) (route_track r) \<noteq> None) \<and>
     distinct (map route_port rs) \<and> set (map route_port rs) \<inter> ports = {}"
  by (induction p i ports rs rule: check_routes.induct) (auto simp: findMixerTrack_def)

lemma check_instruments_Nil: "check_instruments p = [] \<longleftrightarrow> instruments_ok p"
  by (simp add: check_instruments_def concat_map_Nil om_entries_ball check_routes_Nil
      instruments_ok_def)

lemma check_sequence_Nil:
  "check_sequence p pid i s = [] \<longleftrightarrow> om_find (instruments p) i \<noteq> None \<and> sequence_ok s"
  by (auto simp: check_sequence_def findInstrument_def sequence_ok_def)

lemma check_patterns_Nil: "check_patterns p = [] \<longleftrightarrow> patterns_ok p"
  by (simp add: check_patterns_def concat_map_Nil om_entries_ball check_sequence_Nil
      patterns_ok_def)

lemma check_group_Nil:
  "check_group p i l = [] \<longleftrightarrow>
     (\<forall>g. lane_group_id l = Some g \<longrightarrow> g \<noteq> i \<and> om_find (lanes p) g \<noteq> None)"
  by (auto simp: check_group_def findLane_def split: option.splits)

lemma check_lane_list_Nil:
  "check_lane_list p orders ls = [] \<longleftrightarrow>
     distinct (map (lane_order \<circ> snd) ls) \<and> (lane_order \<circ> snd) ` set ls \<inter> orders = {} \<and>
     (\<forall>(i, l) \<in> set ls. check_group p i l = [])"
  by (induction p orders ls rule: check_lane_list.induct) auto

lemma check_lanes_Nil: "check_lanes p = [] \<longleftrightarrow> lanes_ok p"
proof -
  have "distinct (om_entries (lanes p))"
    using om_entries_distinct distinct_map by blast
  then have "distinct (map (lane_order \<circ> snd) (om_entries (lanes p))) \<longleftrightarrow>
      inj_on (lane_order \<circ> snd) (set (om_entries (lanes p)))"
    by (simp add: distinct_map)
  also have "\<dots> \<longleftrightarrow> (\<forall>i j l l'. om_find (lanes p) i = Some l \<longrightarrow> om_find (lanes p) j = Some l' \<longrightarrow>
        lane_order l = lane_order l' \<longrightarrow> i = j)" (is "_ \<longleftrightarrow> ?U")
  proof
    assume "inj_on (lane_order \<circ> snd) (set (om_entries (lanes p)))"
    then show ?U
      by (metis Pair_inject comp_apply in_om_entries inj_onD snd_conv)
  next
    assume u: ?U
    show "inj_on (lane_order \<circ> snd) (set (om_entries (lanes p)))"
    proof (rule inj_onI)
      fix x y
      assume "x \<in> set (om_entries (lanes p))" "y \<in> set (om_entries (lanes p))"
        and "(lane_order \<circ> snd) x = (lane_order \<circ> snd) y"
      then have "om_find (lanes p) (fst x) = Some (snd x)" "om_find (lanes p) (fst y) = Some (snd y)"
        and "lane_order (snd x) = lane_order (snd y)"
        by (simp_all flip: in_om_entries)
      with u have "fst x = fst y" by blast
      then show "x = y"
        using \<open>om_find (lanes p) (fst x) = _\<close> \<open>om_find (lanes p) (fst y) = _\<close>
        by (simp add: prod_eq_iff)
    qed
  qed
  finally show ?thesis
    by (simp add: check_lanes_def check_lane_list_Nil lanes_ok_def check_group_Nil om_entries_ball)
qed

lemma check_clip_Nil: "check_clip p i c = [] \<longleftrightarrow> clip_ok p c"
  by (auto simp: check_clip_def clip_ok_def find_defs split: ClipSource.splits)

lemma check_clips_Nil: "check_clips p = [] \<longleftrightarrow> clips_ok p"
  by (simp add: check_clips_def concat_map_Nil om_entries_ball check_clip_Nil clips_ok_def)

lemma check_effects_Nil:
  "check_effects t ids ss = [] \<longleftrightarrow> effects_ok ss \<and> slot_id ` set ss \<inter> ids = {}"
  by (induction t ids ss rule: check_effects.induct) (auto simp: effects_ok_def)

subsection \<open>The walk\<close>

lemma walk_ends: "\<not> walk_cycles m seen w \<Longrightarrow> \<exists>n. output_steps m n w = None"
proof (induction m seen w rule: walk_cycles.induct)
  case (1 m seen walker)
  show ?case
  proof (cases "output_of m walker")
    case None
    then have "output_steps m (Suc 0) walker = None" by simp
    then show ?thesis ..
  next
    case (Some out)
    then obtain t where t: "om_find m walker = Some t" "track_output t = Some out"
      by (auto simp: output_of_def split: option.splits)
    with 1 obtain n where "output_steps m n out = None"
      by (auto simp: walk_cycles.simps [of m seen walker] split: if_splits)
    with Some have "output_steps m (Suc n) walker = None" by simp
    then show ?thesis ..
  qed
qed

text \<open>A height that falls along every output; it exists exactly when every chain ends.\<close>

definition routing_height :: "(track_id, MixerTrack) omap \<Rightarrow> (track_id \<Rightarrow> nat) \<Rightarrow> bool" where
  "routing_height m h \<longleftrightarrow> (\<forall>t out. output_of m t = Some out \<longrightarrow> h out < h t)"

lemma routing_height_ends: "routing_height m h \<Longrightarrow> routing_ends m"
proof -
  assume h: "routing_height m h"
  have "\<exists>n. output_steps m n t = None" for t
  proof (induction "h t" arbitrary: t rule: less_induct)
    case less
    show ?case
    proof (cases "output_of m t")
      case None
      then have "output_steps m (Suc 0) t = None" by simp
      then show ?thesis ..
    next
      case (Some out)
      with h have "h out < h t" by (simp add: routing_height_def)
      then obtain n where "output_steps m n out = None" using less by blast
      with Some have "output_steps m (Suc n) t = None" by simp
      then show ?thesis ..
    qed
  qed
  then show ?thesis by (simp add: routing_ends_def)
qed

lemma routing_ends_height:
  assumes "routing_ends m" obtains h where "routing_height m h"
proof
  define h where "h t = (LEAST n. output_steps m n t = None)" for t
  have ex: "\<exists>n. output_steps m n t = None" for t
    using assms by (simp add: routing_ends_def)
  have "h out < h t" if "output_of m t = Some out" for t out
  proof -
    have "output_steps m (h t) t = None"
      unfolding h_def using ex by (rule LeastI_ex)
    then obtain k where k: "h t = Suc k" by (cases "h t") auto
    then have "output_steps m k out = None"
      using \<open>output_steps m (h t) t = None\<close> that by simp
    then have "h out \<le> k"
      unfolding h_def by (rule Least_le)
    with k show ?thesis by simp
  qed
  then show "routing_height m h" by (simp add: routing_height_def)
qed

lemma walk_height:
  "routing_height m h \<Longrightarrow> \<forall>s \<in> seen. h w < h s \<Longrightarrow> \<not> walk_cycles m seen w"
proof (induction m seen w rule: walk_cycles.induct)
  case (1 m seen walker)
  show ?case
  proof (cases "output_of m walker")
    case None
    then show ?thesis
      by (auto simp: walk_cycles.simps [of m seen walker] output_of_def split: option.splits)
  next
    case (Some out)
    then obtain t where t: "om_find m walker = Some t" "track_output t = Some out"
      by (auto simp: output_of_def split: option.splits)
    have "walker \<notin> seen" using "1.prems"(2) by blast
    moreover have less: "h out < h walker"
      using "1.prems"(1) Some by (simp add: routing_height_def)
    moreover have "\<forall>s \<in> insert walker seen. h out < h s"
      using "1.prems"(2) less by auto
    ultimately show ?thesis
      using "1.IH" [OF t] "1.prems"(1) t by (simp add: walk_cycles.simps [of m seen walker])
  qed
qed

lemma check_output_Nil:
  assumes "om_find (mixer_tracks p) i = Some t"
  shows "check_output p i t = [] \<longleftrightarrow>
     (\<forall>out. track_output t = Some out \<longrightarrow> out \<noteq> i \<and> om_find (mixer_tracks p) out \<noteq> None \<and>
       \<not> walk_cycles (mixer_tracks p) {i} out)"
  by (auto simp: check_output_def findMixerTrack_def split: option.splits)

lemma singleton_Ex1: "(\<exists>i. R = {i}) \<longleftrightarrow> (\<exists>!i. i \<in> R)"
  by blast

lemma count_masters_1:
  "count_masters p = 1 \<longleftrightarrow> (\<exists>!i. \<exists>t. om_find (mixer_tracks p) i = Some t \<and> track_output t = None)"
proof -
  let ?roots = "filter (\<lambda>(i, t). track_output t = None) (om_entries (mixer_tracks p))"
  let ?R = "{i. \<exists>t. om_find (mixer_tracks p) i = Some t \<and> track_output t = None}"
  have "distinct (map fst ?roots)" by (rule distinct_map_filter) simp
  then have "length ?roots = card (set (map fst ?roots))"
    by (metis distinct_card length_map)
  also have "set (map fst ?roots) = ?R"
    by (auto simp: image_iff Bex_def)
  finally have c: "count_masters p = card ?R" by (simp add: count_masters_def)
  have "card ?R = 1 \<longleftrightarrow> (\<exists>i. ?R = {i})" by (simp add: card_1_singleton_iff)
  also have "\<dots> \<longleftrightarrow> (\<exists>!i. i \<in> ?R)" by (rule singleton_Ex1)
  finally show ?thesis using c by simp
qed

lemma check_mixer_Nil: "check_mixer p = [] \<longleftrightarrow> mixer_ok p"
proof -
  let ?m = "mixer_tracks p"
  have checks: "check_mixer p = [] \<longleftrightarrow>
     (\<forall>i t. om_find ?m i = Some t \<longrightarrow> effects_ok (track_effects t) \<and> check_output p i t = []) \<and>
     count_masters p = 1 \<and> om_find ?m (master p) \<noteq> None"
    by (auto simp: check_mixer_def concat_map_Nil om_entries_ball check_effects_Nil
        findMixerTrack_def)
  have ends: "routing_ends ?m"
    if "\<forall>i t. om_find ?m i = Some t \<longrightarrow> check_output p i t = []"
  proof -
    have "\<exists>n. output_steps ?m n i = None" for i
    proof (cases "output_of ?m i")
      case None
      then have "output_steps ?m (Suc 0) i = None" by simp
      then show ?thesis ..
    next
      case (Some out)
      then obtain t where t: "om_find ?m i = Some t" "track_output t = Some out"
        by (auto simp: output_of_def split: option.splits)
      then have "\<not> walk_cycles ?m {i} out"
        using that check_output_Nil by blast
      then obtain n where "output_steps ?m n out = None" using walk_ends by blast
      with Some have "output_steps ?m (Suc n) i = None" by simp
      then show ?thesis ..
    qed
    then show ?thesis by (simp add: routing_ends_def)
  qed
  have clean: "check_output p i t = []"
    if ends: "routing_ends ?m" and t: "om_find ?m i = Some t"
      and ex: "\<forall>out. track_output t = Some out \<longrightarrow> om_find ?m out \<noteq> None" for i t
  proof -
    obtain h where h: "routing_height ?m h" using ends by (rule routing_ends_height)
    have "out \<noteq> i \<and> \<not> walk_cycles ?m {i} out" if "track_output t = Some out" for out
    proof -
      have "h out < h i"
        using h t that by (simp add: routing_height_def output_of_def)
      then show ?thesis using walk_height [OF h] by auto
    qed
    with ex t show ?thesis by (simp add: check_output_Nil)
  qed
  show ?thesis
  proof
    assume c: "check_mixer p = []"
    have "om_find ?m out \<noteq> None" if "om_find ?m i = Some t" "track_output t = Some out" for i t out
      using c [unfolded checks] that check_output_Nil [OF that(1)] by blast
    with c [unfolded checks count_masters_1] ends show "mixer_ok p"
      unfolding mixer_ok_def by blast
  next
    assume m: "mixer_ok p"
    then have "check_output p i t = []" if "om_find ?m i = Some t" for i t
      using that clean unfolding mixer_ok_def by blast
    with m show "check_mixer p = []"
      unfolding checks count_masters_1 mixer_ok_def by blast
  qed
qed

lemma integrity_iff: "checkReferentialIntegrity p = [] \<longleftrightarrow> project_integrity p"
  by (simp add: checkReferentialIntegrity_def check_instruments_Nil check_patterns_Nil
      check_lanes_Nil check_clips_Nil check_mixer_Nil project_integrity_def)

end
