(* ===== verification/Project.thy ===== *)
theory Project
  imports Invariants
begin

text \<open>
  The operations of \<open>model/project.cpp\<close>: creation, impact reports, cascading deletion, the
  update and restore surfaces and the project-level setters.  An operation that returns
  \<open>bool\<close> in the source returns the pair of that flag and the project after it.  Every
  emission and every \<open>checkInvariants\<close> call stands where the source has it.
\<close>

subsection \<open>Creation\<close>

definition next_order :: "int list \<Rightarrow> int" where
  "next_order orders = fold_max (-1) orders + 1"

definition createMixerTrack :: "64 word \<Rightarrow> string \<Rightarrow> track_id option \<Rightarrow> project \<Rightarrow> track_id \<times> project" where
  "createMixerTrack now name out p =
     (let (i, p1) = mintId now p;
          out1 = (if out \<noteq> None then out else Some (master p1));
          out2 = (case out1 of
                    None \<Rightarrow> None
                  | Some o1 \<Rightarrow> if om_find (mixer_tracks p1) o1 = None then Some (master p1) else out1);
          t = default_mixer_track\<lparr>track_id := i, track_name := name, track_output := out2\<rparr>;
          p2 = p1\<lparr>mixer_tracks := om_emplace i t (mixer_tracks p1)\<rparr>
      in (i, checkInvariants (emit Added KMixerTrack (raw i) FAll raw_zero p2)))"

definition createInstrument :: "64 word \<Rightarrow> 64 word \<Rightarrow> string \<Rightarrow> PluginRef \<Rightarrow> project \<Rightarrow> instrument_id \<times> project" where
  "createInstrument now now' name plugin p =
     (let (i, p1) = mintId now p;
          order = next_order (map inst_order (om_values (instruments p1)));
          (dest, p2) = (if auto_create_mixer_track (preferences p1)
                        then createMixerTrack now' name (Some (master p1)) p1
                        else (master p1, p1));
          inst = default_instrument\<lparr>inst_id := i, inst_name := name, inst_order := order,
                   inst_plugin := plugin,
                   inst_routing := [\<lparr>route_port = 0, route_track = dest\<rparr>]\<rparr>;
          p3 = p2\<lparr>instruments := om_emplace i inst (instruments p2)\<rparr>
      in (i, checkInvariants (emit Added KInstrument (raw i) FAll (raw dest) p3)))"

definition createPattern :: "64 word \<Rightarrow> string \<Rightarrow> ticks \<Rightarrow> project \<Rightarrow> pattern_id \<times> project" where
  "createPattern now name len p =
     (let (i, p1) = mintId now p;
          order = next_order (map pat_order (om_values (patterns p1)));
          pat = default_pattern\<lparr>pat_id := i, pat_name := name, pat_length := len, pat_order := order\<rparr>;
          p2 = p1\<lparr>patterns := om_emplace i pat (patterns p1)\<rparr>
      in (i, checkInvariants (emit Added KPattern (raw i) FAll raw_zero p2)))"

definition createLane :: "64 word \<Rightarrow> string \<Rightarrow> project \<Rightarrow> lane_id \<times> project" where
  "createLane now name p =
     (let (i, p1) = mintId now p;
          order = next_order (map lane_order (om_values (lanes p1)));
          l = default_lane\<lparr>lane_id := i, lane_name := name, lane_order := order\<rparr>;
          p2 = p1\<lparr>lanes := om_emplace i l (lanes p1)\<rparr>
      in (i, checkInvariants (emit Added KArrangementLane (raw i) FAll raw_zero p2)))"

definition source_resolves :: "('a Tables_scheme) \<Rightarrow> ClipSource \<Rightarrow> bool" where
  "source_resolves p s =
     (case s of
        SrcPattern pid \<Rightarrow> om_find (patterns p) pid \<noteq> None
      | SrcAudio a \<Rightarrow> om_find (mixer_tracks p) (au_destination a) \<noteq> None
      | SrcAutomation m \<Rightarrow> automation_resolves p m)"

definition createClip :: "64 word \<Rightarrow> lane_id \<Rightarrow> ClipSource \<Rightarrow> ticks \<Rightarrow> ticks \<Rightarrow> project \<Rightarrow> clip_id \<times> project" where
  "createClip now lane source start len p =
     (if om_find (lanes p) lane = None then (no_id, p)
      else if \<not> source_resolves p source then (no_id, p)
      else let (i, p1) = mintId now p;
               c = default_clip\<lparr>clip_id := i, clip_lane := lane, clip_source := source,
                     clip_start := start, clip_length := len\<rparr>;
               p2 = p1\<lparr>clips := om_emplace i c (clips p1)\<rparr>
           in (i, checkInvariants (emit Added KClip (raw i) FAll (raw lane) p2)))"

subsection \<open>Impact reports\<close>

record InstrumentImpact =
  ii_patterns :: "pattern_id list"
  ii_note_count :: nat
  ii_pattern_clips :: "clip_id list"
  ii_clips :: "clip_id list"
  ii_tracks :: "track_id list"

definition targets_instrument :: "instrument_id \<Rightarrow> Clip \<Rightarrow> bool" where
  "targets_instrument i c =
     (case clip_automation c of None \<Rightarrow> False
      | Some m \<Rightarrow> as_target_kind m = TargetInstrument \<and> as_instrument m = i)"

definition instrumentImpact :: "('a Tables_scheme) \<Rightarrow> instrument_id \<Rightarrow> InstrumentImpact" where
  "instrumentImpact p i =
     (let holders = filter (\<lambda>(pid, pat). om_count (pat_sequences pat) i) (om_entries (patterns p));
          ps = map fst holders in
      \<lparr>ii_patterns = ps,
       ii_note_count = sum_list (map (\<lambda>(pid, pat). length (the (om_find (pat_sequences pat) i))) holders),
       ii_pattern_clips = clip_ids_where
         (\<lambda>c. case clip_pattern c of None \<Rightarrow> False | Some pid \<Rightarrow> pid \<in> set ps) p,
       ii_clips = clip_ids_where (targets_instrument i) p,
       ii_tracks = (case findInstrument p i of None \<Rightarrow> []
                    | Some inst \<Rightarrow> map route_track (inst_routing inst))\<rparr>)"

record PatternImpact =
  pi_clips :: "clip_id list"
  pi_note_count :: nat

definition patternImpact :: "('a Tables_scheme) \<Rightarrow> pattern_id \<Rightarrow> PatternImpact" where
  "patternImpact p i =
     \<lparr>pi_clips = clipsUsingPattern p i,
      pi_note_count = (case findPattern p i of None \<Rightarrow> 0
                       | Some pat \<Rightarrow> sum_list (map length (om_values (pat_sequences pat))))\<rparr>"

definition laneImpact :: "('a Tables_scheme) \<Rightarrow> lane_id \<Rightarrow> clip_id list" where
  "laneImpact p i = clipsOnLane p i"

record MixerTrackImpact =
  mi_instruments :: "instrument_id list"
  mi_inputs :: "track_id list"
  mi_clips :: "clip_id list"

definition clip_hits_track :: "track_id \<Rightarrow> Clip \<Rightarrow> bool" where
  "clip_hits_track i c \<longleftrightarrow>
     (case clip_audio c of None \<Rightarrow> False | Some a \<Rightarrow> au_destination a = i) \<or>
     (case clip_automation c of None \<Rightarrow> False
      | Some m \<Rightarrow> (as_target_kind m = TargetMixerTrack \<or> as_target_kind m = TargetEffect) \<and>
          as_mixer_track m = i)"

definition mixerTrackImpact :: "('a Tables_scheme) \<Rightarrow> track_id \<Rightarrow> MixerTrackImpact" where
  "mixerTrackImpact p i =
     \<lparr>mi_instruments = map fst (filter (\<lambda>(k, inst). \<exists>r \<in> set (inst_routing inst). route_track r = i)
        (om_entries (instruments p))),
      mi_inputs = map fst (filter (\<lambda>(k, t). track_output t = Some i) (om_entries (mixer_tracks p))),
      mi_clips = clip_ids_where (clip_hits_track i) p\<rparr>"

definition drives_effect :: "track_id \<Rightarrow> effect_id \<Rightarrow> Clip \<Rightarrow> bool" where
  "drives_effect t e c =
     (case clip_automation c of None \<Rightarrow> False
      | Some m \<Rightarrow> as_target_kind m = TargetEffect \<and> as_mixer_track m = t \<and> as_effect m = e)"

definition effectImpact :: "('a Tables_scheme) \<Rightarrow> track_id \<Rightarrow> effect_id \<Rightarrow> clip_id list" where
  "effectImpact p t e = clip_ids_where (drives_effect t e) p"

subsection \<open>Deletion\<close>

definition deleteClip :: "clip_id \<Rightarrow> project \<Rightarrow> bool \<times> project" where
  "deleteClip i p =
     (case om_find (clips p) i of
        None \<Rightarrow> (False, p)
      | Some c \<Rightarrow> (True, checkInvariants (emit Removed KClip (raw i) FAll (raw (clip_lane c))
          (p\<lparr>clips := om_erase i (clips p)\<rparr>))))"

definition delete_clips :: "clip_id list \<Rightarrow> project \<Rightarrow> project" where
  "delete_clips = fold (\<lambda>i p. snd (deleteClip i p))"

definition drop_sequence :: "instrument_id \<Rightarrow> pattern_id \<Rightarrow> project \<Rightarrow> project" where
  "drop_sequence i pid p =
     (case om_find (patterns p) pid of
        None \<Rightarrow> p
      | Some pat \<Rightarrow>
          if om_count (pat_sequences pat) i then
            emit Modified KPattern (raw pid) FNotes (raw i)
              (p\<lparr>patterns := om_insert pid (pat\<lparr>pat_sequences := om_erase i (pat_sequences pat)\<rparr>)
                 (patterns p)\<rparr>)
          else p)"

definition deleteInstrument :: "instrument_id \<Rightarrow> project \<Rightarrow> bool \<times> project" where
  "deleteInstrument i p =
     (if om_find (instruments p) i = None then (False, p)
      else let p1 = fold (drop_sequence i) (om_keys (patterns p)) p;
               p2 = delete_clips (ii_clips (instrumentImpact p1 i)) p1;
               p3 = p2\<lparr>instruments := om_erase i (instruments p2)\<rparr>
           in (True, checkInvariants (emit Removed KInstrument (raw i) FAll raw_zero p3)))"

definition deletePattern :: "pattern_id \<Rightarrow> project \<Rightarrow> bool \<times> project" where
  "deletePattern i p =
     (if om_find (patterns p) i = None then (False, p)
      else let p1 = delete_clips (clipsUsingPattern p i) p;
               p2 = p1\<lparr>patterns := om_erase i (patterns p1)\<rparr>
           in (True, checkInvariants (emit Removed KPattern (raw i) FAll raw_zero p2)))"

definition release_group :: "lane_id \<Rightarrow> lane_id \<Rightarrow> project \<Rightarrow> project" where
  "release_group i k p =
     (case om_find (lanes p) k of
        None \<Rightarrow> p
      | Some l \<Rightarrow>
          if lane_group_id l = Some i then
            emit Modified KArrangementLane (raw k) FGroup (raw i)
              (p\<lparr>lanes := om_insert k (l\<lparr>lane_group_id := None\<rparr>) (lanes p)\<rparr>)
          else p)"

definition deleteLane :: "lane_id \<Rightarrow> project \<Rightarrow> bool \<times> project" where
  "deleteLane i p =
     (if om_find (lanes p) i = None then (False, p)
      else let p1 = delete_clips (clipsOnLane p i) p;
               p2 = fold (release_group i) (om_keys (lanes p1)) p1;
               p3 = p2\<lparr>lanes := om_erase i (lanes p2)\<rparr>
           in (True, checkInvariants (emit Removed KArrangementLane (raw i) FAll raw_zero p3)))"

definition repoint_routes :: "track_id \<Rightarrow> track_id \<Rightarrow> OutputRoute list \<Rightarrow> OutputRoute list" where
  "repoint_routes i m rs = map (\<lambda>r. if route_track r = i then r\<lparr>route_track := m\<rparr> else r) rs"

definition repoint_instrument :: "track_id \<Rightarrow> instrument_id \<Rightarrow> project \<Rightarrow> project" where
  "repoint_instrument i k p =
     (case om_find (instruments p) k of
        None \<Rightarrow> p
      | Some inst \<Rightarrow> emit Modified KInstrument (raw k) FRouting (raw (master p))
          (p\<lparr>instruments := om_insert k
             (inst\<lparr>inst_routing := repoint_routes i (master p) (inst_routing inst)\<rparr>) (instruments p)\<rparr>))"

definition repoint_input :: "track_id \<Rightarrow> project \<Rightarrow> project" where
  "repoint_input k p =
     (case om_find (mixer_tracks p) k of
        None \<Rightarrow> p
      | Some t \<Rightarrow> emit Modified KMixerTrack (raw k) FOutput (raw (master p))
          (p\<lparr>mixer_tracks := om_insert k (t\<lparr>track_output := Some (master p)\<rparr>) (mixer_tracks p)\<rparr>))"

definition repoint_clip :: "clip_id \<Rightarrow> project \<Rightarrow> project" where
  "repoint_clip k p =
     (case om_find (clips p) k of
        None \<Rightarrow> p
      | Some c \<Rightarrow>
          (case clip_source c of
             SrcAudio a \<Rightarrow> emit Modified KClip (raw k) FSource (raw (master p))
               (p\<lparr>clips := om_insert k
                  (c\<lparr>clip_source := SrcAudio (a\<lparr>au_destination := master p\<rparr>)\<rparr>) (clips p)\<rparr>)
           | _ \<Rightarrow> snd (deleteClip k p)))"

definition deleteMixerTrack :: "track_id \<Rightarrow> project \<Rightarrow> bool \<times> project" where
  "deleteMixerTrack i p =
     (if i = master p then (False, p)
      else if om_find (mixer_tracks p) i = None then (False, p)
      else let impact = mixerTrackImpact p i;
               p1 = fold (repoint_instrument i) (mi_instruments impact) p;
               p2 = fold repoint_input (mi_inputs impact) p1;
               p3 = fold repoint_clip (mi_clips impact) p2;
               p4 = p3\<lparr>mixer_tracks := om_erase i (mixer_tracks p3)\<rparr>
           in (True, checkInvariants (emit Removed KMixerTrack (raw i) FAll raw_zero p4)))"

subsection \<open>Modification\<close>

definition updateInstrument :: "instrument_id \<Rightarrow> ChangeField \<Rightarrow> (Instrument \<Rightarrow> Instrument) \<Rightarrow> project \<Rightarrow> bool \<times> project" where
  "updateInstrument i f mutator p =
     (case om_find (instruments p) i of None \<Rightarrow> (False, p)
      | Some e \<Rightarrow> (True, checkInvariants (emit Modified KInstrument (raw i) f raw_zero
          (p\<lparr>instruments := om_insert i (mutator e) (instruments p)\<rparr>))))"

definition updatePattern :: "pattern_id \<Rightarrow> ChangeField \<Rightarrow> (Pattern \<Rightarrow> Pattern) \<Rightarrow> project \<Rightarrow> bool \<times> project" where
  "updatePattern i f mutator p =
     (case om_find (patterns p) i of None \<Rightarrow> (False, p)
      | Some e \<Rightarrow> (True, checkInvariants (emit Modified KPattern (raw i) f raw_zero
          (p\<lparr>patterns := om_insert i (mutator e) (patterns p)\<rparr>))))"

definition updateLane :: "lane_id \<Rightarrow> ChangeField \<Rightarrow> (ArrangementLane \<Rightarrow> ArrangementLane) \<Rightarrow> project \<Rightarrow> bool \<times> project" where
  "updateLane i f mutator p =
     (case om_find (lanes p) i of None \<Rightarrow> (False, p)
      | Some e \<Rightarrow> (True, checkInvariants (emit Modified KArrangementLane (raw i) f raw_zero
          (p\<lparr>lanes := om_insert i (mutator e) (lanes p)\<rparr>))))"

definition updateClip :: "clip_id \<Rightarrow> ChangeField \<Rightarrow> (Clip \<Rightarrow> Clip) \<Rightarrow> project \<Rightarrow> bool \<times> project" where
  "updateClip i f mutator p =
     (case om_find (clips p) i of None \<Rightarrow> (False, p)
      | Some e \<Rightarrow> (True, checkInvariants (emit Modified KClip (raw i) f raw_zero
          (p\<lparr>clips := om_insert i (mutator e) (clips p)\<rparr>))))"

definition updateMixerTrack :: "track_id \<Rightarrow> ChangeField \<Rightarrow> (MixerTrack \<Rightarrow> MixerTrack) \<Rightarrow> project \<Rightarrow> bool \<times> project" where
  "updateMixerTrack i f mutator p =
     (case om_find (mixer_tracks p) i of None \<Rightarrow> (False, p)
      | Some e \<Rightarrow> (True, checkInvariants (emit Modified KMixerTrack (raw i) f raw_zero
          (p\<lparr>mixer_tracks := om_insert i (mutator e) (mixer_tracks p)\<rparr>))))"

text \<open>\<open>sequences[instrument]\<close> creates an empty sequence first; an empty result is erased.\<close>

definition updateSequence :: "pattern_id \<Rightarrow> instrument_id \<Rightarrow> (note_sequence \<Rightarrow> note_sequence) \<Rightarrow> project \<Rightarrow> bool \<times> project" where
  "updateSequence pid i mutator p =
     (case om_find (patterns p) pid of
        None \<Rightarrow> (False, p)
      | Some pat \<Rightarrow>
          if om_find (instruments p) i = None then (False, p)
          else let s = mutator (case om_find (pat_sequences pat) i of None \<Rightarrow> [] | Some s \<Rightarrow> s);
                   seqs = (if s = [] then om_erase i (pat_sequences pat)
                           else om_insert i s (pat_sequences pat))
               in (True, checkInvariants (emit Modified KPattern (raw pid) FNotes (raw i)
                    (p\<lparr>patterns := om_insert pid (pat\<lparr>pat_sequences := seqs\<rparr>) (patterns p)\<rparr>))))"

definition setTransport :: "TransportState \<Rightarrow> project \<Rightarrow> project" where
  "setTransport t p = emit Modified KProject raw_zero FTransport raw_zero (p\<lparr>transport := t\<rparr>)"

definition setMeta :: "ProjectMeta \<Rightarrow> project \<Rightarrow> project" where
  "setMeta m p = emit Modified KProject raw_zero FMeta raw_zero (p\<lparr>meta := m\<rparr>)"

subsection \<open>Restoration\<close>

definition restoreInstrument :: "Instrument \<Rightarrow> project \<Rightarrow> bool \<times> project" where
  "restoreInstrument e p =
     (if \<not> valid_id (inst_id e) \<or> om_count (instruments p) (inst_id e) then (False, p)
      else (True, checkInvariants (emit Added KInstrument (raw (inst_id e)) FAll raw_zero
        (p\<lparr>instruments := om_emplace (inst_id e) e (instruments p)\<rparr>))))"

definition restorePattern :: "Pattern \<Rightarrow> project \<Rightarrow> bool \<times> project" where
  "restorePattern e p =
     (if \<not> valid_id (pat_id e) \<or> om_count (patterns p) (pat_id e) then (False, p)
      else (True, checkInvariants (emit Added KPattern (raw (pat_id e)) FAll raw_zero
        (p\<lparr>patterns := om_emplace (pat_id e) e (patterns p)\<rparr>))))"

definition restoreLane :: "ArrangementLane \<Rightarrow> project \<Rightarrow> bool \<times> project" where
  "restoreLane e p =
     (if \<not> valid_id (lane_id e) \<or> om_count (lanes p) (lane_id e) then (False, p)
      else (True, checkInvariants (emit Added KArrangementLane (raw (lane_id e)) FAll raw_zero
        (p\<lparr>lanes := om_emplace (lane_id e) e (lanes p)\<rparr>))))"

definition restoreClip :: "Clip \<Rightarrow> project \<Rightarrow> bool \<times> project" where
  "restoreClip e p =
     (if \<not> valid_id (clip_id e) \<or> om_count (clips p) (clip_id e) then (False, p)
      else (True, checkInvariants (emit Added KClip (raw (clip_id e)) FAll (raw (clip_lane e))
        (p\<lparr>clips := om_emplace (clip_id e) e (clips p)\<rparr>))))"

definition restoreMixerTrack :: "MixerTrack \<Rightarrow> project \<Rightarrow> bool \<times> project" where
  "restoreMixerTrack e p =
     (if \<not> valid_id (track_id e) \<or> om_count (mixer_tracks p) (track_id e) then (False, p)
      else (True, checkInvariants (emit Added KMixerTrack (raw (track_id e)) FAll raw_zero
        (p\<lparr>mixer_tracks := om_emplace (track_id e) e (mixer_tracks p)\<rparr>))))"

definition restoreSequence :: "pattern_id \<Rightarrow> instrument_id \<Rightarrow> note_sequence \<Rightarrow> project \<Rightarrow> bool \<times> project" where
  "restoreSequence pid i s p =
     (case om_find (patterns p) pid of
        None \<Rightarrow> (False, p)
      | Some pat \<Rightarrow>
          if om_find (instruments p) i = None then (False, p)
          else let seqs = (if s = [] then om_erase i (pat_sequences pat)
                           else om_insert i s (pat_sequences pat))
               in (True, checkInvariants (emit Modified KPattern (raw pid) FNotes (raw i)
                    (p\<lparr>patterns := om_insert pid (pat\<lparr>pat_sequences := seqs\<rparr>) (patterns p)\<rparr>))))"

end
