(* ===== verification/Project_Spec.thy ===== *)
theory Project_Spec
  imports Project
begin

text \<open>
  The abstract specification of the project's operations, as functions on the tables alone:
  each cascade is one simultaneous update, with no intermediate state, no events and no
  check.  \<open>refines\<close> lemmas say that the operations of \<open>Project\<close>, run step by step, have
  exactly this effect.  Everything the commands are proved to do rests on these equations.
\<close>

subsection \<open>Frames of the bookkeeping\<close>

lemma checkInvariants_frame [simp, frame_simps]:
  "instruments (checkInvariants p) = instruments p" "patterns (checkInvariants p) = patterns p"
  "lanes (checkInvariants p) = lanes p" "clips (checkInvariants p) = clips p"
  "mixer_tracks (checkInvariants p) = mixer_tracks p" "master (checkInvariants p) = master p"
  "transport (checkInvariants p) = transport p" "meta (checkInvariants p) = meta p"
  "generator (checkInvariants p) = generator p" "preferences (checkInvariants p) = preferences p"
  "debug_checks (checkInvariants p) = debug_checks p" "changes (checkInvariants p) = changes p"
  by (simp_all add: checkInvariants_def)

lemma copyTables_emit [simp]: "copyTables (emit t k i f r p) = copyTables p"
  by (simp add: copyTables_def)

lemma copyTables_check [simp]: "copyTables (checkInvariants p) = copyTables p"
  by (simp add: copyTables_def)

lemma copyTables_mintId [simp]: "copyTables (snd (mintId n p)) = copyTables p"
  by (simp add: copyTables_def)

lemma copyTables_write [simp]:
  "copyTables (p\<lparr>instruments := a\<rparr>) = (copyTables p)\<lparr>instruments := a\<rparr>"
  "copyTables (p\<lparr>patterns := b\<rparr>) = (copyTables p)\<lparr>patterns := b\<rparr>"
  "copyTables (p\<lparr>lanes := c\<rparr>) = (copyTables p)\<lparr>lanes := c\<rparr>"
  "copyTables (p\<lparr>clips := d\<rparr>) = (copyTables p)\<lparr>clips := d\<rparr>"
  "copyTables (p\<lparr>mixer_tracks := e\<rparr>) = (copyTables p)\<lparr>mixer_tracks := e\<rparr>"
  "copyTables (p\<lparr>transport := f\<rparr>) = (copyTables p)\<lparr>transport := f\<rparr>"
  "copyTables (p\<lparr>meta := g\<rparr>) = (copyTables p)\<lparr>meta := g\<rparr>"
  by (simp_all add: copyTables_def)

lemma tables_frame:
  "copyTables q = t \<Longrightarrow> instruments q = instruments t" "copyTables q = t \<Longrightarrow> patterns q = patterns t"
  "copyTables q = t \<Longrightarrow> lanes q = lanes t" "copyTables q = t \<Longrightarrow> clips q = clips t"
  "copyTables q = t \<Longrightarrow> mixer_tracks q = mixer_tracks t" "copyTables q = t \<Longrightarrow> master q = master t"
  "copyTables q = t \<Longrightarrow> transport q = transport t" "copyTables q = t \<Longrightarrow> meta q = meta t"
  by auto

lemma copyTables_same [simp]:
  "(copyTables p)\<lparr>instruments := instruments p\<rparr> = copyTables p"
  "(copyTables p)\<lparr>patterns := patterns p\<rparr> = copyTables p"
  "(copyTables p)\<lparr>lanes := lanes p\<rparr> = copyTables p"
  "(copyTables p)\<lparr>clips := clips p\<rparr> = copyTables p"
  "(copyTables p)\<lparr>mixer_tracks := mixer_tracks p\<rparr> = copyTables p"
  by (simp_all add: copyTables_def)

subsection \<open>The specifications\<close>

definition spec_deleteClip :: "clip_id \<Rightarrow> Tables \<Rightarrow> Tables" where
  "spec_deleteClip i t = t\<lparr>clips := om_erase i (clips t)\<rparr>"

definition spec_deleteInstrument :: "instrument_id \<Rightarrow> Tables \<Rightarrow> Tables" where
  "spec_deleteInstrument i t =
     t\<lparr>instruments := om_erase i (instruments t),
       patterns := om_map (\<lambda>_ pat. pat\<lparr>pat_sequences := om_erase i (pat_sequences pat)\<rparr>) (patterns t),
       clips := om_filter (\<lambda>_ c. \<not> targets_instrument i c) (clips t)\<rparr>"

definition spec_deletePattern :: "pattern_id \<Rightarrow> Tables \<Rightarrow> Tables" where
  "spec_deletePattern i t =
     t\<lparr>patterns := om_erase i (patterns t),
       clips := om_filter (\<lambda>_ c. clip_pattern c \<noteq> Some i) (clips t)\<rparr>"

definition ungroup :: "lane_id \<Rightarrow> ArrangementLane \<Rightarrow> ArrangementLane" where
  "ungroup i l = (if lane_group_id l = Some i then l\<lparr>lane_group_id := None\<rparr> else l)"

definition spec_deleteLane :: "lane_id \<Rightarrow> Tables \<Rightarrow> Tables" where
  "spec_deleteLane i t =
     t\<lparr>lanes := om_erase i (om_map (\<lambda>_. ungroup i) (lanes t)),
       clips := om_filter (\<lambda>_ c. clip_lane c \<noteq> i) (clips t)\<rparr>"

definition rerouted :: "track_id \<Rightarrow> track_id \<Rightarrow> Instrument \<Rightarrow> Instrument" where
  "rerouted i m inst = inst\<lparr>inst_routing := repoint_routes i m (inst_routing inst)\<rparr>"

definition reparented :: "track_id \<Rightarrow> track_id \<Rightarrow> MixerTrack \<Rightarrow> MixerTrack" where
  "reparented i m t = (if track_output t = Some i then t\<lparr>track_output := Some m\<rparr> else t)"

definition redirected :: "track_id \<Rightarrow> track_id \<Rightarrow> Clip \<Rightarrow> Clip" where
  "redirected i m c =
     (case clip_source c of
        SrcAudio a \<Rightarrow> if au_destination a = i then c\<lparr>clip_source := SrcAudio (a\<lparr>au_destination := m\<rparr>)\<rparr> else c
      | _ \<Rightarrow> c)"

definition automates_track :: "track_id \<Rightarrow> Clip \<Rightarrow> bool" where
  "automates_track i c \<longleftrightarrow> clip_hits_track i c \<and> clip_audio c = None"

definition spec_deleteMixerTrack :: "track_id \<Rightarrow> Tables \<Rightarrow> Tables" where
  "spec_deleteMixerTrack i t =
     t\<lparr>instruments := om_map (\<lambda>_. rerouted i (master t)) (instruments t),
       mixer_tracks := om_erase i (om_map (\<lambda>_. reparented i (master t)) (mixer_tracks t)),
       clips := om_map (\<lambda>_. redirected i (master t))
         (om_filter (\<lambda>_ c. \<not> automates_track i c) (clips t))\<rparr>"

subsection \<open>Cascades step by step\<close>

lemma deleteClip_tables: "copyTables (snd (deleteClip i p)) = spec_deleteClip i (copyTables p)"
proof (cases "om_find (clips p) i")
  case None
  have "copyTables p = (copyTables p)\<lparr>clips := clips p\<rparr>" by (simp add: copyTables_def)
  with None show ?thesis by (simp add: deleteClip_def spec_deleteClip_def om_erase_none)
qed (simp add: deleteClip_def spec_deleteClip_def)

lemma deleteClip_fst: "fst (deleteClip i p) \<longleftrightarrow> om_find (clips p) i \<noteq> None"
  by (simp add: deleteClip_def split: option.split)

lemma delete_clips_simps [simp]:
  "delete_clips [] p = p" "delete_clips (i # is) p = delete_clips is (snd (deleteClip i p))"
  by (simp_all add: delete_clips_def)

lemma delete_clips_tables:
  "copyTables (delete_clips is p) = (copyTables p)\<lparr>clips := fold om_erase is (clips p)\<rparr>"
proof (induction "is" arbitrary: p)
  case Nil
  show ?case by (simp add: copyTables_def)
next
  case (Cons i "is")
  have "clips (snd (deleteClip i p)) = om_erase i (clips p)"
    using tables_frame(4) [OF deleteClip_tables] by (simp add: spec_deleteClip_def)
  then show ?case by (simp add: Cons deleteClip_tables spec_deleteClip_def)
qed

lemma drop_sequence_tables:
  "copyTables (drop_sequence i k p) = (copyTables p)\<lparr>patterns :=
     om_update k (\<lambda>pat. pat\<lparr>pat_sequences := om_erase i (pat_sequences pat)\<rparr>) (patterns p)\<rparr>"
proof (cases "om_find (patterns p) k")
  case None
  then show ?thesis by (simp add: drop_sequence_def om_update_def copyTables_def)
next
  case (Some pat)
  have "om_insert k (pat\<lparr>pat_sequences := om_erase i (pat_sequences pat)\<rparr>) (patterns p) = patterns p"
    if "om_find (pat_sequences pat) i = None"
    using that Some by (simp add: om_erase_none om_insert_same)
  then show ?thesis using Some by (auto simp: drop_sequence_def om_update_def copyTables_def)
qed

lemma fold_drop_sequence_tables:
  "copyTables (fold (drop_sequence i) ks p) = (copyTables p)\<lparr>patterns :=
     fold (\<lambda>k. om_update k (\<lambda>pat. pat\<lparr>pat_sequences := om_erase i (pat_sequences pat)\<rparr>)) ks (patterns p)\<rparr>"
proof (induction ks arbitrary: p)
  case Nil
  show ?case by (simp add: copyTables_def)
next
  case (Cons k ks)
  have "patterns (drop_sequence i k p) =
      om_update k (\<lambda>pat. pat\<lparr>pat_sequences := om_erase i (pat_sequences pat)\<rparr>) (patterns p)"
    using tables_frame(2) [OF drop_sequence_tables] by simp
  then show ?case by (simp add: Cons drop_sequence_tables)
qed

lemma release_group_tables:
  "copyTables (release_group i k p) = (copyTables p)\<lparr>lanes := om_update k (ungroup i) (lanes p)\<rparr>"
proof (cases "om_find (lanes p) k")
  case None
  then show ?thesis by (simp add: release_group_def om_update_def copyTables_def)
next
  case (Some l)
  then show ?thesis
    by (auto simp: release_group_def om_update_def ungroup_def om_insert_same copyTables_def)
qed

lemma fold_release_group_tables:
  "copyTables (fold (release_group i) ks p) =
     (copyTables p)\<lparr>lanes := fold (\<lambda>k. om_update k (ungroup i)) ks (lanes p)\<rparr>"
proof (induction ks arbitrary: p)
  case Nil
  show ?case by (simp add: copyTables_def)
next
  case (Cons k ks)
  have "lanes (release_group i k p) = om_update k (ungroup i) (lanes p)"
    using tables_frame(3) [OF release_group_tables] by simp
  then show ?case by (simp add: Cons release_group_tables)
qed

lemma repoint_instrument_tables:
  "copyTables (repoint_instrument i k p) =
     (copyTables p)\<lparr>instruments := om_update k (rerouted i (master p)) (instruments p)\<rparr>"
  by (simp add: repoint_instrument_def om_update_def rerouted_def copyTables_def split: option.split)

lemma fold_repoint_instrument_tables:
  "copyTables (fold (repoint_instrument i) ks p) =
     (copyTables p)\<lparr>instruments := fold (\<lambda>k. om_update k (rerouted i (master p))) ks (instruments p)\<rparr>"
proof (induction ks arbitrary: p)
  case Nil
  show ?case by (simp add: copyTables_def)
next
  case (Cons k ks)
  have "instruments (repoint_instrument i k p) = om_update k (rerouted i (master p)) (instruments p)"
    "master (repoint_instrument i k p) = master p"
    using tables_frame [OF repoint_instrument_tables] by simp_all
  then show ?case by (simp add: Cons repoint_instrument_tables)
qed

lemma repoint_input_tables:
  "copyTables (repoint_input k p) = (copyTables p)\<lparr>mixer_tracks :=
     om_update k (\<lambda>t. t\<lparr>track_output := Some (master p)\<rparr>) (mixer_tracks p)\<rparr>"
  by (simp add: repoint_input_def om_update_def copyTables_def split: option.split)

lemma fold_repoint_input_tables:
  "copyTables (fold repoint_input ks p) = (copyTables p)\<lparr>mixer_tracks :=
     fold (\<lambda>k. om_update k (\<lambda>t. t\<lparr>track_output := Some (master p)\<rparr>)) ks (mixer_tracks p)\<rparr>"
proof (induction ks arbitrary: p)
  case Nil
  show ?case by (simp add: copyTables_def)
next
  case (Cons k ks)
  have "mixer_tracks (repoint_input k p) =
      om_update k (\<lambda>t. t\<lparr>track_output := Some (master p)\<rparr>) (mixer_tracks p)"
    "master (repoint_input k p) = master p"
    using tables_frame [OF repoint_input_tables] by simp_all
  then show ?case by (simp add: Cons repoint_input_tables)
qed

text \<open>What one step of the clip loop of \<open>deleteMixerTrack\<close> does to the table of clips.\<close>

definition repoint_entry :: "track_id \<Rightarrow> clip_id \<Rightarrow> (clip_id, Clip) omap \<Rightarrow> (clip_id, Clip) omap" where
  "repoint_entry m k cs =
     (case om_find cs k of
        None \<Rightarrow> cs
      | Some c \<Rightarrow>
          (case clip_source c of
             SrcAudio a \<Rightarrow> om_insert k (c\<lparr>clip_source := SrcAudio (a\<lparr>au_destination := m\<rparr>)\<rparr>) cs
           | _ \<Rightarrow> om_erase k cs))"

lemma repoint_clip_tables:
  "copyTables (repoint_clip k p) = (copyTables p)\<lparr>clips := repoint_entry (master p) k (clips p)\<rparr>"
  by (auto simp: repoint_clip_def repoint_entry_def deleteClip_tables spec_deleteClip_def
      split: option.split ClipSource.split)

lemma fold_repoint_clip_tables:
  "copyTables (fold repoint_clip ks p) =
     (copyTables p)\<lparr>clips := fold (repoint_entry (master p)) ks (clips p)\<rparr>"
proof (induction ks arbitrary: p)
  case Nil
  show ?case by (simp add: copyTables_def)
next
  case (Cons k ks)
  have "clips (repoint_clip k p) = repoint_entry (master p) k (clips p)"
    "master (repoint_clip k p) = master p"
    using tables_frame [OF repoint_clip_tables] by simp_all
  then show ?case by (simp add: Cons repoint_clip_tables)
qed

lemma om_find_repoint_entry:
  "om_find (repoint_entry m k cs) j =
     (if j = k then
        (case om_find cs k of None \<Rightarrow> None
         | Some c \<Rightarrow> (case clip_source c of
             SrcAudio a \<Rightarrow> Some (c\<lparr>clip_source := SrcAudio (a\<lparr>au_destination := m\<rparr>)\<rparr>) | _ \<Rightarrow> None))
      else om_find cs j)"
  by (auto simp: repoint_entry_def split: option.split ClipSource.split)

lemma om_find_fold_repoint_entry:
  "distinct ks \<Longrightarrow> om_find (fold (repoint_entry m) ks cs) j =
     (if j \<in> set ks then
        (case om_find cs j of None \<Rightarrow> None
         | Some c \<Rightarrow> (case clip_source c of
             SrcAudio a \<Rightarrow> Some (c\<lparr>clip_source := SrcAudio (a\<lparr>au_destination := m\<rparr>)\<rparr>) | _ \<Rightarrow> None))
      else om_find cs j)"
  by (induction ks arbitrary: cs) (auto simp: om_find_repoint_entry)

subsection \<open>The operations refine their specifications\<close>

lemma deleteInstrument_refines:
  assumes "om_find (instruments p) i \<noteq> None"
  shows "fst (deleteInstrument i p) \<and>
    copyTables (snd (deleteInstrument i p)) = spec_deleteInstrument i (copyTables p)"
proof -
  let ?p1 = "fold (drop_sequence i) (om_keys (patterns p)) p"
  have t1: "copyTables ?p1 = (copyTables p)\<lparr>patterns :=
      om_map (\<lambda>_ pat. pat\<lparr>pat_sequences := om_erase i (pat_sequences pat)\<rparr>) (patterns p)\<rparr>"
    by (simp add: fold_drop_sequence_tables fold_update_keys)
  have "clips ?p1 = clips p" using tables_frame(4) [OF t1] by simp
  then have "fold om_erase (ii_clips (instrumentImpact ?p1 i)) (clips ?p1) =
      om_filter (\<lambda>_ c. \<not> targets_instrument i c) (clips p)"
    by (subst fold_erase_where [where P = "\<lambda>_ c. \<not> targets_instrument i c"])
       (auto simp: instrumentImpact_def Let_def)
  then have t2: "copyTables (delete_clips (ii_clips (instrumentImpact ?p1 i)) ?p1) =
      (copyTables p)\<lparr>patterns := om_map (\<lambda>_ pat. pat\<lparr>pat_sequences := om_erase i (pat_sequences pat)\<rparr>) (patterns p),
        clips := om_filter (\<lambda>_ c. \<not> targets_instrument i c) (clips p)\<rparr>"
    by (simp add: delete_clips_tables t1)
  then have "instruments (delete_clips (ii_clips (instrumentImpact ?p1 i)) ?p1) = instruments p"
    using tables_frame(1) [OF t2] by simp
  with assms t2 show ?thesis
    by (simp add: deleteInstrument_def Let_def spec_deleteInstrument_def)
qed

lemma deletePattern_refines:
  assumes "om_find (patterns p) i \<noteq> None"
  shows "fst (deletePattern i p) \<and>
    copyTables (snd (deletePattern i p)) = spec_deletePattern i (copyTables p)"
proof -
  let ?p1 = "delete_clips (clipsUsingPattern p i) p"
  have "fold om_erase (clipsUsingPattern p i) (clips p) =
      om_filter (\<lambda>_ c. clip_pattern c \<noteq> Some i) (clips p)"
    by (rule fold_erase_where) (auto simp: clipsUsingPattern_def)
  then have t1: "copyTables ?p1 =
      (copyTables p)\<lparr>clips := om_filter (\<lambda>_ c. clip_pattern c \<noteq> Some i) (clips p)\<rparr>"
    by (simp add: delete_clips_tables)
  have "patterns ?p1 = patterns p" using tables_frame(2) [OF t1] by simp
  with assms t1 show ?thesis
    by (simp add: deletePattern_def Let_def spec_deletePattern_def)
qed

lemma deleteLane_refines:
  assumes "om_find (lanes p) i \<noteq> None"
  shows "fst (deleteLane i p) \<and> copyTables (snd (deleteLane i p)) = spec_deleteLane i (copyTables p)"
proof -
  let ?p1 = "delete_clips (clipsOnLane p i) p"
  let ?p2 = "fold (release_group i) (om_keys (lanes ?p1)) ?p1"
  have "fold om_erase (clipsOnLane p i) (clips p) = om_filter (\<lambda>_ c. clip_lane c \<noteq> i) (clips p)"
    by (rule fold_erase_where) (auto simp: clipsOnLane_def)
  then have t1: "copyTables ?p1 =
      (copyTables p)\<lparr>clips := om_filter (\<lambda>_ c. clip_lane c \<noteq> i) (clips p)\<rparr>"
    by (simp add: delete_clips_tables)
  have l1: "lanes ?p1 = lanes p" using tables_frame(3) [OF t1] by simp
  have t2: "copyTables ?p2 = (copyTables ?p1)\<lparr>lanes := om_map (\<lambda>_. ungroup i) (lanes p)\<rparr>"
    by (simp add: fold_release_group_tables fold_update_keys l1)
  then have "lanes ?p2 = om_map (\<lambda>_. ungroup i) (lanes p)"
    using tables_frame(3) [OF t2] by simp
  with assms t1 t2 show ?thesis
    by (simp add: deleteLane_def Let_def spec_deleteLane_def)
qed

lemma rerouted_id:
  "\<not> (\<exists>r \<in> set (inst_routing inst). route_track r = i) \<Longrightarrow> rerouted i m inst = inst"
  by (simp add: rerouted_def repoint_routes_def map_idI)

text \<open>The three loops of \<open>deleteMixerTrack\<close>, over the ids the impact report lists.\<close>

lemma repoint_instruments_tables:
  "copyTables (fold (repoint_instrument i) (mi_instruments (mixerTrackImpact p i)) p) =
     (copyTables p)\<lparr>instruments := om_map (\<lambda>_. rerouted i (master p)) (instruments p)\<rparr>"
proof -
  have "fold (\<lambda>k. om_update k (rerouted i (master p))) (mi_instruments (mixerTrackImpact p i))
      (instruments p) = om_map (\<lambda>_. rerouted i (master p)) (instruments p)"
    by (rule fold_update_where, simp add: mixerTrackImpact_def distinct_map_filter, rule rerouted_id)
       (auto simp: mixerTrackImpact_def image_iff Bex_def)
  then show ?thesis by (simp add: fold_repoint_instrument_tables)
qed

lemma repoint_inputs_tables:
  assumes "mixer_tracks q = mixer_tracks p"
  shows "copyTables (fold repoint_input (mi_inputs (mixerTrackImpact p i)) q) =
    (copyTables q)\<lparr>mixer_tracks := om_map (\<lambda>_. reparented i (master q)) (mixer_tracks q)\<rparr>"
proof -
  have d: "distinct (mi_inputs (mixerTrackImpact p i))"
    by (simp add: mixerTrackImpact_def distinct_map_filter)
  have "fold (\<lambda>k. om_update k (\<lambda>t. t\<lparr>track_output := Some (master q)\<rparr>))
      (mi_inputs (mixerTrackImpact p i)) (mixer_tracks q) =
    om_map (\<lambda>_. reparented i (master q)) (mixer_tracks q)"
    using d assms by (intro om_eqI)
      (auto simp: om_find_fold_update mixerTrackImpact_def reparented_def map_option_case image_iff
        Bex_def split: option.split)
  then show ?thesis by (simp add: fold_repoint_input_tables)
qed

lemma fold_repoint_entry_all:
  "fold (repoint_entry m) (mi_clips (mixerTrackImpact t i)) (clips t) =
     om_map (\<lambda>_. redirected i m) (om_filter (\<lambda>_ c. \<not> automates_track i c) (clips t))"
  by (rule om_eqI)
    (auto simp: om_find_fold_repoint_entry mixerTrackImpact_def redirected_def automates_track_def
      clip_hits_track_def clip_audio.simps clip_automation.simps
      split: option.splits ClipSource.splits)

lemma deleteMixerTrack_refines:
  assumes "i \<noteq> master p" and "om_find (mixer_tracks p) i \<noteq> None"
  shows "fst (deleteMixerTrack i p) \<and>
    copyTables (snd (deleteMixerTrack i p)) = spec_deleteMixerTrack i (copyTables p)"
proof -
  let ?imp = "mixerTrackImpact p i"
  let ?p1 = "fold (repoint_instrument i) (mi_instruments ?imp) p"
  let ?p2 = "fold repoint_input (mi_inputs ?imp) ?p1"
  let ?p3 = "fold repoint_clip (mi_clips ?imp) ?p2"
  note t1 = repoint_instruments_tables [of i p]
  have m1: "mixer_tracks ?p1 = mixer_tracks p" "master ?p1 = master p"
    using tables_frame [OF t1] by simp_all
  note t2 = repoint_inputs_tables [OF m1(1), of i]
  have m2: "clips ?p2 = clips p" "master ?p2 = master p"
    using tables_frame [OF t2] tables_frame [OF t1] by simp_all
  have t3: "copyTables ?p3 = (copyTables ?p2)\<lparr>clips :=
      om_map (\<lambda>_. redirected i (master p)) (om_filter (\<lambda>_ c. \<not> automates_track i c) (clips p))\<rparr>"
    by (simp add: fold_repoint_clip_tables m2 fold_repoint_entry_all)
  have "mixer_tracks ?p3 = om_map (\<lambda>_. reparented i (master p)) (mixer_tracks p)"
    using tables_frame(5) [OF t3] tables_frame(5) [OF t2] m1 by simp
  with assms t1 t2 t3 m1 show ?thesis
    by (simp add: deleteMixerTrack_def Let_def spec_deleteMixerTrack_def)
qed

lemma delete_absent:
  "om_find (instruments p) i = None \<Longrightarrow> deleteInstrument i p = (False, p)"
  "om_find (patterns p) j = None \<Longrightarrow> deletePattern j p = (False, p)"
  "om_find (lanes p) k = None \<Longrightarrow> deleteLane k p = (False, p)"
  "om_find (clips p) c = None \<Longrightarrow> deleteClip c p = (False, p)"
  "t = master p \<or> om_find (mixer_tracks p) t = None \<Longrightarrow> deleteMixerTrack t p = (False, p)"
  by (auto simp: deleteInstrument_def deletePattern_def deleteLane_def deleteClip_def
      deleteMixerTrack_def)

end
