(* ===== verification/Project_Inv.thy ===== *)
theory Project_Inv
  imports Project_Spec
begin

text \<open>
  The invariant of the project and its preservation.  \<open>project_ok\<close> is what
  \<open>checkReferentialIntegrity\<close> decides, together with two facts the checker does not look at
  and the operations need: every entity is stored under its own valid identifier, and the
  track the project calls its master is the one with no output.  Every operation keeps it,
  so no \<open>checkInvariants\<close> call along a cascade aborts.
\<close>

definition keyed :: "('a Tables_scheme) \<Rightarrow> bool" where
  "keyed p \<longleftrightarrow>
     (\<forall>i e. om_find (instruments p) i = Some e \<longrightarrow> inst_id e = i \<and> valid_id i) \<and>
     (\<forall>i e. om_find (patterns p) i = Some e \<longrightarrow> pat_id e = i \<and> valid_id i) \<and>
     (\<forall>i e. om_find (lanes p) i = Some e \<longrightarrow> lane_id e = i \<and> valid_id i) \<and>
     (\<forall>i e. om_find (clips p) i = Some e \<longrightarrow> clip_id e = i \<and> valid_id i) \<and>
     (\<forall>i e. om_find (mixer_tracks p) i = Some e \<longrightarrow> track_id e = i \<and> valid_id i)"

definition rooted :: "('a Tables_scheme) \<Rightarrow> bool" where
  "rooted p \<longleftrightarrow> (\<exists>t. om_find (mixer_tracks p) (master p) = Some t \<and> track_output t = None)"

definition project_ok :: "('a Tables_scheme) \<Rightarrow> bool" where
  "project_ok p \<longleftrightarrow> project_integrity p \<and> keyed p \<and> rooted p"

lemmas ok_defs = project_ok_def project_integrity_def

lemma project_ok_parts:
  "project_ok p \<Longrightarrow> instruments_ok p" "project_ok p \<Longrightarrow> patterns_ok p" "project_ok p \<Longrightarrow> lanes_ok p"
  "project_ok p \<Longrightarrow> clips_ok p" "project_ok p \<Longrightarrow> mixer_ok p" "project_ok p \<Longrightarrow> keyed p"
  "project_ok p \<Longrightarrow> rooted p"
  by (simp_all add: ok_defs)

lemma project_okI:
  "instruments_ok p \<Longrightarrow> patterns_ok p \<Longrightarrow> lanes_ok p \<Longrightarrow> clips_ok p \<Longrightarrow> mixer_ok p \<Longrightarrow> keyed p \<Longrightarrow>
   rooted p \<Longrightarrow> project_ok p"
  by (simp add: ok_defs)

subsection \<open>What the sections read\<close>

lemma automation_resolves_cong:
  "instruments p = instruments q \<Longrightarrow> mixer_tracks p = mixer_tracks q \<Longrightarrow>
   automation_resolves p m = automation_resolves q m"
  by (simp add: automation_resolves_def find_defs split: TargetKind.split)

lemma automation_resolves_mono:
  assumes "automation_resolves p m"
    and "\<And>i. as_target_kind m = TargetInstrument \<Longrightarrow> i = as_instrument m \<Longrightarrow>
      om_find (instruments p) i \<noteq> None \<Longrightarrow> om_find (instruments q) i \<noteq> None"
    and "\<And>i t. as_target_kind m \<noteq> TargetInstrument \<Longrightarrow> i = as_mixer_track m \<Longrightarrow>
      om_find (mixer_tracks p) i = Some t \<Longrightarrow>
      \<exists>t'. om_find (mixer_tracks q) i = Some t' \<and>
        (as_target_kind m = TargetEffect \<longrightarrow> findEffect t (as_effect m) \<noteq> None \<longrightarrow>
           findEffect t' (as_effect m) \<noteq> None)"
  shows "automation_resolves q m"
proof (cases "as_target_kind m")
  case TargetInstrument
  with assms(1,2) show ?thesis by (simp add: automation_resolves_def findInstrument_def)
next
  case TargetMixerTrack
  with assms(1,3) show ?thesis
    by (fastforce simp: automation_resolves_def findMixerTrack_def)
next
  case TargetEffect
  with assms(1) obtain t where "om_find (mixer_tracks p) (as_mixer_track m) = Some t"
    "findEffect t (as_effect m) \<noteq> None"
    by (auto simp: automation_resolves_def findMixerTrack_def split: option.splits)
  with assms(3) [OF _ refl this(1)] TargetEffect show ?thesis
    by (auto simp: automation_resolves_def findMixerTrack_def)
qed

lemma clip_ok_copy: "clip_ok (copyTables p) c = clip_ok p c"
  using automation_resolves_cong [of "copyTables p" p]
  by (simp add: clip_ok_def split: ClipSource.split)

lemma project_ok_copy [simp]: "project_ok (copyTables p) = project_ok p"
  by (simp add: ok_defs instruments_ok_def patterns_ok_def lanes_ok_def clips_ok_def clip_ok_copy
      mixer_ok_def keyed_def rooted_def)

lemma clip_ok_mono:
  assumes "clip_ok p c"
    and "om_find (lanes p) (clip_lane c) \<noteq> None \<Longrightarrow> om_find (lanes q) (clip_lane c) \<noteq> None"
    and "\<And>pid. clip_source c = SrcPattern pid \<Longrightarrow> om_find (patterns p) pid \<noteq> None \<Longrightarrow>
      om_find (patterns q) pid \<noteq> None"
    and "\<And>a. clip_source c = SrcAudio a \<Longrightarrow> om_find (mixer_tracks p) (au_destination a) \<noteq> None \<Longrightarrow>
      om_find (mixer_tracks q) (au_destination a) \<noteq> None"
    and "\<And>m. clip_source c = SrcAutomation m \<Longrightarrow> automation_resolves p m \<Longrightarrow> automation_resolves q m"
  shows "clip_ok q c"
  using assms by (auto simp: clip_ok_def split: ClipSource.splits)

subsection \<open>Removals\<close>

lemma drop_clips_ok:
  assumes "project_ok t" shows "project_ok (t\<lparr>clips := om_filter P (clips t)\<rparr>)"
proof (rule project_okI)
  let ?t = "t\<lparr>clips := om_filter P (clips t)\<rparr>"
  have "clip_ok ?t c = clip_ok t c" for c
    using automation_resolves_cong [of ?t t] by (simp add: clip_ok_def split: ClipSource.split)
  then show "clips_ok ?t"
    using project_ok_parts(4) [OF assms] by (auto simp: clips_ok_def split: option.splits if_splits)
  show "keyed ?t"
    using project_ok_parts(6) [OF assms] by (auto simp: keyed_def split: option.splits if_splits)
qed (use project_ok_parts [OF assms] in
    \<open>simp_all add: instruments_ok_def patterns_ok_def lanes_ok_def mixer_ok_def rooted_def\<close>)

lemma om_erase_filter: "om_erase k m = om_filter (\<lambda>j _. j \<noteq> k) m"
  by (rule om_eqI) (simp split: option.split)

lemma spec_deleteClip_ok: "project_ok t \<Longrightarrow> project_ok (spec_deleteClip i t)"
  by (simp add: spec_deleteClip_def om_erase_filter drop_clips_ok)

lemma drop_sequences_ok:
  assumes "project_ok t"
  shows "project_ok (t\<lparr>patterns :=
    om_map (\<lambda>_ pat. pat\<lparr>pat_sequences := om_erase i (pat_sequences pat)\<rparr>) (patterns t)\<rparr>)"
    (is "project_ok ?t")
proof (rule project_okI)
  show "patterns_ok ?t"
    using project_ok_parts(2) [OF assms] by (auto simp: patterns_ok_def split: if_splits)
  have "clip_ok ?t c = clip_ok t c" for c
    using automation_resolves_cong [of ?t t] by (simp add: clip_ok_def split: ClipSource.split)
  then show "clips_ok ?t"
    using project_ok_parts(4) [OF assms] by (simp add: clips_ok_def)
  show "keyed ?t" using project_ok_parts(6) [OF assms] by (auto simp: keyed_def)
qed (use project_ok_parts [OF assms] in
    \<open>simp_all add: instruments_ok_def lanes_ok_def mixer_ok_def rooted_def\<close>)

lemma clip_automation_source:
  "targets_instrument i c \<longleftrightarrow>
     (\<exists>m. clip_source c = SrcAutomation m \<and> as_target_kind m = TargetInstrument \<and> as_instrument m = i)"
  "automates_track j c \<longleftrightarrow>
     (\<exists>m. clip_source c = SrcAutomation m \<and> as_target_kind m \<noteq> TargetInstrument \<and> as_mixer_track m = j)"
  "clip_hits_track j c \<longleftrightarrow>
     (\<exists>a. clip_source c = SrcAudio a \<and> au_destination a = j) \<or> automates_track j c"
  by (auto simp: targets_instrument_def automates_track_def clip_hits_track_def clip_audio.simps
      clip_automation.simps split: ClipSource.splits option.splits TargetKind.splits)
     (metis TargetKind.exhaust)+

lemma remove_instrument_ok:
  assumes ok: "project_ok t"
    and seqs: "\<And>pid pat. om_find (patterns t) pid = Some pat \<Longrightarrow> om_find (pat_sequences pat) i = None"
    and auto: "\<And>k c. om_find (clips t) k = Some c \<Longrightarrow> \<not> targets_instrument i c"
  shows "project_ok (t\<lparr>instruments := om_erase i (instruments t)\<rparr>)" (is "project_ok ?t")
proof (rule project_okI)
  show "instruments_ok ?t"
    using project_ok_parts(1) [OF ok] by (auto simp: instruments_ok_def split: if_splits)
  show "patterns_ok ?t"
    using project_ok_parts(2) [OF ok] seqs by (auto simp: patterns_ok_def)
  show "clips_ok ?t"
    unfolding clips_ok_def
  proof (intro allI impI)
    fix k c
    assume "om_find (clips ?t) k = Some c"
    then have c: "om_find (clips t) k = Some c" by simp
    with project_ok_parts(4) [OF ok] have "clip_ok t c" by (auto simp: clips_ok_def)
    then show "clip_ok ?t c"
      by (rule clip_ok_mono)
         (use auto [OF c] in \<open>auto simp: clip_automation_source elim!: automation_resolves_mono\<close>)
  qed
  show "keyed ?t" using project_ok_parts(6) [OF ok] by (auto simp: keyed_def split: if_splits)
qed (use project_ok_parts [OF ok] in \<open>simp_all add: lanes_ok_def mixer_ok_def rooted_def\<close>)

lemma spec_deleteInstrument_ok: "project_ok t \<Longrightarrow> project_ok (spec_deleteInstrument i t)"
proof -
  assume ok: "project_ok t"
  let ?drop = "\<lambda>_ pat. pat\<lparr>pat_sequences := om_erase i (pat_sequences pat)\<rparr>"
  let ?t1 = "t\<lparr>patterns := om_map ?drop (patterns t)\<rparr>"
  let ?t2 = "?t1\<lparr>clips := om_filter (\<lambda>_ c. \<not> targets_instrument i c) (clips ?t1)\<rparr>"
  have "project_ok ?t2" by (intro drop_clips_ok drop_sequences_ok ok)
  then have "project_ok (?t2\<lparr>instruments := om_erase i (instruments ?t2)\<rparr>)"
    by (rule remove_instrument_ok) (auto split: option.splits if_splits)
  moreover have "spec_deleteInstrument i t = ?t2\<lparr>instruments := om_erase i (instruments ?t2)\<rparr>"
    by (simp add: spec_deleteInstrument_def)
  ultimately show ?thesis by simp
qed

lemma spec_deletePattern_ok:
  assumes ok: "project_ok t" shows "project_ok (spec_deletePattern i t)" (is "project_ok ?t")
proof (rule project_okI)
  show "patterns_ok ?t"
    using project_ok_parts(2) [OF ok]
    by (auto simp: patterns_ok_def spec_deletePattern_def split: if_splits)
  show "clips_ok ?t"
    unfolding clips_ok_def
  proof (intro allI impI)
    fix k c
    assume "om_find (clips ?t) k = Some c"
    then have c: "om_find (clips t) k = Some c" "clip_pattern c \<noteq> Some i"
      by (auto simp: spec_deletePattern_def split: option.splits if_splits)
    with project_ok_parts(4) [OF ok] have "clip_ok t c" by (auto simp: clips_ok_def)
    then show "clip_ok ?t c"
      by (rule clip_ok_mono)
         (use c(2) in \<open>auto simp: spec_deletePattern_def clip_pattern.simps
            elim!: automation_resolves_mono\<close>)
  qed
  show "keyed ?t"
    using project_ok_parts(6) [OF ok]
    by (auto simp: keyed_def spec_deletePattern_def split: option.splits if_splits)
qed (use project_ok_parts [OF ok] in
    \<open>simp_all add: instruments_ok_def lanes_ok_def mixer_ok_def rooted_def spec_deletePattern_def\<close>)

lemma ungroup_sel [simp]:
  "lane_order (ungroup i l) = lane_order l" "lane_id (ungroup i l) = lane_id l"
  "lane_group_id (ungroup i l) = (if lane_group_id l = Some i then None else lane_group_id l)"
  by (simp_all add: ungroup_def)

lemma spec_deleteLane_ok:
  assumes ok: "project_ok t" shows "project_ok (spec_deleteLane i t)" (is "project_ok ?t")
proof (rule project_okI)
  show "lanes_ok ?t"
    using project_ok_parts(3) [OF ok]
    by (fastforce simp: lanes_ok_def spec_deleteLane_def split: if_splits)
  show "clips_ok ?t"
    unfolding clips_ok_def
  proof (intro allI impI)
    fix k c
    assume "om_find (clips ?t) k = Some c"
    then have c: "om_find (clips t) k = Some c" "clip_lane c \<noteq> i"
      by (auto simp: spec_deleteLane_def split: option.splits if_splits)
    with project_ok_parts(4) [OF ok] have "clip_ok t c" by (auto simp: clips_ok_def)
    then show "clip_ok ?t c"
      by (rule clip_ok_mono)
         (use c(2) in \<open>auto simp: spec_deleteLane_def elim!: automation_resolves_mono\<close>)
  qed
  show "keyed ?t"
    using project_ok_parts(6) [OF ok]
    by (auto simp: keyed_def spec_deleteLane_def split: option.splits if_splits)
qed (use project_ok_parts [OF ok] in
    \<open>simp_all add: instruments_ok_def patterns_ok_def mixer_ok_def rooted_def spec_deleteLane_def\<close>)

subsection \<open>Deleting a mixer track\<close>

lemma repoint_routes_ports [simp]: "map route_port (repoint_routes i m rs) = map route_port rs"
  by (simp add: repoint_routes_def)

lemma rerouted_sel [simp]:
  "inst_id (rerouted i m e) = inst_id e" "inst_routing (rerouted i m e) = repoint_routes i m (inst_routing e)"
  by (simp_all add: rerouted_def)

lemma reparented_sel [simp]:
  "track_id (reparented i m e) = track_id e" "track_effects (reparented i m e) = track_effects e"
  "track_output (reparented i m e) = (if track_output e = Some i then Some m else track_output e)"
  "findEffect (reparented i m e) x = findEffect e x"
  by (simp_all add: reparented_def findEffect_def)

lemma redirected_sel [simp]:
  "clip_id (redirected i m c) = clip_id c" "clip_lane (redirected i m c) = clip_lane c"
  "clip_length (redirected i m c) = clip_length c" "clip_start (redirected i m c) = clip_start c"
  by (auto simp: redirected_def split: ClipSource.split)

lemma mixer_ok_find:
  "mixer_ok t \<Longrightarrow> om_find (mixer_tracks t) (master t) \<noteq> None"
  "mixer_ok t \<Longrightarrow> om_find (mixer_tracks t) i = Some e \<Longrightarrow> effects_ok (track_effects e)"
  "mixer_ok t \<Longrightarrow> om_find (mixer_tracks t) i = Some e \<Longrightarrow> track_output e = Some out \<Longrightarrow>
     om_find (mixer_tracks t) out \<noteq> None"
  by (auto simp: mixer_ok_def)

text \<open>With the master the track that has no output, it is the only one.\<close>

lemma mixer_root:
  assumes "mixer_ok t" and "rooted t"
    and "om_find (mixer_tracks t) i = Some e" and "track_output e = None"
  shows "i = master t"
  using assms unfolding mixer_ok_def rooted_def by blast

lemma mixer_okI:
  assumes "\<And>i e. om_find (mixer_tracks t) i = Some e \<Longrightarrow> effects_ok (track_effects e)"
    and "\<And>i e out. om_find (mixer_tracks t) i = Some e \<Longrightarrow> track_output e = Some out \<Longrightarrow>
      om_find (mixer_tracks t) out \<noteq> None"
    and "routing_height (mixer_tracks t) h"
    and "rooted t"
    and "\<And>i e. om_find (mixer_tracks t) i = Some e \<Longrightarrow> track_output e = None \<Longrightarrow> i = master t"
  shows "mixer_ok t"
  unfolding mixer_ok_def
proof (intro conjI allI impI)
  show "routing_ends (mixer_tracks t)" by (rule routing_height_ends [OF assms(3)])
  show "\<exists>!i. \<exists>e. om_find (mixer_tracks t) i = Some e \<and> track_output e = None"
    using assms(4,5) unfolding rooted_def by blast
  show "om_find (mixer_tracks t) (master t) \<noteq> None" using assms(4) by (auto simp: rooted_def)
qed (use assms(1,2) in blast)+

lemma mixer_height:
  assumes "mixer_ok t" obtains h where "routing_height (mixer_tracks t) h"
  using assms routing_ends_height unfolding mixer_ok_def by blast

lemma reroute_ok:
  assumes ok: "project_ok t"
  shows "project_ok (t\<lparr>instruments := om_map (\<lambda>_. rerouted i (master t)) (instruments t)\<rparr>)"
    (is "project_ok ?t")
proof (rule project_okI)
  show "instruments_ok ?t"
    using project_ok_parts(1) [OF ok] mixer_ok_find(1) [OF project_ok_parts(5) [OF ok]]
    by (auto simp: instruments_ok_def repoint_routes_def comp_def if_distrib [of route_port] cong: if_cong)
  show "patterns_ok ?t" using project_ok_parts(2) [OF ok] by (auto simp: patterns_ok_def)
  show "clips_ok ?t"
    unfolding clips_ok_def
  proof (intro allI impI)
    fix k c
    assume "om_find (clips ?t) k = Some c"
    with project_ok_parts(4) [OF ok] have "clip_ok t c" by (auto simp: clips_ok_def)
    then show "clip_ok ?t c"
      by (rule clip_ok_mono) (auto elim!: automation_resolves_mono)
  qed
  show "keyed ?t" using project_ok_parts(6) [OF ok] by (auto simp: keyed_def)
qed (use project_ok_parts [OF ok] in \<open>simp_all add: lanes_ok_def mixer_ok_def rooted_def\<close>)

lemma reparent_ok:
  assumes ok: "project_ok t" and i: "i \<noteq> master t"
  shows "project_ok (t\<lparr>mixer_tracks := om_map (\<lambda>_. reparented i (master t)) (mixer_tracks t)\<rparr>)"
    (is "project_ok ?t")
proof (rule project_okI)
  have mx: "mixer_ok t" and rt: "rooted t" using project_ok_parts [OF ok] by simp_all
  show root: "rooted ?t" using rt by (auto simp: rooted_def)
  obtain h where h: "routing_height (mixer_tracks t) h" using mx by (rule mixer_height)
  let ?h = "\<lambda>x. if x = master t then 0 else Suc (h x)"
  have "output_of (mixer_tracks t) (master t) = None"
    using rt by (auto simp: rooted_def output_of_def)
  then have "routing_height (mixer_tracks ?t) ?h"
    using h by (fastforce simp: routing_height_def output_of_def split: option.splits if_splits)
  then show "mixer_ok ?t"
    by (rule mixer_okI [rotated 2])
       (use root mixer_ok_find [OF mx] mixer_root [OF mx rt] in \<open>auto split: if_splits\<close>)
  show "instruments_ok ?t" using project_ok_parts(1) [OF ok] by (auto simp: instruments_ok_def)
  show "clips_ok ?t"
    unfolding clips_ok_def
  proof (intro allI impI)
    fix k c
    assume "om_find (clips ?t) k = Some c"
    with project_ok_parts(4) [OF ok] have "clip_ok t c" by (auto simp: clips_ok_def)
    then show "clip_ok ?t c"
      by (rule clip_ok_mono) (auto elim!: automation_resolves_mono)
  qed
  show "keyed ?t" using project_ok_parts(6) [OF ok] by (auto simp: keyed_def)
qed (use project_ok_parts [OF ok] in \<open>simp_all add: lanes_ok_def patterns_ok_def\<close>)

lemma insert_clip_ok:
  assumes ok: "project_ok t" and c: "clip_ok t c" "valid_id (clip_id c)"
  shows "project_ok (t\<lparr>clips := om_insert (clip_id c) c (clips t)\<rparr>)" (is "project_ok ?t")
proof (rule project_okI)
  have "clip_ok ?t d = clip_ok t d" for d
    using automation_resolves_cong [of ?t t] by (simp add: clip_ok_def split: ClipSource.split)
  then show "clips_ok ?t"
    using project_ok_parts(4) [OF ok] c by (simp add: clips_ok_def)
  show "keyed ?t" using project_ok_parts(6) [OF ok] c by (simp add: keyed_def)
qed (use project_ok_parts [OF ok] in
    \<open>simp_all add: instruments_ok_def patterns_ok_def lanes_ok_def mixer_ok_def rooted_def\<close>)

lemma repoint_entry_ok:
  assumes ok: "project_ok t"
  shows "project_ok (t\<lparr>clips := repoint_entry (master t) k (clips t)\<rparr>)"
proof (cases "om_find (clips t) k")
  case None
  then show ?thesis using ok by (simp add: repoint_entry_def)
next
  case (Some c)
  then have c: "clip_ok t c" "clip_id c = k" "valid_id k"
    using project_ok_parts [OF ok] by (auto simp: clips_ok_def keyed_def)
  show ?thesis
  proof (cases "clip_source c")
    case (SrcAudio a)
    let ?c = "c\<lparr>clip_source := SrcAudio (a\<lparr>au_destination := master t\<rparr>)\<rparr>"
    have "clip_ok t ?c"
      using c(1) SrcAudio mixer_ok_find(1) [OF project_ok_parts(5) [OF ok]] by (simp add: clip_ok_def)
    then have "project_ok (t\<lparr>clips := om_insert (clip_id ?c) ?c (clips t)\<rparr>)"
      using c by (intro insert_clip_ok ok) simp_all
    then show ?thesis using Some SrcAudio c by (simp add: repoint_entry_def)
  qed (use Some drop_clips_ok [OF ok] in \<open>simp_all add: repoint_entry_def om_erase_filter\<close>)
qed

lemma remove_track_ok:
  assumes ok: "project_ok t" and i: "i \<noteq> master t"
    and routes: "\<And>k e r. om_find (instruments t) k = Some e \<Longrightarrow> r \<in> set (inst_routing e) \<Longrightarrow> route_track r \<noteq> i"
    and outs: "\<And>k e. om_find (mixer_tracks t) k = Some e \<Longrightarrow> track_output e \<noteq> Some i"
    and hits: "\<And>k c. om_find (clips t) k = Some c \<Longrightarrow> \<not> clip_hits_track i c"
  shows "project_ok (t\<lparr>mixer_tracks := om_erase i (mixer_tracks t)\<rparr>)" (is "project_ok ?t")
proof (rule project_okI)
  have mx: "mixer_ok t" and rt: "rooted t" using project_ok_parts [OF ok] by simp_all
  show root: "rooted ?t" using rt i by (auto simp: rooted_def)
  obtain h where h: "routing_height (mixer_tracks t) h" using mx by (rule mixer_height)
  then have "routing_height (mixer_tracks ?t) h"
    by (auto simp: routing_height_def output_of_def split: if_splits)
  then show "mixer_ok ?t"
    by (rule mixer_okI [rotated 2])
       (use root outs mixer_ok_find [OF mx] mixer_root [OF mx rt] in \<open>auto split: if_splits\<close>)
  show "instruments_ok ?t"
    using project_ok_parts(1) [OF ok] routes by (fastforce simp: instruments_ok_def)
  show "clips_ok ?t"
    unfolding clips_ok_def
  proof (intro allI impI)
    fix k c
    assume "om_find (clips ?t) k = Some c"
    then have c: "om_find (clips t) k = Some c" by simp
    with project_ok_parts(4) [OF ok] have "clip_ok t c" by (auto simp: clips_ok_def)
    then show "clip_ok ?t c"
      by (rule clip_ok_mono)
         (use hits [OF c] in \<open>auto simp: clip_automation_source elim!: automation_resolves_mono\<close>)
  qed
  show "keyed ?t" using project_ok_parts(6) [OF ok] by (auto simp: keyed_def split: if_splits)
qed (use project_ok_parts [OF ok] in \<open>simp_all add: lanes_ok_def patterns_ok_def\<close>)

subsection \<open>An absent entity is not referred to\<close>

lemma no_self_output:
  assumes ok: "project_ok t" and e: "om_find (mixer_tracks t) i = Some e"
  shows "track_output e \<noteq> Some i"
proof
  assume "track_output e = Some i"
  then have o: "output_of (mixer_tracks t) i = Some i" by (simp add: output_of_def e)
  obtain h where "routing_height (mixer_tracks t) h"
    using project_ok_parts(5) [OF ok] by (rule mixer_height)
  with o have "h i < h i" unfolding routing_height_def by blast
  then show False by simp
qed

lemma live_clip: "project_ok t \<Longrightarrow> om_find (clips t) k = Some c \<Longrightarrow> clip_ok t c"
  using project_ok_parts(4) [of t] by (simp add: clips_ok_def)

lemma clip_unreferenced:
  assumes "project_ok t" and "om_find (clips t) k = Some c"
  shows "om_find (instruments t) i = None \<Longrightarrow> \<not> targets_instrument i c"
    and "om_find (patterns t) j = None \<Longrightarrow> clip_pattern c \<noteq> Some j"
    and "om_find (lanes t) l = None \<Longrightarrow> clip_lane c \<noteq> l"
    and "om_find (mixer_tracks t) m = None \<Longrightarrow> \<not> clip_hits_track m c"
  using live_clip [OF assms]
  by (auto simp: clip_ok_def clip_automation_source clip_source_cases automation_resolves_def find_defs
      split: TargetKind.splits)

lemma unreferenced:
  assumes "project_ok t"
  shows "om_find (patterns t) k = Some pat \<Longrightarrow> om_find (instruments t) i = None \<Longrightarrow>
      om_find (pat_sequences pat) i = None"
    and "om_find (lanes t) n = Some l \<Longrightarrow> om_find (lanes t) g = None \<Longrightarrow> lane_group_id l \<noteq> Some g"
    and "om_find (mixer_tracks t) m = Some e \<Longrightarrow> om_find (mixer_tracks t) x = None \<Longrightarrow>
      track_output e \<noteq> Some x"
    and "om_find (instruments t) q = Some f \<Longrightarrow> om_find (mixer_tracks t) x = None \<Longrightarrow>
      \<not> (\<exists>r \<in> set (inst_routing f). route_track r = x)"
proof -
  show "om_find (patterns t) k = Some pat \<Longrightarrow> om_find (instruments t) i = None \<Longrightarrow>
      om_find (pat_sequences pat) i = None"
    using project_ok_parts(2) [OF assms] unfolding patterns_ok_def
    by (cases "om_find (pat_sequences pat) i") auto
  show "om_find (lanes t) n = Some l \<Longrightarrow> om_find (lanes t) g = None \<Longrightarrow> lane_group_id l \<noteq> Some g"
    using project_ok_parts(3) [OF assms] unfolding lanes_ok_def by blast
  show "om_find (mixer_tracks t) m = Some e \<Longrightarrow> om_find (mixer_tracks t) x = None \<Longrightarrow>
      track_output e \<noteq> Some x"
    using mixer_ok_find(3) [OF project_ok_parts(5) [OF assms]] by blast
  show "om_find (instruments t) q = Some f \<Longrightarrow> om_find (mixer_tracks t) x = None \<Longrightarrow>
      \<not> (\<exists>r \<in> set (inst_routing f). route_track r = x)"
    using project_ok_parts(1) [OF assms] unfolding instruments_ok_def by blast
qed

subsection \<open>Additions and edits\<close>

lemma insert_instrument_ok:
  assumes ok: "project_ok t" and e: "valid_id (inst_id e)" "distinct (map route_port (inst_routing e))"
    "\<And>r. r \<in> set (inst_routing e) \<Longrightarrow> om_find (mixer_tracks t) (route_track r) \<noteq> None"
  shows "project_ok (t\<lparr>instruments := om_insert (inst_id e) e (instruments t)\<rparr>)" (is "project_ok ?t")
proof (rule project_okI)
  show "instruments_ok ?t" using project_ok_parts(1) [OF ok] e by (auto simp: instruments_ok_def)
  show "patterns_ok ?t" using project_ok_parts(2) [OF ok] by (auto simp: patterns_ok_def)
  show "clips_ok ?t"
    unfolding clips_ok_def
  proof (intro allI impI)
    fix k c
    assume "om_find (clips ?t) k = Some c"
    with project_ok_parts(4) [OF ok] have "clip_ok t c" by (auto simp: clips_ok_def)
    then show "clip_ok ?t c" by (rule clip_ok_mono) (auto elim!: automation_resolves_mono)
  qed
  show "keyed ?t" using project_ok_parts(6) [OF ok] e by (simp add: keyed_def)
qed (use project_ok_parts [OF ok] in \<open>simp_all add: lanes_ok_def mixer_ok_def rooted_def\<close>)

lemma insert_pattern_ok:
  assumes ok: "project_ok t" and e: "valid_id (pat_id e)"
    "\<And>i s. om_find (pat_sequences e) i = Some s \<Longrightarrow> om_find (instruments t) i \<noteq> None \<and> sequence_ok s"
  shows "project_ok (t\<lparr>patterns := om_insert (pat_id e) e (patterns t)\<rparr>)" (is "project_ok ?t")
proof (rule project_okI)
  show "patterns_ok ?t"
    unfolding patterns_ok_def
  proof (intro allI impI)
    fix pid pat i s
    assume "om_find (patterns ?t) pid = Some pat" "om_find (pat_sequences pat) i = Some s"
    then show "om_find (instruments ?t) i \<noteq> None \<and> sequence_ok s"
      using project_ok_parts(2) [OF ok] e(2) [of i s] by (auto simp: patterns_ok_def split: if_splits)
  qed
  show "clips_ok ?t"
    unfolding clips_ok_def
  proof (intro allI impI)
    fix k c
    assume "om_find (clips ?t) k = Some c"
    with project_ok_parts(4) [OF ok] have "clip_ok t c" by (auto simp: clips_ok_def)
    then show "clip_ok ?t c" by (rule clip_ok_mono) (auto elim!: automation_resolves_mono)
  qed
  show "keyed ?t" using project_ok_parts(6) [OF ok] e by (simp add: keyed_def)
qed (use project_ok_parts [OF ok] in
    \<open>simp_all add: instruments_ok_def lanes_ok_def mixer_ok_def rooted_def\<close>)

lemma insert_lane_ok:
  assumes ok: "project_ok t" and e: "valid_id (lane_id e)"
    "\<And>k l. om_find (lanes t) k = Some l \<Longrightarrow> k \<noteq> lane_id e \<Longrightarrow> lane_order l \<noteq> lane_order e"
    "\<And>g. lane_group_id e = Some g \<Longrightarrow> g \<noteq> lane_id e \<and> om_find (lanes t) g \<noteq> None"
  shows "project_ok (t\<lparr>lanes := om_insert (lane_id e) e (lanes t)\<rparr>)" (is "project_ok ?t")
proof (rule project_okI)
  have l: "lanes_ok t" by (rule project_ok_parts(3) [OF ok])
  show "lanes_ok ?t"
    unfolding lanes_ok_def
  proof (intro conjI allI impI)
    fix i j x y
    assume "om_find (lanes ?t) i = Some x" "om_find (lanes ?t) j = Some y" "lane_order x = lane_order y"
    then show "i = j"
      using l e(2) [of i x] e(2) [of j y] by (auto simp: lanes_ok_def split: if_splits)
  next
    fix i x g
    assume a: "om_find (lanes ?t) i = Some x" "lane_group_id x = Some g"
    then show "g \<noteq> i" using l e(3) [of g] by (auto simp: lanes_ok_def split: if_splits)
    show "om_find (lanes ?t) g \<noteq> None"
      using a l e(3) [of g] by (auto simp: lanes_ok_def split: if_splits)
  qed
  show "clips_ok ?t"
    unfolding clips_ok_def
  proof (intro allI impI)
    fix k c
    assume "om_find (clips ?t) k = Some c"
    with project_ok_parts(4) [OF ok] have "clip_ok t c" by (auto simp: clips_ok_def)
    then show "clip_ok ?t c" by (rule clip_ok_mono) (auto elim!: automation_resolves_mono)
  qed
  show "keyed ?t" using project_ok_parts(6) [OF ok] e by (simp add: keyed_def)
qed (use project_ok_parts [OF ok] in
    \<open>simp_all add: instruments_ok_def patterns_ok_def mixer_ok_def rooted_def\<close>)

text \<open>A new track feeds a live one.\<close>

lemma insert_track_ok:
  assumes ok: "project_ok t" and e: "valid_id (track_id e)" "effects_ok (track_effects e)"
    and new: "om_find (mixer_tracks t) (track_id e) = None"
    and out: "track_output e = Some out" "om_find (mixer_tracks t) out \<noteq> None"
  shows "project_ok (t\<lparr>mixer_tracks := om_insert (track_id e) e (mixer_tracks t)\<rparr>)" (is "project_ok ?t")
proof (rule project_okI)
  have mx: "mixer_ok t" and rt: "rooted t" using project_ok_parts [OF ok] by simp_all
  have "master t \<noteq> track_id e" using mixer_ok_find(1) [OF mx] new by auto
  then show root: "rooted ?t" using rt by (auto simp: rooted_def)
  obtain h where h: "routing_height (mixer_tracks t) h" using mx by (rule mixer_height)
  let ?h = "h(track_id e := Suc (h out))"
  have "routing_height (mixer_tracks ?t) ?h"
    unfolding routing_height_def
  proof (intro allI impI)
    fix x y
    assume a: "output_of (mixer_tracks ?t) x = Some y"
    show "?h y < ?h x"
    proof (cases "x = track_id e")
      case True
      with a out new show ?thesis by (auto simp: output_of_def)
    next
      case False
      with a obtain f where f: "om_find (mixer_tracks t) x = Some f" "track_output f = Some y"
        by (auto simp: output_of_def split: option.splits)
      then have "y \<noteq> track_id e" using mixer_ok_find(3) [OF mx f] new by auto
      then show ?thesis using False h f by (simp add: routing_height_def output_of_def)
    qed
  qed
  then show "mixer_ok ?t"
    by (rule mixer_okI [rotated 2])
       (use root e out mixer_ok_find [OF mx] mixer_root [OF mx rt] in \<open>auto split: if_splits\<close>)
  show "instruments_ok ?t" using project_ok_parts(1) [OF ok] by (auto simp: instruments_ok_def)
  show "clips_ok ?t"
    unfolding clips_ok_def
  proof (intro allI impI)
    fix k c
    assume "om_find (clips ?t) k = Some c"
    with project_ok_parts(4) [OF ok] have "clip_ok t c" by (auto simp: clips_ok_def)
    then show "clip_ok ?t c"
      by (rule clip_ok_mono) (use new in \<open>auto elim!: automation_resolves_mono\<close>)
  qed
  show "keyed ?t" using project_ok_parts(6) [OF ok] e by (simp add: keyed_def)
qed (use project_ok_parts [OF ok] in \<open>simp_all add: lanes_ok_def patterns_ok_def\<close>)

text \<open>An edit of a track that keeps its output and loses no effect slot.\<close>

lemma replace_track_ok:
  assumes ok: "project_ok t" and old: "om_find (mixer_tracks t) i = Some d"
    and e: "track_id e = i" "effects_ok (track_effects e)" "track_output e = track_output d"
    "\<And>c k. om_find (clips t) k = Some c \<Longrightarrow> clip_ok t c \<Longrightarrow>
      clip_ok (t\<lparr>mixer_tracks := om_insert i e (mixer_tracks t)\<rparr>) c"
  shows "project_ok (t\<lparr>mixer_tracks := om_insert i e (mixer_tracks t)\<rparr>)" (is "project_ok ?t")
proof (rule project_okI)
  have mx: "mixer_ok t" and rt: "rooted t" using project_ok_parts [OF ok] by simp_all
  show root: "rooted ?t" using rt old e by (auto simp: rooted_def)
  obtain h where h: "routing_height (mixer_tracks t) h" using mx by (rule mixer_height)
  have "output_of (mixer_tracks ?t) = output_of (mixer_tracks t)"
    using old e by (auto simp: output_of_def)
  then have "routing_height (mixer_tracks ?t) h" using h by (simp add: routing_height_def)
  then show "mixer_ok ?t"
    by (rule mixer_okI [rotated 2])
       (use root e old mixer_ok_find [OF mx] mixer_root [OF mx rt] in \<open>auto split: if_splits\<close>)
  show "instruments_ok ?t" using project_ok_parts(1) [OF ok] by (auto simp: instruments_ok_def)
  show "clips_ok ?t"
    unfolding clips_ok_def
  proof (intro allI impI)
    fix k c
    assume c: "om_find (clips ?t) k = Some c"
    with project_ok_parts(4) [OF ok] have "clip_ok t c" by (auto simp: clips_ok_def)
    then show "clip_ok ?t c" by (rule e(4) [rotated]) (use c in simp)
  qed
  show "keyed ?t" using project_ok_parts(6) [OF ok] old e by (auto simp: keyed_def)
qed (use project_ok_parts [OF ok] in \<open>simp_all add: lanes_ok_def patterns_ok_def\<close>)

lemma update_track_ok:
  assumes ok: "project_ok t" and old: "om_find (mixer_tracks t) i = Some d"
    and e: "track_id e = i" "effects_ok (track_effects e)" "track_output e = track_output d"
    "\<And>x. findEffect d x \<noteq> None \<Longrightarrow> findEffect e x \<noteq> None"
  shows "project_ok (t\<lparr>mixer_tracks := om_insert i e (mixer_tracks t)\<rparr>)"
proof (rule replace_track_ok [OF ok old e(1-3)])
  show "clip_ok (t\<lparr>mixer_tracks := om_insert i e (mixer_tracks t)\<rparr>) c" if "clip_ok t c" for c
    using that by (rule clip_ok_mono) (use old e(4) in \<open>auto elim!: automation_resolves_mono\<close>)
qed

subsection \<open>No operation aborts\<close>

definition sound :: "project \<Rightarrow> bool" where
  "sound p \<longleftrightarrow> project_ok p \<and> \<not> aborted p"

lemma project_ok_eq: "copyTables p = t \<Longrightarrow> project_ok p = project_ok t"
  by (metis project_ok_copy)

lemma project_ok_emit [simp]: "project_ok (emit k n i f r p) = project_ok p"
  using project_ok_eq [of "emit k n i f r p" "copyTables p"] by simp

lemma project_ok_check [simp]: "project_ok (checkInvariants p) = project_ok p"
  using project_ok_eq [of "checkInvariants p" "copyTables p"] by simp

lemma project_ok_mint [simp]: "project_ok (snd (mintId n p)) = project_ok p"
  using project_ok_eq [of "snd (mintId n p)" "copyTables p"] by simp

lemma check_passes: "project_integrity p \<Longrightarrow> checkInvariants p = p"
  by (simp add: checkInvariants_def integrity_iff)

lemma check_aborts:
  "debug_checks p \<Longrightarrow> \<not> project_integrity p \<Longrightarrow> aborted (checkInvariants p)"
  by (simp add: checkInvariants_def integrity_iff)

lemma sound_check: "sound (checkInvariants p) \<longleftrightarrow> sound p"
proof (cases "debug_checks p \<and> checkReferentialIntegrity p \<noteq> []")
  case True
  then have "aborted (checkInvariants p)" by (simp add: checkInvariants_def)
  moreover have "\<not> project_ok p" using True unfolding project_ok_def integrity_iff by blast
  ultimately show ?thesis by (simp add: sound_def)
next
  case False
  then have "checkInvariants p = p" by (auto simp: checkInvariants_def)
  then show ?thesis by simp
qed

lemma sound_emit [simp]: "sound (emit k n i f r p) = sound p"
  by (simp add: sound_def)

lemma sound_mint [simp]: "sound (snd (mintId n p)) = sound p"
  by (simp add: sound_def)

text \<open>A write of tables followed by the emission and the check.\<close>

lemma sound_write: "sound p \<Longrightarrow> project_ok q \<Longrightarrow> aborted q = aborted p \<Longrightarrow> sound (checkInvariants q)"
  unfolding sound_check by (simp add: sound_def)

lemma sound_ok: "sound p \<Longrightarrow> project_ok p"
  by (simp add: sound_def)

lemma sound_deleteClip: "sound p \<Longrightarrow> sound (snd (deleteClip i p))"
proof (cases "om_find (clips p) i")
  case (Some c)
  assume s: "sound p"
  have "project_ok (p\<lparr>clips := om_erase i (clips p)\<rparr>)"
    unfolding om_erase_filter by (rule drop_clips_ok [OF sound_ok [OF s]])
  then have "sound (p\<lparr>clips := om_erase i (clips p)\<rparr>)" using s by (simp add: sound_def)
  with Some show ?thesis by (simp add: deleteClip_def sound_check)
qed (simp add: deleteClip_def)

lemma sound_delete_clips: "sound p \<Longrightarrow> sound (delete_clips is p)"
  by (induction "is" arbitrary: p) (auto intro: sound_deleteClip)

lemma fold_frame: "(\<And>k q. f (g k q) = f q) \<Longrightarrow> f (fold g ks q) = f q"
  by (induction ks arbitrary: q) auto

lemma aborted_steps [simp]:
  "aborted (drop_sequence i k p) = aborted p" "aborted (release_group j l p) = aborted p"
  "aborted (repoint_instrument t i p) = aborted p" "aborted (repoint_input t p) = aborted p"
  by (simp_all add: drop_sequence_def release_group_def repoint_instrument_def repoint_input_def
      split: option.split)

lemma aborted_folds [simp]:
  "aborted (fold (drop_sequence i) ks p) = aborted p" "aborted (fold (release_group j) ls p) = aborted p"
  "aborted (fold (repoint_instrument t) is p) = aborted p" "aborted (fold repoint_input ts p) = aborted p"
  by (rule fold_frame, simp)+

lemma sound_tables:
  "copyTables q = t \<Longrightarrow> project_ok t \<Longrightarrow> \<not> aborted q \<Longrightarrow> sound q"
  by (simp add: sound_def project_ok_eq)

lemma aborted_write [simp]:
  "aborted (p\<lparr>instruments := a\<rparr>) = aborted p" "aborted (p\<lparr>patterns := b\<rparr>) = aborted p"
  "aborted (p\<lparr>lanes := c\<rparr>) = aborted p" "aborted (p\<lparr>clips := d\<rparr>) = aborted p"
  "aborted (p\<lparr>mixer_tracks := e\<rparr>) = aborted p"
  by simp_all

text \<open>The last step of a cascade: the write, the event and the check.\<close>

lemma sound_finish:
  assumes "copyTables (checkInvariants (emit k n i f r q)) = t" and "project_ok t" and "\<not> aborted q"
  shows "sound (checkInvariants (emit k n i f r q))"
  unfolding sound_check using assms by (intro sound_tables [of _ t]) simp_all

lemma sound_deleteInstrument: "sound p \<Longrightarrow> sound (snd (deleteInstrument i p))"
proof (cases "om_find (instruments p) i = None")
  case False
  assume s: "sound p"
  let ?p1 = "fold (drop_sequence i) (om_keys (patterns p)) p"
  have t1: "copyTables ?p1 = (copyTables p)\<lparr>patterns :=
      om_map (\<lambda>_ pat. pat\<lparr>pat_sequences := om_erase i (pat_sequences pat)\<rparr>) (patterns p)\<rparr>"
    by (simp add: fold_drop_sequence_tables fold_update_keys)
  have "project_ok (copyTables p)" using s by (simp add: sound_def)
  from drop_sequences_ok [OF this] have "sound ?p1"
    using s by (intro sound_tables [OF t1]) (simp_all add: sound_def)
  then have na: "\<not> aborted (delete_clips (ii_clips (instrumentImpact ?p1 i)) ?p1)"
    using sound_delete_clips by (simp add: sound_def)
  have "project_ok (spec_deleteInstrument i (copyTables p))"
    using s by (intro spec_deleteInstrument_ok) (simp add: sound_def)
  with deleteInstrument_refines [of p i] False na show ?thesis
    by (auto simp: deleteInstrument_def Let_def intro!: sound_finish)
qed (simp add: deleteInstrument_def)

lemma sound_deletePattern: "sound p \<Longrightarrow> sound (snd (deletePattern i p))"
proof (cases "om_find (patterns p) i = None")
  case False
  assume s: "sound p"
  have na: "\<not> aborted (delete_clips (clipsUsingPattern p i) p)"
    using sound_delete_clips [OF s] by (simp add: sound_def)
  have "project_ok (spec_deletePattern i (copyTables p))"
    using s by (intro spec_deletePattern_ok) (simp add: sound_def)
  with deletePattern_refines [of p i] False na show ?thesis
    by (auto simp: deletePattern_def Let_def intro!: sound_finish)
qed (simp add: deletePattern_def)

lemma sound_deleteLane: "sound p \<Longrightarrow> sound (snd (deleteLane i p))"
proof (cases "om_find (lanes p) i = None")
  case False
  assume s: "sound p"
  have na: "\<not> aborted (delete_clips (clipsOnLane p i) p)"
    using sound_delete_clips [OF s] by (simp add: sound_def)
  have "project_ok (spec_deleteLane i (copyTables p))"
    using s by (intro spec_deleteLane_ok) (simp add: sound_def)
  with deleteLane_refines [of p i] False na show ?thesis
    by (auto simp: deleteLane_def Let_def intro!: sound_finish)
qed (simp add: deleteLane_def)

lemma sound_repoint_clip: "sound p \<Longrightarrow> sound (repoint_clip k p)"
proof -
  assume s: "sound p"
  then have "project_ok (copyTables p)" by (simp add: sound_def)
  from repoint_entry_ok [OF this, of k] have ok: "project_ok (repoint_clip k p)"
    by (subst project_ok_eq [OF repoint_clip_tables]) simp
  moreover have "\<not> aborted (repoint_clip k p)"
    using s sound_deleteClip [OF s] 
    by (auto simp: repoint_clip_def sound_def split: option.split ClipSource.split)
  ultimately show ?thesis by (simp add: sound_def)
qed

lemma sound_fold_repoint_clip: "sound p \<Longrightarrow> sound (fold repoint_clip ks p)"
  by (induction ks arbitrary: p) (auto intro: sound_repoint_clip)

text \<open>Re-pointing in two halves: the specification is the composition of the steps above.\<close>

lemma spec_deleteMixerTrack_ok:
  assumes ok: "project_ok t" and i: "i \<noteq> master t"
  shows "project_ok (spec_deleteMixerTrack i t)"
proof -
  let ?t1 = "t\<lparr>instruments := om_map (\<lambda>_. rerouted i (master t)) (instruments t)\<rparr>"
  let ?t2 = "?t1\<lparr>mixer_tracks := om_map (\<lambda>_. reparented i (master t)) (mixer_tracks t)\<rparr>"
  let ?ks = "mi_clips (mixerTrackImpact t i)"
  let ?cs = "\<lambda>ks. fold (repoint_entry (master t)) ks (clips t)"
  have "project_ok ?t1" by (rule reroute_ok [OF ok])
  from reparent_ok [OF this, of i] i have ok2: "project_ok ?t2" by simp
  have ok3: "project_ok (?t2\<lparr>clips := ?cs ks\<rparr>)" for ks
  proof (induction ks rule: rev_induct)
    case Nil
    show ?case using ok2 by simp
  next
    case (snoc k ks)
    from repoint_entry_ok [OF snoc, of k] show ?case by simp
  qed
  let ?t3 = "?t2\<lparr>clips := om_map (\<lambda>_. redirected i (master t))
      (om_filter (\<lambda>_ c. \<not> automates_track i c) (clips t))\<rparr>"
  have "project_ok ?t3" using ok3 [of ?ks] by (simp add: fold_repoint_entry_all)
  then have "project_ok (?t3\<lparr>mixer_tracks := om_erase i (mixer_tracks ?t3)\<rparr>)"
  proof (rule remove_track_ok)
    show "\<And>k e r. om_find (instruments ?t3) k = Some e \<Longrightarrow> r \<in> set (inst_routing e) \<Longrightarrow> route_track r \<noteq> i"
      using i by (auto simp: repoint_routes_def)
    show "\<And>k c. om_find (clips ?t3) k = Some c \<Longrightarrow> \<not> clip_hits_track i c"
      using i by (auto simp: clip_automation_source redirected_def split: option.splits if_splits ClipSource.splits)
  qed (use i in \<open>auto split: if_splits\<close>)
  moreover have "spec_deleteMixerTrack i t = ?t3\<lparr>mixer_tracks := om_erase i (mixer_tracks ?t3)\<rparr>"
    by (simp add: spec_deleteMixerTrack_def)
  ultimately show ?thesis by simp
qed

lemma sound_deleteMixerTrack: "sound p \<Longrightarrow> sound (snd (deleteMixerTrack i p))"
proof (cases "i = master p \<or> om_find (mixer_tracks p) i = None")
  case False
  assume s: "sound p"
  let ?imp = "mixerTrackImpact p i"
  let ?p1 = "fold (repoint_instrument i) (mi_instruments ?imp) p"
  let ?p2 = "fold repoint_input (mi_inputs ?imp) ?p1"
  have ok: "project_ok (copyTables p)" using s by (simp add: sound_def)
  note t1 = repoint_instruments_tables [of i p]
  have ok1: "project_ok (copyTables ?p1)" using reroute_ok [OF ok, of i] by (simp add: t1)
  have m1: "mixer_tracks ?p1 = mixer_tracks p" "master ?p1 = master p"
    using tables_frame [OF t1] by simp_all
  note t2 = repoint_inputs_tables [OF m1(1), of i]
  have "sound ?p2"
    using s False reparent_ok [OF ok1, of i] by (intro sound_tables [OF t2]) (simp_all add: sound_def m1)
  then have "\<not> aborted (fold repoint_clip (mi_clips ?imp) ?p2)"
    using sound_fold_repoint_clip by (simp add: sound_def)
  moreover have "project_ok (spec_deleteMixerTrack i (copyTables p))"
    using False by (intro spec_deleteMixerTrack_ok ok) simp
  ultimately show ?thesis
    using deleteMixerTrack_refines [of i p] False
    by (auto simp: deleteMixerTrack_def Let_def intro!: sound_finish)
qed (auto simp: deleteMixerTrack_def)

subsection \<open>Restoring and updating\<close>

lemma om_emplace_insert: "om_find m k = None \<Longrightarrow> om_emplace k v m = om_insert k v m"
  by (simp add: om_emplace_def)

text \<open>The table write behind an \<open>Added\<close> or \<open>Modified\<close> event, then event and check.\<close>

lemma sound_after_write:
  assumes "sound p" and "project_ok q" and "aborted q = aborted p"
  shows "sound (checkInvariants (emit k n i f r q))"
  unfolding sound_check using assms by (simp add: sound_def)

lemma restoreInstrument_tables:
  "valid_id (inst_id e) \<Longrightarrow> om_find (instruments p) (inst_id e) = None \<Longrightarrow>
   fst (restoreInstrument e p) \<and> copyTables (snd (restoreInstrument e p)) =
     (copyTables p)\<lparr>instruments := om_insert (inst_id e) e (instruments p)\<rparr>"
  by (simp add: restoreInstrument_def om_emplace_insert)

lemma restorePattern_tables:
  "valid_id (pat_id e) \<Longrightarrow> om_find (patterns p) (pat_id e) = None \<Longrightarrow>
   fst (restorePattern e p) \<and> copyTables (snd (restorePattern e p)) =
     (copyTables p)\<lparr>patterns := om_insert (pat_id e) e (patterns p)\<rparr>"
  by (simp add: restorePattern_def om_emplace_insert)

lemma restoreLane_tables:
  "valid_id (lane_id e) \<Longrightarrow> om_find (lanes p) (lane_id e) = None \<Longrightarrow>
   fst (restoreLane e p) \<and> copyTables (snd (restoreLane e p)) =
     (copyTables p)\<lparr>lanes := om_insert (lane_id e) e (lanes p)\<rparr>"
  by (simp add: restoreLane_def om_emplace_insert)

lemma restoreClip_tables:
  "valid_id (clip_id e) \<Longrightarrow> om_find (clips p) (clip_id e) = None \<Longrightarrow>
   fst (restoreClip e p) \<and> copyTables (snd (restoreClip e p)) =
     (copyTables p)\<lparr>clips := om_insert (clip_id e) e (clips p)\<rparr>"
  by (simp add: restoreClip_def om_emplace_insert)

lemma restoreMixerTrack_tables:
  "valid_id (track_id e) \<Longrightarrow> om_find (mixer_tracks p) (track_id e) = None \<Longrightarrow>
   fst (restoreMixerTrack e p) \<and> copyTables (snd (restoreMixerTrack e p)) =
     (copyTables p)\<lparr>mixer_tracks := om_insert (track_id e) e (mixer_tracks p)\<rparr>"
  by (simp add: restoreMixerTrack_def om_emplace_insert)

lemma restore_refuses:
  "\<not> valid_id (inst_id a) \<or> om_find (instruments p) (inst_id a) \<noteq> None \<Longrightarrow> restoreInstrument a p = (False, p)"
  "\<not> valid_id (pat_id b) \<or> om_find (patterns p) (pat_id b) \<noteq> None \<Longrightarrow> restorePattern b p = (False, p)"
  "\<not> valid_id (lane_id c) \<or> om_find (lanes p) (lane_id c) \<noteq> None \<Longrightarrow> restoreLane c p = (False, p)"
  "\<not> valid_id (clip_id d) \<or> om_find (clips p) (clip_id d) \<noteq> None \<Longrightarrow> restoreClip d p = (False, p)"
  "\<not> valid_id (track_id e) \<or> om_find (mixer_tracks p) (track_id e) \<noteq> None \<Longrightarrow> restoreMixerTrack e p = (False, p)"
  by (auto simp: restoreInstrument_def restorePattern_def restoreLane_def restoreClip_def
      restoreMixerTrack_def)

lemma update_tables:
  "copyTables (snd (updateInstrument i f g1 p)) = (copyTables p)\<lparr>instruments := om_update i g1 (instruments p)\<rparr>"
  "copyTables (snd (updatePattern j f g2 p)) = (copyTables p)\<lparr>patterns := om_update j g2 (patterns p)\<rparr>"
  "copyTables (snd (updateLane k f g3 p)) = (copyTables p)\<lparr>lanes := om_update k g3 (lanes p)\<rparr>"
  "copyTables (snd (updateClip c f g4 p)) = (copyTables p)\<lparr>clips := om_update c g4 (clips p)\<rparr>"
  "copyTables (snd (updateMixerTrack t f g5 p)) = (copyTables p)\<lparr>mixer_tracks := om_update t g5 (mixer_tracks p)\<rparr>"
  by (simp_all add: updateInstrument_def updatePattern_def updateLane_def updateClip_def
      updateMixerTrack_def om_update_def split: option.split)

lemma update_fst:
  "fst (updateInstrument i f g1 p) \<longleftrightarrow> om_find (instruments p) i \<noteq> None"
  "fst (updatePattern j f g2 p) \<longleftrightarrow> om_find (patterns p) j \<noteq> None"
  "fst (updateLane k f g3 p) \<longleftrightarrow> om_find (lanes p) k \<noteq> None"
  "fst (updateClip c f g4 p) \<longleftrightarrow> om_find (clips p) c \<noteq> None"
  "fst (updateMixerTrack t f g5 p) \<longleftrightarrow> om_find (mixer_tracks p) t \<noteq> None"
  by (simp_all add: updateInstrument_def updatePattern_def updateLane_def updateClip_def
      updateMixerTrack_def split: option.split)

lemma update_absent:
  "om_find (instruments p) i = None \<Longrightarrow> updateInstrument i f g1 p = (False, p)"
  "om_find (patterns p) j = None \<Longrightarrow> updatePattern j f g2 p = (False, p)"
  "om_find (lanes p) k = None \<Longrightarrow> updateLane k f g3 p = (False, p)"
  "om_find (clips p) c = None \<Longrightarrow> updateClip c f g4 p = (False, p)"
  "om_find (mixer_tracks p) t = None \<Longrightarrow> updateMixerTrack t f g5 p = (False, p)"
  by (simp_all add: updateInstrument_def updatePattern_def updateLane_def updateClip_def
      updateMixerTrack_def)

definition set_sequence :: "instrument_id \<Rightarrow> note_sequence \<Rightarrow> Pattern \<Rightarrow> Pattern" where
  "set_sequence i s pat = pat\<lparr>pat_sequences :=
     (if s = [] then om_erase i (pat_sequences pat) else om_insert i s (pat_sequences pat))\<rparr>"

lemma restoreSequence_fst:
  "fst (restoreSequence pid i s p) \<longleftrightarrow> om_find (patterns p) pid \<noteq> None \<and> om_find (instruments p) i \<noteq> None"
  by (auto simp: restoreSequence_def Let_def split: option.split)

lemma restoreSequence_tables:
  "om_find (instruments p) i \<noteq> None \<Longrightarrow> copyTables (snd (restoreSequence pid i s p)) =
     (copyTables p)\<lparr>patterns := om_update pid (set_sequence i s) (patterns p)\<rparr>"
  by (auto simp: restoreSequence_def Let_def om_update_def set_sequence_def split: option.split)

text \<open>The tables of the writes that keep the invariant, then the operations that make them.\<close>

lemma sequence_write_ok:
  assumes ok: "project_ok t" and i: "om_find (instruments t) i \<noteq> None" and s: "s = [] \<or> sequence_ok s"
  shows "project_ok (t\<lparr>patterns := om_update pid (set_sequence i s) (patterns t)\<rparr>)"
proof (cases "om_find (patterns t) pid")
  case None
  then show ?thesis using ok by (simp add: om_update_def)
next
  case (Some pat)
  then have k: "pat_id pat = pid" "valid_id pid"
    using project_ok_parts(6) [OF ok] by (auto simp: keyed_def)
  have seqs: "om_find (instruments t) j \<noteq> None \<and> sequence_ok x"
    if "om_find (pat_sequences (set_sequence i s pat)) j = Some x" for j x
    using that project_ok_parts(2) [OF ok] Some i s
    by (auto simp: set_sequence_def patterns_ok_def split: if_splits)
  have "pat_id (set_sequence i s pat) = pid" by (simp add: set_sequence_def k)
  with insert_pattern_ok [OF ok, of "set_sequence i s pat"] k seqs Some show ?thesis
    by (simp add: om_update_def)
qed

lemma sound_restoreSequence:
  assumes "sound p" and "s = [] \<or> sequence_ok s"
  shows "sound (snd (restoreSequence pid i s p))"
proof (cases "om_find (patterns p) pid = None \<or> om_find (instruments p) i = None")
  case False
  then obtain pat where pat: "om_find (patterns p) pid = Some pat" and i: "om_find (instruments p) i \<noteq> None"
    by auto
  have "project_ok (p\<lparr>patterns := om_update pid (set_sequence i s) (patterns p)\<rparr>)"
    using assms i by (intro sequence_write_ok sound_ok)
  with pat i assms(1) show ?thesis
    by (auto simp: restoreSequence_def Let_def om_update_def set_sequence_def intro!: sound_after_write)
qed (use assms(1) in \<open>auto simp: restoreSequence_def split: option.split\<close>)

lemma sound_updateSequence:
  assumes "sound p"
    and "\<And>s. s = [] \<or> sequence_ok s \<Longrightarrow> mutator s = [] \<or> sequence_ok (mutator s)"
  shows "sound (snd (updateSequence pid i mutator p))"
proof (cases "om_find (patterns p) pid")
  case (Some pat)
  let ?old = "case om_find (pat_sequences pat) i of None \<Rightarrow> [] | Some s \<Rightarrow> s"
  have "?old = [] \<or> sequence_ok ?old"
    using Some project_ok_parts(2) [OF sound_ok [OF assms(1)]]
    by (auto simp: patterns_ok_def split: option.split)
  then have "sound (snd (restoreSequence pid i (mutator ?old) p))"
    using assms by (intro sound_restoreSequence) blast+
  moreover have "updateSequence pid i mutator p = restoreSequence pid i (mutator ?old) p"
    using Some by (simp add: updateSequence_def restoreSequence_def Let_def)
  ultimately show ?thesis by simp
qed (use assms(1) in \<open>simp add: updateSequence_def\<close>)

lemma setTransport_frame [simp]:
  "copyTables (setTransport t p) = (copyTables p)\<lparr>transport := t\<rparr>" "aborted (setTransport t p) = aborted p"
  by (simp_all add: setTransport_def)

lemma setMeta_frame [simp]:
  "copyTables (setMeta m p) = (copyTables p)\<lparr>meta := m\<rparr>" "aborted (setMeta m p) = aborted p"
  by (simp_all add: setMeta_def)

subsection \<open>Creation\<close>

lemma next_order_fresh: "x \<in> set xs \<Longrightarrow> x \<noteq> next_order xs"
  using fold_max_ge [of x xs "-1"] by (auto simp: next_order_def)

lemma sound_createMixerTrack:
  assumes s: "sound p" and i: "i = fst (mintId now p)" "valid_id i" "om_find (mixer_tracks p) i = None"
  shows "fst (createMixerTrack now name out p) = i \<and> sound (snd (createMixerTrack now name out p)) \<and>
    om_find (mixer_tracks (snd (createMixerTrack now name out p))) i \<noteq> None"
proof -
  let ?p1 = "snd (mintId now p :: track_id \<times> project)"
  define out' where "out' = (case out of None \<Rightarrow> Some (master p)
    | Some x \<Rightarrow> if om_find (mixer_tracks p) x = None then Some (master p) else Some x)"
  let ?t = "default_mixer_track\<lparr>track_id := i, track_name := name, track_output := out'\<rparr>"
  have m: "om_find (mixer_tracks p) (master p) \<noteq> None"
    using mixer_ok_find(1) project_ok_parts(5) sound_ok s by blast
  have "\<exists>o1. out' = Some o1 \<and> om_find (mixer_tracks p) o1 \<noteq> None"
    using m by (cases out) (simp_all add: out'_def)
  then obtain o1 where o1: "out' = Some o1" "om_find (mixer_tracks p) o1 \<noteq> None" by blast
  have "sound ?p1" using s by simp
  moreover have "project_ok (?p1\<lparr>mixer_tracks := om_insert (track_id ?t) ?t (mixer_tracks ?p1)\<rparr>)"
    by (rule insert_track_ok [where out = o1])
       (use s i o1 in \<open>simp_all add: sound_ok effects_ok_def default_mixer_track_def\<close>)
  ultimately have "sound (checkInvariants (emit Added KMixerTrack (raw i) FAll raw_zero
      (?p1\<lparr>mixer_tracks := om_insert i ?t (mixer_tracks p)\<rparr>)))"
    by (intro sound_after_write [of ?p1]) simp_all
  moreover have "createMixerTrack now name out p = (i, checkInvariants (emit Added KMixerTrack (raw i)
      FAll raw_zero (?p1\<lparr>mixer_tracks := om_insert i ?t (mixer_tracks p)\<rparr>)))"
    using i m by (auto simp: createMixerTrack_def Let_def split_beta om_emplace_insert out'_def
        split: option.split)
  ultimately show ?thesis by simp
qed

lemma sound_createPattern:
  assumes s: "sound p" and i: "i = fst (mintId now p)" "valid_id i" "om_find (patterns p) i = None"
  shows "fst (createPattern now name len p) = i \<and> sound (snd (createPattern now name len p))"
proof -
  let ?p1 = "snd (mintId now p :: pattern_id \<times> project)"
  define e where "e = default_pattern\<lparr>pat_id := i, pat_name := name, pat_length := len,
    pat_order := next_order (map pat_order (om_values (patterns p)))\<rparr>"
  have e: "pat_id e = i" "pat_sequences e = om_empty" by (simp_all add: e_def default_pattern_def)
  have "project_ok (?p1\<lparr>patterns := om_insert (pat_id e) e (patterns ?p1)\<rparr>)"
    by (rule insert_pattern_ok) (use s i e in \<open>simp_all add: sound_ok\<close>)
  then have "sound (checkInvariants (emit Added KPattern (raw i) FAll raw_zero
      (?p1\<lparr>patterns := om_insert i e (patterns p)\<rparr>)))"
    using s e by (intro sound_after_write [of ?p1]) simp_all
  moreover have "createPattern now name len p = (i, checkInvariants (emit Added KPattern (raw i) FAll raw_zero
      (?p1\<lparr>patterns := om_insert i e (patterns p)\<rparr>)))"
    using i by (simp add: createPattern_def Let_def split_beta om_emplace_insert e_def)
  ultimately show ?thesis by simp
qed

lemma sound_createLane:
  assumes s: "sound p" and i: "i = fst (mintId now p)" "valid_id i" "om_find (lanes p) i = None"
  shows "fst (createLane now name p) = i \<and> sound (snd (createLane now name p))"
proof -
  let ?p1 = "snd (mintId now p :: lane_id \<times> project)"
  define e where "e = default_lane\<lparr>lane_id := i, lane_name := name,
    lane_order := next_order (map lane_order (om_values (lanes p)))\<rparr>"
  have e: "lane_id e = i" "lane_group_id e = None"
      "lane_order e = next_order (map lane_order (om_values (lanes p)))"
    by (simp_all add: e_def default_lane_def)
  have "lane_order l \<noteq> lane_order e" if "om_find (lanes p) k = Some l" for k l
  proof -
    have "l \<in> set (om_values (lanes p))" unfolding om_values_set using that by (rule exI)
    then have "lane_order l \<in> set (map lane_order (om_values (lanes p)))" by simp
    then show ?thesis using next_order_fresh unfolding e(3) by blast
  qed
  then have "project_ok (?p1\<lparr>lanes := om_insert (lane_id e) e (lanes ?p1)\<rparr>)"
    by (intro insert_lane_ok) (use s i e in \<open>simp_all add: sound_ok\<close>)
  then have "sound (checkInvariants (emit Added KArrangementLane (raw i) FAll raw_zero
      (?p1\<lparr>lanes := om_insert i e (lanes p)\<rparr>)))"
    using s e by (intro sound_after_write [of ?p1]) simp_all
  moreover have "createLane now name p = (i, checkInvariants (emit Added KArrangementLane (raw i) FAll
      raw_zero (?p1\<lparr>lanes := om_insert i e (lanes p)\<rparr>)))"
    using i by (simp add: createLane_def Let_def split_beta om_emplace_insert e_def)
  ultimately show ?thesis by simp
qed

text \<open>
  \<open>createClip\<close> does not look at the numbers it is given; the checker does, so the caller owes
  a non-negative extent and a non-negative source window.
\<close>

definition clip_extent_ok :: "ClipSource \<Rightarrow> ticks \<Rightarrow> ticks \<Rightarrow> bool" where
  "clip_extent_ok source start len \<longleftrightarrow> 0 \<le> start \<and> 0 \<le> len \<and>
     (case source of
        SrcAudio a \<Rightarrow> 0 \<le> au_source_offset a \<and> 0 \<le> au_source_length a \<and>
          (au_stretch_mode a = StretchOff \<or> 0 < au_source_length a \<or> 0 < len)
      | _ \<Rightarrow> True)"

lemma sound_createClip:
  assumes s: "sound p" and i: "i = fst (mintId now p)" "valid_id i" "om_find (clips p) i = None"
    and x: "clip_extent_ok source start len"
  shows "sound (snd (createClip now lane source start len p)) \<and>
    (fst (createClip now lane source start len p) =
       (if om_find (lanes p) lane \<noteq> None \<and> source_resolves p source then i else no_id))"
proof (cases "om_find (lanes p) lane \<noteq> None \<and> source_resolves p source")
  case True
  let ?p1 = "snd (mintId now p :: clip_id \<times> project)"
  define e where "e = default_clip\<lparr>clip_id := i, clip_lane := lane, clip_source := source,
    clip_start := start, clip_length := len\<rparr>"
  have e: "clip_id e = i" by (simp add: e_def)
  have "clip_ok ?p1 e"
    using True x automation_resolves_cong [of ?p1 p]
    by (auto simp: e_def clip_ok_def clip_extent_ok_def source_resolves_def split: ClipSource.splits)
  then have "project_ok (?p1\<lparr>clips := om_insert (clip_id e) e (clips ?p1)\<rparr>)"
    by (intro insert_clip_ok) (use s i e in \<open>simp_all add: sound_ok\<close>)
  then have "sound (checkInvariants (emit Added KClip (raw i) FAll (raw lane)
      (?p1\<lparr>clips := om_insert i e (clips p)\<rparr>)))"
    using s e by (intro sound_after_write [of ?p1]) simp_all
  moreover have "createClip now lane source start len p = (i, checkInvariants (emit Added KClip (raw i) FAll
      (raw lane) (?p1\<lparr>clips := om_insert i e (clips p)\<rparr>)))"
    using True i by (auto simp: createClip_def Let_def split_beta om_emplace_insert e_def)
  ultimately show ?thesis using True by simp
qed (use s in \<open>auto simp: createClip_def\<close>)

lemma sound_createInstrument:
  assumes s: "sound p" and i: "i = fst (mintId now p)" "valid_id i" "om_find (instruments p) i = None"
    and t: "auto_create_mixer_track (preferences p) \<Longrightarrow>
      j = fst (mintId now' (snd (mintId now p :: instrument_id \<times> project))) \<and> valid_id j \<and> om_find (mixer_tracks p) j = None"
  shows "fst (createInstrument now now' name plugin p) = i \<and>
    sound (snd (createInstrument now now' name plugin p))"
proof -
  let ?p1 = "snd (mintId now p :: instrument_id \<times> project)"
  obtain dest p2 where d: "(if auto_create_mixer_track (preferences ?p1)
      then createMixerTrack now' name (Some (master ?p1)) ?p1 else (master ?p1, ?p1)) = (dest, p2)"
    by fastforce
  have inv: "sound p2 \<and> om_find (mixer_tracks p2) dest \<noteq> None \<and> instruments p2 = instruments p"
  proof (cases "auto_create_mixer_track (preferences p)")
    case True
    have "sound ?p1" using s by simp
    from sound_createMixerTrack [OF this, of j now' name "Some (master p)"] t [OF True] d True
    have "sound p2 \<and> om_find (mixer_tracks p2) dest \<noteq> None" by auto
    moreover have "instruments p2 = instruments p"
      using d True by (auto simp: createMixerTrack_def Let_def split_beta)
    ultimately show ?thesis by simp
  next
    case False
    with d have "p2 = ?p1" "dest = master p" by auto
    then show ?thesis
      using s mixer_ok_find(1) [OF project_ok_parts(5) [OF sound_ok [OF s]]] by simp
  qed
  define e where "e = default_instrument\<lparr>inst_id := i, inst_name := name,
    inst_order := next_order (map inst_order (om_values (instruments p))), inst_plugin := plugin,
    inst_routing := [\<lparr>route_port = 0, route_track = dest\<rparr>]\<rparr>"
  have e: "inst_id e = i" "inst_routing e = [\<lparr>route_port = 0, route_track = dest\<rparr>]"
    by (simp_all add: e_def)
  have "project_ok (p2\<lparr>instruments := om_insert (inst_id e) e (instruments p2)\<rparr>)"
    by (rule insert_instrument_ok) (use i e inv in \<open>auto simp: sound_ok\<close>)
  then have "sound (checkInvariants (emit Added KInstrument (raw i) FAll (raw dest)
      (p2\<lparr>instruments := om_insert i e (instruments p2)\<rparr>)))"
    using inv e by (intro sound_after_write [of p2]) simp_all
  moreover have "createInstrument now now' name plugin p = (i, checkInvariants (emit Added KInstrument
      (raw i) FAll (raw dest) (p2\<lparr>instruments := om_insert i e (instruments p2)\<rparr>)))"
    using i d inv by (simp add: createInstrument_def Let_def split_beta om_emplace_insert e_def)
  ultimately show ?thesis by simp
qed

lemma sound_new_project:
  assumes "valid_id (master (new_project now g))"
  shows "sound (new_project now g)"
proof -
  let ?p = "new_project now g" and ?m = "master (new_project now g)"
  have f: "om_find (mixer_tracks ?p) = [?m \<mapsto> default_mixer_track\<lparr>track_id := ?m,
      track_name := ''Master'', track_output := None\<rparr>]"
    by (rule ext) (simp add: new_project_def Let_def split_beta om_emplace_insert)
  have e: "instruments ?p = om_empty" "patterns ?p = om_empty" "lanes ?p = om_empty" "clips ?p = om_empty"
    "aborted ?p = False"
    by (simp_all add: new_project_def Let_def split_beta)
  have "rooted ?p" by (simp add: rooted_def f)
  moreover have "mixer_ok ?p"
    by (rule mixer_okI [where h = "\<lambda>_. 0"])
       (use calculation in \<open>auto simp: f effects_ok_def default_mixer_track_def routing_height_def
          output_of_def split: option.splits if_splits\<close>)
  moreover have "keyed ?p" using assms by (simp add: keyed_def e f)
  ultimately have "project_ok ?p"
    by (intro project_okI) (simp_all add: instruments_ok_def patterns_ok_def lanes_ok_def clips_ok_def e)
  then show ?thesis by (simp add: sound_def e)
qed

end
