(* ===== verification/Reversible.thy ===== *)
theory Reversible
  imports Main
begin

text \<open>
  The contract of \<open>Command\<close> in \<open>model/command.h\<close>, over any commands \<open>'c\<close> and states
  \<open>'s\<close>: the loops of \<open>CompositeCommand\<close>, the interface a command has to honour, and what
  follows from it for sequences of commands and for an undo/redo history.  \<open>view\<close> is the
  part of the state that undo restores; \<open>essence\<close> is a command without what it captured.
\<close>

text \<open>
  Running a list of steps, for any \<open>ap\<close> and \<open>rv\<close>: \<open>run_all\<close> is the loop of
  \<open>CompositeCommand::apply\<close> with its rollback (\<open>done\<close> holds the steps that applied, last
  first), \<open>revert_all\<close> the loop of \<open>CompositeCommand::revert\<close> over the reversed list.
\<close>

fun rollback :: "('c \<Rightarrow> 's \<Rightarrow> bool \<times> 'c \<times> 's) \<Rightarrow> 'c list \<Rightarrow> 's \<Rightarrow> 'c list \<times> 's" where
  "rollback rv [] s = ([], s)"
| "rollback rv (c # cs) s =
     (let (_, c', s') = rv c s; (cs', s'') = rollback rv cs s' in (c' # cs', s''))"

fun revert_all :: "('c \<Rightarrow> 's \<Rightarrow> bool \<times> 'c \<times> 's) \<Rightarrow> 'c list \<Rightarrow> 's \<Rightarrow> bool \<times> 'c list \<times> 's" where
  "revert_all rv [] s = (True, [], s)"
| "revert_all rv (c # cs) s =
     (let (ok, c', s') = rv c s in
      if \<not> ok then (False, c' # cs, s')
      else let (ok', cs', s'') = revert_all rv cs s' in (ok', c' # cs', s''))"

fun run_all :: "('c \<Rightarrow> 's \<Rightarrow> bool \<times> 'c \<times> 's) \<Rightarrow> ('c \<Rightarrow> 's \<Rightarrow> bool \<times> 'c \<times> 's) \<Rightarrow> 'c list \<Rightarrow> 'c list \<Rightarrow> 's \<Rightarrow> bool \<times> 'c list \<times> 's" where
  "run_all ap rv done [] s = (True, rev done, s)"
| "run_all ap rv done (c # cs) s =
     (let (ok, c', s') = ap c s in
      if ok then run_all ap rv (c' # done) cs s'
      else let (done', s'') = rollback rv done s' in (False, rev done' @ c' # cs, s''))"

lemma revert_all_cong [fundef_cong]:
  "cs = ds \<Longrightarrow> s = t \<Longrightarrow> (\<And>c u. c \<in> set ds \<Longrightarrow> rv c u = rw c u) \<Longrightarrow>
   revert_all rv cs s = revert_all rw ds t"
  by (induction cs arbitrary: s ds t) (auto split: prod.split)

lemma run_all_cong [fundef_cong]:
  "d = e \<Longrightarrow> cs = ds \<Longrightarrow> s = t \<Longrightarrow> (\<And>c u. c \<in> set ds \<Longrightarrow> ap c u = aq c u) \<Longrightarrow> rv = rw \<Longrightarrow>
   run_all ap rv d cs s = run_all aq rw e ds t"
  by (induction cs arbitrary: s ds t d e) (auto split: prod.split)

subsection \<open>The interface\<close>

definition reversible_step ::
  "('c \<Rightarrow> 's \<Rightarrow> bool \<times> 'c \<times> 's) \<Rightarrow> ('c \<Rightarrow> 's \<Rightarrow> bool \<times> 'c \<times> 's) \<Rightarrow> ('s \<Rightarrow> 't) \<Rightarrow> ('c \<Rightarrow> 'e) \<Rightarrow>
   ('c \<Rightarrow> 's \<Rightarrow> bool) \<Rightarrow> 'c \<Rightarrow> bool" where
  "reversible_step ap rv view essence ready c \<longleftrightarrow>
     (\<forall>d p q. essence c = essence d \<longrightarrow> view p = view q \<longrightarrow>
        fst (ap c p) = fst (ap d q) \<and> view (snd (snd (ap c p))) = view (snd (snd (ap d q))) \<and>
        (fst (ap c p) \<longrightarrow> fst (snd (ap c p)) = fst (snd (ap d q))) \<and> ready c p = ready d q) \<and>
     (\<forall>p q. view p = view q \<longrightarrow>
        fst (rv c p) = fst (rv c q) \<and> fst (snd (rv c p)) = fst (snd (rv c q)) \<and>
        view (snd (snd (rv c p))) = view (snd (snd (rv c q)))) \<and>
     (\<forall>p c' p'. ready c p \<longrightarrow> ap c p = (True, c', p') \<longrightarrow>
        (\<exists>c'' p''. rv c' p' = (True, c'', p'') \<and> view p'' = view p \<and> essence c'' = essence c)) \<and>
     (\<forall>p c' p'. ready c p \<longrightarrow> ap c p = (False, c', p') \<longrightarrow> view p' = view p)"

text \<open>The captured command \<open>c'\<close> is also one the contract covers, so that it can be reverted.\<close>

locale reversible =
  fixes ap rv :: "'c \<Rightarrow> 's \<Rightarrow> bool \<times> 'c \<times> 's" and view :: "'s \<Rightarrow> 't" and essence :: "'c \<Rightarrow> 'e"
    and ready :: "'c \<Rightarrow> 's \<Rightarrow> bool" and covered :: "'c \<Rightarrow> bool"
  assumes step: "covered c \<Longrightarrow> reversible_step ap rv view essence ready c"
    and covered_essence: "covered c \<Longrightarrow> essence d = essence c \<Longrightarrow> covered d"
    and ap_essence: "essence (fst (snd (ap c p))) = essence c"

fun ready_all :: "('c \<Rightarrow> 's \<Rightarrow> bool \<times> 'c \<times> 's) \<Rightarrow> ('c \<Rightarrow> 's \<Rightarrow> bool) \<Rightarrow> 'c list \<Rightarrow> 's \<Rightarrow> bool" where
  "ready_all ap rd [] s = True"
| "ready_all ap rd (c # cs) s \<longleftrightarrow>
     rd c s \<and> (let (ok, c', s') = ap c s in ok \<longrightarrow> ready_all ap rd cs s')"

lemma ready_all_cong [fundef_cong]:
  "cs = ds \<Longrightarrow> s = t \<Longrightarrow> ap = aq \<Longrightarrow> (\<And>c u. c \<in> set ds \<Longrightarrow> rd c u = re c u) \<Longrightarrow>
   ready_all ap rd cs s = ready_all aq re ds t"
  by (induction cs arbitrary: s ds t) (auto split: prod.split)

context reversible
begin

lemma step_view:
  assumes "covered c" and "essence d = essence c" and "view q = view p"
  shows "fst (ap c p) = fst (ap d q) \<and> view (snd (snd (ap c p))) = view (snd (snd (ap d q))) \<and>
    (fst (ap c p) \<longrightarrow> fst (snd (ap c p)) = fst (snd (ap d q))) \<and> ready c p = ready d q"
  using step [OF assms(1), unfolded reversible_step_def, THEN conjunct1, rule_format, of d p q]
    assms(2,3) by simp

lemma ap_view:
  assumes "covered c" and "essence d = essence c" and "view q = view p" and "ap c p = (ok, c', p')"
  shows "\<exists>d' q'. ap d q = (ok, d', q') \<and> view q' = view p' \<and> (ok \<longrightarrow> d' = c')"
  using step_view [OF assms(1-3)] assms(4) by (cases "ap d q") auto

lemma ready_view:
  "covered c \<Longrightarrow> essence d = essence c \<Longrightarrow> view q = view p \<Longrightarrow> ready d q = ready c p"
  using step_view [of c d q p] by simp

lemma rv_view:
  assumes "covered c" and "view q = view p" and "rv c p = (ok, c', p')"
  shows "\<exists>q'. rv c q = (ok, c', q') \<and> view q' = view p'"
  using step [OF assms(1), unfolded reversible_step_def, THEN conjunct2, THEN conjunct1, rule_format, of p q]
    assms(2,3) by (cases "rv c q") auto

lemma undo_step:
  "covered c \<Longrightarrow> ready c p \<Longrightarrow> ap c p = (True, c', p') \<Longrightarrow> view q = view p' \<Longrightarrow>
   \<exists>c'' q'. rv c' q = (True, c'', q') \<and> view q' = view p \<and> essence c'' = essence c"
proof -
  assume c: "covered c" and r: "ready c p" and a: "ap c p = (True, c', p')" and v: "view q = view p'"
  obtain c'' p'' where rv: "rv c' p' = (True, c'', p'')" "view p'' = view p" "essence c'' = essence c"
    using step [OF c] r a unfolding reversible_step_def by metis
  have "essence c' = essence c" using ap_essence [of c p] a by simp
  then have "covered c'" using covered_essence [OF c] by simp
  from rv_view [OF this v rv(1)] rv show ?thesis by auto
qed

lemma fail_step: "covered c \<Longrightarrow> ready c p \<Longrightarrow> ap c p = (False, c', p') \<Longrightarrow> view p' = view p"
  using step [of c] unfolding reversible_step_def by metis

subsection \<open>Sequences\<close>

text \<open>\<open>chain done orig p q\<close>: running \<open>orig\<close> (last first) from \<open>p\<close> gave \<open>done\<close> at \<open>q\<close>.\<close>

inductive chain :: "'c list \<Rightarrow> 'c list \<Rightarrow> 's \<Rightarrow> 's \<Rightarrow> bool" where
  chain_Nil: "view q = view p \<Longrightarrow> chain [] [] p q"
| chain_Cons: "chain ds os p q \<Longrightarrow> covered c \<Longrightarrow> ready c q \<Longrightarrow> ap c q = (True, c', r) \<Longrightarrow>
    view r' = view r \<Longrightarrow> chain (c' # ds) (c # os) p r'"

inductive_cases chain_ConsE: "chain (c' # ds) os p r"

lemma chain_view: "chain ds os p q \<Longrightarrow> view q' = view q \<Longrightarrow> chain ds os p q'"
  by (erule chain.cases) (auto intro: chain.intros)

lemma chain_revert:
  "chain ds os p q \<Longrightarrow> view q' = view q \<Longrightarrow>
   \<exists>ds' p'. revert_all rv ds q' = (True, ds', p') \<and> view p' = view p \<and> map essence ds' = map essence os"
proof (induction arbitrary: q' rule: chain.induct)
  case (chain_Cons ds os p q c c' r r')
  then have "view q' = view r" by simp
  from undo_step [OF chain_Cons(2-4) this] obtain c'' s where
    s: "rv c' q' = (True, c'', s)" "view s = view q" "essence c'' = essence c" by auto
  from chain_Cons.IH [OF s(2)] s show ?case by (auto split: prod.splits)
qed simp

lemma chain_rollback:
  "chain ds os p q \<Longrightarrow> view q' = view q \<Longrightarrow>
   \<exists>ds' p'. rollback rv ds q' = (ds', p') \<and> view p' = view p \<and> map essence ds' = map essence os"
proof (induction arbitrary: q' rule: chain.induct)
  case (chain_Cons ds os p q c c' r r')
  then have "view q' = view r" by simp
  from undo_step [OF chain_Cons(2-4) this] obtain c'' s where
    s: "rv c' q' = (True, c'', s)" "view s = view q" "essence c'' = essence c" by auto
  from chain_Cons.IH [OF s(2)] s show ?case by (auto split: prod.splits)
qed simp

lemma run_all_chain:
  "chain ds os p q \<Longrightarrow> \<forall>c \<in> set cs. covered c \<Longrightarrow> ready_all ap ready cs q \<Longrightarrow>
   run_all ap rv ds cs q = (ok, cs', p') \<Longrightarrow>
   map essence cs' = map essence (rev os @ cs) \<and>
   (if ok then chain (rev cs') (rev cs @ os) p p' else view p' = view p)"
proof (induction cs arbitrary: ds os q)
  case Nil
  have "map essence ds = map essence os"
    using Nil(1) by (induction rule: chain.induct) (use ap_essence in \<open>auto, metis fst_conv snd_conv\<close>)
  with Nil show ?case by (auto simp flip: rev_map)
next
  case (Cons c cs)
  obtain okc c' q' where a: "ap c q = (okc, c', q')" by (cases "ap c q")
  have c: "covered c" "ready c q" using Cons.prems by simp_all
  show ?case
  proof (cases okc)
    case True
    then have "chain (c' # ds) (c # os) p q'"
      using chain_Cons [OF Cons.prems(1) c] a by simp
    from Cons.IH [OF this] Cons.prems a True show ?thesis by simp
  next
    case False
    then have v: "view q' = view q" using fail_step [OF c] a by simp
    from chain_rollback [OF Cons.prems(1) v] obtain ds' s where
      s: "rollback rv ds q' = (ds', s)" "view s = view p" "map essence ds' = map essence os" by auto
    have "essence c' = essence c" using ap_essence [of c q] a by simp
    with Cons.prems(4) a False s show ?thesis by (auto simp flip: rev_map)
  qed
qed

lemma rollback_view:
  "\<forall>d \<in> set ds. covered d \<Longrightarrow> view q = view p \<Longrightarrow>
   fst (rollback rv ds q) = fst (rollback rv ds p) \<and>
   view (snd (rollback rv ds q)) = view (snd (rollback rv ds p))"
proof (induction ds arbitrary: p q)
  case (Cons d ds)
  obtain ok d' p' where r: "rv d p = (ok, d', p')" by (cases "rv d p")
  with Cons.prems obtain q' where "rv d q = (ok, d', q')" "view q' = view p'"
    using rv_view [of d q p] by auto
  with r Cons.IH [of q' p'] Cons.prems show ?case by (auto split: prod.splits)
qed simp

lemma revert_all_view:
  "\<forall>d \<in> set ds. covered d \<Longrightarrow> view q = view p \<Longrightarrow> revert_all rv ds p = (ok, ds', p') \<Longrightarrow>
   \<exists>q'. revert_all rv ds q = (ok, ds', q') \<and> view q' = view p'"
proof (induction ds arbitrary: p q ok ds' p')
  case (Cons d ds)
  obtain okd d' p1 where r: "rv d p = (okd, d', p1)" by (cases "rv d p")
  with Cons.prems obtain q1 where q1: "rv d q = (okd, d', q1)" "view q1 = view p1"
    using rv_view [of d q p] by auto
  show ?case
  proof (cases okd)
    case True
    obtain ok2 ds2 p2 where r2: "revert_all rv ds p1 = (ok2, ds2, p2)" by (cases "revert_all rv ds p1")
    from Cons.IH [OF _ q1(2) r2] Cons.prems(1) obtain q2 where
      "revert_all rv ds q1 = (ok2, ds2, q2)" "view q2 = view p2" by auto
    with r q1 r2 True Cons.prems(3) show ?thesis by auto
  qed (use r q1 Cons.prems(3) in auto)
qed simp

lemma run_all_view:
  "\<forall>c \<in> set cs. covered c \<Longrightarrow> \<forall>c \<in> set ds. covered c \<Longrightarrow> map essence cs2 = map essence cs \<Longrightarrow>
   view q = view p \<Longrightarrow> run_all ap rv ds cs p = (ok, cs', p') \<Longrightarrow>
   \<exists>ds' q'. run_all ap rv ds cs2 q = (ok, ds', q') \<and> view q' = view p' \<and> (ok \<longrightarrow> ds' = cs')"
proof (induction cs arbitrary: ds cs2 p q)
  case (Cons c cs)
  then obtain d cs3 where cs2: "cs2 = d # cs3" "essence d = essence c" "map essence cs3 = map essence cs"
    by auto
  obtain okc c' p1 where a: "ap c p = (okc, c', p1)" by (cases "ap c p")
  have cov: "covered c" using Cons.prems by simp
  from ap_view [OF cov cs2(2) Cons.prems(4) a] obtain d' q1 where
    b: "ap d q = (okc, d', q1)" "view q1 = view p1" "okc \<longrightarrow> d' = c'" by auto
  show ?case
  proof (cases okc)
    case True
    have "covered c'" using covered_essence [OF cov] ap_essence [of c p] a by simp
    with Cons.IH [of "c' # ds" cs3 q1 p1] Cons.prems cs2 a b True show ?thesis by simp
  next
    case False
    from rollback_view [OF Cons.prems(2) b(2)] Cons.prems(5) a b cs2 False show ?thesis
      by (auto split: prod.splits)
  qed
qed simp

lemma ready_all_view:
  "\<forall>c \<in> set cs. covered c \<Longrightarrow> map essence cs2 = map essence cs \<Longrightarrow> view q = view p \<Longrightarrow>
   ready_all ap ready cs2 q = ready_all ap ready cs p"
proof (induction cs arbitrary: cs2 p q)
  case (Cons c cs)
  then obtain d cs3 where cs2: "cs2 = d # cs3" "essence d = essence c" "map essence cs3 = map essence cs"
    by auto
  obtain okc c' p1 where a: "ap c p = (okc, c', p1)" by (cases "ap c p")
  have cov: "covered c" using Cons.prems by simp
  from ap_view [OF cov cs2(2) Cons.prems(3) a] obtain d' q1 where
    b: "ap d q = (okc, d', q1)" "view q1 = view p1" by auto
  have "ready d q = ready c p" by (rule ready_view [OF cov cs2(2) Cons.prems(3)])
  with Cons.IH [of cs3 q1 p1] Cons.prems cs2 a b show ?case by auto
qed simp

text \<open>Conversely, a chain is a successful run of the commands it came from.\<close>

lemma run_all_snoc:
  "run_all ap rv ds cs p = (True, cs', q) \<Longrightarrow> ap c q = (True, c', r) \<Longrightarrow>
   run_all ap rv ds (cs @ [c]) p = (True, cs' @ [c'], r)"
  by (induction cs arbitrary: ds p) (auto split: prod.splits if_splits)

lemma ready_all_snoc:
  "ready_all ap ready cs p \<Longrightarrow> run_all ap rv ds cs p = (True, cs', q) \<Longrightarrow> ready c q \<Longrightarrow>
   ready_all ap ready (cs @ [c]) p"
  by (induction cs arbitrary: ds p) (auto split: prod.splits if_splits)

lemma chain_run:
  "chain ds os p q \<Longrightarrow> \<exists>q'. run_all ap rv [] (rev os) p = (True, rev ds, q') \<and> view q' = view q \<and>
     ready_all ap ready (rev os) p \<and> (\<forall>c \<in> set os. covered c)"
proof (induction rule: chain.induct)
  case (chain_Cons ds os p q c c' r r')
  then obtain s where s: "run_all ap rv [] (rev os) p = (True, rev ds, s)" "view s = view q"
    "ready_all ap ready (rev os) p" "\<forall>c \<in> set os. covered c" by auto
  from ap_view [OF chain_Cons(2) refl s(2) chain_Cons(4)] obtain t where
    t: "ap c s = (True, c', t)" "view t = view r" by auto
  have "ready c s" using ready_view [OF chain_Cons(2) refl s(2)] chain_Cons(3) by simp
  with ready_all_snoc [OF s(3,1)] run_all_snoc [OF s(1) t(1)] s t chain_Cons(2,5) show ?case
    by auto
qed auto

subsection \<open>Histories\<close>

text \<open>
  \<open>applied c s t\<close>: \<open>c\<close> is on the undo stack, having taken the view \<open>s\<close> to \<open>t\<close>;
  \<open>pending c s t\<close>: \<open>c\<close> is on the redo stack and will.
\<close>

definition applied :: "'c \<Rightarrow> 't \<Rightarrow> 't \<Rightarrow> bool" where
  "applied c' s t \<longleftrightarrow> (\<exists>c p p'. view p = s \<and> covered c \<and> ready c p \<and> ap c p = (True, c', p') \<and> view p' = t)"

definition pending :: "'c \<Rightarrow> 't \<Rightarrow> 't \<Rightarrow> bool" where
  "pending c s t \<longleftrightarrow> (\<exists>p c' p'. view p = s \<and> covered c \<and> ready c p \<and> ap c p = (True, c', p') \<and> view p' = t)"

lemma appliedI:
  "covered c \<Longrightarrow> ready c p \<Longrightarrow> ap c p = (True, c', p') \<Longrightarrow> applied c' (view p) (view p')"
  unfolding applied_def by blast

lemma applied_revert:
  assumes "applied c' s t" and "view q = t"
  shows "\<exists>c'' q'. rv c' q = (True, c'', q') \<and> view q' = s \<and> pending c'' s t"
proof -
  obtain c p p' where a: "view p = s" "covered c" "ready c p" "ap c p = (True, c', p')" "view p' = t"
    using assms(1) unfolding applied_def by blast
  with assms(2) have "view q = view p'" by simp
  from undo_step [OF a(2-4) this] obtain c'' q' where
    u: "rv c' q = (True, c'', q')" "view q' = view p" "essence c'' = essence c" by blast
  from ap_view [OF a(2) u(3) refl a(4)] obtain p2 where "ap c'' p = (True, c', p2)" "view p2 = view p'"
    by auto
  moreover have "covered c''" using covered_essence [OF a(2) u(3)] .
  moreover have "ready c'' p" using ready_view [OF a(2) u(3) refl] a(3) by simp
  ultimately have "pending c'' s t" unfolding pending_def using a(1,5) by metis
  with u a(1) show ?thesis by auto
qed

lemma pending_apply:
  assumes "pending c s t" and "view q = s"
  shows "\<exists>c' q'. ap c q = (True, c', q') \<and> view q' = t \<and> applied c' s t"
proof -
  obtain p c' p' where a: "view p = s" "covered c" "ready c p" "ap c p = (True, c', p')" "view p' = t"
    using assms(1) unfolding pending_def by blast
  with assms(2) have v: "view q = view p" by simp
  from ap_view [OF a(2) refl v a(4)] obtain q' where "ap c q = (True, c', q')" "view q' = view p'"
    by auto
  with appliedI [OF a(2-4)] a show ?thesis by auto
qed

fun undo_chain :: "'c list \<Rightarrow> 't \<Rightarrow> 't \<Rightarrow> bool" where
  "undo_chain [] s t \<longleftrightarrow> s = t"
| "undo_chain (c # cs) s t \<longleftrightarrow> (\<exists>m. applied c m t \<and> undo_chain cs s m)"

fun redo_chain :: "'c list \<Rightarrow> 't \<Rightarrow> 't \<Rightarrow> bool" where
  "redo_chain [] s t \<longleftrightarrow> s = t"
| "redo_chain (c # cs) s t \<longleftrightarrow> (\<exists>m. pending c s m \<and> redo_chain cs m t)"

lemma undo_chain_chain:
  "undo_chain ds s t \<Longrightarrow> view q = t \<Longrightarrow> view p = s \<Longrightarrow> \<exists>os. chain ds os p q"
proof (induction ds arbitrary: t q)
  case Nil
  then show ?case using chain_Nil [of q p] by auto
next
  case (Cons d ds)
  then obtain m where m: "applied d m t" "undo_chain ds s m" by auto
  then obtain c r r' where r: "view r = m" "covered c" "ready c r" "ap c r = (True, d, r')" "view r' = t"
    unfolding applied_def by blast
  from Cons.IH [OF m(2) r(1) Cons.prems(3)] obtain os where "chain ds os p r" by blast
  from chain.chain_Cons [OF this r(2-4), of q] r(5) Cons.prems(2) show ?case by auto
qed

lemma undo_chain_source: "undo_chain ds s t \<Longrightarrow> view q = t \<Longrightarrow> \<exists>p. view p = s"
proof (induction ds arbitrary: t q)
  case (Cons d ds)
  then show ?case unfolding undo_chain.simps applied_def by metis
qed auto

end

end
