(* ===== verification/Commands.thy ===== *)
theory Commands
  imports Project_Inv Reversible
begin

text \<open>
  The command classes of \<open>model/commands.cpp\<close> and the composite of \<open>model/command.h\<close>.  A
  class is a record of its members; its \<open>apply\<close> and \<open>revert\<close> return the flag, the command
  with what it captured, and the project.  \<open>command\<close> is the sum of the classes, and the
  virtual calls are \<open>apply_command\<close>, \<open>revert_command\<close>, \<open>command_name\<close> and \<open>coalesceWith\<close>.
\<close>

subsection \<open>Adding\<close>

record 'e AddCommand =
  add_entity :: 'e
  add_name :: string

definition AddInstrument_apply :: "Instrument AddCommand \<Rightarrow> project \<Rightarrow> bool \<times> project" where
  "AddInstrument_apply c p = restoreInstrument (add_entity c) p"
definition AddInstrument_revert :: "Instrument AddCommand \<Rightarrow> project \<Rightarrow> bool \<times> project" where
  "AddInstrument_revert c p = deleteInstrument (inst_id (add_entity c)) p"
definition AddPattern_apply :: "Pattern AddCommand \<Rightarrow> project \<Rightarrow> bool \<times> project" where
  "AddPattern_apply c p = restorePattern (add_entity c) p"
definition AddPattern_revert :: "Pattern AddCommand \<Rightarrow> project \<Rightarrow> bool \<times> project" where
  "AddPattern_revert c p = deletePattern (pat_id (add_entity c)) p"
definition AddLane_apply :: "ArrangementLane AddCommand \<Rightarrow> project \<Rightarrow> bool \<times> project" where
  "AddLane_apply c p = restoreLane (add_entity c) p"
definition AddLane_revert :: "ArrangementLane AddCommand \<Rightarrow> project \<Rightarrow> bool \<times> project" where
  "AddLane_revert c p = deleteLane (lane_id (add_entity c)) p"
definition AddClip_apply :: "Clip AddCommand \<Rightarrow> project \<Rightarrow> bool \<times> project" where
  "AddClip_apply c p = restoreClip (add_entity c) p"
definition AddClip_revert :: "Clip AddCommand \<Rightarrow> project \<Rightarrow> bool \<times> project" where
  "AddClip_revert c p = deleteClip (clip_id (add_entity c)) p"
definition AddMixerTrack_apply :: "MixerTrack AddCommand \<Rightarrow> project \<Rightarrow> bool \<times> project" where
  "AddMixerTrack_apply c p = restoreMixerTrack (add_entity c) p"
definition AddMixerTrack_revert :: "MixerTrack AddCommand \<Rightarrow> project \<Rightarrow> bool \<times> project" where
  "AddMixerTrack_revert c p = deleteMixerTrack (track_id (add_entity c)) p"

subsection \<open>Removing\<close>

definition captured_clips :: "('a Tables_scheme) \<Rightarrow> clip_id list \<Rightarrow> Clip list" where
  "captured_clips p ids = List.map_filter (findClip p) ids"

definition restore_clips :: "Clip list \<Rightarrow> project \<Rightarrow> project" where
  "restore_clips cs p = fold (\<lambda>c p. snd (restoreClip c p)) cs p"

record RemoveInstrumentCommand =
  ri_id :: instrument_id
  ri_instrument :: Instrument
  ri_sequences :: "(pattern_id, note_sequence) omap"
  ri_clips :: "Clip list"

definition RemoveInstrument_apply :: "RemoveInstrumentCommand \<Rightarrow> project \<Rightarrow> bool \<times> RemoveInstrumentCommand \<times> project" where
  "RemoveInstrument_apply c p =
     (case findInstrument p (ri_id c) of
        None \<Rightarrow> (False, c, p)
      | Some inst \<Rightarrow>
          let c' = c\<lparr>ri_instrument := inst,
                ri_sequences := om_collect (\<lambda>_ pat. om_find (pat_sequences pat) (ri_id c)) (patterns p),
                ri_clips := captured_clips p (ii_clips (instrumentImpact p (ri_id c)))\<rparr>;
              (ok, p') = deleteInstrument (ri_id c) p
          in (ok, c', p'))"

definition RemoveInstrument_revert :: "RemoveInstrumentCommand \<Rightarrow> project \<Rightarrow> bool \<times> project" where
  "RemoveInstrument_revert c p =
     (let (ok, p1) = restoreInstrument (ri_instrument c) p in
      if \<not> ok then (False, p1)
      else let p2 = fold (\<lambda>(pid, s) p. snd (restoreSequence pid (ri_id c) s p))
                      (om_entries (ri_sequences c)) p1
           in (True, restore_clips (ri_clips c) p2))"

record RemovePatternCommand =
  rp_id :: pattern_id
  rp_pattern :: Pattern
  rp_clips :: "Clip list"

definition RemovePattern_apply :: "RemovePatternCommand \<Rightarrow> project \<Rightarrow> bool \<times> RemovePatternCommand \<times> project" where
  "RemovePattern_apply c p =
     (case findPattern p (rp_id c) of
        None \<Rightarrow> (False, c, p)
      | Some pat \<Rightarrow>
          let c' = c\<lparr>rp_pattern := pat, rp_clips := captured_clips p (clipsUsingPattern p (rp_id c))\<rparr>;
              (ok, p') = deletePattern (rp_id c) p
          in (ok, c', p'))"

definition RemovePattern_revert :: "RemovePatternCommand \<Rightarrow> project \<Rightarrow> bool \<times> project" where
  "RemovePattern_revert c p =
     (let (ok, p1) = restorePattern (rp_pattern c) p in
      if \<not> ok then (False, p1) else (True, restore_clips (rp_clips c) p1))"

record RemoveLaneCommand =
  rl_id :: lane_id
  rl_lane :: ArrangementLane
  rl_clips :: "Clip list"
  rl_grouped :: "lane_id list"

definition RemoveLane_apply :: "RemoveLaneCommand \<Rightarrow> project \<Rightarrow> bool \<times> RemoveLaneCommand \<times> project" where
  "RemoveLane_apply c p =
     (case findLane p (rl_id c) of
        None \<Rightarrow> (False, c, p)
      | Some l \<Rightarrow>
          let c' = c\<lparr>rl_lane := l, rl_clips := captured_clips p (clipsOnLane p (rl_id c)),
                rl_grouped := map fst (filter (\<lambda>(i, other). lane_group_id other = Some (rl_id c))
                  (om_entries (lanes p)))\<rparr>;
              (ok, p') = deleteLane (rl_id c) p
          in (ok, c', p'))"

definition RemoveLane_revert :: "RemoveLaneCommand \<Rightarrow> project \<Rightarrow> bool \<times> project" where
  "RemoveLane_revert c p =
     (let (ok, p1) = restoreLane (rl_lane c) p in
      if \<not> ok then (False, p1)
      else let p2 = fold (\<lambda>i p. snd (updateLane i FGroup (\<lambda>l. l\<lparr>lane_group_id := Some (rl_id c)\<rparr>) p))
                      (rl_grouped c) p1
           in (True, restore_clips (rl_clips c) p2))"

record RemoveClipCommand =
  rc_id :: clip_id
  rc_clip :: Clip

definition RemoveClip_apply :: "RemoveClipCommand \<Rightarrow> project \<Rightarrow> bool \<times> RemoveClipCommand \<times> project" where
  "RemoveClip_apply c p =
     (case findClip p (rc_id c) of
        None \<Rightarrow> (False, c, p)
      | Some cl \<Rightarrow> let (ok, p') = deleteClip (rc_id c) p in (ok, c\<lparr>rc_clip := cl\<rparr>, p'))"

definition RemoveClip_revert :: "RemoveClipCommand \<Rightarrow> project \<Rightarrow> bool \<times> project" where
  "RemoveClip_revert c p = restoreClip (rc_clip c) p"

record RemoveMixerTrackCommand =
  rt_id :: track_id
  rt_track :: MixerTrack
  rt_routings :: "(instrument_id \<times> OutputRoute list) list"
  rt_inputs :: "track_id list"
  rt_clips :: "Clip list"
  rt_audio_clips :: "Clip list"

definition RemoveMixerTrack_apply :: "RemoveMixerTrackCommand \<Rightarrow> project \<Rightarrow> bool \<times> RemoveMixerTrackCommand \<times> project" where
  "RemoveMixerTrack_apply c p =
     (case findMixerTrack p (rt_id c) of
        None \<Rightarrow> (False, c, p)
      | Some t \<Rightarrow>
          let impact = mixerTrackImpact p (rt_id c);
              hit = captured_clips p (mi_clips impact);
              c' = c\<lparr>rt_track := t,
                rt_routings := List.map_filter (\<lambda>i. map_option (\<lambda>e. (i, inst_routing e)) (findInstrument p i))
                  (mi_instruments impact),
                rt_inputs := mi_inputs impact,
                rt_clips := filter (\<lambda>cl. clip_audio cl = None) hit,
                rt_audio_clips := filter (\<lambda>cl. clip_audio cl \<noteq> None) hit\<rparr>;
              (ok, p') = deleteMixerTrack (rt_id c) p
          in (ok, c', p'))"

definition RemoveMixerTrack_revert :: "RemoveMixerTrackCommand \<Rightarrow> project \<Rightarrow> bool \<times> project" where
  "RemoveMixerTrack_revert c p =
     (let (ok, p1) = restoreMixerTrack (rt_track c) p in
      if \<not> ok then (False, p1)
      else let p2 = fold (\<lambda>(i, routing) p. snd (updateInstrument i FRouting
                      (\<lambda>e. e\<lparr>inst_routing := routing\<rparr>) p)) (rt_routings c) p1;
               p3 = fold (\<lambda>i p. snd (updateMixerTrack i FOutput
                      (\<lambda>t. t\<lparr>track_output := Some (rt_id c)\<rparr>) p)) (rt_inputs c) p2;
               p4 = fold (\<lambda>cl p. snd (updateClip (clip_id cl) FSource (\<lambda>_. cl) p)) (rt_audio_clips c) p3
           in (True, restore_clips (rt_clips c) p4))"

subsection \<open>Editing\<close>

record PatternMeta =
  pm_name :: string
  pm_color :: string
  pm_length :: ticks
  pm_order :: int
  pm_group :: string
  pm_time_signature :: TimeSignature
  pm_swing :: fp

definition pattern_meta_from :: "Pattern \<Rightarrow> PatternMeta" where
  "pattern_meta_from p = \<lparr>pm_name = pat_name p, pm_color = pat_color p, pm_length = pat_length p,
     pm_order = pat_order p, pm_group = pat_group p, pm_time_signature = pat_time_signature p,
     pm_swing = pat_swing p\<rparr>"

definition write_pattern_meta :: "PatternMeta \<Rightarrow> Pattern \<Rightarrow> Pattern" where
  "write_pattern_meta m p = p\<lparr>pat_name := pm_name m, pat_color := pm_color m,
     pat_length := pm_length m, pat_order := pm_order m, pat_group := pm_group m,
     pat_time_signature := pm_time_signature m, pat_swing := pm_swing m\<rparr>"

record ('i, 'v) EditCommand =
  ed_id :: 'i
  ed_field :: ChangeField
  ed_before :: 'v
  ed_after :: 'v
  ed_name :: string

definition InstrumentTraits_write :: "instrument_id \<Rightarrow> ChangeField \<Rightarrow> Instrument \<Rightarrow> project \<Rightarrow> bool \<times> project" where
  "InstrumentTraits_write i f v p = updateInstrument i f (\<lambda>_. v) p"
definition LaneTraits_write :: "lane_id \<Rightarrow> ChangeField \<Rightarrow> ArrangementLane \<Rightarrow> project \<Rightarrow> bool \<times> project" where
  "LaneTraits_write i f v p = updateLane i f (\<lambda>_. v) p"
definition ClipTraits_write :: "clip_id \<Rightarrow> ChangeField \<Rightarrow> Clip \<Rightarrow> project \<Rightarrow> bool \<times> project" where
  "ClipTraits_write i f v p = updateClip i f (\<lambda>_. v) p"
definition MixerTrackTraits_write :: "track_id \<Rightarrow> ChangeField \<Rightarrow> MixerTrack \<Rightarrow> project \<Rightarrow> bool \<times> project" where
  "MixerTrackTraits_write i f v p = updateMixerTrack i f (\<lambda>_. v) p"
definition PatternMetaTraits_write :: "pattern_id \<Rightarrow> ChangeField \<Rightarrow> PatternMeta \<Rightarrow> project \<Rightarrow> bool \<times> project" where
  "PatternMetaTraits_write i f v p = updatePattern i f (write_pattern_meta v) p"

text \<open>The template's \<open>apply\<close>, \<open>revert\<close> and \<open>coalesceWith\<close>, for the traits' \<open>write\<close>.\<close>

definition Edit_apply :: "('i \<Rightarrow> ChangeField \<Rightarrow> 'v \<Rightarrow> project \<Rightarrow> bool \<times> project) \<Rightarrow> ('i, 'v) EditCommand \<Rightarrow> project \<Rightarrow> bool \<times> project" where
  "Edit_apply write c p = write (ed_id c) (ed_field c) (ed_after c) p"

definition Edit_revert :: "('i \<Rightarrow> ChangeField \<Rightarrow> 'v \<Rightarrow> project \<Rightarrow> bool \<times> project) \<Rightarrow> ('i, 'v) EditCommand \<Rightarrow> project \<Rightarrow> bool \<times> project" where
  "Edit_revert write c p = write (ed_id c) (ed_field c) (ed_before c) p"

definition Edit_coalesce :: "('i, 'v) EditCommand \<Rightarrow> ('i, 'v) EditCommand \<Rightarrow> ('i, 'v) EditCommand option" where
  "Edit_coalesce c d =
     (if ed_id d \<noteq> ed_id c \<or> ed_field d \<noteq> ed_field c then None else Some (c\<lparr>ed_after := ed_after d\<rparr>))"

subsection \<open>Notes\<close>

definition follow_clip :: "ticks \<Rightarrow> ticks \<Rightarrow> clip_id \<Rightarrow> (clip_id \<times> ticks) list \<times> project \<Rightarrow> (clip_id \<times> ticks) list \<times> project" where
  "follow_clip before after i st =
     (let (moved, p) = st in
      case findClip p i of
        None \<Rightarrow> (moved, p)
      | Some c \<Rightarrow>
          if clip_length c \<noteq> before then (moved, p)
          else let (ok, p') = updateClip i FLength (\<lambda>v. v\<lparr>clip_length := after\<rparr>) p
               in if ok then (moved @ [(i, before)], p') else (moved, p'))"

definition followPatternLength :: "pattern_id \<Rightarrow> ticks \<Rightarrow> project \<Rightarrow> (clip_id \<times> ticks) list \<times> project" where
  "followPatternLength pattern before p =
     (case findPattern p pattern of
        None \<Rightarrow> ([], p)
      | Some live \<Rightarrow>
          let after = patternEffectiveLength live in
          if after = before \<or> after \<le> 0 then ([], p)
          else fold (follow_clip before after) (clipsUsingPattern p pattern) ([], p))"

record NoteCommand =
  nc_pattern :: pattern_id
  nc_instrument :: instrument_id
  nc_removed :: "Note list"
  nc_added :: "Note list"
  nc_name :: string
  nc_coalescable :: bool
  nc_resized :: "(clip_id \<times> ticks) list"

text \<open>
  The removal index: \<open>std::map<Note, size_t>\<close> under an order in which only equal notes are
  equivalent, so a multiset of notes.
\<close>

fun take_out :: "Note multiset \<Rightarrow> Note list \<Rightarrow> Note list \<times> Note multiset" where
  "take_out removals [] = ([], removals)"
| "take_out removals (n # ns) =
     (if count removals n = 0 then
        let (kept, left) = take_out removals ns in (n # kept, left)
      else take_out (removals - {# n #}) ns)"

definition editSequence :: "pattern_id \<Rightarrow> instrument_id \<Rightarrow> Note list \<Rightarrow> Note list \<Rightarrow> project \<Rightarrow> bool \<times> project" where
  "editSequence pid i taken give p =
     (case findPattern p pid of
        None \<Rightarrow> (False, p)
      | Some pat \<Rightarrow>
          if findInstrument p i = None then (False, p)
          else let current = (case om_find (pat_sequences pat) i of None \<Rightarrow> [] | Some s \<Rightarrow> s) in
            if taken = current then
              (if \<not> list_all isValidNote give then (False, p)
               else restoreSequence pid i (assignSorted give) p)
            else let (kept, left) = take_out (mset taken) current in
              if left \<noteq> {#} then (False, p)
              else if \<not> list_all isValidNote give then (False, p)
              else restoreSequence pid i (assignSorted (kept @ give)) p)"

definition Note_apply :: "NoteCommand \<Rightarrow> project \<Rightarrow> bool \<times> NoteCommand \<times> project" where
  "Note_apply c p =
     (case findPattern p (nc_pattern c) of
        None \<Rightarrow> (False, c, p)
      | Some pat \<Rightarrow>
          let before = patternEffectiveLength pat;
              (ok, p1) = editSequence (nc_pattern c) (nc_instrument c) (nc_removed c) (nc_added c) p
          in if \<not> ok then (False, c, p1)
             else let (moved, p2) = followPatternLength (nc_pattern c) before p1
                  in (True, c\<lparr>nc_resized := moved\<rparr>, p2))"

definition restore_lengths :: "(clip_id \<times> ticks) list \<Rightarrow> project \<Rightarrow> project" where
  "restore_lengths ls p =
     fold (\<lambda>(i, len) p. snd (updateClip i FLength (\<lambda>c. c\<lparr>clip_length := len\<rparr>) p)) ls p"

definition Note_revert :: "NoteCommand \<Rightarrow> project \<Rightarrow> bool \<times> NoteCommand \<times> project" where
  "Note_revert c p =
     (let (ok, p1) = editSequence (nc_pattern c) (nc_instrument c) (nc_added c) (nc_removed c) p
      in if \<not> ok then (False, c, p1)
         else (True, c\<lparr>nc_resized := []\<rparr>, restore_lengths (nc_resized c) p1))"

definition Note_coalesce :: "NoteCommand \<Rightarrow> NoteCommand \<Rightarrow> NoteCommand option" where
  "Note_coalesce c d =
     (if \<not> nc_coalescable c \<or> \<not> nc_coalescable d \<or> nc_pattern d \<noteq> nc_pattern c \<or>
         nc_instrument d \<noteq> nc_instrument c \<or> nc_added c \<noteq> nc_removed d then None
      else Some (c\<lparr>nc_added := nc_added d,
        nc_resized := fold (\<lambda>e held. if \<exists>h \<in> set held. fst h = fst e then held else held @ [e])
          (nc_resized d) (nc_resized c)\<rparr>))"

subsection \<open>Transport and project details\<close>

record TransportCommand =
  tc_before :: TransportState
  tc_after :: TransportState
  tc_original_lengths :: "(clip_id \<times> ticks) list"

definition rescaled_length :: "fp \<Rightarrow> ticks \<Rightarrow> ticks" where
  "rescaled_length ratio len = max 1 (llround (dmul (dofint len) ratio))"

definition audio_lengths :: "('a Tables_scheme) \<Rightarrow> (clip_id \<times> ticks) list" where
  "audio_lengths p = map (\<lambda>(i, c). (i, clip_length c))
     (filter (\<lambda>(i, c). clip_audio c \<noteq> None \<and> clip_length c > 0) (om_entries (clips p)))"

definition rescaleAudioClips :: "TransportCommand \<Rightarrow> project \<Rightarrow> TransportCommand \<times> project" where
  "rescaleAudioClips c p =
     (let from_tempo = tp_tempo (tc_before c); to_tempo = tp_tempo (tc_after c);
          c0 = c\<lparr>tc_original_lengths := []\<rparr> in
      if fp_le from_tempo (Fin 0) \<or> fp_le to_tempo (Fin 0) \<or> fp_eq from_tempo to_tempo then (c0, p)
      else let ratio = ddiv to_tempo from_tempo;
               originals = audio_lengths p;
               resized = List.map_filter (\<lambda>(i, len). let scaled = rescaled_length ratio len in
                 if scaled = len then None else Some (i, scaled)) originals
           in (c0\<lparr>tc_original_lengths := originals\<rparr>, restore_lengths resized p))"

definition Transport_apply :: "TransportCommand \<Rightarrow> project \<Rightarrow> bool \<times> TransportCommand \<times> project" where
  "Transport_apply c p =
     (let (c', p') = rescaleAudioClips c (setTransport (tc_after c) p) in (True, c', p'))"

definition Transport_revert :: "TransportCommand \<Rightarrow> project \<Rightarrow> bool \<times> TransportCommand \<times> project" where
  "Transport_revert c p =
     (True, c\<lparr>tc_original_lengths := []\<rparr>,
      restore_lengths (tc_original_lengths c) (setTransport (tc_before c) p))"

definition Transport_coalesce :: "TransportCommand \<Rightarrow> TransportCommand \<Rightarrow> TransportCommand option" where
  "Transport_coalesce c d = Some (c\<lparr>tc_after := tc_after d\<rparr>)"

record MetaCommand =
  mc_before :: ProjectMeta
  mc_after :: ProjectMeta

definition Meta_apply :: "MetaCommand \<Rightarrow> project \<Rightarrow> bool \<times> project" where
  "Meta_apply c p = (True, setMeta (mc_after c) p)"

definition Meta_revert :: "MetaCommand \<Rightarrow> project \<Rightarrow> bool \<times> project" where
  "Meta_revert c p = (True, setMeta (mc_before c) p)"

subsection \<open>Effect parameters\<close>

fun indexOfEffect :: "EffectSlot list \<Rightarrow> effect_id \<Rightarrow> nat option" where
  "indexOfEffect [] e = None"
| "indexOfEffect (s # ss) e = (if slot_id s = e then Some 0 else map_option Suc (indexOfEffect ss e))"

record EffectParamCommand =
  ep_track :: track_id
  ep_effect :: effect_id
  ep_parameter :: param_id
  ep_before :: "fp option"
  ep_after :: fp
  ep_name :: string

definition write_param :: "effect_id \<Rightarrow> param_id \<Rightarrow> fp option \<Rightarrow> MixerTrack \<Rightarrow> MixerTrack" where
  "write_param e param value live =
     (case indexOfEffect (track_effects live) e of
        None \<Rightarrow> live
      | Some k \<Rightarrow>
          let slot = track_effects live ! k;
              params = (case value of
                          Some v \<Rightarrow> om_insert param v (slot_params slot)
                        | None \<Rightarrow> om_erase param (slot_params slot))
          in live\<lparr>track_effects := (track_effects live)[k := slot\<lparr>slot_params := params\<rparr>]\<rparr>)"

definition EffectParam_write :: "EffectParamCommand \<Rightarrow> fp option \<Rightarrow> project \<Rightarrow> bool \<times> project" where
  "EffectParam_write c value p =
     updateMixerTrack (ep_track c) FEffectParam (write_param (ep_effect c) (ep_parameter c) value) p"

definition EffectParam_coalesce :: "EffectParamCommand \<Rightarrow> EffectParamCommand \<Rightarrow> EffectParamCommand option" where
  "EffectParam_coalesce c d =
     (if ep_track d \<noteq> ep_track c \<or> ep_effect d \<noteq> ep_effect c \<or> ep_parameter d \<noteq> ep_parameter c
      then None else Some (c\<lparr>ep_after := ep_after d\<rparr>))"

subsection \<open>Commands\<close>

datatype command =
    AddInstrumentC "Instrument AddCommand"
  | AddPatternC "Pattern AddCommand"
  | AddLaneC "ArrangementLane AddCommand"
  | AddClipC "Clip AddCommand"
  | AddMixerTrackC "MixerTrack AddCommand"
  | RemoveInstrumentC RemoveInstrumentCommand
  | RemovePatternC RemovePatternCommand
  | RemoveLaneC RemoveLaneCommand
  | RemoveClipC RemoveClipCommand
  | RemoveMixerTrackC RemoveMixerTrackCommand
  | EditInstrumentC "(instrument_id, Instrument) EditCommand"
  | EditPatternC "(pattern_id, PatternMeta) EditCommand"
  | EditLaneC "(lane_id, ArrangementLane) EditCommand"
  | EditClipC "(clip_id, Clip) EditCommand"
  | EditMixerTrackC "(track_id, MixerTrack) EditCommand"
  | NoteC NoteCommand
  | TransportC TransportCommand
  | MetaC MetaCommand
  | EffectParamC EffectParamCommand
  | CompositeC string "command list"

text \<open>A class whose call leaves its own members alone.\<close>

definition keeping :: "command \<Rightarrow> bool \<times> project \<Rightarrow> bool \<times> command \<times> project" where
  "keeping c r = (fst r, c, snd r)"

definition holding :: "('c \<Rightarrow> command) \<Rightarrow> bool \<times> 'c \<times> project \<Rightarrow> bool \<times> command \<times> project" where
  "holding con r = (fst r, con (fst (snd r)), snd (snd r))"

fun revert_command :: "command \<Rightarrow> project \<Rightarrow> bool \<times> command \<times> project" where
  "revert_command (AddInstrumentC c) p = keeping (AddInstrumentC c) (AddInstrument_revert c p)"
| "revert_command (AddPatternC c) p = keeping (AddPatternC c) (AddPattern_revert c p)"
| "revert_command (AddLaneC c) p = keeping (AddLaneC c) (AddLane_revert c p)"
| "revert_command (AddClipC c) p = keeping (AddClipC c) (AddClip_revert c p)"
| "revert_command (AddMixerTrackC c) p = keeping (AddMixerTrackC c) (AddMixerTrack_revert c p)"
| "revert_command (RemoveInstrumentC c) p = keeping (RemoveInstrumentC c) (RemoveInstrument_revert c p)"
| "revert_command (RemovePatternC c) p = keeping (RemovePatternC c) (RemovePattern_revert c p)"
| "revert_command (RemoveLaneC c) p = keeping (RemoveLaneC c) (RemoveLane_revert c p)"
| "revert_command (RemoveClipC c) p = keeping (RemoveClipC c) (RemoveClip_revert c p)"
| "revert_command (RemoveMixerTrackC c) p = keeping (RemoveMixerTrackC c) (RemoveMixerTrack_revert c p)"
| "revert_command (EditInstrumentC c) p = keeping (EditInstrumentC c) (Edit_revert InstrumentTraits_write c p)"
| "revert_command (EditPatternC c) p = keeping (EditPatternC c) (Edit_revert PatternMetaTraits_write c p)"
| "revert_command (EditLaneC c) p = keeping (EditLaneC c) (Edit_revert LaneTraits_write c p)"
| "revert_command (EditClipC c) p = keeping (EditClipC c) (Edit_revert ClipTraits_write c p)"
| "revert_command (EditMixerTrackC c) p = keeping (EditMixerTrackC c) (Edit_revert MixerTrackTraits_write c p)"
| "revert_command (NoteC c) p = holding NoteC (Note_revert c p)"
| "revert_command (TransportC c) p = holding TransportC (Transport_revert c p)"
| "revert_command (MetaC c) p = keeping (MetaC c) (Meta_revert c p)"
| "revert_command (EffectParamC c) p = keeping (EffectParamC c) (EffectParam_write c (ep_before c) p)"
| "revert_command (CompositeC n cs) p =
     (let (ok, cs', p') = revert_all revert_command (rev cs) p in (ok, CompositeC n (rev cs'), p'))"

fun apply_command :: "command \<Rightarrow> project \<Rightarrow> bool \<times> command \<times> project" where
  "apply_command (AddInstrumentC c) p = keeping (AddInstrumentC c) (AddInstrument_apply c p)"
| "apply_command (AddPatternC c) p = keeping (AddPatternC c) (AddPattern_apply c p)"
| "apply_command (AddLaneC c) p = keeping (AddLaneC c) (AddLane_apply c p)"
| "apply_command (AddClipC c) p = keeping (AddClipC c) (AddClip_apply c p)"
| "apply_command (AddMixerTrackC c) p = keeping (AddMixerTrackC c) (AddMixerTrack_apply c p)"
| "apply_command (RemoveInstrumentC c) p = holding RemoveInstrumentC (RemoveInstrument_apply c p)"
| "apply_command (RemovePatternC c) p = holding RemovePatternC (RemovePattern_apply c p)"
| "apply_command (RemoveLaneC c) p = holding RemoveLaneC (RemoveLane_apply c p)"
| "apply_command (RemoveClipC c) p = holding RemoveClipC (RemoveClip_apply c p)"
| "apply_command (RemoveMixerTrackC c) p = holding RemoveMixerTrackC (RemoveMixerTrack_apply c p)"
| "apply_command (EditInstrumentC c) p = keeping (EditInstrumentC c) (Edit_apply InstrumentTraits_write c p)"
| "apply_command (EditPatternC c) p = keeping (EditPatternC c) (Edit_apply PatternMetaTraits_write c p)"
| "apply_command (EditLaneC c) p = keeping (EditLaneC c) (Edit_apply LaneTraits_write c p)"
| "apply_command (EditClipC c) p = keeping (EditClipC c) (Edit_apply ClipTraits_write c p)"
| "apply_command (EditMixerTrackC c) p = keeping (EditMixerTrackC c) (Edit_apply MixerTrackTraits_write c p)"
| "apply_command (NoteC c) p = holding NoteC (Note_apply c p)"
| "apply_command (TransportC c) p = holding TransportC (Transport_apply c p)"
| "apply_command (MetaC c) p = keeping (MetaC c) (Meta_apply c p)"
| "apply_command (EffectParamC c) p = keeping (EffectParamC c) (EffectParam_write c (Some (ep_after c)) p)"
| "apply_command (CompositeC n cs) p =
     (let (ok, cs', p') = run_all apply_command revert_command [] cs p in (ok, CompositeC n cs', p'))"

fun command_name :: "command \<Rightarrow> string" where
  "command_name (AddInstrumentC c) = add_name c"
| "command_name (AddPatternC c) = add_name c"
| "command_name (AddLaneC c) = add_name c"
| "command_name (AddClipC c) = add_name c"
| "command_name (AddMixerTrackC c) = add_name c"
| "command_name (RemoveInstrumentC c) = ''Delete instrument''"
| "command_name (RemovePatternC c) = ''Delete pattern''"
| "command_name (RemoveLaneC c) = ''Delete lane''"
| "command_name (RemoveClipC c) = ''Delete clip''"
| "command_name (RemoveMixerTrackC c) = ''Delete mixer track''"
| "command_name (EditInstrumentC c) = ed_name c"
| "command_name (EditPatternC c) = ed_name c"
| "command_name (EditLaneC c) = ed_name c"
| "command_name (EditClipC c) = ed_name c"
| "command_name (EditMixerTrackC c) = ed_name c"
| "command_name (NoteC c) = nc_name c"
| "command_name (TransportC c) = ''Change transport''"
| "command_name (MetaC c) = ''Change project details''"
| "command_name (EffectParamC c) = ep_name c"
| "command_name (CompositeC n cs) = n"

text \<open>The dynamic cast succeeds on a command of the same class only.\<close>

definition coalesceWith :: "command \<Rightarrow> command \<Rightarrow> command option" where
  "coalesceWith self next =
     (case self of
        EditInstrumentC c \<Rightarrow> (case next of EditInstrumentC d \<Rightarrow> map_option EditInstrumentC (Edit_coalesce c d) | _ \<Rightarrow> None)
      | EditPatternC c \<Rightarrow> (case next of EditPatternC d \<Rightarrow> map_option EditPatternC (Edit_coalesce c d) | _ \<Rightarrow> None)
      | EditLaneC c \<Rightarrow> (case next of EditLaneC d \<Rightarrow> map_option EditLaneC (Edit_coalesce c d) | _ \<Rightarrow> None)
      | EditClipC c \<Rightarrow> (case next of EditClipC d \<Rightarrow> map_option EditClipC (Edit_coalesce c d) | _ \<Rightarrow> None)
      | EditMixerTrackC c \<Rightarrow> (case next of EditMixerTrackC d \<Rightarrow> map_option EditMixerTrackC (Edit_coalesce c d) | _ \<Rightarrow> None)
      | NoteC c \<Rightarrow> (case next of NoteC d \<Rightarrow> map_option NoteC (Note_coalesce c d) | _ \<Rightarrow> None)
      | TransportC c \<Rightarrow> (case next of TransportC d \<Rightarrow> map_option TransportC (Transport_coalesce c d) | _ \<Rightarrow> None)
      | EffectParamC c \<Rightarrow> (case next of EffectParamC d \<Rightarrow> map_option EffectParamC (EffectParam_coalesce c d) | _ \<Rightarrow> None)
      | _ \<Rightarrow> None)"

end
