(* ===== verification/Commands_Undo.thy ===== *)
theory Commands_Undo
  imports Commands
begin

text \<open>
  Every command honours the contract of \<open>Reversible\<close> on the tables of the project: undoing
  an applied command restores the tables exactly, redoing it gives the same tables again, and
  a command that fails leaves them alone.  \<open>command_ready\<close> is what a command may assume when
  it is applied: the invariant of the project where it relies on it, and for an edit that
  the state it recorded as "before" is the state it finds.
\<close>

subsection \<open>Operations seen through the tables\<close>

definition tables_only :: "(project \<Rightarrow> bool \<times> project) \<Rightarrow> bool" where
  "tables_only f \<longleftrightarrow> (\<forall>p q. copyTables p = copyTables q \<longrightarrow>
     fst (f p) = fst (f q) \<and> copyTables (snd (f p)) = copyTables (snd (f q)))"

lemma tables_onlyD:
  "tables_only f \<Longrightarrow> copyTables p = copyTables q \<Longrightarrow>
   fst (f p) = fst (f q) \<and> copyTables (snd (f p)) = copyTables (snd (f q))"
  unfolding tables_only_def by blast

lemma tables_only_fold:
  assumes "\<And>k. tables_only (f k)" and "copyTables p = copyTables q"
  shows "copyTables (fold (\<lambda>k p. snd (f k p)) ks p) = copyTables (fold (\<lambda>k p. snd (f k p)) ks q)"
  using assms(2)
proof (induction ks arbitrary: p q)
  case (Cons k ks)
  from tables_onlyD [OF assms(1) Cons.prems] Cons.IH [of "snd (f k p)" "snd (f k q)"]
  show ?case by simp
qed simp

named_theorems tables_only_rules "operations whose effect on the tables depends on the tables only"

lemma tables_only_delete [tables_only_rules]:
  "tables_only (deleteInstrument i)" "tables_only (deletePattern j)" "tables_only (deleteLane k)"
  "tables_only (deleteClip c)" "tables_only (deleteMixerTrack t)"
proof -
  show "tables_only (deleteInstrument i)"
    unfolding tables_only_def
  proof (intro allI impI)
    fix p q :: project
    assume e: "copyTables p = copyTables q"
    then have "instruments p = instruments q" by (simp add: copyTables_eq_iff)
    with e show "fst (deleteInstrument i p) = fst (deleteInstrument i q) \<and>
        copyTables (snd (deleteInstrument i p)) = copyTables (snd (deleteInstrument i q))"
      using deleteInstrument_refines [of p i] deleteInstrument_refines [of q i]
        delete_absent(1) [of p i] delete_absent(1) [of q i]
      by (cases "om_find (instruments p) i") auto
  qed
  show "tables_only (deletePattern j)"
    unfolding tables_only_def
  proof (intro allI impI)
    fix p q :: project
    assume e: "copyTables p = copyTables q"
    then have "patterns p = patterns q" by (simp add: copyTables_eq_iff)
    with e show "fst (deletePattern j p) = fst (deletePattern j q) \<and>
        copyTables (snd (deletePattern j p)) = copyTables (snd (deletePattern j q))"
      using deletePattern_refines [of p j] deletePattern_refines [of q j]
        delete_absent(2) [of p j] delete_absent(2) [of q j]
      by (cases "om_find (patterns p) j") auto
  qed
  show "tables_only (deleteLane k)"
    unfolding tables_only_def
  proof (intro allI impI)
    fix p q :: project
    assume e: "copyTables p = copyTables q"
    then have "lanes p = lanes q" by (simp add: copyTables_eq_iff)
    with e show "fst (deleteLane k p) = fst (deleteLane k q) \<and>
        copyTables (snd (deleteLane k p)) = copyTables (snd (deleteLane k q))"
      using deleteLane_refines [of p k] deleteLane_refines [of q k]
        delete_absent(3) [of p k] delete_absent(3) [of q k]
      by (cases "om_find (lanes p) k") auto
  qed
  show "tables_only (deleteClip c)"
    unfolding tables_only_def
  proof (intro allI impI)
    fix p q :: project
    assume e: "copyTables p = copyTables q"
    then have "clips p = clips q" by (simp add: copyTables_eq_iff)
    with e show "fst (deleteClip c p) = fst (deleteClip c q) \<and>
        copyTables (snd (deleteClip c p)) = copyTables (snd (deleteClip c q))"
      by (simp add: deleteClip_tables deleteClip_fst)
  qed
  show "tables_only (deleteMixerTrack t)"
    unfolding tables_only_def
  proof (intro allI impI)
    fix p q :: project
    assume e: "copyTables p = copyTables q"
    then have "mixer_tracks p = mixer_tracks q" "master p = master q" by (simp_all add: copyTables_eq_iff)
    with e show "fst (deleteMixerTrack t p) = fst (deleteMixerTrack t q) \<and>
        copyTables (snd (deleteMixerTrack t p)) = copyTables (snd (deleteMixerTrack t q))"
      using deleteMixerTrack_refines [of t p] deleteMixerTrack_refines [of t q]
        delete_absent(5) [of t p] delete_absent(5) [of t q]
      by (cases "t = master p"; cases "om_find (mixer_tracks p) t") auto
  qed
qed

lemma tables_only_restore [tables_only_rules]:
  "tables_only (restoreInstrument a)" "tables_only (restorePattern b)" "tables_only (restoreLane c)"
  "tables_only (restoreClip d)" "tables_only (restoreMixerTrack e)" "tables_only (restoreSequence pid i s)"
  by (auto simp: tables_only_def copyTables_eq_iff restoreInstrument_def restorePattern_def
      restoreLane_def restoreClip_def restoreMixerTrack_def restoreSequence_def Let_def
      split: option.split)

lemma tables_only_update [tables_only_rules]:
  "tables_only (updateInstrument i f g1)" "tables_only (updatePattern j f g2)" "tables_only (updateLane k f g3)"
  "tables_only (updateClip c f g4)" "tables_only (updateMixerTrack t f g5)"
  by (auto simp: tables_only_def update_tables update_fst) (auto simp: copyTables_eq_iff)

lemma impact_cong:
  "copyTables p = copyTables q \<Longrightarrow> instrumentImpact p i = instrumentImpact q i"
  "copyTables p = copyTables q \<Longrightarrow> mixerTrackImpact p t = mixerTrackImpact q t"
  "copyTables p = copyTables q \<Longrightarrow> clip_ids_where P p = clip_ids_where P q"
  "copyTables p = copyTables q \<Longrightarrow> clipsUsingPattern p j = clipsUsingPattern q j"
  "copyTables p = copyTables q \<Longrightarrow> clipsOnLane p k = clipsOnLane q k"
  by (simp_all add: instrumentImpact_def mixerTrackImpact_def clip_ids_where_def clipsUsingPattern_def
      clipsOnLane_def findInstrument_def copyTables_eq_iff Let_def)

lemma findClip_cong: "copyTables p = copyTables q \<Longrightarrow> findClip p = findClip q"
  by (rule ext) (simp add: findClip_def copyTables_eq_iff)

lemma captured_cong: "copyTables p = copyTables q \<Longrightarrow> captured_clips p ids = captured_clips q ids"
  unfolding captured_clips_def by (drule findClip_cong) (erule arg_cong)

subsection \<open>Putting clips back\<close>

lemma in_map_filter: "x \<in> set (List.map_filter f xs) \<longleftrightarrow> (\<exists>i \<in> set xs. f i = Some x)"
  by (induction xs) (auto simp: map_filter_simps split: option.splits)

lemma captured_clips_set:
  "set (captured_clips p ids) = {c. \<exists>i \<in> set ids. om_find (clips p) i = Some c}"
  by (simp add: captured_clips_def set_eq_iff in_map_filter findClip_def)

lemma restore_clips_tables:
  assumes "distinct (map clip_id cs)"
    and "\<forall>c \<in> set cs. valid_id (clip_id c) \<and> om_find (clips p) (clip_id c) = None"
  shows "copyTables (restore_clips cs p) =
    (copyTables p)\<lparr>clips := fold (\<lambda>c. om_insert (clip_id c) c) cs (clips p)\<rparr>"
  using assms
proof (induction cs arbitrary: p)
  case (Cons c cs)
  have c: "valid_id (clip_id c)" "om_find (clips p) (clip_id c) = None" using Cons.prems by simp_all
  note t = restoreClip_tables [OF c, THEN conjunct2]
  have "clips (snd (restoreClip c p)) = om_insert (clip_id c) c (clips p)"
    using tables_frame(4) [OF t] by simp
  moreover have "clip_id c \<notin> clip_id ` set cs" using Cons.prems(1) by simp
  then have "\<forall>d \<in> set cs. clip_id d \<noteq> clip_id c" by (metis imageI)
  ultimately show ?case
    using Cons.IH [of "snd (restoreClip c p)"] Cons.prems t by (simp add: restore_clips_def)
qed (simp add: restore_clips_def)

lemma captured_distinct:
  assumes "keyed p" and "distinct ids"
  shows "distinct (map clip_id (captured_clips p ids))"
  using assms(2)
proof (induction ids)
  case (Cons i ids)
  have "clip_id c = j" if "om_find (clips p) j = Some c" for j c
    using assms(1) that by (simp add: keyed_def)
  then have "clip_id ` set (captured_clips p ids) \<subseteq> set ids"
    by (auto simp: captured_clips_set)
  moreover have "clip_id c = i" if "findClip p i = Some c" for c
    using assms(1) that by (simp add: keyed_def findClip_def)
  ultimately show ?case
    using Cons by (auto simp: captured_clips_def map_filter_simps split: option.split)
qed (simp add: captured_clips_def map_filter_simps)

text \<open>
  From a table in which exactly the clips \<open>ids\<close> are missing, restoring the captured ones gives
  the table they were captured from.
\<close>

lemma restore_captured:
  assumes p: "keyed p" "distinct ids"
    and gone: "\<And>j. om_find (clips q) j = (if j \<in> set ids then None else om_find (clips p) j)"
  shows "copyTables (restore_clips (captured_clips p ids) q) = (copyTables q)\<lparr>clips := clips p\<rparr>"
proof -
  let ?cs = "captured_clips p ids"
  have key: "clip_id c = i" "valid_id i" if "om_find (clips p) i = Some c" for i c
    using p(1) that by (simp_all add: keyed_def)
  have agree: "\<forall>c \<in> set ?cs. om_find (clips p) (clip_id c) = Some c \<and> clip_id c \<in> set ids"
    using key by (auto simp: captured_clips_set)
  then have "copyTables (restore_clips ?cs q) =
      (copyTables q)\<lparr>clips := fold (\<lambda>c. om_insert (clip_id c) c) ?cs (clips q)\<rparr>"
    using key gone by (intro restore_clips_tables captured_distinct p) auto
  moreover have "fold (\<lambda>c. om_insert (clip_id c) c) ?cs (clips q) = clips p"
  proof (rule om_eqI)
    fix j
    have "j \<in> clip_id ` set ?cs" if "om_find (clips p) j = Some c" "j \<in> set ids" for c
    proof -
      have "c \<in> set ?cs" using that by (auto simp: captured_clips_set)
      then show ?thesis using key(1) [OF that(1)] by (metis imageI)
    qed
    moreover have "om_find (fold (\<lambda>c. om_insert (clip_id c) c) ?cs (clips q)) j =
        (if j \<in> clip_id ` set ?cs then om_find (clips p) j else om_find (clips q) j)"
      using agree by (intro om_find_fold_insert_agree) simp
    ultimately show "om_find (fold (\<lambda>c. om_insert (clip_id c) c) ?cs (clips q)) j = om_find (clips p) j"
      using gone [of j] by (cases "om_find (clips p) j") auto
  qed
  ultimately show ?thesis by simp
qed

subsection \<open>Undoing a deletion\<close>

lemma fold_restoreSequence_tables:
  "om_find (instruments p) i \<noteq> None \<Longrightarrow>
   copyTables (fold (\<lambda>(pid, s) p. snd (restoreSequence pid i s p)) es p) = (copyTables p)\<lparr>patterns :=
     fold (\<lambda>(k, s). om_update k (set_sequence i s)) es (patterns p)\<rparr>"
proof (induction es arbitrary: p)
  case (Cons e es)
  obtain k s where e: "e = (k, s)" by fastforce
  let ?q = "snd (restoreSequence k i s p)"
  note t = restoreSequence_tables [OF Cons.prems, of k s]
  have "instruments ?q = instruments p" "patterns ?q = om_update k (set_sequence i s) (patterns p)"
    using tables_frame [OF t] by simp_all
  then show ?case using Cons.IH [of ?q] Cons.prems e by (simp add: t)
qed simp

lemma set_sequence_back:
  assumes "om_find (pat_sequences pat) i = Some s" and "s \<noteq> []"
  shows "set_sequence i s (pat\<lparr>pat_sequences := om_erase i (pat_sequences pat)\<rparr>) = pat"
  using assms by (simp add: set_sequence_def om_insert_erase)

lemma RemoveInstrument_undo:
  assumes ok: "project_ok p" and a: "RemoveInstrument_apply c p = (True, c', p')"
  shows "\<exists>p''. RemoveInstrument_revert c' p' = (True, p'') \<and> copyTables p'' = copyTables p"
proof -
  let ?i = "ri_id c"
  obtain inst where inst: "om_find (instruments p) ?i = Some inst"
    using a by (auto simp: RemoveInstrument_apply_def findInstrument_def split: option.splits)
  have keyed: "keyed p" and pats: "patterns_ok p" using project_ok_parts [OF ok] by simp_all
  then have k: "inst_id inst = ?i" "valid_id ?i" using inst by (auto simp: keyed_def)
  let ?ids = "ii_clips (instrumentImpact p ?i)"
  let ?es = "om_collect (\<lambda>_ pat. om_find (pat_sequences pat) ?i) (patterns p)"
  have c': "ri_id c' = ?i" "ri_instrument c' = inst" "ri_sequences c' = ?es"
      "ri_clips c' = captured_clips p ?ids" and p': "p' = snd (deleteInstrument ?i p)"
    using a inst by (auto simp: RemoveInstrument_apply_def findInstrument_def Let_def split_beta)
  have t: "copyTables p' = spec_deleteInstrument ?i (copyTables p)"
    using deleteInstrument_refines [of p ?i] inst p' by simp
  then have f: "instruments p' = om_erase ?i (instruments p)"
    "patterns p' = om_map (\<lambda>_ pat. pat\<lparr>pat_sequences := om_erase ?i (pat_sequences pat)\<rparr>) (patterns p)"
    "clips p' = om_filter (\<lambda>_ c. \<not> targets_instrument ?i c) (clips p)"
    using tables_frame [OF t] by (simp_all add: spec_deleteInstrument_def)
  let ?p1 = "snd (restoreInstrument inst p')"
  have r1: "fst (restoreInstrument inst p') \<and> copyTables ?p1 = (copyTables p')\<lparr>instruments := instruments p\<rparr>"
    using restoreInstrument_tables [of inst p'] k f inst by (simp add: om_insert_erase)
  have f1: "instruments ?p1 = instruments p" "patterns ?p1 = patterns p'" "clips ?p1 = clips p'"
    using tables_frame [OF r1 [THEN conjunct2]] by simp_all
  let ?p2 = "fold (\<lambda>(pid, s) p. snd (restoreSequence pid ?i s p)) (om_entries ?es) ?p1"
  have "fold (\<lambda>(k, s). om_update k (set_sequence ?i s)) (om_entries ?es) (patterns p') = patterns p"
  proof (rule om_eqI)
    fix j
    show "om_find (fold (\<lambda>(k, s). om_update k (set_sequence ?i s)) (om_entries ?es) (patterns p')) j =
        om_find (patterns p) j"
    proof (cases "om_find (patterns p) j")
      case (Some pat)
      then have "s \<noteq> []" if "om_find (pat_sequences pat) ?i = Some s" for s
        using pats that by (auto simp: patterns_ok_def sequence_ok_def)
      with Some show ?thesis
        by (auto simp: om_find_fold_update_entries f(2) set_sequence_back om_erase_none
            simp del: om_entries_collect split: option.split)
    qed (simp add: om_find_fold_update_entries f(2) del: om_entries_collect split: option.split)
  qed
  then have t2: "copyTables ?p2 = (copyTables ?p1)\<lparr>patterns := patterns p\<rparr>"
    using fold_restoreSequence_tables [of ?p1 ?i "om_entries ?es"] f1 inst
    by (simp del: om_entries_collect)
  have "clips ?p2 = clips p'" using tables_frame(4) [OF t2] f1 by simp
  then have "copyTables (restore_clips (captured_clips p ?ids) ?p2) = (copyTables ?p2)\<lparr>clips := clips p\<rparr>"
    by (intro restore_captured keyed)
       (auto simp: f(3) instrumentImpact_def Let_def split: option.split)
  also have "\<dots> = copyTables p"
    using t2 r1 t by (simp add: copyTables_def spec_deleteInstrument_def)
  finally show ?thesis
    using r1 c' by (simp add: RemoveInstrument_revert_def Let_def split_beta del: om_entries_collect)
qed

lemma RemovePattern_undo:
  assumes ok: "project_ok p" and a: "RemovePattern_apply c p = (True, c', p')"
  shows "\<exists>p''. RemovePattern_revert c' p' = (True, p'') \<and> copyTables p'' = copyTables p"
proof -
  let ?i = "rp_id c"
  obtain pat where pat: "om_find (patterns p) ?i = Some pat"
    using a by (auto simp: RemovePattern_apply_def findPattern_def split: option.splits)
  have keyed: "keyed p" using project_ok_parts [OF ok] by simp
  then have k: "pat_id pat = ?i" "valid_id ?i" using pat by (auto simp: keyed_def)
  let ?ids = "clipsUsingPattern p ?i"
  have c': "rp_pattern c' = pat" "rp_clips c' = captured_clips p ?ids"
    and p': "p' = snd (deletePattern ?i p)"
    using a pat by (auto simp: RemovePattern_apply_def findPattern_def Let_def split_beta)
  have t: "copyTables p' = spec_deletePattern ?i (copyTables p)"
    using deletePattern_refines [of p ?i] pat p' by simp
  then have f: "patterns p' = om_erase ?i (patterns p)"
    "clips p' = om_filter (\<lambda>_ c. clip_pattern c \<noteq> Some ?i) (clips p)"
    using tables_frame [OF t] by (simp_all add: spec_deletePattern_def)
  let ?p1 = "snd (restorePattern pat p')"
  have r1: "fst (restorePattern pat p') \<and> copyTables ?p1 = (copyTables p')\<lparr>patterns := patterns p\<rparr>"
    using restorePattern_tables [of pat p'] k f pat by (simp add: om_insert_erase)
  have "clips ?p1 = clips p'" using tables_frame [OF r1 [THEN conjunct2]] by simp
  then have "copyTables (restore_clips (captured_clips p ?ids) ?p1) = (copyTables ?p1)\<lparr>clips := clips p\<rparr>"
    by (intro restore_captured keyed) (auto simp: f(2) clipsUsingPattern_def split: option.split)
  also have "\<dots> = copyTables p"
    using r1 t by (simp add: copyTables_def spec_deletePattern_def)
  finally show ?thesis
    using r1 c' by (simp add: RemovePattern_revert_def Let_def split_beta)
qed

lemma fold_update_lane_tables:
  "copyTables (fold (\<lambda>i p. snd (updateLane i f g p)) is p) =
     (copyTables p)\<lparr>lanes := fold (\<lambda>i. om_update i g) is (lanes p)\<rparr>"
proof (induction "is" arbitrary: p)
  case (Cons i "is")
  have "lanes (snd (updateLane i f g p)) = om_update i g (lanes p)"
    using tables_frame(3) [OF update_tables(3)] by simp
  then show ?case by (simp add: Cons update_tables)
qed simp

lemma RemoveLane_undo:
  assumes ok: "project_ok p" and a: "RemoveLane_apply c p = (True, c', p')"
  shows "\<exists>p''. RemoveLane_revert c' p' = (True, p'') \<and> copyTables p'' = copyTables p"
proof -
  let ?i = "rl_id c"
  obtain l where l: "om_find (lanes p) ?i = Some l"
    using a by (auto simp: RemoveLane_apply_def findLane_def split: option.splits)
  have keyed: "keyed p" using project_ok_parts [OF ok] by simp
  then have k: "lane_id l = ?i" "valid_id ?i" using l by (auto simp: keyed_def)
  have self: "lane_group_id l \<noteq> Some ?i"
    using project_ok_parts(3) [OF ok] l unfolding lanes_ok_def by blast
  let ?ids = "clipsOnLane p ?i"
  let ?gs = "map fst (filter (\<lambda>(i, other). lane_group_id other = Some ?i) (om_entries (lanes p)))"
  have c': "rl_id c' = ?i" "rl_lane c' = l" "rl_clips c' = captured_clips p ?ids" "rl_grouped c' = ?gs"
    and p': "p' = snd (deleteLane ?i p)"
    using a l by (auto simp: RemoveLane_apply_def findLane_def Let_def split_beta)
  have t: "copyTables p' = spec_deleteLane ?i (copyTables p)"
    using deleteLane_refines [of p ?i] l p' by simp
  then have f: "lanes p' = om_erase ?i (om_map (\<lambda>_. ungroup ?i) (lanes p))"
    "clips p' = om_filter (\<lambda>_ c. clip_lane c \<noteq> ?i) (clips p)"
    using tables_frame [OF t] by (simp_all add: spec_deleteLane_def)
  let ?p1 = "snd (restoreLane l p')"
  have r1: "fst (restoreLane l p') \<and> copyTables ?p1 = (copyTables p')\<lparr>lanes := om_insert ?i l (lanes p')\<rparr>"
    using restoreLane_tables [of l p'] k f by simp
  have f1: "lanes ?p1 = om_insert ?i l (lanes p')" "clips ?p1 = clips p'"
    using tables_frame [OF r1 [THEN conjunct2]] by simp_all
  let ?p2 = "fold (\<lambda>i p. snd (updateLane i FGroup (\<lambda>l. l\<lparr>lane_group_id := Some ?i\<rparr>) p)) ?gs ?p1"
  have d: "distinct ?gs" by (rule distinct_map_filter) simp
  have "fold (\<lambda>i. om_update i (\<lambda>l. l\<lparr>lane_group_id := Some ?i\<rparr>)) ?gs (lanes ?p1) = lanes p"
    using l self by (intro om_eqI)
      (auto simp: om_find_fold_update [OF d] f1 f(1) ungroup_def map_option_case image_iff Bex_def
        split: option.split)
  then have t2: "copyTables ?p2 = (copyTables ?p1)\<lparr>lanes := lanes p\<rparr>"
    by (simp add: fold_update_lane_tables)
  have "clips ?p2 = clips p'" using tables_frame(4) [OF t2] f1 by simp
  then have "copyTables (restore_clips (captured_clips p ?ids) ?p2) = (copyTables ?p2)\<lparr>clips := clips p\<rparr>"
    by (intro restore_captured keyed) (auto simp: f(2) clipsOnLane_def split: option.split)
  also have "\<dots> = copyTables p"
    using t2 r1 t by (simp add: copyTables_def spec_deleteLane_def)
  finally show ?thesis
    using r1 c' by (simp add: RemoveLane_revert_def Let_def split_beta)
qed

lemma RemoveClip_undo:
  assumes ok: "project_ok p" and a: "RemoveClip_apply c p = (True, c', p')"
  shows "\<exists>p''. RemoveClip_revert c' p' = (True, p'') \<and> copyTables p'' = copyTables p"
proof -
  obtain cl where cl: "om_find (clips p) (rc_id c) = Some cl"
    using a by (auto simp: RemoveClip_apply_def findClip_def split: option.splits)
  have k: "clip_id cl = rc_id c" "valid_id (rc_id c)"
    using cl project_ok_parts(6) [OF ok] by (auto simp: keyed_def)
  have c': "rc_clip c' = cl" and p': "p' = snd (deleteClip (rc_id c) p)"
    using a cl by (auto simp: RemoveClip_apply_def findClip_def split_beta)
  have t: "copyTables p' = (copyTables p)\<lparr>clips := om_erase (rc_id c) (clips p)\<rparr>"
    by (simp add: p' deleteClip_tables spec_deleteClip_def)
  then have "clips p' = om_erase (rc_id c) (clips p)" using tables_frame(4) [OF t] by simp
  with restoreClip_tables [of cl p'] k cl t c' show ?thesis
    by (cases "restoreClip cl p'") (simp add: RemoveClip_revert_def om_insert_erase)
qed

lemma filter_captured:
  "filter Q (captured_clips p ids) =
     captured_clips p (filter (\<lambda>i. \<exists>c. om_find (clips p) i = Some c \<and> Q c) ids)"
  by (induction ids) (auto simp: captured_clips_def map_filter_simps findClip_def split: option.split)

lemma fold_update_instrument_tables:
  "copyTables (fold (\<lambda>(i, x) p. snd (updateInstrument i f (g x) p)) es p) =
     (copyTables p)\<lparr>instruments := fold (\<lambda>(i, x). om_update i (g x)) es (instruments p)\<rparr>"
proof (induction es arbitrary: p)
  case (Cons e es)
  obtain i x where e: "e = (i, x)" by fastforce
  have "instruments (snd (updateInstrument i f (g x) p)) = om_update i (g x) (instruments p)"
    using tables_frame(1) [OF update_tables(1)] by simp
  then show ?case by (simp add: Cons update_tables e)
qed simp

lemma fold_update_track_tables:
  "copyTables (fold (\<lambda>i p. snd (updateMixerTrack i f g p)) is p) =
     (copyTables p)\<lparr>mixer_tracks := fold (\<lambda>i. om_update i g) is (mixer_tracks p)\<rparr>"
proof (induction "is" arbitrary: p)
  case (Cons i "is")
  have "mixer_tracks (snd (updateMixerTrack i f g p)) = om_update i g (mixer_tracks p)"
    using tables_frame(5) [OF update_tables(5)] by simp
  then show ?case by (simp add: Cons update_tables)
qed simp

lemma fold_update_clip_tables:
  "copyTables (fold (\<lambda>(i, x) p. snd (updateClip i f (g x) p)) es p) =
     (copyTables p)\<lparr>clips := fold (\<lambda>(i, x). om_update i (g x)) es (clips p)\<rparr>"
proof (induction es arbitrary: p)
  case (Cons e es)
  obtain i x where e: "e = (i, x)" by fastforce
  have "clips (snd (updateClip i f (g x) p)) = om_update i (g x) (clips p)"
    using tables_frame(4) [OF update_tables(4)] by simp
  then show ?case by (simp add: Cons update_tables e)
qed simp

lemma fold_pairs: "fold (\<lambda>c. h (k c) c) cs = fold (\<lambda>(i, x). h i x) (map (\<lambda>c. (k c, c)) cs)"
  by (induction cs) simp_all

lemma map_of_pairs:
  "distinct (map k cs) \<Longrightarrow> c \<in> set cs \<Longrightarrow> map_of (map (\<lambda>c. (k c, c)) cs) (k c) = Some c"
  by (induction cs) (auto simp: image_iff)

lemma map_of_pairs_None: "j \<notin> k ` set cs \<Longrightarrow> map_of (map (\<lambda>c. (k c, c)) cs) j = None"
  by (induction cs) auto

text \<open>The captured routings, as a map.\<close>

lemma routings_map_of:
  "distinct ids \<Longrightarrow> map_of (List.map_filter (\<lambda>i. map_option (\<lambda>e. (i, inst_routing e)) (om_find m i)) ids) j =
     (if j \<in> set ids then map_option inst_routing (om_find m j) else None)"
  by (induction ids) (auto simp: map_filter_simps split: option.split)

lemma routings_fst:
  "map fst (List.map_filter (\<lambda>i. map_option (\<lambda>e. (i, inst_routing e)) (om_find m i)) ids) =
     filter (\<lambda>i. om_find m i \<noteq> None) ids"
  by (induction ids) (auto simp: map_filter_simps split: option.split)

text \<open>The three re-pointing loops run backwards.\<close>

lemma routings_back:
  assumes "distinct ids"
    and "\<And>k e. om_find m k = Some e \<Longrightarrow> k \<in> set ids \<longleftrightarrow> (\<exists>r \<in> set (inst_routing e). route_track r = i)"
  shows "fold (\<lambda>(k, x). om_update k (\<lambda>e. e\<lparr>inst_routing := x\<rparr>))
    (List.map_filter (\<lambda>k. map_option (\<lambda>e. (k, inst_routing e)) (om_find m k)) ids)
    (om_map (\<lambda>_. rerouted i t) m) = m" (is "fold _ ?es _ = m")
proof (rule om_eqI)
  fix j
  have "distinct (map fst ?es)" using assms(1) by (simp add: routings_fst)
  then show "om_find (fold (\<lambda>(k, x). om_update k (\<lambda>e. e\<lparr>inst_routing := x\<rparr>)) ?es
      (om_map (\<lambda>_. rerouted i t) m)) j = om_find m j"
    using assms(2) [of j]
    by (cases "om_find m j")
       (auto simp: om_find_fold_update_entries routings_map_of [OF assms(1)] rerouted_def
          dest: rerouted_id [unfolded rerouted_def])
qed

lemma inputs_back:
  assumes "distinct ids" and "om_find m i = Some t" and "track_output t \<noteq> Some i"
    and "\<And>k e. om_find m k = Some e \<Longrightarrow> k \<in> set ids \<longleftrightarrow> track_output e = Some i"
  shows "fold (\<lambda>k. om_update k (\<lambda>e. e\<lparr>track_output := Some i\<rparr>)) ids
    (om_insert i t (om_erase i (om_map (\<lambda>_. reparented i r) m))) = m"
proof (rule om_eqI)
  fix j
  show "om_find (fold (\<lambda>k. om_update k (\<lambda>e. e\<lparr>track_output := Some i\<rparr>)) ids
      (om_insert i t (om_erase i (om_map (\<lambda>_. reparented i r) m)))) j = om_find m j"
    using assms(2,3) assms(4) [of j]
    by (cases "om_find m j") (auto simp: om_find_fold_update [OF assms(1)] reparented_def)
qed

lemma audio_clips_back:
  assumes "distinct (map clip_id cs)"
    and "\<And>j c. om_find m j = Some c \<Longrightarrow> clip_id c = j"
    and "\<And>c. c \<in> set cs \<longleftrightarrow> om_find m (clip_id c) = Some c \<and>
      (\<exists>a. clip_source c = SrcAudio a \<and> au_destination a = i)"
  shows "fold (\<lambda>cl. om_update (clip_id cl) (\<lambda>_. cl)) cs
    (om_map (\<lambda>_. redirected i t) (om_filter (\<lambda>_ c. \<not> automates_track i c) m)) =
    om_filter (\<lambda>_ c. \<not> automates_track i c) m"
proof (rule om_eqI)
  fix j
  let ?es = "map (\<lambda>c. (clip_id c, c)) cs"
  have d: "distinct (map fst ?es)" using assms(1) by (simp add: comp_def)
  have e: "fold (\<lambda>cl. om_update (clip_id cl) (\<lambda>_. cl)) cs = fold (\<lambda>(k, x). om_update k (\<lambda>_. x)) ?es"
    by (rule fold_pairs)
  show "om_find (fold (\<lambda>cl. om_update (clip_id cl) (\<lambda>_. cl)) cs
      (om_map (\<lambda>_. redirected i t) (om_filter (\<lambda>_ c. \<not> automates_track i c) m))) j =
      om_find (om_filter (\<lambda>_ c. \<not> automates_track i c) m) j"
  proof (cases "om_find m j")
    case None
    then show ?thesis
      unfolding e om_find_fold_update_entries [OF d] by (simp split: option.split)
  next
    case (Some c)
    have k: "clip_id c = j" using assms(2) Some .
    show ?thesis
    proof (cases "c \<in> set cs")
      case True
      then have "map_of ?es j = Some c" using map_of_pairs [OF assms(1)] k by blast
      with Some show ?thesis unfolding e om_find_fold_update_entries [OF d] by simp
    next
      case False
      then have "redirected i t c = c"
        using assms(3) [of c] Some k by (auto simp: redirected_def split: ClipSource.split)
      moreover have "j \<notin> clip_id ` set cs"
        using False assms(3) k Some by (metis imageE option.sel)
      then have "map_of ?es j = None" by (rule map_of_pairs_None)
      ultimately show ?thesis using Some unfolding e om_find_fold_update_entries [OF d] by simp
    qed
  qed
qed

lemma captured_hits:
  assumes "keyed p"
  shows "c \<in> set (captured_clips p (mi_clips (mixerTrackImpact p i))) \<longleftrightarrow>
    om_find (clips p) (clip_id c) = Some c \<and> clip_hits_track i c"
proof -
  have key: "clip_id c = j" if "om_find (clips p) j = Some c" for j
    using assms that unfolding keyed_def by blast
  have "c \<in> set (captured_clips p (mi_clips (mixerTrackImpact p i))) \<longleftrightarrow>
      (\<exists>j. om_find (clips p) j = Some c \<and> clip_hits_track i c)"
    by (auto simp: captured_clips_set mixerTrackImpact_def)
  with key show ?thesis by blast
qed

lemma RemoveMixerTrack_undo:
  assumes ok: "project_ok p" and a: "RemoveMixerTrack_apply c p = (True, c', p')"
  shows "\<exists>p''. RemoveMixerTrack_revert c' p' = (True, p'') \<and> copyTables p'' = copyTables p"
proof -
  let ?i = "rt_id c" and ?imp = "mixerTrackImpact p (rt_id c)"
  obtain t where t: "om_find (mixer_tracks p) ?i = Some t"
    using a by (auto simp: RemoveMixerTrack_apply_def findMixerTrack_def split: option.splits)
  have keyed: "keyed p" using project_ok_parts [OF ok] by simp
  then have k: "track_id t = ?i" "valid_id ?i" using t by (auto simp: keyed_def)
  have self: "track_output t \<noteq> Some ?i" by (rule no_self_output [OF ok t])
  let ?hit = "captured_clips p (mi_clips ?imp)"
  let ?rs = "List.map_filter (\<lambda>k. map_option (\<lambda>e. (k, inst_routing e)) (om_find (instruments p) k))
    (mi_instruments ?imp)"
  have c': "rt_id c' = ?i" "rt_track c' = t" "rt_routings c' = ?rs" "rt_inputs c' = mi_inputs ?imp"
      "rt_clips c' = filter (\<lambda>cl. clip_audio cl = None) ?hit"
      "rt_audio_clips c' = filter (\<lambda>cl. clip_audio cl \<noteq> None) ?hit"
    and p': "deleteMixerTrack ?i p = (True, p')"
    using a t by (auto simp: RemoveMixerTrack_apply_def findMixerTrack_def findInstrument_def Let_def split_beta
        prod_eq_iff)
  have nm: "?i \<noteq> master p" using p' by (auto simp: deleteMixerTrack_def)
  have sp: "copyTables p' = spec_deleteMixerTrack ?i (copyTables p)"
    using deleteMixerTrack_refines [OF nm] t p' by simp
  have f: "instruments p' = om_map (\<lambda>_. rerouted ?i (master p)) (instruments p)"
    "mixer_tracks p' = om_erase ?i (om_map (\<lambda>_. reparented ?i (master p)) (mixer_tracks p))"
    "clips p' = om_map (\<lambda>_. redirected ?i (master p)) (om_filter (\<lambda>_ c. \<not> automates_track ?i c) (clips p))"
    using tables_frame [OF sp] by (simp_all add: spec_deleteMixerTrack_def)
  let ?p1 = "snd (restoreMixerTrack t p')"
  have r1: "fst (restoreMixerTrack t p') \<and>
      copyTables ?p1 = (copyTables p')\<lparr>mixer_tracks := om_insert ?i t (mixer_tracks p')\<rparr>"
    using restoreMixerTrack_tables [of t p'] k f by simp
  have f1: "instruments ?p1 = instruments p'" "mixer_tracks ?p1 = om_insert ?i t (mixer_tracks p')"
    "clips ?p1 = clips p'"
    using tables_frame [OF r1 [THEN conjunct2]] by simp_all
  let ?p2 = "fold (\<lambda>(i, x) p. snd (updateInstrument i FRouting (\<lambda>e. e\<lparr>inst_routing := x\<rparr>) p)) ?rs ?p1"
  have "fold (\<lambda>(i, x). om_update i (\<lambda>e. e\<lparr>inst_routing := x\<rparr>)) ?rs (instruments ?p1) = instruments p"
    unfolding f1 f
    by (rule routings_back) (auto simp: mixerTrackImpact_def distinct_map_filter image_iff Bex_def)
  then have t2: "copyTables ?p2 = (copyTables ?p1)\<lparr>instruments := instruments p\<rparr>"
    by (simp add: fold_update_instrument_tables)
  have f2: "mixer_tracks ?p2 = mixer_tracks ?p1" "clips ?p2 = clips p'"
    using tables_frame [OF t2] f1 by simp_all
  let ?p3 = "fold (\<lambda>i p. snd (updateMixerTrack i FOutput (\<lambda>e. e\<lparr>track_output := Some ?i\<rparr>) p))
    (mi_inputs ?imp) ?p2"
  have "fold (\<lambda>i. om_update i (\<lambda>e. e\<lparr>track_output := Some ?i\<rparr>)) (mi_inputs ?imp) (mixer_tracks ?p2) =
      mixer_tracks p"
    unfolding f2 f1 f
    by (rule inputs_back [OF _ t self])
       (auto simp: mixerTrackImpact_def distinct_map_filter image_iff Bex_def)
  then have t3: "copyTables ?p3 = (copyTables ?p2)\<lparr>mixer_tracks := mixer_tracks p\<rparr>"
    by (simp add: fold_update_track_tables)
  have f3: "clips ?p3 = clips p'" using tables_frame [OF t3] f2 by simp
  let ?as = "filter (\<lambda>cl. clip_audio cl \<noteq> None) ?hit"
  let ?p4 = "fold (\<lambda>cl p. snd (updateClip (clip_id cl) FSource (\<lambda>_. cl) p)) ?as ?p3"
  have dh: "distinct (map clip_id ?hit)"
    by (rule captured_distinct [OF keyed]) (simp add: mixerTrackImpact_def)
  have "fold (\<lambda>cl. om_update (clip_id cl) (\<lambda>_. cl)) ?as (clips ?p3) =
      om_filter (\<lambda>_ c. \<not> automates_track ?i c) (clips p)"
    unfolding f3 f
  proof (rule audio_clips_back)
    show "distinct (map clip_id ?as)" using dh by (rule distinct_map_filter)
    show "\<And>j c. om_find (clips p) j = Some c \<Longrightarrow> clip_id c = j" using keyed by (simp add: keyed_def)
    show "\<And>c. c \<in> set ?as \<longleftrightarrow> om_find (clips p) (clip_id c) = Some c \<and>
        (\<exists>a. clip_source c = SrcAudio a \<and> au_destination a = ?i)"
      using captured_hits [OF keyed, of _ ?i]
      by (auto simp: clip_automation_source clip_audio.simps split: ClipSource.splits)
  qed
  moreover have "copyTables ?p4 = (copyTables ?p3)\<lparr>clips :=
      fold (\<lambda>(i, x). om_update i (\<lambda>_. x)) (map (\<lambda>c. (clip_id c, c)) ?as) (clips ?p3)\<rparr>"
    unfolding fold_pairs [of "\<lambda>i cl p. snd (updateClip i FSource (\<lambda>_. cl) p)"]
    by (rule fold_update_clip_tables)
  ultimately have t4: "copyTables ?p4 =
      (copyTables ?p3)\<lparr>clips := om_filter (\<lambda>_ c. \<not> automates_track ?i c) (clips p)\<rparr>"
    unfolding fold_pairs [of "\<lambda>i cl. om_update i (\<lambda>_. cl)"] by simp
  have f4: "clips ?p4 = om_filter (\<lambda>_ c. \<not> automates_track ?i c) (clips p)"
    using tables_frame(4) [OF t4] by simp
  have "copyTables (restore_clips (filter (\<lambda>cl. clip_audio cl = None) ?hit) ?p4) =
      (copyTables ?p4)\<lparr>clips := clips p\<rparr>"
    unfolding filter_captured [where Q = "\<lambda>cl. clip_audio cl = None"]
    by (rule restore_captured [OF keyed], simp add: mixerTrackImpact_def, unfold f4)
       (auto simp: mixerTrackImpact_def automates_track_def split: option.split)
  also have "\<dots> = copyTables p"
    using t4 t3 t2 r1 sp by (simp add: copyTables_def spec_deleteMixerTrack_def)
  finally show ?thesis
    using r1 c' by (simp add: RemoveMixerTrack_revert_def Let_def split_beta)
qed

subsection \<open>Undoing an addition\<close>

text \<open>Deleting an entity nothing refers to takes out that entity and nothing else.\<close>

lemma AddInstrument_undo:
  assumes ok: "project_ok p" and a: "restoreInstrument e p = (True, p')"
  shows "\<exists>p''. deleteInstrument (inst_id e) p' = (True, p'') \<and> copyTables p'' = copyTables p"
proof -
  let ?i = "inst_id e"
  have e: "valid_id ?i" "om_find (instruments p) ?i = None"
    using a by (auto simp: restoreInstrument_def split: if_splits)
  have t: "copyTables p' = (copyTables p)\<lparr>instruments := om_insert ?i e (instruments p)\<rparr>"
    using restoreInstrument_tables [OF e] a by simp
  have "instruments p' = om_insert ?i e (instruments p)" using tables_frame(1) [OF t] by simp
  then have d: "fst (deleteInstrument ?i p') \<and>
      copyTables (snd (deleteInstrument ?i p')) = spec_deleteInstrument ?i (copyTables p')"
    by (intro deleteInstrument_refines) simp
  have "om_map (\<lambda>_ pat. pat\<lparr>pat_sequences := om_erase ?i (pat_sequences pat)\<rparr>) (patterns p) = patterns p"
    using unreferenced(1) [OF ok _ e(2)] by (intro om_map_idI) (simp add: om_erase_none)
  moreover have "om_filter (\<lambda>_ c. \<not> targets_instrument ?i c) (clips p) = clips p"
    using clip_unreferenced(1) [OF ok _ e(2)] by (intro om_filter_True)
  ultimately have "spec_deleteInstrument ?i (copyTables p') = copyTables p"
    using e by (simp add: t spec_deleteInstrument_def om_erase_insert)
  with d show ?thesis by (cases "deleteInstrument ?i p'") simp
qed

lemma AddPattern_undo:
  assumes ok: "project_ok p" and a: "restorePattern e p = (True, p')"
  shows "\<exists>p''. deletePattern (pat_id e) p' = (True, p'') \<and> copyTables p'' = copyTables p"
proof -
  let ?i = "pat_id e"
  have e: "valid_id ?i" "om_find (patterns p) ?i = None"
    using a by (auto simp: restorePattern_def split: if_splits)
  have t: "copyTables p' = (copyTables p)\<lparr>patterns := om_insert ?i e (patterns p)\<rparr>"
    using restorePattern_tables [OF e] a by simp
  have "patterns p' = om_insert ?i e (patterns p)" using tables_frame(2) [OF t] by simp
  then have d: "fst (deletePattern ?i p') \<and>
      copyTables (snd (deletePattern ?i p')) = spec_deletePattern ?i (copyTables p')"
    by (intro deletePattern_refines) simp
  have "om_filter (\<lambda>_ c. clip_pattern c \<noteq> Some ?i) (clips p) = clips p"
    using clip_unreferenced(2) [OF ok _ e(2)] by (intro om_filter_True)
  then have "spec_deletePattern ?i (copyTables p') = copyTables p"
    using e by (simp add: t spec_deletePattern_def om_erase_insert)
  with d show ?thesis by (cases "deletePattern ?i p'") simp
qed

lemma AddLane_undo:
  assumes ok: "project_ok p" and a: "restoreLane e p = (True, p')"
  shows "\<exists>p''. deleteLane (lane_id e) p' = (True, p'') \<and> copyTables p'' = copyTables p"
proof -
  let ?i = "lane_id e"
  have e: "valid_id ?i" "om_find (lanes p) ?i = None"
    using a by (auto simp: restoreLane_def split: if_splits)
  have t: "copyTables p' = (copyTables p)\<lparr>lanes := om_insert ?i e (lanes p)\<rparr>"
    using restoreLane_tables [OF e] a by simp
  have "lanes p' = om_insert ?i e (lanes p)" using tables_frame(3) [OF t] by simp
  then have d: "fst (deleteLane ?i p') \<and>
      copyTables (snd (deleteLane ?i p')) = spec_deleteLane ?i (copyTables p')"
    by (intro deleteLane_refines) simp
  have "ungroup ?i l = l" if "om_find (lanes p) k = Some l" for k l
    using unreferenced(2) [OF ok that e(2)] by (simp add: ungroup_def)
  then have "om_erase ?i (om_map (\<lambda>_. ungroup ?i) (om_insert ?i e (lanes p))) = lanes p"
    using e by (intro om_eqI) (auto simp: map_option_case split: option.split)
  moreover have "om_filter (\<lambda>_ c. clip_lane c \<noteq> ?i) (clips p) = clips p"
    using clip_unreferenced(3) [OF ok _ e(2)] by (intro om_filter_True)
  ultimately have "spec_deleteLane ?i (copyTables p') = copyTables p"
    by (simp add: t spec_deleteLane_def)
  with d show ?thesis by (cases "deleteLane ?i p'") simp
qed

lemma AddClip_undo:
  assumes a: "restoreClip e p = (True, p')"
  shows "\<exists>p''. deleteClip (clip_id e) p' = (True, p'') \<and> copyTables p'' = copyTables p"
proof -
  let ?i = "clip_id e"
  have e: "valid_id ?i" "om_find (clips p) ?i = None"
    using a by (auto simp: restoreClip_def split: if_splits)
  have t: "copyTables p' = (copyTables p)\<lparr>clips := om_insert ?i e (clips p)\<rparr>"
    using restoreClip_tables [OF e] a by simp
  have "clips p' = om_insert ?i e (clips p)" using tables_frame(4) [OF t] by simp
  then have "fst (deleteClip ?i p')" by (simp add: deleteClip_fst)
  moreover have "copyTables (snd (deleteClip ?i p')) = copyTables p"
    using e by (simp add: deleteClip_tables t spec_deleteClip_def om_erase_insert)
  ultimately show ?thesis by (cases "deleteClip ?i p'") simp
qed

lemma AddMixerTrack_undo:
  assumes ok: "project_ok p" and a: "restoreMixerTrack e p = (True, p')"
  shows "\<exists>p''. deleteMixerTrack (track_id e) p' = (True, p'') \<and> copyTables p'' = copyTables p"
proof -
  let ?i = "track_id e"
  have e: "valid_id ?i" "om_find (mixer_tracks p) ?i = None"
    using a by (auto simp: restoreMixerTrack_def split: if_splits)
  have t: "copyTables p' = (copyTables p)\<lparr>mixer_tracks := om_insert ?i e (mixer_tracks p)\<rparr>"
    using restoreMixerTrack_tables [OF e] a by simp
  have f: "mixer_tracks p' = om_insert ?i e (mixer_tracks p)" "master p' = master p"
    using tables_frame [OF t] by simp_all
  have mx: "mixer_ok p" using project_ok_parts(5) [OF ok] .
  have nm: "?i \<noteq> master p'" using mixer_ok_find(1) [OF mx] e f by auto
  have d: "fst (deleteMixerTrack ?i p') \<and>
      copyTables (snd (deleteMixerTrack ?i p')) = spec_deleteMixerTrack ?i (copyTables p')"
    by (rule deleteMixerTrack_refines [OF nm]) (simp add: f)
  have "om_map (\<lambda>_. rerouted ?i (master p)) (instruments p) = instruments p"
    using unreferenced(4) [OF ok _ e(2)] by (intro om_map_idI rerouted_id)
  moreover have "om_erase ?i (om_map (\<lambda>_. reparented ?i (master p)) (om_insert ?i e (mixer_tracks p))) = mixer_tracks p"
  proof (rule om_eqI)
    fix j
    show "om_find (om_erase ?i (om_map (\<lambda>_. reparented ?i (master p)) (om_insert ?i e (mixer_tracks p)))) j =
        om_find (mixer_tracks p) j"
      using unreferenced(3) [OF ok _ e(2), of j] e
      by (cases "om_find (mixer_tracks p) j") (auto simp: reparented_def)
  qed
  moreover have "redirected ?i (master p) c = c \<and> \<not> automates_track ?i c"
    if "om_find (clips p) j = Some c" for j c
    using clip_unreferenced(4) [OF ok that e(2)]
    by (auto simp: clip_automation_source(3) redirected_def split: ClipSource.split)
  then have "om_map (\<lambda>_. redirected ?i (master p)) (om_filter (\<lambda>_ c. \<not> automates_track ?i c) (clips p)) = clips p"
    by (intro om_eqI) (simp add: map_option_case split: option.split)
  ultimately have "spec_deleteMixerTrack ?i (copyTables p') = copyTables p"
    by (simp add: t spec_deleteMixerTrack_def)
  with d show ?thesis by (cases "deleteMixerTrack ?i p'") simp
qed

end
