(* ===== verification/Commands_Edit.thy ===== *)
theory Commands_Edit
  imports Commands_Undo
begin

text \<open>
  Undoing the editing commands: whole-entity edits, effect parameters, transport changes with
  the audio clips they rescale, and note edits with the clips that follow their pattern's
  length.
\<close>

subsection \<open>Whole-entity edits\<close>

lemma om_update_const_back:
  "om_find m i = Some v \<Longrightarrow> om_update i (\<lambda>_. v) (om_update i f m) = m"
  by (rule om_eqI) simp

lemma update_pair:
  "(updateInstrument i f g1 p = (ok, q)) = (ok = (om_find (instruments p) i \<noteq> None) \<and> q = snd (updateInstrument i f g1 p))"
  "(updatePattern j f g2 p = (ok, q)) = (ok = (om_find (patterns p) j \<noteq> None) \<and> q = snd (updatePattern j f g2 p))"
  "(updateLane k f g3 p = (ok, q)) = (ok = (om_find (lanes p) k \<noteq> None) \<and> q = snd (updateLane k f g3 p))"
  "(updateClip c f g4 p = (ok, q)) = (ok = (om_find (clips p) c \<noteq> None) \<and> q = snd (updateClip c f g4 p))"
  "(updateMixerTrack t f g5 p = (ok, q)) = (ok = (om_find (mixer_tracks p) t \<noteq> None) \<and> q = snd (updateMixerTrack t f g5 p))"
  by (auto simp: prod_eq_iff update_fst)

lemma update_fields:
  "instruments (snd (updateInstrument i f g1 p)) = om_update i g1 (instruments p)"
  "patterns (snd (updatePattern j f g2 p)) = om_update j g2 (patterns p)"
  "lanes (snd (updateLane k f g3 p)) = om_update k g3 (lanes p)"
  "clips (snd (updateClip c f g4 p)) = om_update c g4 (clips p)"
  "mixer_tracks (snd (updateMixerTrack t f g5 p)) = om_update t g5 (mixer_tracks p)"
  using tables_frame(1) [OF update_tables(1)] tables_frame(2) [OF update_tables(2)]
    tables_frame(3) [OF update_tables(3)] tables_frame(4) [OF update_tables(4)]
    tables_frame(5) [OF update_tables(5)] by simp_all

lemma edit_undo:
  "om_find (instruments p) i = Some v1 \<Longrightarrow>
     fst (updateInstrument i f (\<lambda>_. v1) (snd (updateInstrument i f g1 p))) \<and>
     copyTables (snd (updateInstrument i f (\<lambda>_. v1) (snd (updateInstrument i f g1 p)))) = copyTables p"
  "om_find (lanes p) k = Some v3 \<Longrightarrow>
     fst (updateLane k f (\<lambda>_. v3) (snd (updateLane k f g3 p))) \<and>
     copyTables (snd (updateLane k f (\<lambda>_. v3) (snd (updateLane k f g3 p)))) = copyTables p"
  "om_find (clips p) c = Some v4 \<Longrightarrow>
     fst (updateClip c f (\<lambda>_. v4) (snd (updateClip c f g4 p))) \<and>
     copyTables (snd (updateClip c f (\<lambda>_. v4) (snd (updateClip c f g4 p)))) = copyTables p"
  "om_find (mixer_tracks p) t = Some v5 \<Longrightarrow>
     fst (updateMixerTrack t f (\<lambda>_. v5) (snd (updateMixerTrack t f g5 p))) \<and>
     copyTables (snd (updateMixerTrack t f (\<lambda>_. v5) (snd (updateMixerTrack t f g5 p)))) = copyTables p"
  by (simp_all add: update_fst update_tables update_fields om_update_const_back)

lemma write_pattern_meta_back:
  "write_pattern_meta (pattern_meta_from pat) (write_pattern_meta m pat) = pat"
  by (simp add: write_pattern_meta_def pattern_meta_from_def)

lemma om_update_back:
  "om_find m i = Some v \<Longrightarrow> g (f v) = v \<Longrightarrow> om_update i g (om_update i f m) = m"
  by (rule om_eqI) simp

lemma edit_pattern_undo:
  "om_find (patterns p) i = Some pat \<Longrightarrow>
   fst (updatePattern i f (write_pattern_meta (pattern_meta_from pat)) (snd (updatePattern i f (write_pattern_meta m) p))) \<and>
   copyTables (snd (updatePattern i f (write_pattern_meta (pattern_meta_from pat))
     (snd (updatePattern i f (write_pattern_meta m) p)))) = copyTables p"
  by (simp add: update_fst update_tables update_fields om_update_back write_pattern_meta_back)

subsection \<open>Effect parameters\<close>

lemma indexOfEffect_Some:
  "indexOfEffect es e = Some k \<Longrightarrow> k < length es \<and> slot_id (es ! k) = e"
  by (induction es arbitrary: k) (auto split: if_splits)

lemma indexOfEffect_update:
  "slot_id s = slot_id (es ! k) \<Longrightarrow> k < length es \<Longrightarrow> indexOfEffect (es[k := s]) e = indexOfEffect es e"
proof (induction es arbitrary: k)
  case (Cons x es)
  then show ?case by (cases k) auto
qed simp

lemma write_param_back:
  assumes "\<And>k. indexOfEffect (track_effects t) e = Some k \<Longrightarrow>
    om_find (slot_params (track_effects t ! k)) param = before"
  shows "write_param e param before (write_param e param v t) = t"
proof (cases "indexOfEffect (track_effects t) e")
  case (Some k)
  then have k: "k < length (track_effects t)" using indexOfEffect_Some by blast
  let ?s = "track_effects t ! k"
  let ?ps = "case v of Some x \<Rightarrow> om_insert param x (slot_params ?s) | None \<Rightarrow> om_erase param (slot_params ?s)"
  have "indexOfEffect ((track_effects t)[k := ?s\<lparr>slot_params := ?ps\<rparr>]) e = Some k"
    using Some k by (simp add: indexOfEffect_update)
  moreover have "(case before of Some x \<Rightarrow> om_insert param x ?ps | None \<Rightarrow> om_erase param ?ps) = slot_params ?s"
    using assms [OF Some]
    by (auto intro!: om_eqI split: option.split)
  ultimately show ?thesis
    using Some k by (cases before) (simp_all add: write_param_def Let_def)
qed (simp add: write_param_def)

lemma write_param_id [simp]: "track_id (write_param e param v t) = track_id t"
  by (simp add: write_param_def Let_def split: option.split)

lemma EffectParam_undo:
  assumes "\<And>t k. om_find (mixer_tracks p) (ep_track c) = Some t \<Longrightarrow>
      indexOfEffect (track_effects t) (ep_effect c) = Some k \<Longrightarrow>
      om_find (slot_params (track_effects t ! k)) (ep_parameter c) = ep_before c"
    and "EffectParam_write c v p = (True, p')"
  shows "fst (EffectParam_write c (ep_before c) p') \<and>
    copyTables (snd (EffectParam_write c (ep_before c) p')) = copyTables p"
proof -
  obtain t where t: "om_find (mixer_tracks p) (ep_track c) = Some t"
    and p': "p' = snd (EffectParam_write c v p)"
    using assms(2) by (auto simp: EffectParam_write_def update_pair)
  have "om_update (ep_track c) (write_param (ep_effect c) (ep_parameter c) (ep_before c))
      (om_update (ep_track c) (write_param (ep_effect c) (ep_parameter c) v) (mixer_tracks p)) = mixer_tracks p"
    using t assms(1) [OF t] by (intro om_update_back write_param_back)
  with t p' show ?thesis
    by (simp add: EffectParam_write_def update_fst update_tables update_fields)
qed

subsection \<open>Clip lengths\<close>

lemma restore_lengths_tables:
  "copyTables (restore_lengths ls p) =
     (copyTables p)\<lparr>clips := fold (\<lambda>(i, len). om_update i (\<lambda>c. c\<lparr>clip_length := len\<rparr>)) ls (clips p)\<rparr>"
  unfolding restore_lengths_def by (rule fold_update_clip_tables)

lemma set_length_back: "c\<lparr>clip_length := a, clip_length := clip_length c\<rparr> = (c :: Clip)"
  by simp

text \<open>Lengths written over others go back to the ones that were recorded.\<close>

lemma lengths_back:
  assumes "distinct (map fst rs)" and "distinct (map fst es)"
    and "\<And>i len. map_of es i = Some len \<Longrightarrow> \<exists>c. om_find m i = Some c \<and> clip_length c = len"
    and "\<And>i len. map_of rs i = Some len \<Longrightarrow> map_of es i \<noteq> None"
  shows "fold (\<lambda>(i, len). om_update i (\<lambda>c. c\<lparr>clip_length := len\<rparr>)) es
    (fold (\<lambda>(i, len). om_update i (\<lambda>c. c\<lparr>clip_length := len\<rparr>)) rs m) = (m :: (clip_id, Clip) omap)"
proof (rule om_eqI)
  fix j
  show "om_find (fold (\<lambda>(i, len). om_update i (\<lambda>c. c\<lparr>clip_length := len\<rparr>)) es
      (fold (\<lambda>(i, len). om_update i (\<lambda>c. c\<lparr>clip_length := len\<rparr>)) rs m)) j = om_find m j"
    using assms(3,4) [of j]
    by (auto simp: om_find_fold_update_entries [OF assms(1)] om_find_fold_update_entries [OF assms(2)]
        split: option.splits)
qed

subsection \<open>Transport\<close>

lemma map_of_audio_lengths:
  "map_of (audio_lengths p) i = (case om_find (clips p) i of None \<Rightarrow> None
     | Some c \<Rightarrow> if clip_audio c \<noteq> None \<and> clip_length c > 0 then Some (clip_length c) else None)"
proof -
  let ?f = "\<lambda>(i, c). clip_audio c \<noteq> None \<and> clip_length c > 0"
  have "map_of (map (\<lambda>(i, c). (i, clip_length c)) xs) i = map_option clip_length (map_of xs i)"
    for xs :: "(clip_id \<times> Clip) list"
    by (induction xs) auto
  then show ?thesis
    by (auto simp: audio_lengths_def map_of_filter_pair split: option.split)
qed

lemma audio_lengths_distinct: "distinct (map fst (audio_lengths p))"
  by (simp add: audio_lengths_def comp_def case_prod_beta)
     (metis (no_types, lifting) distinct_map_filter om_entries_distinct)

lemma audio_lengths_cong: "clips p = clips q \<Longrightarrow> audio_lengths p = audio_lengths q"
  by (simp add: audio_lengths_def)

lemma map_filter_keys:
  assumes "\<And>i x. f (i, x) = None \<or> (\<exists>y. f (i, x) = Some (i, y))" and "distinct (map fst xs)"
  shows "distinct (map fst (List.map_filter f xs)) \<and> fst ` set (List.map_filter f xs) \<subseteq> fst ` set xs"
  using assms(2)
proof (induction xs)
  case (Cons e xs)
  obtain i x where e: "e = (i, x)" by fastforce
  let ?g = "List.map_filter f xs"
  have g: "distinct (map fst ?g)" "fst ` set ?g \<subseteq> fst ` set xs" using Cons by simp_all
  have i: "i \<notin> fst ` set xs" using Cons.prems e by simp
  have n: "i \<notin> fst ` set ?g" using g(2) i by blast
  show ?case
  proof (cases "f (i, x)")
    case None
    then show ?thesis using g by (simp add: map_filter_simps e) blast
  next
    case (Some z)
    then have "fst z = i" using assms(1) [of i x] by auto
    with Some g n show ?thesis by (simp add: map_filter_simps e) blast
  qed
qed (simp add: map_filter_simps)

lemma setTransport_clips [simp]: "clips (setTransport t p) = clips p"
  using tables_frame(4) [OF setTransport_frame(1)] by simp

lemma rescale_fields [simp]:
  "tc_before (fst (rescaleAudioClips c p)) = tc_before c" "tc_after (fst (rescaleAudioClips c p)) = tc_after c"
  by (simp_all add: rescaleAudioClips_def Let_def)

text \<open>What was recorded takes the rescaled table back to the one it was recorded from.\<close>

lemma rescale_back:
  "fold (\<lambda>(i, len). om_update i (\<lambda>c. c\<lparr>clip_length := len\<rparr>))
     (tc_original_lengths (fst (rescaleAudioClips c p))) (clips (snd (rescaleAudioClips c p))) = clips p"
proof -
  define rs where "rs ratio = List.map_filter (\<lambda>(i, len). let scaled = rescaled_length ratio len in
    if scaled = len then None else Some (i, scaled)) (audio_lengths p)" for ratio
  have keys: "distinct (map fst (rs ratio)) \<and> fst ` set (rs ratio) \<subseteq> fst ` set (audio_lengths p)" for ratio
    unfolding rs_def by (rule map_filter_keys) (auto simp: Let_def audio_lengths_distinct)
  have "fold (\<lambda>(i, len). om_update i (\<lambda>c. c\<lparr>clip_length := len\<rparr>)) (audio_lengths p)
      (fold (\<lambda>(i, len). om_update i (\<lambda>c. c\<lparr>clip_length := len\<rparr>)) (rs ratio) (clips p)) = clips p" for ratio
  proof (rule lengths_back)
    show "distinct (map fst (rs ratio))" using keys by blast
    show "distinct (map fst (audio_lengths p))" by (rule audio_lengths_distinct)
    show "\<exists>c. om_find (clips p) i = Some c \<and> clip_length c = len"
      if "map_of (audio_lengths p) i = Some len" for i len
      using that by (simp add: map_of_audio_lengths split: option.splits if_splits)
    show "map_of (audio_lengths p) i \<noteq> None" if "map_of (rs ratio) i = Some len" for i len
    proof -
      have "i \<in> fst ` set (rs ratio)" using that by (metis domI dom_map_of_conv_image_fst)
      then show ?thesis using keys by (auto simp: map_of_eq_None_iff)
    qed
  qed
  moreover have "clips (restore_lengths ls p) =
      fold (\<lambda>(i, len). om_update i (\<lambda>c. c\<lparr>clip_length := len\<rparr>)) ls (clips p)" for ls
    using tables_frame(4) [OF restore_lengths_tables] by simp
  ultimately show ?thesis
    by (simp add: rescaleAudioClips_def Let_def rs_def)
qed

lemma rescale_tables:
  "copyTables (snd (rescaleAudioClips c p)) = (copyTables p)\<lparr>clips := clips (snd (rescaleAudioClips c p))\<rparr>"
  using tables_frame(4) [OF restore_lengths_tables]
  by (simp add: rescaleAudioClips_def Let_def restore_lengths_tables)

lemma Transport_undo:
  assumes "transport p = tc_before c" and "Transport_apply c p = (True, c', p')"
  shows "copyTables (snd (snd (Transport_revert c' p'))) = copyTables p"
proof -
  let ?q = "setTransport (tc_after c) p"
  have c': "c' = fst (rescaleAudioClips c ?q)" and p': "p' = snd (rescaleAudioClips c ?q)"
    using assms(2) by (auto simp: Transport_apply_def split_beta Let_def)
  let ?s = "setTransport (tc_before c') p'"
  have "copyTables (snd (snd (Transport_revert c' p'))) = (copyTables ?s)\<lparr>clips := clips p\<rparr>"
    using rescale_back [of c ?q] by (simp add: Transport_revert_def restore_lengths_tables c' p')
  also have "copyTables ?s = (copyTables p')\<lparr>transport := tc_before c\<rparr>" by (simp add: c')
  also have "copyTables p' = (copyTables ?q)\<lparr>clips := clips p'\<rparr>" unfolding p' by (rule rescale_tables)
  also have "copyTables ?q = (copyTables p)\<lparr>transport := tc_after c\<rparr>" by simp
  finally show ?thesis using assms(1) by (simp add: copyTables_def)
qed

subsection \<open>Notes\<close>

lemma take_out_spec:
  "take_out R xs = (kept, left) \<Longrightarrow> mset kept = mset xs - R \<and> left = R - mset xs"
proof (induction R xs arbitrary: kept left rule: take_out.induct)
  case (2 R n ns)
  show ?case
  proof (cases "count R n = 0")
    case True
    obtain k l where r: "take_out R ns = (k, l)" by fastforce
    with 2(1) True have "mset k = mset ns - R \<and> l = R - mset ns" by blast
    moreover have "kept = n # k" "left = l" using 2(3) True r by simp_all
    moreover have "add_mset n (mset ns - R) = add_mset n (mset ns) - R"
      by (rule multiset_eqI) (use True in auto)
    moreover have "R - mset ns = R - add_mset n (mset ns)"
      by (rule multiset_eqI) (use True in auto)
    ultimately show ?thesis by simp
  next
    case False
    with 2(2,3) have "mset kept = mset ns - (R - {#n#}) \<and> left = R - {#n#} - mset ns" by simp
    moreover have "mset ns - (R - {#n#}) = add_mset n (mset ns) - R"
      by (rule multiset_eqI) (use False in auto)
    moreover have "R - {#n#} - mset ns = R - add_mset n (mset ns)"
      by (rule multiset_eqI) auto
    ultimately show ?thesis by simp
  qed
qed simp

text \<open>Notes that coincide in start, key and length are the same note.\<close>

definition rank_unique :: "Note set \<Rightarrow> bool" where
  "rank_unique A \<longleftrightarrow> (\<forall>m \<in> A. \<forall>n \<in> A. note_rank m = note_rank n \<longrightarrow> m = n)"

lemma filter_rank_unique:
  assumes "rank_unique (set xs)" and "k \<in> set xs"
  shows "filter (\<lambda>x. note_rank k = note_rank x) xs = replicate (count (mset xs) k) k"
proof -
  have "filter (\<lambda>x. note_rank k = note_rank x) xs = filter (\<lambda>x. k = x) xs"
    using assms by (intro filter_cong) (auto simp: rank_unique_def)
  also have "\<dots> = replicate (length (filter (\<lambda>x. k = x) xs)) k"
    by (metis (mono_tags, lifting) filter_True filter_eq_replicate_mset filter_filter replicate_length_same set_filter mem_Collect_eq)
  finally show ?thesis by (simp add: count_mset count_list_eq_length_filter)
qed

lemma sorted_unique:
  assumes "isSorted xs" and "isSorted ys" and "mset xs = mset ys" and "rank_unique (set xs)"
  shows "xs = ys"
proof -
  have s: "set xs = set ys" using assms(3) by (metis set_mset_mset)
  have "sort_key note_rank ys = xs"
  proof (rule properties_for_sort_key)
    show "mset xs = mset ys" by (rule assms(3))
    show "filter (\<lambda>x. note_rank k = note_rank x) xs = filter (\<lambda>x. note_rank k = note_rank x) ys"
      if "k \<in> set xs" for k
      using filter_rank_unique [of xs k] filter_rank_unique [of ys k] assms(3,4) that s by simp
    show "sorted (map note_rank xs)" using assms(1) by (simp add: isSorted_rank)
  qed
  moreover have "sort_key note_rank ys = ys"
    using assms(2) by (simp add: isSorted_rank sort_key_id_if_sorted)
  ultimately show ?thesis by simp
qed

definition current_notes :: "('a Tables_scheme) \<Rightarrow> pattern_id \<Rightarrow> instrument_id \<Rightarrow> Note list" where
  "current_notes p pid i = (case om_find (patterns p) pid of None \<Rightarrow> []
     | Some pat \<Rightarrow> (case om_find (pat_sequences pat) i of None \<Rightarrow> [] | Some s \<Rightarrow> s))"

lemma editSequence_eq:
  "editSequence pid i taken give p =
     (if om_find (patterns p) pid = None \<or> om_find (instruments p) i = None then (False, p)
      else if taken = current_notes p pid i then
        (if list_all isValidNote give then restoreSequence pid i (assignSorted give) p else (False, p))
      else if snd (take_out (mset taken) (current_notes p pid i)) \<noteq> {#} \<or> \<not> list_all isValidNote give
        then (False, p)
      else restoreSequence pid i
        (assignSorted (fst (take_out (mset taken) (current_notes p pid i)) @ give)) p)"
  by (auto simp: editSequence_def findPattern_def findInstrument_def current_notes_def Let_def
      split_beta split: option.split)

text \<open>\<open>editSequence\<close> is one replacement of the sequence, or a refusal that changes nothing.\<close>

lemma editSequence_cases:
  assumes p: "om_find (patterns p) pid = Some pat" and i: "om_find (instruments p) i \<noteq> None"
  obtains s where "isSorted s"
    and "mset taken \<subseteq># mset (current_notes p pid i) \<Longrightarrow>
      mset s = mset (current_notes p pid i) - mset taken + mset give"
    and "editSequence pid i taken give p =
      (if mset taken \<subseteq># mset (current_notes p pid i) \<and> list_all isValidNote give
       then restoreSequence pid i s p else (False, p))"
proof -
  let ?cur = "current_notes p pid i"
  obtain kept left where t: "take_out (mset taken) ?cur = (kept, left)" by fastforce
  then have k: "mset kept = mset ?cur - mset taken" "left = mset taken - mset ?cur"
    using take_out_spec by blast+
  have l: "left = {#} \<longleftrightarrow> mset taken \<subseteq># mset ?cur" unfolding k(2) by (rule Diff_eq_empty_iff_mset)
  show ?thesis
  proof (cases "taken = ?cur")
    case True
    then show ?thesis
      by (intro that [of "assignSorted give"]) (use p i in \<open>auto simp: editSequence_eq\<close>)
  next
    case False
    then show ?thesis
      by (intro that [of "assignSorted (kept @ give)"])
         (use p i t k l in \<open>auto simp: editSequence_eq\<close>)
  qed
qed

lemma editSequence_success:
  assumes "editSequence pid i taken give p = (True, p')"
  obtains pat s where "om_find (patterns p) pid = Some pat" and "om_find (instruments p) i \<noteq> None"
    and "mset taken \<subseteq># mset (current_notes p pid i)" and "list_all isValidNote give"
    and "isSorted s" and "mset s = mset (current_notes p pid i) - mset taken + mset give"
    and "copyTables p' = (copyTables p)\<lparr>patterns := om_update pid (set_sequence i s) (patterns p)\<rparr>"
proof -
  obtain pat where pat: "om_find (patterns p) pid = Some pat" and i: "om_find (instruments p) i \<noteq> None"
    using assms by (auto simp: editSequence_eq split: if_splits)
  obtain s where s: "isSorted s" "mset taken \<subseteq># mset (current_notes p pid i) \<Longrightarrow>
      mset s = mset (current_notes p pid i) - mset taken + mset give"
    "editSequence pid i taken give p = (if mset taken \<subseteq># mset (current_notes p pid i) \<and>
       list_all isValidNote give then restoreSequence pid i s p else (False, p))"
    using editSequence_cases [OF pat i] by blast
  have c: "mset taken \<subseteq># mset (current_notes p pid i)" "list_all isValidNote give"
    and r: "restoreSequence pid i s p = (True, p')"
    using s(3) assms by (auto split: if_splits)
  from that [OF pat i c s(1) s(2) [OF c(1)]] restoreSequence_tables [OF i, of pid s] r
  show ?thesis by simp
qed

lemma tables_only_editSequence: "tables_only (editSequence pid i taken give)"
  unfolding tables_only_def
proof (intro allI impI)
  fix p q :: project
  assume e: "copyTables p = copyTables q"
  then have "patterns p = patterns q" "instruments p = instruments q"
    "current_notes p pid i = current_notes q pid i"
    by (simp_all add: copyTables_eq_iff current_notes_def)
  with e tables_onlyD [OF tables_only_restore(6) e]
  show "fst (editSequence pid i taken give p) = fst (editSequence pid i taken give q) \<and>
      copyTables (snd (editSequence pid i taken give p)) = copyTables (snd (editSequence pid i taken give q))"
    by (simp add: editSequence_eq)
qed

subsection \<open>Clips that follow their pattern\<close>

lemma follow_clip_step:
  "follow_clip before after i (moved, p) =
     (moved @ (if \<exists>c. om_find (clips p) i = Some c \<and> clip_length c = before then [(i, before)] else []),
      snd (follow_clip before after i (moved, p))) \<and>
   copyTables (snd (follow_clip before after i (moved, p))) = (copyTables p)\<lparr>clips :=
     om_update i (\<lambda>c. if clip_length c = before then c\<lparr>clip_length := after\<rparr> else c) (clips p)\<rparr>"
proof (cases "om_find (clips p) i")
  case (Some c)
  have "om_update i (\<lambda>c. if clip_length c = before then c\<lparr>clip_length := after\<rparr> else c) (clips p) =
      (if clip_length c = before then om_update i (\<lambda>c. c\<lparr>clip_length := after\<rparr>) (clips p) else clips p)"
    using Some by (simp add: om_update_def om_insert_same)
  with Some show ?thesis
    by (simp add: follow_clip_def findClip_def split_beta update_fst update_tables)
qed (simp add: follow_clip_def findClip_def om_update_def)

lemma fold_follow_clip:
  "distinct ids \<Longrightarrow>
   fst (fold (follow_clip before after) ids (moved, p)) = moved @ map (\<lambda>i. (i, before))
     (filter (\<lambda>i. \<exists>c. om_find (clips p) i = Some c \<and> clip_length c = before) ids) \<and>
   copyTables (snd (fold (follow_clip before after) ids (moved, p))) = (copyTables p)\<lparr>clips :=
     fold (\<lambda>i. om_update i (\<lambda>c. if clip_length c = before then c\<lparr>clip_length := after\<rparr> else c)) ids (clips p)\<rparr>"
proof (induction ids arbitrary: moved p)
  case (Cons i ids)
  let ?st = "follow_clip before after i (moved, p)"
  obtain m q where st: "?st = (m, q)" by fastforce
  note step = follow_clip_step [of before after i moved p]
  have m: "m = moved @ (if \<exists>c. om_find (clips p) i = Some c \<and> clip_length c = before then [(i, before)] else [])"
    using step st by simp
  have t: "copyTables q = (copyTables p)\<lparr>clips :=
      om_update i (\<lambda>c. if clip_length c = before then c\<lparr>clip_length := after\<rparr> else c) (clips p)\<rparr>"
    using step st by simp
  have q: "clips q = om_update i (\<lambda>c. if clip_length c = before then c\<lparr>clip_length := after\<rparr> else c) (clips p)"
    using tables_frame(4) [OF t] by simp
  have "filter (\<lambda>j. \<exists>c. om_find (clips q) j = Some c \<and> clip_length c = before) ids =
      filter (\<lambda>j. \<exists>c. om_find (clips p) j = Some c \<and> clip_length c = before) ids"
    using Cons.prems by (intro filter_cong) (auto simp: q)
  with Cons.IH [of m q] Cons.prems show ?case by (simp add: st m t q)
qed simp

text \<open>The clips that follow, and the table after they have.\<close>

definition follows :: "('a Tables_scheme) \<Rightarrow> pattern_id \<Rightarrow> ticks \<Rightarrow> bool" where
  "follows p pid before \<longleftrightarrow> (case om_find (patterns p) pid of None \<Rightarrow> False
     | Some live \<Rightarrow> patternEffectiveLength live \<noteq> before \<and> patternEffectiveLength live > 0)"

lemma followPatternLength_eq:
  "fst (followPatternLength pid before p) = (if \<not> follows p pid before then [] else map (\<lambda>i. (i, before))
     (filter (\<lambda>i. \<exists>c. om_find (clips p) i = Some c \<and> clip_length c = before) (clipsUsingPattern p pid)))"
  "copyTables (snd (followPatternLength pid before p)) = (if \<not> follows p pid before then copyTables p else
     (copyTables p)\<lparr>clips := fold (\<lambda>i. om_update i (\<lambda>c. if clip_length c = before
        then c\<lparr>clip_length := patternEffectiveLength (the (om_find (patterns p) pid))\<rparr> else c))
        (clipsUsingPattern p pid) (clips p)\<rparr>)"
proof -
  have d: "distinct (clipsUsingPattern p pid)" by (simp add: clipsUsingPattern_def)
  note f = fold_follow_clip [OF d, of before _ "[]" p]
  show "fst (followPatternLength pid before p) = (if \<not> follows p pid before then [] else map (\<lambda>i. (i, before))
      (filter (\<lambda>i. \<exists>c. om_find (clips p) i = Some c \<and> clip_length c = before) (clipsUsingPattern p pid)))"
    using f by (cases "om_find (patterns p) pid")
      (auto simp: followPatternLength_def findPattern_def follows_def Let_def)
  show "copyTables (snd (followPatternLength pid before p)) = (if \<not> follows p pid before then copyTables p else
      (copyTables p)\<lparr>clips := fold (\<lambda>i. om_update i (\<lambda>c. if clip_length c = before
         then c\<lparr>clip_length := patternEffectiveLength (the (om_find (patterns p) pid))\<rparr> else c))
         (clipsUsingPattern p pid) (clips p)\<rparr>)"
  proof (cases "om_find (patterns p) pid")
    case (Some live)
    then have l: "the (om_find (patterns p) pid) = live" by simp
    show ?thesis
      unfolding l using f Some by (auto simp: followPatternLength_def findPattern_def follows_def Let_def)
  qed (simp add: followPatternLength_def findPattern_def follows_def)
qed

lemma follow_frame:
  "copyTables (snd (followPatternLength pid before p)) =
     (copyTables p)\<lparr>clips := clips (snd (followPatternLength pid before p))\<rparr>"
  using tables_frame(4) [OF followPatternLength_eq(2), of pid before p]
  by (simp add: followPatternLength_eq)

lemma follow_back:
  "copyTables (restore_lengths (fst (followPatternLength pid before p)) (snd (followPatternLength pid before p)))
     = copyTables p"
proof (cases "follows p pid before")
  case False
  then show ?thesis by (simp add: followPatternLength_eq restore_lengths_def)
next
  case True
  let ?ids = "clipsUsingPattern p pid"
  let ?after = "patternEffectiveLength (the (om_find (patterns p) pid))"
  let ?hit = "filter (\<lambda>i. \<exists>c. om_find (clips p) i = Some c \<and> clip_length c = before) ?ids"
  let ?m = "fold (\<lambda>i. om_update i (\<lambda>c. if clip_length c = before then c\<lparr>clip_length := ?after\<rparr> else c))
    ?ids (clips p)"
  have d: "distinct ?ids" by (simp add: clipsUsingPattern_def)
  have "map fst (map (\<lambda>i. (i, before)) ?hit) = ?hit" by (simp add: comp_def)
  then have dh: "distinct (map fst (map (\<lambda>i. (i, before)) ?hit))" using d by simp
  have mp: "map_of (map (\<lambda>i. (i, before)) xs) j = (if j \<in> set xs then Some before else None)"
    for xs and j :: clip_id by (induction xs) auto
  have "fold (\<lambda>(i, len). om_update i (\<lambda>c. c\<lparr>clip_length := len\<rparr>)) (map (\<lambda>i. (i, before)) ?hit) ?m = clips p"
  proof (rule om_eqI)
    fix j
    show "om_find (fold (\<lambda>(i, len). om_update i (\<lambda>c. c\<lparr>clip_length := len\<rparr>)) (map (\<lambda>i. (i, before)) ?hit) ?m) j
        = om_find (clips p) j"
      unfolding om_find_fold_update_entries [OF dh] mp om_find_fold_update [OF d]
      by (cases "om_find (clips p) j") auto
  qed
  moreover have "clips (snd (followPatternLength pid before p)) = ?m"
    using True tables_frame(4) [OF followPatternLength_eq(2)] by simp
  ultimately show ?thesis
    using True by (simp add: restore_lengths_tables followPatternLength_eq)
qed

subsection \<open>Undoing a note edit\<close>

lemma set_sequence_twice:
  assumes "if s0 = [] then om_find (pat_sequences pat) i = None else om_find (pat_sequences pat) i = Some s0"
  shows "set_sequence i s0 (set_sequence i s1 pat) = pat"
proof -
  have "om_insert i s0 (pat_sequences pat) = pat_sequences pat" if "s0 \<noteq> []"
    using that assms by (simp add: om_insert_same)
  moreover have "om_erase i (pat_sequences pat) = pat_sequences pat" if "s0 = []"
    using that assms by (simp add: om_erase_none)
  moreover have "om_insert i s0 (om_erase i m) = om_insert i s0 m"
    "om_erase i (om_insert i s1 m) = om_erase i m" "om_erase i (om_erase i m) = om_erase i m" for m
    by (rule om_eqI, simp)+
  ultimately show ?thesis by (auto simp: set_sequence_def)
qed

lemma current_after_write:
  assumes "om_find (patterns p) pid = Some pat"
    and "patterns q = om_update pid (set_sequence i s) (patterns p)"
  shows "current_notes q pid i = s"
  using assms by (simp add: current_notes_def set_sequence_def)

lemma Note_undo:
  assumes ok: "project_ok p" and u: "rank_unique (set (current_notes p (nc_pattern c) (nc_instrument c)))"
    and a: "Note_apply c p = (True, c', p')"
  shows "\<exists>p''. Note_revert c' p' = (True, c'\<lparr>nc_resized := []\<rparr>, p'') \<and> copyTables p'' = copyTables p"
proof -
  let ?pid = "nc_pattern c" and ?i = "nc_instrument c"
  let ?s0 = "current_notes p ?pid ?i"
  obtain p1 where e: "editSequence ?pid ?i (nc_removed c) (nc_added c) p = (True, p1)"
    using a by (auto simp: Note_apply_def Let_def split_beta prod_eq_iff split: option.splits if_splits)
  obtain pat s1 where pat: "om_find (patterns p) ?pid = Some pat" and i: "om_find (instruments p) ?i \<noteq> None"
    and sub: "mset (nc_removed c) \<subseteq># mset ?s0" and add: "list_all isValidNote (nc_added c)"
    and s1: "isSorted s1" "mset s1 = mset ?s0 - mset (nc_removed c) + mset (nc_added c)"
    and t1: "copyTables p1 = (copyTables p)\<lparr>patterns := om_update ?pid (set_sequence ?i s1) (patterns p)\<rparr>"
    using editSequence_success [OF e] by metis
  let ?before = "patternEffectiveLength pat"
  have c': "c' = c\<lparr>nc_resized := fst (followPatternLength ?pid ?before p1)\<rparr>"
    and p': "p' = snd (followPatternLength ?pid ?before p1)"
    using a e pat by (auto simp: Note_apply_def findPattern_def Let_def split_beta)
  have f1: "patterns p1 = om_update ?pid (set_sequence ?i s1) (patterns p)" "instruments p1 = instruments p"
    using tables_frame [OF t1] by simp_all
  have t': "copyTables p' = (copyTables p1)\<lparr>clips := clips p'\<rparr>"
    unfolding p' by (rule follow_frame)
  have f': "patterns p' = om_update ?pid (set_sequence ?i s1) (patterns p)" "instruments p' = instruments p"
    using tables_frame [OF t'] f1 by simp_all
  have pats: "patterns_ok p" using project_ok_parts(2) [OF ok] .
  have s0: "if ?s0 = [] then om_find (pat_sequences pat) ?i = None
      else om_find (pat_sequences pat) ?i = Some ?s0 \<and> sequence_ok ?s0"
    using pat pats by (auto simp: current_notes_def patterns_ok_def sequence_ok_def split: option.split)
  have p_at: "om_find (patterns p') ?pid = Some (set_sequence ?i s1 pat)" using pat by (simp add: f')
  have cur: "current_notes p' ?pid ?i = s1" by (rule current_after_write [OF pat f'(1)])
  obtain s2 where s2: "isSorted s2" "mset (nc_added c) \<subseteq># mset s1 \<Longrightarrow>
      mset s2 = mset s1 - mset (nc_added c) + mset (nc_removed c)"
    "editSequence ?pid ?i (nc_added c) (nc_removed c) p' = (if mset (nc_added c) \<subseteq># mset s1 \<and>
       list_all isValidNote (nc_removed c) then restoreSequence ?pid ?i s2 p' else (False, p'))"
    using editSequence_cases [OF p_at, of ?i "nc_added c" "nc_removed c"] i f'(2) unfolding cur by metis
  have added: "mset (nc_added c) \<subseteq># mset s1" using s1(2) by simp
  have "set (nc_removed c) \<subseteq> set ?s0" using sub by (metis set_mset_mono set_mset_mset)
  moreover have "\<forall>n \<in> set ?s0. isValidNote n" using s0 by (auto simp: sequence_ok_def split: if_splits)
  ultimately have removed: "list_all isValidNote (nc_removed c)" by (auto simp: list_all_iff)
  have "mset s2 = mset ?s0" using s2(2) [OF added] s1(2) sub by (simp add: subset_mset.diff_add)
  moreover have "isSorted ?s0" using s0 by (auto simp: sequence_ok_def isSorted_def split: if_splits)
  ultimately have s2': "s2 = ?s0" using sorted_unique [of ?s0 s2] u s2(1) by simp
  let ?p3 = "snd (restoreSequence ?pid ?i ?s0 p')"
  have e3: "editSequence ?pid ?i (nc_added c) (nc_removed c) p' = (True, ?p3)"
    using s2(3) added removed p_at i f'(2) restoreSequence_fst [of ?pid ?i ?s0 p'] by (simp add: s2' prod_eq_iff)
  have "om_update ?pid (set_sequence ?i ?s0) (patterns p') = patterns p"
    unfolding f'(1) by (rule om_update_back [OF pat], rule set_sequence_twice) (use s0 in \<open>auto split: if_splits\<close>)
  then have t3: "copyTables ?p3 = (copyTables p')\<lparr>patterns := patterns p\<rparr>"
    using restoreSequence_tables [of p' ?i ?pid ?s0] i f'(2) by simp
  have c3: "clips ?p3 = clips p'" using tables_frame(4) [OF t3] by simp
  let ?ls = "fst (followPatternLength ?pid ?before p1)"
  have "clips (restore_lengths ?ls p') = clips p1"
    using tables_frame(4) [OF follow_back, of ?pid ?before p1] by (simp add: p')
  then have "fold (\<lambda>(i, len). om_update i (\<lambda>c. c\<lparr>clip_length := len\<rparr>)) ?ls (clips p') = clips p"
    using tables_frame(4) [OF restore_lengths_tables [of ?ls p']] tables_frame(4) [OF t1] by simp
  then have "copyTables (restore_lengths ?ls ?p3) = (copyTables ?p3)\<lparr>clips := clips p\<rparr>"
    by (simp add: restore_lengths_tables c3)
  also have "\<dots> = copyTables p" using t3 t' t1 by (simp add: copyTables_def)
  finally show ?thesis using e3 c' by (simp add: Note_revert_def)
qed

end
