(* ===== verification/Commands_Contract.thy ===== *)
theory Commands_Contract
  imports Commands_Edit
begin

text \<open>
  All command classes meet the contract of \<open>Reversible\<close>.  \<open>essence\<close> forgets what a command
  captured when it was last applied; \<open>command_ready\<close> is the precondition of undo, class by
  class; the interpretation \<open>cmd\<close> instantiates the library with the model's own \<open>apply\<close>
  and \<open>revert\<close>.
\<close>

fun essence :: "command \<Rightarrow> command" where
  "essence (RemoveInstrumentC c) = RemoveInstrumentC
     (c\<lparr>ri_instrument := default_instrument, ri_sequences := om_empty, ri_clips := []\<rparr>)"
| "essence (RemovePatternC c) = RemovePatternC (c\<lparr>rp_pattern := default_pattern, rp_clips := []\<rparr>)"
| "essence (RemoveLaneC c) = RemoveLaneC (c\<lparr>rl_lane := default_lane, rl_clips := [], rl_grouped := []\<rparr>)"
| "essence (RemoveClipC c) = RemoveClipC (c\<lparr>rc_clip := default_clip\<rparr>)"
| "essence (RemoveMixerTrackC c) = RemoveMixerTrackC (c\<lparr>rt_track := default_mixer_track, rt_routings := [],
     rt_inputs := [], rt_clips := [], rt_audio_clips := []\<rparr>)"
| "essence (NoteC c) = NoteC (c\<lparr>nc_resized := []\<rparr>)"
| "essence (TransportC c) = TransportC (c\<lparr>tc_original_lengths := []\<rparr>)"
| "essence (CompositeC n cs) = CompositeC n (map essence cs)"
| "essence c = c"

fun command_depth :: "command \<Rightarrow> nat" where
  "command_depth (CompositeC n cs) = Suc (fold max (map command_depth cs) 0)"
| "command_depth c = 0"

definition param_before_ok :: "('a Tables_scheme) \<Rightarrow> EffectParamCommand \<Rightarrow> bool" where
  "param_before_ok p c \<longleftrightarrow>
     (case om_find (mixer_tracks p) (ep_track c) of None \<Rightarrow> True
      | Some t \<Rightarrow> (case indexOfEffect (track_effects t) (ep_effect c) of None \<Rightarrow> True
          | Some k \<Rightarrow> om_find (slot_params (track_effects t ! k)) (ep_parameter c) = ep_before c))"

fun command_ready :: "command \<Rightarrow> project \<Rightarrow> bool" where
  "command_ready (AddInstrumentC c) p = project_ok p"
| "command_ready (AddPatternC c) p = project_ok p"
| "command_ready (AddLaneC c) p = project_ok p"
| "command_ready (AddClipC c) p = True"
| "command_ready (AddMixerTrackC c) p = project_ok p"
| "command_ready (RemoveInstrumentC c) p = project_ok p"
| "command_ready (RemovePatternC c) p = project_ok p"
| "command_ready (RemoveLaneC c) p = project_ok p"
| "command_ready (RemoveClipC c) p = project_ok p"
| "command_ready (RemoveMixerTrackC c) p = project_ok p"
| "command_ready (EditInstrumentC c) p \<longleftrightarrow>
     (case om_find (instruments p) (ed_id c) of None \<Rightarrow> True | Some v \<Rightarrow> v = ed_before c)"
| "command_ready (EditPatternC c) p \<longleftrightarrow>
     (case om_find (patterns p) (ed_id c) of None \<Rightarrow> True | Some v \<Rightarrow> pattern_meta_from v = ed_before c)"
| "command_ready (EditLaneC c) p \<longleftrightarrow>
     (case om_find (lanes p) (ed_id c) of None \<Rightarrow> True | Some v \<Rightarrow> v = ed_before c)"
| "command_ready (EditClipC c) p \<longleftrightarrow>
     (case om_find (clips p) (ed_id c) of None \<Rightarrow> True | Some v \<Rightarrow> v = ed_before c)"
| "command_ready (EditMixerTrackC c) p \<longleftrightarrow>
     (case om_find (mixer_tracks p) (ed_id c) of None \<Rightarrow> True | Some v \<Rightarrow> v = ed_before c)"
| "command_ready (NoteC c) p \<longleftrightarrow>
     project_ok p \<and> rank_unique (set (current_notes p (nc_pattern c) (nc_instrument c)))"
| "command_ready (TransportC c) p \<longleftrightarrow> transport p = tc_before c"
| "command_ready (MetaC c) p \<longleftrightarrow> meta p = mc_before c"
| "command_ready (EffectParamC c) p = param_before_ok p c"
| "command_ready (CompositeC n cs) p = ready_all apply_command command_ready cs p"

lemma essence_depth: "command_depth (essence c) = command_depth c"
proof (induction c rule: essence.induct)
  case (8 n cs)
  then have "map command_depth (map essence cs) = map command_depth cs" by simp
  then show ?case by (simp only: essence.simps command_depth.simps)
qed simp_all

lemma fold_max_start: "(a::nat) \<le> fold max xs a"
proof (induction xs arbitrary: a)
  case (Cons x xs)
  have "max x a \<le> fold max xs (max x a)" by (rule Cons.IH)
  then show ?case by simp
qed simp

lemma fold_max_elem: "(x::nat) \<in> set xs \<Longrightarrow> x \<le> fold max xs a"
proof (induction xs arbitrary: a)
  case (Cons y xs)
  then show ?case using fold_max_start [of "max y a" xs] by auto
qed simp

lemma depth_child: "c \<in> set cs \<Longrightarrow> command_depth c < command_depth (CompositeC n cs)"
  using fold_max_elem [of "command_depth c" "map command_depth cs" 0] by simp

lemma keeping_sel [simp]:
  "fst (keeping c r) = fst r" "fst (snd (keeping c r)) = c" "snd (snd (keeping c r)) = snd r"
  by (simp_all add: keeping_def)

lemma holding_sel [simp]:
  "fst (holding k r) = fst r" "fst (snd (holding k r)) = k (fst (snd r))"
  "snd (snd (holding k r)) = snd (snd r)"
  by (simp_all add: holding_def)

lemma keeping_eq: "keeping c r = (ok, c', p') \<longleftrightarrow> c' = c \<and> r = (ok, p')"
  by (cases r) (auto simp: keeping_def)

lemma holding_eq: "holding k r = (ok, c', p') \<longleftrightarrow> c' = k (fst (snd r)) \<and> fst r = ok \<and> snd (snd r) = p'"
  by (auto simp: holding_def)

subsection \<open>What a class call may touch\<close>

lemma capture_essence:
  "essence (RemoveInstrumentC (fst (snd (RemoveInstrument_apply c1 p)))) = essence (RemoveInstrumentC c1)"
  "essence (RemovePatternC (fst (snd (RemovePattern_apply c2 p)))) = essence (RemovePatternC c2)"
  "essence (RemoveLaneC (fst (snd (RemoveLane_apply c3 p)))) = essence (RemoveLaneC c3)"
  "essence (RemoveClipC (fst (snd (RemoveClip_apply c4 p)))) = essence (RemoveClipC c4)"
  "essence (RemoveMixerTrackC (fst (snd (RemoveMixerTrack_apply c5 p)))) = essence (RemoveMixerTrackC c5)"
  "essence (NoteC (fst (snd (Note_apply c6 p)))) = essence (NoteC c6)"
  "essence (NoteC (fst (snd (Note_revert c6 p)))) = essence (NoteC c6)"
  "essence (TransportC (fst (snd (Transport_apply c7 p)))) = essence (TransportC c7)"
  "essence (TransportC (fst (snd (Transport_revert c7 p)))) = essence (TransportC c7)"
  by (simp_all add: RemoveInstrument_apply_def RemovePattern_apply_def RemoveLane_apply_def
      RemoveClip_apply_def RemoveMixerTrack_apply_def Note_apply_def Note_revert_def
      Transport_apply_def Transport_revert_def rescaleAudioClips_def Let_def split_beta
      split: option.split)

lemma run_all_essence:
  assumes "\<And>c p. c \<in> set cs \<Longrightarrow> e (fst (snd (ap c p))) = e c"
    and "\<And>d p. e (fst (snd (rv d p))) = e d"
  shows "map e (fst (snd (run_all ap rv ds cs p))) = map e (rev ds @ cs)"
proof -
  have rb: "map e (fst (rollback rv xs q)) = map e xs" for xs q
  proof (induction xs arbitrary: q)
    case (Cons x xs)
    then show ?case using assms(2) [of x q] by (simp add: split_beta)
  qed simp
  show ?thesis
    using assms(1)
  proof (induction cs arbitrary: ds p)
    case (Cons c cs)
    have h: "e (fst (snd (ap c p))) = e c" using Cons.prems by simp
    show ?case
      using Cons.IH [of "fst (snd (ap c p)) # ds" "snd (snd (ap c p))"] Cons.prems h
        rb [of ds "snd (snd (ap c p))"]
      by (simp add: split_beta rev_map [symmetric])
  qed simp
qed

lemma revert_all_essence:
  assumes "\<And>c p. c \<in> set cs \<Longrightarrow> e (fst (snd (rv c p))) = e c"
  shows "map e (fst (snd (revert_all rv cs p))) = map e cs"
  using assms by (induction cs arbitrary: p) (simp_all add: split_beta)

lemma revert_essence: "essence (fst (snd (revert_command c p))) = essence c"
proof (induction c p rule: revert_command.induct)
  case (20 n cs p)
  have "map essence (fst (snd (revert_all revert_command (rev cs) p))) = map essence (rev cs)"
    by (rule revert_all_essence) (use 20 in auto)
  then have "rev (map essence (fst (snd (revert_all revert_command (rev cs) p)))) = rev (map essence (rev cs))"
    by simp
  then show ?case by (simp add: split_beta rev_map)
qed (simp_all add: capture_essence [simplified])

lemma apply_essence: "essence (fst (snd (apply_command c p))) = essence c"
proof (induction c p rule: apply_command.induct)
  case (20 n cs p)
  have "map essence (fst (snd (run_all apply_command revert_command [] cs p))) = map essence (rev [] @ cs)"
    by (rule run_all_essence) (use 20 revert_essence in auto)
  then show ?case by (simp add: split_beta)
qed (simp_all add: capture_essence [simplified])

subsection \<open>One class at a time\<close>

definition meets_contract :: "command \<Rightarrow> bool" where
  "meets_contract c \<longleftrightarrow>
     reversible_step apply_command revert_command copyTables essence command_ready c"

lemma meets_contractI:
  assumes "\<And>d p q. essence d = essence c \<Longrightarrow> copyTables p = copyTables q \<Longrightarrow>
      fst (apply_command c p) = fst (apply_command d q) \<and>
      copyTables (snd (snd (apply_command c p))) = copyTables (snd (snd (apply_command d q))) \<and>
      (fst (apply_command c p) \<longrightarrow> fst (snd (apply_command c p)) = fst (snd (apply_command d q))) \<and>
      command_ready c p = command_ready d q"
    and "\<And>p q. copyTables p = copyTables q \<Longrightarrow>
      fst (revert_command c p) = fst (revert_command c q) \<and>
      fst (snd (revert_command c p)) = fst (snd (revert_command c q)) \<and>
      copyTables (snd (snd (revert_command c p))) = copyTables (snd (snd (revert_command c q)))"
    and "\<And>p c' p'. command_ready c p \<Longrightarrow> apply_command c p = (True, c', p') \<Longrightarrow>
      \<exists>c'' p''. revert_command c' p' = (True, c'', p'') \<and> copyTables p'' = copyTables p"
    and "\<And>p c' p'. command_ready c p \<Longrightarrow> apply_command c p = (False, c', p') \<Longrightarrow> copyTables p' = copyTables p"
  shows "meets_contract c"
  unfolding meets_contract_def reversible_step_def
proof (intro conjI allI impI)
  fix p c' p'
  assume r: "command_ready c p" and a: "apply_command c p = (True, c', p')"
  from assms(3) [OF r a] obtain c'' p'' where
    u: "revert_command c' p' = (True, c'', p'')" "copyTables p'' = copyTables p" by blast
  have "essence c'' = essence c"
    using revert_essence [of c' p'] apply_essence [of c p] a u(1) by simp
  with u show "\<exists>c'' p''. revert_command c' p' = (True, c'', p'') \<and> copyTables p'' = copyTables p \<and>
      essence c'' = essence c" by blast
qed (use assms(1,2,4) in \<open>metis+\<close>)

text \<open>Classes that capture nothing.\<close>

lemma meets_keeping:
  assumes f: "\<And>p. apply_command c p = keeping c (f p)" "tables_only f"
    and g: "\<And>p. revert_command c p = keeping c (g p)" "tables_only g"
    and e: "\<And>d. essence d = essence c \<Longrightarrow> d = c"
    and r: "\<And>p q. copyTables p = copyTables q \<Longrightarrow> command_ready c p = command_ready c q"
    and undo: "\<And>p p'. command_ready c p \<Longrightarrow> f p = (True, p') \<Longrightarrow>
      fst (g p') \<and> copyTables (snd (g p')) = copyTables p"
    and fail: "\<And>p. \<not> fst (f p) \<Longrightarrow> copyTables (snd (f p)) = copyTables p"
  shows "meets_contract c"
proof (rule meets_contractI)
  fix d p q
  assume d: "essence d = essence c" and v: "copyTables p = copyTables q"
  from e [OF d] r [OF v] tables_onlyD [OF f(2) v]
  show "fst (apply_command c p) = fst (apply_command d q) \<and>
      copyTables (snd (snd (apply_command c p))) = copyTables (snd (snd (apply_command d q))) \<and>
      (fst (apply_command c p) \<longrightarrow> fst (snd (apply_command c p)) = fst (snd (apply_command d q))) \<and>
      command_ready c p = command_ready d q"
    by (simp add: f(1))
next
  fix p q :: project
  assume "copyTables p = copyTables q"
  from tables_onlyD [OF g(2) this]
  show "fst (revert_command c p) = fst (revert_command c q) \<and>
      fst (snd (revert_command c p)) = fst (snd (revert_command c q)) \<and>
      copyTables (snd (snd (revert_command c p))) = copyTables (snd (snd (revert_command c q)))"
    by (simp add: g(1))
next
  fix p c' p'
  assume rd: "command_ready c p" and a: "apply_command c p = (True, c', p')"
  then have "c' = c" "f p = (True, p')" by (simp_all add: f(1) keeping_eq)
  with undo [OF rd] show "\<exists>c'' p''. revert_command c' p' = (True, c'', p'') \<and> copyTables p'' = copyTables p"
    by (simp add: g(1) keeping_eq prod_eq_iff)
next
  fix p c' p'
  assume "apply_command c p = (False, c', p')"
  then show "copyTables p' = copyTables p" using fail [of p] by (simp add: f(1) keeping_eq)
qed

text \<open>Classes that capture: a record \<open>a\<close>, and its calls \<open>f\<close> and \<open>g\<close>.\<close>

lemma meets_holding:
  assumes f: "\<And>b p. apply_command (k b) p = holding k (f b p)"
    and g: "\<And>b p. revert_command (k b) p = holding k (g b p)"
    and e: "\<And>d. essence d = essence (k a) \<Longrightarrow> \<exists>b. d = k b \<and> same a b"
    and fv: "\<And>b p q. same a b \<Longrightarrow> copyTables p = copyTables q \<Longrightarrow>
      fst (f a p) = fst (f b q) \<and> copyTables (snd (snd (f a p))) = copyTables (snd (snd (f b q))) \<and>
      (fst (f a p) \<longrightarrow> fst (snd (f a p)) = fst (snd (f b q))) \<and>
      command_ready (k a) p = command_ready (k b) q"
    and gv: "\<And>p q. copyTables p = copyTables q \<Longrightarrow>
      fst (g a p) = fst (g a q) \<and> fst (snd (g a p)) = fst (snd (g a q)) \<and>
      copyTables (snd (snd (g a p))) = copyTables (snd (snd (g a q)))"
    and undo: "\<And>p a' p'. command_ready (k a) p \<Longrightarrow> f a p = (True, a', p') \<Longrightarrow>
      fst (g a' p') \<and> copyTables (snd (snd (g a' p'))) = copyTables p"
    and fail: "\<And>p. \<not> fst (f a p) \<Longrightarrow> copyTables (snd (snd (f a p))) = copyTables p"
  shows "meets_contract (k a)"
proof (rule meets_contractI)
  fix d p q
  assume "essence d = essence (k a)" and v: "copyTables p = copyTables q"
  with e obtain b where d: "d = k b" "same a b" by blast
  show "fst (apply_command (k a) p) = fst (apply_command d q) \<and>
      copyTables (snd (snd (apply_command (k a) p))) = copyTables (snd (snd (apply_command d q))) \<and>
      (fst (apply_command (k a) p) \<longrightarrow> fst (snd (apply_command (k a) p)) = fst (snd (apply_command d q))) \<and>
      command_ready (k a) p = command_ready d q"
    using fv [OF d(2) v] by (simp add: d(1) f)
next
  fix p q :: project
  assume "copyTables p = copyTables q"
  from gv [OF this]
  show "fst (revert_command (k a) p) = fst (revert_command (k a) q) \<and>
      fst (snd (revert_command (k a) p)) = fst (snd (revert_command (k a) q)) \<and>
      copyTables (snd (snd (revert_command (k a) p))) = copyTables (snd (snd (revert_command (k a) q)))"
    by (simp add: g)
next
  fix p c' p'
  assume r: "command_ready (k a) p" and a: "apply_command (k a) p = (True, c', p')"
  then obtain a' where a': "f a p = (True, a', p')" "c' = k a'"
    by (cases "f a p") (simp add: f holding_eq)
  with undo [OF r a'(1)] show "\<exists>c'' p''. revert_command c' p' = (True, c'', p'') \<and> copyTables p'' = copyTables p"
    by (simp add: g holding_eq)
next
  fix p c' p'
  assume "apply_command (k a) p = (False, c', p')"
  then show "copyTables p' = copyTables p" using fail [of p] by (simp add: f holding_eq)
qed

lemma refused:
  "\<not> fst (restoreInstrument a p) \<Longrightarrow> snd (restoreInstrument a p) = p"
  "\<not> fst (restorePattern b p) \<Longrightarrow> snd (restorePattern b p) = p"
  "\<not> fst (restoreLane c p) \<Longrightarrow> snd (restoreLane c p) = p"
  "\<not> fst (restoreClip d p) \<Longrightarrow> snd (restoreClip d p) = p"
  "\<not> fst (restoreMixerTrack e p) \<Longrightarrow> snd (restoreMixerTrack e p) = p"
  "\<not> fst (restoreSequence pid i s p) \<Longrightarrow> snd (restoreSequence pid i s p) = p"
  "\<not> fst (deleteInstrument i p) \<Longrightarrow> snd (deleteInstrument i p) = p"
  "\<not> fst (deletePattern pid p) \<Longrightarrow> snd (deletePattern pid p) = p"
  "\<not> fst (deleteLane l p) \<Longrightarrow> snd (deleteLane l p) = p"
  "\<not> fst (deleteClip cl p) \<Longrightarrow> snd (deleteClip cl p) = p"
  "\<not> fst (deleteMixerTrack t p) \<Longrightarrow> snd (deleteMixerTrack t p) = p"
  "\<not> fst (updateInstrument i f g1 p) \<Longrightarrow> snd (updateInstrument i f g1 p) = p"
  "\<not> fst (updatePattern pid f g2 p) \<Longrightarrow> snd (updatePattern pid f g2 p) = p"
  "\<not> fst (updateLane l f g3 p) \<Longrightarrow> snd (updateLane l f g3 p) = p"
  "\<not> fst (updateClip cl f g4 p) \<Longrightarrow> snd (updateClip cl f g4 p) = p"
  "\<not> fst (updateMixerTrack t f g5 p) \<Longrightarrow> snd (updateMixerTrack t f g5 p) = p"
  by (auto simp: restoreInstrument_def restorePattern_def restoreLane_def restoreClip_def
      restoreMixerTrack_def restoreSequence_def deleteInstrument_def deletePattern_def deleteLane_def
      deleteClip_def deleteMixerTrack_def updateInstrument_def updatePattern_def updateLane_def
      updateClip_def updateMixerTrack_def Let_def split: option.splits if_splits)

lemma essence_plain:
  "essence d = AddInstrumentC c1 \<longleftrightarrow> d = AddInstrumentC c1" "essence d = AddPatternC c2 \<longleftrightarrow> d = AddPatternC c2"
  "essence d = AddLaneC c3 \<longleftrightarrow> d = AddLaneC c3" "essence d = AddClipC c4 \<longleftrightarrow> d = AddClipC c4"
  "essence d = AddMixerTrackC c5 \<longleftrightarrow> d = AddMixerTrackC c5"
  "essence d = EditInstrumentC e1 \<longleftrightarrow> d = EditInstrumentC e1" "essence d = EditPatternC e2 \<longleftrightarrow> d = EditPatternC e2"
  "essence d = EditLaneC e3 \<longleftrightarrow> d = EditLaneC e3" "essence d = EditClipC e4 \<longleftrightarrow> d = EditClipC e4"
  "essence d = EditMixerTrackC e5 \<longleftrightarrow> d = EditMixerTrackC e5"
  "essence d = MetaC m \<longleftrightarrow> d = MetaC m" "essence d = EffectParamC x \<longleftrightarrow> d = EffectParamC x"
  by (cases d; auto)+

lemma project_ok_view: "copyTables p = copyTables q \<Longrightarrow> project_ok p = project_ok q"
  by (metis project_ok_copy)

lemma meets_add:
  "meets_contract (AddInstrumentC c1)" "meets_contract (AddPatternC c2)" "meets_contract (AddLaneC c3)"
  "meets_contract (AddClipC c4)" "meets_contract (AddMixerTrackC c5)"
proof -
  note defs = AddInstrument_apply_def AddInstrument_revert_def AddPattern_apply_def AddPattern_revert_def
    AddLane_apply_def AddLane_revert_def AddClip_apply_def AddClip_revert_def AddMixerTrack_apply_def
    AddMixerTrack_revert_def
  show "meets_contract (AddInstrumentC c1)"
    by (rule meets_keeping [where f = "AddInstrument_apply c1" and g = "AddInstrument_revert c1"])
       (simp_all add: essence_plain defs [abs_def] tables_only_restore tables_only_delete refused,
        erule project_ok_view, drule (1) AddInstrument_undo, force)
  show "meets_contract (AddPatternC c2)"
    by (rule meets_keeping [where f = "AddPattern_apply c2" and g = "AddPattern_revert c2"])
       (simp_all add: essence_plain defs [abs_def] tables_only_restore tables_only_delete refused,
        erule project_ok_view, drule (1) AddPattern_undo, force)
  show "meets_contract (AddLaneC c3)"
    by (rule meets_keeping [where f = "AddLane_apply c3" and g = "AddLane_revert c3"])
       (simp_all add: essence_plain defs [abs_def] tables_only_restore tables_only_delete refused,
        erule project_ok_view, drule (1) AddLane_undo, force)
  show "meets_contract (AddClipC c4)"
    by (rule meets_keeping [where f = "AddClip_apply c4" and g = "AddClip_revert c4"])
       (simp_all add: essence_plain defs [abs_def] tables_only_restore tables_only_delete refused,
        drule AddClip_undo, force)
  show "meets_contract (AddMixerTrackC c5)"
    by (rule meets_keeping [where f = "AddMixerTrack_apply c5" and g = "AddMixerTrack_revert c5"])
       (simp_all add: essence_plain defs [abs_def] tables_only_restore tables_only_delete refused,
        erule project_ok_view, drule (1) AddMixerTrack_undo, force)
qed

lemma tables_only_edit [tables_only_rules]:
  "tables_only (Edit_apply InstrumentTraits_write e1)" "tables_only (Edit_revert InstrumentTraits_write e1)"
  "tables_only (Edit_apply PatternMetaTraits_write e2)" "tables_only (Edit_revert PatternMetaTraits_write e2)"
  "tables_only (Edit_apply LaneTraits_write e3)" "tables_only (Edit_revert LaneTraits_write e3)"
  "tables_only (Edit_apply ClipTraits_write e4)" "tables_only (Edit_revert ClipTraits_write e4)"
  "tables_only (Edit_apply MixerTrackTraits_write e5)" "tables_only (Edit_revert MixerTrackTraits_write e5)"
  "tables_only (EffectParam_write x v)"
  by (simp_all add: Edit_apply_def [abs_def] Edit_revert_def [abs_def] InstrumentTraits_write_def [abs_def]
      PatternMetaTraits_write_def [abs_def] LaneTraits_write_def [abs_def] ClipTraits_write_def [abs_def]
      MixerTrackTraits_write_def [abs_def] EffectParam_write_def [abs_def] tables_only_update)

lemma tables_only_meta [tables_only_rules]:
  "tables_only (Meta_apply m)" "tables_only (Meta_revert m)"
  by (simp_all add: tables_only_def Meta_apply_def Meta_revert_def)

lemmas edit_defs = Edit_apply_def Edit_revert_def InstrumentTraits_write_def PatternMetaTraits_write_def
  LaneTraits_write_def ClipTraits_write_def MixerTrackTraits_write_def

lemma meets_edit:
  "meets_contract (EditInstrumentC e1)" "meets_contract (EditPatternC e2)" "meets_contract (EditLaneC e3)"
  "meets_contract (EditClipC e4)" "meets_contract (EditMixerTrackC e5)"
proof -
  show "meets_contract (EditInstrumentC e1)"
  proof (rule meets_keeping [where f = "Edit_apply InstrumentTraits_write e1"
        and g = "Edit_revert InstrumentTraits_write e1"])
    show "command_ready (EditInstrumentC e1) p = command_ready (EditInstrumentC e1) q"
      if "copyTables p = copyTables q" for p q using that by (simp add: copyTables_eq_iff)
    show "fst (Edit_revert InstrumentTraits_write e1 p') \<and>
        copyTables (snd (Edit_revert InstrumentTraits_write e1 p')) = copyTables p"
      if "command_ready (EditInstrumentC e1) p" "Edit_apply InstrumentTraits_write e1 p = (True, p')" for p p'
      using that edit_undo(1) [of p "ed_id e1" "ed_before e1"]
      by (auto simp: edit_defs update_pair split: option.splits)
  qed (simp_all add: essence_plain tables_only_edit edit_defs refused)
  show "meets_contract (EditPatternC e2)"
  proof (rule meets_keeping [where f = "Edit_apply PatternMetaTraits_write e2"
        and g = "Edit_revert PatternMetaTraits_write e2"])
    show "command_ready (EditPatternC e2) p = command_ready (EditPatternC e2) q"
      if "copyTables p = copyTables q" for p q using that by (simp add: copyTables_eq_iff)
    show "fst (Edit_revert PatternMetaTraits_write e2 p') \<and>
        copyTables (snd (Edit_revert PatternMetaTraits_write e2 p')) = copyTables p"
      if r: "command_ready (EditPatternC e2) p" and a: "Edit_apply PatternMetaTraits_write e2 p = (True, p')" for p p'
    proof (cases "om_find (patterns p) (ed_id e2)")
      case None
      then show ?thesis using a by (simp add: edit_defs update_pair)
    next
      case (Some pat)
      then have m: "ed_before e2 = pattern_meta_from pat" using r by simp
      show ?thesis
        using a edit_pattern_undo [OF Some, of "ed_field e2" "ed_after e2"]
        by (simp add: edit_defs update_pair m)
    qed
  qed (simp_all add: essence_plain tables_only_edit edit_defs refused)
  show "meets_contract (EditLaneC e3)"
  proof (rule meets_keeping [where f = "Edit_apply LaneTraits_write e3"
        and g = "Edit_revert LaneTraits_write e3"])
    show "command_ready (EditLaneC e3) p = command_ready (EditLaneC e3) q"
      if "copyTables p = copyTables q" for p q using that by (simp add: copyTables_eq_iff)
    show "fst (Edit_revert LaneTraits_write e3 p') \<and>
        copyTables (snd (Edit_revert LaneTraits_write e3 p')) = copyTables p"
      if "command_ready (EditLaneC e3) p" "Edit_apply LaneTraits_write e3 p = (True, p')" for p p'
      using that edit_undo(2) [of p "ed_id e3" "ed_before e3"]
      by (auto simp: edit_defs update_pair split: option.splits)
  qed (simp_all add: essence_plain tables_only_edit edit_defs refused)
  show "meets_contract (EditClipC e4)"
  proof (rule meets_keeping [where f = "Edit_apply ClipTraits_write e4"
        and g = "Edit_revert ClipTraits_write e4"])
    show "command_ready (EditClipC e4) p = command_ready (EditClipC e4) q"
      if "copyTables p = copyTables q" for p q using that by (simp add: copyTables_eq_iff)
    show "fst (Edit_revert ClipTraits_write e4 p') \<and>
        copyTables (snd (Edit_revert ClipTraits_write e4 p')) = copyTables p"
      if "command_ready (EditClipC e4) p" "Edit_apply ClipTraits_write e4 p = (True, p')" for p p'
      using that edit_undo(3) [of p "ed_id e4" "ed_before e4"]
      by (auto simp: edit_defs update_pair split: option.splits)
  qed (simp_all add: essence_plain tables_only_edit edit_defs refused)
  show "meets_contract (EditMixerTrackC e5)"
  proof (rule meets_keeping [where f = "Edit_apply MixerTrackTraits_write e5"
        and g = "Edit_revert MixerTrackTraits_write e5"])
    show "command_ready (EditMixerTrackC e5) p = command_ready (EditMixerTrackC e5) q"
      if "copyTables p = copyTables q" for p q using that by (simp add: copyTables_eq_iff)
    show "fst (Edit_revert MixerTrackTraits_write e5 p') \<and>
        copyTables (snd (Edit_revert MixerTrackTraits_write e5 p')) = copyTables p"
      if "command_ready (EditMixerTrackC e5) p" "Edit_apply MixerTrackTraits_write e5 p = (True, p')" for p p'
      using that edit_undo(4) [of p "ed_id e5" "ed_before e5"]
      by (auto simp: edit_defs update_pair split: option.splits)
  qed (simp_all add: essence_plain tables_only_edit edit_defs refused)
qed

lemma meets_meta: "meets_contract (MetaC m)"
proof (rule meets_keeping [where f = "Meta_apply m" and g = "Meta_revert m"])
  show "command_ready (MetaC m) p = command_ready (MetaC m) q" if "copyTables p = copyTables q" for p q
    using that by (simp add: copyTables_eq_iff)
  show "fst (Meta_revert m p') \<and> copyTables (snd (Meta_revert m p')) = copyTables p"
    if "command_ready (MetaC m) p" "Meta_apply m p = (True, p')" for p p'
    using that by (auto simp: Meta_revert_def Meta_apply_def)
qed (simp_all add: essence_plain tables_only_meta Meta_apply_def)

lemma meets_effect_param: "meets_contract (EffectParamC x)"
proof (rule meets_keeping [where f = "EffectParam_write x (Some (ep_after x))"
      and g = "EffectParam_write x (ep_before x)"])
  show "command_ready (EffectParamC x) p = command_ready (EffectParamC x) q"
    if "copyTables p = copyTables q" for p q
    using that by (simp add: copyTables_eq_iff param_before_ok_def)
  show "fst (EffectParam_write x (ep_before x) p') \<and>
      copyTables (snd (EffectParam_write x (ep_before x) p')) = copyTables p"
    if "command_ready (EffectParamC x) p" "EffectParam_write x (Some (ep_after x)) p = (True, p')" for p p'
    using that by (intro EffectParam_undo) (auto simp: param_before_ok_def)
  show "copyTables (snd (EffectParam_write x (Some (ep_after x)) p)) = copyTables p"
    if "\<not> fst (EffectParam_write x (Some (ep_after x)) p)" for p
    using that by (simp add: EffectParam_write_def refused)
qed (simp_all add: essence_plain tables_only_edit)

subsection \<open>The capturing classes\<close>

lemma tables_only_restore_clips:
  "copyTables p = copyTables q \<Longrightarrow> copyTables (restore_clips cs p) = copyTables (restore_clips cs q)"
  unfolding restore_clips_def by (rule tables_only_fold [OF tables_only_restore(4)])

lemma tables_only_restore_lengths:
  "copyTables p = copyTables q \<Longrightarrow> copyTables (restore_lengths ls p) = copyTables (restore_lengths ls q)"
  by (simp add: restore_lengths_tables) (simp add: copyTables_eq_iff)

lemma find_cong:
  "copyTables p = copyTables q \<Longrightarrow> findInstrument p = findInstrument q"
  "copyTables p = copyTables q \<Longrightarrow> findPattern p = findPattern q"
  "copyTables p = copyTables q \<Longrightarrow> findLane p = findLane q"
  "copyTables p = copyTables q \<Longrightarrow> findMixerTrack p = findMixerTrack q"
  by (simp_all add: fun_eq_iff find_defs copyTables_eq_iff)

lemma tables_fields:
  "copyTables p = copyTables q \<Longrightarrow> instruments p = instruments q \<and> patterns p = patterns q \<and>
     lanes p = lanes q \<and> clips p = clips q \<and> mixer_tracks p = mixer_tracks q \<and> master p = master q \<and>
     transport p = transport q \<and> meta p = meta q"
  by (simp add: copyTables_eq_iff)

lemma tables_only_fold_pairs:
  assumes "\<And>k x. tables_only (f k x)" and "copyTables p = copyTables q"
  shows "copyTables (fold (\<lambda>(k, x) p. snd (f k x p)) es p) = copyTables (fold (\<lambda>(k, x) p. snd (f k x p)) es q)"
  using assms(2)
proof (induction es arbitrary: p q)
  case (Cons e es)
  obtain k x where e: "e = (k, x)" by fastforce
  from tables_onlyD [OF assms(1) Cons.prems]
  have "copyTables (snd (f k x p)) = copyTables (snd (f k x q))" by blast
  from Cons.IH [OF this] show ?case by (simp add: e)
qed simp

lemma meets_RemoveInstrument: "meets_contract (RemoveInstrumentC a)"
proof (rule meets_holding [where k = RemoveInstrumentC and f = RemoveInstrument_apply
      and g = "\<lambda>b p. (fst (RemoveInstrument_revert b p), b, snd (RemoveInstrument_revert b p))"
      and same = "\<lambda>b c. ri_id c = ri_id b"])
  show "\<exists>b. d = RemoveInstrumentC b \<and> ri_id b = ri_id a" if "essence d = essence (RemoveInstrumentC a)" for d
    using that by (cases d) (simp_all, drule arg_cong [where f = ri_id], simp)
  show "fst (RemoveInstrument_apply a p) = fst (RemoveInstrument_apply b q) \<and>
      copyTables (snd (snd (RemoveInstrument_apply a p))) = copyTables (snd (snd (RemoveInstrument_apply b q))) \<and>
      (fst (RemoveInstrument_apply a p) \<longrightarrow> fst (snd (RemoveInstrument_apply a p)) = fst (snd (RemoveInstrument_apply b q))) \<and>
      command_ready (RemoveInstrumentC a) p = command_ready (RemoveInstrumentC b) q"
    if s: "ri_id b = ri_id a" and v: "copyTables p = copyTables q" for b p q
    using tables_onlyD [OF tables_only_delete(1) v, of "ri_id a"] impact_cong(1) [OF v, of "ri_id a"] find_cong [OF v] captured_cong [OF v] findClip_cong [OF v] tables_fields [OF v]
      project_ok_view [OF v] s
    by (auto simp: RemoveInstrument_apply_def Let_def split_beta split: option.split)
  show "fst (fst (RemoveInstrument_revert a p), a, snd (RemoveInstrument_revert a p)) =
      fst (fst (RemoveInstrument_revert a q), a, snd (RemoveInstrument_revert a q)) \<and>
      fst (snd (fst (RemoveInstrument_revert a p), a, snd (RemoveInstrument_revert a p))) =
      fst (snd (fst (RemoveInstrument_revert a q), a, snd (RemoveInstrument_revert a q))) \<and>
      copyTables (snd (snd (fst (RemoveInstrument_revert a p), a, snd (RemoveInstrument_revert a p)))) =
      copyTables (snd (snd (fst (RemoveInstrument_revert a q), a, snd (RemoveInstrument_revert a q))))"
    if v: "copyTables p = copyTables q" for p q
    using tables_onlyD [OF tables_only_restore(1) v, of "ri_instrument a"]
    by (auto simp: RemoveInstrument_revert_def Let_def split_beta
        intro!: tables_only_restore_clips tables_only_fold_pairs tables_only_restore)
  show "fst (fst (RemoveInstrument_revert a' p'), a', snd (RemoveInstrument_revert a' p')) \<and>
      copyTables (snd (snd (fst (RemoveInstrument_revert a' p'), a', snd (RemoveInstrument_revert a' p')))) = copyTables p"
    if "command_ready (RemoveInstrumentC a) p" "RemoveInstrument_apply a p = (True, a', p')" for p a' p'
    using that RemoveInstrument_undo [of p a a' p'] by auto
  show "copyTables (snd (snd (RemoveInstrument_apply a p))) = copyTables p" if "\<not> fst (RemoveInstrument_apply a p)" for p
    using that by (auto simp: RemoveInstrument_apply_def Let_def split_beta refused split: option.splits)
qed (simp_all add: holding_def keeping_def)

lemma meets_RemovePattern: "meets_contract (RemovePatternC a)"
proof (rule meets_holding [where k = RemovePatternC and f = RemovePattern_apply
      and g = "\<lambda>b p. (fst (RemovePattern_revert b p), b, snd (RemovePattern_revert b p))"
      and same = "\<lambda>b c. rp_id c = rp_id b"])
  show "\<exists>b. d = RemovePatternC b \<and> rp_id b = rp_id a" if "essence d = essence (RemovePatternC a)" for d
    using that by (cases d) (simp_all, drule arg_cong [where f = rp_id], simp)
  show "fst (RemovePattern_apply a p) = fst (RemovePattern_apply b q) \<and>
      copyTables (snd (snd (RemovePattern_apply a p))) = copyTables (snd (snd (RemovePattern_apply b q))) \<and>
      (fst (RemovePattern_apply a p) \<longrightarrow> fst (snd (RemovePattern_apply a p)) = fst (snd (RemovePattern_apply b q))) \<and>
      command_ready (RemovePatternC a) p = command_ready (RemovePatternC b) q"
    if s: "rp_id b = rp_id a" and v: "copyTables p = copyTables q" for b p q
    using tables_onlyD [OF tables_only_delete(2) v, of "rp_id a"] impact_cong(4) [OF v, of "rp_id a"] find_cong [OF v] captured_cong [OF v] findClip_cong [OF v] tables_fields [OF v]
      project_ok_view [OF v] s
    by (auto simp: RemovePattern_apply_def Let_def split_beta split: option.split)
  show "fst (fst (RemovePattern_revert a p), a, snd (RemovePattern_revert a p)) =
      fst (fst (RemovePattern_revert a q), a, snd (RemovePattern_revert a q)) \<and>
      fst (snd (fst (RemovePattern_revert a p), a, snd (RemovePattern_revert a p))) =
      fst (snd (fst (RemovePattern_revert a q), a, snd (RemovePattern_revert a q))) \<and>
      copyTables (snd (snd (fst (RemovePattern_revert a p), a, snd (RemovePattern_revert a p)))) =
      copyTables (snd (snd (fst (RemovePattern_revert a q), a, snd (RemovePattern_revert a q))))"
    if v: "copyTables p = copyTables q" for p q
    using tables_onlyD [OF tables_only_restore(2) v, of "rp_pattern a"]
    by (auto simp: RemovePattern_revert_def Let_def split_beta
        intro!: tables_only_restore_clips)
  show "fst (fst (RemovePattern_revert a' p'), a', snd (RemovePattern_revert a' p')) \<and>
      copyTables (snd (snd (fst (RemovePattern_revert a' p'), a', snd (RemovePattern_revert a' p')))) = copyTables p"
    if "command_ready (RemovePatternC a) p" "RemovePattern_apply a p = (True, a', p')" for p a' p'
    using that RemovePattern_undo [of p a a' p'] by auto
  show "copyTables (snd (snd (RemovePattern_apply a p))) = copyTables p" if "\<not> fst (RemovePattern_apply a p)" for p
    using that by (auto simp: RemovePattern_apply_def Let_def split_beta refused split: option.splits)
qed (simp_all add: holding_def keeping_def)

lemma meets_RemoveLane: "meets_contract (RemoveLaneC a)"
proof (rule meets_holding [where k = RemoveLaneC and f = RemoveLane_apply
      and g = "\<lambda>b p. (fst (RemoveLane_revert b p), b, snd (RemoveLane_revert b p))"
      and same = "\<lambda>b c. rl_id c = rl_id b"])
  show "\<exists>b. d = RemoveLaneC b \<and> rl_id b = rl_id a" if "essence d = essence (RemoveLaneC a)" for d
    using that by (cases d) (simp_all, drule arg_cong [where f = rl_id], simp)
  show "fst (RemoveLane_apply a p) = fst (RemoveLane_apply b q) \<and>
      copyTables (snd (snd (RemoveLane_apply a p))) = copyTables (snd (snd (RemoveLane_apply b q))) \<and>
      (fst (RemoveLane_apply a p) \<longrightarrow> fst (snd (RemoveLane_apply a p)) = fst (snd (RemoveLane_apply b q))) \<and>
      command_ready (RemoveLaneC a) p = command_ready (RemoveLaneC b) q"
    if s: "rl_id b = rl_id a" and v: "copyTables p = copyTables q" for b p q
    using tables_onlyD [OF tables_only_delete(3) v, of "rl_id a"] impact_cong(5) [OF v, of "rl_id a"] find_cong [OF v] captured_cong [OF v] findClip_cong [OF v] tables_fields [OF v]
      project_ok_view [OF v] s
    by (auto simp: RemoveLane_apply_def Let_def split_beta split: option.split)
  show "fst (fst (RemoveLane_revert a p), a, snd (RemoveLane_revert a p)) =
      fst (fst (RemoveLane_revert a q), a, snd (RemoveLane_revert a q)) \<and>
      fst (snd (fst (RemoveLane_revert a p), a, snd (RemoveLane_revert a p))) =
      fst (snd (fst (RemoveLane_revert a q), a, snd (RemoveLane_revert a q))) \<and>
      copyTables (snd (snd (fst (RemoveLane_revert a p), a, snd (RemoveLane_revert a p)))) =
      copyTables (snd (snd (fst (RemoveLane_revert a q), a, snd (RemoveLane_revert a q))))"
    if v: "copyTables p = copyTables q" for p q
    using tables_onlyD [OF tables_only_restore(3) v, of "rl_lane a"]
    by (auto simp: RemoveLane_revert_def Let_def split_beta
        intro!: tables_only_restore_clips tables_only_fold tables_only_update)
  show "fst (fst (RemoveLane_revert a' p'), a', snd (RemoveLane_revert a' p')) \<and>
      copyTables (snd (snd (fst (RemoveLane_revert a' p'), a', snd (RemoveLane_revert a' p')))) = copyTables p"
    if "command_ready (RemoveLaneC a) p" "RemoveLane_apply a p = (True, a', p')" for p a' p'
    using that RemoveLane_undo [of p a a' p'] by auto
  show "copyTables (snd (snd (RemoveLane_apply a p))) = copyTables p" if "\<not> fst (RemoveLane_apply a p)" for p
    using that by (auto simp: RemoveLane_apply_def Let_def split_beta refused split: option.splits)
qed (simp_all add: holding_def keeping_def)

lemma meets_RemoveClip: "meets_contract (RemoveClipC a)"
proof (rule meets_holding [where k = RemoveClipC and f = RemoveClip_apply
      and g = "\<lambda>b p. (fst (RemoveClip_revert b p), b, snd (RemoveClip_revert b p))"
      and same = "\<lambda>b c. rc_id c = rc_id b"])
  show "\<exists>b. d = RemoveClipC b \<and> rc_id b = rc_id a" if "essence d = essence (RemoveClipC a)" for d
    using that by (cases d) (simp_all, drule arg_cong [where f = rc_id], simp)
  show "fst (RemoveClip_apply a p) = fst (RemoveClip_apply b q) \<and>
      copyTables (snd (snd (RemoveClip_apply a p))) = copyTables (snd (snd (RemoveClip_apply b q))) \<and>
      (fst (RemoveClip_apply a p) \<longrightarrow> fst (snd (RemoveClip_apply a p)) = fst (snd (RemoveClip_apply b q))) \<and>
      command_ready (RemoveClipC a) p = command_ready (RemoveClipC b) q"
    if s: "rc_id b = rc_id a" and v: "copyTables p = copyTables q" for b p q
    using tables_onlyD [OF tables_only_delete(4) v, of "rc_id a"] find_cong [OF v] captured_cong [OF v] findClip_cong [OF v] tables_fields [OF v]
      project_ok_view [OF v] s
    by (auto simp: RemoveClip_apply_def Let_def split_beta split: option.split)
  show "fst (fst (RemoveClip_revert a p), a, snd (RemoveClip_revert a p)) =
      fst (fst (RemoveClip_revert a q), a, snd (RemoveClip_revert a q)) \<and>
      fst (snd (fst (RemoveClip_revert a p), a, snd (RemoveClip_revert a p))) =
      fst (snd (fst (RemoveClip_revert a q), a, snd (RemoveClip_revert a q))) \<and>
      copyTables (snd (snd (fst (RemoveClip_revert a p), a, snd (RemoveClip_revert a p)))) =
      copyTables (snd (snd (fst (RemoveClip_revert a q), a, snd (RemoveClip_revert a q))))"
    if v: "copyTables p = copyTables q" for p q
    using tables_onlyD [OF tables_only_restore(4) v, of "rc_clip a"]
    by (auto simp: RemoveClip_revert_def Let_def split_beta
        intro!: tables_only_restore_clips)
  show "fst (fst (RemoveClip_revert a' p'), a', snd (RemoveClip_revert a' p')) \<and>
      copyTables (snd (snd (fst (RemoveClip_revert a' p'), a', snd (RemoveClip_revert a' p')))) = copyTables p"
    if "command_ready (RemoveClipC a) p" "RemoveClip_apply a p = (True, a', p')" for p a' p'
    using that RemoveClip_undo [of p a a' p'] by auto
  show "copyTables (snd (snd (RemoveClip_apply a p))) = copyTables p" if "\<not> fst (RemoveClip_apply a p)" for p
    using that by (auto simp: RemoveClip_apply_def Let_def split_beta refused split: option.splits)
qed (simp_all add: holding_def keeping_def)

lemma meets_RemoveMixerTrack: "meets_contract (RemoveMixerTrackC a)"
proof (rule meets_holding [where k = RemoveMixerTrackC and f = RemoveMixerTrack_apply
      and g = "\<lambda>b p. (fst (RemoveMixerTrack_revert b p), b, snd (RemoveMixerTrack_revert b p))"
      and same = "\<lambda>b c. rt_id c = rt_id b"])
  show "\<exists>b. d = RemoveMixerTrackC b \<and> rt_id b = rt_id a" if "essence d = essence (RemoveMixerTrackC a)" for d
    using that by (cases d) (simp_all, drule arg_cong [where f = rt_id], simp)
  show "fst (RemoveMixerTrack_apply a p) = fst (RemoveMixerTrack_apply b q) \<and>
      copyTables (snd (snd (RemoveMixerTrack_apply a p))) = copyTables (snd (snd (RemoveMixerTrack_apply b q))) \<and>
      (fst (RemoveMixerTrack_apply a p) \<longrightarrow> fst (snd (RemoveMixerTrack_apply a p)) = fst (snd (RemoveMixerTrack_apply b q))) \<and>
      command_ready (RemoveMixerTrackC a) p = command_ready (RemoveMixerTrackC b) q"
    if s: "rt_id b = rt_id a" and v: "copyTables p = copyTables q" for b p q
    using tables_onlyD [OF tables_only_delete(5) v, of "rt_id a"] impact_cong(2) [OF v, of "rt_id a"] find_cong [OF v] captured_cong [OF v] findClip_cong [OF v] tables_fields [OF v]
      project_ok_view [OF v] s
    by (auto simp: RemoveMixerTrack_apply_def Let_def split_beta split: option.split)
  show "fst (fst (RemoveMixerTrack_revert a p), a, snd (RemoveMixerTrack_revert a p)) =
      fst (fst (RemoveMixerTrack_revert a q), a, snd (RemoveMixerTrack_revert a q)) \<and>
      fst (snd (fst (RemoveMixerTrack_revert a p), a, snd (RemoveMixerTrack_revert a p))) =
      fst (snd (fst (RemoveMixerTrack_revert a q), a, snd (RemoveMixerTrack_revert a q))) \<and>
      copyTables (snd (snd (fst (RemoveMixerTrack_revert a p), a, snd (RemoveMixerTrack_revert a p)))) =
      copyTables (snd (snd (fst (RemoveMixerTrack_revert a q), a, snd (RemoveMixerTrack_revert a q))))"
    if v: "copyTables p = copyTables q" for p q
    using tables_onlyD [OF tables_only_restore(5) v, of "rt_track a"]
    by (auto simp: RemoveMixerTrack_revert_def Let_def split_beta
        intro!: tables_only_restore_clips tables_only_fold tables_only_fold_pairs tables_only_update)
  show "fst (fst (RemoveMixerTrack_revert a' p'), a', snd (RemoveMixerTrack_revert a' p')) \<and>
      copyTables (snd (snd (fst (RemoveMixerTrack_revert a' p'), a', snd (RemoveMixerTrack_revert a' p')))) = copyTables p"
    if "command_ready (RemoveMixerTrackC a) p" "RemoveMixerTrack_apply a p = (True, a', p')" for p a' p'
    using that RemoveMixerTrack_undo [of p a a' p'] by auto
  show "copyTables (snd (snd (RemoveMixerTrack_apply a p))) = copyTables p" if "\<not> fst (RemoveMixerTrack_apply a p)" for p
    using that by (auto simp: RemoveMixerTrack_apply_def Let_def split_beta refused split: option.splits)
qed (simp_all add: holding_def keeping_def)

lemma Note_apply_eq:
  "Note_apply c p =
     (case om_find (patterns p) (nc_pattern c) of None \<Rightarrow> (False, c, p)
      | Some pat \<Rightarrow> (let e = editSequence (nc_pattern c) (nc_instrument c) (nc_removed c) (nc_added c) p;
           w = followPatternLength (nc_pattern c) (patternEffectiveLength pat) (snd e)
         in if fst e then (True, c\<lparr>nc_resized := fst w\<rparr>, snd w) else (False, c, snd e)))"
  by (simp add: Note_apply_def findPattern_def Let_def split_beta split: option.split)

lemma follow_cong:
  assumes "copyTables p = copyTables q"
  shows "fst (followPatternLength pid b p) = fst (followPatternLength pid b q) \<and>
    copyTables (snd (followPatternLength pid b p)) = copyTables (snd (followPatternLength pid b q))"
proof -
  have "patterns p = patterns q" "clips p = clips q" "clipsUsingPattern p pid = clipsUsingPattern q pid"
    using tables_fields [OF assms] impact_cong(4) [OF assms] by blast+
  then show ?thesis unfolding followPatternLength_eq follows_def assms by (simp only: simp_thms)
qed

lemma editSequence_refused:
  "\<not> fst (editSequence pid i taken give p) \<Longrightarrow> snd (editSequence pid i taken give p) = p"
  by (auto simp: editSequence_def Let_def split_beta refused split: option.splits if_splits)

lemma current_cong: "patterns p = patterns q \<Longrightarrow> current_notes p pid i = current_notes q pid i"
  by (simp add: current_notes_def)

lemma meets_note: "meets_contract (NoteC a)"
proof (rule meets_holding [where k = NoteC and f = Note_apply and g = Note_revert
      and same = "\<lambda>b c. c\<lparr>nc_resized := []\<rparr> = b\<lparr>nc_resized := []\<rparr>"])
  show "\<exists>b. d = NoteC b \<and> b\<lparr>nc_resized := []\<rparr> = a\<lparr>nc_resized := []\<rparr>" if "essence d = essence (NoteC a)" for d
    using that by (cases d) simp_all
  show "fst (Note_apply a p) = fst (Note_apply b q) \<and>
      copyTables (snd (snd (Note_apply a p))) = copyTables (snd (snd (Note_apply b q))) \<and>
      (fst (Note_apply a p) \<longrightarrow> fst (snd (Note_apply a p)) = fst (snd (Note_apply b q))) \<and>
      command_ready (NoteC a) p = command_ready (NoteC b) q"
    if s: "b\<lparr>nc_resized := []\<rparr> = a\<lparr>nc_resized := []\<rparr>" and v: "copyTables p = copyTables q" for b p q
  proof -
    have b: "nc_pattern b = nc_pattern a" "nc_instrument b = nc_instrument a"
      "nc_removed b = nc_removed a" "nc_added b = nc_added a" "\<And>r. b\<lparr>nc_resized := r\<rparr> = a\<lparr>nc_resized := r\<rparr>"
      using s by (cases a; cases b; simp)+
    define e where "e = editSequence (nc_pattern a) (nc_instrument a) (nc_removed a) (nc_added a)"
    have e: "fst (e p) = fst (e q)" "copyTables (snd (e p)) = copyTables (snd (e q))"
      using tables_onlyD [OF tables_only_editSequence v] unfolding e_def by blast+
    have w: "fst (followPatternLength (nc_pattern a) x (snd (e p))) = fst (followPatternLength (nc_pattern a) x (snd (e q)))"
      "copyTables (snd (followPatternLength (nc_pattern a) x (snd (e p)))) =
       copyTables (snd (followPatternLength (nc_pattern a) x (snd (e q))))" for x
      using follow_cong [OF e(2)] by blast+
    have p: "patterns p = patterns q" using tables_fields [OF v] by blast
    have "fst (Note_apply a p) = fst (Note_apply b q) \<and>
      copyTables (snd (snd (Note_apply a p))) = copyTables (snd (snd (Note_apply b q))) \<and>
      (fst (Note_apply a p) \<longrightarrow> fst (snd (Note_apply a p)) = fst (snd (Note_apply b q)))"
      by (cases "om_find (patterns q) (nc_pattern a)"; cases "fst (e q)")
         (simp_all add: Note_apply_eq b p Let_def e_def [symmetric] e w v del: copyTables_same)
    moreover have "command_ready (NoteC a) p = command_ready (NoteC b) q"
      using current_cong [OF p] project_ok_view [OF v] by (simp add: b)
    ultimately show ?thesis by blast
  qed
  show "fst (Note_revert a p) = fst (Note_revert a q) \<and>
      fst (snd (Note_revert a p)) = fst (snd (Note_revert a q)) \<and>
      copyTables (snd (snd (Note_revert a p))) = copyTables (snd (snd (Note_revert a q)))"
    if v: "copyTables p = copyTables q" for p q
  proof -
    define e where "e = editSequence (nc_pattern a) (nc_instrument a) (nc_added a) (nc_removed a)"
    have e: "fst (e p) = fst (e q)" "copyTables (snd (e p)) = copyTables (snd (e q))"
      using tables_onlyD [OF tables_only_editSequence v] unfolding e_def by blast+
    show ?thesis
      using tables_only_restore_lengths [OF e(2)] e
      by (simp add: Note_revert_def Let_def split_beta e_def [symmetric])
  qed
  show "fst (Note_revert a' p') \<and> copyTables (snd (snd (Note_revert a' p'))) = copyTables p"
    if r: "command_ready (NoteC a) p" and ap: "Note_apply a p = (True, a', p')" for p a' p'
    using Note_undo [OF _ _ ap] r by auto
  show "copyTables (snd (snd (Note_apply a p))) = copyTables p" if "\<not> fst (Note_apply a p)" for p
    using that by (auto simp: Note_apply_eq Let_def editSequence_refused split: option.splits if_splits)
qed simp_all

lemma meets_transport: "meets_contract (TransportC a)"
proof (rule meets_holding [where k = TransportC and f = Transport_apply and g = Transport_revert
      and same = "\<lambda>b c. c\<lparr>tc_original_lengths := []\<rparr> = b\<lparr>tc_original_lengths := []\<rparr>"])
  show "\<exists>b. d = TransportC b \<and> b\<lparr>tc_original_lengths := []\<rparr> = a\<lparr>tc_original_lengths := []\<rparr>"
    if "essence d = essence (TransportC a)" for d
    using that by (cases d) simp_all
  have st: "copyTables (setTransport t p) = copyTables (setTransport t q)"
    if v: "copyTables p = copyTables q" for t p q
    using v by (simp add: setTransport_frame)
  show "fst (Transport_apply a p) = fst (Transport_apply b q) \<and>
      copyTables (snd (snd (Transport_apply a p))) = copyTables (snd (snd (Transport_apply b q))) \<and>
      (fst (Transport_apply a p) \<longrightarrow> fst (snd (Transport_apply a p)) = fst (snd (Transport_apply b q))) \<and>
      command_ready (TransportC a) p = command_ready (TransportC b) q"
    if s: "b\<lparr>tc_original_lengths := []\<rparr> = a\<lparr>tc_original_lengths := []\<rparr>" and v: "copyTables p = copyTables q" for b p q
  proof -
    have b: "tc_before b = tc_before a" "tc_after b = tc_after a" "\<And>r. b\<lparr>tc_original_lengths := r\<rparr> = a\<lparr>tc_original_lengths := r\<rparr>"
      using s by (cases a; cases b; simp)+
    have l: "audio_lengths (setTransport t p) = audio_lengths (setTransport t q)" for t
      using tables_fields [OF v] by (intro audio_lengths_cong) simp
    note r = tables_only_restore_lengths [OF st [OF v]]
    show ?thesis
      using tables_fields [OF v] st [OF v]
      by (simp add: Transport_apply_def rescaleAudioClips_def Let_def split_beta b l r)
  qed
  show "fst (Transport_revert a p) = fst (Transport_revert a q) \<and>
      fst (snd (Transport_revert a p)) = fst (snd (Transport_revert a q)) \<and>
      copyTables (snd (snd (Transport_revert a p))) = copyTables (snd (snd (Transport_revert a q)))"
    if v: "copyTables p = copyTables q" for p q
    using tables_only_restore_lengths [OF st [OF v]] by (simp add: Transport_revert_def)
  show "fst (Transport_revert a' p') \<and> copyTables (snd (snd (Transport_revert a' p'))) = copyTables p"
    if "command_ready (TransportC a) p" and "Transport_apply a p = (True, a', p')" for p a' p'
    using Transport_undo [of p a a' p'] that by (simp add: Transport_revert_def)
  show "copyTables (snd (snd (Transport_apply a p))) = copyTables p" if "\<not> fst (Transport_apply a p)" for p
    using that by (simp add: Transport_apply_def split_beta)
qed simp_all

subsection \<open>Composites, and the instance of the library\<close>

lemma meets_composite:
  assumes "\<And>c. command_depth c < command_depth (CompositeC n cs) \<Longrightarrow> meets_contract c"
  shows "meets_contract (CompositeC n cs)"
proof -
  let ?N = "command_depth (CompositeC n cs)"
  have r: "reversible apply_command revert_command copyTables essence command_ready (\<lambda>c. command_depth c < ?N)"
    by unfold_locales (use assms in \<open>auto simp: meets_contract_def apply_essence, metis essence_depth\<close>)
  have cov: "\<forall>c \<in> set cs. command_depth c < ?N"
    using depth_child by blast
  have over: "\<exists>ds. d = CompositeC n ds \<and> map essence ds = map essence cs"
    if "essence d = essence (CompositeC n cs)" for d
    using that by (cases d) auto
  show ?thesis
  proof (rule meets_contractI)
    fix d p q
    assume d: "essence d = essence (CompositeC n cs)" and v: "copyTables p = copyTables q"
    then obtain ds where ds: "d = CompositeC n ds" "map essence ds = map essence cs" using over by blast
    obtain ok cs' p' where a: "run_all apply_command revert_command [] cs p = (ok, cs', p')"
      by (cases "run_all apply_command revert_command [] cs p")
    from reversible.run_all_view [OF r cov _ ds(2) v [symmetric] a] obtain ds' q' where
      b: "run_all apply_command revert_command [] ds q = (ok, ds', q')" "copyTables q' = copyTables p'" "ok \<longrightarrow> ds' = cs'"
      by auto
    have "ready_all apply_command command_ready ds q = ready_all apply_command command_ready cs p"
      by (rule reversible.ready_all_view [OF r cov ds(2) v [symmetric]])
    then show "fst (apply_command (CompositeC n cs) p) = fst (apply_command d q) \<and>
      copyTables (snd (snd (apply_command (CompositeC n cs) p))) = copyTables (snd (snd (apply_command d q))) \<and>
      (fst (apply_command (CompositeC n cs) p) \<longrightarrow> fst (snd (apply_command (CompositeC n cs) p)) = fst (snd (apply_command d q))) \<and>
      command_ready (CompositeC n cs) p = command_ready d q"
      using b by (simp add: a ds(1))
  next
    fix p q :: project
    assume v: "copyTables p = copyTables q"
    obtain ok cs' p' where a: "revert_all revert_command (rev cs) p = (ok, cs', p')"
      by (cases "revert_all revert_command (rev cs) p")
    from reversible.revert_all_view [OF r _ v [symmetric] a] cov obtain q' where
      "revert_all revert_command (rev cs) q = (ok, cs', q')" "copyTables q' = copyTables p'" by auto
    then show "fst (revert_command (CompositeC n cs) p) = fst (revert_command (CompositeC n cs) q) \<and>
      fst (snd (revert_command (CompositeC n cs) p)) = fst (snd (revert_command (CompositeC n cs) q)) \<and>
      copyTables (snd (snd (revert_command (CompositeC n cs) p))) = copyTables (snd (snd (revert_command (CompositeC n cs) q)))"
      by (simp add: a)
  next
    fix p c' p'
    assume rd: "command_ready (CompositeC n cs) p" and a: "apply_command (CompositeC n cs) p = (True, c', p')"
    from a obtain cs' where c': "c' = CompositeC n cs'"
      and a': "run_all apply_command revert_command [] cs p = (True, cs', p')"
      by (auto split: prod.splits)
    have "ready_all apply_command command_ready cs p" using rd by simp
    from reversible.run_all_chain [OF r reversible.chain_Nil [OF r refl] cov this a']
    have "reversible.chain apply_command copyTables command_ready (\<lambda>c. command_depth c < ?N) (rev cs') (rev cs) p p'"
      by simp
    from reversible.chain_revert [OF r this refl] obtain ds p'' where
      "revert_all revert_command (rev cs') p' = (True, ds, p'')" "copyTables p'' = copyTables p" by auto
    then show "\<exists>c'' p''. revert_command c' p' = (True, c'', p'') \<and> copyTables p'' = copyTables p"
      by (simp add: c')
  next
    fix p c' p'
    assume rd: "command_ready (CompositeC n cs) p" and a: "apply_command (CompositeC n cs) p = (False, c', p')"
    from a obtain cs' where a': "run_all apply_command revert_command [] cs p = (False, cs', p')"
      by (auto split: prod.splits)
    have "ready_all apply_command command_ready cs p" using rd by simp
    from reversible.run_all_chain [OF r reversible.chain_Nil [OF r refl] cov this a']
    show "copyTables p' = copyTables p" by simp
  qed
qed

lemma every_command_meets: "meets_contract c"
proof (induction "command_depth c" arbitrary: c rule: less_induct)
  case less
  show ?case
  proof (cases c)
    case (CompositeC n cs)
    have "meets_contract d" if "command_depth d < command_depth (CompositeC n cs)" for d
      using less that CompositeC by blast
    then show ?thesis unfolding CompositeC by (rule meets_composite)
  qed (simp_all add: meets_add meets_edit meets_meta meets_effect_param meets_note meets_transport
      meets_RemoveInstrument meets_RemovePattern meets_RemoveLane meets_RemoveClip meets_RemoveMixerTrack)
qed

interpretation cmd: reversible apply_command revert_command copyTables essence command_ready "\<lambda>_. True"
  by unfold_locales (simp_all add: every_command_meets [unfolded meets_contract_def] apply_essence)

end
