(* ===== verification/Sample.thy ===== *)
theory Sample
  imports Project_Inv
begin

text \<open>
  A small project the witnesses run on: an instrument with two patterns' worth of notes, a lane
  grouped under another, pattern, audio and automation clips, and a mixer of three tracks with
  an effect.  It satisfies the invariant, which is established by running the checker.
\<close>

definition ins1 :: instrument_id where "ins1 = TypedId (RawId 1 1)"
definition pat1 :: pattern_id where "pat1 = TypedId (RawId 2 1)"
definition pat2 :: pattern_id where "pat2 = TypedId (RawId 2 2)"
definition lan1 :: lane_id where "lan1 = TypedId (RawId 3 1)"
definition lan2 :: lane_id where "lan2 = TypedId (RawId 3 2)"
definition clp1 :: clip_id where "clp1 = TypedId (RawId 4 1)"
definition clp2 :: clip_id where "clp2 = TypedId (RawId 4 2)"
definition clp3 :: clip_id where "clp3 = TypedId (RawId 4 3)"
definition clp4 :: clip_id where "clp4 = TypedId (RawId 4 4)"
definition mix0 :: track_id where "mix0 = TypedId (RawId 5 1)"
definition mix1 :: track_id where "mix1 = TypedId (RawId 5 2)"
definition mix2 :: track_id where "mix2 = TypedId (RawId 5 3)"
definition efx1 :: effect_id where "efx1 = TypedId (RawId 6 1)"

lemmas sample_ids = ins1_def pat1_def pat2_def lan1_def lan2_def clp1_def clp2_def clp3_def
  clp4_def mix0_def mix1_def mix2_def efx1_def

definition sample_note :: "int \<Rightarrow> int \<Rightarrow> Note" where
  "sample_note start key = \<lparr>note_start = start, note_length = 240, note_key = key, note_velocity = 100\<rparr>"

definition sample_project :: project where
  "sample_project =
     \<lparr>instruments = om_insert ins1 (default_instrument\<lparr>inst_id := ins1, inst_name := ''Kick'',
        inst_routing := [\<lparr>route_port = 0, route_track = mix2\<rparr>]\<rparr>) om_empty,
      patterns =
        om_insert pat1 (default_pattern\<lparr>pat_id := pat1, pat_length := 3840,
          pat_sequences := om_insert ins1 [sample_note 0 36, sample_note 960 36] om_empty\<rparr>)
        (om_insert pat2 (default_pattern\<lparr>pat_id := pat2, pat_order := 1\<rparr>) om_empty),
      lanes =
        om_insert lan1 (default_lane\<lparr>lane_id := lan1\<rparr>)
        (om_insert lan2 (default_lane\<lparr>lane_id := lan2, lane_order := 1, lane_group_id := Some lan1\<rparr>)
          om_empty),
      clips =
        om_insert clp1 (default_clip\<lparr>clip_id := clp1, clip_lane := lan1, clip_length := 3840,
          clip_source := SrcPattern pat1\<rparr>)
        (om_insert clp2 (default_clip\<lparr>clip_id := clp2, clip_lane := lan2, clip_length := 1920,
          clip_source := SrcAudio (default_audio\<lparr>au_destination := mix2, au_source_length := 1920\<rparr>)\<rparr>)
        (om_insert clp3 (default_clip\<lparr>clip_id := clp3, clip_lane := lan1, clip_length := 960,
          clip_source := SrcAutomation (default_automation\<lparr>as_instrument := ins1\<rparr>)\<rparr>)
        (om_insert clp4 (default_clip\<lparr>clip_id := clp4, clip_lane := lan2, clip_length := 960,
          clip_source := SrcAutomation (default_automation\<lparr>as_target_kind := TargetEffect,
            as_mixer_track := mix2, as_effect := efx1\<rparr>)\<rparr>) om_empty))),
      mixer_tracks =
        om_insert mix0 (default_mixer_track\<lparr>track_id := mix0, track_name := ''Master''\<rparr>)
        (om_insert mix1 (default_mixer_track\<lparr>track_id := mix1, track_output := Some mix0\<rparr>)
        (om_insert mix2 (default_mixer_track\<lparr>track_id := mix2, track_output := Some mix1,
          track_effects := [default_effect_slot\<lparr>slot_id := efx1\<rparr>]\<rparr>) om_empty)),
      master = mix0, transport = default_transport, meta = default_meta,
      generator = deterministic_generator 7 1000, changes = [],
      preferences = \<lparr>auto_create_mixer_track = True\<rparr>, debug_checks = True, aborted = False\<rparr>"

lemma sample_checked: "checkReferentialIntegrity sample_project = []"
  by code_simp

lemma keyed_entries:
  "keyed p \<longleftrightarrow>
     (\<forall>(i, e) \<in> set (om_entries (instruments p)). inst_id e = i \<and> valid_id i) \<and>
     (\<forall>(i, e) \<in> set (om_entries (patterns p)). pat_id e = i \<and> valid_id i) \<and>
     (\<forall>(i, e) \<in> set (om_entries (lanes p)). lane_id e = i \<and> valid_id i) \<and>
     (\<forall>(i, e) \<in> set (om_entries (clips p)). clip_id e = i \<and> valid_id i) \<and>
     (\<forall>(i, e) \<in> set (om_entries (mixer_tracks p)). track_id e = i \<and> valid_id i)"
  by (simp add: keyed_def om_entries_ball)

lemma rooted_code:
  "rooted p \<longleftrightarrow> (case om_find (mixer_tracks p) (master p) of None \<Rightarrow> False | Some t \<Rightarrow> track_output t = None)"
  by (simp add: rooted_def split: option.split)

declare keyed_entries [code] rooted_code [code] integrity_iff [symmetric, code]

lemma sample_sound: "sound sample_project"
proof -
  have "keyed sample_project" "rooted sample_project" by code_simp+
  moreover have "\<not> aborted sample_project" by (simp add: sample_project_def)
  ultimately show ?thesis
    using sample_checked [unfolded integrity_iff] by (simp add: sound_def project_ok_def)
qed

end
