(* ===== verification/Command_Bus.thy ===== *)
theory Command_Bus
  imports Commands_Contract Sample
begin

text \<open>
  The history of \<open>model/command.h\<close> and \<open>model/command.cpp\<close>: the undo and redo stacks, nested
  gestures and coalescing.  The stacks and \<open>open_\<close> have their back at the head of the list;
  the commands of an open gesture are in the order they were added.
\<close>

record command_bus =
  bus_project :: project
  undo_stack :: "command list"
  redo_stack :: "command list"
  bus_open :: "(string \<times> command list) list"
  coalescable :: bool

definition new_command_bus :: "project \<Rightarrow> command_bus" where
  "new_command_bus p = \<lparr>bus_project = p, undo_stack = [], redo_stack = [], bus_open = [], coalescable = False\<rparr>"

definition canUndo :: "command_bus \<Rightarrow> bool" where
  "canUndo b \<longleftrightarrow> undo_stack b \<noteq> []"
definition canRedo :: "command_bus \<Rightarrow> bool" where
  "canRedo b \<longleftrightarrow> redo_stack b \<noteq> []"
definition undoName :: "command_bus \<Rightarrow> string" where
  "undoName b = (if canUndo b then command_name (hd (undo_stack b)) else [])"
definition redoName :: "command_bus \<Rightarrow> string" where
  "redoName b = (if canRedo b then command_name (hd (redo_stack b)) else [])"
definition inTransaction :: "command_bus \<Rightarrow> bool" where
  "inTransaction b \<longleftrightarrow> bus_open b \<noteq> []"

definition record_command :: "command \<Rightarrow> command_bus \<Rightarrow> command_bus" where
  "record_command c b =
     (case bus_open b of
        (n, cs) # fs \<Rightarrow> b\<lparr>bus_open := (n, cs @ [c]) # fs\<rparr>
      | [] \<Rightarrow>
          let b1 = b\<lparr>redo_stack := []\<rparr> in
          (case (if coalescable b \<and> undo_stack b \<noteq> [] then coalesceWith (hd (undo_stack b)) c else None) of
             Some c' \<Rightarrow> b1\<lparr>undo_stack := c' # tl (undo_stack b)\<rparr>
           | None \<Rightarrow> b1\<lparr>undo_stack := c # undo_stack b, coalescable := True\<rparr>))"

definition execute :: "command \<Rightarrow> command_bus \<Rightarrow> bool \<times> command_bus" where
  "execute c b =
     (let (ok, c', p') = apply_command c (bus_project b); b' = b\<lparr>bus_project := p'\<rparr> in
      if ok then (True, record_command c' b') else (False, b'))"

definition undo :: "command_bus \<Rightarrow> bool \<times> command_bus" where
  "undo b =
     (case undo_stack b of
        [] \<Rightarrow> (False, b)
      | c # cs \<Rightarrow>
          let (ok, c', p') = revert_command c (bus_project b) in
          if ok then (True, b\<lparr>bus_project := p', undo_stack := cs, redo_stack := c' # redo_stack b,
            coalescable := False\<rparr>)
          else (False, b\<lparr>bus_project := p', undo_stack := c' # cs\<rparr>))"

definition redo :: "command_bus \<Rightarrow> bool \<times> command_bus" where
  "redo b =
     (case redo_stack b of
        [] \<Rightarrow> (False, b)
      | c # cs \<Rightarrow>
          let (ok, c', p') = apply_command c (bus_project b) in
          if ok then (True, b\<lparr>bus_project := p', redo_stack := cs, undo_stack := c' # undo_stack b,
            coalescable := False\<rparr>)
          else (False, b\<lparr>bus_project := p', redo_stack := c' # cs\<rparr>))"

definition beginTransaction :: "string \<Rightarrow> command_bus \<Rightarrow> command_bus" where
  "beginTransaction n b = b\<lparr>bus_open := (n, []) # bus_open b\<rparr>"

definition commitTransaction :: "command_bus \<Rightarrow> command_bus" where
  "commitTransaction b =
     (case bus_open b of
        [] \<Rightarrow> b
      | (n, cs) # fs \<Rightarrow>
          let b1 = b\<lparr>bus_open := fs\<rparr> in
          if cs = [] then b1
          else (case fs of
                  (m, ds) # gs \<Rightarrow> b1\<lparr>bus_open := (m, ds @ [CompositeC n cs]) # gs\<rparr>
                | [] \<Rightarrow> b1\<lparr>redo_stack := [], undo_stack := CompositeC n cs # undo_stack b,
                    coalescable := False\<rparr>))"

definition abortTransaction :: "command_bus \<Rightarrow> command_bus" where
  "abortTransaction b =
     (case bus_open b of
        [] \<Rightarrow> b
      | (n, cs) # fs \<Rightarrow>
          let (ok, c', p') = revert_command (CompositeC n cs) (bus_project b)
          in b\<lparr>bus_open := fs, bus_project := p'\<rparr>)"

definition seal :: "command_bus \<Rightarrow> command_bus" where
  "seal b = b\<lparr>coalescable := False\<rparr>"

definition clear_history :: "command_bus \<Rightarrow> command_bus" where
  "clear_history b = b\<lparr>undo_stack := [], redo_stack := [], bus_open := [], coalescable := False\<rparr>"

subsection \<open>Linked histories\<close>

text \<open>
  The stacks, the open gestures and the tables fit together: the undo stack leads from the
  tables the history began with to those the outermost gesture began with, the gestures lead
  from there to the present ones.
\<close>

abbreviation bus_tables :: "command_bus \<Rightarrow> Tables" where
  "bus_tables b \<equiv> copyTables (bus_project b)"

fun open_linked :: "(string \<times> command list) list \<Rightarrow> Tables \<Rightarrow> Tables \<Rightarrow> bool" where
  "open_linked [] s t \<longleftrightarrow> s = t"
| "open_linked ((n, cs) # fs) s t \<longleftrightarrow> (\<exists>m. open_linked fs s m \<and> cmd.undo_chain (rev cs) m t)"

definition history_linked :: "Tables \<Rightarrow> command_bus \<Rightarrow> bool" where
  "history_linked s b \<longleftrightarrow>
     (\<exists>m t. cmd.undo_chain (undo_stack b) s m \<and> open_linked (bus_open b) m (bus_tables b) \<and>
        cmd.redo_chain (redo_stack b) m t)"

text \<open>When an absorbed edit can be replayed from the absorbing command alone.\<close>

definition same_tempo :: "TransportCommand \<Rightarrow> bool" where
  "same_tempo c \<longleftrightarrow> fp_eq (tp_tempo (tc_before c)) (tp_tempo (tc_after c))"

definition coalesces_exactly :: "command \<Rightarrow> command \<Rightarrow> bool" where
  "coalesces_exactly c d \<longleftrightarrow>
     (case c of NoteC a \<Rightarrow> False
      | TransportC a \<Rightarrow> same_tempo a \<and> (case d of TransportC e \<Rightarrow> same_tempo e | _ \<Rightarrow> True)
      | _ \<Rightarrow> True)"

definition admissible :: "command \<Rightarrow> command_bus \<Rightarrow> bool" where
  "admissible c b \<longleftrightarrow> command_ready c (bus_project b) \<and>
     (bus_open b = [] \<longrightarrow> coalescable b \<longrightarrow> undo_stack b \<noteq> [] \<longrightarrow>
        (let c' = fst (snd (apply_command c (bus_project b))) in
         coalesceWith (hd (undo_stack b)) c' \<noteq> None \<longrightarrow> coalesces_exactly (hd (undo_stack b)) c'))"

subsection \<open>Coalescing\<close>

lemma applied_essence:
  assumes "cmd.applied c' s t"
  obtains c p p' where "copyTables p = s" and "command_ready c p" and "apply_command c p = (True, c', p')"
    and "copyTables p' = t" and "essence c = essence c'"
  using assms apply_essence unfolding cmd.applied_def by (metis fst_conv snd_conv)

lemma applied_then:
  assumes "cmd.applied d' m t" and "copyTables p = m"
  obtains d p' where "command_ready d p" and "apply_command d p = (True, d', p')"
    and "copyTables p' = t" and "essence d = essence d'"
proof -
  obtain d q q' where d: "copyTables q = m" "command_ready d q" "apply_command d q = (True, d', q')"
    "copyTables q' = t" "essence d = essence d'"
    by (rule applied_essence [OF assms(1)])
  have v: "copyTables p = copyTables q" using assms(2) d(1) by (rule trans [OF _ sym])
  from cmd.ap_view [OF TrueI refl v d(3)] obtain p' where
    "apply_command d p = (True, d', p')" "copyTables p' = copyTables q'" by auto
  with cmd.ready_view [OF TrueI refl v] d show ?thesis by (intro that [of d p']) simp_all
qed

text \<open>Absorbing is exact where the merged command alone does what the two did.\<close>

lemma applied_merge:
  assumes "cmd.applied c s m" and "cmd.applied d m t"
    and plain: "\<And>b. essence b = essence c \<Longrightarrow> b = c" "\<And>b. essence b = essence d \<Longrightarrow> b = d"
    and "\<And>p p' p''. command_ready c p \<Longrightarrow> apply_command c p = (True, c, p') \<Longrightarrow>
      apply_command d p' = (True, d, p'') \<Longrightarrow>
      command_ready e p \<and> (\<exists>q. apply_command e p = (True, e, q) \<and> copyTables q = copyTables p'')"
  shows "cmd.applied e s t"
proof -
  obtain c0 p p' where c: "copyTables p = s" "command_ready c0 p" "apply_command c0 p = (True, c, p')"
    "copyTables p' = m" "essence c0 = essence c"
    by (rule applied_essence [OF assms(1)])
  obtain d0 p'' where d: "apply_command d0 p' = (True, d, p'')" "copyTables p'' = t" "essence d0 = essence d"
    by (rule applied_then [OF assms(2) c(4)])
  have "c0 = c" "d0 = d" using plain c(5) d(3) by blast+
  with assms(5) [of p p' p''] c d obtain q where
    "command_ready e p" "apply_command e p = (True, e, q)" "copyTables q = t" by auto
  with cmd.appliedI [of e p e q] c(1) show ?thesis by simp
qed

lemma om_update_update: "om_update i f (om_update i g m) = om_update i (\<lambda>x. f (g x)) m"
  by (rule om_eqI) (auto simp: option.map_comp comp_def)

lemma write_meta_twice: "write_pattern_meta a (write_pattern_meta b pat) = write_pattern_meta a pat"
  by (simp add: write_pattern_meta_def)

lemma write_param_twice: "write_param e q u (write_param e q v t) = write_param e q u t" if "u \<noteq> None"
proof (cases "indexOfEffect (track_effects t) e")
  case (Some k)
  have k: "k < length (track_effects t)" "slot_id (track_effects t ! k) = e"
    using indexOfEffect_Some [OF Some] by simp_all
  have "indexOfEffect ((track_effects t)[k := (track_effects t ! k)\<lparr>slot_params := z\<rparr>]) e = Some k" for z
    using indexOfEffect_update [of "(track_effects t ! k)\<lparr>slot_params := z\<rparr>" "track_effects t" k e] k Some by simp
  moreover have "om_insert q w (om_erase q m) = om_insert q w m" for w and m :: "(param_id, fp) omap"
    by (rule om_eqI) simp
  ultimately show ?thesis using k Some that
    by (auto simp: write_param_def Let_def split: option.splits)
qed (simp add: write_param_def)

lemma merge_edit:
  assumes "cmd.applied c s m" and "cmd.applied d m t" and "coalesceWith c d = Some e"
    and "case c of NoteC _ \<Rightarrow> False | TransportC _ \<Rightarrow> False | _ \<Rightarrow> True"
  shows "cmd.applied e s t"
proof (rule applied_merge [OF assms(1,2)])
  show "b = c" if "essence b = essence c" for b
    using assms(3,4) that by (cases c) (auto simp: coalesceWith_def essence_plain split: command.splits)
  show "b = d" if "essence b = essence d" for b
    using assms(3,4) that by (cases c; cases d) (auto simp: coalesceWith_def essence_plain)
  show "command_ready e p \<and> (\<exists>q. apply_command e p = (True, e, q) \<and> copyTables q = copyTables p'')"
    if "command_ready c p" "apply_command c p = (True, c, p')" "apply_command d p' = (True, d, p'')" for p p' p''
  proof (cases c)
    case (EditInstrumentC x)
    with assms(3) obtain y where y: "d = EditInstrumentC y" "ed_id y = ed_id x" "ed_field y = ed_field x"
      "e = EditInstrumentC (x\<lparr>ed_after := ed_after y\<rparr>)"
      by (auto simp: coalesceWith_def Edit_coalesce_def split: command.splits if_splits)
    from that show ?thesis unfolding EditInstrumentC y
      by (auto simp: keeping_eq edit_defs update_pair update_fst update_tables update_fields om_update_update y(2,3))
  next
    case (EditPatternC x)
    with assms(3) obtain y where y: "d = EditPatternC y" "ed_id y = ed_id x" "ed_field y = ed_field x"
      "e = EditPatternC (x\<lparr>ed_after := ed_after y\<rparr>)"
      by (auto simp: coalesceWith_def Edit_coalesce_def split: command.splits if_splits)
    from that show ?thesis unfolding EditPatternC y
      by (auto simp: keeping_eq edit_defs update_pair update_fst update_tables update_fields om_update_update y(2,3)
          write_meta_twice)
  next
    case (EditLaneC x)
    with assms(3) obtain y where y: "d = EditLaneC y" "ed_id y = ed_id x" "ed_field y = ed_field x"
      "e = EditLaneC (x\<lparr>ed_after := ed_after y\<rparr>)"
      by (auto simp: coalesceWith_def Edit_coalesce_def split: command.splits if_splits)
    from that show ?thesis unfolding EditLaneC y
      by (auto simp: keeping_eq edit_defs update_pair update_fst update_tables update_fields om_update_update y(2,3))
  next
    case (EditClipC x)
    with assms(3) obtain y where y: "d = EditClipC y" "ed_id y = ed_id x" "ed_field y = ed_field x"
      "e = EditClipC (x\<lparr>ed_after := ed_after y\<rparr>)"
      by (auto simp: coalesceWith_def Edit_coalesce_def split: command.splits if_splits)
    from that show ?thesis unfolding EditClipC y
      by (auto simp: keeping_eq edit_defs update_pair update_fst update_tables update_fields om_update_update y(2,3))
  next
    case (EditMixerTrackC x)
    with assms(3) obtain y where y: "d = EditMixerTrackC y" "ed_id y = ed_id x" "ed_field y = ed_field x"
      "e = EditMixerTrackC (x\<lparr>ed_after := ed_after y\<rparr>)"
      by (auto simp: coalesceWith_def Edit_coalesce_def split: command.splits if_splits)
    from that show ?thesis unfolding EditMixerTrackC y
      by (auto simp: keeping_eq edit_defs update_pair update_fst update_tables update_fields om_update_update y(2,3))
  next
    case (EffectParamC x)
    with assms(3) obtain y where y: "d = EffectParamC y" "ep_track y = ep_track x" "ep_effect y = ep_effect x"
      "ep_parameter y = ep_parameter x" "e = EffectParamC (x\<lparr>ep_after := ep_after y\<rparr>)"
      by (auto simp: coalesceWith_def EffectParam_coalesce_def split: command.splits if_splits)
    from that show ?thesis unfolding EffectParamC y
      by (auto simp: keeping_eq EffectParam_write_def update_pair update_fst update_tables update_fields
          om_update_update y(2,3,4) write_param_twice param_before_ok_def split: option.splits)
  qed (use assms(3,4) in \<open>simp_all add: coalesceWith_def\<close>)
qed

lemma fp_eq_trans: "fp_eq x y \<Longrightarrow> fp_eq y z \<Longrightarrow> fp_eq x z"
  by (cases x; cases y; cases z) auto

lemma same_tempo_apply:
  "same_tempo c \<Longrightarrow> Transport_apply c p = (True, c\<lparr>tc_original_lengths := []\<rparr>, setTransport (tc_after c) p)"
  by (simp add: Transport_apply_def rescaleAudioClips_def same_tempo_def)

lemma transport_set: "transport (setTransport t p) = t"
proof -
  have "transport (copyTables (setTransport t p)) = t" unfolding setTransport_frame(1) by (cases "copyTables p") simp
  then show ?thesis unfolding copyTables_sel .
qed

lemma merge_transport:
  assumes "cmd.applied (TransportC a) s m" and "cmd.applied (TransportC d) m t"
    and "same_tempo a" and "same_tempo d"
  shows "cmd.applied (TransportC (a\<lparr>tc_after := tc_after d\<rparr>)) s t"
proof -
  obtain c p p' where c: "copyTables p = s" "command_ready c p" "apply_command c p = (True, TransportC a, p')"
    "copyTables p' = m" "essence c = essence (TransportC a)"
    by (rule applied_essence [OF assms(1)])
  obtain e p'' where e: "command_ready e p'" "apply_command e p' = (True, TransportC d, p'')"
    "copyTables p'' = t" "essence e = essence (TransportC d)"
    by (rule applied_then [OF assms(2) c(4)])
  obtain c1 where c1: "c = TransportC c1" using c(5) by (cases c) simp_all
  obtain e1 where e1: "e = TransportC e1" using e(4) by (cases e) simp_all
  have eqs: "tc_before c1 = tc_before a" "tc_after c1 = tc_after a" "tc_before e1 = tc_before d" "tc_after e1 = tc_after d"
    using c(5) e(4) unfolding c1 e1 by (cases c1; cases e1; cases a; cases d; simp)+
  then have s1: "same_tempo c1" "same_tempo e1" using assms(3,4) by (simp_all add: same_tempo_def)
  have a: "a = c1\<lparr>tc_original_lengths := []\<rparr>" "p' = setTransport (tc_after a) p"
    using c(3) s1(1) eqs(2) [symmetric] by (auto simp: c1 same_tempo_apply holding_eq)
  have d: "p'' = setTransport (tc_after d) p'"
    using e(2) s1(2) eqs(4) [symmetric] by (auto simp: e1 same_tempo_apply holding_eq)
  let ?m = "a\<lparr>tc_after := tc_after d\<rparr>"
  have "transport p' = tc_before d" using e(1) eqs by (simp add: e1)
  moreover have "transport p' = tc_after a"
    unfolding a(2) by (rule transport_set)
  ultimately have "same_tempo ?m"
    using assms(3,4) fp_eq_trans [of _ "tp_tempo (tc_after a)"] by (simp add: same_tempo_def)
  moreover have "tc_original_lengths a = []" by (simp add: a(1))
  ultimately have "apply_command (TransportC ?m) p = (True, TransportC ?m, setTransport (tc_after d) p)"
    by (cases a) (simp add: same_tempo_apply holding_eq)
  moreover have "command_ready (TransportC ?m) p" using c(2) eqs by (simp add: c1)
  moreover have "copyTables (setTransport (tc_after d) p) = t"
    using e(3) unfolding d a(2) by simp
  ultimately show ?thesis using cmd.appliedI [of "TransportC ?m" p "TransportC ?m"] c(1) by simp
qed

lemma merge_exact:
  assumes "cmd.applied c s m" and "cmd.applied d m t" and "coalesceWith c d = Some e" and "coalesces_exactly c d"
  shows "cmd.applied e s t"
proof (cases "\<exists>a. c = TransportC a")
  case True
  with assms(3,4) obtain a b where "c = TransportC a" "d = TransportC b" "e = TransportC (a\<lparr>tc_after := tc_after b\<rparr>)"
    "same_tempo a" "same_tempo b"
    by (auto simp: coalesceWith_def Transport_coalesce_def coalesces_exactly_def split: command.splits)
  with merge_transport assms(1,2) show ?thesis by blast
next
  case False
  with assms(4) have "case c of NoteC _ \<Rightarrow> False | TransportC _ \<Rightarrow> False | _ \<Rightarrow> True"
    by (cases c) (simp_all add: coalesces_exactly_def)
  then show ?thesis by (rule merge_edit [OF assms(1-3)])
qed

subsection \<open>Every operation keeps the history linked\<close>

lemma open_linked_push:
  "open_linked ((n, cs) # fs) s m \<Longrightarrow> cmd.applied c m t \<Longrightarrow> open_linked ((n, cs @ [c]) # fs) s t"
  by auto

lemma record_linked:
  assumes u: "cmd.undo_chain (undo_stack b) s m" and l: "open_linked (bus_open b) m v"
    and r: "cmd.redo_chain (redo_stack b) m t" and a: "cmd.applied c v (bus_tables b)"
    and e: "bus_open b = [] \<longrightarrow> coalescable b \<longrightarrow> undo_stack b \<noteq> [] \<longrightarrow>
        coalesceWith (hd (undo_stack b)) c \<noteq> None \<longrightarrow> coalesces_exactly (hd (undo_stack b)) c"
  shows "history_linked s (record_command c b)"
proof (cases "bus_open b")
  case (Cons f fs)
  obtain n cs where f: "f = (n, cs)" by fastforce
  have "open_linked ((n, cs @ [c]) # fs) m (bus_tables b)"
    by (rule open_linked_push [OF _ a]) (use l in \<open>simp add: Cons f\<close>)
  then show ?thesis using u r unfolding history_linked_def record_command_def
    by (simp only: Cons f list.case prod.case) (simp del: open_linked.simps, blast)
next
  case Nil
  then have v: "v = m" using l by simp
  let ?w = "if coalescable b \<and> undo_stack b \<noteq> [] then coalesceWith (hd (undo_stack b)) c else None"
  show ?thesis
  proof (cases ?w)
    case None
    then have b: "undo_stack (record_command c b) = c # undo_stack b" "bus_open (record_command c b) = []"
      "redo_stack (record_command c b) = []" "bus_project (record_command c b) = bus_project b"
      by (simp_all add: record_command_def Nil Let_def)
    have "cmd.undo_chain (c # undo_stack b) s (bus_tables b)" using u a v by auto
    then show ?thesis unfolding history_linked_def b by auto
  next
    case (Some d)
    then obtain x xs where x: "undo_stack b = x # xs" "coalescable b" "coalesceWith x c = Some d"
      by (cases "undo_stack b") (auto split: if_splits)
    then have b: "undo_stack (record_command c b) = d # xs" "bus_open (record_command c b) = []"
      "redo_stack (record_command c b) = []" "bus_project (record_command c b) = bus_project b"
      by (simp_all add: record_command_def Nil Let_def)
    obtain w where w: "cmd.applied x w m" "cmd.undo_chain xs s w" using u x(1) by auto
    have "coalesces_exactly x c" using e x Nil by simp
    then have "cmd.applied d w (bus_tables b)"
      using merge_exact [OF w(1) _ x(3)] a v by blast
    with w(2) have "cmd.undo_chain (d # xs) s (bus_tables b)" by auto
    then show ?thesis unfolding history_linked_def b by auto
  qed
qed

lemma execute_linked:
  assumes h: "history_linked s b" and a: "admissible c b"
  shows "history_linked s (snd (execute c b))"
proof -
  obtain m t where mt: "cmd.undo_chain (undo_stack b) s m" "open_linked (bus_open b) m (bus_tables b)"
    "cmd.redo_chain (redo_stack b) m t" using h unfolding history_linked_def by blast
  obtain ok c' p' where ap: "apply_command c (bus_project b) = (ok, c', p')"
    by (cases "apply_command c (bus_project b)")
  have rd: "command_ready c (bus_project b)" using a by (simp add: admissible_def)
  show ?thesis
  proof (cases ok)
    case True
    let ?b = "b\<lparr>bus_project := p'\<rparr>"
    have ap': "cmd.applied c' (bus_tables b) (copyTables p')"
      using cmd.appliedI [OF TrueI rd] ap True by simp
    show ?thesis using record_linked [of ?b s m "bus_tables b" t c'] mt ap' ap True a
      by (simp add: execute_def admissible_def Let_def)
  next
    case False
    then have "copyTables p' = bus_tables b" using cmd.fail_step [OF TrueI rd] ap by simp
    then show ?thesis using mt ap False by (auto simp: execute_def history_linked_def)
  qed
qed

lemma undo_succeeds:
  assumes h: "history_linked s b" and c: "bus_open b = []" and u: "undo_stack b = x # xs"
  shows "\<exists>y q m. undo b = (True, b\<lparr>bus_project := q, undo_stack := xs, redo_stack := y # redo_stack b,
      coalescable := False\<rparr>) \<and> cmd.undo_chain xs s m \<and> copyTables q = m \<and> cmd.pending y m (bus_tables b)"
proof -
  obtain m where m: "cmd.applied x m (bus_tables b)" "cmd.undo_chain xs s m"
    using h c u unfolding history_linked_def by auto
  from cmd.applied_revert [OF m(1) refl] obtain y q where
    y: "revert_command x (bus_project b) = (True, y, q)" "copyTables q = m" "cmd.pending y m (bus_tables b)"
    by blast
  then have "undo b = (True, b\<lparr>bus_project := q, undo_stack := xs, redo_stack := y # redo_stack b,
      coalescable := False\<rparr>)" by (simp add: undo_def u)
  with m(2) y(2,3) show ?thesis by blast
qed

lemma redo_succeeds:
  assumes h: "history_linked s b" and c: "bus_open b = []" and u: "redo_stack b = x # xs"
  shows "\<exists>y q m t. redo b = (True, b\<lparr>bus_project := q, undo_stack := y # undo_stack b, redo_stack := xs,
      coalescable := False\<rparr>) \<and> copyTables q = m \<and> cmd.applied y (bus_tables b) m \<and> cmd.redo_chain xs m t"
proof -
  obtain m t where m: "cmd.pending x (bus_tables b) m" "cmd.redo_chain xs m t"
    using h c u unfolding history_linked_def by auto
  from cmd.pending_apply [OF m(1) refl] obtain y q where
    y: "apply_command x (bus_project b) = (True, y, q)" "copyTables q = m" "cmd.applied y (bus_tables b) m"
    by blast
  then have "redo b = (True, b\<lparr>bus_project := q, undo_stack := y # undo_stack b, redo_stack := xs,
      coalescable := False\<rparr>)" by (simp add: redo_def u)
  with m(2) y(2,3) show ?thesis by blast
qed

lemma undo_linked: "history_linked s b \<Longrightarrow> bus_open b = [] \<Longrightarrow> history_linked s (snd (undo b))"
proof (cases "undo_stack b")
  case (Cons x xs)
  assume h: "history_linked s b" and o: "bus_open b = []"
  from undo_succeeds [OF h o Cons] obtain y q where
    q: "undo b = (True, b\<lparr>bus_project := q, undo_stack := xs, redo_stack := y # redo_stack b, coalescable := False\<rparr>)"
    "cmd.undo_chain xs s (copyTables q)" "cmd.pending y (copyTables q) (bus_tables b)" by auto
  obtain t where "cmd.redo_chain (redo_stack b) (bus_tables b) t"
    using h o unfolding history_linked_def by auto
  with q(3) have "cmd.redo_chain (y # redo_stack b) (copyTables q) t" by auto
  with q(2) show ?thesis using o unfolding history_linked_def q(1) by auto
qed (simp add: undo_def)

lemma redo_linked: "history_linked s b \<Longrightarrow> bus_open b = [] \<Longrightarrow> history_linked s (snd (redo b))"
proof (cases "redo_stack b")
  case (Cons x xs)
  assume h: "history_linked s b" and o: "bus_open b = []"
  from redo_succeeds [OF h o Cons] obtain y q t where
    q: "redo b = (True, b\<lparr>bus_project := q, undo_stack := y # undo_stack b, redo_stack := xs, coalescable := False\<rparr>)"
    "cmd.applied y (bus_tables b) (copyTables q)" "cmd.redo_chain xs (copyTables q) t" by auto
  have "cmd.undo_chain (undo_stack b) s (bus_tables b)"
    using h o unfolding history_linked_def by auto
  with q(2) have "cmd.undo_chain (y # undo_stack b) s (copyTables q)" by auto
  with q(3) show ?thesis using o unfolding history_linked_def q(1) by auto
qed (simp add: redo_def)

lemma seal_linked: "history_linked s b \<Longrightarrow> history_linked s (seal b)"
  by (simp add: history_linked_def seal_def)

lemma begin_linked: "history_linked s b \<Longrightarrow> history_linked s (beginTransaction n b)"
  by (auto simp: history_linked_def beginTransaction_def)

lemma clear_linked: "history_linked (bus_tables b) (clear_history b)"
  by (simp add: history_linked_def clear_history_def)

text \<open>A gesture that ran is one applied composite.\<close>

lemma composite_applied:
  assumes "cmd.undo_chain (rev cs) s t" and "copyTables q = t"
  shows "cmd.applied (CompositeC n cs) s t"
proof -
  obtain p where p: "copyTables p = s" using cmd.undo_chain_source [OF assms] by blast
  obtain os where "cmd.chain (rev cs) os p q"
    using cmd.undo_chain_chain [OF assms p] by blast
  from cmd.chain_run [OF this] obtain q' where
    q': "run_all apply_command revert_command [] (rev os) p = (True, cs, q')" "copyTables q' = copyTables q"
    "ready_all apply_command command_ready (rev os) p" by auto
  have "command_ready (CompositeC n (rev os)) p" using q'(3) by simp
  moreover have "apply_command (CompositeC n (rev os)) p = (True, CompositeC n cs, q')" using q'(1) by simp
  ultimately have "cmd.applied (CompositeC n cs) (copyTables p) (copyTables q')" by (rule cmd.appliedI [OF TrueI])
  then show ?thesis using p q'(2) assms(2) by simp
qed

lemma commit_linked:
  assumes h: "history_linked s b"
  shows "history_linked s (commitTransaction b)"
proof (cases "bus_open b")
  case (Cons f fs)
  obtain n cs where f: "f = (n, cs)" by fastforce
  obtain m t u where m: "cmd.undo_chain (undo_stack b) s m" "open_linked fs m u"
    "cmd.undo_chain (rev cs) u (bus_tables b)" "cmd.redo_chain (redo_stack b) m t"
    using h unfolding history_linked_def by (auto simp: Cons f)
  have a: "cmd.applied (CompositeC n cs) u (bus_tables b)"
    by (rule composite_applied [OF m(3) refl])
  show ?thesis
  proof (cases "cs = []")
    case True
    then have "history_linked s (b\<lparr>bus_open := fs\<rparr>)" using m unfolding history_linked_def by auto
    then show ?thesis by (simp add: commitTransaction_def Cons f True)
  next
    case False
    show ?thesis
    proof (cases fs)
      case Nil
      then have "cmd.undo_chain (CompositeC n cs # undo_stack b) s (bus_tables b)" using m a by auto
      then show ?thesis unfolding history_linked_def
        by (auto simp: commitTransaction_def Cons f False Nil)
    next
      case (Cons g gs)
      obtain k ds where g: "g = (k, ds)" by fastforce
      have "open_linked ((k, ds @ [CompositeC n cs]) # gs) m (bus_tables b)"
        by (rule open_linked_push [OF _ a]) (use m(2) in \<open>simp add: Cons g\<close>)
      then show ?thesis using m(1,4) \<open>bus_open b = f # fs\<close> unfolding history_linked_def
        by (simp del: open_linked.simps add: commitTransaction_def Cons f g False) blast
    qed
  qed
qed (use h in \<open>simp add: commitTransaction_def\<close>)

lemma abort_back:
  assumes "cmd.undo_chain (rev cs) u (bus_tables b)" and "bus_open b = (n, cs) # fs"
  shows "abortTransaction b = b\<lparr>bus_open := fs, bus_project := bus_project (abortTransaction b)\<rparr> \<and>
    bus_tables (abortTransaction b) = u"
proof -
  from cmd.applied_revert [OF composite_applied [OF assms(1) refl] refl] obtain c'' q where
    "revert_command (CompositeC n cs) (bus_project b) = (True, c'', q)" "copyTables q = u" by blast
  then show ?thesis by (simp del: revert_command.simps add: abortTransaction_def assms(2))
qed

lemma abort_linked:
  assumes h: "history_linked s b"
  shows "history_linked s (abortTransaction b)"
proof (cases "bus_open b")
  case (Cons f fs)
  obtain n cs where f: "f = (n, cs)" by fastforce
  obtain m t u where m: "cmd.undo_chain (undo_stack b) s m" "open_linked fs m u"
    "cmd.undo_chain (rev cs) u (bus_tables b)" "cmd.redo_chain (redo_stack b) m t"
    using h unfolding history_linked_def by (auto simp: Cons f)
  from abort_back [OF m(3) Cons [unfolded f]] obtain q where
    q: "abortTransaction b = b\<lparr>bus_open := fs, bus_project := q\<rparr>" "copyTables q = u" by metis
  show ?thesis using m(1,2,4) q(2) unfolding q(1) history_linked_def by auto
qed (use h in \<open>simp add: abortTransaction_def\<close>)

subsection \<open>Sessions\<close>

datatype bus_op = Execute command | Undo | Redo | Begin string | Commit | Abort | Seal

fun bus_step :: "bus_op \<Rightarrow> command_bus \<Rightarrow> command_bus" where
  "bus_step (Execute c) b = snd (execute c b)"
| "bus_step Undo b = snd (undo b)"
| "bus_step Redo b = snd (redo b)"
| "bus_step (Begin n) b = beginTransaction n b"
| "bus_step Commit b = commitTransaction b"
| "bus_step Abort b = abortTransaction b"
| "bus_step Seal b = seal b"

text \<open>The bus itself does not refuse to undo in the middle of a gesture: the UI has to.\<close>

fun permitted :: "bus_op \<Rightarrow> command_bus \<Rightarrow> bool" where
  "permitted (Execute c) b = admissible c b"
| "permitted Undo b \<longleftrightarrow> bus_open b = []"
| "permitted Redo b \<longleftrightarrow> bus_open b = []"
| "permitted _ b = True"

fun run_ops :: "bus_op list \<Rightarrow> command_bus \<Rightarrow> command_bus" where
  "run_ops [] b = b"
| "run_ops (x # xs) b = run_ops xs (bus_step x b)"

fun permitted_run :: "bus_op list \<Rightarrow> command_bus \<Rightarrow> bool" where
  "permitted_run [] b = True"
| "permitted_run (x # xs) b \<longleftrightarrow> permitted x b \<and> permitted_run xs (bus_step x b)"

lemma run_ops_append: "run_ops (xs @ ys) b = run_ops ys (run_ops xs b)"
  by (induction xs arbitrary: b) simp_all

lemma permitted_run_append: "permitted_run (xs @ ys) b \<longleftrightarrow> permitted_run xs b \<and> permitted_run ys (run_ops xs b)"
  by (induction xs arbitrary: b) simp_all

lemma step_linked: "history_linked s b \<Longrightarrow> permitted x b \<Longrightarrow> history_linked s (bus_step x b)"
  by (cases x) (simp_all add: execute_linked undo_linked redo_linked begin_linked commit_linked abort_linked seal_linked)

lemma run_linked: "history_linked s b \<Longrightarrow> permitted_run xs b \<Longrightarrow> history_linked s (run_ops xs b)"
  by (induction xs arbitrary: b) (simp_all add: step_linked)

lemma new_linked: "history_linked (copyTables p) (new_command_bus p)"
  by (simp add: history_linked_def new_command_bus_def)

lemma session_linked: "permitted_run xs (new_command_bus p) \<Longrightarrow> history_linked (copyTables p) (run_ops xs (new_command_bus p))"
  by (rule run_linked [OF new_linked])

lemma undos_exist:
  "history_linked s b \<Longrightarrow> bus_open b = [] \<Longrightarrow> n \<le> length (undo_stack b) \<Longrightarrow>
   \<exists>q ys. run_ops (replicate n Undo) b = b\<lparr>bus_project := q, undo_stack := drop n (undo_stack b),
       redo_stack := ys @ redo_stack b, coalescable := (if n = 0 then coalescable b else False)\<rparr> \<and> length ys = n \<and>
     history_linked s (run_ops (replicate n Undo) b) \<and>
     cmd.redo_chain ys (copyTables q) (bus_tables b)"
proof (induction n)
  case 0
  then show ?case by (intro exI [of _ "bus_project b"] exI [of _ "[]"]) simp
next
  case (Suc n)
  let ?b = "run_ops (replicate n Undo) b"
  from Suc obtain q ys where q: "?b = b\<lparr>bus_project := q, undo_stack := drop n (undo_stack b),
       redo_stack := ys @ redo_stack b, coalescable := (if n = 0 then coalescable b else False)\<rparr>"
    "length ys = n" "history_linked s ?b" "cmd.redo_chain ys (copyTables q) (bus_tables b)"
    by auto
  have o: "bus_open ?b = []" unfolding q(1) using Suc.prems(2) by simp
  have u: "undo_stack ?b = undo_stack b ! n # drop (Suc n) (undo_stack b)"
    unfolding q(1) using Suc.prems(3) by (simp add: Cons_nth_drop_Suc)
  from undo_succeeds [OF q(3) o u] obtain y r where
    r: "undo ?b = (True, ?b\<lparr>bus_project := r, undo_stack := drop (Suc n) (undo_stack b),
      redo_stack := y # redo_stack ?b, coalescable := False\<rparr>)" "cmd.pending y (copyTables r) (bus_tables ?b)"
    by auto
  have l: "history_linked s (snd (undo ?b))" by (rule undo_linked [OF q(3) o])
  have e: "run_ops (replicate (Suc n) Undo) b = snd (undo ?b)"
    using run_ops_append [of "replicate n Undo" "[Undo]" b] by (simp flip: replicate_append_same)
  have "cmd.redo_chain (y # ys) (copyTables r) (bus_tables b)" using r(2) q(4) by (auto simp: q(1))
  then show ?case using l q(2) unfolding e r(1)
    by (intro exI [of _ r] exI [of _ "y # ys"]) (simp add: q(1))
qed

lemma redos_exist:
  "history_linked s b \<Longrightarrow> bus_open b = [] \<Longrightarrow> redo_stack b = ys @ zs \<Longrightarrow>
   cmd.redo_chain ys (bus_tables b) v \<Longrightarrow>
   bus_tables (run_ops (replicate (length ys) Redo) b) = v \<and>
   redo_stack (run_ops (replicate (length ys) Redo) b) = zs \<and>
   length (undo_stack (run_ops (replicate (length ys) Redo) b)) = length (undo_stack b) + length ys"
proof (induction ys arbitrary: b)
  case (Cons y ys)
  from Cons.prems(4) obtain m where m: "cmd.pending y (bus_tables b) m" "cmd.redo_chain ys m v" by auto
  from cmd.pending_apply [OF m(1) refl] obtain x q where
    x: "apply_command y (bus_project b) = (True, x, q)" "copyTables q = m" by blast
  have r: "redo b = (True, b\<lparr>bus_project := q, redo_stack := ys @ zs, undo_stack := x # undo_stack b,
      coalescable := False\<rparr>)" using x Cons.prems(3) by (simp add: redo_def)
  have "history_linked s (snd (redo b))" by (rule redo_linked [OF Cons.prems(1,2)])
  from Cons.IH [OF this] show ?case using Cons.prems(2) m(2) x(2) by (simp add: r)
qed simp

lemma undos_then_redos:
  assumes h: "history_linked s b" and o: "bus_open b = []" and n: "n \<le> length (undo_stack b)"
  shows "bus_tables (run_ops (replicate n Undo @ replicate n Redo) b) = bus_tables b \<and>
    redo_stack (run_ops (replicate n Undo @ replicate n Redo) b) = redo_stack b \<and>
    length (undo_stack (run_ops (replicate n Undo @ replicate n Redo) b)) = length (undo_stack b)"
proof -
  from undos_exist [OF h o n] obtain q ys where
    q: "run_ops (replicate n Undo) b = b\<lparr>bus_project := q, undo_stack := drop n (undo_stack b),
       redo_stack := ys @ redo_stack b, coalescable := (if n = 0 then coalescable b else False)\<rparr>"
    "length ys = n" "history_linked s (run_ops (replicate n Undo) b)" "cmd.redo_chain ys (copyTables q) (bus_tables b)"
    by blast
  from redos_exist [OF q(3), of ys "redo_stack b" "bus_tables b"] q o n show ?thesis
    by (simp add: run_ops_append)
qed

lemma undo_all:
  assumes h: "history_linked s b" and o: "bus_open b = []"
  shows "bus_tables (run_ops (replicate (length (undo_stack b)) Undo) b) = s \<and>
    undo_stack (run_ops (replicate (length (undo_stack b)) Undo) b) = []"
proof -
  let ?b = "run_ops (replicate (length (undo_stack b)) Undo) b"
  from undos_exist [OF h o le_refl] have "undo_stack ?b = []" "bus_open ?b = []" "history_linked s ?b"
    using o by auto
  then show ?thesis unfolding history_linked_def by auto
qed

subsection \<open>Gestures\<close>

lemma executes_in_gesture:
  "bus_open b = (n, cs) # fs \<Longrightarrow> cmd.undo_chain (rev cs) u (bus_tables b) \<Longrightarrow>
   permitted_run (map Execute xs) b \<Longrightarrow>
   \<exists>q ds. run_ops (map Execute xs) b = b\<lparr>bus_project := q, bus_open := (n, ds) # fs\<rparr> \<and>
     cmd.undo_chain (rev ds) u (copyTables q)"
proof (induction xs arbitrary: b cs)
  case Nil
  then show ?case by (intro exI [of _ "bus_project b"] exI [of _ cs]) simp
next
  case (Cons x xs)
  obtain ok c' p' where ap: "apply_command x (bus_project b) = (ok, c', p')"
    by (cases "apply_command x (bus_project b)")
  have rd: "command_ready x (bus_project b)" using Cons.prems(3) by (simp add: admissible_def)
  obtain ds where ds: "snd (execute x b) = b\<lparr>bus_project := p', bus_open := (n, ds) # fs\<rparr>"
    "cmd.undo_chain (rev ds) u (copyTables p')"
  proof (cases ok)
    case True
    have "cmd.applied c' (bus_tables b) (copyTables p')" using cmd.appliedI [OF TrueI rd] ap True by simp
    then have "cmd.undo_chain (rev (cs @ [c'])) u (copyTables p')" using Cons.prems(2) by auto
    then show ?thesis
      by (rule that [rotated]) (use ap True Cons.prems(1) in \<open>simp add: execute_def record_command_def\<close>)
  next
    case False
    then have "copyTables p' = bus_tables b" using cmd.fail_step [OF TrueI rd] ap by simp
    then have "cmd.undo_chain (rev cs) u (copyTables p')" using Cons.prems(2) by simp
    then show ?thesis
      by (rule that [rotated]) (use ap False Cons.prems(1) in \<open>cases b; simp add: execute_def\<close>)
  qed
  from Cons.IH [of "snd (execute x b)" ds] Cons.prems(3) ds show ?case by simp
qed

lemma gesture_from:
  assumes "permitted_run (Begin n # map Execute xs) b"
  obtains q ds where "run_ops (Begin n # map Execute xs) b = b\<lparr>bus_project := q, bus_open := (n, ds) # bus_open b\<rparr>"
    and "cmd.undo_chain (rev ds) (bus_tables b) (copyTables q)"
proof -
  have b: "bus_open (beginTransaction n b) = (n, []) # bus_open b"
    "cmd.undo_chain (rev []) (bus_tables b) (bus_tables (beginTransaction n b))"
    by (simp_all add: beginTransaction_def)
  have "permitted_run (map Execute xs) (beginTransaction n b)" using assms by simp
  from executes_in_gesture [OF b this] obtain q ds where
    "run_ops (map Execute xs) (beginTransaction n b) = (beginTransaction n b)\<lparr>bus_project := q, bus_open := (n, ds) # bus_open b\<rparr>"
    "cmd.undo_chain (rev ds) (bus_tables b) (copyTables q)" by blast
  then show ?thesis by (intro that) (simp_all add: beginTransaction_def)
qed

subsection \<open>Properties\<close>


definition sample_removals :: command where
  "sample_removals = CompositeC ''Clear''
     [RemoveMixerTrackC \<lparr>rt_id = mix2, rt_track = default_mixer_track, rt_routings = [], rt_inputs = [],
        rt_clips = [], rt_audio_clips = []\<rparr>,
      CompositeC ''Song''
       [RemoveInstrumentC \<lparr>ri_id = ins1, ri_instrument = default_instrument, ri_sequences = om_empty, ri_clips = []\<rparr>,
        RemovePatternC \<lparr>rp_id = pat1, rp_pattern = default_pattern, rp_clips = []\<rparr>]]"


definition sample_session :: "bus_op list" where
  "sample_session =
     [Execute (RemoveInstrumentC \<lparr>ri_id = ins1, ri_instrument = default_instrument, ri_sequences = om_empty, ri_clips = []\<rparr>),
      Execute (EditLaneC \<lparr>ed_id = lan1, ed_field = FName, ed_before = default_lane\<lparr>lane_id := lan1\<rparr>,
        ed_after = default_lane\<lparr>lane_id := lan1, lane_name := ''A''\<rparr>, ed_name = ''Rename lane''\<rparr>),
      Execute (EditLaneC \<lparr>ed_id = lan1, ed_field = FName, ed_before = default_lane\<lparr>lane_id := lan1, lane_name := ''A''\<rparr>,
        ed_after = default_lane\<lparr>lane_id := lan1, lane_name := ''AB''\<rparr>, ed_name = ''Rename lane''\<rparr>),
      Undo, Redo,
      Begin ''Drag'',
      Execute (RemoveClipC \<lparr>rc_id = clp1, rc_clip = default_clip\<rparr>),
      Execute (RemoveClipC \<lparr>rc_id = clp1, rc_clip = default_clip\<rparr>),
      Commit]"

lemma sample_session_runs:
  "permitted_run sample_session (new_command_bus sample_project)"
  "bus_open (run_ops sample_session (new_command_bus sample_project)) = []"
  "length (undo_stack (run_ops sample_session (new_command_bus sample_project))) = 3"
  by code_simp+

text \<open>
  Claim C1. After any session of admissible edits, undo, redo, gestures and aborted gestures,
  undoing the whole history brings every table of the project back to where the session began.
\<close>

theorem undo_all_restores:
  assumes "permitted_run ops (new_command_bus p)" and "bus_open (run_ops ops (new_command_bus p)) = []"
  shows "let b = run_ops ops (new_command_bus p); b' = run_ops (replicate (length (undo_stack b)) Undo) b
    in copyTables (bus_project b') = copyTables p \<and> undo_stack b' = []"
  using undo_all [OF session_linked [OF assms(1)] assms(2)] by (simp add: Let_def)

theorem undo_all_restores_witness:
  "let b = run_ops sample_session (new_command_bus sample_project)
   in copyTables (bus_project (run_ops (replicate 3 Undo) b)) = copyTables sample_project"
  using undo_all_restores [OF sample_session_runs(1,2)] sample_session_runs(3) by (simp add: Let_def)




definition sample_drag :: "command list" where
  "sample_drag =
     [RemoveMixerTrackC \<lparr>rt_id = mix2, rt_track = default_mixer_track, rt_routings = [], rt_inputs = [],
        rt_clips = [], rt_audio_clips = []\<rparr>,
      RemoveClipC \<lparr>rc_id = clp4, rc_clip = default_clip\<rparr>,
      RemovePatternC \<lparr>rp_id = pat1, rp_pattern = default_pattern, rp_clips = []\<rparr>]"

lemma sample_drag_runs: "permitted_run (Begin ''Drag'' # map Execute sample_drag) (new_command_bus sample_project)"
  by code_simp




text \<open>
  A command the model refuses changes neither the tables nor any part of the history.
\<close>

theorem refused_execute:
  assumes "command_ready c (bus_project b)" and "\<not> fst (execute c b)"
  shows "\<exists>q. snd (execute c b) = b\<lparr>bus_project := q\<rparr> \<and> copyTables q = copyTables (bus_project b)"
proof -
  obtain ok c' p' where a: "apply_command c (bus_project b) = (ok, c', p')"
    by (cases "apply_command c (bus_project b)")
  then have "\<not> ok" using assms(2) by (auto simp: execute_def)
  with cmd.fail_step [OF TrueI assms(1)] a show ?thesis by (auto simp: execute_def)
qed

theorem refused_execute_witness:
  "\<exists>q. snd (execute (CompositeC ''Clear'' (sample_drag @ [hd sample_drag])) (new_command_bus sample_project)) =
      (new_command_bus sample_project)\<lparr>bus_project := q\<rparr> \<and> copyTables q = copyTables sample_project"
proof -
  let ?c = "CompositeC ''Clear'' (sample_drag @ [hd sample_drag])"
  have "command_ready ?c (bus_project (new_command_bus sample_project))"
    "\<not> fst (execute ?c (new_command_bus sample_project))" by code_simp+
  from refused_execute [OF this] show ?thesis by (simp add: new_command_bus_def)
qed

end
