(* ===== verification/Command_Factories.thy ===== *)
theory Command_Factories
  imports Command_Bus
begin

text \<open>
  The factories of \<open>model/commands.cpp\<close>: one per user action, reading the project for what
  the command will undo to, and minting the ids a creation needs.  A null \<open>CommandPtr\<close> is
  \<open>None\<close>; a factory that mints returns the project with the generator it left, and takes the
  clock reading of each mint.
\<close>

subsection \<open>Names, orders and colours of instruments\<close>

definition KInstrumentColors :: "string list" where
  "KInstrumentColors = [''#6C8CFF'', ''#B779F2'', ''#EF6F91'', ''#F59E5B'', ''#E7C75F'', ''#66C58F'',
     ''#50B8C6'', ''#8294B8'']"

definition suffixed :: "string \<Rightarrow> nat \<Rightarrow> string" where
  "suffixed base k = base @ '' '' @ nat_to_string k"

lemma suffixed_inject [simp]: "suffixed base j = suffixed base k \<longleftrightarrow> j = k"
  by (simp add: suffixed_def nat_to_string_inject)

definition taken_from :: "string list \<Rightarrow> string \<Rightarrow> nat \<Rightarrow> string list" where
  "taken_from names base k = filter (\<lambda>x. \<exists>j \<ge> k. x = suffixed base j) names"

lemma taken_from_less:
  assumes "suffixed base k \<in> set names"
  shows "length (taken_from names base (Suc k)) < length (taken_from names base k)"
proof -
  have "taken_from names base (Suc k) = filter (\<lambda>x. \<exists>j \<ge> Suc k. x = suffixed base j) (taken_from names base k)"
    unfolding taken_from_def filter_filter by (rule filter_cong) auto
  moreover have "suffixed base k \<in> set (taken_from names base k)"
    using assms by (auto simp: taken_from_def)
  ultimately show ?thesis
    by (simp only:) (rule length_filter_less [of "suffixed base k"]; simp)
qed

function first_free_suffix :: "string list \<Rightarrow> string \<Rightarrow> nat \<Rightarrow> string" where
  "first_free_suffix names base k =
     (if suffixed base k \<in> set names then first_free_suffix names base (Suc k) else suffixed base k)"
  by pat_completeness auto
termination
  by (relation "measure (\<lambda>(names, base, k). length (taken_from names base k))")
     (simp_all add: taken_from_less)

declare first_free_suffix.simps [simp del]

definition uniqueInstrumentName :: "('a Tables_scheme) \<Rightarrow> string \<Rightarrow> string" where
  "uniqueInstrumentName p base0 =
     (let base = (if base0 = '''' then ''Instrument'' else base0);
          names = map inst_name (om_values (instruments p))
      in if base \<notin> set names then base else first_free_suffix names base 2)"

definition nextInstrumentOrder :: "('a Tables_scheme) \<Rightarrow> int" where
  "nextInstrumentOrder p = next_order (map inst_order (om_values (instruments p)))"

definition nextInstrumentColor :: "('a Tables_scheme) \<Rightarrow> string" where
  "nextInstrumentColor p = KInstrumentColors ! (om_size (instruments p) mod length KInstrumentColors)"

subsection \<open>Creating\<close>

definition named_addInstrument ::
  "64 word \<Rightarrow> 64 word \<Rightarrow> string \<Rightarrow> PluginRef \<Rightarrow> project \<Rightarrow> command \<times> project" where
  "named_addInstrument now1 now2 name plugin p =
     (let (i, p1) = mintId now1 p;
          inst = default_instrument\<lparr>inst_id := i, inst_name := name, inst_color := nextInstrumentColor p1,
            inst_order := nextInstrumentOrder p1, inst_plugin := plugin\<rparr>
      in if auto_create_mixer_track (preferences p1) then
           (let (t, p2) = mintId now2 p1;
                track = default_mixer_track\<lparr>track_id := t, track_name := name, track_output := Some (master p2)\<rparr>
            in (CompositeC ''Add instrument''
                 [AddMixerTrackC \<lparr>add_entity = track, add_name = ''Add mixer track''\<rparr>,
                  AddInstrumentC \<lparr>add_entity = inst\<lparr>inst_routing := inst_routing inst @ [\<lparr>route_port = 0, route_track = t\<rparr>]\<rparr>,
                    add_name = ''Add instrument''\<rparr>], p2))
         else
           (CompositeC ''Add instrument''
              [AddInstrumentC \<lparr>add_entity = inst\<lparr>inst_routing := inst_routing inst @
                 [\<lparr>route_port = 0, route_track = master p1\<rparr>]\<rparr>, add_name = ''Add instrument''\<rparr>], p1))"

definition addInstrument :: "64 word \<Rightarrow> 64 word \<Rightarrow> PluginRef \<Rightarrow> project \<Rightarrow> command \<times> project" where
  "addInstrument now1 now2 plugin p =
     named_addInstrument now1 now2 (uniqueInstrumentName p (pr_name plugin)) plugin p"

definition duplicateInstrument ::
  "64 word \<Rightarrow> 64 word \<Rightarrow> instrument_id \<Rightarrow> project \<Rightarrow> command option \<times> project" where
  "duplicateInstrument now1 now2 i p =
     (case findInstrument p i of
        None \<Rightarrow> (None, p)
      | Some source \<Rightarrow>
          let (t, p1) = mintId now1 p;
              track = default_mixer_track\<lparr>track_id := t, track_name := uniqueInstrumentName p1 (inst_name source),
                track_output := Some (master p1)\<rparr>;
              (k, p2) = mintId now2 p1;
              cp = source\<lparr>inst_id := k, inst_name := track_name track, inst_order := nextInstrumentOrder p2,
                inst_routing := [\<lparr>route_port = 0, route_track = t\<rparr>]\<rparr>
          in (Some (CompositeC ''Duplicate instrument''
                [AddMixerTrackC \<lparr>add_entity = track, add_name = ''Add mixer track''\<rparr>,
                 AddInstrumentC \<lparr>add_entity = cp, add_name = ''Add instrument''\<rparr>]), p2))"

definition addPattern :: "64 word \<Rightarrow> string \<Rightarrow> ticks \<Rightarrow> project \<Rightarrow> command \<times> project" where
  "addPattern now name len p =
     (let (i, p1) = mintId now p in
      (AddPatternC \<lparr>add_entity = default_pattern\<lparr>pat_id := i, pat_name := name, pat_length := len,
          pat_order := next_order (map pat_order (om_values (patterns p1)))\<rparr>, add_name = ''Add pattern''\<rparr>, p1))"

definition addLane :: "64 word \<Rightarrow> string \<Rightarrow> project \<Rightarrow> command \<times> project" where
  "addLane now name p =
     (let (i, p1) = mintId now p in
      (AddLaneC \<lparr>add_entity = default_lane\<lparr>lane_id := i, lane_name := name,
          lane_order := next_order (map lane_order (om_values (lanes p1)))\<rparr>, add_name = ''Add lane''\<rparr>, p1))"

definition addMixerTrack :: "64 word \<Rightarrow> string \<Rightarrow> project \<Rightarrow> command \<times> project" where
  "addMixerTrack now name p =
     (let (i, p1) = mintId now p in
      (AddMixerTrackC \<lparr>add_entity = default_mixer_track\<lparr>track_id := i, track_name := name,
          track_output := Some (master p1)\<rparr>, add_name = ''Add mixer track''\<rparr>, p1))"

definition addClip :: "64 word \<Rightarrow> lane_id \<Rightarrow> ClipSource \<Rightarrow> ticks \<Rightarrow> ticks \<Rightarrow> project \<Rightarrow> command \<times> project" where
  "addClip now lane source start len p =
     (let (i, p1) = mintId now p in
      (AddClipC \<lparr>add_entity = default_clip\<lparr>clip_id := i, clip_lane := lane, clip_source := source,
          clip_start := start, clip_length := len\<rparr>, add_name = ''Add clip''\<rparr>, p1))"

definition removeInstrument :: "instrument_id \<Rightarrow> command" where
  "removeInstrument i = RemoveInstrumentC \<lparr>ri_id = i, ri_instrument = default_instrument,
     ri_sequences = om_empty, ri_clips = []\<rparr>"
definition removePattern :: "pattern_id \<Rightarrow> command" where
  "removePattern i = RemovePatternC \<lparr>rp_id = i, rp_pattern = default_pattern, rp_clips = []\<rparr>"
definition removeLane :: "lane_id \<Rightarrow> command" where
  "removeLane i = RemoveLaneC \<lparr>rl_id = i, rl_lane = default_lane, rl_clips = [], rl_grouped = []\<rparr>"
definition removeClip :: "clip_id \<Rightarrow> command" where
  "removeClip i = RemoveClipC \<lparr>rc_id = i, rc_clip = default_clip\<rparr>"
definition removeMixerTrack :: "track_id \<Rightarrow> command" where
  "removeMixerTrack i = RemoveMixerTrackC \<lparr>rt_id = i, rt_track = default_mixer_track, rt_routings = [],
     rt_inputs = [], rt_clips = [], rt_audio_clips = []\<rparr>"

subsection \<open>Editing\<close>

definition editInstrument :: "('a Tables_scheme) \<Rightarrow> instrument_id \<Rightarrow> ChangeField \<Rightarrow> (Instrument \<Rightarrow> Instrument) \<Rightarrow> string \<Rightarrow> command option" where
  "editInstrument p i f mutator name =
     (case findInstrument p i of None \<Rightarrow> None
      | Some e \<Rightarrow> Some (EditInstrumentC \<lparr>ed_id = i, ed_field = f, ed_before = e, ed_after = mutator e, ed_name = name\<rparr>))"

definition editPatternMeta :: "('a Tables_scheme) \<Rightarrow> pattern_id \<Rightarrow> ChangeField \<Rightarrow> (PatternMeta \<Rightarrow> PatternMeta) \<Rightarrow> string \<Rightarrow> command option" where
  "editPatternMeta p i f mutator name =
     (case findPattern p i of None \<Rightarrow> None
      | Some e \<Rightarrow> let before = pattern_meta_from e in
          Some (EditPatternC \<lparr>ed_id = i, ed_field = f, ed_before = before, ed_after = mutator before, ed_name = name\<rparr>))"

definition editLane :: "('a Tables_scheme) \<Rightarrow> lane_id \<Rightarrow> ChangeField \<Rightarrow> (ArrangementLane \<Rightarrow> ArrangementLane) \<Rightarrow> string \<Rightarrow> command option" where
  "editLane p i f mutator name =
     (case findLane p i of None \<Rightarrow> None
      | Some e \<Rightarrow> Some (EditLaneC \<lparr>ed_id = i, ed_field = f, ed_before = e, ed_after = mutator e, ed_name = name\<rparr>))"

definition editClip :: "('a Tables_scheme) \<Rightarrow> clip_id \<Rightarrow> ChangeField \<Rightarrow> (Clip \<Rightarrow> Clip) \<Rightarrow> string \<Rightarrow> command option" where
  "editClip p i f mutator name =
     (case findClip p i of None \<Rightarrow> None
      | Some e \<Rightarrow> Some (EditClipC \<lparr>ed_id = i, ed_field = f, ed_before = e, ed_after = mutator e, ed_name = name\<rparr>))"

definition editMixerTrack :: "('a Tables_scheme) \<Rightarrow> track_id \<Rightarrow> ChangeField \<Rightarrow> (MixerTrack \<Rightarrow> MixerTrack) \<Rightarrow> string \<Rightarrow> command option" where
  "editMixerTrack p i f mutator name =
     (case findMixerTrack p i of None \<Rightarrow> None
      | Some e \<Rightarrow> Some (EditMixerTrackC \<lparr>ed_id = i, ed_field = f, ed_before = e, ed_after = mutator e, ed_name = name\<rparr>))"

definition replaceInstrument :: "('a Tables_scheme) \<Rightarrow> instrument_id \<Rightarrow> PluginRef \<Rightarrow> command option" where
  "replaceInstrument p i plugin = editInstrument p i FPlugin (\<lambda>e. e\<lparr>inst_plugin := plugin\<rparr>) ''Replace instrument''"

definition shifted_order :: "instrument_id \<Rightarrow> int \<Rightarrow> int \<Rightarrow> instrument_id \<Rightarrow> Instrument \<Rightarrow> int" where
  "shifted_order i source target k other =
     (if k = i then target
      else if source < target \<and> inst_order other > source \<and> inst_order other \<le> target then inst_order other - 1
      else if source > target \<and> inst_order other \<ge> target \<and> inst_order other < source then inst_order other + 1
      else inst_order other)"

definition reorderInstrument :: "('a Tables_scheme) \<Rightarrow> instrument_id \<Rightarrow> int \<Rightarrow> command option" where
  "reorderInstrument p i target0 =
     (case findInstrument p i of
        None \<Rightarrow> None
      | Some moving \<Rightarrow>
          let maximum = int (om_size (instruments p)) - 1;
              target = max 0 (min maximum target0)
          in if inst_order moving = target then None
             else Some (CompositeC ''Reorder instrument''
               (List.map_filter (\<lambda>(k, other). let next = shifted_order i (inst_order moving) target k other in
                    if next = inst_order other then None
                    else editInstrument p k FOrder (\<lambda>e. e\<lparr>inst_order := next\<rparr>) ''Reorder instrument'')
                 (om_entries (instruments p)))))"

definition counted :: "string \<Rightarrow> nat \<Rightarrow> string" where
  "counted verb n = verb @ '' '' @ nat_to_string n @ (if n = 1 then '' note'' else '' notes'')"

definition insertNotes :: "pattern_id \<Rightarrow> instrument_id \<Rightarrow> Note list \<Rightarrow> command" where
  "insertNotes pid i notes = NoteC \<lparr>nc_pattern = pid, nc_instrument = i, nc_removed = [], nc_added = notes,
     nc_name = counted ''Add'' (length notes), nc_coalescable = False, nc_resized = []\<rparr>"

definition removeNotes :: "pattern_id \<Rightarrow> instrument_id \<Rightarrow> Note list \<Rightarrow> command" where
  "removeNotes pid i notes = NoteC \<lparr>nc_pattern = pid, nc_instrument = i, nc_removed = notes, nc_added = [],
     nc_name = counted ''Delete'' (length notes), nc_coalescable = False, nc_resized = []\<rparr>"

definition replaceNotes :: "pattern_id \<Rightarrow> instrument_id \<Rightarrow> Note list \<Rightarrow> Note list \<Rightarrow> command option" where
  "replaceNotes pid i before after =
     (if length before \<noteq> length after then None
      else Some (NoteC \<lparr>nc_pattern = pid, nc_instrument = i, nc_removed = sort_key note_rank before,
        nc_added = sort_key note_rank after, nc_name = counted ''Edit'' (length before),
        nc_coalescable = True, nc_resized = []\<rparr>))"

subsection \<open>Audio clips\<close>

definition map_audio :: "(AudioSource \<Rightarrow> AudioSource) \<Rightarrow> Clip \<Rightarrow> Clip" where
  "map_audio g live =
     (case clip_source live of SrcAudio a \<Rightarrow> live\<lparr>clip_source := SrcAudio (g a)\<rparr> | _ \<Rightarrow> live)"

definition editAudio :: "('a Tables_scheme) \<Rightarrow> clip_id \<Rightarrow> (AudioSource \<Rightarrow> AudioSource) \<Rightarrow> string \<Rightarrow> command option" where
  "editAudio p i mutator name =
     (case findClip p i of None \<Rightarrow> None
      | Some c \<Rightarrow> if clip_audio c = None then None else editClip p i FSource (map_audio mutator) name)"

definition setAudioClipWindow :: "('a Tables_scheme) \<Rightarrow> clip_id \<Rightarrow> ticks \<Rightarrow> ticks \<Rightarrow> command option" where
  "setAudioClipWindow p i source_offset source_length =
     (if source_offset < 0 \<or> source_length < 0 then None
      else editAudio p i (\<lambda>a. a\<lparr>au_source_offset := source_offset, au_source_length := source_length\<rparr>) ''Trim clip'')"

definition setAudioClipStretchMode :: "('a Tables_scheme) \<Rightarrow> clip_id \<Rightarrow> StretchMode \<Rightarrow> command option" where
  "setAudioClipStretchMode p i mode = editAudio p i (\<lambda>a. a\<lparr>au_stretch_mode := mode\<rparr>) ''Set clip stretch''"

definition setAudioClipSourceBpm :: "('a Tables_scheme) \<Rightarrow> clip_id \<Rightarrow> fp \<Rightarrow> command option" where
  "setAudioClipSourceBpm p i bpm =
     (if fp_less bpm (Fin 0) then None else editAudio p i (\<lambda>a. a\<lparr>au_source_bpm := bpm\<rparr>) ''Set clip tempo'')"

definition setAudioClipReversed :: "('a Tables_scheme) \<Rightarrow> clip_id \<Rightarrow> bool \<Rightarrow> command option" where
  "setAudioClipReversed p i r = editAudio p i (\<lambda>a. a\<lparr>au_reversed := r\<rparr>) ''Reverse clip''"

definition setAudioClipGain :: "('a Tables_scheme) \<Rightarrow> clip_id \<Rightarrow> fp \<Rightarrow> command option" where
  "setAudioClipGain p i gain =
     (if fp_less gain (Fin 0) then None else editAudio p i (\<lambda>a. a\<lparr>au_gain := gain\<rparr>) ''Set clip gain'')"

definition resized_audio :: "ticks \<Rightarrow> bool \<Rightarrow> ticks \<Rightarrow> Clip \<Rightarrow> Clip" where
  "resized_audio len stretching source_length live =
     (let live1 = live\<lparr>clip_length := len\<rparr> in
      if stretching \<or> source_length \<le> 0 then live1
      else map_audio (\<lambda>a. a\<lparr>au_source_length := len\<rparr>) live1)"

definition resizeAudioClip :: "('a Tables_scheme) \<Rightarrow> clip_id \<Rightarrow> ticks \<Rightarrow> command option" where
  "resizeAudioClip p i len =
     (if len \<le> 0 then None
      else case findClip p i of
        None \<Rightarrow> None
      | Some c \<Rightarrow>
          (case clip_audio c of
             None \<Rightarrow> editClip p i FLength (\<lambda>live. live\<lparr>clip_length := len\<rparr>) ''Resize clip''
           | Some a \<Rightarrow>
               let stretching = (au_stretch_mode a \<noteq> StretchOff) in
               editClip p i FLength (resized_audio len stretching (au_source_length a))
                 (if stretching then ''Stretch clip'' else ''Resize clip'')))"

text \<open>The cut: the right half resumes in the source where the cut falls; the left half ends there.\<close>

definition consumed_at :: "AudioSource \<Rightarrow> ticks \<Rightarrow> ticks \<Rightarrow> ticks" where
  "consumed_at a len left_length = dtrunc (dmul (dofint left_length) (audioStretchRatio a len 0))"

definition right_source :: "ClipSource \<Rightarrow> ticks \<Rightarrow> ticks \<Rightarrow> ClipSource" where
  "right_source source len left_length =
     (case source of
        SrcAudio a \<Rightarrow>
          let consumed = consumed_at a len left_length;
              a1 = a\<lparr>au_source_offset := au_source_offset a + consumed\<rparr>
          in SrcAudio (if au_source_length a1 > 0 then
                a1\<lparr>au_source_length := (if au_source_length a1 > consumed then au_source_length a1 - consumed else 0)\<rparr>
              else a1)
      | SrcAutomation m \<Rightarrow> SrcAutomation (m\<lparr>as_points :=
          map (\<lambda>pt. \<lparr>pt_position = pt_position pt - left_length, pt_value = pt_value pt\<rparr>)
            (filter (\<lambda>pt. \<not> pt_position pt < left_length) (as_points m))\<rparr>)
      | SrcPattern q \<Rightarrow> SrcPattern q)"

definition right_half :: "Clip \<Rightarrow> clip_id \<Rightarrow> ticks \<Rightarrow> Clip" where
  "right_half c i pos =
     c\<lparr>clip_id := i, clip_start := pos, clip_length := clip_start c + clip_length c - pos,
       clip_source := right_source (clip_source c) (clip_length c) (pos - clip_start c)\<rparr>"

definition left_half :: "ticks \<Rightarrow> Clip \<Rightarrow> Clip" where
  "left_half left_length live =
     (let live1 = live\<lparr>clip_length := left_length\<rparr> in
      map_audio (\<lambda>a. let consumed = consumed_at a (clip_length live1) left_length in
        a\<lparr>au_source_length := (if consumed > 0 then consumed else au_source_length a)\<rparr>) live1)"

definition splitClip :: "64 word \<Rightarrow> clip_id \<Rightarrow> ticks \<Rightarrow> project \<Rightarrow> command option \<times> project" where
  "splitClip now i pos p =
     (case findClip p i of
        None \<Rightarrow> (None, p)
      | Some c \<Rightarrow>
          if pos \<le> clip_start c \<or> pos \<ge> clip_start c + clip_length c then (None, p)
          else let (k, p1) = mintId now p in
            (case editClip p1 i FLength (left_half (pos - clip_start c)) ''Cut clip'' of
               None \<Rightarrow> (None, p1)
             | Some shorten \<Rightarrow> (Some (CompositeC ''Cut clip''
                 [shorten, AddClipC \<lparr>add_entity = right_half c k pos, add_name = ''Cut clip''\<rparr>]), p1)))"

definition fitted :: "ticks \<Rightarrow> ticks \<Rightarrow> ticks \<Rightarrow> Clip \<Rightarrow> Clip" where
  "fitted len old_length source_duration live =
     map_audio (\<lambda>a. let a1 = a\<lparr>au_stretch_mode := StretchStretch\<rparr> in
         if au_source_length a1 \<le> 0 then
           a1\<lparr>au_source_length := audioSourceSpan a1 old_length source_duration\<rparr>
         else a1) (live\<lparr>clip_length := len\<rparr>)"

definition fitAudioClipToTempo :: "('a Tables_scheme) \<Rightarrow> clip_id \<Rightarrow> fp \<Rightarrow> ticks \<Rightarrow> command option" where
  "fitAudioClipToTempo p i project_bpm source_duration =
     (case findClip p i of
        None \<Rightarrow> None
      | Some c \<Rightarrow>
          (case clip_audio c of
             None \<Rightarrow> None
           | Some a \<Rightarrow>
               let len = audioLengthAtTempo a (clip_length c) project_bpm source_duration in
               if len \<le> 0 then None
               else editClip p i FLength (fitted len (clip_length c) source_duration) ''Fit clip to tempo''))"

subsection \<open>Mixer effects\<close>

definition editChain :: "('a Tables_scheme) \<Rightarrow> track_id \<Rightarrow> (EffectSlot list \<Rightarrow> EffectSlot list) \<Rightarrow> string \<Rightarrow> command option" where
  "editChain p t mutator name =
     editMixerTrack p t FEffects (\<lambda>live. live\<lparr>track_effects := mutator (track_effects live)\<rparr>) name"

definition effectLabel :: "PluginRef \<Rightarrow> string" where
  "effectLabel plugin = (if pr_name plugin = '''' then ''effect'' else pr_name plugin)"

definition insert_slot :: "EffectSlot \<Rightarrow> nat \<Rightarrow> EffectSlot list \<Rightarrow> EffectSlot list" where
  "insert_slot slot index effects = insert_at (if index < length effects then index else length effects) slot effects"

definition addEffect :: "64 word \<Rightarrow> track_id \<Rightarrow> PluginRef \<Rightarrow> nat \<Rightarrow> project \<Rightarrow> command option \<times> project" where
  "addEffect now t plugin index p =
     (case findMixerTrack p t of
        None \<Rightarrow> (None, p)
      | Some live \<Rightarrow>
          let (e, p1) = mintId now p in
          (editChain p1 t (insert_slot (default_effect_slot\<lparr>slot_id := e, slot_plugin := plugin\<rparr>) index)
             (''Add '' @ effectLabel plugin), p1))"

definition drop_slot :: "effect_id \<Rightarrow> EffectSlot list \<Rightarrow> EffectSlot list" where
  "drop_slot e effects = (case indexOfEffect effects e of None \<Rightarrow> effects | Some k \<Rightarrow> erase_at k effects)"

definition removeEffect :: "track_id \<Rightarrow> effect_id \<Rightarrow> project \<Rightarrow> command option" where
  "removeEffect t e p =
     (case findMixerTrack p t of
        None \<Rightarrow> None
      | Some live \<Rightarrow>
          (case findEffect live e of
             None \<Rightarrow> None
           | Some slot \<Rightarrow>
               let name = ''Remove '' @ effectLabel (slot_plugin slot) in
               (case editChain p t (drop_slot e) name of
                  None \<Rightarrow> None
                | Some chain \<Rightarrow> Some (CompositeC name (map removeClip (effectImpact p t e) @ [chain])))))"

definition move_slot :: "effect_id \<Rightarrow> nat \<Rightarrow> EffectSlot list \<Rightarrow> EffectSlot list" where
  "move_slot e index effects =
     (case indexOfEffect effects e of
        None \<Rightarrow> effects
      | Some from \<Rightarrow>
          if effects = [] then effects
          else let to = (if index < length effects then index else length effects - 1) in
            if from = to then effects
            else insert_at to (effects ! from) (erase_at from effects))"

definition moveEffect :: "track_id \<Rightarrow> effect_id \<Rightarrow> nat \<Rightarrow> ('a Tables_scheme) \<Rightarrow> command option" where
  "moveEffect t e index p =
     (case findMixerTrack p t of
        None \<Rightarrow> None
      | Some live \<Rightarrow>
          (case indexOfEffect (track_effects live) e of
             None \<Rightarrow> None
           | Some from \<Rightarrow>
               let to = (if index < length (track_effects live) then index else length (track_effects live) - 1) in
               if from = to then None else editChain p t (move_slot e index) ''Reorder effects''))"

definition setEffectParam :: "track_id \<Rightarrow> effect_id \<Rightarrow> param_id \<Rightarrow> fp \<Rightarrow> ('a Tables_scheme) \<Rightarrow> command option" where
  "setEffectParam t e param v p =
     (case findMixerTrack p t of
        None \<Rightarrow> None
      | Some live \<Rightarrow>
          (case findEffect live e of
             None \<Rightarrow> None
           | Some slot \<Rightarrow> Some (EffectParamC \<lparr>ep_track = t, ep_effect = e, ep_parameter = param,
               ep_before = om_find (slot_params slot) param, ep_after = v,
               ep_name = ''Adjust '' @ effectLabel (slot_plugin slot)\<rparr>)))"

definition bypass_slot :: "effect_id \<Rightarrow> bool \<Rightarrow> EffectSlot list \<Rightarrow> EffectSlot list" where
  "bypass_slot e bypassed effects =
     (case indexOfEffect effects e of None \<Rightarrow> effects
      | Some k \<Rightarrow> effects[k := (effects ! k)\<lparr>slot_bypassed := bypassed\<rparr>])"

definition setEffectBypassed :: "track_id \<Rightarrow> effect_id \<Rightarrow> bool \<Rightarrow> ('a Tables_scheme) \<Rightarrow> command option" where
  "setEffectBypassed t e bypassed p =
     (case findMixerTrack p t of
        None \<Rightarrow> None
      | Some live \<Rightarrow>
          (case findEffect live e of
             None \<Rightarrow> None
           | Some slot \<Rightarrow> editChain p t (bypass_slot e bypassed)
               ((if bypassed then ''Bypass '' else ''Enable '') @ effectLabel (slot_plugin slot))))"

subsection \<open>Project\<close>

definition setTransport_command :: "('a Tables_scheme) \<Rightarrow> TransportState \<Rightarrow> command" where
  "setTransport_command p t =
     TransportC \<lparr>tc_before = transport p, tc_after = t, tc_original_lengths = []\<rparr>"

definition setProjectMeta :: "('a Tables_scheme) \<Rightarrow> ProjectMeta \<Rightarrow> command" where
  "setProjectMeta p m = MetaC \<lparr>mc_before = meta p, mc_after = m\<rparr>"

end
