(* ===== verification/Model_Properties.thy ===== *)
theory Model_Properties
  imports Command_Factories
begin

text \<open>
  The properties of the project model: what the checker decides, what the cascading deletions
  do to the tables, that deletion, creation and the impact reports agree, and what the commands
  built by the factories do.
\<close>

subsection \<open>The checker\<close>


text \<open>
  The lane section promises that groups do not cycle, but only a lane that is its own group is
  reported: two lanes grouped under each other pass.
\<close>

definition grouped_lanes :: project where
  "grouped_lanes = sample_project\<lparr>lanes :=
     om_insert lan1 (default_lane\<lparr>lane_id := lan1, lane_group_id := Some lan2\<rparr>)
     (om_insert lan2 (default_lane\<lparr>lane_id := lan2, lane_order := 1, lane_group_id := Some lan1\<rparr>) om_empty)\<rparr>"

lemma grouped_lanes_pass: "checkReferentialIntegrity grouped_lanes = []"
  by code_simp

subsection \<open>Deletion\<close>

lemma deletions_refine_parts:
  "fst (deleteInstrument i p) = (om_find (instruments p) i \<noteq> None) \<and>
   copyTables (snd (deleteInstrument i p)) =
     (if om_find (instruments p) i = None then copyTables p else spec_deleteInstrument i (copyTables p))"
  "fst (deletePattern j p) = (om_find (patterns p) j \<noteq> None) \<and>
   copyTables (snd (deletePattern j p)) =
     (if om_find (patterns p) j = None then copyTables p else spec_deletePattern j (copyTables p))"
  "fst (deleteLane k p) = (om_find (lanes p) k \<noteq> None) \<and>
   copyTables (snd (deleteLane k p)) =
     (if om_find (lanes p) k = None then copyTables p else spec_deleteLane k (copyTables p))"
  "fst (deleteMixerTrack t p) = (t \<noteq> master p \<and> om_find (mixer_tracks p) t \<noteq> None) \<and>
   copyTables (snd (deleteMixerTrack t p)) =
     (if t = master p \<or> om_find (mixer_tracks p) t = None then copyTables p
      else spec_deleteMixerTrack t (copyTables p))"
proof -
  show "fst (deleteInstrument i p) = (om_find (instruments p) i \<noteq> None) \<and>
   copyTables (snd (deleteInstrument i p)) =
     (if om_find (instruments p) i = None then copyTables p else spec_deleteInstrument i (copyTables p))"
    using deleteInstrument_refines [of p i]
    by (cases "om_find (instruments p) i = None") (auto simp: deleteInstrument_def)
  show "fst (deletePattern j p) = (om_find (patterns p) j \<noteq> None) \<and>
   copyTables (snd (deletePattern j p)) =
     (if om_find (patterns p) j = None then copyTables p else spec_deletePattern j (copyTables p))"
    using deletePattern_refines [of p j]
    by (cases "om_find (patterns p) j = None") (auto simp: deletePattern_def)
  show "fst (deleteLane k p) = (om_find (lanes p) k \<noteq> None) \<and>
   copyTables (snd (deleteLane k p)) =
     (if om_find (lanes p) k = None then copyTables p else spec_deleteLane k (copyTables p))"
    using deleteLane_refines [of p k]
    by (cases "om_find (lanes p) k = None") (auto simp: deleteLane_def)
  show "fst (deleteMixerTrack t p) = (t \<noteq> master p \<and> om_find (mixer_tracks p) t \<noteq> None) \<and>
   copyTables (snd (deleteMixerTrack t p)) =
     (if t = master p \<or> om_find (mixer_tracks p) t = None then copyTables p
      else spec_deleteMixerTrack t (copyTables p))"
    using deleteMixerTrack_refines [of t p]
    by (cases "t = master p \<or> om_find (mixer_tracks p) t = None") (auto simp: deleteMixerTrack_def)
qed

text \<open>
  Claim C17. Each cascading deletion computes the table-level specification and says whether the
  entity was there; the master track is never deleted.
\<close>

theorem deletions_refine:
  "(fst (deleteInstrument i p) = (om_find (instruments p) i \<noteq> None) \<and>
   copyTables (snd (deleteInstrument i p)) =
     (if om_find (instruments p) i = None then copyTables p else spec_deleteInstrument i (copyTables p))) \<and>
   (fst (deletePattern j p) = (om_find (patterns p) j \<noteq> None) \<and>
   copyTables (snd (deletePattern j p)) =
     (if om_find (patterns p) j = None then copyTables p else spec_deletePattern j (copyTables p))) \<and>
   (fst (deleteLane k p) = (om_find (lanes p) k \<noteq> None) \<and>
   copyTables (snd (deleteLane k p)) =
     (if om_find (lanes p) k = None then copyTables p else spec_deleteLane k (copyTables p))) \<and>
   (fst (deleteMixerTrack t p) = (t \<noteq> master p \<and> om_find (mixer_tracks p) t \<noteq> None) \<and>
   copyTables (snd (deleteMixerTrack t p)) =
     (if t = master p \<or> om_find (mixer_tracks p) t = None then copyTables p
      else spec_deleteMixerTrack t (copyTables p)))"
  by (intro conjI deletions_refine_parts)

text \<open>
  Claim C8. No deletion, of whatever entity and with whatever cascade, takes a sound project out
  of integrity or trips the debug check.
\<close>

theorem deletions_sound:
  assumes "sound p"
  shows "sound (snd (deleteInstrument i p)) \<and> sound (snd (deletePattern j p)) \<and>
    sound (snd (deleteLane k p)) \<and> sound (snd (deleteClip c p)) \<and> sound (snd (deleteMixerTrack t p))"
  by (simp add: sound_deleteInstrument sound_deletePattern sound_deleteLane sound_deleteClip
      sound_deleteMixerTrack assms)

theorem deletions_sound_witness:
  "sound (snd (deleteInstrument ins1 sample_project)) \<and> sound (snd (deleteMixerTrack mix2 sample_project))"
  using deletions_sound [OF sample_sound, of ins1 pat1 lan1 clp1 mix2] by blast

lemma om_find_clips_after:
  "copyTables q = t \<Longrightarrow> om_find (clips q) = om_find (clips t)"
  by (drule arg_cong [where f = clips]) simp

lemma impact_exact_parts:
  "om_find (instruments p) i \<noteq> None \<longrightarrow>
     {c. om_find (clips p) c \<noteq> None \<and> om_find (clips (snd (deleteInstrument i p))) c = None} =
     set (ii_clips (instrumentImpact p i))"
  "om_find (patterns p) j \<noteq> None \<longrightarrow>
     {c. om_find (clips p) c \<noteq> None \<and> om_find (clips (snd (deletePattern j p))) c = None} =
     set (pi_clips (patternImpact p j))"
  "om_find (lanes p) k \<noteq> None \<longrightarrow>
     {c. om_find (clips p) c \<noteq> None \<and> om_find (clips (snd (deleteLane k p))) c = None} =
     set (laneImpact p k)"
  "t \<noteq> master p \<longrightarrow> om_find (mixer_tracks p) t \<noteq> None \<longrightarrow>
     {c. om_find (clips p) c \<noteq> None \<and> om_find (clips (snd (deleteMixerTrack t p))) c = None} =
     {c \<in> set (mi_clips (mixerTrackImpact p t)). \<exists>e. om_find (clips p) c = Some e \<and> clip_audio e = None}"
proof -
  show "om_find (instruments p) i \<noteq> None \<longrightarrow>
     {c. om_find (clips p) c \<noteq> None \<and> om_find (clips (snd (deleteInstrument i p))) c = None} =
     set (ii_clips (instrumentImpact p i))"
  proof
    assume "om_find (instruments p) i \<noteq> None"
    from om_find_clips_after [OF conjunct2 [OF deleteInstrument_refines [OF this]]]
    show "{c. om_find (clips p) c \<noteq> None \<and> om_find (clips (snd (deleteInstrument i p))) c = None} =
       set (ii_clips (instrumentImpact p i))"
      by (auto simp: spec_deleteInstrument_def instrumentImpact_def Let_def split: option.splits if_splits)
  qed
  show "om_find (patterns p) j \<noteq> None \<longrightarrow>
     {c. om_find (clips p) c \<noteq> None \<and> om_find (clips (snd (deletePattern j p))) c = None} =
     set (pi_clips (patternImpact p j))"
  proof
    assume "om_find (patterns p) j \<noteq> None"
    from om_find_clips_after [OF conjunct2 [OF deletePattern_refines [OF this]]]
    show "{c. om_find (clips p) c \<noteq> None \<and> om_find (clips (snd (deletePattern j p))) c = None} =
       set (pi_clips (patternImpact p j))"
      by (auto simp: spec_deletePattern_def patternImpact_def clipsUsingPattern_def split: option.splits if_splits)
  qed
  show "om_find (lanes p) k \<noteq> None \<longrightarrow>
     {c. om_find (clips p) c \<noteq> None \<and> om_find (clips (snd (deleteLane k p))) c = None} = set (laneImpact p k)"
  proof
    assume "om_find (lanes p) k \<noteq> None"
    from om_find_clips_after [OF conjunct2 [OF deleteLane_refines [OF this]]]
    show "{c. om_find (clips p) c \<noteq> None \<and> om_find (clips (snd (deleteLane k p))) c = None} = set (laneImpact p k)"
      by (auto simp: spec_deleteLane_def laneImpact_def clipsOnLane_def split: option.splits if_splits)
  qed
  show "t \<noteq> master p \<longrightarrow> om_find (mixer_tracks p) t \<noteq> None \<longrightarrow>
     {c. om_find (clips p) c \<noteq> None \<and> om_find (clips (snd (deleteMixerTrack t p))) c = None} =
     {c \<in> set (mi_clips (mixerTrackImpact p t)). \<exists>e. om_find (clips p) c = Some e \<and> clip_audio e = None}"
  proof (intro impI)
    assume "t \<noteq> master p" "om_find (mixer_tracks p) t \<noteq> None"
    from om_find_clips_after [OF conjunct2 [OF deleteMixerTrack_refines [OF this]]]
    show "{c. om_find (clips p) c \<noteq> None \<and> om_find (clips (snd (deleteMixerTrack t p))) c = None} =
     {c \<in> set (mi_clips (mixerTrackImpact p t)). \<exists>e. om_find (clips p) c = Some e \<and> clip_audio e = None}"
      by (auto simp: spec_deleteMixerTrack_def mixerTrackImpact_def automates_track_def split: option.splits if_splits)
  qed
qed

text \<open>
  The impact reports tell the truth: the clips that disappear with an instrument, a
  pattern or a lane are exactly those the report lists, and with a mixer track exactly the listed
  clips that are not audio.
\<close>

theorem impact_exact:
  "(om_find (instruments p) i \<noteq> None \<longrightarrow>
     {c. om_find (clips p) c \<noteq> None \<and> om_find (clips (snd (deleteInstrument i p))) c = None} =
     set (ii_clips (instrumentImpact p i))) \<and>
   (om_find (patterns p) j \<noteq> None \<longrightarrow>
     {c. om_find (clips p) c \<noteq> None \<and> om_find (clips (snd (deletePattern j p))) c = None} =
     set (pi_clips (patternImpact p j))) \<and>
   (om_find (lanes p) k \<noteq> None \<longrightarrow>
     {c. om_find (clips p) c \<noteq> None \<and> om_find (clips (snd (deleteLane k p))) c = None} =
     set (laneImpact p k)) \<and>
   (t \<noteq> master p \<longrightarrow> om_find (mixer_tracks p) t \<noteq> None \<longrightarrow>
     {c. om_find (clips p) c \<noteq> None \<and> om_find (clips (snd (deleteMixerTrack t p))) c = None} =
     {c \<in> set (mi_clips (mixerTrackImpact p t)). \<exists>e. om_find (clips p) c = Some e \<and> clip_audio e = None})"
  by (intro conjI impact_exact_parts)

theorem impact_exact_witness:
  "{c. om_find (clips sample_project) c \<noteq> None \<and> om_find (clips (snd (deleteInstrument ins1 sample_project))) c = None} =
     set (ii_clips (instrumentImpact sample_project ins1)) \<and>
   {c. om_find (clips sample_project) c \<noteq> None \<and> om_find (clips (snd (deleteMixerTrack mix2 sample_project))) c = None} =
     {c \<in> set (mi_clips (mixerTrackImpact sample_project mix2)).
        \<exists>e. om_find (clips sample_project) c = Some e \<and> clip_audio e = None}"
proof -
  have "om_find (instruments sample_project) ins1 \<noteq> None" "mix2 \<noteq> master sample_project"
    "om_find (mixer_tracks sample_project) mix2 \<noteq> None" by code_simp+
  with impact_exact [of sample_project ins1 pat1 lan1 mix2] show ?thesis by blast
qed

end
