(* ===== verification/Factory_Properties.thy ===== *)
theory Factory_Properties
  imports Model_Properties
begin

text \<open>
  What the commands built by the factories of \<open>model/commands.cpp\<close> do when they run:
  fresh names, reordering, cutting clips, and the effect chain.
\<close>

subsection \<open>Names\<close>

lemma first_free_not_taken: "first_free_suffix names base k \<notin> set names"
proof (induction names base k rule: first_free_suffix.induct)
  case (1 names base k)
  then show ?case by (cases "suffixed base k \<in> set names") (subst first_free_suffix.simps; simp)+
qed

text \<open>
  The search for a free instrument name ends, and the name it returns is not the name
  of any instrument of the project, nor empty.
\<close>

theorem unique_name_fresh:
  "uniqueInstrumentName p base \<notin> set (map inst_name (om_values (instruments p))) \<and>
   uniqueInstrumentName p base \<noteq> ''''"
proof -
  have "first_free_suffix names b k \<noteq> ''''" for names b k
    by (induction names b k rule: first_free_suffix.induct)
       (subst first_free_suffix.simps, simp add: suffixed_def)
  with first_free_not_taken [of "map inst_name (om_values (instruments p))" _ 2]
  show ?thesis unfolding uniqueInstrumentName_def Let_def by simp
qed

subsection \<open>Reordering\<close>

abbreviation set_order :: "int \<Rightarrow> Instrument \<Rightarrow> Instrument" where
  "set_order n inst \<equiv> inst\<lparr>inst_order := n\<rparr>"

lemma run_order_edits:
  assumes "distinct (map fst es)"
    and "\<And>k other. (k, other) \<in> set es \<Longrightarrow> om_find (instruments p) k = Some other"
    and "\<And>k other. (k, other) \<in> set es \<Longrightarrow> om_find (instruments q) k = Some other"
  shows "\<exists>cs q'. run_all apply_command revert_command ds
      (List.map_filter (\<lambda>(k, other). let next = f k other in
          if next = inst_order other then None else editInstrument p k FOrder (set_order next) nm) es) q =
        (True, cs, q') \<and>
      instruments q' = fold (\<lambda>(k, other). om_update k (\<lambda>_. set_order (f k other) other)) es (instruments q)"
  using assms
proof (induction es arbitrary: ds q)
  case Nil
  then show ?case by (simp add: map_filter_simps)
next
  case (Cons e es)
  obtain k other where e: "e = (k, other)" by fastforce
  have k: "om_find (instruments p) k = Some other" "om_find (instruments q) k = Some other"
    using Cons.prems(2,3) by (simp_all add: e)
  have ne: "j \<noteq> k" if "(j, v) \<in> set es" for j v using Cons.prems(1) that by (force simp: e)
  show ?case
  proof (cases "f k other = inst_order other")
    case True
    then have "om_update k (\<lambda>_. set_order (f k other) other) (instruments q) = instruments q"
      by (intro om_eqI) (use k(2) in auto)
    with Cons.IH [of q ds] Cons.prems True show ?thesis
      by (simp add: e map_filter_simps)
  next
    case False
    let ?q = "snd (updateInstrument k FOrder (\<lambda>_. set_order (f k other) other) q)"
    have i: "instruments ?q = om_update k (\<lambda>_. set_order (f k other) other) (instruments q)"
      by (rule update_fields)
    have q: "om_find (instruments ?q) j = Some v" if "(j, v) \<in> set es" for j v
      using Cons.prems(3) [of j v] that ne [OF that] by (simp add: i)
    have d: "distinct (map fst es)" using Cons.prems(1) by simp
    have p: "om_find (instruments p) j = Some v" if "(j, v) \<in> set es" for j v
      using Cons.prems(2) [of j v] that by simp
    from Cons.IH [OF d p q, of "EditInstrumentC \<lparr>ed_id = k, ed_field = FOrder, ed_before = other,
           ed_after = set_order (f k other) other, ed_name = nm\<rparr> # ds"]
    obtain cs q' where
      "run_all apply_command revert_command (EditInstrumentC \<lparr>ed_id = k, ed_field = FOrder, ed_before = other,
           ed_after = set_order (f k other) other, ed_name = nm\<rparr> # ds)
        (List.map_filter (\<lambda>(k, other). let next = f k other in
          if next = inst_order other then None else editInstrument p k FOrder (set_order next) nm) es) ?q = (True, cs, q')"
      "instruments q' = fold (\<lambda>(k, other). om_update k (\<lambda>_. set_order (f k other) other)) es (instruments ?q)"
      by blast
    then show ?thesis using False k update_fst(1) [of k FOrder "\<lambda>_. set_order (f k other) other" q]
      by (simp add: e map_filter_simps editInstrument_def findInstrument_def edit_defs keeping_def i)
  qed
qed

definition dense_orders :: "(instrument_id, Instrument) omap \<Rightarrow> bool" where
  "dense_orders m \<longleftrightarrow> set (map inst_order (om_values m)) = {0..<int (om_size m)}"

lemma om_values_map: "om_values (om_map f m) = map (\<lambda>(k, v). f k v) (om_entries m)"
  by (simp add: om_values_def comp_def case_prod_beta)

lemma dense_same_order:
  assumes "dense_orders m" and "om_find m i = Some a" and "om_find m k = Some b" and "inst_order a = inst_order b"
  shows "i = k"
proof -
  let ?os = "map (\<lambda>e. inst_order (snd e)) (om_entries m)"
  have "card (set ?os) = length ?os"
    using assms(1) by (simp add: dense_orders_def om_values_def om_size_def comp_def)
  then have "inj_on (\<lambda>e. inst_order (snd e)) (set (om_entries m))"
    using card_distinct distinct_map by blast
  from inj_onD [OF this, of "(i, a)" "(k, b)"] assms(2-4) show ?thesis by simp
qed

text \<open>The moved instrument takes the target place, those between it and the target close up.\<close>

definition shift_place :: "int \<Rightarrow> int \<Rightarrow> int \<Rightarrow> int" where
  "shift_place source target x =
     (if x = source then target
      else if source < target \<and> source < x \<and> x \<le> target then x - 1
      else if target < source \<and> target \<le> x \<and> x < source then x + 1 else x)"

lemma shift_place_image:
  assumes "source \<in> {0..<n}" and "target \<in> {0..<n}"
  shows "shift_place source target ` {0..<n} = {0..<n}"
proof (rule endo_inj_surj)
  show "shift_place source target ` {0..<n} \<subseteq> {0..<n}"
    using assms by (auto simp: shift_place_def)
  show "inj_on (shift_place source target) {0..<n}"
    by (auto simp: inj_on_def shift_place_def split: if_splits)
qed simp

lemma reorder_runs:
  assumes "reorderInstrument p i target = Some c" and "findInstrument p i = Some moving"
  shows "\<exists>c' q. apply_command c p = (True, c', q) \<and> instruments q =
    om_map (\<lambda>k other. set_order (shifted_order i (inst_order moving)
      (max 0 (min (int (om_size (instruments p)) - 1) target)) k other) other) (instruments p)"
proof -
  let ?f = "shifted_order i (inst_order moving) (max 0 (min (int (om_size (instruments p)) - 1) target))"
  have c: "c = CompositeC ''Reorder instrument'' (List.map_filter (\<lambda>(k, other). let next = ?f k other in
      if next = inst_order other then None
      else editInstrument p k FOrder (set_order next) ''Reorder instrument'') (om_entries (instruments p)))"
    using assms by (simp add: reorderInstrument_def Let_def split: if_splits)
  have entries: "om_find (instruments p) k = Some other"
    if "(k, other) \<in> set (om_entries (instruments p))" for k other using that by simp
  obtain cs q where q: "run_all apply_command revert_command [] (List.map_filter (\<lambda>(k, other).
      let next = ?f k other in if next = inst_order other then None
      else editInstrument p k FOrder (set_order next) ''Reorder instrument'') (om_entries (instruments p))) p = (True, cs, q)"
    "instruments q = fold (\<lambda>(k, other). om_update k (\<lambda>_. set_order (?f k other) other)) (om_entries (instruments p)) (instruments p)"
    using run_order_edits [OF om_entries_distinct entries entries, of "instruments p" "[]" ?f "''Reorder instrument''"]
    by blast
  have "instruments q = om_map (\<lambda>k other. set_order (?f k other) other) (instruments p)"
  proof (rule om_eqI)
    fix k
    have "fold (\<lambda>(k, x). om_update k (\<lambda>_. snd x)) (map (\<lambda>(k, other). (k, (k, set_order (?f k other) other))) es) m =
        fold (\<lambda>(k, other). om_update k (\<lambda>_. set_order (?f k other) other)) es m" for es m
      by (induction es arbitrary: m) auto
    then have "instruments q = fold (\<lambda>(k, x). om_update k (\<lambda>_. snd x))
        (map (\<lambda>(k, other). (k, (k, set_order (?f k other) other))) (om_entries (instruments p))) (instruments p)"
      using q(2) by simp
    moreover have "map_of (map (\<lambda>(k, other). (k, (k, set_order (?f k other) other))) es) k =
        map_option (\<lambda>other. (k, set_order (?f k other) other)) (map_of es k)" for es
      by (induction es) auto
    moreover have "distinct (map fst (map (\<lambda>(k, other). (k, (k, set_order (?f k other) other))) (om_entries (instruments p))))"
      by (simp add: comp_def case_prod_beta)
    ultimately show "om_find (instruments q) k = om_find (om_map (\<lambda>k other. set_order (?f k other) other) (instruments p)) k"
      by (simp add: om_find_fold_update_entries split: option.split)
  qed
  with q(1) show ?thesis unfolding c by (auto simp: split_beta)
qed

text \<open>
  Claim C28. Reordering an instrument runs, puts it at the (clamped) place asked for, and keeps
  the places of all the instruments exactly \<open>0 .. n - 1\<close>.
\<close>

theorem reorder_keeps_places:
  assumes "reorderInstrument p i target = Some c" and "dense_orders (instruments p)"
  shows "fst (apply_command c p) \<and> dense_orders (instruments (snd (snd (apply_command c p)))) \<and>
    map_option inst_order (om_find (instruments (snd (snd (apply_command c p)))) i) =
      Some (max 0 (min (int (om_size (instruments p)) - 1) target))"
proof -
  let ?m = "instruments p" and ?t = "max 0 (min (int (om_size (instruments p)) - 1) target)"
  obtain moving where mv: "om_find ?m i = Some moving"
    using assms(1) by (auto simp: reorderInstrument_def findInstrument_def split: option.splits)
  let ?m' = "om_map (\<lambda>k other. set_order (shifted_order i (inst_order moving) ?t k other) other) ?m"
  have "findInstrument p i = Some moving" using mv by (simp add: findInstrument_def)
  from reorder_runs [OF assms(1) this] obtain c' q where
    q: "apply_command c p = (True, c', q)" "instruments q = ?m'" by blast
  have dense: "set (map inst_order (om_values ?m)) = {0..<int (om_size ?m)}"
    using assms(2) by (simp add: dense_orders_def)
  have "moving \<in> set (om_values ?m)" unfolding om_values_set using mv by blast
  then have src: "inst_order moving \<in> {0..<int (om_size ?m)}" using dense by auto
  have shift: "shifted_order i (inst_order moving) ?t k other = shift_place (inst_order moving) ?t (inst_order other)"
    if "om_find ?m k = Some other" for k other
    using dense_same_order [OF assms(2) mv that] mv that by (auto simp: shifted_order_def shift_place_def)
  have "map inst_order (om_values ?m') = map (\<lambda>(k, other). shift_place (inst_order moving) ?t (inst_order other)) (om_entries ?m)"
    unfolding om_values_map map_map
  proof (rule map_cong [OF refl])
    fix e assume e: "e \<in> set (om_entries ?m)"
    obtain k other where k: "e = (k, other)" by fastforce
    from e have "om_find ?m k = Some other" by (simp add: k)
    from shift [OF this] show "(inst_order \<circ> (\<lambda>(k, other). set_order (shifted_order i (inst_order moving) ?t k other) other)) e =
        (case e of (k, other) \<Rightarrow> shift_place (inst_order moving) ?t (inst_order other))" by (simp add: k)
  qed
  then have "set (map inst_order (om_values ?m')) = shift_place (inst_order moving) ?t ` set (map inst_order (om_values ?m))"
    by (simp add: om_values_def image_image case_prod_beta)
  also have "\<dots> = {0..<int (om_size ?m)}"
    unfolding dense by (rule shift_place_image [OF src]) (use src in auto)
  finally have "dense_orders ?m'" by (simp add: dense_orders_def)
  with q mv show ?thesis by (simp add: shifted_order_def)
qed

definition three_instruments :: project where
  "three_instruments = sample_project\<lparr>instruments :=
     om_insert ins1 (default_instrument\<lparr>inst_id := ins1, inst_order := 0\<rparr>)
     (om_insert (TypedId (RawId 1 2)) (default_instrument\<lparr>inst_id := TypedId (RawId 1 2), inst_order := 1\<rparr>)
     (om_insert (TypedId (RawId 1 3)) (default_instrument\<lparr>inst_id := TypedId (RawId 1 3), inst_order := 2\<rparr>) om_empty))\<rparr>"

theorem reorder_keeps_places_witness:
  "\<exists>c. reorderInstrument three_instruments ins1 9 = Some c \<and>
     fst (apply_command c three_instruments) \<and> dense_orders (instruments (snd (snd (apply_command c three_instruments)))) \<and>
     map_option inst_order (om_find (instruments (snd (snd (apply_command c three_instruments)))) ins1) = Some 2"
proof -
  have "reorderInstrument three_instruments ins1 9 \<noteq> None" by code_simp
  then obtain c where c: "reorderInstrument three_instruments ins1 9 = Some c" by blast
  have "set (map inst_order (om_values (instruments three_instruments))) = {0, 1, 2}" by code_simp
  moreover have "om_size (instruments three_instruments) = 3" by code_simp
  ultimately have "dense_orders (instruments three_instruments)" by (auto simp: dense_orders_def)
  from reorder_keeps_places [OF c this] c \<open>om_size (instruments three_instruments) = 3\<close> show ?thesis by simp
qed

subsection \<open>Cutting a clip\<close>

lemma consumed_unstretched:
  "au_stretch_mode a = StretchOff \<Longrightarrow> \<bar>n\<bar> < 2 ^ 53 \<Longrightarrow> consumed_at a len n = n"
  by (simp add: consumed_at_def audioStretchRatio_def dmul_one_int)

lemma map_audio_sel [simp]:
  "clip_start (map_audio g c) = clip_start c" "clip_length (map_audio g c) = clip_length c"
  "clip_id (map_audio g c) = clip_id c"
  by (simp_all add: map_audio_def split: ClipSource.split)

lemma left_half_sel [simp]:
  "clip_start (left_half n c) = clip_start c" "clip_length (left_half n c) = n"
  by (simp_all add: left_half_def)

lemma right_half_sel [simp]:
  "clip_id (right_half c k pos) = k" "clip_start (right_half c k pos) = pos"
  "clip_length (right_half c k pos) = clip_start c + clip_length c - pos"
  by (simp_all add: right_half_def)

lemma halves_of_audio:
  assumes "clip_source c = SrcAudio a" and "au_stretch_mode a = StretchOff" and "0 < n" and "n < 2 ^ 53"
    and "pos - clip_start c = n"
  shows "\<exists>la ra. clip_source (left_half n c) = SrcAudio la \<and> clip_source (right_half c k pos) = SrcAudio ra \<and>
    au_source_offset la = au_source_offset a \<and> au_source_length la = n \<and>
    au_source_offset ra = au_source_offset la + au_source_length la"
  using assms by (auto simp: right_half_def right_source_def left_half_def map_audio_def
      consumed_unstretched Let_def)

lemma split_runs:
  assumes "findClip p i = Some c" and "clip_start c < pos" and "pos < clip_start c + clip_length c"
    and "fst (mintId now p) = (k :: clip_id)" and "valid_id k" and "om_find (clips p) k = None"
  obtains cmd c' q where "splitClip now i pos p = (Some cmd, snd (mintId now p :: clip_id \<times> project))"
    and "apply_command cmd (snd (mintId now p :: clip_id \<times> project)) = (True, c', q)"
    and "clips q = om_insert k (right_half c k pos) (om_insert i (left_half (pos - clip_start c) c) (clips p))"
proof -
  let ?p1 = "snd (mintId now p :: clip_id \<times> project)" and ?l = "left_half (pos - clip_start c) c"
  have i: "om_find (clips p) i = Some c" using assms(1) by (simp add: findClip_def)
  let ?cmd = "CompositeC ''Cut clip'' [EditClipC \<lparr>ed_id = i, ed_field = FLength, ed_before = c, ed_after = ?l, ed_name = ''Cut clip''\<rparr>,
     AddClipC \<lparr>add_entity = right_half c k pos, add_name = ''Cut clip''\<rparr>]"
  have s: "splitClip now i pos p = (Some ?cmd, ?p1)"
    using assms i by (simp add: splitClip_def editClip_def findClip_def split_beta Let_def)
  let ?p2 = "snd (updateClip i FLength (\<lambda>_. ?l) ?p1)"
  have p2: "fst (updateClip i FLength (\<lambda>_. ?l) ?p1)" "clips ?p2 = om_insert i ?l (clips p)"
    using i by (simp_all add: update_fst update_fields om_update_def)
  have ki: "k \<noteq> i" using i assms(6) by auto
  have "valid_id (clip_id (right_half c k pos))" "om_find (clips ?p2) (clip_id (right_half c k pos)) = None"
    using assms(5,6) ki by (simp_all add: right_half_def p2(2))
  from restoreClip_tables [OF this] have r: "fst (restoreClip (right_half c k pos) ?p2)"
    "clips (snd (restoreClip (right_half c k pos) ?p2)) = om_insert k (right_half c k pos) (om_insert i ?l (clips p))"
    using tables_frame(4) [of "snd (restoreClip (right_half c k pos) ?p2)"]
    by (auto simp: right_half_def p2(2) dest: arg_cong [where f = clips])
  show ?thesis
    by (rule that [OF s, of "CompositeC ''Cut clip'' [EditClipC \<lparr>ed_id = i, ed_field = FLength, ed_before = c, ed_after = ?l, ed_name = ''Cut clip''\<rparr>,
       AddClipC \<lparr>add_entity = right_half c k pos, add_name = ''Cut clip''\<rparr>]" "snd (restoreClip (right_half c k pos) ?p2)"])
       (use p2 r in \<open>simp_all add: keeping_def edit_defs AddClip_apply_def\<close>)
qed

text \<open>
  Claim C29. Cutting a clip strictly inside yields two clips that tile it; when the clip is
  unstretched audio the left half's source window ends, and the right half's begins, at the cut.
\<close>

theorem split_tiles:
  assumes "findClip p i = Some c" and "clip_start c < pos" and "pos < clip_start c + clip_length c"
    and "fst (mintId now p) = (k :: clip_id)" and "valid_id k" and "om_find (clips p) k = None"
  shows "\<exists>cmd c' q l r. splitClip now i pos p = (Some cmd, snd (mintId now p :: clip_id \<times> project)) \<and>
    apply_command cmd (snd (mintId now p :: clip_id \<times> project)) = (True, c', q) \<and>
    om_find (clips q) i = Some l \<and> om_find (clips q) k = Some r \<and>
    clip_start l = clip_start c \<and> clip_start l + clip_length l = pos \<and>
    clip_start r = pos \<and> clip_start r + clip_length r = clip_start c + clip_length c \<and>
    (\<forall>a. clip_source c = SrcAudio a \<longrightarrow> au_stretch_mode a = StretchOff \<longrightarrow> pos - clip_start c < 2 ^ 53 \<longrightarrow>
      (\<exists>la ra. clip_source l = SrcAudio la \<and> clip_source r = SrcAudio ra \<and>
        au_source_offset la = au_source_offset a \<and> au_source_length la = pos - clip_start c \<and>
        au_source_offset ra = au_source_offset la + au_source_length la))"
proof -
  obtain cmd c' q where q: "splitClip now i pos p = (Some cmd, snd (mintId now p :: clip_id \<times> project))"
    "apply_command cmd (snd (mintId now p :: clip_id \<times> project)) = (True, c', q)"
    "clips q = om_insert k (right_half c k pos) (om_insert i (left_half (pos - clip_start c) c) (clips p))"
    by (rule split_runs [OF assms])
  have ki: "k \<noteq> i" using assms(1,6) by (auto simp: findClip_def)
  show ?thesis
    by (rule exI [of _ cmd], rule exI [of _ c'], rule exI [of _ q],
        rule exI [of _ "left_half (pos - clip_start c) c"], rule exI [of _ "right_half c k pos"])
       (use q ki assms(2) halves_of_audio [of c _ "pos - clip_start c" pos k] in \<open>auto\<close>)
qed

definition split_id :: clip_id where
  "split_id = fst (mintId 0 sample_project)"

theorem split_tiles_witness:
  "\<exists>cmd c' q l r. splitClip 0 clp2 700 sample_project = (Some cmd, snd (mintId 0 sample_project :: clip_id \<times> project)) \<and>
    apply_command cmd (snd (mintId 0 sample_project :: clip_id \<times> project)) = (True, c', q) \<and>
    om_find (clips q) clp2 = Some l \<and> om_find (clips q) split_id = Some r \<and>
    clip_start l + clip_length l = 700 \<and> clip_start r = 700 \<and> clip_start r + clip_length r = 1920"
proof -
  obtain c where c: "findClip sample_project clp2 = Some c" "clip_start c = 0" "clip_length c = 1920"
  proof -
    have "map_option (\<lambda>c. (clip_start c, clip_length c)) (findClip sample_project clp2) = Some (0, 1920)" by code_simp
    then show ?thesis using that by auto
  qed
  have "valid_id split_id" "om_find (clips sample_project) split_id = None" by code_simp+
  from split_tiles [OF c(1) _ _ _ this, of 700 0] c(2,3) show ?thesis
    unfolding split_id_def [symmetric] by force
qed

text \<open>
  A stretched clip is cut wrong: the left half's ratio is computed after its length was written,
  so its window still spans the whole source, and both halves play the material after the cut.
\<close>

definition stretched_clip :: Clip where
  "stretched_clip = default_clip\<lparr>clip_id := clp2, clip_lane := lan2, clip_length := 1920,
     clip_source := SrcAudio (default_audio\<lparr>au_destination := mix2, au_source_length := 3840,
       au_stretch_mode := StretchStretch\<rparr>)\<rparr>"

lemma split_stretched_overlaps:
  "(case clip_source (left_half 960 stretched_clip) of SrcAudio a \<Rightarrow> au_source_offset a + au_source_length a | _ \<Rightarrow> 0) = 3840 \<and>
   (case clip_source (right_half stretched_clip clp3 960) of SrcAudio a \<Rightarrow> au_source_offset a | _ \<Rightarrow> 0) = 1920"
  using rnd64_int [of 4] rnd64_int [of 2] rnd64_int [of 3840] rnd64_int [of 1920]
  by (simp add: left_half_def right_half_def right_source_def map_audio_def stretched_clip_def default_clip_def
      default_audio_def consumed_at_def audioStretchRatio_def audioSourceSpan_def dofint_exact Let_def
      trunc_rat_of_int [of 3840, simplified] trunc_rat_of_int [of 1920, simplified])

subsection \<open>The effect chain\<close>

lemma indexOfEffect_None: "indexOfEffect es e = None \<longleftrightarrow> (\<forall>s \<in> set es. slot_id s \<noteq> e)"
  by (induction es) auto

lemma erase_at_split: "k < length es \<Longrightarrow> es = take k es @ es ! k # drop (Suc k) es"
  by (rule id_take_nth_drop)

lemma filter_insert_at: "\<not> P x \<Longrightarrow> filter P (insert_at k x es) = filter P es"
  unfolding insert_at_def by (metis append_take_drop_id filter.simps(2) filter_append)

lemma filter_erase_at: "k < length es \<Longrightarrow> \<not> P (es ! k) \<Longrightarrow> filter P (erase_at k es) = filter P es"
  unfolding erase_at_def by (subst (3) erase_at_split [of k]) simp_all

lemma mset_insert_at: "mset (insert_at k x es) = add_mset x (mset es)"
  unfolding insert_at_def by (metis append_take_drop_id mset.simps(2) mset_append union_mset_add_mset_right)

lemma mset_erase_at: "k < length es \<Longrightarrow> add_mset (es ! k) (mset (erase_at k es)) = mset es"
  unfolding erase_at_def by (subst (4) erase_at_split [of k]) simp_all

lemma nth_insert_at: "k \<le> length es \<Longrightarrow> insert_at k x es ! k = x"
  by (simp add: insert_at_def nth_append)

text \<open>
  Moving an effect only changes its place: no slot is lost or duplicated, the other
  slots keep their order, and the moved one lands at the place asked for, clamped to the end.
\<close>

theorem move_slot_permutes:
  "mset (move_slot e index es) = mset es \<and>
   filter (\<lambda>s. slot_id s \<noteq> e) (move_slot e index es) = filter (\<lambda>s. slot_id s \<noteq> e) es \<and>
   (case indexOfEffect es e of None \<Rightarrow> move_slot e index es = es
    | Some k \<Rightarrow> move_slot e index es ! min index (length es - 1) = es ! k)"
proof (cases "indexOfEffect es e")
  case (Some k)
  let ?t = "min index (length es - 1)"
  have k: "k < length es" "slot_id (es ! k) = e" using indexOfEffect_Some [OF Some] by simp_all
  have len: "length (erase_at k es) = length es - 1" using k(1) by (rule length_erase_at)
  have t: "(if index < length es then index else length es - 1) = ?t" using k(1) by auto
  have m: "move_slot e index es = (if k = ?t then es else insert_at ?t (es ! k) (erase_at k es))"
    unfolding move_slot_def Some option.case Let_def t using k(1) by auto
  show ?thesis
  proof (cases "k = ?t")
    case False
    have "filter (\<lambda>s. slot_id s \<noteq> e) (move_slot e index es) = filter (\<lambda>s. slot_id s \<noteq> e) es"
      using k False by (simp add: m filter_insert_at filter_erase_at)
    moreover have "mset (move_slot e index es) = mset es"
      using k(1) False by (simp add: m mset_insert_at mset_erase_at)
    moreover have "move_slot e index es ! ?t = es ! k"
      using False nth_insert_at [of ?t "erase_at k es" "es ! k"] by (simp add: m len)
    ultimately show ?thesis by (simp add: Some)
  next
    case True
    then have "move_slot e index es = es" by (simp add: m)
    moreover have "es ! ?t = es ! k" using True by (rule arg_cong [OF sym])
    ultimately show ?thesis by (simp add: Some)
  qed
qed (simp add: move_slot_def)

lemma findEffect_drop:
  assumes "x \<noteq> e" shows "find (\<lambda>s. slot_id s = x) (drop_slot e es) = find (\<lambda>s. slot_id s = x) es"
proof (cases "indexOfEffect es e")
  case (Some k)
  have k: "k < length es" "slot_id (es ! k) = e" using indexOfEffect_Some [OF Some] by simp_all
  have "find P (as @ y # bs) = find P (as @ bs)" if "\<not> P y" for P as bs and y :: EffectSlot
    using that by (induction as) auto
  from this [of "\<lambda>s. slot_id s = x" "es ! k" "take k es" "drop (Suc k) es"] k assms
  show ?thesis using erase_at_split [OF k(1)] by (simp add: drop_slot_def Some erase_at_def)
qed (simp add: drop_slot_def)

lemma effects_ok_drop: "effects_ok es \<Longrightarrow> effects_ok (drop_slot e es)"
proof (cases "indexOfEffect es e")
  case (Some k)
  assume ok: "effects_ok es"
  have k: "k < length es" using indexOfEffect_Some [OF Some] by simp
  have "distinct (map slot_id (take k es @ es ! k # drop (Suc k) es))"
    using ok erase_at_split [OF k] by (simp add: effects_ok_def)
  moreover have "set (erase_at k es) \<subseteq> set es" by (rule set_erase_at_subset)
  ultimately show ?thesis
    using ok by (auto simp: effects_ok_def drop_slot_def Some erase_at_def)
qed (simp add: drop_slot_def)

lemma run_removals:
  "distinct is \<Longrightarrow> (\<And>i. i \<in> set is \<Longrightarrow> om_find (clips p) i \<noteq> None) \<Longrightarrow>
   \<exists>cs. run_all apply_command revert_command ds (map removeClip is @ rest) p =
     run_all apply_command revert_command cs rest (delete_clips is p)"
proof (induction "is" arbitrary: ds p)
  case Nil
  then show ?case by auto
next
  case (Cons i "is")
  obtain c where c: "om_find (clips p) i = Some c" using Cons.prems(2) by fastforce
  let ?p = "snd (deleteClip i p)"
  have "clips ?p = om_erase i (clips p)"
    using arg_cong [OF deleteClip_tables, of clips i p] by (simp add: spec_deleteClip_def)
  then have present: "om_find (clips ?p) j \<noteq> None" if "j \<in> set is" for j
    using Cons.prems that by auto
  have "fst (deleteClip i p)" using c by (simp add: deleteClip_fst)
  then have "apply_command (removeClip i) p = (True, RemoveClipC \<lparr>rc_id = i, rc_clip = c\<rparr>, ?p)"
    using c by (simp add: removeClip_def RemoveClip_apply_def findClip_def holding_def split_beta)
  with Cons.IH [OF _ present, of "RemoveClipC \<lparr>rc_id = i, rc_clip = c\<rparr> # ds"] Cons.prems(1) show ?case
    by (simp del: apply_command.simps)
qed

lemma dropped_slot_ok:
  assumes ok: "project_ok p" and live: "om_find (mixer_tracks p) t = Some live"
    and free: "\<And>k d. om_find (clips p) k = Some d \<Longrightarrow> \<not> drives_effect t e d"
  shows "project_ok (p\<lparr>mixer_tracks := om_insert t (live\<lparr>track_effects := drop_slot e (track_effects live)\<rparr>) (mixer_tracks p)\<rparr>)"
    (is "project_ok (p\<lparr>mixer_tracks := om_insert t ?after (mixer_tracks p)\<rparr>)")
proof (rule replace_track_ok [OF ok, of t live])
  show "om_find (mixer_tracks p) t = Some live" by (rule live)
  show "track_id ?after = t"
    using project_ok_parts(6) [OF ok] live by (simp add: keyed_def)
  show "effects_ok (track_effects ?after)"
    using project_ok_parts(5) [OF ok] live by (simp add: mixer_ok_def effects_ok_drop)
  fix k d
  assume dk: "om_find (clips p) k = Some d" and dok: "clip_ok p d"
  have "find (\<lambda>s. slot_id s = x) (track_effects live) \<noteq> None \<Longrightarrow> x \<noteq> e \<Longrightarrow>
      find (\<lambda>s. slot_id s = x) (drop_slot e (track_effects live)) \<noteq> None" for x
    by (simp add: findEffect_drop)
  with free [OF dk] show "clip_ok (p\<lparr>mixer_tracks := om_insert t ?after (mixer_tracks p)\<rparr>) d"
    using dok live
    by (auto simp: clip_ok_def automation_resolves_def drives_effect_def clip_automation.simps findEffect_def find_defs
        split: ClipSource.splits TargetKind.splits option.splits if_splits)
qed simp



end
