(* ===== verification/Note_Edit.thy ===== *)
theory Note_Edit
  imports Factory_Properties
begin

text \<open>
  The note editing vocabulary (\<open>model/note_edit.h\<close>, \<open>model/note_edit.cpp\<close>): saturating tick
  arithmetic, the grid, selections, and the commands of the piano roll and the step sequencer.
\<close>

subsection \<open>Saturating arithmetic\<close>

definition clampStart :: "ticks \<Rightarrow> ticks" where
  "clampStart v = max 0 v"

definition addClamped :: "ticks \<Rightarrow> ticks \<Rightarrow> ticks" where
  "addClamped v delta =
     (if delta > 0 \<and> v > int64_max - delta then int64_max
      else if delta < 0 \<and> v < int64_min - delta then int64_min
      else v + delta)"

definition subtractClamped :: "ticks \<Rightarrow> ticks \<Rightarrow> ticks" where
  "subtractClamped v s =
     (if s > 0 \<and> v < int64_min + s then int64_min
      else if s < 0 \<and> v > int64_max + s then int64_max
      else v - s)"

definition noteEnd :: "Note \<Rightarrow> ticks" where
  "noteEnd n = addClamped (note_start n) (note_length n)"

subsection \<open>The grid\<close>

record NoteGrid =
  grid_spacing :: ticks
  grid_origin :: ticks

definition default_grid :: NoteGrid where
  "default_grid = \<lparr>grid_spacing = TicksPerQuarter sdiv 4, grid_origin = 0\<rparr>"

definition grid_valid :: "NoteGrid \<Rightarrow> bool" where
  "grid_valid g \<longleftrightarrow> grid_spacing g > 0"

definition snapTick :: "ticks \<Rightarrow> NoteGrid \<Rightarrow> ticks" where
  "snapTick tick g =
     (if \<not> grid_valid g then tick
      else let relative = subtractClamped tick (grid_origin g);
               quotient = relative sdiv grid_spacing g;
               remainder = relative smod grid_spacing g;
               offset = quotient * grid_spacing g;
               snapped = (if remainder \<ge> 0 then
                            (if remainder \<ge> grid_spacing g - remainder
                             then addClamped offset (grid_spacing g) else offset)
                          else let later = - remainder in
                            (if later > grid_spacing g - later
                             then addClamped offset (- grid_spacing g) else offset))
           in addClamped (grid_origin g) snapped)"

definition stepOnset :: "int \<Rightarrow> NoteGrid \<Rightarrow> ticks option" where
  "stepOnset index g =
     (if \<not> grid_valid g \<or> index < 0 \<or> index > int64_max sdiv grid_spacing g then None
      else let offset = index * grid_spacing g in
        if grid_origin g > 0 \<and> offset > int64_max - grid_origin g then None
        else let onset = grid_origin g + offset in
          if onset < 0 then None else Some onset)"

subsection \<open>Selections\<close>

record NoteRange =
  range_start :: ticks
  range_end :: ticks
  range_low_key :: int
  range_high_key :: int

fun range_loop :: "NoteRange \<Rightarrow> Note list \<Rightarrow> Note list" where
  "range_loop r [] = []"
| "range_loop r (n # ns) =
     (if note_start n \<ge> range_end r then []
      else if noteEnd n \<le> range_start r then range_loop r ns
      else if note_key n < range_low_key r \<or> note_key n > range_high_key r then range_loop r ns
      else n # range_loop r ns)"

definition selectNotesInRange :: "note_sequence \<Rightarrow> NoteRange \<Rightarrow> Note list" where
  "selectNotesInRange s r =
     (if range_end r \<le> range_start r \<or> range_high_key r < range_low_key r then [] else range_loop r s)"

definition selectNotes :: "note_sequence \<Rightarrow> (Note \<Rightarrow> bool) option \<Rightarrow> Note list" where
  "selectNotes s predicate = (case predicate of None \<Rightarrow> [] | Some f \<Rightarrow> filter f s)"

subsection \<open>Moving a group\<close>

definition boundedTranspose :: "Note list \<Rightarrow> int \<Rightarrow> int" where
  "boundedTranspose notes requested =
     (if notes = [] then 0
      else let lowest = fold (\<lambda>n low. min low (note_key n)) notes 127;
               highest = fold (\<lambda>n high. max high (note_key n)) notes 0;
               lower = - lowest; upper = 127 - highest
           in to_int16 (if requested < lower then lower else if upper < requested then upper else requested))"

fun earliest_note :: "Note \<Rightarrow> Note list \<Rightarrow> Note" where
  "earliest_note best [] = best"
| "earliest_note best (n # ns) = earliest_note (if note_start n < note_start best then n else best) ns"

definition moved_delta :: "Note list \<Rightarrow> ticks \<Rightarrow> NoteGrid option \<Rightarrow> ticks" where
  "moved_delta notes delta grid =
     (let time_delta = (case grid of
            Some g \<Rightarrow> if grid_valid g then
                let anchor = earliest_note (hd notes) (tl notes);
                    proposed = addClamped (note_start anchor) delta
                in subtractClamped (snapTick proposed g) (note_start anchor)
              else delta
          | None \<Rightarrow> delta);
          earliest = fold (\<lambda>n e. min e (note_start n)) notes (note_start (hd notes))
      in max time_delta (- earliest))"

definition moved :: "Note list \<Rightarrow> ticks \<Rightarrow> int \<Rightarrow> NoteGrid option \<Rightarrow> Note list" where
  "moved notes delta semitones grid =
     (if notes = [] then notes
      else let time_delta = moved_delta notes delta grid;
               pitch_delta = boundedTranspose notes semitones
           in map (\<lambda>n. n\<lparr>note_start := addClamped (note_start n) time_delta,
                note_key := to_int16 (note_key n + pitch_delta)\<rparr>) notes)"

definition bad_grid :: "NoteGrid option \<Rightarrow> bool" where
  "bad_grid grid \<longleftrightarrow> (case grid of None \<Rightarrow> False | Some g \<Rightarrow> \<not> grid_valid g)"

subsection \<open>Commands\<close>

definition addNote :: "('a Tables_scheme) \<Rightarrow> pattern_id \<Rightarrow> instrument_id \<Rightarrow> ticks \<Rightarrow> ticks \<Rightarrow> int \<Rightarrow> command option" where
  "addNote p pid i start len key =
     (case findInstrument p i of
        None \<Rightarrow> None
      | Some owner \<Rightarrow>
          if findPattern p pid = None then None
          else let n = \<lparr>note_start = start, note_length = len, note_key = key,
                        note_velocity = nd_velocity (inst_note_defaults owner)\<rparr> in
            if \<not> isValidNote n then None else Some (insertNotes pid i [n]))"

definition moveNotes :: "pattern_id \<Rightarrow> instrument_id \<Rightarrow> Note list \<Rightarrow> ticks \<Rightarrow> int \<Rightarrow> NoteGrid option \<Rightarrow> command option" where
  "moveNotes pid i selection delta semitones grid =
     (if selection = [] \<or> bad_grid grid then None
      else replaceNotes pid i selection (moved selection delta semitones grid))"

definition resized_note :: "ticks \<Rightarrow> NoteGrid option \<Rightarrow> Note \<Rightarrow> Note" where
  "resized_note length_delta grid n =
     (let end0 = addClamped (noteEnd n) length_delta;
          end1 = (case grid of None \<Rightarrow> end0 | Some g \<Rightarrow> snapTick end0 g)
      in n\<lparr>note_length := (if end1 \<le> note_start n then 1 else end1 - note_start n)\<rparr>)"

definition resizeNotes :: "pattern_id \<Rightarrow> instrument_id \<Rightarrow> Note list \<Rightarrow> ticks \<Rightarrow> NoteGrid option \<Rightarrow> command option" where
  "resizeNotes pid i selection length_delta grid =
     (if selection = [] \<or> bad_grid grid then None
      else replaceNotes pid i selection (map (resized_note length_delta grid) selection))"

definition setNoteVelocity :: "pattern_id \<Rightarrow> instrument_id \<Rightarrow> Note list \<Rightarrow> velocity \<Rightarrow> command option" where
  "setNoteVelocity pid i selection v =
     (if selection = [] \<or> v > MaxVelocity then None
      else replaceNotes pid i selection (map (\<lambda>n. n\<lparr>note_velocity := v\<rparr>) selection))"

definition dround :: "fp \<Rightarrow> fp" where
  "dround x = (case x of Fin q \<Rightarrow> Fin (of_int (round_away q)) | _ \<Rightarrow> x)"

definition scaled_velocity :: "fp \<Rightarrow> velocity \<Rightarrow> velocity" where
  "scaled_velocity scale v =
     to_uint16 (dtrunc (clamp_fp (dround (dmul (dofint v) scale)) (Fin 0) (dofint MaxVelocity)))"

definition scaleNoteVelocity :: "pattern_id \<Rightarrow> instrument_id \<Rightarrow> Note list \<Rightarrow> fp \<Rightarrow> command option" where
  "scaleNoteVelocity pid i selection scale =
     (if selection = [] \<or> \<not> fp_is_finite scale \<or> fp_less scale (Fin 0) then None
      else replaceNotes pid i selection
        (map (\<lambda>n. n\<lparr>note_velocity := scaled_velocity scale (note_velocity n)\<rparr>) selection))"

definition quantised_note :: "NoteGrid \<Rightarrow> fp \<Rightarrow> Note \<Rightarrow> Note" where
  "quantised_note g strength n =
     (let target = snapTick (note_start n) g;
          adjustment = llround (dmul (dofint (subtractClamped target (note_start n))) strength)
      in n\<lparr>note_start := clampStart (addClamped (note_start n) adjustment)\<rparr>)"

definition quantiseNotes :: "pattern_id \<Rightarrow> instrument_id \<Rightarrow> Note list \<Rightarrow> NoteGrid \<Rightarrow> fp \<Rightarrow> command option" where
  "quantiseNotes pid i selection g strength =
     (if selection = [] \<or> \<not> grid_valid g \<or> \<not> fp_is_finite strength \<or> fp_less strength (Fin 0) \<or>
         fp_less (Fin 1) strength then None
      else replaceNotes pid i selection (map (quantised_note g strength) selection))"

definition transposeNotes :: "pattern_id \<Rightarrow> instrument_id \<Rightarrow> Note list \<Rightarrow> int \<Rightarrow> command option" where
  "transposeNotes pid i selection semitones = moveNotes pid i selection 0 semitones None"

definition duplicateNotes :: "pattern_id \<Rightarrow> instrument_id \<Rightarrow> Note list \<Rightarrow> ticks \<Rightarrow> NoteGrid option \<Rightarrow> command option" where
  "duplicateNotes pid i selection delta grid =
     (if selection = [] \<or> bad_grid grid then None
      else Some (insertNotes pid i (moved selection delta 0 grid)))"

subsection \<open>The step sequencer\<close>

record StepCell =
  on_grid :: "Note list"
  off_grid :: "Note list"

definition step_active :: "StepCell \<Rightarrow> bool" where
  "step_active c \<longleftrightarrow> on_grid c \<noteq> []"

definition inspectStep :: "note_sequence \<Rightarrow> int \<Rightarrow> int \<Rightarrow> NoteGrid \<Rightarrow> StepCell" where
  "inspectStep s key index g =
     (case stepOnset index g of
        None \<Rightarrow> \<lparr>on_grid = [], off_grid = []\<rparr>
      | Some start \<Rightarrow>
          if key < 0 \<or> key > 127 then \<lparr>on_grid = [], off_grid = []\<rparr>
          else let hits = filter (\<lambda>n. note_key n = key) (startingIn start (addClamped start (grid_spacing g)) s)
               in \<lparr>on_grid = filter (\<lambda>n. note_start n = start) hits,
                   off_grid = filter (\<lambda>n. note_start n \<noteq> start) hits\<rparr>)"

definition toggleStep :: "('a Tables_scheme) \<Rightarrow> pattern_id \<Rightarrow> instrument_id \<Rightarrow> int \<Rightarrow> int \<Rightarrow> NoteGrid \<Rightarrow> command option" where
  "toggleStep p pid i key index g =
     (case (findPattern p pid, stepOnset index g) of
        (Some owner, Some onset) \<Rightarrow>
          if findInstrument p i = None \<or> key < 0 \<or> key > 127 then None
          else (case om_find (pat_sequences owner) i of
              Some s \<Rightarrow> (let cell = inspectStep s key index g in
                if step_active cell then Some (removeNotes pid i (on_grid cell))
                else addNote p pid i onset (grid_spacing g) key)
            | None \<Rightarrow> addNote p pid i onset (grid_spacing g) key)
      | _ \<Rightarrow> None)"

subsection \<open>Clamped arithmetic is clamping\<close>

lemma addClamped_clamp:
  assumes "in_int64 v" and "in_int64 delta"
  shows "addClamped v delta = max int64_min (min int64_max (v + delta))"
  using assms by (auto simp: addClamped_def in_int64_def int64_max_def int64_min_def)

lemma subtractClamped_clamp:
  assumes "in_int64 v" and "in_int64 s"
  shows "subtractClamped v s = max int64_min (min int64_max (v - s))"
  using assms by (auto simp: subtractClamped_def in_int64_def int64_max_def int64_min_def)

lemma addClamped_exact: "in_int64 (v + delta) \<Longrightarrow> addClamped v delta = v + delta"
  by (auto simp: addClamped_def in_int64_def int64_max_def int64_min_def)

lemma subtractClamped_exact: "in_int64 (v - s) \<Longrightarrow> subtractClamped v s = v - s"
  by (auto simp: subtractClamped_def in_int64_def int64_max_def int64_min_def)

lemma in_int64_of_bounds: "- (2 ^ 63) \<le> x \<Longrightarrow> x < 2 ^ 63 \<Longrightarrow> in_int64 x"
  by (simp add: in_int64_def int64_max_def int64_min_def)

lemmas clamped_exact = addClamped_exact [OF in_int64_of_bounds] subtractClamped_exact [OF in_int64_of_bounds]

subsection \<open>Snapping\<close>

text \<open>The nearest grid line, a tie going to the later one.\<close>

definition nearest_line :: "ticks \<Rightarrow> NoteGrid \<Rightarrow> ticks" where
  "nearest_line tick g = grid_origin g +
     grid_spacing g * ((2 * (tick - grid_origin g) + grid_spacing g) div (2 * grid_spacing g))"

lemma sdiv_smod_sign:
  fixes r s :: int
  assumes "0 < s"
  shows "0 \<le> r \<Longrightarrow> r sdiv s = r div s" and "0 \<le> r \<Longrightarrow> r smod s = r mod s"
    and "r < 0 \<Longrightarrow> r sdiv s = - ((- r) div s)" and "r < 0 \<Longrightarrow> r smod s = - ((- r) mod s)"
  using assms by (simp_all add: signed_divide_int_def signed_modulo_int_def sgn_if minus_div_mult_eq_mod [symmetric])

lemma double_div:
  fixes q l s :: int
  assumes "0 < s" and "- s \<le> 2 * l" and "2 * l < s"
  shows "(2 * (q * s + l) + s) div (2 * s) = q"
proof -
  have "2 * (q * s + l) + s = (2 * l + s) + q * (2 * s)" by (simp add: algebra_simps)
  moreover have "(2 * l + s) div (2 * s) = 0" using assms by (intro div_pos_pos_trivial) auto
  ultimately show ?thesis using assms(1) by (simp only:) simp
qed

lemma nearest_line_eqI:
  assumes "0 < grid_spacing g" and "tick - grid_origin g = q * grid_spacing g + l"
    and "- grid_spacing g \<le> 2 * l" and "2 * l < grid_spacing g"
  shows "nearest_line tick g = grid_origin g + q * grid_spacing g"
  using double_div [OF assms(1,3,4), of q] assms(2) by (simp add: nearest_line_def mult.commute)

lemma half_near:
  fixes x r s m :: int
  shows "0 \<le> m \<Longrightarrow> m < 2 * s \<Longrightarrow> 2 * x = 2 * r + s - m \<Longrightarrow> 2 * \<bar>x - r\<bar> \<le> s"
  by (simp add: abs_if)

lemma nearest_line_near:
  assumes "0 < grid_spacing g"
  shows "2 * \<bar>nearest_line tick g - tick\<bar> \<le> grid_spacing g"
proof -
  let ?s = "grid_spacing g" and ?r = "tick - grid_origin g"
  let ?m = "(2 * ?r + ?s) mod (2 * ?s)"
  define x where "x = ?s * ((2 * ?r + ?s) div (2 * ?s))"
  have "0 \<le> ?m" "?m < 2 * ?s" using assms by simp_all
  moreover have "2 * x = 2 * ?r + ?s - ?m"
    unfolding x_def minus_mod_eq_mult_div by (simp only: mult.assoc)
  moreover have "nearest_line tick g - tick = x - ?r" by (simp add: nearest_line_def x_def)
  ultimately show ?thesis by (simp only: half_near)
qed

lemma snapTick_line:
  assumes g: "grid_valid g" and lo: "- (2 ^ 61 + 2 ^ 60) \<le> tick" "- (2 ^ 61) \<le> grid_origin g"
    and hi: "tick \<le> 2 ^ 61 + 2 ^ 60" "grid_origin g \<le> 2 ^ 61" "grid_spacing g \<le> 2 ^ 61"
  shows "snapTick tick g = nearest_line tick g"
proof -
  let ?s = "grid_spacing g" and ?o = "grid_origin g"
  define r where "r = tick - ?o"
  have s: "0 < ?s" using g by (simp add: grid_valid_def)
  have r: "subtractClamped tick ?o = r" unfolding r_def by (rule clamped_exact) (use lo hi in simp_all)
  have near: "2 * \<bar>nearest_line tick g - tick\<bar> \<le> ?s" by (rule nearest_line_near [OF s])
  show ?thesis
  proof (cases "0 \<le> r")
    case True
    define q m where "q = r div ?s" and "m = r mod ?s"
    have m: "0 \<le> m" "m < ?s" and qm: "r = q * ?s + m" using s by (simp_all add: q_def m_def)
    have sd: "r sdiv ?s = q" "r smod ?s = m" using sdiv_smod_sign [OF s] True by (simp_all add: q_def m_def)
    show ?thesis
    proof (cases "m \<ge> ?s - m")
      case True
      then have n: "nearest_line tick g = ?o + (q + 1) * ?s"
        by (intro nearest_line_eqI [of g tick "q + 1" "m - ?s"])
           (use s m qm in \<open>auto simp: r_def algebra_simps\<close>)
      then have "nearest_line tick g = ?o + (q * ?s + ?s)" by (simp add: algebra_simps)
      moreover have "addClamped (q * ?s) ?s = q * ?s + ?s"
        by (rule clamped_exact) (use qm m s lo hi in \<open>simp_all add: r_def\<close>)
      moreover have "addClamped ?o (q * ?s + ?s) = ?o + (q * ?s + ?s)"
        by (rule clamped_exact) (use qm m s lo hi in \<open>simp_all add: r_def\<close>)
      ultimately show ?thesis using g True m sd by (simp add: snapTick_def Let_def r)
    next
      case False
      then have n: "nearest_line tick g = ?o + q * ?s"
        by (intro nearest_line_eqI) (use s m qm in \<open>auto simp: r_def\<close>)
      moreover have "addClamped ?o (q * ?s) = ?o + q * ?s"
        by (rule clamped_exact) (use qm m s lo hi in \<open>simp_all add: r_def\<close>)
      ultimately show ?thesis using g False m sd by (simp add: snapTick_def Let_def r)
    qed
  next
    case False
    define q m where "q = (- r) div ?s" and "m = (- r) mod ?s"
    have m: "0 \<le> m" "m < ?s" using s by (simp_all add: m_def)
    have "- r = q * ?s + m" by (simp add: q_def m_def)
    then have qm: "r = - (q * ?s) - m" by linarith
    have sd: "r sdiv ?s = - q" "r smod ?s = - m"
      using sdiv_smod_sign(3,4) [OF s, of r] False by (simp_all add: q_def m_def)
    show ?thesis
    proof (cases "m > ?s - m")
      case True
      then have n: "nearest_line tick g = ?o + (- q - 1) * ?s"
        by (intro nearest_line_eqI [of g tick "- q - 1" "?s - m"])
           (use s m qm in \<open>auto simp: r_def algebra_simps\<close>)
      then have "nearest_line tick g = ?o + (- (q * ?s) - ?s)" by (simp add: algebra_simps)
      moreover have "addClamped (- (q * ?s)) (- ?s) = - (q * ?s) + - ?s"
        by (rule clamped_exact) (use qm m s lo hi in \<open>simp_all add: r_def\<close>)
      moreover have "addClamped ?o (- (q * ?s) - ?s) = ?o + (- (q * ?s) - ?s)"
        by (rule clamped_exact) (use qm m s lo hi in \<open>simp_all add: r_def\<close>)
      ultimately show ?thesis using g True m sd by (simp add: snapTick_def Let_def r)
    next
      case False
      then have n: "nearest_line tick g = ?o + (- q) * ?s"
        by (intro nearest_line_eqI [of g tick "- q" "- m"]) (use s m qm in \<open>auto simp: r_def\<close>)
      moreover have "addClamped ?o (- (q * ?s)) = ?o + - (q * ?s)"
        by (rule clamped_exact) (use qm m s lo hi in \<open>simp_all add: r_def\<close>)
      ultimately show ?thesis using g False m sd by (simp add: snapTick_def Let_def r)
    qed
  qed
qed

lemma nearest_line_idem:
  assumes "0 < grid_spacing g"
  shows "nearest_line (nearest_line tick g) g = nearest_line tick g"
proof -
  obtain k where k: "nearest_line tick g = grid_origin g + k * grid_spacing g"
    unfolding nearest_line_def mult.commute [of "grid_spacing g"] by blast
  show ?thesis unfolding k
    by (rule nearest_line_eqI [where l = 0]) (use assms in simp_all)
qed

lemma nearest_line_mono:
  assumes "0 < grid_spacing g" and "a \<le> b"
  shows "nearest_line a g \<le> nearest_line b g"
  using assms by (auto simp: nearest_line_def intro!: mult_left_mono zdiv_mono1)

text \<open>
  Claim C31.  Away from the ends of \<open>int64_t\<close>, \<open>snapTick\<close> is the nearest grid line with a tie
  going to the later one on both sides of the origin, although the code divides with C's
  truncation: the result is a line of the grid at most half a spacing away, snapping it again
  changes nothing, and later ticks never snap earlier.
\<close>

theorem snap_nearest:
  assumes "grid_valid g" and "\<bar>grid_origin g\<bar> \<le> 2 ^ 61" and "grid_spacing g \<le> 2 ^ 61"
    and "\<bar>tick\<bar> \<le> 2 ^ 61" and "\<bar>later\<bar> \<le> 2 ^ 61" and "tick \<le> later"
  shows "snapTick tick g = grid_origin g +
      grid_spacing g * ((2 * (tick - grid_origin g) + grid_spacing g) div (2 * grid_spacing g)) \<and>
    2 * \<bar>snapTick tick g - tick\<bar> \<le> grid_spacing g \<and>
    snapTick (snapTick tick g) g = snapTick tick g \<and> snapTick tick g \<le> snapTick later g"
proof -
  have s: "0 < grid_spacing g" using assms(1) by (simp add: grid_valid_def)
  have e: "snapTick t g = nearest_line t g" if "\<bar>t\<bar> \<le> 2 ^ 61 + 2 ^ 60" for t
    by (rule snapTick_line) (use that assms in auto)
  note near = nearest_line_near [OF s, of tick]
  have "\<bar>nearest_line tick g\<bar> \<le> 2 ^ 61 + 2 ^ 60" using near assms(3,4) by (simp add: abs_if split: if_splits)
  then have "snapTick (nearest_line tick g) g = nearest_line tick g"
    by (simp only: e nearest_line_idem [OF s])
  then show ?thesis
    using e [of tick] e [of later] near assms(4,5) nearest_line_mono [OF s assms(6)]
    by (simp add: nearest_line_def)
qed

lemma snap_nearest_witness:
  "snapTick 130 \<lparr>grid_spacing = 240, grid_origin = 10\<rparr> = 250 \<and> snapTick (- 110) \<lparr>grid_spacing = 240, grid_origin = 10\<rparr> = 10"
proof -
  have "snapTick 130 \<lparr>grid_spacing = 240, grid_origin = 10\<rparr> = 250"
    using snap_nearest [of "\<lparr>grid_spacing = 240, grid_origin = 10\<rparr>" 130 130] by (simp add: grid_valid_def)
  moreover have "snapTick (- 110) \<lparr>grid_spacing = 240, grid_origin = 10\<rparr> = 10"
    using snap_nearest [of "\<lparr>grid_spacing = 240, grid_origin = 10\<rparr>" "- 110" 130] by (simp add: grid_valid_def)
  ultimately show ?thesis by blast
qed


subsection \<open>Range selection\<close>

lemma range_loop_filter:
  assumes "isSorted ns"
  shows "range_loop r ns = filter (\<lambda>n. note_start n < range_end r \<and> range_start r < noteEnd n \<and>
    range_low_key r \<le> note_key n \<and> note_key n \<le> range_high_key r) ns"
  using assms
proof (induction ns)
  case (Cons n ns)
  have IH: "isSorted ns" using Cons.prems by (simp add: isSorted_def)
  show ?case
  proof (cases "range_end r \<le> note_start n")
    case True
    then have "\<forall>x \<in> set ns. range_end r \<le> note_start x"
      using Cons.prems by (auto simp: isSorted_rank note_rank_def)
    with True show ?thesis by simp (rule sym, auto simp: filter_empty_conv)
  qed (use Cons.IH [OF IH] in auto)
qed simp

lemma noteEnd_valid: "isValidNote n \<Longrightarrow> noteEnd n = note_start n + note_length n"
  unfolding noteEnd_def by (rule addClamped_exact) (auto simp: isValidNote_def in_int64_def int64_min_def)

text \<open>
  Claim C32.  Selecting in a range returns, in order, exactly the notes of the sequence that sound
  inside the half-open span and whose key lies in the closed key range, long notes that begin
  before the span included; the early exit at the first note past the end loses none, because the
  sequence is sorted.
\<close>

theorem selection_exact:
  assumes "isSorted s" and "list_all isValidNote s"
  shows "selectNotesInRange s r = filter (\<lambda>n. max (range_start r) (note_start n) < min (range_end r) (note_start n + note_length n) \<and>
    note_key n \<in> {range_low_key r .. range_high_key r}) s"
proof -
  have "range_start r < noteEnd n \<and> note_start n < range_end r \<longleftrightarrow>
      range_start r < note_start n + note_length n \<and> note_start n < range_end r" if "n \<in> set s" for n
    using that assms(2) by (simp add: list_all_iff noteEnd_valid)
  moreover have "note_start n < note_start n + note_length n" if "n \<in> set s" for n
    using that assms(2) by (simp add: list_all_iff isValidNote_def)
  ultimately have "filter (\<lambda>n. note_start n < range_end r \<and> range_start r < noteEnd n \<and>
      range_low_key r \<le> note_key n \<and> note_key n \<le> range_high_key r) s =
    filter (\<lambda>n. note_start n < range_end r \<and> range_start r < note_start n + note_length n \<and>
      note_start n < note_start n + note_length n \<and>
      range_low_key r \<le> note_key n \<and> note_key n \<le> range_high_key r) s"
    by (intro filter_cong) auto
  then show ?thesis
    by (auto simp: selectNotesInRange_def range_loop_filter [OF assms(1)] filter_empty_conv intro!: filter_cong)
qed

lemma selection_exact_witness:
  "selectNotesInRange [sample_note 0 36, sample_note 960 36] \<lparr>range_start = 100, range_end = 960, range_low_key = 0, range_high_key = 127\<rparr>
     = [sample_note 0 36]"
proof -
  have "isSorted [sample_note 0 36, sample_note 960 36]" "list_all isValidNote [sample_note 0 36, sample_note 960 36]"
    by (simp_all add: isSorted_def noteOrderBefore_def sample_note_def isValidNote_def MaxVelocity_def int64_max_def)
  from selection_exact [OF this] show ?thesis by (simp add: sample_note_def)
qed

subsection \<open>Moving as a group\<close>

lemma Min_insert_min: "finite S \<Longrightarrow> Min (insert (min a b) S) = Min (insert a (insert b S))"
  by (cases "S = {}") (simp_all add: min.assoc)

lemma fold_min: "fold (\<lambda>n low. min low (f n)) xs a = Min (insert a (f ` set xs))"
proof (induction xs arbitrary: a)
  case (Cons x xs)
  then show ?case by (simp add: Min_insert_min [of "f ` set xs" a "f x"])
qed simp

lemma fold_max': "fold (\<lambda>n high. max high (f n)) xs a = Max (insert a (f ` set xs))"
proof (induction xs arbitrary: a)
  case (Cons x xs)
  have "Max (insert (max a (f x)) (f ` set xs)) = Max (insert a (insert (f x) (f ` set xs)))"
    by (cases "xs = []") (simp_all add: max.assoc)
  then show ?case by (simp add: Cons.IH)
qed simp

lemma earliest_note_start: "note_start (earliest_note b ns) = Min (insert (note_start b) (note_start ` set ns))"
proof (induction ns arbitrary: b)
  case (Cons n ns)
  have "note_start (if note_start n < note_start b then n else b) = min (note_start b) (note_start n)" by simp
  then show ?case
    using Min_insert_min [of "note_start ` set ns" "note_start b" "note_start n"] by (simp add: Cons.IH)
qed simp

definition group_shift :: "Note list \<Rightarrow> ticks \<Rightarrow> NoteGrid option \<Rightarrow> ticks" where
  "group_shift notes delta grid =
     (let e = Min (note_start ` set notes) in
      max (case grid of None \<Rightarrow> delta | Some g \<Rightarrow> nearest_line (e + delta) g - e) (- e))"

definition group_transpose :: "Note list \<Rightarrow> int \<Rightarrow> int" where
  "group_transpose notes semitones =
     max (- Min (note_key ` set notes)) (min (127 - Max (note_key ` set notes)) semitones)"


lemma clamped_transpose:
  assumes "0 \<le> lo" and "lo \<le> hi" and "hi \<le> 127"
  shows "to_int16 (if req < - lo then - lo else if 127 - hi < req then 127 - hi else req) =
    max (- lo) (min (127 - hi) req)"
  using assms by auto

lemma transposed_bounds:
  fixes k lo hi req :: int
  assumes "lo \<le> k" and "k \<le> hi" and "0 \<le> lo" and "hi \<le> 127"
  shows "0 \<le> k + max (- lo) (min (127 - hi) req) \<and> k + max (- lo) (min (127 - hi) req) \<le> 127"
  using assms by auto

lemma boundedTranspose_eq:
  assumes "notes \<noteq> []" and "list_all isValidNote notes"
  shows "boundedTranspose notes semitones = group_transpose notes semitones"
    and "\<forall>n \<in> set notes. 0 \<le> note_key n + group_transpose notes semitones \<and>
      note_key n + group_transpose notes semitones \<le> 127"
proof -
  let ?K = "note_key ` set notes"
  have K: "finite ?K" "?K \<noteq> {}" using assms(1) by simp_all
  have v: "\<And>k. k \<in> ?K \<Longrightarrow> 0 \<le> k \<and> k \<le> 127" using assms(2) by (auto simp: list_all_iff isValidNote_def)
  then have lo: "0 \<le> Min ?K \<and> Min ?K \<le> 127" and hi: "0 \<le> Max ?K \<and> Max ?K \<le> 127"
    using Min_in [OF K] Max_in [OF K] by blast+
  have le: "Min ?K \<le> Max ?K" using K by simp
  have f: "fold (\<lambda>n low. min low (note_key n)) notes 127 = Min ?K"
    "fold (\<lambda>n high. max high (note_key n)) notes 0 = Max ?K"
    using K lo hi by (simp_all add: fold_min fold_max')
  show "boundedTranspose notes semitones = group_transpose notes semitones"
    using assms(1) clamped_transpose [of "Min ?K" "Max ?K" semitones] lo hi le
    unfolding boundedTranspose_def f group_transpose_def by (simp only: Let_def if_False)
  show "\<forall>n \<in> set notes. 0 \<le> note_key n + group_transpose notes semitones \<and>
      note_key n + group_transpose notes semitones \<le> 127"
  proof
    fix n assume "n \<in> set notes"
    then have "Min ?K \<le> note_key n" "note_key n \<le> Max ?K" by simp_all
    then show "0 \<le> note_key n + group_transpose notes semitones \<and>
      note_key n + group_transpose notes semitones \<le> 127"
      unfolding group_transpose_def by (rule transposed_bounds) (use lo hi le in blast)+
  qed
qed

lemma moved_delta_eq:
  assumes n: "notes \<noteq> []" and v: "\<forall>n \<in> set notes. 0 \<le> note_start n \<and> note_start n \<le> 2 ^ 60"
    and d: "\<bar>delta\<bar> \<le> 2 ^ 60"
    and g: "\<And>g. grid = Some g \<Longrightarrow> grid_valid g \<and> \<bar>grid_origin g\<bar> \<le> 2 ^ 61 \<and> grid_spacing g \<le> 2 ^ 61"
  shows "moved_delta notes delta grid = group_shift notes delta grid"
    and "\<bar>group_shift notes delta grid\<bar> \<le> 2 ^ 61 + 2 ^ 61"
proof -
  let ?e = "Min (note_start ` set notes)"
  have e: "0 \<le> ?e" "?e \<le> 2 ^ 60" using v Min_in [of "note_start ` set notes"] n by (auto simp del: Min_in)
  have h: "insert (note_start (hd notes)) (note_start ` set notes) = note_start ` set notes"
    "insert (note_start (hd notes)) (note_start ` set (tl notes)) = note_start ` set notes"
    using n by (cases "notes"; simp add: insert_absorb)+
  have anchor: "note_start (earliest_note (hd notes) (tl notes)) = ?e" by (simp add: earliest_note_start h)
  have f: "fold (\<lambda>n e. min e (note_start n)) notes (note_start (hd notes)) = ?e" by (simp add: fold_min h)
  have p: "addClamped ?e delta = ?e + delta" by (rule clamped_exact) (use e d in auto)
  have both: "moved_delta notes delta grid = group_shift notes delta grid \<and>
      \<bar>group_shift notes delta grid\<bar> \<le> 2 ^ 61 + 2 ^ 61"
  proof (cases grid)
    case None
    then show ?thesis using e d unfolding moved_delta_def group_shift_def Let_def f by auto
  next
    case (Some x)
    note gx = g [OF Some]
    have t: "\<bar>?e + delta\<bar> \<le> 2 ^ 61" using e d by auto
    have s: "snapTick (?e + delta) x = nearest_line (?e + delta) x" by (rule snapTick_line) (use gx t in auto)
    have "2 * \<bar>nearest_line (?e + delta) x - (?e + delta)\<bar> \<le> grid_spacing x"
      by (rule nearest_line_near) (use gx in \<open>auto simp: grid_valid_def\<close>)
    then have near: "\<bar>nearest_line (?e + delta) x - ?e\<bar> \<le> 2 ^ 61" using d gx by (auto simp: abs_if split: if_splits)
    have "subtractClamped (nearest_line (?e + delta) x) ?e = nearest_line (?e + delta) x - ?e"
      by (rule clamped_exact) (use near in auto)
    with Some gx near e show ?thesis unfolding moved_delta_def group_shift_def Let_def f
      by (auto simp: anchor p s)
  qed
  then show "moved_delta notes delta grid = group_shift notes delta grid"
    and "\<bar>group_shift notes delta grid\<bar> \<le> 2 ^ 61 + 2 ^ 61" by blast+
qed

text \<open>
  Claim C33.  Moving a selection moves it as a group: every note gets the same time shift and the
  same transposition, so all relative onsets and intervals survive; the shift is the requested
  one, snapped so that the earliest note lands on the nearest grid line, and cut off where the
  earliest note would pass the start; the transposition is the requested one cut off where the
  group would leave the keys 0 to 127.
\<close>

theorem move_keeps_shape:
  assumes "notes \<noteq> []" and "list_all isValidNote notes" and "\<forall>n \<in> set notes. note_start n \<le> 2 ^ 60"
    and "\<bar>delta\<bar> \<le> 2 ^ 60"
    and "\<And>g. grid = Some g \<Longrightarrow> grid_valid g \<and> \<bar>grid_origin g\<bar> \<le> 2 ^ 61 \<and> grid_spacing g \<le> 2 ^ 61"
  shows "moved notes delta semitones grid = map (\<lambda>n. n\<lparr>note_start := note_start n + group_shift notes delta grid,
      note_key := note_key n + group_transpose notes semitones\<rparr>) notes \<and>
    (\<forall>n \<in> set (moved notes delta semitones grid). 0 \<le> note_start n \<and> 0 \<le> note_key n \<and> note_key n \<le> 127)"
proof -
  let ?t = "group_shift notes delta grid" and ?k = "group_transpose notes semitones"
  have v: "\<forall>n \<in> set notes. 0 \<le> note_start n \<and> note_start n \<le> 2 ^ 60"
    using assms(2,3) by (auto simp: list_all_iff isValidNote_def)
  have t: "moved_delta notes delta grid = ?t" "\<bar>?t\<bar> \<le> 2 ^ 61 + 2 ^ 61"
    by (rule moved_delta_eq [OF assms(1) v assms(4,5)]; assumption)+
  note k = boundedTranspose_eq [OF assms(1,2), of semitones]
  have pos: "0 \<le> note_start n + ?t" if "n \<in> set notes" for n
  proof -
    have "Min (note_start ` set notes) \<le> note_start n" using that by simp
    moreover have "- Min (note_start ` set notes) \<le> ?t" by (simp add: group_shift_def Let_def)
    ultimately show ?thesis by linarith
  qed
  have "addClamped (note_start n) ?t = note_start n + ?t" if "n \<in> set notes" for n
    by (rule clamped_exact) (use t(2) v pos [OF that] that in \<open>auto simp: abs_le_iff\<close>)
  moreover have "to_int16 (note_key n + ?k) = note_key n + ?k" if "n \<in> set notes" for n
    using k(2) that by (intro to_int16_id) force+
  ultimately have "moved notes delta semitones grid =
      map (\<lambda>n. n\<lparr>note_start := note_start n + ?t, note_key := note_key n + ?k\<rparr>) notes"
    using assms(1) by (simp add: moved_def t(1) k(1) Let_def)
  with pos k(2) show ?thesis by auto
qed

lemma move_keeps_shape_witness:
  "moved [sample_note 250 60, sample_note 490 64] (- 300) 70 (Some \<lparr>grid_spacing = 240, grid_origin = 0\<rparr>) =
     [sample_note 0 123, sample_note 240 127]"
proof -
  have "list_all isValidNote [sample_note 250 60, sample_note 490 64]"
    by (simp add: sample_note_def isValidNote_def MaxVelocity_def int64_max_def)
  from move_keeps_shape [OF _ this, of "- 300" "Some \<lparr>grid_spacing = 240, grid_origin = 0\<rparr>" 70] show ?thesis
    by (auto simp: sample_note_def grid_valid_def group_shift_def group_transpose_def nearest_line_def Let_def)
qed


subsection \<open>Toggling a step\<close>

lemma Note_apply_success:
  assumes pat: "om_find (patterns p) (nc_pattern c) = Some pat" and i: "om_find (instruments p) (nc_instrument c) \<noteq> None"
    and c: "mset (nc_removed c) \<subseteq># mset (current_notes p (nc_pattern c) (nc_instrument c))"
      "list_all isValidNote (nc_added c)"
  obtains c' p' where "apply_command (NoteC c) p = (True, c', p')"
    and "isSorted (current_notes p' (nc_pattern c) (nc_instrument c))"
    and "mset (current_notes p' (nc_pattern c) (nc_instrument c)) =
      mset (current_notes p (nc_pattern c) (nc_instrument c)) - mset (nc_removed c) + mset (nc_added c)"
    and "instruments p' = instruments p" and "om_find (patterns p') (nc_pattern c) \<noteq> None"
    and "current_notes p' (nc_pattern c) (nc_instrument c) \<noteq> [] \<Longrightarrow>
      om_find (pat_sequences (the (om_find (patterns p') (nc_pattern c)))) (nc_instrument c) =
        Some (current_notes p' (nc_pattern c) (nc_instrument c))"
proof -
  let ?pid = "nc_pattern c" and ?i = "nc_instrument c"
  obtain s where s: "isSorted s" "mset s = mset (current_notes p ?pid ?i) - mset (nc_removed c) + mset (nc_added c)"
    and e: "editSequence ?pid ?i (nc_removed c) (nc_added c) p = restoreSequence ?pid ?i s p"
    using editSequence_cases [OF pat i, of "nc_removed c" "nc_added c"] c by metis
  define p1 where "p1 = snd (restoreSequence ?pid ?i s p)"
  have ok: "editSequence ?pid ?i (nc_removed c) (nc_added c) p = (True, p1)"
    unfolding e p1_def using restoreSequence_fst [of ?pid ?i s p] pat i by (simp add: prod_eq_iff)
  have t1: "copyTables p1 = (copyTables p)\<lparr>patterns := om_update ?pid (set_sequence ?i s) (patterns p)\<rparr>"
    unfolding p1_def by (rule restoreSequence_tables [OF i])
  define w where "w = followPatternLength ?pid (patternEffectiveLength pat) p1"
  have t': "copyTables (snd w) = (copyTables p1)\<lparr>clips := clips (snd w)\<rparr>"
    unfolding w_def by (rule follow_frame)
  have f: "patterns (snd w) = om_update ?pid (set_sequence ?i s) (patterns p)" "instruments (snd w) = instruments p"
    using tables_frame [OF t'] tables_frame [OF t1] by simp_all
  have cur: "current_notes (snd w) ?pid ?i = s" by (rule current_after_write [OF pat f(1)])
  show thesis
    by (rule that [of "NoteC (c\<lparr>nc_resized := fst w\<rparr>)" "snd w"])
       (use pat ok s f cur in \<open>simp_all add: Note_apply_eq w_def [symmetric] holding_def Let_def set_sequence_def\<close>)
qed

lemma stepOnset_bounds:
  assumes "stepOnset index g = Some onset"
  shows "0 \<le> onset" and "0 < grid_spacing g"
  using assms by (auto simp: stepOnset_def grid_valid_def Let_def split: if_splits)

definition step_hit :: "int \<Rightarrow> ticks \<Rightarrow> Note \<Rightarrow> bool" where
  "step_hit key onset n \<longleftrightarrow> note_key n = key \<and> note_start n = onset"

lemma inspect_on_grid:
  assumes o': "stepOnset index g = Some onset" and k: "0 \<le> key" "key \<le> 127"
    and s: "isSorted s" "\<forall>n \<in> set s. isValidNote n"
  shows "on_grid (inspectStep s key index g) = filter (step_hit key onset) s"
    and "step_active (inspectStep s key index g) \<longleftrightarrow> (\<exists>n \<in> set s. step_hit key onset n)"
proof -
  have "onset < addClamped onset (grid_spacing g)" if "n \<in> set s" "note_start n = onset" for n
    using that s(2) stepOnset_bounds [OF o'] by (auto simp: addClamped_def isValidNote_def int64_max_def)
  then show a: "on_grid (inspectStep s key index g) = filter (step_hit key onset) s"
    using o' k by (auto simp: inspectStep_def Let_def startingIn_filter [OF s(1)] step_hit_def intro!: filter_cong)
  show "step_active (inspectStep s key index g) \<longleftrightarrow> (\<exists>n \<in> set s. step_hit key onset n)"
    unfolding step_active_def a by (auto simp: filter_empty_conv)
qed


lemma project_notes:
  assumes "project_ok p"
  shows "isSorted (current_notes p pid i)" and "\<forall>n \<in> set (current_notes p pid i). isValidNote n"
proof -
  have "current_notes p pid i = [] \<or> sequence_ok (current_notes p pid i)"
    using project_ok_parts(2) [OF assms] unfolding current_notes_def patterns_ok_def
    by (cases "om_find (patterns p) pid") (auto split: option.split)
  then show "isSorted (current_notes p pid i)" and "\<forall>n \<in> set (current_notes p pid i). isValidNote n"
    by (auto simp: sequence_ok_def isSorted_def)
qed

lemma insert_notes_applied:
  assumes "om_find (patterns p) pid = Some pat" and "om_find (instruments p) i \<noteq> None" and "list_all isValidNote ns"
  obtains c' p' where "apply_command (insertNotes pid i ns) p = (True, c', p')"
    and "isSorted (current_notes p' pid i)"
    and "mset (current_notes p' pid i) = mset (current_notes p pid i) + mset ns"
    and "instruments p' = instruments p" and "om_find (patterns p') pid \<noteq> None"
  by (rule Note_apply_success [of p "\<lparr>nc_pattern = pid, nc_instrument = i, nc_removed = [], nc_added = ns,
        nc_name = counted ''Add'' (length ns), nc_coalescable = False, nc_resized = []\<rparr>" pat])
     (use assms in \<open>simp_all add: insertNotes_def\<close>)

lemma remove_notes_applied:
  assumes "om_find (patterns p) pid = Some pat" and "om_find (instruments p) i \<noteq> None"
    and "mset ns \<subseteq># mset (current_notes p pid i)"
  obtains c' p' where "apply_command (removeNotes pid i ns) p = (True, c', p')"
    and "mset (current_notes p' pid i) = mset (current_notes p pid i) - mset ns"
  by (rule Note_apply_success [of p "\<lparr>nc_pattern = pid, nc_instrument = i, nc_removed = ns, nc_added = [],
        nc_name = counted ''Delete'' (length ns), nc_coalescable = False, nc_resized = []\<rparr>" pat])
     (use assms in \<open>simp_all add: removeNotes_def\<close>)

lemma toggleStep_eq:
  assumes n: "isSorted (current_notes p pid i)" "\<forall>n \<in> set (current_notes p pid i). isValidNote n"
    and "om_find (patterns p) pid = Some pat" and "om_find (instruments p) i \<noteq> None"
    and k: "0 \<le> key" "key \<le> 127" and o': "stepOnset index g = Some onset"
  shows "toggleStep p pid i key index g =
    (if \<exists>n \<in> set (current_notes p pid i). step_hit key onset n
     then Some (removeNotes pid i (filter (step_hit key onset) (current_notes p pid i)))
     else addNote p pid i onset (grid_spacing g) key)"
proof (cases "om_find (pat_sequences pat) i")
  case (Some s)
  then have c: "current_notes p pid i = s" using assms(3) by (simp add: current_notes_def)
  show ?thesis
    using assms Some inspect_on_grid [OF o' k n] unfolding c
    by (auto simp: toggleStep_def findPattern_def findInstrument_def Let_def)
qed (use assms in \<open>auto simp: toggleStep_def findPattern_def findInstrument_def current_notes_def\<close>)

lemma toggleStep_guards:
  assumes "toggleStep p pid i key index g = Some c"
  obtains pat onset where "om_find (patterns p) pid = Some pat" and "om_find (instruments p) i \<noteq> None"
    and "0 \<le> key" and "key \<le> 127" and "stepOnset index g = Some onset"
  using assms by (auto simp: toggleStep_def findPattern_def findInstrument_def split: option.splits if_splits)

lemma addNote_Some:
  assumes "addNote p pid i start len key = Some c"
  obtains n where "isValidNote n" and "note_start n = start" and "note_length n = len" and "note_key n = key"
    and "c = insertNotes pid i [n]"
  using assms by (auto simp: addNote_def Let_def split: option.splits if_splits)

text \<open>
  Claim C34.  Toggling a step on a sound project is a command the model accepts.  Where the cell is
  active it deletes exactly the notes of the key that start on the step, and no other note, off
  the grid or of another key; where it is not, it adds exactly one note of that key and of one
  grid spacing on the step, and toggling again deletes that note, which leaves the notes as they
  were.
\<close>

theorem toggle_step:
  assumes ok: "project_ok p" and t: "toggleStep p pid i key index g = Some c"
    and o': "stepOnset index g = Some onset"
  shows "case apply_command c p of (done, _, p') \<Rightarrow> done \<and>
    (if \<exists>n \<in> set (current_notes p pid i). step_hit key onset n
     then mset (current_notes p' pid i) = filter_mset (\<lambda>n. \<not> step_hit key onset n) (mset (current_notes p pid i))
     else \<exists>n. step_hit key onset n \<and> note_length n = grid_spacing g \<and>
       mset (current_notes p' pid i) = add_mset n (mset (current_notes p pid i)) \<and>
       toggleStep p' pid i key index g = Some (removeNotes pid i [n]) \<and>
       (case apply_command (removeNotes pid i [n]) p' of (again, _, p'') \<Rightarrow> again \<and>
          mset (current_notes p'' pid i) = mset (current_notes p pid i)))"
proof -
  obtain pat where g: "om_find (patterns p) pid = Some pat" "om_find (instruments p) i \<noteq> None" "0 \<le> key" "key \<le> 127"
    using toggleStep_guards [OF t] by metis
  note n = project_notes [OF ok, of pid i]
  note eq = toggleStep_eq [OF n g o']
  let ?cur = "current_notes p pid i" and ?hit = "step_hit key onset"
  show ?thesis
  proof (cases "\<exists>n \<in> set ?cur. ?hit n")
    case True
    then have c: "c = removeNotes pid i (filter ?hit ?cur)" using eq t by simp
    have "mset (filter ?hit ?cur) \<subseteq># mset ?cur" by (simp add: multiset_filter_subset)
    then obtain c' p' where a: "apply_command c p = (True, c', p')"
      "mset (current_notes p' pid i) = mset ?cur - mset (filter ?hit ?cur)"
      unfolding c by (rule remove_notes_applied [OF g(1,2)])
    have "mset ?cur - mset (filter ?hit ?cur) = filter_mset (\<lambda>n. \<not> ?hit n) (mset ?cur)"
      by (metis add_diff_cancel_left' mset_filter multiset_partition)
    with a True show ?thesis by simp
  next
    case False
    then have add: "addNote p pid i onset (grid_spacing g) key = Some c" using eq t by simp
    obtain x where x: "isValidNote x" "?hit x" "note_length x = grid_spacing g" "c = insertNotes pid i [x]"
      by (rule addNote_Some [OF add]) (simp add: step_hit_def)
    have lst: "list_all isValidNote [x]" using x(1) by simp
    obtain c' p' where a: "apply_command c p = (True, c', p')" "isSorted (current_notes p' pid i)"
      "mset (current_notes p' pid i) = add_mset x (mset ?cur)"
      "instruments p' = instruments p" "om_find (patterns p') pid \<noteq> None"
      unfolding x(4) by (rule insert_notes_applied [OF g(1,2) lst]) auto
    obtain pat' where pat': "om_find (patterns p') pid = Some pat'" using a(5) by auto
    have st: "set (current_notes p' pid i) = insert x (set ?cur)"
      using arg_cong [OF a(3), of set_mset] by simp
    have "filter ?hit ?cur = []" using False by (simp add: filter_empty_conv)
    then have "filter_mset ?hit (mset ?cur) = {#}" by (metis mset_filter mset.simps(1))
    then have "mset (filter ?hit (current_notes p' pid i)) = {#x#}"
      using x(2) by (simp add: a(3))
    then have f: "filter ?hit (current_notes p' pid i) = [x]" by (simp only: mset_single_iff)
    have again: "toggleStep p' pid i key index g = Some (removeNotes pid i [x])"
      using toggleStep_eq [OF a(2) _ pat' _ g(3,4) o'] n(2) x(1,2) g(2) st f by (simp add: a(4))
    obtain c'' p'' where b: "apply_command (removeNotes pid i [x]) p' = (True, c'', p'')"
      "mset (current_notes p'' pid i) = mset ?cur"
      by (rule remove_notes_applied [OF pat', of i "[x]"]) (use g(2) in \<open>simp_all add: a(3,4)\<close>)
    show ?thesis using False a(1,3) x(2,3) again b by auto
  qed
qed

lemma toggle_step_witness:
  "case apply_command (insertNotes pat1 ins1 [sample_note 240 36\<lparr>note_velocity := DefaultVelocity\<rparr>]) sample_project of
     (done, _, p') \<Rightarrow> done \<and> size (mset (current_notes p' pat1 ins1)) = 3"
proof -
  have ok: "project_ok sample_project" using sample_sound by (simp add: sound_def)
  let ?n = "sample_note 240 36\<lparr>note_velocity := DefaultVelocity\<rparr>"
  have t: "toggleStep sample_project pat1 ins1 36 1 default_grid = Some (insertNotes pat1 ins1 [?n])"
    by code_simp
  have o': "stepOnset 1 default_grid = Some 240" by code_simp
  have cur: "current_notes sample_project pat1 ins1 = [sample_note 0 36, sample_note 960 36]" by code_simp
  have none: "\<not> (\<exists>n \<in> set [sample_note 0 36, sample_note 960 36]. step_hit 36 240 n)"
    by (simp add: step_hit_def sample_note_def)
  show ?thesis
    using toggle_step [OF ok t o'] unfolding cur if_not_P [OF none] by (force split: prod.splits)
qed

end
