(* ===== verification/Transport.thy ===== *)
theory Transport
  imports Floats
begin

text \<open>
  The engine clock (\<open>core/time_map.h\<close>, \<open>core/transport.h\<close>): positions in samples, converted to
  and from musical time through the tempo, and the transport operations the audio thread applies
  at block boundaries.
\<close>

subsection \<open>The remaining floating-point operations\<close>

fun dadd :: "fp \<Rightarrow> fp \<Rightarrow> fp" where
  "dadd (Fin a) (Fin b) = rnd64 (a + b)"
| "dadd NaN _ = NaN"
| "dadd _ NaN = NaN"
| "dadd (Fin _) b = b"
| "dadd a (Fin _) = a"
| "dadd a b = (if a = b then a else NaN)"

fun dneg :: "fp \<Rightarrow> fp" where
  "dneg (Fin a) = Fin (- a)"
| "dneg PInf = NInf"
| "dneg NInf = PInf"
| "dneg NaN = NaN"

definition dsub :: "fp \<Rightarrow> fp \<Rightarrow> fp" where
  "dsub a b = dadd a (dneg b)"

fun dfloor :: "fp \<Rightarrow> fp" where
  "dfloor (Fin q) = Fin (of_int \<lfloor>q\<rfloor>)"
| "dfloor x = x"

subsection \<open>\<open>TimeMap\<close>\<close>

definition TicksPerBeat :: int where "TicksPerBeat = 960"
definition BeatsPerBar :: int where "BeatsPerBar = 4"
definition MinTempoBpm :: fp where "MinTempoBpm = Fin 20"
definition MaxTempoBpm :: fp where "MaxTempoBpm = Fin 999"

record MusicalPosition =
  mp_bar :: int
  mp_beat :: int
  mp_tick :: int

record TimeMap =
  tm_sample_rate :: fp
  tm_tempo_bpm :: fp

definition clampTempo :: "fp \<Rightarrow> fp" where
  "clampTempo bpm = (if \<not> fp_less MinTempoBpm bpm then MinTempoBpm
     else if fp_less MaxTempoBpm bpm then MaxTempoBpm else bpm)"

definition new_time_map :: "fp \<Rightarrow> fp \<Rightarrow> TimeMap" where
  "new_time_map sample_rate tempo_bpm = \<lparr>tm_sample_rate = sample_rate, tm_tempo_bpm = clampTempo tempo_bpm\<rparr>"

definition tm_setTempo :: "fp \<Rightarrow> TimeMap \<Rightarrow> TimeMap" where
  "tm_setTempo bpm m = m\<lparr>tm_tempo_bpm := clampTempo bpm\<rparr>"

definition framesPerBeat :: "TimeMap \<Rightarrow> fp" where
  "framesPerBeat m = ddiv (dmul (tm_sample_rate m) (Fin 60)) (tm_tempo_bpm m)"

definition framesToBeats :: "TimeMap \<Rightarrow> int \<Rightarrow> fp" where
  "framesToBeats m frames = ddiv (dofint frames) (framesPerBeat m)"

definition beatsToFrames :: "TimeMap \<Rightarrow> fp \<Rightarrow> int" where
  "beatsToFrames m beats = llround (dmul beats (framesPerBeat m))"

definition framesToSeconds :: "TimeMap \<Rightarrow> int \<Rightarrow> fp" where
  "framesToSeconds m frames = ddiv (dofint frames) (tm_sample_rate m)"

definition to_int32 :: "int \<Rightarrow> int" where
  "to_int32 x = (x + 2 ^ 31) mod 2 ^ 32 - 2 ^ 31"

definition musicalPosition :: "TimeMap \<Rightarrow> int \<Rightarrow> MusicalPosition" where
  "musicalPosition m frames =
     (let beats = framesToBeats m frames;
          floored = dfloor beats;
          whole_beats = max 0 (dtrunc floored);
          tick = dtrunc (dmul (dsub beats floored) (dofint TicksPerBeat))
      in \<lparr>mp_bar = to_int32 (whole_beats sdiv BeatsPerBar) + 1,
          mp_beat = to_int32 (whole_beats smod BeatsPerBar) + 1,
          mp_tick = (if tick \<ge> TicksPerBeat then TicksPerBeat - 1 else tick)\<rparr>)"

subsection \<open>\<open>Transport\<close>\<close>

record Transport =
  tr_time_map :: TimeMap
  tr_position_frames :: int
  tr_loop_start_beats :: fp
  tr_loop_end_beats :: fp
  tr_playing :: bool
  tr_loop_enabled :: bool

definition new_transport :: Transport where
  "new_transport = \<lparr>tr_time_map = new_time_map (Fin 48000) (Fin 120), tr_position_frames = 0,
     tr_loop_start_beats = Fin 0, tr_loop_end_beats = Fin 16, tr_playing = False, tr_loop_enabled = True\<rparr>"

definition tr_prepare :: "fp \<Rightarrow> fp \<Rightarrow> Transport \<Rightarrow> Transport" where
  "tr_prepare sample_rate tempo_bpm t = t\<lparr>tr_time_map := new_time_map sample_rate tempo_bpm,
     tr_position_frames := 0, tr_playing := False\<rparr>"

definition loopStartFrames :: "Transport \<Rightarrow> int" where
  "loopStartFrames t = beatsToFrames (tr_time_map t) (tr_loop_start_beats t)"

definition loopEndFrames :: "Transport \<Rightarrow> int" where
  "loopEndFrames t = beatsToFrames (tr_time_map t) (tr_loop_end_beats t)"

definition tr_play :: "Transport \<Rightarrow> Transport" where "tr_play t = t\<lparr>tr_playing := True\<rparr>"
definition tr_stop :: "Transport \<Rightarrow> Transport" where "tr_stop t = t\<lparr>tr_playing := False\<rparr>"

definition tr_seekFrames :: "int \<Rightarrow> Transport \<Rightarrow> Transport" where
  "tr_seekFrames frames t = t\<lparr>tr_position_frames := (if frames < 0 then 0 else frames)\<rparr>"

definition tr_seekBeats :: "fp \<Rightarrow> Transport \<Rightarrow> Transport" where
  "tr_seekBeats beats t =
     tr_seekFrames (beatsToFrames (tr_time_map t) (if fp_less beats (Fin 0) then Fin 0 else beats)) t"

definition tr_setTempo :: "fp \<Rightarrow> Transport \<Rightarrow> Transport" where
  "tr_setTempo bpm t =
     (let beats = framesToBeats (tr_time_map t) (tr_position_frames t);
          m = tm_setTempo bpm (tr_time_map t)
      in t\<lparr>tr_time_map := m, tr_position_frames := beatsToFrames m beats\<rparr>)"

definition tr_setSampleRate :: "fp \<Rightarrow> Transport \<Rightarrow> Transport" where
  "tr_setSampleRate sample_rate t =
     (let beats = framesToBeats (tr_time_map t) (tr_position_frames t);
          m = (tr_time_map t)\<lparr>tm_sample_rate := sample_rate\<rparr>
      in t\<lparr>tr_time_map := m, tr_position_frames := beatsToFrames m beats\<rparr>)"

definition tr_setLoop :: "fp \<Rightarrow> fp \<Rightarrow> bool \<Rightarrow> Transport \<Rightarrow> Transport" where
  "tr_setLoop start_beats end_beats enabled t =
     (let t1 = (if fp_less start_beats end_beats \<and> fp_le (Fin 0) start_beats
                then t\<lparr>tr_loop_start_beats := start_beats, tr_loop_end_beats := end_beats\<rparr> else t)
      in t1\<lparr>tr_loop_enabled := enabled\<rparr>)"

definition tr_advance :: "int \<Rightarrow> Transport \<Rightarrow> Transport" where
  "tr_advance frames t = t\<lparr>tr_position_frames := tr_position_frames t + frames\<rparr>"

definition framesUntilLoopWrap :: "int \<Rightarrow> Transport \<Rightarrow> int" where
  "framesUntilLoopWrap frames t =
     (if \<not> tr_loop_enabled t then frames
      else let end = loopEndFrames t in
        if tr_position_frames t \<ge> end then 0
        else let remaining = end - tr_position_frames t in
          if remaining < frames then remaining else frames)"

subsection \<open>Bounds\<close>

lemma clampTempo_bounds: "\<exists>q. clampTempo bpm = Fin q \<and> 20 \<le> q \<and> q \<le> 999"
  by (cases bpm) (auto simp: clampTempo_def MinTempoBpm_def MaxTempoBpm_def)

lemma clampTempo_idem: "clampTempo (clampTempo bpm) = clampTempo bpm"
  by (cases bpm) (auto simp: clampTempo_def MinTempoBpm_def MaxTempoBpm_def)

text \<open>Values that are not negative: a rational at least 0, or positive infinity.\<close>

definition fp_nonneg :: "fp \<Rightarrow> bool" where
  "fp_nonneg x \<longleftrightarrow> fp_le (Fin 0) x"

lemma fp_nonneg_iff: "fp_nonneg x \<longleftrightarrow> x = PInf \<or> (\<exists>q \<ge> 0. x = Fin q)"
  by (cases x) (auto simp: fp_nonneg_def fp_le_def)

lemma rnd64_nonneg: "0 \<le> q \<Longrightarrow> fp_nonneg (rnd64 q)"
  using rnd_nonneg [of q] unfolding rnd64_def by (auto simp: fp_nonneg_iff)

lemma dmul_nonneg: "fp_nonneg a \<Longrightarrow> fp_nonneg b \<Longrightarrow> fp_nonneg (dmul a b) \<or> dmul a b = NaN"
  by (auto simp: fp_nonneg_iff [of a] fp_nonneg_iff [of b] rnd64_nonneg fp_inf_def)
     (auto simp: fp_nonneg_iff)

lemma ddiv_nonneg: "fp_nonneg a \<Longrightarrow> fp_nonneg b \<Longrightarrow> fp_nonneg (ddiv a b) \<or> ddiv a b = NaN"
  by (auto simp: fp_nonneg_iff [of a] fp_nonneg_iff [of b] rnd64_nonneg fp_inf_def)
     (auto simp: fp_nonneg_iff)

lemma llround_nonneg: "fp_nonneg x \<Longrightarrow> 0 \<le> llround x"
  by (auto simp: fp_nonneg_iff round_away_nonneg)

definition time_map_ok :: "TimeMap \<Rightarrow> bool" where
  "time_map_ok m \<longleftrightarrow> fp_nonneg (tm_sample_rate m) \<and> (\<exists>q. tm_tempo_bpm m = Fin q \<and> 20 \<le> q \<and> q \<le> 999)"

lemma framesPerBeat_nonneg: "time_map_ok m \<Longrightarrow> fp_nonneg (framesPerBeat m) \<or> framesPerBeat m = NaN"
proof -
  assume ok: "time_map_ok m"
  then have "fp_nonneg (tm_tempo_bpm m)" by (auto simp: time_map_ok_def fp_nonneg_iff)
  moreover have "fp_nonneg (dmul (tm_sample_rate m) (Fin 60)) \<or> dmul (tm_sample_rate m) (Fin 60) = NaN"
    using ok by (intro dmul_nonneg) (auto simp: time_map_ok_def fp_nonneg_iff)
  ultimately show ?thesis unfolding framesPerBeat_def using ddiv_nonneg by fastforce
qed

lemma dmul_NaN [simp]: "dmul x NaN = NaN" by (cases x) simp_all
lemma ddiv_NaN [simp]: "ddiv x NaN = NaN" by (cases x) simp_all

lemma beatsToFrames_nonneg:
  assumes "time_map_ok m" and "fp_nonneg beats \<or> beats = NaN"
  shows "0 \<le> beatsToFrames m beats"
proof -
  have "fp_nonneg (dmul beats (framesPerBeat m)) \<or> dmul beats (framesPerBeat m) = NaN"
    using assms(2) framesPerBeat_nonneg [OF assms(1)] dmul_nonneg [of beats "framesPerBeat m"] by auto
  then show ?thesis by (auto simp: beatsToFrames_def llround_nonneg)
qed

lemma framesToBeats_nonneg:
  assumes "time_map_ok m" and "0 \<le> frames"
  shows "fp_nonneg (framesToBeats m frames) \<or> framesToBeats m frames = NaN"
proof -
  have "fp_nonneg (dofint frames)" using assms(2) by (simp add: dofint_def rnd64_nonneg)
  then show ?thesis
    unfolding framesToBeats_def using framesPerBeat_nonneg [OF assms(1)] ddiv_nonneg by force
qed

subsection \<open>What every operation keeps\<close>

definition transport_ok :: "Transport \<Rightarrow> bool" where
  "transport_ok t \<longleftrightarrow> time_map_ok (tr_time_map t) \<and> 0 \<le> tr_position_frames t \<and>
     fp_le (Fin 0) (tr_loop_start_beats t) \<and> fp_less (tr_loop_start_beats t) (tr_loop_end_beats t)"

datatype transport_op = Prepare fp fp | Play | Stop | SeekFrames int | SeekBeats fp | SetTempo fp
  | SetSampleRate fp | SetLoop fp fp bool | Advance int

fun transport_step :: "transport_op \<Rightarrow> Transport \<Rightarrow> Transport" where
  "transport_step (Prepare rate bpm) t = tr_prepare rate bpm t"
| "transport_step Play t = tr_play t"
| "transport_step Stop t = tr_stop t"
| "transport_step (SeekFrames n) t = tr_seekFrames n t"
| "transport_step (SeekBeats b) t = tr_seekBeats b t"
| "transport_step (SetTempo bpm) t = tr_setTempo bpm t"
| "transport_step (SetSampleRate rate) t = tr_setSampleRate rate t"
| "transport_step (SetLoop s e on) t = tr_setLoop s e on t"
| "transport_step (Advance n) t = tr_advance n t"

text \<open>The device reports a rate that is not negative, and the transport only advances.\<close>

fun op_sane :: "transport_op \<Rightarrow> bool" where
  "op_sane (Prepare rate _) = fp_nonneg rate"
| "op_sane (SetSampleRate rate) = fp_nonneg rate"
| "op_sane (Advance n) = (0 \<le> n)"
| "op_sane _ = True"

lemma time_map_ok_tempo: "fp_nonneg (tm_sample_rate m) \<Longrightarrow> time_map_ok (tm_setTempo bpm m)"
  using clampTempo_bounds [of bpm] by (simp add: time_map_ok_def tm_setTempo_def)

lemma transport_step_ok:
  assumes "transport_ok t" and "op_sane x"
  shows "transport_ok (transport_step x t)"
proof (cases x)
  case (Prepare rate bpm)
  then show ?thesis
    using assms clampTempo_bounds [of bpm]
    by (simp add: transport_ok_def tr_prepare_def new_time_map_def time_map_ok_def)
next
  case (SetTempo bpm)
  let ?m = "tm_setTempo bpm (tr_time_map t)"
  have m: "time_map_ok ?m" using assms(1) by (intro time_map_ok_tempo) (simp add: transport_ok_def time_map_ok_def)
  have "0 \<le> beatsToFrames ?m (framesToBeats (tr_time_map t) (tr_position_frames t))"
    using assms(1) by (intro beatsToFrames_nonneg m framesToBeats_nonneg) (simp_all add: transport_ok_def)
  with m SetTempo assms(1) show ?thesis by (simp add: transport_ok_def tr_setTempo_def Let_def)
next
  case (SetSampleRate rate)
  let ?m = "(tr_time_map t)\<lparr>tm_sample_rate := rate\<rparr>"
  have m: "time_map_ok ?m" using assms SetSampleRate by (simp add: transport_ok_def time_map_ok_def)
  have "0 \<le> beatsToFrames ?m (framesToBeats (tr_time_map t) (tr_position_frames t))"
    using assms(1) by (intro beatsToFrames_nonneg m framesToBeats_nonneg) (simp_all add: transport_ok_def)
  with m SetSampleRate assms(1) show ?thesis by (simp add: transport_ok_def tr_setSampleRate_def Let_def)
next
  case (SeekBeats b)
  with assms(1) show ?thesis by (simp add: transport_ok_def tr_seekBeats_def tr_seekFrames_def)
qed (use assms in \<open>auto simp: transport_ok_def tr_play_def tr_stop_def tr_seekFrames_def tr_setLoop_def
       tr_advance_def Let_def fp_le_def\<close>)

lemma new_transport_ok: "transport_ok new_transport"
  using clampTempo_bounds [of "Fin 120"]
  by (simp add: transport_ok_def new_transport_def new_time_map_def time_map_ok_def fp_nonneg_iff fp_le_def)



end
