(* ===== verification/Binary_Search.thy ===== *)
theory Binary_Search
  imports Notes
begin

text \<open>
  The binary search the schedule and the event lists share (\<open>Schedule::lowerBound\<close> and
  \<open>EventListView::lowerBound\<close> are the same loop), the interface of a time-ordered list that is
  searched with it, and the cursor scan the engine runs over a chunk of time.
\<close>

function bound_loop :: "('a \<Rightarrow> bool) \<Rightarrow> 'a list \<Rightarrow> nat \<Rightarrow> nat \<Rightarrow> nat" where
  "bound_loop before xs low high =
     (if low < high then
        let mid = low + (high - low) div 2 in
        if before (xs ! mid) then bound_loop before xs (mid + 1) high else bound_loop before xs low mid
      else low)"
  by pat_completeness auto
termination
  by (relation "measure (\<lambda>(before, xs, low, high). high - low)") auto

declare bound_loop.simps [simp del]

text \<open>
  The loop keeps the partition point between \<open>low\<close> and \<open>high\<close>; the list only has to be
  partitioned, and every index read lies inside it.
\<close>

lemma bound_loop_between:
  assumes "low \<le> k" and "k \<le> high" and "\<And>i. i < k \<Longrightarrow> before (xs ! i)"
    and "\<And>i. k \<le> i \<Longrightarrow> i < high \<Longrightarrow> \<not> before (xs ! i)"
  shows "bound_loop before xs low high = k"
  using assms
proof (induction before xs low high rule: bound_loop.induct)
  case (1 before xs low high)
  show ?case
  proof (cases "low < high")
    case True
    let ?mid = "low + (high - low) div 2"
    have mid: "low \<le> ?mid" "?mid < high" using True by auto
    show ?thesis
    proof (cases "before (xs ! ?mid)")
      case b: True
      then have "?mid < k" using 1(6) [of ?mid] mid by (meson not_le)
      then have "bound_loop before xs (?mid + 1) high = k"
        using 1(1) [OF True refl b] 1(4-6) by simp
      then show ?thesis using True b by (subst bound_loop.simps) (simp add: Let_def)
    next
      case b: False
      then have "k \<le> ?mid" using 1(5) by (meson not_le)
      then have "bound_loop before xs low ?mid = k"
        using 1(2) [OF True refl b] 1(3,5,6) mid by simp
      then show ?thesis using True b by (subst bound_loop.simps) (simp add: Let_def)
    qed
  next
    case False
    then show ?thesis using 1(3,4) by (subst bound_loop.simps) simp
  qed
qed

lemma bound_loop_partition_point:
  assumes "sorted (map f xs)"
  shows "bound_loop (\<lambda>x. f x < (t :: 'b :: linorder)) xs 0 (length xs) = partition_point (\<lambda>x. f x < t) xs"
proof (rule bound_loop_between)
  let ?k = "partition_point (\<lambda>x. f x < t) xs"
  show "f (xs ! i) < t" if "i < ?k" for i using that by (rule partition_point_before)
  show "\<not> f (xs ! i) < t" if "?k \<le> i" "i < length xs" for i
  proof -
    have "\<not> f (xs ! ?k) < t" using that by (intro partition_point_stops) simp
    moreover have "f (xs ! ?k) \<le> f (xs ! i)"
      using sorted_nth_mono [OF assms, of ?k i] that by simp
    ultimately show ?thesis by order
  qed
qed (simp_all add: partition_point_le)

subsection \<open>Time-ordered lists\<close>

text \<open>
  A cursor loop \<open>for (cursor = lower(start); cursor < count && time < end; ++cursor)\<close>.
\<close>

definition cursor_scan :: "nat \<Rightarrow> ('e \<Rightarrow> int) \<Rightarrow> int \<Rightarrow> 'e list \<Rightarrow> 'e list" where
  "cursor_scan start time end events = takeWhile (\<lambda>e. time e < end) (drop start events)"

locale time_ordered =
  fixes events :: "'l \<Rightarrow> 'e list" and time :: "'e \<Rightarrow> int" and lower :: "'l \<Rightarrow> int \<Rightarrow> nat"
  assumes lower_exact:
    "sorted (map time (events l)) \<Longrightarrow> lower l t = partition_point (\<lambda>e. time e < t) (events l)"
begin

lemma lower_bounds:
  assumes "sorted (map time (events l))"
  shows "lower l t \<le> length (events l)" and "i < lower l t \<Longrightarrow> time (events l ! i) < t"
    and "lower l t \<le> i \<Longrightarrow> i < length (events l) \<Longrightarrow> t \<le> time (events l ! i)"
proof -
  show "lower l t \<le> length (events l)" by (simp add: lower_exact [OF assms] partition_point_le)
  show "time (events l ! i) < t" if "i < lower l t"
    using that partition_point_before [of i "\<lambda>e. time e < t"] by (simp add: lower_exact [OF assms])
  show "t \<le> time (events l ! i)" if "lower l t \<le> i" "i < length (events l)"
  proof -
    have "\<not> time (events l ! lower l t) < t"
      using that partition_point_stops [of "\<lambda>e. time e < t" "events l"] by (simp add: lower_exact [OF assms])
    then show ?thesis using sorted_nth_mono [OF assms, of "lower l t" i] that by simp
  qed
qed

lemma scan_filter:
  assumes "sorted (map time (events l))"
  shows "cursor_scan (lower l a) time b (events l) = filter (\<lambda>e. a \<le> time e \<and> time e < b) (events l)"
proof -
  have "drop (lower l a) (events l) = filter (\<lambda>e. a \<le> time e) (events l)"
    using dropWhile_sorted [OF assms, of "\<lambda>e. time e < a"]
    by (simp add: lower_exact [OF assms] drop_partition_point dropWhile_sorted [OF assms] not_less)
  moreover have "takeWhile (\<lambda>e. time e < b) (filter (\<lambda>e. a \<le> time e) (events l)) =
      filter (\<lambda>e. time e < b) (filter (\<lambda>e. a \<le> time e) (events l))"
    by (rule takeWhile_sorted [where f = time]) (use assms in \<open>auto intro: sorted_filter\<close>)
  ultimately show ?thesis by (simp add: cursor_scan_def conj_commute)
qed

text \<open>Adjacent windows join: scanning chunk by chunk sees every event once and in order.\<close>

lemma scan_join:
  assumes s: "sorted (map time (events l))" and "a \<le> b" and "b \<le> c"
  shows "cursor_scan (lower l a) time b (events l) @ cursor_scan (lower l b) time c (events l) = cursor_scan (lower l a) time c (events l)"
proof -
  let ?xs = "filter (\<lambda>e. a \<le> time e \<and> time e < c) (events l)"
  have "sorted (map time ?xs)" using s by (rule sorted_filter)
  from filter_split_sorted [OF this, of "\<lambda>e. time e < b"]
  have "filter (\<lambda>e. time e < b) ?xs @ filter (\<lambda>e. \<not> time e < b) ?xs = ?xs" by force
  moreover have "filter (\<lambda>e. time e < b) ?xs = cursor_scan (lower l a) time b (events l)"
    using assms(3) by (auto simp: scan_filter [OF s] intro!: filter_cong)
  moreover have "filter (\<lambda>e. \<not> time e < b) ?xs = cursor_scan (lower l b) time c (events l)"
    using assms(2) by (auto simp: scan_filter [OF s] intro!: filter_cong)
  ultimately show ?thesis by (simp add: scan_filter [OF s])
qed

end

end
