(* ===== verification/Schedule.thy ===== *)
theory Schedule
  imports Binary_Search
begin

text \<open>
  The flattened schedule (\<open>core/schedule.h\<close>, \<open>core/schedule.cpp\<close>): its events, the builder that
  collects and sorts them, and the search the audio thread starts a block with.  The audio
  thread never writes it, so a schedule is a value.
\<close>

datatype EventType = SchedNoteOn | SchedNoteOff | SchedTempoChange | SchedParamValue
  | SchedParamModulation | SchedAudioStart | SchedEffectParam

primrec event_type_code :: "EventType \<Rightarrow> int" where
  "event_type_code SchedNoteOn = 0"
| "event_type_code SchedNoteOff = 1"
| "event_type_code SchedTempoChange = 2"
| "event_type_code SchedParamValue = 3"
| "event_type_code SchedParamModulation = 4"
| "event_type_code SchedAudioStart = 5"
| "event_type_code SchedEffectParam = 6"

lemma event_type_code_inject [simp]: "event_type_code a = event_type_code b \<longleftrightarrow> a = b"
  by (cases a; cases b; simp)

record ScheduleEvent =
  se_frame :: int
  se_instrument :: int
  se_type :: int
  se_note :: int
  se_value :: fp
  se_reserved :: int

record Schedule =
  sched_events :: "ScheduleEvent list"
  sched_length_frames :: int
  sched_sample_rate :: fp
  sched_generation :: int

definition eventCount :: "Schedule \<Rightarrow> nat" where
  "eventCount s = length (sched_events s)"

definition lowerBound :: "Schedule \<Rightarrow> int \<Rightarrow> nat" where
  "lowerBound s frame = bound_loop (\<lambda>e. se_frame e < frame) (sched_events s) 0 (length (sched_events s))"

subsection \<open>The builder\<close>

record ScheduleBuilder =
  sb_events :: "ScheduleEvent list"
  sb_length_frames :: int

definition new_builder :: ScheduleBuilder where
  "new_builder = \<lparr>sb_events = [], sb_length_frames = 0\<rparr>"

definition sb_addEvent :: "ScheduleEvent \<Rightarrow> ScheduleBuilder \<Rightarrow> ScheduleBuilder" where
  "sb_addEvent e b = b\<lparr>sb_events := sb_events b @ [e]\<rparr>"

definition sb_addNote :: "int \<Rightarrow> int \<Rightarrow> fp \<Rightarrow> int \<Rightarrow> int \<Rightarrow> ScheduleBuilder \<Rightarrow> ScheduleBuilder" where
  "sb_addNote inst note vel start_frame duration_frames b =
     b\<lparr>sb_events := sb_events b @
       [\<lparr>se_frame = start_frame, se_instrument = inst, se_type = event_type_code SchedNoteOn,
         se_note = note, se_value = vel, se_reserved = 0\<rparr>,
        \<lparr>se_frame = start_frame + duration_frames, se_instrument = inst,
         se_type = event_type_code SchedNoteOff, se_note = note, se_value = Fin 0, se_reserved = 0\<rparr>]\<rparr>"

definition sb_addParamValue :: "int \<Rightarrow> int \<Rightarrow> fp \<Rightarrow> int \<Rightarrow> ScheduleBuilder \<Rightarrow> ScheduleBuilder" where
  "sb_addParamValue inst param v frame b =
     b\<lparr>sb_events := sb_events b @ [\<lparr>se_frame = frame, se_instrument = inst,
       se_type = event_type_code SchedParamValue, se_note = - 1, se_value = v, se_reserved = param\<rparr>]\<rparr>"

definition sb_addParamModulation :: "int \<Rightarrow> int \<Rightarrow> fp \<Rightarrow> int \<Rightarrow> ScheduleBuilder \<Rightarrow> ScheduleBuilder" where
  "sb_addParamModulation inst param amount frame b =
     b\<lparr>sb_events := sb_events b @ [\<lparr>se_frame = frame, se_instrument = inst,
       se_type = event_type_code SchedParamModulation, se_note = - 1, se_value = amount, se_reserved = param\<rparr>]\<rparr>"

definition sb_addEffectParam :: "int \<Rightarrow> int \<Rightarrow> fp \<Rightarrow> int \<Rightarrow> ScheduleBuilder \<Rightarrow> ScheduleBuilder" where
  "sb_addEffectParam effect param v frame b =
     b\<lparr>sb_events := sb_events b @ [\<lparr>se_frame = frame, se_instrument = effect,
       se_type = event_type_code SchedEffectParam, se_note = - 1, se_value = v, se_reserved = param\<rparr>]\<rparr>"

definition sb_addAudioStart :: "int \<Rightarrow> int \<Rightarrow> ScheduleBuilder \<Rightarrow> ScheduleBuilder" where
  "sb_addAudioStart inst frame b =
     b\<lparr>sb_events := sb_events b @ [\<lparr>se_frame = frame, se_instrument = inst,
       se_type = event_type_code SchedAudioStart, se_note = - 1, se_value = Fin 1, se_reserved = 0\<rparr>]\<rparr>"

definition sb_setLengthFrames :: "int \<Rightarrow> ScheduleBuilder \<Rightarrow> ScheduleBuilder" where
  "sb_setLengthFrames frames b = b\<lparr>sb_length_frames := frames\<rparr>"

text \<open>The stable sort of \<open>build\<close>: by frame, and within a frame the higher type code first.\<close>

definition schedule_rank :: "ScheduleEvent \<Rightarrow> int \<times> int" where
  "schedule_rank e = (se_frame e, - se_type e)"

definition sb_build :: "fp \<Rightarrow> int \<Rightarrow> ScheduleBuilder \<Rightarrow> Schedule" where
  "sb_build sample_rate gen b =
     (let events = sort_key schedule_rank (sb_events b);
          len = (if sb_length_frames b \<le> 0 \<and> events \<noteq> [] then se_frame (last events)
                 else sb_length_frames b)
      in \<lparr>sched_events = events, sched_length_frames = len, sched_sample_rate = sample_rate,
          sched_generation = gen\<rparr>)"

text \<open>The events the cursor of \<open>processChunk\<close> and of \<open>renderMixer\<close> visits in a chunk.\<close>

definition chunk_events :: "Schedule \<Rightarrow> int \<Rightarrow> int \<Rightarrow> ScheduleEvent list" where
  "chunk_events s chunk_start chunk_end =
     cursor_scan (lowerBound s chunk_start) se_frame chunk_end (sched_events s)"

subsection \<open>The interface\<close>

interpretation sched: time_ordered sched_events se_frame lowerBound
  by unfold_locales (simp add: lowerBound_def bound_loop_partition_point)

definition schedule_sorted :: "Schedule \<Rightarrow> bool" where
  "schedule_sorted s \<longleftrightarrow> sorted (map se_frame (sched_events s))"

lemma sorted_frames_of_rank: "sorted (map schedule_rank es) \<Longrightarrow> sorted (map se_frame es)"
  by (induction es) (auto simp: schedule_rank_def)

lemma build_sorted: "schedule_sorted (sb_build rate gen b)"
  by (simp add: schedule_sorted_def sb_build_def Let_def sorted_frames_of_rank)

lemma chunk_events_filter:
  "schedule_sorted s \<Longrightarrow> chunk_events s a b = filter (\<lambda>e. a \<le> se_frame e \<and> se_frame e < b) (sched_events s)"
  unfolding chunk_events_def schedule_sorted_def by (rule sched.scan_filter)

lemma chunk_events_join:
  "schedule_sorted s \<Longrightarrow> a \<le> b \<Longrightarrow> b \<le> c \<Longrightarrow> chunk_events s a b @ chunk_events s b c = chunk_events s a c"
  unfolding chunk_events_def schedule_sorted_def by (rule sched.scan_join)

lemma filter_sort_key: "filter (\<lambda>x. f x = k) (sort_key f xs) = filter (\<lambda>x. f x = k) xs"
  by (rule sort_key_stable)


definition sample_builder :: ScheduleBuilder where
  "sample_builder = sb_addNote 0 60 (Fin 1) 480 240 (sb_addAudioStart 2 0 (sb_addNote 0 60 (Fin 1) 240 240 new_builder))"


lemma chunk_events_concat:
  assumes "schedule_sorted s" and "sorted (a # bs)"
  shows "concat (map2 (chunk_events s) (a # bs) bs) = chunk_events s a (last (a # bs))"
  using assms(2)
proof (induction bs arbitrary: a)
  case Nil
  have "chunk_events s a a = []" by (auto simp: chunk_events_filter [OF assms(1)] filter_empty_conv)
  then show ?case by simp
next
  case (Cons b bs)
  have "sorted (b # bs)" "a \<le> b" using Cons.prems by auto
  moreover have "b \<le> last (b # bs)" using calculation(1) by (cases bs) (auto simp: last_in_set)
  ultimately show ?case using Cons.IH [of b] by (simp add: chunk_events_join [OF assms(1)])
qed

end
