(* ===== verification/Plugin_Event.thy ===== *)
theory Plugin_Event
  imports Binary_Search
begin

text \<open>
  The event vocabulary of the plug-in model (\<open>plugin/event.h\<close>, and the wildcards of
  \<open>plugin/plugin_types.h\<close>): the event factories, the view a plug-in reads, and the list over
  borrowed storage that the audio thread fills and sorts in place.  A sysex payload is a borrowed
  pointer, kept here as an opaque address.
\<close>

subsection \<open>Events\<close>

type_synonym ParamId = int
type_synonym NoteId = int

definition AnyNote :: NoteId where "AnyNote = - 1"
definition AnyPort :: int where "AnyPort = - 1"
definition AnyChannel :: int where "AnyChannel = - 1"
definition AnyKey :: int where "AnyKey = - 1"

lemmas wildcards = AnyNote_def AnyPort_def AnyChannel_def AnyKey_def

datatype PluginEventType = EvNone | NoteOn | NoteOff | NoteChoke | NoteEnd | NoteExpression
  | ParamValue | ParamModulation | ParamGestureBegin | ParamGestureEnd | TransportDiscontinuity
  | Midi1 | Midi2 | MidiSysex

datatype NoteExpressionId = ExprVolume | ExprPan | ExprTuning | ExprVibrato | ExprExpression
  | ExprBrightness | ExprPressure

primrec expression_code :: "NoteExpressionId \<Rightarrow> int" where
  "expression_code ExprVolume = 0"
| "expression_code ExprPan = 1"
| "expression_code ExprTuning = 2"
| "expression_code ExprVibrato = 3"
| "expression_code ExprExpression = 4"
| "expression_code ExprBrightness = 5"
| "expression_code ExprPressure = 6"

definition EventFlagNone :: int where "EventFlagNone = 0"
definition EventFlagIsLive :: int where "EventFlagIsLive = 1"
definition EventFlagDontRecord :: int where "EventFlagDontRecord = 2"

datatype Payload = Number fp | Sysex nat | Midi1Bytes "8 word list" | Midi2Words "32 word list"

record PluginEvent =
  ev_time :: int
  ev_type :: PluginEventType
  ev_flags :: int
  ev_note_id :: NoteId
  ev_port_index :: int
  ev_channel :: int
  ev_key :: int
  ev_id :: int
  ev_payload :: Payload

definition default_event :: PluginEvent where
  "default_event = \<lparr>ev_time = 0, ev_type = EvNone, ev_flags = EventFlagNone, ev_note_id = AnyNote,
     ev_port_index = AnyPort, ev_channel = AnyChannel, ev_key = AnyKey, ev_id = 0, ev_payload = Number (Fin 0)\<rparr>"

definition matchesNote :: "PluginEvent \<Rightarrow> NoteId \<Rightarrow> int \<Rightarrow> int \<Rightarrow> int \<Rightarrow> bool" where
  "matchesNote e id_to_match port channel_to_match key_to_match \<longleftrightarrow>
     (ev_note_id e = AnyNote \<or> ev_note_id e = id_to_match) \<and>
     (ev_port_index e = AnyPort \<or> ev_port_index e = port) \<and>
     (ev_channel e = AnyChannel \<or> ev_channel e = channel_to_match) \<and>
     (ev_key e = AnyKey \<or> ev_key e = key_to_match)"

definition makeNote :: "PluginEventType \<Rightarrow> int \<Rightarrow> int \<Rightarrow> fp \<Rightarrow> NoteId \<Rightarrow> int \<Rightarrow> int \<Rightarrow> PluginEvent" where
  "makeNote kind time key v note ch port = default_event\<lparr>ev_time := time, ev_type := kind,
     ev_note_id := note, ev_key := key, ev_channel := ch, ev_port_index := port, ev_payload := Number v\<rparr>"

definition makeParam :: "PluginEventType \<Rightarrow> int \<Rightarrow> ParamId \<Rightarrow> fp \<Rightarrow> int \<Rightarrow> PluginEvent" where
  "makeParam kind time param v flags = default_event\<lparr>ev_time := time, ev_type := kind, ev_flags := flags,
     ev_id := param, ev_payload := Number v\<rparr>"

definition ev_noteOn :: "int \<Rightarrow> int \<Rightarrow> fp \<Rightarrow> NoteId \<Rightarrow> int \<Rightarrow> int \<Rightarrow> PluginEvent" where
  "ev_noteOn time key vel note ch port = makeNote NoteOn time key vel note ch port"

definition ev_noteOff :: "int \<Rightarrow> int \<Rightarrow> fp \<Rightarrow> NoteId \<Rightarrow> int \<Rightarrow> int \<Rightarrow> PluginEvent" where
  "ev_noteOff time key vel note ch port = makeNote NoteOff time key vel note ch port"

definition ev_noteChoke :: "int \<Rightarrow> int \<Rightarrow> NoteId \<Rightarrow> int \<Rightarrow> int \<Rightarrow> PluginEvent" where
  "ev_noteChoke time key note ch port = makeNote NoteChoke time key (Fin 0) note ch port"

definition ev_allNotesOff :: "int \<Rightarrow> PluginEvent" where
  "ev_allNotesOff time = makeNote NoteOff time AnyKey (Fin 0) AnyNote AnyChannel AnyPort"

definition ev_noteEnd :: "int \<Rightarrow> int \<Rightarrow> NoteId \<Rightarrow> int \<Rightarrow> int \<Rightarrow> PluginEvent" where
  "ev_noteEnd time key note ch port = makeNote NoteEnd time key (Fin 0) note ch port"

definition ev_noteExpression :: "int \<Rightarrow> NoteExpressionId \<Rightarrow> fp \<Rightarrow> NoteId \<Rightarrow> int \<Rightarrow> int \<Rightarrow> int \<Rightarrow> PluginEvent" where
  "ev_noteExpression time ex v note key ch port =
     (makeNote NoteExpression time key v note ch port)\<lparr>ev_id := expression_code ex\<rparr>"

definition ev_paramValue :: "int \<Rightarrow> ParamId \<Rightarrow> fp \<Rightarrow> int \<Rightarrow> PluginEvent" where
  "ev_paramValue time param v flags = makeParam ParamValue time param v flags"

definition ev_paramValueForNote :: "int \<Rightarrow> ParamId \<Rightarrow> fp \<Rightarrow> NoteId \<Rightarrow> int \<Rightarrow> int \<Rightarrow> int \<Rightarrow> PluginEvent" where
  "ev_paramValueForNote time param v note key ch port =
     (makeParam ParamValue time param v EventFlagNone)\<lparr>ev_note_id := note, ev_key := key,
       ev_channel := ch, ev_port_index := port\<rparr>"

definition ev_paramModulation :: "int \<Rightarrow> ParamId \<Rightarrow> fp \<Rightarrow> NoteId \<Rightarrow> int \<Rightarrow> int \<Rightarrow> int \<Rightarrow> PluginEvent" where
  "ev_paramModulation time param amount note key ch port =
     (makeParam ParamModulation time param amount EventFlagNone)\<lparr>ev_note_id := note, ev_key := key,
       ev_channel := ch, ev_port_index := port\<rparr>"

definition ev_paramGesture :: "int \<Rightarrow> ParamId \<Rightarrow> bool \<Rightarrow> PluginEvent" where
  "ev_paramGesture time param begins =
     makeParam (if begins then ParamGestureBegin else ParamGestureEnd) time param (Fin 0) EventFlagNone"

definition ev_transportDiscontinuity :: "int \<Rightarrow> PluginEvent" where
  "ev_transportDiscontinuity time = default_event\<lparr>ev_time := time, ev_type := TransportDiscontinuity\<rparr>"

definition ev_midi1 :: "int \<Rightarrow> 8 word \<Rightarrow> 8 word \<Rightarrow> 8 word \<Rightarrow> int \<Rightarrow> PluginEvent" where
  "ev_midi1 time status data1 data2 port = default_event\<lparr>ev_time := time, ev_type := Midi1,
     ev_port_index := port, ev_payload := Midi1Bytes [status, data1, data2, 0]\<rparr>"

definition ev_midiSysex :: "int \<Rightarrow> nat \<Rightarrow> int \<Rightarrow> int \<Rightarrow> PluginEvent" where
  "ev_midiSysex time bytes len port = default_event\<lparr>ev_time := time, ev_type := MidiSysex,
     ev_port_index := port, ev_id := len, ev_payload := Sysex bytes\<rparr>"

lemma allNotesOff_matches_all: "matchesNote (ev_allNotesOff time) note port ch key"
  by (simp add: matchesNote_def ev_allNotesOff_def makeNote_def)

lemma noteOff_matches_own:
  "note \<noteq> AnyNote \<Longrightarrow> port \<noteq> AnyPort \<Longrightarrow> ch \<noteq> AnyChannel \<Longrightarrow> key \<noteq> AnyKey \<Longrightarrow>
   matchesNote (ev_noteOff time key v note ch port) note' port' ch' key' \<longleftrightarrow>
     note' = note \<and> port' = port \<and> ch' = ch \<and> key' = key"
  by (auto simp: matchesNote_def ev_noteOff_def makeNote_def)

subsection \<open>The view\<close>

type_synonym EventListView = "PluginEvent list"

definition view_lowerBound :: "EventListView \<Rightarrow> int \<Rightarrow> nat" where
  "view_lowerBound v time = bound_loop (\<lambda>e. ev_time e < time) v 0 (length v)"

interpretation event_view: time_ordered "\<lambda>v. v" ev_time view_lowerBound
  by unfold_locales (simp add: view_lowerBound_def bound_loop_partition_point)

subsection \<open>The list over borrowed storage\<close>

record EventList =
  el_events :: "PluginEvent list"
  el_capacity :: nat
  el_count :: nat
  el_overflow :: "32 word"

definition new_event_list :: "PluginEvent list \<Rightarrow> nat \<Rightarrow> EventList" where
  "new_event_list storage capacity =
     \<lparr>el_events = storage, el_capacity = capacity, el_count = 0, el_overflow = 0\<rparr>"

definition el_push :: "PluginEvent \<Rightarrow> EventList \<Rightarrow> bool \<times> EventList" where
  "el_push e l =
     (if el_count l \<ge> el_capacity l then (False, l\<lparr>el_overflow := el_overflow l + 1\<rparr>)
      else (True, l\<lparr>el_events := (el_events l)[el_count l := e], el_count := el_count l + 1\<rparr>))"

definition el_clear :: "EventList \<Rightarrow> EventList" where
  "el_clear l = l\<lparr>el_count := 0, el_overflow := 0\<rparr>"

definition el_view :: "EventList \<Rightarrow> EventListView" where
  "el_view l = take (el_count l) (el_events l)"

text \<open>The inner loop of \<open>sortByTime\<close>: shift the later events up and drop the key in the gap.\<close>

fun shift_loop :: "PluginEvent \<Rightarrow> nat \<Rightarrow> PluginEvent list \<Rightarrow> PluginEvent list" where
  "shift_loop key 0 es = es[0 := key]"
| "shift_loop key (Suc position) es =
     (if ev_time (es ! position) > ev_time key
      then shift_loop key position (es[Suc position := es ! position])
      else es[Suc position := key])"

definition el_sortByTime :: "EventList \<Rightarrow> EventList" where
  "el_sortByTime l =
     l\<lparr>el_events := fold (\<lambda>index es. shift_loop (es ! index) index es) [1 ..< el_count l] (el_events l)\<rparr>"

record EventBuffer =
  eb_storage :: "PluginEvent list"
  eb_capacity :: nat

definition eb_reserve :: "nat \<Rightarrow> EventBuffer" where
  "eb_reserve capacity = \<lparr>eb_storage = replicate capacity default_event, eb_capacity = capacity\<rparr>"

definition eb_list :: "EventBuffer \<Rightarrow> EventList" where
  "eb_list b = new_event_list (eb_storage b) (eb_capacity b)"

subsection \<open>The insertion sort is the stable sort\<close>

definition insert_right :: "PluginEvent \<Rightarrow> PluginEvent list \<Rightarrow> PluginEvent list" where
  "insert_right key es = filter (\<lambda>e. ev_time e \<le> ev_time key) es @ key # filter (\<lambda>e. ev_time key < ev_time e) es"

lemma shift_loop_insert:
  assumes "sorted (map ev_time (take p es))" and "p < length es"
  shows "shift_loop key p es = insert_right key (take p es) @ drop (Suc p) es"
  using assms
proof (induction p arbitrary: es)
  case 0
  then show ?case by (cases es) (simp_all add: insert_right_def)
next
  case (Suc p)
  have t: "take (Suc p) es = take p es @ [es ! p]" using Suc.prems(2) by (simp add: take_Suc_conv_app_nth)
  have s: "sorted (map ev_time (take p es))" and le: "\<forall>e \<in> set (take p es). ev_time e \<le> ev_time (es ! p)"
    using Suc.prems(1) unfolding t by (auto simp: sorted_append)
  show ?case
  proof (cases "ev_time key < ev_time (es ! p)")
    case True
    let ?es = "es[Suc p := es ! p]"
    have "shift_loop key p ?es = insert_right key (take p ?es) @ drop (Suc p) ?es"
      by (rule Suc.IH) (use s Suc.prems(2) in simp_all)
    also have "drop (Suc p) ?es = es ! p # drop (Suc (Suc p)) es"
      using Suc.prems(2) by (simp add: list_eq_iff_nth_eq nth_list_update nth_Cons split: nat.split)
    finally show ?thesis
      using True by (simp add: t insert_right_def)
  next
    case False
    then have "\<forall>e \<in> set (take (Suc p) es). ev_time e \<le> ev_time key" using le unfolding t by auto
    then have "insert_right key (take (Suc p) es) = take (Suc p) es @ [key]"
      by (auto simp: insert_right_def filter_empty_conv not_less intro: filter_True)
    with False Suc.prems(2) show ?thesis by (simp add: upd_conv_take_nth_drop)
  qed
qed

lemma sort_key_snoc: "sort_key ev_time (xs @ [x]) = insert_right x (sort_key ev_time xs)"
proof (rule properties_for_sort_key)
  let ?s = "sort_key ev_time xs"
  show "mset (insert_right x ?s) = mset (xs @ [x])"
    by (simp add: insert_right_def mset_filter [symmetric] flip: mset_filter)
       (metis (no_types, lifting) mset_filter mset_sort multiset_partition not_le filter_mset_cong0)
  show "filter (\<lambda>y. ev_time k = ev_time y) (insert_right x ?s) = filter (\<lambda>y. ev_time k = ev_time y) (xs @ [x])" for k
  proof -
    have st: "filter (\<lambda>y. ev_time k = ev_time y) ?s = filter (\<lambda>y. ev_time k = ev_time y) xs"
      using sort_key_stable [of ev_time "ev_time k" xs] by (simp add: eq_commute)
    show ?thesis
      by (cases "ev_time x" "ev_time k" rule: linorder_cases)
         (auto simp: insert_right_def st [symmetric] filter_empty_conv conj_commute intro!: filter_cong)
  qed
  show "sorted (map ev_time (insert_right x ?s))"
    by (auto simp: insert_right_def sorted_append intro: sorted_filter less_imp_le)
qed

lemma sort_prefix:
  assumes "n \<le> length es"
  shows "fold (\<lambda>index es. shift_loop (es ! index) index es) [1 ..< n] es = sort_key ev_time (take n es) @ drop n es"
  using assms
proof (induction n)
  case (Suc n)
  show ?case
  proof (cases "n = 0")
    case True
    with Suc.prems show ?thesis by (cases es) simp_all
  next
    case False
    let ?s = "sort_key ev_time (take n es)"
    have IH: "fold (\<lambda>index es. shift_loop (es ! index) index es) [1 ..< n] es = ?s @ drop n es"
      using Suc by simp
    have len: "length ?s = n" using Suc.prems by simp
    have x: "(?s @ drop n es) ! n = es ! n" using Suc.prems by (simp add: nth_append)
    have "shift_loop (es ! n) n (?s @ drop n es) = insert_right (es ! n) ?s @ drop (Suc n) es"
      using shift_loop_insert [of n "?s @ drop n es" "es ! n"] Suc.prems len by simp
    moreover have "take (Suc n) es = take n es @ [es ! n]" using Suc.prems by (simp add: take_Suc_conv_app_nth)
    ultimately show ?thesis using False IH x by (simp add: sort_key_snoc)
  qed
qed simp

subsection \<open>A block's list\<close>

definition el_ok :: "EventList \<Rightarrow> bool" where
  "el_ok l \<longleftrightarrow> el_capacity l = length (el_events l) \<and> el_count l \<le> el_capacity l"

definition push_all :: "PluginEvent list \<Rightarrow> EventList \<Rightarrow> EventList" where
  "push_all es l = fold (\<lambda>e l. snd (el_push e l)) es l"

lemma push_all_view:
  assumes "el_ok l"
  shows "el_ok (push_all es l)" and "el_capacity (push_all es l) = el_capacity l"
    and "el_view (push_all es l) = el_view l @ take (el_capacity l - el_count l) es"
    and "el_overflow (push_all es l) = el_overflow l + of_nat (length es - (el_capacity l - el_count l))"
proof -
  have "el_ok (push_all es l) \<and> el_capacity (push_all es l) = el_capacity l \<and>
      el_view (push_all es l) = el_view l @ take (el_capacity l - el_count l) es \<and>
      el_overflow (push_all es l) = el_overflow l + of_nat (length es - (el_capacity l - el_count l))"
    using assms
  proof (induction es arbitrary: l)
    case (Cons e es)
    let ?l = "snd (el_push e l)"
    have "el_ok ?l" using Cons.prems by (auto simp: el_push_def el_ok_def)
    note IH = Cons.IH [OF this]
    show ?case
    proof (cases "el_capacity l \<le> el_count l")
      case True
      then have l: "?l = l\<lparr>el_overflow := el_overflow l + 1\<rparr>" by (simp add: el_push_def)
      show ?thesis using IH True unfolding l by (simp add: push_all_def l el_view_def)
    next
      case False
      then have l: "?l = l\<lparr>el_events := (el_events l)[el_count l := e], el_count := el_count l + 1\<rparr>"
        by (simp add: el_push_def)
      have v: "el_view ?l = el_view l @ [e]"
        using False Cons.prems unfolding l
        by (simp add: el_view_def el_ok_def take_Suc_conv_app_nth)
      obtain k where k: "el_capacity l - el_count l = Suc k" "el_capacity l - Suc (el_count l) = k"
        using False by (metis Suc_diff_Suc not_le)
      have c: "el_capacity ?l = el_capacity l" "el_count ?l = Suc (el_count l)" "el_overflow ?l = el_overflow l"
        by (simp_all add: l)
      have p: "push_all (e # es) l = push_all es ?l" by (simp add: push_all_def)
      show ?thesis using IH unfolding p c v k by simp
    qed
  qed (simp add: push_all_def)
  then show "el_ok (push_all es l)" and "el_capacity (push_all es l) = el_capacity l"
    and "el_view (push_all es l) = el_view l @ take (el_capacity l - el_count l) es"
    and "el_overflow (push_all es l) = el_overflow l + of_nat (length es - (el_capacity l - el_count l))"
    by blast+
qed

lemma sortByTime_view:
  assumes "el_ok l"
  shows "el_view (el_sortByTime l) = sort_key ev_time (el_view l)"
    and "drop (el_count l) (el_events (el_sortByTime l)) = drop (el_count l) (el_events l)"
  using assms sort_prefix [of "el_count l" "el_events l"] by (simp_all add: el_sortByTime_def el_view_def el_ok_def)

text \<open>
  What a plug-in reads in a block: of the events pushed into an empty list over a
  buffer, the first \<open>capacity\<close> are kept and every further one is counted in the 32-bit overflow
  counter; the in-place insertion sort leaves the kept ones in the stable order of their times,
  and the binary search on the view finds the first event at or after a time.
\<close>

theorem block_events_sorted:
  "let l = el_sortByTime (push_all es (eb_list (eb_reserve capacity))) in
     el_view l = sort_key ev_time (take capacity es) \<and>
     el_overflow l = of_nat (length es - capacity) \<and>
     view_lowerBound (el_view l) t = length (filter (\<lambda>e. ev_time e < t) (take capacity es))"
proof -
  let ?b = "eb_list (eb_reserve capacity)"
  have ok: "el_ok ?b" and v0: "el_view ?b = []" and c: "el_capacity ?b = capacity" "el_count ?b = 0" "el_overflow ?b = 0"
    by (simp_all add: el_ok_def eb_list_def eb_reserve_def new_event_list_def el_view_def)
  note p = push_all_view [OF ok, of es, unfolded v0 c]
  let ?s = "sort_key ev_time (take capacity es)"
  have v: "el_view (el_sortByTime (push_all es ?b)) = ?s"
    using sortByTime_view(1) [OF p(1)] p(3) by simp
  have "view_lowerBound ?s t = length (takeWhile (\<lambda>e. ev_time e < t) ?s)"
    using event_view.lower_exact [of ?s t] by (simp add: partition_point_def)
  also have "\<dots> = length (filter (\<lambda>e. ev_time e < t) ?s)"
    by (subst takeWhile_sorted [where f = ev_time]) simp_all
  also have "\<dots> = length (filter (\<lambda>e. ev_time e < t) (take capacity es))"
    by (rule mset_eq_length) simp
  finally have "view_lowerBound ?s t = \<dots>" .
  moreover have "el_overflow (el_sortByTime (push_all es ?b)) = of_nat (length es - capacity)"
    using p(4) by (simp add: el_sortByTime_def)
  ultimately show ?thesis unfolding Let_def v by blast
qed


end
