(* ===== verification/Audio_Block.thy ===== *)
theory Audio_Block
  imports Schedule Plugin_Event Transport
begin

text \<open>
  One audio block (\<open>core/engine.cpp\<close>: the scheduling side of \<open>process\<close>, \<open>runSchedule\<close> and
  \<open>processChunk\<close>): how a block is cut into chunks at the loop seam, and the tempo changes a chunk
  applies.  The events of a chunk are in \<open>Rack_Events\<close>.  The samples the plug-ins render, the
  meters and the log are not modelled.
\<close>

subsection \<open>The state the audio thread owns\<close>

record RackChannel =
  ch_reset_requested :: bool
  ch_one_shot :: bool
  ch_sample_ready :: bool
  ch_deferred_audio_start :: bool
  ch_gain :: fp
  ch_pan :: fp

definition new_channel :: RackChannel where
  "new_channel = \<lparr>ch_reset_requested = False, ch_one_shot = False, ch_sample_ready = True,
     ch_deferred_audio_start = False, ch_gain = Fin 1, ch_pan = Fin 0\<rparr>"

record AudioState =
  as_transport :: Transport
  as_pending_release :: bool
  as_metronome_enabled :: bool
  as_master_gain :: fp
  as_audition_channel :: nat
  as_channels :: "RackChannel list"
  as_last_generation :: int

text \<open>One call of \<open>processChunk\<close>, as the rack sees it.\<close>

record Chunk =
  ck_offset :: int
  ck_frames :: int
  ck_start :: int
  ck_release_all :: bool
  ck_commands :: bool

subsection \<open>Cutting the block\<close>

definition tempo_event :: "ScheduleEvent \<Rightarrow> bool" where
  "tempo_event e \<longleftrightarrow> se_type e = event_type_code SchedTempoChange"

definition apply_tempo :: "Schedule option \<Rightarrow> int \<Rightarrow> int \<Rightarrow> Transport \<Rightarrow> Transport" where
  "apply_tempo s a b t = (case s of None \<Rightarrow> t
     | Some sc \<Rightarrow> fold (\<lambda>e t. if tempo_event e then tr_setTempo (se_value e) t else t) (chunk_events sc a b) t)"

definition process_chunk :: "int \<Rightarrow> int \<Rightarrow> Schedule option \<Rightarrow> int \<Rightarrow> bool \<Rightarrow> AudioState \<Rightarrow> Chunk list \<times> AudioState" where
  "process_chunk offset num_frames s chunk_start commands st =
     (if num_frames \<le> 0 then ([], st)
      else ([\<lparr>ck_offset = offset, ck_frames = num_frames, ck_start = chunk_start,
              ck_release_all = as_pending_release st, ck_commands = commands\<rparr>],
            st\<lparr>as_pending_release := False,
              as_transport := apply_tempo s chunk_start (chunk_start + num_frames) (as_transport st)\<rparr>))"

definition wrap_to_loop_start :: "AudioState \<Rightarrow> AudioState" where
  "wrap_to_loop_start st = st\<lparr>as_pending_release := True,
     as_transport := tr_seekFrames (loopStartFrames (as_transport st)) (as_transport st)\<rparr>"

definition after_chunk :: "int \<Rightarrow> AudioState \<Rightarrow> AudioState" where
  "after_chunk chunk st =
     (let st1 = st\<lparr>as_transport := tr_advance chunk (as_transport st)\<rparr>
      in if tr_loop_enabled (as_transport st1) \<and>
            tr_position_frames (as_transport st1) \<ge> loopEndFrames (as_transport st1)
         then wrap_to_loop_start st1 else st1)"

function run_loop :: "Schedule option \<Rightarrow> int \<Rightarrow> int \<Rightarrow> nat \<Rightarrow> bool \<Rightarrow> AudioState \<Rightarrow> Chunk list \<times> AudioState" where
  "run_loop s remaining offset wrap_guard first_chunk st =
     (if remaining \<le> 0 then ([], st)
      else let chunk = framesUntilLoopWrap remaining (as_transport st) in
        if chunk \<le> 0 then
          (if wrap_guard + 1 > 8 then ([], wrap_to_loop_start st)
           else run_loop s remaining offset (wrap_guard + 1) first_chunk (wrap_to_loop_start st))
        else
          let done = process_chunk offset chunk s (tr_position_frames (as_transport st)) first_chunk st;
              rest = run_loop s (remaining - chunk) (offset + chunk) 0 False (after_chunk chunk (snd done))
          in (fst done @ fst rest, snd rest))"
  by pat_completeness auto
termination
  by (relation "measures [\<lambda>(s, remaining, offset, wrap_guard, first, st). nat remaining,
        \<lambda>(s, remaining, offset, wrap_guard, first, st). 9 - wrap_guard]") auto

declare run_loop.simps [simp del]

definition run_schedule :: "Schedule option \<Rightarrow> int \<Rightarrow> int \<Rightarrow> AudioState \<Rightarrow> Chunk list \<times> AudioState" where
  "run_schedule s block_offset num_frames st = run_loop s num_frames block_offset 0 True st"

text \<open>\<open>process\<close>: the published schedule is read only while the transport plays.\<close>

definition process_block :: "Schedule option \<Rightarrow> int \<Rightarrow> AudioState \<Rightarrow> Chunk list \<times> AudioState" where
  "process_block s num_frames st =
     (if tr_playing (as_transport st) then run_schedule s 0 num_frames st
      else process_chunk 0 num_frames None 0 True st)"

subsection \<open>The reference: one frame at a time\<close>

definition next_frame :: "Transport \<Rightarrow> int \<Rightarrow> int" where
  "next_frame t p = (if tr_loop_enabled t \<and> p + 1 \<ge> loopEndFrames t then loopStartFrames t else p + 1)"

definition first_frame :: "Transport \<Rightarrow> int" where
  "first_frame t = (if tr_loop_enabled t \<and> tr_position_frames t \<ge> loopEndFrames t
     then loopStartFrames t else tr_position_frames t)"

fun frames_from :: "(int \<Rightarrow> int) \<Rightarrow> nat \<Rightarrow> int \<Rightarrow> int list" where
  "frames_from step 0 p = []"
| "frames_from step (Suc n) p = p # frames_from step n (step p)"

definition chunk_frames :: "Chunk \<Rightarrow> int list" where
  "chunk_frames c = [ck_start c .. ck_start c + ck_frames c - 1]"

definition tempo_free :: "Schedule option \<Rightarrow> bool" where
  "tempo_free s \<longleftrightarrow> (case s of None \<Rightarrow> True | Some sc \<Rightarrow> list_all (\<lambda>e. \<not> tempo_event e) (sched_events sc))"

definition loop_proper :: "Transport \<Rightarrow> bool" where
  "loop_proper t \<longleftrightarrow> (tr_loop_enabled t \<longrightarrow> 0 \<le> loopStartFrames t \<and> loopStartFrames t < loopEndFrames t)"

lemma frames_from_append: "frames_from f (m + n) p = frames_from f m p @ frames_from f n ((f ^^ m) p)"
  by (induction m arbitrary: p) (simp_all add: funpow_swap1)

lemma frames_from_upto:
  assumes "\<And>q. p \<le> q \<Longrightarrow> q < p + int n - 1 \<Longrightarrow> f q = q + 1"
  shows "frames_from f n p = [p .. p + int n - 1]"
  using assms
proof (induction n arbitrary: p)
  case (Suc n)
  show ?case
  proof (cases "n = 0")
    case False
    then have "f p = p + 1" using Suc.prems [of p] by simp
    moreover have "frames_from f n (p + 1) = [p + 1 .. p + 1 + int n - 1]"
      by (rule Suc.IH) (use Suc.prems in auto)
    ultimately show ?thesis by (simp add: upto_rec1)
  qed simp
qed simp

lemma funpow_upto:
  assumes "\<And>q. p \<le> q \<Longrightarrow> q < p + int n \<Longrightarrow> f q = q + 1"
  shows "(f ^^ n) p = p + int n"
  using assms by (induction n) auto

lemma fold_no_tempo:
  "\<forall>e \<in> set es. \<not> tempo_event e \<Longrightarrow> fold (\<lambda>e t. if tempo_event e then tr_setTempo (se_value e) t else t) es t = t"
  by (induction es) simp_all

lemma apply_tempo_free: "tempo_free s \<Longrightarrow> apply_tempo s a b t = t"
proof (cases s)
  case (Some sc)
  assume "tempo_free s"
  with Some have "\<forall>e \<in> set (chunk_events sc a b). \<not> tempo_event e"
    by (auto simp: tempo_free_def list_all_iff chunk_events_def cursor_scan_def dest!: set_takeWhileD in_set_dropD)
  from fold_no_tempo [OF this] Some show ?thesis by (simp add: apply_tempo_def)
qed (simp add: apply_tempo_def)

lemma transport_moves [simp]:
  "tr_loop_enabled (tr_seekFrames n t) = tr_loop_enabled t" "loopEndFrames (tr_seekFrames n t) = loopEndFrames t"
  "loopStartFrames (tr_seekFrames n t) = loopStartFrames t"
  "tr_loop_enabled (tr_advance n t) = tr_loop_enabled t" "loopEndFrames (tr_advance n t) = loopEndFrames t"
  "loopStartFrames (tr_advance n t) = loopStartFrames t"
  "tr_position_frames (tr_advance n t) = tr_position_frames t + n"
  "0 \<le> n \<Longrightarrow> tr_position_frames (tr_seekFrames n t) = n"
  by (simp_all add: tr_seekFrames_def tr_advance_def loopEndFrames_def loopStartFrames_def)

lemma next_frame_moves [simp]:
  "next_frame (tr_seekFrames n t) = next_frame t" "next_frame (tr_advance n t) = next_frame t"
  by (simp_all add: next_frame_def fun_eq_iff)

lemma loop_proper_moves [simp]:
  "loop_proper (tr_seekFrames n t) = loop_proper t" "loop_proper (tr_advance n t) = loop_proper t"
  by (simp_all add: loop_proper_def)

lemma wrap_position:
  "loop_proper (as_transport st) \<Longrightarrow> tr_loop_enabled (as_transport st) \<Longrightarrow>
   tr_position_frames (as_transport (wrap_to_loop_start st)) = loopStartFrames (as_transport st)"
  by (simp add: wrap_to_loop_start_def loop_proper_def)

lemma wrap_transport [simp]:
  "next_frame (as_transport (wrap_to_loop_start st)) = next_frame (as_transport st)"
  "loop_proper (as_transport (wrap_to_loop_start st)) = loop_proper (as_transport st)"
  "loopEndFrames (as_transport (wrap_to_loop_start st)) = loopEndFrames (as_transport st)"
  "loopStartFrames (as_transport (wrap_to_loop_start st)) = loopStartFrames (as_transport st)"
  "tr_loop_enabled (as_transport (wrap_to_loop_start st)) = tr_loop_enabled (as_transport st)"
  by (simp_all add: wrap_to_loop_start_def)

lemma after_chunk_transport [simp]:
  "next_frame (as_transport (after_chunk n st)) = next_frame (as_transport st)"
  "loop_proper (as_transport (after_chunk n st)) = loop_proper (as_transport st)"
  "loopEndFrames (as_transport (after_chunk n st)) = loopEndFrames (as_transport st)"
  "loopStartFrames (as_transport (after_chunk n st)) = loopStartFrames (as_transport st)"
  "tr_loop_enabled (as_transport (after_chunk n st)) = tr_loop_enabled (as_transport st)"
  by (simp_all add: after_chunk_def Let_def)

lemma after_chunk_position:
  assumes "loop_proper (as_transport st)"
  shows "tr_position_frames (as_transport (after_chunk n st)) =
    (if tr_loop_enabled (as_transport st) \<and> tr_position_frames (as_transport st) + n \<ge> loopEndFrames (as_transport st)
     then loopStartFrames (as_transport st) else tr_position_frames (as_transport st) + n)"
  using assms by (simp add: after_chunk_def Let_def wrap_to_loop_start_def loop_proper_def)

lemma process_chunk_free:
  "tempo_free s \<Longrightarrow> as_transport (snd (process_chunk off n s a first st)) = as_transport st"
  by (simp add: process_chunk_def apply_tempo_free)

text \<open>The frames of one chunk, read off the reference.\<close>

lemma chunk_reference:
  assumes "loop_proper t" and "0 < chunk" and "chunk = framesUntilLoopWrap n t"
  shows "frames_from (next_frame t) (nat chunk) (tr_position_frames t) =
      [tr_position_frames t .. tr_position_frames t + chunk - 1]"
    and "(next_frame t ^^ nat chunk) (tr_position_frames t) =
      (if tr_loop_enabled t \<and> tr_position_frames t + chunk \<ge> loopEndFrames t then loopStartFrames t
       else tr_position_frames t + chunk)"
    and "chunk \<le> n"
proof -
  let ?p = "tr_position_frames t"
  have below: "tr_loop_enabled t \<Longrightarrow> ?p + chunk \<le> loopEndFrames t" and le: "chunk \<le> n"
    using assms(2,3) by (auto simp: framesUntilLoopWrap_def Let_def split: if_splits)
  have step: "next_frame t q = q + 1" if "q < ?p + chunk - 1" for q
    using that below by (auto simp: next_frame_def)
  show "frames_from (next_frame t) (nat chunk) ?p = [?p .. ?p + chunk - 1]"
    using frames_from_upto [of ?p "nat chunk" "next_frame t"] step assms(2) by simp
  obtain m where m: "nat chunk = Suc m" using assms(2) by (metis gr0_conv_Suc zero_less_nat_eq)
  then have m': "chunk = int m + 1" using assms(2) by simp
  have "(next_frame t ^^ m) ?p = ?p + int m" by (rule funpow_upto) (use step m' in auto)
  then show "(next_frame t ^^ nat chunk) ?p =
      (if tr_loop_enabled t \<and> ?p + chunk \<ge> loopEndFrames t then loopStartFrames t else ?p + chunk)"
    using m m' by (simp add: next_frame_def)
  show "chunk \<le> n" by (rule le)
qed

fun chunks_follow :: "int \<Rightarrow> Chunk list \<Rightarrow> bool" where
  "chunks_follow offset [] \<longleftrightarrow> True"
| "chunks_follow offset (c # cs) \<longleftrightarrow>
     ck_offset c = offset \<and> 0 < ck_frames c \<and> chunks_follow (offset + ck_frames c) cs"

definition after_seam :: "int \<Rightarrow> Chunk \<Rightarrow> bool" where
  "after_seam lo c \<longleftrightarrow> ck_start c = lo \<and> ck_release_all c \<and> \<not> ck_commands c"

text \<open>What a run of the loop does, in the terms of the reference.\<close>

definition run_follows :: "int \<Rightarrow> int \<Rightarrow> bool \<Rightarrow> AudioState \<Rightarrow> Chunk list \<times> AudioState \<Rightarrow> bool" where
  "run_follows remaining offset first st r \<longleftrightarrow>
     (let t = as_transport st; cs = fst r in
      concat (map chunk_frames cs) = frames_from (next_frame t) (nat remaining) (first_frame t) \<and>
      (0 < remaining \<longrightarrow> cs \<noteq> [] \<and> ck_start (hd cs) = first_frame t \<and> ck_commands (hd cs) = first \<and>
         ck_release_all (hd cs) = (as_pending_release st \<or> first_frame t \<noteq> tr_position_frames t) \<and>
         tr_position_frames (as_transport (snd r)) = (next_frame t ^^ nat remaining) (first_frame t)) \<and>
      chunks_follow offset cs \<and> (\<Sum>c \<leftarrow> cs. ck_frames c) = max 0 remaining \<and>
      list_all (after_seam (loopStartFrames t)) (tl cs))"

lemma chunk_done:
  "0 < chunk \<Longrightarrow> process_chunk offset chunk s a first st = ([\<lparr>ck_offset = offset, ck_frames = chunk, ck_start = a,
      ck_release_all = as_pending_release st, ck_commands = first\<rparr>], snd (process_chunk offset chunk s a first st))"
  by (simp add: process_chunk_def)

lemma after_chunk_pending:
  "0 < chunk \<Longrightarrow> as_pending_release (after_chunk chunk (snd (process_chunk offset chunk s a first st))) \<longleftrightarrow>
     tr_loop_enabled (as_transport (snd (process_chunk offset chunk s a first st))) \<and>
     tr_position_frames (as_transport (snd (process_chunk offset chunk s a first st))) + chunk \<ge>
       loopEndFrames (as_transport (snd (process_chunk offset chunk s a first st)))"
  by (simp add: after_chunk_def Let_def wrap_to_loop_start_def process_chunk_def)

lemma run_loop_follows:
  assumes "tempo_free s" and "loop_proper (as_transport st)"
    and "first_frame (as_transport st) \<noteq> tr_position_frames (as_transport st) \<Longrightarrow> wrap_guard < 8"
  shows "run_follows remaining offset first st (run_loop s remaining offset wrap_guard first st)"
  using assms
proof (induction s remaining offset wrap_guard first st rule: run_loop.induct)
  case (1 s remaining offset guard first st)
  let ?t = "as_transport st"
  let ?p = "tr_position_frames ?t"
  let ?chunk = "framesUntilLoopWrap remaining ?t"
  show ?case
  proof (cases "0 < remaining")
    case False
    then show ?thesis by (subst run_loop.simps) (simp add: run_follows_def Let_def)
  next
    case rem: True
    then have rem': "\<not> remaining \<le> 0" by simp
    show ?thesis
    proof (cases "0 < ?chunk")
      case False
      then have past: "tr_loop_enabled ?t" "?p \<ge> loopEndFrames ?t"
        using rem by (auto simp: framesUntilLoopWrap_def Let_def split: if_splits)
      let ?w = "wrap_to_loop_start st"
      have pw: "tr_position_frames (as_transport ?w) = loopStartFrames ?t"
        using wrap_position "1.prems"(2) past(1) by simp
      have lo: "loopStartFrames ?t < loopEndFrames ?t" using "1.prems"(2) past(1) by (simp add: loop_proper_def)
      have ff: "first_frame ?t = loopStartFrames ?t" "first_frame (as_transport ?w) = loopStartFrames ?t"
        using past lo pw by (simp_all add: first_frame_def)
      then have moved: "first_frame ?t \<noteq> ?p" using past lo by simp
      then have g: "guard < 8" by (rule "1.prems"(3))
      have "run_follows remaining offset first ?w (run_loop s remaining offset (guard + 1) first ?w)"
        by (rule "1.IH"(1) [OF rem' refl]) (use False g "1.prems"(1,2) ff pw in auto)
      moreover have "run_loop s remaining offset guard first st = run_loop s remaining offset (guard + 1) first ?w"
        using rem' False g by (subst run_loop.simps) (simp add: Let_def)
      ultimately show ?thesis
        using moved by (simp add: run_follows_def Let_def ff pw) (simp add: wrap_to_loop_start_def)
    next
      case chunk: True
      let ?d = "process_chunk offset ?chunk s ?p first st"
      let ?a = "after_chunk ?chunk (snd ?d)"
      have ff: "first_frame ?t = ?p"
        using chunk by (auto simp: first_frame_def framesUntilLoopWrap_def Let_def split: if_splits)
      have td: "as_transport (snd ?d) = ?t" by (rule process_chunk_free) (rule "1.prems"(1))
      note ref = chunk_reference [OF "1.prems"(2) chunk refl]
      have pa: "tr_position_frames (as_transport ?a) = (next_frame ?t ^^ nat ?chunk) ?p"
        using after_chunk_position [of "snd ?d" ?chunk] "1.prems"(2) by (simp add: td ref(2))
      have fa: "first_frame (as_transport ?a) = tr_position_frames (as_transport ?a)"
        using "1.prems"(2) by (auto simp: first_frame_def pa ref(2) td loop_proper_def)
      have IH: "run_follows (remaining - ?chunk) (offset + ?chunk) False ?a
          (run_loop s (remaining - ?chunk) (offset + ?chunk) 0 False ?a)"
        by (rule "1.IH"(2) [OF rem' refl _ refl]) (use chunk "1.prems"(1,2) td in auto)
      let ?r = "run_loop s (remaining - ?chunk) (offset + ?chunk) 0 False ?a"
      have run: "run_loop s remaining offset guard first st = (fst ?d @ fst ?r, snd ?r)"
        using rem' chunk by (subst run_loop.simps) (simp add: Let_def)
      have d: "fst ?d = [\<lparr>ck_offset = offset, ck_frames = ?chunk, ck_start = ?p,
          ck_release_all = as_pending_release st, ck_commands = first\<rparr>]"
        using chunk_done [OF chunk, of offset s ?p first st] by (metis fst_conv)
      have n: "nat remaining = nat ?chunk + nat (remaining - ?chunk)" using chunk ref(3) by simp
      have steps: "(next_frame ?t ^^ nat remaining) ?p =
          (next_frame ?t ^^ nat (remaining - ?chunk)) ((next_frame ?t ^^ nat ?chunk) ?p)"
        unfolding n by (metis add.commute comp_apply funpow_add)
      have seam: "tr_loop_enabled ?t \<and> ?p + ?chunk \<ge> loopEndFrames ?t" if "0 < remaining - ?chunk"
        using that chunk by (auto simp: framesUntilLoopWrap_def Let_def split: if_splits)
      have end_position: "tr_position_frames (as_transport (snd ?r)) = (next_frame ?t ^^ nat remaining) ?p"
      proof (cases "0 < remaining - ?chunk")
        case True
        then show ?thesis using IH by (simp add: run_follows_def Let_def fa pa steps td)
      next
        case False
        then have e: "remaining = ?chunk" using ref(3) by simp
        have "snd ?r = ?a" using False by (subst run_loop.simps) simp
        then show ?thesis using pa by (simp flip: e)
      qed
      have rest: "list_all (after_seam (loopStartFrames ?t)) (fst ?r)"
      proof (cases "fst ?r")
        case (Cons c cs)
        then have more: "0 < remaining - ?chunk" using IH by (subst (asm) run_loop.simps) (auto split: if_splits)
        have "ck_start c = loopStartFrames ?t" "\<not> ck_commands c" "ck_release_all c"
          using IH more Cons seam [OF more] chunk
          by (simp_all add: run_follows_def Let_def fa pa ref(2) after_chunk_pending td)
        moreover have "list_all (after_seam (loopStartFrames ?t)) cs"
          using IH Cons by (simp add: run_follows_def Let_def td)
        ultimately show ?thesis using Cons by (simp add: after_seam_def)
      qed simp
      have frames: "concat (map chunk_frames (fst ?r)) = frames_from (next_frame ?t) (nat (remaining - ?chunk)) ((next_frame ?t ^^ nat ?chunk) ?p)"
        using IH by (simp add: run_follows_def Let_def fa pa td)
      show ?thesis
        unfolding run_follows_def Let_def run
        using IH chunk ref rest end_position
        by (simp add: d ff n frames_from_append frames) (simp add: chunk_frames_def run_follows_def Let_def)
    qed
  qed
qed


lemma chunk_events_by_frame:
  assumes "schedule_sorted sc"
  shows "chunk_events sc a (a + int n) = concat (map (\<lambda>f. filter (\<lambda>e. se_frame e = f) (sched_events sc)) [a .. a + int n - 1])"
proof (induction n)
  case 0
  show ?case by (auto simp: chunk_events_filter [OF assms] filter_empty_conv)
next
  case (Suc n)
  have "chunk_events sc (a + int n) (a + int n + 1) = filter (\<lambda>e. se_frame e = a + int n) (sched_events sc)"
    by (auto simp: chunk_events_filter [OF assms] intro!: filter_cong)
  moreover have "[a .. a + int (Suc n) - 1] = [a .. a + int n - 1] @ [a + int n]"
    by (simp add: upto_rec2)
  ultimately show ?case
    using Suc chunk_events_join [OF assms, of a "a + int n" "a + int n + 1"] by (simp add: algebra_simps)
qed

definition chunk_schedule_events :: "Schedule \<Rightarrow> Chunk \<Rightarrow> ScheduleEvent list" where
  "chunk_schedule_events sc c = chunk_events sc (ck_start c) (ck_start c + ck_frames c)"

lemma chunks_positive: "chunks_follow off cs \<Longrightarrow> c \<in> set cs \<Longrightarrow> 0 < ck_frames c"
  by (induction off cs rule: chunks_follow.induct) auto

lemma chunk_schedule_events_by_frame:
  assumes "schedule_sorted sc" and "0 < ck_frames c"
  shows "chunk_schedule_events sc c = concat (map (\<lambda>f. filter (\<lambda>e. se_frame e = f) (sched_events sc)) (chunk_frames c))"
  using chunk_events_by_frame [OF assms(1), of "ck_start c" "nat (ck_frames c)"] assms(2)
  by (simp add: chunk_schedule_events_def chunk_frames_def)

text \<open>
  Claim C11.  A playing block, cut into chunks at the loop seam, plays exactly the frames a
  sample-by-sample transport would play: consecutive frames, jumping from the last frame of the
  loop region to its first.  Each chunk's cursor scan hands out the schedule's events of just those
  frames, in that order, each as often as its frame is played.  The chunks tile the output from
  frame 0 without a gap, and every chunk after a seam starts at the loop start, releases the
  sounding voices, and does not repeat the block's commands.
\<close>

theorem block_plays_every_frame:
  assumes "tr_playing (as_transport st)" and "loop_proper (as_transport st)"
    and "schedule_sorted sc" and "tempo_free (Some sc)" and "0 < n"
  shows "case process_block (Some sc) n st of (cs, st') \<Rightarrow>
    let played = frames_from (next_frame (as_transport st)) (nat n) (first_frame (as_transport st)) in
    concat (map chunk_frames cs) = played \<and>
    concat (map (chunk_schedule_events sc) cs) = concat (map (\<lambda>f. filter (\<lambda>e. se_frame e = f) (sched_events sc)) played) \<and>
    tr_position_frames (as_transport st') = (next_frame (as_transport st) ^^ nat n) (first_frame (as_transport st)) \<and>
    chunks_follow 0 cs \<and> (\<Sum>c \<leftarrow> cs. ck_frames c) = n \<and>
    ck_commands (hd cs) \<and> list_all (after_seam (loopStartFrames (as_transport st))) (tl cs)"
proof -
  obtain cs st' where r: "process_block (Some sc) n st = (cs, st')" by fastforce
  then have run: "run_loop (Some sc) n 0 0 True st = (cs, st')"
    using assms(1) by (simp add: process_block_def run_schedule_def)
  have f: "run_follows n 0 True st (cs, st')"
    using run_loop_follows [OF assms(4,2), of 0 n 0 True] by (simp add: run)
  have pos: "\<forall>c \<in> set cs. 0 < ck_frames c"
    using f chunks_positive by (auto simp: run_follows_def Let_def)
  have "concat (map (chunk_schedule_events sc) cs) =
      concat (map (\<lambda>f. filter (\<lambda>e. se_frame e = f) (sched_events sc)) (concat (map chunk_frames cs)))"
    using pos by (induction cs) (simp_all add: chunk_schedule_events_by_frame [OF assms(3)])
  with f assms(5) show ?thesis unfolding r by (simp add: run_follows_def Let_def)
qed

definition sample_audio_state :: AudioState where
  "sample_audio_state = \<lparr>as_transport = new_transport\<lparr>tr_playing := True, tr_position_frames := 200000,
       tr_loop_end_beats := Fin 8\<rparr>, as_pending_release = False, as_metronome_enabled = False,
     as_master_gain = Fin 1, as_audition_channel = 0, as_channels = replicate 64 new_channel, as_last_generation = 0\<rparr>"

lemma rnd64_numeral: "numeral k < (2 ^ 53 :: int) \<Longrightarrow> rnd64 (numeral k) = Fin (numeral k)"
  using rnd64_int [of "numeral k"] by simp

lemma sample_loop:
  "loopStartFrames (as_transport sample_audio_state) = 0" "loopEndFrames (as_transport sample_audio_state) = 192000"
proof -
  have f: "framesPerBeat (tr_time_map (as_transport sample_audio_state)) = Fin 24000"
    by (simp add: framesPerBeat_def sample_audio_state_def new_transport_def new_time_map_def clampTempo_def
        MinTempoBpm_def MaxTempoBpm_def rnd64_numeral)
  show "loopStartFrames (as_transport sample_audio_state) = 0"
    unfolding loopStartFrames_def beatsToFrames_def f
    using rnd64_int [of 0] round_away_of_int [of 0] by (simp add: sample_audio_state_def new_transport_def)
  show "loopEndFrames (as_transport sample_audio_state) = 192000"
    unfolding loopEndFrames_def beatsToFrames_def f
    using round_away_of_int [of 192000] by (simp add: sample_audio_state_def rnd64_numeral)
qed

theorem block_plays_every_frame_witness:
  "(\<Sum>c \<leftarrow> fst (process_block (Some (sb_build (Fin 48000) 1 sample_builder)) 512 sample_audio_state). ck_frames c) = 512"
proof -
  let ?sc = "sb_build (Fin 48000) 1 sample_builder"
  have "tr_playing (as_transport sample_audio_state)" by (simp add: sample_audio_state_def)
  moreover have "loop_proper (as_transport sample_audio_state)" by (simp add: loop_proper_def sample_loop)
  moreover have "tempo_free (Some ?sc)" by code_simp
  ultimately show ?thesis
    using block_plays_every_frame [of sample_audio_state ?sc 512] build_sorted by (auto simp: Let_def split: prod.splits)
qed


end
