(* ===== verification/Rack_Events.thy ===== *)
theory Rack_Events
  imports Audio_Block
begin

text \<open>
  The events of one channel in one chunk (\<open>Engine::renderChannel\<close>) and the commands drained at a
  block boundary (\<open>Engine::drainCommands\<close>, \<open>Engine::applyCommand\<close>).
\<close>

definition MaxRackChannels :: nat where "MaxRackChannels = 64"
definition RootNote :: int where "RootNote = 60"

definition to_uint32 :: "int \<Rightarrow> int" where "to_uint32 x = x mod 2 ^ 32"

subsection \<open>A channel's event list\<close>

definition push_event :: "PluginEvent \<Rightarrow> EventList \<Rightarrow> EventList" where
  "push_event e l = snd (el_push e l)"

definition broadcast_release :: "PluginEvent \<Rightarrow> bool" where
  "broadcast_release e \<longleftrightarrow> ev_type e = NoteOff \<and> ev_key e = AnyKey"

definition preview_event :: "PluginEvent \<Rightarrow> bool" where
  "preview_event e \<longleftrightarrow> odd (ev_flags e div EventFlagDontRecord)"

definition takes_command :: "bool \<Rightarrow> bool \<Rightarrow> PluginEvent \<Rightarrow> bool" where
  "takes_command preview_voice is_audition e \<longleftrightarrow>
     broadcast_release e \<or> (if preview_event e then preview_voice else \<not> preview_voice \<and> is_audition)"

text \<open>The \<open>switch\<close> on a schedule event's type; the result says what is pushed, if anything.\<close>

definition channel_event :: "int \<Rightarrow> ScheduleEvent \<Rightarrow> PluginEvent option" where
  "channel_event time e =
     (if se_type e = event_type_code SchedNoteOn then
        Some (ev_noteOn time (se_note e) (se_value e) AnyNote 0 0)
      else if se_type e = event_type_code SchedAudioStart then
        Some (ev_noteOn time RootNote (se_value e) AnyNote 0 0)
      else if se_type e = event_type_code SchedNoteOff then
        Some (ev_noteOff time (se_note e) (Fin 0) AnyNote 0 0)
      else if se_type e = event_type_code SchedParamValue then
        Some (ev_paramValue time (se_reserved e) (se_value e) EventFlagNone)
      else if se_type e = event_type_code SchedParamModulation then
        Some (ev_paramModulation time (se_reserved e) (se_value e) AnyNote AnyKey AnyChannel AnyPort)
      else None)"

definition schedule_step :: "int \<Rightarrow> int \<Rightarrow> bool \<Rightarrow> bool \<Rightarrow> ScheduleEvent \<Rightarrow>
    EventList \<times> bool \<times> bool \<Rightarrow> EventList \<times> bool \<times> bool" where
  "schedule_step index chunk_start one_shot sample_ready e = (\<lambda>(l, deferred, scheduled).
     if se_instrument e \<noteq> index then (l, deferred, scheduled)
     else if one_shot \<and> \<not> sample_ready then
       (l, deferred \<or> se_type e = event_type_code SchedAudioStart, scheduled)
     else case channel_event (to_uint32 (se_frame e - chunk_start)) e of
         None \<Rightarrow> (l, deferred, scheduled)
       | Some pe \<Rightarrow> (push_event pe l, deferred, scheduled \<or> se_type e = event_type_code SchedAudioStart))"

definition schedule_part :: "int \<Rightarrow> Schedule \<Rightarrow> int \<Rightarrow> int \<Rightarrow> RackChannel \<Rightarrow> EventList \<Rightarrow> EventList \<times> RackChannel" where
  "schedule_part index sc chunk_start num_frames ch l =
     (let one_shot = ch_one_shot ch;
          sample_ready = (\<not> one_shot \<or> ch_sample_ready ch);
          (l1, deferred, scheduled) = fold (schedule_step index chunk_start one_shot sample_ready)
            (chunk_events sc chunk_start (chunk_start + num_frames)) (l, ch_deferred_audio_start ch, False)
      in if one_shot \<and> sample_ready \<and> deferred \<and> \<not> scheduled then
           (push_event (ev_noteOn 0 RootNote (Fin 1) AnyNote 0 0) l1, ch\<lparr>ch_deferred_audio_start := False\<rparr>)
         else if scheduled then (l1, ch\<lparr>ch_deferred_audio_start := False\<rparr>)
         else (l1, ch\<lparr>ch_deferred_audio_start := deferred\<rparr>))"

definition channel_events ::
  "int \<Rightarrow> bool \<Rightarrow> bool \<Rightarrow> Schedule option \<Rightarrow> int \<Rightarrow> int \<Rightarrow> EventListView option \<Rightarrow> bool \<Rightarrow> EventList \<Rightarrow>
     RackChannel \<Rightarrow> EventList \<times> RackChannel" where
  "channel_events index is_audition preview_voice s chunk_start num_frames block_events release_all l0 ch0 =
     (let l1 = (if ch_reset_requested ch0 then push_event (ev_allNotesOff 0) l0 else l0);
          ch1 = ch0\<lparr>ch_reset_requested := False\<rparr>;
          ch2 = (if \<not> ch_one_shot ch1 then ch1\<lparr>ch_deferred_audio_start := False\<rparr> else ch1);
          l2 = (if release_all then push_event (ev_allNotesOff 0) l1 else l1);
          l3 = (case block_events of None \<Rightarrow> l2
                | Some es \<Rightarrow> fold push_event (filter (takes_command preview_voice is_audition) es) l2);
          (l4, ch4) = (case s of None \<Rightarrow> (l3, ch2)
                       | Some sc \<Rightarrow> if preview_voice then (l3, ch2)
                                    else schedule_part index sc chunk_start num_frames ch2 l3)
      in (el_sortByTime l4, ch4))"

subsection \<open>Commands\<close>

datatype command_type = CMD_NONE | CMD_TRANSPORT_PLAY | CMD_TRANSPORT_STOP | CMD_TRANSPORT_SEEK_FRAMES
  | CMD_TRANSPORT_SEEK_BEATS | CMD_SET_TEMPO | CMD_SET_LOOP | CMD_NOTE_ON | CMD_NOTE_OFF | CMD_ALL_NOTES_OFF
  | CMD_SET_MASTER_GAIN | CMD_PLUGIN_PARAM_BEGIN | CMD_PLUGIN_PARAM_VALUE | CMD_PLUGIN_PARAM_END
  | CMD_SET_INSTRUMENT_GAIN | CMD_SET_INSTRUMENT_PAN | CMD_PREVIEW_NOTE_ON | CMD_PREVIEW_NOTE_OFF
  | CMD_SET_METRONOME

record ob_command =
  oc_type :: command_type
  oc_generation :: int
  oc_i64_a :: int
  oc_f64_a :: fp
  oc_f64_b :: fp

definition with_transport :: "(Transport \<Rightarrow> Transport) \<Rightarrow> AudioState \<Rightarrow> AudioState" where
  "with_transport f st = st\<lparr>as_transport := f (as_transport st)\<rparr>"

definition at_audition :: "(RackChannel \<Rightarrow> RackChannel) \<Rightarrow> AudioState \<Rightarrow> AudioState" where
  "at_audition f st = st\<lparr>as_channels :=
     (as_channels st)[as_audition_channel st := f (as_channels st ! as_audition_channel st)]\<rparr>"

definition applyCommand :: "ob_command \<Rightarrow> AudioState \<times> EventList \<Rightarrow> AudioState \<times> EventList" where
  "applyCommand c = (\<lambda>(st0, l).
     let st = st0\<lparr>as_last_generation := oc_generation c\<rparr> in
     case oc_type c of
       CMD_TRANSPORT_PLAY \<Rightarrow> (with_transport tr_play st, l)
     | CMD_TRANSPORT_STOP \<Rightarrow> (with_transport tr_stop st, push_event (ev_allNotesOff 0) l)
     | CMD_TRANSPORT_SEEK_FRAMES \<Rightarrow> (with_transport (tr_seekFrames (oc_i64_a c)) st, push_event (ev_allNotesOff 0) l)
     | CMD_TRANSPORT_SEEK_BEATS \<Rightarrow> (with_transport (tr_seekBeats (oc_f64_a c)) st, push_event (ev_allNotesOff 0) l)
     | CMD_SET_TEMPO \<Rightarrow> (with_transport (tr_setTempo (oc_f64_a c)) st, l)
     | CMD_SET_LOOP \<Rightarrow> (with_transport (tr_setLoop (oc_f64_a c) (oc_f64_b c) (oc_i64_a c \<noteq> 0)) st, l)
     | CMD_SET_METRONOME \<Rightarrow> (st\<lparr>as_metronome_enabled := oc_i64_a c \<noteq> 0\<rparr>, l)
     | CMD_NOTE_ON \<Rightarrow> (st, push_event (ev_noteOn 0 (to_int16 (oc_i64_a c)) (oc_f64_a c) AnyNote 0 0) l)
     | CMD_NOTE_OFF \<Rightarrow> (st, push_event (ev_noteOff 0 (to_int16 (oc_i64_a c)) (Fin 0) AnyNote 0 0) l)
     | CMD_PREVIEW_NOTE_ON \<Rightarrow> (st, push_event ((ev_noteOn 0 (to_int16 (oc_i64_a c)) (oc_f64_a c) AnyNote 0 0)
         \<lparr>ev_flags := EventFlagDontRecord\<rparr>) l)
     | CMD_PREVIEW_NOTE_OFF \<Rightarrow> (st, push_event ((ev_noteOff 0 (to_int16 (oc_i64_a c)) (Fin 0) AnyNote 0 0)
         \<lparr>ev_flags := EventFlagDontRecord\<rparr>) l)
     | CMD_ALL_NOTES_OFF \<Rightarrow> (st, push_event (ev_allNotesOff 0) l)
     | CMD_SET_MASTER_GAIN \<Rightarrow> (st\<lparr>as_master_gain := clamp_fp (to_float (oc_f64_a c)) (Fin 0) (Fin 2)\<rparr>, l)
     | CMD_SET_INSTRUMENT_GAIN \<Rightarrow>
         (at_audition (\<lambda>ch. ch\<lparr>ch_gain := clamp_fp (to_float (oc_f64_a c)) (Fin 0) (Fin 2)\<rparr>) st, l)
     | CMD_SET_INSTRUMENT_PAN \<Rightarrow>
         (at_audition (\<lambda>ch. ch\<lparr>ch_pan := clamp_fp (to_float (oc_f64_a c)) (Fin (- 1)) (Fin 1)\<rparr>) st, l)
     | CMD_PLUGIN_PARAM_BEGIN \<Rightarrow> (st, push_event (ev_paramGesture 0 (to_uint32 (oc_i64_a c)) True) l)
     | CMD_PLUGIN_PARAM_VALUE \<Rightarrow>
         (st, push_event (ev_paramValue 0 (to_uint32 (oc_i64_a c)) (oc_f64_a c) EventFlagIsLive) l)
     | CMD_PLUGIN_PARAM_END \<Rightarrow> (st, push_event (ev_paramGesture 0 (to_uint32 (oc_i64_a c)) False) l)
     | CMD_NONE \<Rightarrow> (st, l))"

text \<open>At most 256 commands leave the queue in a block.\<close>

definition drainCommands :: "ob_command list \<Rightarrow> AudioState \<times> EventList \<Rightarrow> ob_command list \<times> AudioState \<times> EventList" where
  "drainCommands queue r = (drop 256 queue, fold applyCommand (take 256 queue) r)"

definition setAuditionChannel :: "int \<Rightarrow> AudioState \<Rightarrow> AudioState" where
  "setAuditionChannel index st =
     (if index < 0 \<or> index \<ge> int MaxRackChannels then st else st\<lparr>as_audition_channel := nat index\<rparr>)"

definition requestChannelReset :: "int \<Rightarrow> RackChannel list \<Rightarrow> RackChannel list" where
  "requestChannelReset index chs =
     (if index < 0 \<or> index \<ge> int MaxRackChannels then chs
      else chs[nat index := (chs ! nat index)\<lparr>ch_reset_requested := True\<rparr>])"

subsection \<open>What a channel hears\<close>

lemma fold_push_event: "fold push_event es l = push_all es l"
  by (simp add: push_all_def push_event_def [abs_def])

lemma push_all_append: "push_all es (push_all ds l) = push_all (ds @ es) l"
  by (simp add: push_all_def)

lemma push_event_all: "push_event e l = push_all [e] l"
  by (simp add: push_all_def push_event_def)

definition heard :: "int \<Rightarrow> int \<Rightarrow> ScheduleEvent list \<Rightarrow> PluginEvent list" where
  "heard index start es = List.map_filter (\<lambda>e. channel_event (se_frame e - start) e)
     (filter (\<lambda>e. se_instrument e = index) es)"

lemma fold_schedule_step:
  assumes "\<forall>e \<in> set es. start \<le> se_frame e \<and> se_frame e < start + n" and "n \<le> 2 ^ 32"
  shows "\<exists>scheduled. fold (schedule_step index start False True) es (l, deferred, b) =
    (push_all (heard index start es) l, deferred, scheduled)"
  using assms(1)
proof (induction es arbitrary: l b)
  case Nil
  show ?case by (simp add: heard_def push_all_def map_filter_simps)
next
  case (Cons e es)
  have t: "to_uint32 (se_frame e - start) = se_frame e - start"
    using Cons.prems assms(2) by (simp add: to_uint32_def)
  have IH: "\<exists>scheduled. fold (schedule_step index start False True) es (l', deferred, b') =
      (push_all (heard index start es) l', deferred, scheduled)" for l' b'
    using Cons by simp
  show ?case
  proof (cases "se_instrument e = index \<and> channel_event (se_frame e - start) e \<noteq> None")
    case True
    then obtain pe where pe: "channel_event (se_frame e - start) e = Some pe" by auto
    have "heard index start (e # es) = pe # heard index start es"
      using True pe by (simp add: heard_def map_filter_simps)
    then have "push_all (heard index start (e # es)) l = push_all (heard index start es) (push_event pe l)"
      by (simp add: push_all_def push_event_def)
    moreover have "\<exists>b'. schedule_step index start False True e (l, deferred, b) = (push_event pe l, deferred, b')"
      using True pe by (simp add: schedule_step_def t)
    ultimately show ?thesis using IH by auto
  next
    case False
    then have "heard index start (e # es) = heard index start es"
      by (auto simp: heard_def map_filter_simps)
    moreover have "schedule_step index start False True e (l, deferred, b) = (l, deferred, b)"
      using False by (auto simp: schedule_step_def t)
    ultimately show ?thesis using IH by simp
  qed
qed

lemma heard_times:
  assumes "pe \<in> set (heard index start es)" and "\<forall>e \<in> set es. start \<le> se_frame e \<and> se_frame e < start + n"
  shows "0 \<le> ev_time pe \<and> ev_time pe < n"
proof -
  obtain e where e: "e \<in> set es" "channel_event (se_frame e - start) e = Some pe"
    using assms(1) by (auto simp: heard_def List.map_filter_def)
  then have "ev_time pe = se_frame e - start"
    by (auto simp: channel_event_def ev_noteOn_def ev_noteOff_def ev_paramValue_def ev_paramModulation_def
        makeNote_def makeParam_def split: if_splits)
  with e assms(2) show ?thesis by auto
qed

text \<open>
  Claim C14.  An instrument channel of the rack is handed, in time order and stably, first the
  releases it owes (its own reset, the loop seam), then the block's commands meant for it, then
  exactly the schedule's events of this chunk that are addressed to it and that a channel can play,
  each at its offset inside the chunk; what does not fit the list's capacity is counted, and the
  reset request is consumed.
\<close>

theorem channel_hears_its_own:
  assumes "schedule_sorted sc" and "0 < n" and "n \<le> 2 ^ 32" and "\<not> ch_one_shot ch"
  shows "case channel_events index aud False (Some sc) start n (Some cmds) release (eb_list (eb_reserve cap)) ch of (l, ch') \<Rightarrow>
    let own = heard index start (filter (\<lambda>e. start \<le> se_frame e \<and> se_frame e < start + n) (sched_events sc));
        pushed = (if ch_reset_requested ch then [ev_allNotesOff 0] else []) @ (if release then [ev_allNotesOff 0] else []) @
          filter (takes_command False aud) cmds @ own
    in el_view l = sort_key ev_time (take cap pushed) \<and> el_overflow l = of_nat (length pushed - cap) \<and>
       (\<forall>e \<in> set own. 0 \<le> ev_time e \<and> ev_time e < n) \<and> \<not> ch_reset_requested ch' \<and> \<not> ch_deferred_audio_start ch'"
proof -
  let ?es = "chunk_events sc start (start + n)"
  let ?l0 = "eb_list (eb_reserve cap)"
  have es: "?es = filter (\<lambda>e. start \<le> se_frame e \<and> se_frame e < start + n) (sched_events sc)"
    by (rule chunk_events_filter [OF assms(1)])
  have range: "\<forall>e \<in> set ?es. start \<le> se_frame e \<and> se_frame e < start + n" by (simp add: es)
  define pushed where "pushed = (if ch_reset_requested ch then [ev_allNotesOff 0] else []) @
    (if release then [ev_allNotesOff 0] else []) @ filter (takes_command False aud) cmds @ heard index start ?es"
  define ch2 where "ch2 = ch\<lparr>ch_reset_requested := False, ch_deferred_audio_start := False\<rparr>"
  have part: "schedule_part index sc start n ch2 l = (push_all (heard index start ?es) l, ch2)" for l
  proof -
    obtain scheduled where f: "fold (schedule_step index start False True) ?es (l, False, False) =
        (push_all (heard index start ?es) l, False, scheduled)"
      using fold_schedule_step [OF range assms(3), of index l False False] by blast
    show ?thesis using assms(4) f by (simp add: schedule_part_def ch2_def)
  qed
  have r: "channel_events index aud False (Some sc) start n (Some cmds) release ?l0 ch =
      (el_sortByTime (push_all pushed ?l0), ch2)"
    using assms(4) part
    by (simp add: channel_events_def Let_def ch2_def [symmetric] pushed_def fold_push_event push_event_all
        push_all_append)
  have ok: "el_ok ?l0" and v0: "el_view ?l0 = []" and c: "el_capacity ?l0 = cap" "el_count ?l0 = 0" "el_overflow ?l0 = 0"
    by (simp_all add: el_ok_def eb_list_def eb_reserve_def new_event_list_def el_view_def)
  note p = push_all_view [OF ok, of pushed, unfolded v0 c]
  have "el_view (el_sortByTime (push_all pushed ?l0)) = sort_key ev_time (take cap pushed)"
    using sortByTime_view(1) [OF p(1)] p(3) by simp
  moreover have "el_overflow (el_sortByTime (push_all pushed ?l0)) = of_nat (length pushed - cap)"
    using p(4) by (simp add: el_sortByTime_def)
  ultimately show ?thesis
    unfolding r prod.case Let_def es [symmetric] pushed_def [symmetric]
    using heard_times [OF _ range] by (simp add: ch2_def)
qed

theorem channel_hears_its_own_witness:
  "map (\<lambda>e. (ev_time e, ev_type e)) (el_view (fst (channel_events 0 True False (Some (sb_build (Fin 48000) 1 sample_builder))
      256 256 (Some []) True (eb_list (eb_reserve 64)) new_channel))) = [(0, NoteOff), (224, NoteOff), (224, NoteOn)]"
proof -
  let ?sc = "sb_build (Fin 48000) 1 sample_builder"
  have "heard 0 256 (filter (\<lambda>e. 256 \<le> se_frame e \<and> se_frame e < 256 + 256) (sched_events ?sc)) =
      [ev_noteOff 224 60 (Fin 0) AnyNote 0 0, ev_noteOn 224 60 (Fin 1) AnyNote 0 0]"
    by (simp add: sample_builder_def sb_build_def sb_addNote_def sb_addAudioStart_def new_builder_def schedule_rank_def
        heard_def map_filter_simps channel_event_def Let_def)
  with channel_hears_its_own [OF build_sorted, where n = 256 and ch = new_channel and index = 0 and start = 256
      and release = True and cmds = "[]" and cap = 64 and aud = True and rate1 = "Fin 48000" and gen1 = 1 and b1 = sample_builder]
  show ?thesis
    by (simp add: Let_def new_channel_def ev_noteOff_def ev_noteOn_def ev_allNotesOff_def makeNote_def split: prod.splits)
qed


end
