(* ===== verification/Schedule_Hash.thy ===== *)
theory Schedule_Hash
  imports Rack_Events
begin

text \<open>
  The two fingerprints of a schedule: the whole-schedule hash the flattener reports
  (\<open>hashEvents\<close> in \<open>model/flattener.cpp\<close>) and the per-channel hashes the engine keeps to decide
  which channels a new schedule releases (\<open>Engine::releaseChannelsWhoseEventsChanged\<close>).  Both read
  the bytes of an event, on a little-endian machine; a \<open>float\<close> contributes its IEEE 754 bits.
\<close>

unbundle bit_operations_syntax

definition float_bits :: "fp \<Rightarrow> 32 word" where
  "float_bits x = (case x of
       NaN \<Rightarrow> 0x7FC00000
     | PInf \<Rightarrow> 0x7F800000
     | NInf \<Rightarrow> 0xFF800000
     | Fin q \<Rightarrow> if q = 0 then 0
         else let e = max (- 149) (ilog2 \<bar>q\<bar> - 23);
                  m = \<lfloor>\<bar>q\<bar> / 2 powi e\<rfloor>;
                  magnitude = (if m < 2 ^ 23 then m else (e + 150) * 2 ^ 23 + (m - 2 ^ 23))
              in of_int (magnitude + (if q < 0 then 2 ^ 31 else 0)))"

definition fnv_offset :: "64 word" where "fnv_offset = 0xCBF29CE484222325"
definition fnv_prime :: "64 word" where "fnv_prime = 0x100000001B3"

definition fnv_mix :: "64 word \<Rightarrow> 64 word \<Rightarrow> 64 word" where
  "fnv_mix w state = (state XOR w) * fnv_prime"

subsection \<open>The hash of a whole schedule\<close>

definition event_words :: "ScheduleEvent \<Rightarrow> 64 word list" where
  "event_words e =
     [of_int (se_frame e),
      of_int (se_instrument e) OR push_bit 32 (of_int (se_type e)) OR push_bit 48 (of_int (se_note e)),
      ucast (float_bits (se_value e)) OR push_bit 32 (of_int (se_reserved e))]"

definition hashEvents :: "ScheduleEvent list \<Rightarrow> int \<Rightarrow> 64 word" where
  "hashEvents events len =
     fnv_mix (of_int len) (fold (\<lambda>e state. fold fnv_mix (event_words e) state) events fnv_offset)"

subsection \<open>The fingerprints per channel\<close>

definition channel_words :: "ScheduleEvent \<Rightarrow> 64 word list" where
  "channel_words e =
     [of_int (se_frame e),
      push_bit 16 (of_int (se_type e)) OR ucast (of_int (se_note e) :: 16 word),
      push_bit 32 (ucast (float_bits (se_value e))) OR of_int (se_reserved e)]"

definition mix_event :: "ScheduleEvent \<Rightarrow> 64 word \<Rightarrow> 64 word" where
  "mix_event e v = fold fnv_mix (channel_words e) v"

definition channel_hashes :: "ScheduleEvent list \<Rightarrow> 64 word list" where
  "channel_hashes events =
     fold (\<lambda>e hash. if se_instrument e \<ge> int MaxRackChannels then hash
       else hash[nat (se_instrument e) := mix_event e (hash ! nat (se_instrument e))])
     events (replicate MaxRackChannels fnv_offset)"

record PublishState =
  ps_published_channel_hash :: "64 word list"
  ps_has_published :: bool

definition new_publish_state :: PublishState where
  "new_publish_state = \<lparr>ps_published_channel_hash = replicate MaxRackChannels 0, ps_has_published = False\<rparr>"

definition releaseChannelsWhoseEventsChanged ::
  "Schedule \<Rightarrow> PublishState \<Rightarrow> RackChannel list \<Rightarrow> PublishState \<times> RackChannel list" where
  "releaseChannelsWhoseEventsChanged s ps chs =
     (let hash = channel_hashes (sched_events s);
          chs' = (if ps_has_published ps then
            fold (\<lambda>channel chs. if hash ! channel \<noteq> ps_published_channel_hash ps ! channel
                   then requestChannelReset (int channel) chs else chs) [0 ..< MaxRackChannels] chs
            else chs)
      in (\<lparr>ps_published_channel_hash = hash, ps_has_published = True\<rparr>, chs'))"

text \<open>A channel's fingerprint is a hash of the events addressed to its number, and of no other.\<close>

definition addressed :: "nat \<Rightarrow> ScheduleEvent list \<Rightarrow> ScheduleEvent list" where
  "addressed k es = filter (\<lambda>e. se_instrument e = int k) es"

lemma channel_hashes_fold:
  assumes "length hs = MaxRackChannels" and "\<forall>e \<in> set es. 0 \<le> se_instrument e"
  shows "length (fold (\<lambda>e hash. if se_instrument e \<ge> int MaxRackChannels then hash
       else hash[nat (se_instrument e) := mix_event e (hash ! nat (se_instrument e))]) es hs) = MaxRackChannels \<and>
    (\<forall>k < MaxRackChannels. fold (\<lambda>e hash. if se_instrument e \<ge> int MaxRackChannels then hash
       else hash[nat (se_instrument e) := mix_event e (hash ! nat (se_instrument e))]) es hs ! k =
       fold mix_event (addressed k es) (hs ! k))"
  using assms
proof (induction es arbitrary: hs)
  case (Cons e es)
  let ?hs = "if se_instrument e \<ge> int MaxRackChannels then hs
    else hs[nat (se_instrument e) := mix_event e (hs ! nat (se_instrument e))]"
  have "length ?hs = MaxRackChannels" using Cons.prems(1) by simp
  moreover have "fold mix_event (addressed k (e # es)) (hs ! k) = fold mix_event (addressed k es) (?hs ! k)"
    if "k < MaxRackChannels" for k
    using that Cons.prems by (auto simp: addressed_def nth_list_update)
  ultimately show ?case using Cons.IH [of ?hs] Cons.prems(2) by simp
qed (simp add: addressed_def)

lemma channel_hashes_nth:
  "\<forall>e \<in> set es. 0 \<le> se_instrument e \<Longrightarrow> k < MaxRackChannels \<Longrightarrow>
   channel_hashes es ! k = fold mix_event (addressed k es) fnv_offset"
  using channel_hashes_fold [of "replicate MaxRackChannels fnv_offset" es] by (simp add: channel_hashes_def)

lemma request_resets:
  assumes "length chs = MaxRackChannels" and "n \<le> MaxRackChannels" and "k < MaxRackChannels"
  shows "length (fold (\<lambda>j chs. if C j then requestChannelReset (int j) chs else chs) [0 ..< n] chs) = MaxRackChannels"
    and "fold (\<lambda>j chs. if C j then requestChannelReset (int j) chs else chs) [0 ..< n] chs ! k =
      (if k < n \<and> C k then (chs ! k)\<lparr>ch_reset_requested := True\<rparr> else chs ! k)"
proof -
  have "length (fold (\<lambda>j chs. if C j then requestChannelReset (int j) chs else chs) [0 ..< n] chs) = MaxRackChannels \<and>
    fold (\<lambda>j chs. if C j then requestChannelReset (int j) chs else chs) [0 ..< n] chs ! k =
      (if k < n \<and> C k then (chs ! k)\<lparr>ch_reset_requested := True\<rparr> else chs ! k)"
    using assms(2)
  proof (induction n)
    case (Suc n)
    then show ?case using assms(3)
      by (auto simp: requestChannelReset_def nth_list_update less_Suc_eq)
  qed (use assms in simp)
  then show "length (fold (\<lambda>j chs. if C j then requestChannelReset (int j) chs else chs) [0 ..< n] chs) = MaxRackChannels"
    and "fold (\<lambda>j chs. if C j then requestChannelReset (int j) chs else chs) [0 ..< n] chs ! k =
      (if k < n \<and> C k then (chs ! k)\<lparr>ch_reset_requested := True\<rparr> else chs ! k)"
    by blast+
qed

definition instruments_natural :: "Schedule \<Rightarrow> bool" where
  "instruments_natural s \<longleftrightarrow> (\<forall>e \<in> set (sched_events s). 0 \<le> se_instrument e)"


definition effect_edit :: "fp \<Rightarrow> Schedule" where
  "effect_edit v = sb_build (Fin 48000) 1 (sb_addEffectParam 3 7 v 480 sample_builder)"


text \<open>
  The fingerprints do not look at the event's type: an automation point of the mixer insert with
  dense index 3 counts as an event of rack channel 3, so editing it releases that channel, which
  has no event at all.
\<close>

lemma effect_edit_resets_channel:
  "addressed 3 (filter (\<lambda>e. se_type e \<noteq> event_type_code SchedEffectParam) (sched_events (effect_edit v))) = []"
  "ch_reset_requested (snd (releaseChannelsWhoseEventsChanged (effect_edit (Fin 1))
     (fst (releaseChannelsWhoseEventsChanged (effect_edit (Fin 0)) new_publish_state (replicate 64 new_channel)))
     (replicate 64 new_channel)) ! 3)"
  by code_simp+

end
