(* ===== verification/Flattener.thy ===== *)
theory Flattener
  imports Project_State Transport Schedule_Hash
begin

text \<open>
  The flattener (\<open>model/flattener.h\<close>, \<open>model/flattener.cpp\<close>): from the reference graph of a
  project to the flat schedule.  The two steps that decide what sounds, the placement of a note
  inside a clip and the resolution of overlaps, come first; \<open>flatten\<close> composes them.  Where the
  source calls \<open>std::sort\<close> with a comparison that leaves ties, the model keeps the order of the
  input among the tied elements.
\<close>

subsection \<open>Resolved material\<close>

record ResolvedNote =
  rn_start :: ticks
  rn_end :: ticks
  rn_instrument :: int
  rn_key :: int
  rn_velocity :: fp

record ResolvedParam =
  rp_position :: ticks
  rp_target :: int
  rp_parameter :: int
  rp_value :: fp

record ResolvedAudio =
  ra_start :: ticks
  ra_channel :: int

definition swungPosition :: "ticks \<Rightarrow> fp \<Rightarrow> ticks" where
  "swungPosition position swing =
     (let grid = TicksPerQuarter sdiv 4 in
      if fp_le swing (Fin 0) \<or> position < 0 \<or> position smod grid \<noteq> 0 then position
      else let step = position sdiv grid in
        if even step then position
        else position + dtrunc (dmul swing (ddiv (dofint grid) (Fin 2))))"

definition audibleLanes :: "('a Tables_scheme) \<Rightarrow> lane_id list" where
  "audibleLanes p =
     (let any_solo = (\<exists>l \<in> set (om_values (lanes p)). lane_soloed l) in
      map fst (filter (\<lambda>(i, l). \<not> lane_muted l \<and> \<not> (any_solo \<and> \<not> lane_soloed l)) (om_entries (lanes p))))"

subsection \<open>One note inside one clip\<close>

text \<open>
  The loop over the wrapped passes; the guard on \<open>pattern_length\<close> is the early return of
  \<open>collectOccurrences\<close>, repeated here because it is what makes the loop end.
\<close>

function occurrence_loop :: "ticks \<Rightarrow> ticks \<Rightarrow> ticks \<Rightarrow> ticks \<Rightarrow> ticks \<Rightarrow> (ticks \<times> ticks) list" where
  "occurrence_loop start len clip_len pattern_length position =
     (if position < clip_len \<and> 0 < pattern_length then
        let truncated_by_pattern = pattern_length - start;
            end = min (position + len) (min (position + truncated_by_pattern) clip_len)
        in (if end > position then [(position, end)] else []) @
           occurrence_loop start len clip_len pattern_length (position + pattern_length)
      else [])"
  by pat_completeness auto
termination
  by (relation "measure (\<lambda>(start, len, clip_len, pattern_length, position). nat (clip_len - position))") auto

declare occurrence_loop.simps [simp del]

definition collectOccurrences :: "Note \<Rightarrow> Clip \<Rightarrow> ticks \<Rightarrow> (ticks \<times> ticks) list" where
  "collectOccurrences note clip pattern_length =
     (if pattern_length \<le> 0 \<or> clip_length clip \<le> 0 \<or> note_length note \<le> 0 then []
      else let window = tr_window_start (clip_transforms clip) in
        if \<not> tr_loop (clip_transforms clip) then
          let offset = note_start note - window in
          if offset < 0 \<or> offset \<ge> clip_length clip then []
          else let end = min (offset + note_length note)
                 (min (clip_length clip) (offset + (pattern_length - note_start note)))
               in if end > offset then [(offset, end)] else []
        else occurrence_loop (note_start note) (note_length note) (clip_length clip) pattern_length
          (((note_start note - window) smod pattern_length + pattern_length) smod pattern_length))"

subsection \<open>Overlaps\<close>

definition resolved_rank :: "ResolvedNote \<Rightarrow> int \<times> int \<times> int \<times> int" where
  "resolved_rank n = (rn_instrument n, rn_key n, rn_start n, rn_end n)"

fun cut_earlier :: "ResolvedNote list \<Rightarrow> ResolvedNote list" where
  "cut_earlier (current # next # ns) =
     (if rn_instrument current \<noteq> rn_instrument next \<or> rn_key current \<noteq> rn_key next then current
      else if rn_start next < rn_end current then current\<lparr>rn_end := rn_start next\<rparr>
      else current) # cut_earlier (next # ns)"
| "cut_earlier ns = ns"

definition resolveOverlaps :: "ResolvedNote list \<Rightarrow> ResolvedNote list" where
  "resolveOverlaps ns = filter (\<lambda>n. \<not> rn_end n \<le> rn_start n) (cut_earlier (sort_key resolved_rank ns))"

subsection \<open>The dense indices\<close>

definition assign_index :: "'k :: linorder \<Rightarrow> ('k, int) omap \<times> int \<Rightarrow> ('k, int) omap \<times> int" where
  "assign_index k = (\<lambda>(m, next). (om_emplace k next m, next + 1))"

definition assign_indices :: "'k :: linorder list \<Rightarrow> int \<Rightarrow> ('k, int) omap \<times> int" where
  "assign_indices ks start = fold assign_index ks (om_empty, start)"

definition audio_clip_ids :: "('a Tables_scheme) \<Rightarrow> clip_id list" where
  "audio_clip_ids p = map fst (filter (\<lambda>(i, c). clip_audio c \<noteq> None) (om_entries (clips p)))"

definition effect_addresses :: "('a Tables_scheme) \<Rightarrow> (track_id \<times> effect_id) list" where
  "effect_addresses p = concat (map (\<lambda>(i, t). map (\<lambda>s. (i, slot_id s)) (track_effects t)) (om_entries (mixer_tracks p)))"

record FlattenIndex =
  fx_instrument :: "(instrument_id, int) omap"
  fx_audio :: "(clip_id, int) omap"
  fx_effect :: "(track_id \<times> effect_id, int) omap"

definition flatten_index :: "('a Tables_scheme) \<Rightarrow> FlattenIndex" where
  "flatten_index p =
     (let (inst, next) = assign_indices (om_keys (instruments p)) 0
      in \<lparr>fx_instrument = inst, fx_audio = fst (assign_indices (audio_clip_ids p) next),
          fx_effect = fst (assign_indices (effect_addresses p) 0)\<rparr>)"

subsection \<open>Collecting what sounds\<close>

record FlattenAcc =
  fa_notes :: "ResolvedNote list"
  fa_params :: "ResolvedParam list"
  fa_effect_params :: "ResolvedParam list"
  fa_audio_starts :: "ResolvedAudio list"
  fa_end_ticks :: ticks
  fa_clips_flattened :: nat
  fa_notes_dropped :: nat

definition empty_acc :: FlattenAcc where
  "empty_acc = \<lparr>fa_notes = [], fa_params = [], fa_effect_params = [], fa_audio_starts = [],
     fa_end_ticks = 0, fa_clips_flattened = 0, fa_notes_dropped = 0\<rparr>"

definition swung_note :: "Pattern \<Rightarrow> ChannelSettings \<Rightarrow> Note \<Rightarrow> Note" where
  "swung_note pat settings note = note\<lparr>
     note_start := swungPosition (note_start note) (pat_swing pat) + cs_shift_ticks settings,
     note_length := max 1 (llround (ddiv (dmul (dofint (note_length note)) (dofint (cs_gate_percent settings))) (Fin 100)))\<rparr>"

definition flatten_note ::
  "Clip \<Rightarrow> Pattern \<Rightarrow> ticks \<Rightarrow> ChannelSettings \<Rightarrow> int \<Rightarrow> Note \<Rightarrow> FlattenAcc \<Rightarrow> FlattenAcc" where
  "flatten_note clip pat pattern_length settings index note acc =
     (let key = note_key note + tr_transpose (clip_transforms clip) in
      if key < 0 \<or> key > 127 then acc\<lparr>fa_notes_dropped := fa_notes_dropped acc + 1\<rparr>
      else if key < cs_key_low settings \<or> key > cs_key_high settings
      then acc\<lparr>fa_notes_dropped := fa_notes_dropped acc + 1\<rparr>
      else acc\<lparr>fa_notes := fa_notes acc @
        map (\<lambda>(s, e). \<lparr>rn_start = clip_start clip + s, rn_end = clip_start clip + e, rn_instrument = index,
             rn_key = to_int16 key,
             rn_velocity = clamp_fp (fmul (velocityToUnit (note_velocity note)) (cs_velocity_tracking settings)) (Fin 0) (Fin 1)\<rparr>)
          (collectOccurrences (swung_note pat settings note) clip pattern_length)\<rparr>)"

definition any_instrument_solo :: "('a Tables_scheme) \<Rightarrow> bool" where
  "any_instrument_solo p \<longleftrightarrow> (\<exists>i \<in> set (om_values (instruments p)). inst_soloed i)"

definition flatten_sequence ::
  "('a Tables_scheme) \<Rightarrow> FlattenIndex \<Rightarrow> Clip \<Rightarrow> Pattern \<Rightarrow> instrument_id \<times> note_sequence \<Rightarrow> FlattenAcc \<Rightarrow> FlattenAcc" where
  "flatten_sequence p fx clip pat = (\<lambda>(iid, s) acc.
     case findInstrument p iid of
       None \<Rightarrow> acc
     | Some inst \<Rightarrow>
         if inst_muted inst \<or> (any_instrument_solo p \<and> \<not> inst_soloed inst) then acc
         else case om_find (fx_instrument fx) iid of
             None \<Rightarrow> acc
           | Some index \<Rightarrow> fold (flatten_note clip pat (patternEffectiveLength pat) (inst_channel_settings inst) index) s acc)"

definition curve_points :: "Clip \<Rightarrow> AutomationSource \<Rightarrow> int \<Rightarrow> ResolvedParam list" where
  "curve_points clip a target =
     map (\<lambda>pt. \<lparr>rp_position = clip_start clip + pt_position pt, rp_target = target,
            rp_parameter = uint (as_parameter a), rp_value = pt_value pt\<rparr>)
       (filter (\<lambda>pt. \<not> (pt_position pt < 0 \<or> pt_position pt \<ge> clip_length clip)) (as_points a))"

text \<open>
  The dispatch on an automation's target; the flag says whether it found an index, which the
  clip-owned curves count.
\<close>

definition flatten_automation :: "FlattenIndex \<Rightarrow> Clip \<Rightarrow> AutomationSource \<Rightarrow> FlattenAcc \<Rightarrow> bool \<times> FlattenAcc" where
  "flatten_automation fx clip a acc =
     (case as_target_kind a of
        TargetInstrument \<Rightarrow>
          (case om_find (fx_instrument fx) (as_instrument a) of
             None \<Rightarrow> (False, acc)
           | Some index \<Rightarrow> (True, acc\<lparr>fa_params := fa_params acc @ curve_points clip a index\<rparr>))
      | TargetEffect \<Rightarrow>
          (case om_find (fx_effect fx) (as_mixer_track a, as_effect a) of
             None \<Rightarrow> (False, acc)
           | Some index \<Rightarrow> (True, acc\<lparr>fa_effect_params := fa_effect_params acc @ curve_points clip a index\<rparr>))
      | TargetMixerTrack \<Rightarrow> (False, acc))"

definition flatten_pattern :: "('a Tables_scheme) \<Rightarrow> FlattenIndex \<Rightarrow> Clip \<Rightarrow> Pattern \<Rightarrow> FlattenAcc \<Rightarrow> FlattenAcc" where
  "flatten_pattern p fx clip pat acc =
     (if patternEffectiveLength pat \<le> 0 then acc
      else let acc1 = acc\<lparr>fa_clips_flattened := fa_clips_flattened acc + 1\<rparr>;
               acc2 = fold (flatten_sequence p fx clip pat) (om_entries (pat_sequences pat)) acc1
           in fold (\<lambda>a acc. snd (flatten_automation fx clip a acc)) (pat_automation pat) acc2)"

definition flatten_clip :: "('a Tables_scheme) \<Rightarrow> FlattenIndex \<Rightarrow> clip_id \<Rightarrow> FlattenAcc \<Rightarrow> FlattenAcc" where
  "flatten_clip p fx cid acc0 =
     (case findClip p cid of
        None \<Rightarrow> acc0
      | Some clip \<Rightarrow>
          if clip_muted clip \<or> clip_length clip \<le> 0 then acc0
          else let acc = acc0\<lparr>fa_end_ticks := max (fa_end_ticks acc0) (clip_start clip + clip_length clip)\<rparr> in
            case clip_source clip of
              SrcPattern pid \<Rightarrow> (case findPattern p pid of None \<Rightarrow> acc | Some pat \<Rightarrow> flatten_pattern p fx clip pat acc)
            | SrcAudio _ \<Rightarrow>
                (case om_find (fx_audio fx) cid of
                   None \<Rightarrow> acc
                 | Some channel \<Rightarrow> acc\<lparr>fa_clips_flattened := fa_clips_flattened acc + 1,
                     fa_audio_starts := fa_audio_starts acc @ [\<lparr>ra_start = clip_start clip, ra_channel = channel\<rparr>]\<rparr>)
            | SrcAutomation a \<Rightarrow>
                (let (found, acc') = flatten_automation fx clip a acc in
                 if found then acc'\<lparr>fa_clips_flattened := fa_clips_flattened acc' + 1\<rparr> else acc'))"

definition collect :: "('a Tables_scheme) \<Rightarrow> FlattenIndex \<Rightarrow> FlattenAcc" where
  "collect p fx = fold (\<lambda>lane acc. fold (flatten_clip p fx) (clipsOnLane p lane) acc) (audibleLanes p) empty_acc"

subsection \<open>Building the schedule\<close>

definition ticks_to_frames :: "TimeMap \<Rightarrow> ticks \<Rightarrow> int" where
  "ticks_to_frames m t = beatsToFrames m (ddiv (dofint t) (dofint TicksPerQuarter))"

definition add_resolved_note :: "TimeMap \<Rightarrow> ResolvedNote \<Rightarrow> ScheduleBuilder \<Rightarrow> ScheduleBuilder" where
  "add_resolved_note m n b =
     (let start_frame = ticks_to_frames m (rn_start n);
          end_frame = ticks_to_frames m (rn_end n);
          duration = max 1 (end_frame - start_frame)
      in sb_addNote (rn_instrument n) (rn_key n) (rn_velocity n) start_frame duration b)"

definition param_rank :: "ResolvedParam \<Rightarrow> int \<times> int \<times> int" where
  "param_rank r = (rp_position r, rp_target r, rp_parameter r)"

definition add_resolved_param :: "TimeMap \<Rightarrow> ResolvedParam \<Rightarrow> ScheduleBuilder \<Rightarrow> ScheduleBuilder" where
  "add_resolved_param m r = sb_addParamValue (rp_target r) (rp_parameter r) (rp_value r) (ticks_to_frames m (rp_position r))"

definition add_resolved_effect :: "TimeMap \<Rightarrow> ResolvedParam \<Rightarrow> ScheduleBuilder \<Rightarrow> ScheduleBuilder" where
  "add_resolved_effect m r =
     sb_addEffectParam (to_uint32 (rp_target r)) (rp_parameter r) (rp_value r) (ticks_to_frames m (rp_position r))"

record FlattenOptions =
  fo_sample_rate :: fp
  fo_generation :: int

record FlattenResult =
  fr_schedule :: "Schedule option"
  fr_index :: FlattenIndex
  fr_length_frames :: int
  fr_event_count :: nat
  fr_clips_flattened :: nat
  fr_notes_dropped :: nat
  fr_hash :: "64 word"

definition empty_result :: FlattenResult where
  "empty_result = \<lparr>fr_schedule = None,
     fr_index = \<lparr>fx_instrument = om_empty, fx_audio = om_empty, fx_effect = om_empty\<rparr>, fr_length_frames = 0,
     fr_event_count = 0, fr_clips_flattened = 0, fr_notes_dropped = 0, fr_hash = 0\<rparr>"

definition schedule_builder :: "TimeMap \<Rightarrow> FlattenAcc \<Rightarrow> ScheduleBuilder" where
  "schedule_builder m acc =
     sb_setLengthFrames (ticks_to_frames m (fa_end_ticks acc))
       (fold (\<lambda>a. sb_addAudioStart (ra_channel a) (ticks_to_frames m (ra_start a))) (fa_audio_starts acc)
       (fold (add_resolved_effect m) (sort_key param_rank (fa_effect_params acc))
       (fold (add_resolved_param m) (sort_key param_rank (fa_params acc))
       (fold (add_resolved_note m) (resolveOverlaps (fa_notes acc)) new_builder))))"

definition flatten :: "('a Tables_scheme) \<Rightarrow> FlattenOptions \<Rightarrow> FlattenResult" where
  "flatten p opts =
     (let fx = flatten_index p;
          m = new_time_map (fo_sample_rate opts) (tp_tempo (transport p));
          acc = collect p fx;
          len = ticks_to_frames m (fa_end_ticks acc);
          sched = sb_build (fo_sample_rate opts) (fo_generation opts) (schedule_builder m acc)
      in \<lparr>fr_schedule = Some sched, fr_index = fx, fr_length_frames = len,
          fr_event_count = eventCount sched, fr_clips_flattened = fa_clips_flattened acc,
          fr_notes_dropped = fa_notes_dropped acc, fr_hash = hashEvents (sched_events sched) len\<rparr>)"

subsection \<open>\<open>FlattenScheduler\<close>\<close>

record FlattenScheduler =
  fs_token :: nat
  fs_dirty :: bool
  fs_generation :: int

definition new_flatten_scheduler :: "'l \<Rightarrow> 'l change_bus \<Rightarrow> FlattenScheduler \<times> 'l change_bus" where
  "new_flatten_scheduler listener b =
     (let (token, b') = subscribe listener b in (\<lparr>fs_token = token, fs_dirty = True, fs_generation = 0\<rparr>, b'))"

definition fs_destroy :: "FlattenScheduler \<Rightarrow> 'l change_bus \<Rightarrow> 'l change_bus" where
  "fs_destroy fs b = unsubscribe (fs_token fs) b"

definition fs_on_change :: "ChangeEvent \<Rightarrow> FlattenScheduler \<Rightarrow> FlattenScheduler" where
  "fs_on_change e fs = fs\<lparr>fs_dirty := True\<rparr>"

definition fs_markDirty :: "FlattenScheduler \<Rightarrow> FlattenScheduler" where
  "fs_markDirty fs = fs\<lparr>fs_dirty := True\<rparr>"

definition flushIfDirty :: "('a Tables_scheme) \<Rightarrow> fp \<Rightarrow> FlattenScheduler \<Rightarrow> FlattenResult \<times> FlattenScheduler" where
  "flushIfDirty p sample_rate fs =
     (if \<not> fs_dirty fs then (empty_result, fs)
      else let generation = fs_generation fs + 1 in
        (flatten p \<lparr>fo_sample_rate = sample_rate, fo_generation = generation\<rparr>,
         fs\<lparr>fs_dirty := False, fs_generation := generation\<rparr>))"

end
