(* ===== verification/Overlaps.thy ===== *)
theory Overlaps
  imports Flattener Sample
begin

text \<open>
  The overlap rule of the flattener: of two notes of one instrument and key, the later note-on
  cuts the earlier note.
\<close>

definition onset :: "ResolvedNote \<Rightarrow> int \<times> int \<times> int" where
  "onset n = (rn_instrument n, rn_key n, rn_start n)"

definition same_voice :: "ResolvedNote \<Rightarrow> ResolvedNote \<Rightarrow> bool" where
  "same_voice a b \<longleftrightarrow> rn_instrument a = rn_instrument b \<and> rn_key a = rn_key b"

definition apart :: "ResolvedNote \<Rightarrow> ResolvedNote \<Rightarrow> bool" where
  "apart a b \<longleftrightarrow> (same_voice a b \<longrightarrow> rn_end a \<le> rn_start b)"

definition shortened :: "ResolvedNote \<Rightarrow> ResolvedNote \<Rightarrow> bool" where
  "shortened m n \<longleftrightarrow> (\<exists>e \<le> rn_end n. m = n\<lparr>rn_end := e\<rparr>)"

lemma cut_earlier_onsets: "map onset (cut_earlier ns) = map onset ns"
  by (induction ns rule: cut_earlier.induct) (auto simp: onset_def)

lemma cut_earlier_shortens: "list_all2 shortened (cut_earlier ns) ns"
proof (induction ns rule: cut_earlier.induct)
  case (1 c n ns)
  have "shortened c c" by (auto simp: shortened_def intro!: exI [of _ "rn_end c"])
  moreover have "rn_start n < rn_end c \<Longrightarrow> shortened (c\<lparr>rn_end := rn_start n\<rparr>) c"
    by (auto simp: shortened_def intro!: exI [of _ "rn_start n"])
  ultimately show ?case using 1 by simp
qed (auto simp: shortened_def intro!: exI [of _ "rn_end _"])

lemma onset_in: "x \<in> set (cut_earlier ns) \<Longrightarrow> \<exists>y \<in> set ns. onset y = onset x"
  by (metis cut_earlier_onsets imageE list.set_map image_eqI)

lemma cut_earlier_apart:
  assumes "sorted (map resolved_rank ns)"
  shows "sorted_wrt apart (cut_earlier ns)"
  using assms
proof (induction ns rule: cut_earlier.induct)
  case (1 c n ns)
  let ?c = "hd (cut_earlier (c # n # ns))"
  have "apart ?c x" if x: "x \<in> set (cut_earlier (n # ns))" for x
  proof -
    obtain y where y: "y \<in> set (n # ns)" "onset y = onset x" using onset_in [OF x] by blast
    have "resolved_rank c \<le> resolved_rank n" "resolved_rank n \<le> resolved_rank y"
      using 1(2) y(1) by auto
    then show ?thesis using y(2)
      by (auto simp: apart_def same_voice_def resolved_rank_def onset_def)
  qed
  then show ?case using 1 by simp
qed simp_all

text \<open>
  The last of the notes with one onset is the longest, and the cut leaves it a positive length.
\<close>

lemma cut_earlier_keeps:
  assumes "sorted (map resolved_rank ns)" and "n \<in> set ns" and "rn_start n < rn_end n"
  shows "\<exists>m \<in> set (cut_earlier ns). onset m = onset n \<and> rn_start m < rn_end m"
  using assms
proof (induction ns arbitrary: n rule: cut_earlier.induct)
  case (1 c d ns)
  have later: ?case if "n' \<in> set (d # ns)" "onset n' = onset n" "rn_start n' < rn_end n'" for n'
  proof -
    have s: "sorted (map resolved_rank (d # ns))" using "1.prems"(1) by simp
    have "\<forall>n \<in> set (d # ns). rn_start n < rn_end n \<longrightarrow>
        (\<exists>m \<in> set (cut_earlier (d # ns)). onset m = onset n \<and> rn_start m < rn_end m)"
      using "1.IH" s by blast
    with that show ?thesis by fastforce
  qed
  show ?case
  proof (cases "n \<in> set (d # ns)")
    case True
    then show ?thesis using later "1.prems"(3) by blast
  next
    case False
    then have n: "n = c" using "1.prems"(2) by simp
    have le: "resolved_rank c \<le> resolved_rank d" using "1.prems"(1) by simp
    show ?thesis
    proof (cases "onset d = onset c")
      case True
      then have "rn_start d < rn_end d"
        using le "1.prems"(3) by (auto simp: n resolved_rank_def onset_def)
      then show ?thesis using True n by (intro later [of d]) simp_all
    next
      case False
      then have "rn_instrument c = rn_instrument d \<Longrightarrow> rn_key c = rn_key d \<Longrightarrow> rn_start c < rn_start d"
        using le by (auto simp: resolved_rank_def onset_def)
      then show ?thesis using "1.prems"(3) by (auto simp: n onset_def)
    qed
  qed
qed auto

lemma sorted_wrt_apart_filter: "sorted_wrt apart ns \<Longrightarrow> sorted_wrt apart (filter P ns)"
  by (rule sorted_wrt_filter)

lemma resolveOverlaps_apart: "sorted_wrt apart (resolveOverlaps ns)"
  unfolding resolveOverlaps_def by (intro sorted_wrt_apart_filter cut_earlier_apart) simp

lemma resolveOverlaps_sound:
  assumes "m \<in> set (resolveOverlaps ns)"
  shows "rn_start m < rn_end m" and "\<exists>n \<in> set ns. shortened m n"
proof -
  show "rn_start m < rn_end m" using assms by (simp add: resolveOverlaps_def)
  let ?s = "sort_key resolved_rank ns"
  have "m \<in> set (cut_earlier ?s)" using assms by (simp add: resolveOverlaps_def)
  then obtain i where i: "i < length (cut_earlier ?s)" "cut_earlier ?s ! i = m" by (auto simp: in_set_conv_nth)
  note l = cut_earlier_shortens [of ?s]
  have "shortened m (?s ! i)" using list_all2_nthD [OF l i(1)] i(2) by simp
  moreover have "?s ! i \<in> set ns" using list_all2_lengthD [OF l] i(1) by (metis nth_mem set_sort)
  ultimately show "\<exists>n \<in> set ns. shortened m n" by blast
qed

lemma onset_unique:
  assumes "sorted_wrt apart ns" and "\<forall>n \<in> set ns. rn_start n < rn_end n"
  shows "distinct (map onset ns)"
  using assms
proof (induction ns)
  case (Cons n ns)
  have "onset m \<noteq> onset n" if "m \<in> set ns" for m
    using Cons.prems that by (auto simp: apart_def same_voice_def onset_def)
  then have "onset n \<notin> onset ` set ns" by (metis imageE)
  with Cons show ?case by simp
qed simp

text \<open>
  Claim C19.  After overlaps are resolved, two notes of one instrument and key never overlap; every
  note has a positive length and is an input note, possibly shortened, never moved or lengthened;
  and no onset is lost or doubled: the onsets of the result are, each once, exactly the onsets of
  the input notes of positive length.
\<close>

theorem overlaps_resolved:
  "let r = resolveOverlaps ns in
     sorted_wrt apart r \<and>
     (\<forall>m \<in> set r. rn_start m < rn_end m \<and> (\<exists>n \<in> set ns. shortened m n)) \<and>
     distinct (map onset r) \<and> onset ` set r = onset ` {n \<in> set ns. rn_start n < rn_end n}"
proof -
  let ?r = "resolveOverlaps ns"
  have "onset ` {n \<in> set ns. rn_start n < rn_end n} \<subseteq> onset ` set ?r"
  proof (rule image_subsetI)
    fix n assume "n \<in> {n \<in> set ns. rn_start n < rn_end n}"
    then obtain m where m: "m \<in> set (cut_earlier (sort_key resolved_rank ns))" "onset m = onset n" "rn_start m < rn_end m"
      using cut_earlier_keeps [of "sort_key resolved_rank ns" n] by auto
    then have "m \<in> set ?r" by (simp add: resolveOverlaps_def)
    then show "onset n \<in> onset ` set ?r" using m(2) by (metis image_eqI)
  qed
  moreover have "onset ` set ?r \<subseteq> onset ` {n \<in> set ns. rn_start n < rn_end n}"
  proof (rule image_subsetI)
    fix m assume m: "m \<in> set ?r"
    then obtain n e where "n \<in> set ns" "m = n\<lparr>rn_end := e\<rparr>" "e \<le> rn_end n"
      using resolveOverlaps_sound(2) [OF m] by (auto simp: shortened_def)
    with resolveOverlaps_sound(1) [OF m] show "onset m \<in> onset ` {n \<in> set ns. rn_start n < rn_end n}"
      by (auto simp: onset_def intro!: image_eqI [of _ _ n])
  qed
  moreover have "distinct (map onset ?r)"
    by (rule onset_unique [OF resolveOverlaps_apart]) (simp add: resolveOverlaps_sound(1))
  ultimately show ?thesis
    unfolding Let_def using resolveOverlaps_apart [of ns] resolveOverlaps_sound [of _ ns] by blast
qed

definition stacked_notes :: "ResolvedNote list" where
  "stacked_notes = [\<lparr>rn_start = 0, rn_end = 960, rn_instrument = 0, rn_key = 60, rn_velocity = Fin 1\<rparr>,
     \<lparr>rn_start = 480, rn_end = 720, rn_instrument = 0, rn_key = 60, rn_velocity = Fin 1\<rparr>,
     \<lparr>rn_start = 0, rn_end = 240, rn_instrument = 0, rn_key = 60, rn_velocity = Fin 1\<rparr>]"

theorem overlaps_resolved_witness:
  "map (\<lambda>n. (rn_start n, rn_end n)) (resolveOverlaps stacked_notes) = [(0, 480), (480, 720)] \<and>
   distinct (map onset (resolveOverlaps stacked_notes))"
proof -
  have "map (\<lambda>n. (rn_start n, rn_end n)) (resolveOverlaps stacked_notes) = [(0, 480), (480, 720)]"
    by (simp add: stacked_notes_def resolveOverlaps_def resolved_rank_def)
  then show ?thesis using overlaps_resolved [of stacked_notes] by (simp add: Let_def)
qed

subsection \<open>No note hangs\<close>

definition voice_event :: "int \<Rightarrow> int \<Rightarrow> ScheduleEvent \<Rightarrow> bool" where
  "voice_event inst key e \<longleftrightarrow> se_instrument e = inst \<and> se_note e = key \<and>
     (se_type e = event_type_code SchedNoteOn \<or> se_type e = event_type_code SchedNoteOff)"

definition note_pair :: "TimeMap \<Rightarrow> ResolvedNote \<Rightarrow> ScheduleEvent list" where
  "note_pair m n =
     [\<lparr>se_frame = ticks_to_frames m (rn_start n), se_instrument = rn_instrument n,
       se_type = event_type_code SchedNoteOn, se_note = rn_key n, se_value = rn_velocity n, se_reserved = 0\<rparr>,
      \<lparr>se_frame = ticks_to_frames m (rn_end n), se_instrument = rn_instrument n,
       se_type = event_type_code SchedNoteOff, se_note = rn_key n, se_value = Fin 0, se_reserved = 0\<rparr>]"

definition frames_separate :: "TimeMap \<Rightarrow> ResolvedNote list \<Rightarrow> bool" where
  "frames_separate m ns \<longleftrightarrow> (\<forall>a \<in> rn_start ` set ns \<union> rn_end ` set ns. \<forall>b \<in> rn_start ` set ns \<union> rn_end ` set ns.
     a < b \<longrightarrow> ticks_to_frames m a < ticks_to_frames m b)"

lemma add_resolved_note_events:
  assumes "ticks_to_frames m (rn_start n) < ticks_to_frames m (rn_end n)"
  shows "sb_events (add_resolved_note m n b) = sb_events b @ note_pair m n"
  using assms by (simp add: add_resolved_note_def sb_addNote_def note_pair_def Let_def)

lemma fold_resolved_events:
  assumes "\<forall>n \<in> set ns. ticks_to_frames m (rn_start n) < ticks_to_frames m (rn_end n)"
  shows "sb_events (fold (add_resolved_note m) ns b) = sb_events b @ concat (map (note_pair m) ns)"
  using assms by (induction ns arbitrary: b) (simp_all add: add_resolved_note_events)

lemma fold_adds_other:
  assumes "\<And>x b. \<exists>e. sb_events (f x b) = sb_events b @ [e] \<and> \<not> P e"
  shows "filter P (sb_events (fold f xs b)) = filter P (sb_events b)"
proof (induction xs arbitrary: b)
  case (Cons x xs)
  obtain e where "sb_events (f x b) = sb_events b @ [e]" "\<not> P e" using assms by blast
  then show ?case using Cons.IH [of "f x b"] by simp
qed simp

lemma filter_note_pairs:
  "filter (voice_event inst key) (concat (map (note_pair m) ns)) =
     concat (map (note_pair m) (filter (\<lambda>n. rn_instrument n = inst \<and> rn_key n = key) ns))"
  by (induction ns) (auto simp: note_pair_def voice_event_def)

lemma builder_voice_events:
  assumes "\<forall>n \<in> set (resolveOverlaps (fa_notes acc)). ticks_to_frames m (rn_start n) < ticks_to_frames m (rn_end n)"
  shows "filter (voice_event inst key) (sb_events (schedule_builder m acc)) =
    concat (map (note_pair m) (filter (\<lambda>n. rn_instrument n = inst \<and> rn_key n = key) (resolveOverlaps (fa_notes acc))))"
proof -
  let ?P = "voice_event inst key" and ?ns = "resolveOverlaps (fa_notes acc)"
  have "filter ?P (sb_events (schedule_builder m acc)) = filter ?P (sb_events (fold (add_resolved_note m) ?ns new_builder))"
    unfolding schedule_builder_def sb_setLengthFrames_def
    by (simp, subst fold_adds_other, force simp: sb_addAudioStart_def voice_event_def,
        subst fold_adds_other, force simp: add_resolved_effect_def sb_addEffectParam_def voice_event_def,
        subst fold_adds_other, force simp: add_resolved_param_def sb_addParamValue_def voice_event_def, rule refl)
  also have "\<dots> = filter ?P (concat (map (note_pair m) ?ns))"
    by (simp add: fold_resolved_events [OF assms] new_builder_def)
  also have "\<dots> = concat (map (note_pair m) (filter (\<lambda>n. rn_instrument n = inst \<and> rn_key n = key) ?ns))"
    by (rule filter_note_pairs)
  finally show ?thesis .
qed

lemma sorted_pairs:
  assumes "frames_separate m ns" and "sorted_wrt (\<lambda>a b. rn_end a \<le> rn_start b) ns" and "\<forall>n \<in> set ns. rn_start n < rn_end n"
  shows "sorted (map schedule_rank (concat (map (note_pair m) ns)))"
  using assms
proof (induction ns)
  case (Cons n ns)
  have sep: "frames_separate m ns" using Cons.prems(1) by (auto simp: frames_separate_def)
  have IH: "sorted (map schedule_rank (concat (map (note_pair m) ns)))" using Cons sep by simp
  have on: "ticks_to_frames m (rn_start n) < ticks_to_frames m (rn_end n)"
    using Cons.prems(1,3) by (auto simp: frames_separate_def)
  have later: "ticks_to_frames m (rn_end n) \<le> ticks_to_frames m (rn_start k) \<and>
      ticks_to_frames m (rn_end n) < ticks_to_frames m (rn_end k)" if "k \<in> set ns" for k
  proof -
    have "rn_end n \<le> rn_start k" "rn_start k < rn_end k" using Cons.prems(2,3) that by auto
    moreover have "rn_end n < rn_start k \<Longrightarrow> ticks_to_frames m (rn_end n) < ticks_to_frames m (rn_start k)"
      "rn_end n < rn_end k \<Longrightarrow> ticks_to_frames m (rn_end n) < ticks_to_frames m (rn_end k)"
      using Cons.prems(1) that by (auto simp: frames_separate_def)
    ultimately show ?thesis by (cases "rn_end n = rn_start k") auto
  qed
  obtain a b where ab: "note_pair m n = [a, b]" by (simp add: note_pair_def)
  have "\<forall>x \<in> set (concat (map (note_pair m) ns)). schedule_rank (note_pair m n ! 1) \<le> schedule_rank x"
    using later by (fastforce simp: note_pair_def schedule_rank_def)
  moreover have "schedule_rank (note_pair m n ! 0) \<le> schedule_rank (note_pair m n ! 1)"
    using on by (simp add: note_pair_def schedule_rank_def)
  ultimately show ?case
    using IH by (auto simp: ab intro: order_trans)
qed simp

text \<open>
  Claim C3.  No note hangs.  Where distinct tick positions fall on distinct frames, the note events
  of one instrument and key in a flattened schedule are, for notes that do not overlap, the
  note-on and then the note-off of each note in turn: the schedule never sends two note-ons without
  the note-off between them, and every note-on has its note-off at a later frame.
\<close>

theorem no_note_hangs:
  assumes "fr_schedule (flatten p opts) = Some s"
    and "frames_separate (new_time_map (fo_sample_rate opts) (tp_tempo (transport p)))
      (resolveOverlaps (fa_notes (collect p (flatten_index p))))"
  shows "\<exists>ns. filter (voice_event inst key) (sched_events s) =
      concat (map (note_pair (new_time_map (fo_sample_rate opts) (tp_tempo (transport p)))) ns) \<and>
    set ns \<subseteq> set (resolveOverlaps (fa_notes (collect p (flatten_index p)))) \<and>
    sorted_wrt (\<lambda>a b. rn_end a \<le> rn_start b) ns \<and>
    (\<forall>n \<in> set ns. ticks_to_frames (new_time_map (fo_sample_rate opts) (tp_tempo (transport p))) (rn_start n) <
       ticks_to_frames (new_time_map (fo_sample_rate opts) (tp_tempo (transport p))) (rn_end n))"
proof -
  let ?m = "new_time_map (fo_sample_rate opts) (tp_tempo (transport p))"
  let ?acc = "collect p (flatten_index p)"
  let ?all = "resolveOverlaps (fa_notes ?acc)"
  define ns where "ns = filter (\<lambda>n. rn_instrument n = inst \<and> rn_key n = key) ?all"
  have on: "\<forall>n \<in> set ?all. ticks_to_frames ?m (rn_start n) < ticks_to_frames ?m (rn_end n)"
    using assms(2) resolveOverlaps_sound(1) [of _ "fa_notes ?acc"] by (auto simp: frames_separate_def)
  have s: "sched_events s = sort_key schedule_rank (sb_events (schedule_builder ?m ?acc))"
    using assms(1) by (auto simp: flatten_def Let_def sb_build_def)
  have sep: "frames_separate ?m ns" using assms(2) by (auto simp: frames_separate_def ns_def)
  have "sorted_wrt apart ns" unfolding ns_def by (intro sorted_wrt_apart_filter resolveOverlaps_apart)
  then have apart: "sorted_wrt (\<lambda>a b. rn_end a \<le> rn_start b) ns"
    by (rule sorted_wrt_mono_rel [rotated]) (auto simp: ns_def apart_def same_voice_def)
  have pos: "\<forall>n \<in> set ns. rn_start n < rn_end n" using resolveOverlaps_sound(1) by (auto simp: ns_def)
  have "filter (voice_event inst key) (sched_events s) = sort_key schedule_rank (concat (map (note_pair ?m) ns))"
    unfolding s filter_sort builder_voice_events [OF on] ns_def ..
  also have "\<dots> = concat (map (note_pair ?m) ns)"
    by (rule sort_key_id_if_sorted [OF sorted_pairs [OF sep apart pos]])
  finally have "filter (voice_event inst key) (sched_events s) = concat (map (note_pair ?m) ns)" .
  then show ?thesis using on apart by (intro exI [of _ ns]) (auto simp: ns_def)
qed


text \<open>One clip of a pattern with two notes of a beat each, at 120 beats per minute and 48 kHz.\<close>

definition beat_note :: "int \<Rightarrow> Note" where
  "beat_note start = \<lparr>note_start = start, note_length = 960, note_key = 36, note_velocity = 100\<rparr>"

definition beat_pattern :: Pattern where
  "beat_pattern = default_pattern\<lparr>pat_id := pat1, pat_length := 3840,
     pat_sequences := om_insert ins1 [beat_note 0, beat_note 960] om_empty\<rparr>"

definition beat_clip :: Clip where
  "beat_clip = default_clip\<lparr>clip_id := clp1, clip_lane := lan1, clip_length := 3840, clip_source := SrcPattern pat1\<rparr>"

definition beat_project :: project where
  "beat_project = sample_project\<lparr>patterns := om_insert pat1 beat_pattern om_empty, clips := om_insert clp1 beat_clip om_empty\<rparr>"

lemma beat_tables:
  "audibleLanes beat_project = [lan1, lan2]" "clipsOnLane beat_project lan1 = [clp1]" "clipsOnLane beat_project lan2 = []"
  "findClip beat_project clp1 = Some beat_clip" "findPattern beat_project pat1 = Some beat_pattern"
  "om_entries (pat_sequences beat_pattern) = [(ins1, [beat_note 0, beat_note 960])]"
  "om_find (fx_instrument (flatten_index beat_project)) ins1 = Some 0" "any_instrument_solo beat_project = False"
  by code_simp+

lemma beat_instrument:
  "findInstrument beat_project ins1 = Some (default_instrument\<lparr>inst_id := ins1, inst_name := ''Kick'', inst_routing := [\<lparr>route_port = 0, route_track = mix2\<rparr>]\<rparr>)"
  by code_simp

lemma beat_transport: "transport beat_project = default_transport"
  by (simp add: beat_project_def sample_project_def)

lemma beat_length: "patternEffectiveLength beat_pattern = 3840"
  by code_simp

lemma exact_steps:
  "dofint (numeral k) = (if numeral k < (2 ^ 53 :: int) then Fin (numeral k) else dofint (numeral k))" "dofint 0 = Fin 0"
  "rnd64 0 = Fin 0" "rnd64 1 = Fin 1"
  using dofint_exact [of "numeral k"] rnd64_int [of 0] rnd64_int [of 1] dofint_exact [of 0] by auto

lemma llround_numeral: "llround (Fin (numeral k)) = numeral k" "llround (Fin 0) = 0"
  using round_away_of_int [of "numeral k"] round_away_of_int [of 0] by simp_all

lemma beat_swung: "swung_note beat_pattern default_channel_settings (beat_note s) = beat_note s"
  by (simp add: swung_note_def beat_pattern_def default_pattern_def default_channel_settings_def beat_note_def
      swungPosition_def fp_le_def exact_steps rnd64_numeral llround_numeral [simplified])

lemma beat_notes:
  "\<exists>v. fa_notes (collect beat_project (flatten_index beat_project)) =
     [\<lparr>rn_start = 0, rn_end = 960, rn_instrument = 0, rn_key = 36, rn_velocity = v\<rparr>,
      \<lparr>rn_start = 960, rn_end = 1920, rn_instrument = 0, rn_key = 36, rn_velocity = v\<rparr>]"
proof -
  have settings: "inst_channel_settings (default_instrument\<lparr>inst_id := ins1, inst_name := ''Kick'',
      inst_routing := [\<lparr>route_port = 0, route_track = mix2\<rparr>]\<rparr>) = default_channel_settings"
    by (simp add: default_instrument_def)
  have c: "clip_muted beat_clip = False" "clip_length beat_clip = 3840" "clip_start beat_clip = 0"
    "clip_source beat_clip = SrcPattern pat1" "clip_transforms beat_clip = default_transforms"
    by (simp_all add: beat_clip_def default_clip_def)
  have a: "pat_automation beat_pattern = []" by (simp add: beat_pattern_def default_pattern_def)
  have i: "inst_muted (default_instrument\<lparr>inst_id := ins1, inst_name := ''Kick'', inst_routing := [\<lparr>route_port = 0, route_track = mix2\<rparr>]\<rparr>) = False"
    by (simp add: default_instrument_def)
  have occ: "collectOccurrences (beat_note 0) beat_clip 3840 = [(0, 960)]"
    "collectOccurrences (beat_note 960) beat_clip 3840 = [(960, 1920)]"
    by (simp_all add: collectOccurrences_def c beat_note_def default_transforms_def)
  have k: "cs_key_low default_channel_settings = 0" "cs_key_high default_channel_settings = 127"
    "tr_transpose default_transforms = 0"
    by (simp_all add: default_channel_settings_def default_transforms_def)
  have v: "note_velocity (beat_note s) = 100" "note_key (beat_note s) = 36" for s by (simp_all add: beat_note_def)
  show ?thesis
    by (simp add: collect_def beat_tables flatten_clip_def c flatten_pattern_def beat_length a flatten_sequence_def
        beat_instrument i settings flatten_note_def beat_swung occ k v empty_acc_def to_int16_def)
qed

lemma beat_frames:
  "ticks_to_frames (new_time_map (Fin 48000) (tp_tempo (transport beat_project))) 0 = 0"
  "ticks_to_frames (new_time_map (Fin 48000) (tp_tempo (transport beat_project))) 960 = 24000"
  "ticks_to_frames (new_time_map (Fin 48000) (tp_tempo (transport beat_project))) 1920 = 48000"
  by (simp_all add: ticks_to_frames_def beatsToFrames_def framesPerBeat_def beat_transport default_transport_def
      new_time_map_def clampTempo_def MinTempoBpm_def MaxTempoBpm_def TicksPerQuarter_def exact_steps rnd64_numeral
      llround_numeral [simplified])

lemma beat_resolved:
  "\<exists>v. resolveOverlaps (fa_notes (collect beat_project (flatten_index beat_project))) =
     [\<lparr>rn_start = 0, rn_end = 960, rn_instrument = 0, rn_key = 36, rn_velocity = v\<rparr>,
      \<lparr>rn_start = 960, rn_end = 1920, rn_instrument = 0, rn_key = 36, rn_velocity = v\<rparr>]"
  using beat_notes by (auto simp: resolveOverlaps_def resolved_rank_def)

theorem no_note_hangs_witness:
  "\<exists>s ns. fr_schedule (flatten beat_project \<lparr>fo_sample_rate = Fin 48000, fo_generation = 1\<rparr>) = Some s \<and>
     filter (voice_event 0 36) (sched_events s) =
       concat (map (note_pair (new_time_map (Fin 48000) (tp_tempo (transport beat_project)))) ns) \<and>
     sorted_wrt (\<lambda>a b. rn_end a \<le> rn_start b) ns"
proof -
  let ?o = "\<lparr>fo_sample_rate = Fin 48000, fo_generation = 1\<rparr>"
  obtain s where s: "fr_schedule (flatten beat_project ?o) = Some s" by (simp add: flatten_def Let_def)
  obtain v where v: "resolveOverlaps (fa_notes (collect beat_project (flatten_index beat_project))) =
     [\<lparr>rn_start = 0, rn_end = 960, rn_instrument = 0, rn_key = 36, rn_velocity = v\<rparr>,
      \<lparr>rn_start = 960, rn_end = 1920, rn_instrument = 0, rn_key = 36, rn_velocity = v\<rparr>]"
    using beat_resolved by blast
  have "frames_separate (new_time_map (Fin 48000) (tp_tempo (transport beat_project)))
      (resolveOverlaps (fa_notes (collect beat_project (flatten_index beat_project))))"
    unfolding v by (simp add: frames_separate_def beat_frames)
  then show ?thesis using no_note_hangs [OF s, of 0 36] s by auto
qed

end
