(* ===== verification/Flattener_Properties.thy ===== *)
theory Flattener_Properties
  imports Flattener Note_Edit
begin

text \<open>
  What the flattener guarantees: the occurrences of a note inside a clip, the resolution of
  overlaps, the notes that reach the schedule, and that no note hangs.
\<close>

subsection \<open>Occurrences\<close>

lemma smod_pos: "0 < m \<Longrightarrow> ((a :: int) smod m + m) smod m = a mod m"
proof -
  assume m: "0 < m"
  have r: "(x + m) smod m = (x + m) mod m" if "- m \<le> x" for x :: int
    using that m by (intro sdiv_smod_sign(2)) simp_all
  show ?thesis
  proof (cases "0 \<le> a")
    case True
    then have e: "a smod m = a mod m" using m by (intro sdiv_smod_sign(2))
    have "0 \<le> a mod m" using m by simp
    then have "- m \<le> a mod m" using m by linarith
    from r [OF this] show ?thesis by (simp add: e)
  next
    case False
    then have e: "a smod m = - ((- a) mod m)" using m by (intro sdiv_smod_sign(4)) simp_all
    have "(- a) mod m < m" using m by simp
    then have "- m \<le> a smod m" unfolding e by linarith
    from r [OF this] show ?thesis unfolding e by (simp add: mod_minus_eq)
  qed
qed

text \<open>The loop emits every position of the progression below the clip's end, if it has room to sound.\<close>

lemma occurrence_loop_set:
  assumes "0 < plen"
  shows "(p, e) \<in> set (occurrence_loop start len clen plen f) \<longleftrightarrow>
    f \<le> p \<and> p < clen \<and> (p - f) mod plen = 0 \<and> e = min (p + len) (min (p + (plen - start)) clen) \<and> p < e"
  using assms
proof (induction start len clen plen f rule: occurrence_loop.induct)
  case (1 start len clen plen f)
  show ?case
  proof (cases "f < clen")
    case True
    have step: "f \<le> p \<and> (p - f) mod plen = 0 \<longleftrightarrow> p = f \<or> f + plen \<le> p \<and> (p - (f + plen)) mod plen = 0"
    proof -
      have "(p - (f + plen)) mod plen = (p - f) mod plen" by (metis diff_diff_add mod_diff_right_eq mod_self diff_zero)
      moreover have "p = f \<or> f + plen \<le> p" if "f \<le> p" "(p - f) mod plen = 0"
        using that 1(2) by (metis add_diff_cancel_left' diff_add_cancel dvd_eq_mod_eq_0 eq_iff_diff_eq_0 le_add_diff_inverse zdvd_imp_le zero_less_diff add.commute add_le_cancel_right linorder_neqE_linordered_idom not_less)
      ultimately show ?thesis using 1(2) by auto
    qed
    have IH: "(p, e) \<in> set (occurrence_loop start len clen plen (f + plen)) \<longleftrightarrow>
        f + plen \<le> p \<and> p < clen \<and> (p - (f + plen)) mod plen = 0 \<and> e = min (p + len) (min (p + (plen - start)) clen) \<and> p < e"
      using 1(1) True 1(2) by simp
    show ?thesis
      using True 1(2) step by (subst occurrence_loop.simps) (auto simp: Let_def IH)
  next
    case False
    then show ?thesis by (subst occurrence_loop.simps) auto
  qed
qed

lemma occurrence_loop_apart:
  assumes "0 < plen" and "0 \<le> start"
  shows "sorted_wrt (\<lambda>a b. snd a \<le> fst b) (occurrence_loop start len clen plen f)"
  using assms
proof (induction start len clen plen f rule: occurrence_loop.induct)
  case (1 start len clen plen f)
  show ?case
  proof (cases "f < clen")
    case True
    have "sorted_wrt (\<lambda>a b. snd a \<le> fst b) (occurrence_loop start len clen plen (f + plen))"
      using 1 True by simp
    moreover have "f + (plen - start) \<le> fst b" if "b \<in> set (occurrence_loop start len clen plen (f + plen))" for b
      using that occurrence_loop_set [OF 1(2), of "fst b" "snd b"] 1(3) by auto
    ultimately show ?thesis
      using True 1(2) by (subst occurrence_loop.simps) (auto simp: Let_def min_le_iff_disj)
  next
    case False
    then show ?thesis by (subst occurrence_loop.simps) simp
  qed
qed

text \<open>
  Claim C35.  A note of a pattern sounds inside a clip exactly at the clip positions whose source
  position is the note's start, counted continuously from the window and wrapped at the pattern's
  end when the clip loops; each occurrence lasts the note's length cut at the pattern's end and at
  the clip's end, and occurrences of one note never overlap.
\<close>

theorem occurrences_exact:
  assumes "0 \<le> note_start n" and "note_start n < plen" and "0 < note_length n" and "0 < clip_length c"
  shows "set (collectOccurrences n c plen) =
      {(p, e). 0 \<le> p \<and> p < clip_length c \<and>
         (if tr_loop (clip_transforms c) then (tr_window_start (clip_transforms c) + p) mod plen = note_start n
          else tr_window_start (clip_transforms c) + p = note_start n) \<and>
         e = min (p + note_length n) (min (p + (plen - note_start n)) (clip_length c))} \<and>
    sorted_wrt (\<lambda>a b. snd a \<le> fst b) (collectOccurrences n c plen)"
proof -
  let ?w = "tr_window_start (clip_transforms c)" and ?s = "note_start n"
  have plen: "0 < plen" using assms(1,2) by linarith
  show ?thesis
  proof (cases "tr_loop (clip_transforms c)")
    case False
    then show ?thesis using assms plen
      by (auto simp: collectOccurrences_def Let_def)
  next
    case True
    have first: "((?s - ?w) smod plen + plen) smod plen = (?s - ?w) mod plen" by (rule smod_pos [OF plen])
    have c: "collectOccurrences n c plen = occurrence_loop ?s (note_length n) (clip_length c) plen ((?s - ?w) mod plen)"
      using True assms plen by (simp add: collectOccurrences_def Let_def first)
    have pos: "(?s - ?w) mod plen \<le> p \<and> (p - (?s - ?w) mod plen) mod plen = 0 \<longleftrightarrow> 0 \<le> p \<and> (?w + p) mod plen = ?s" for p
    proof -
      have "(p - (?s - ?w) mod plen) mod plen = 0 \<longleftrightarrow> p mod plen = (?s - ?w) mod plen"
        by (metis mod_diff_right_eq mod_eq_dvd_iff dvd_eq_mod_eq_0)
      also have "\<dots> \<longleftrightarrow> (?w + p) mod plen = (?w + (?s - ?w)) mod plen"
        by (metis add_diff_cancel_left' mod_add_right_eq mod_diff_left_eq)
      also have "\<dots> \<longleftrightarrow> (?w + p) mod plen = ?s" using assms(1,2) by simp
      finally have e: "(p - (?s - ?w) mod plen) mod plen = 0 \<longleftrightarrow> (?w + p) mod plen = ?s"
        and e': "(p - (?s - ?w) mod plen) mod plen = 0 \<longleftrightarrow> p mod plen = (?s - ?w) mod plen"
        by (simp_all add: \<open>((p - (?s - ?w) mod plen) mod plen = 0) = (p mod plen = (?s - ?w) mod plen)\<close>)
      have "0 \<le> (?s - ?w) mod plen" using plen by simp
      moreover have "(?s - ?w) mod plen \<le> p" if "0 \<le> p" "p mod plen = (?s - ?w) mod plen"
        using that zmod_le_nonneg_dividend [of p plen] by simp
      ultimately show ?thesis using e e' by auto
    qed
    have "set (collectOccurrences n c plen) = {(p, e). 0 \<le> p \<and> p < clip_length c \<and> (?w + p) mod plen = ?s \<and>
        e = min (p + note_length n) (min (p + (plen - ?s)) (clip_length c))}"
    proof (intro set_eqI, clarify)
      fix p e
      have "p < min (p + note_length n) (min (p + (plen - ?s)) (clip_length c))" if "p < clip_length c"
        using assms that by simp
      with pos [of p] show "(p, e) \<in> set (collectOccurrences n c plen) \<longleftrightarrow> (p, e) \<in> {(p, e). 0 \<le> p \<and> p < clip_length c \<and>
          (?w + p) mod plen = ?s \<and> e = min (p + note_length n) (min (p + (plen - ?s)) (clip_length c))}"
        unfolding c occurrence_loop_set [OF plen] mem_Collect_eq prod.case by metis
    qed
    then show ?thesis using True occurrence_loop_apart [OF plen assms(1)] by (simp add: c)
  qed
qed

theorem occurrences_exact_witness:
  "(2880, 3000) \<in> set (collectOccurrences (sample_note 960 36)
     (default_clip\<lparr>clip_length := 3000, clip_transforms := default_transforms\<lparr>tr_loop := True\<rparr>\<rparr>) 1920)"
  using occurrences_exact [of "sample_note 960 36" 1920
    "default_clip\<lparr>clip_length := 3000, clip_transforms := default_transforms\<lparr>tr_loop := True\<rparr>\<rparr>"]
  by (simp add: sample_note_def default_transforms_def)

end
