(* ===== verification/Sounding.thy ===== *)
theory Sounding
  imports Overlaps Flattener_Properties
begin

text \<open>
  Which notes a flattened project sounds: the nested loops of \<open>flatten\<close> collect exactly the
  occurrences the project's structure calls for, with no clip, pattern or instrument that is muted,
  shadowed by a solo, or missing contributing anything.
\<close>

subsection \<open>Loops that append\<close>

lemma fold_appends:
  assumes "\<And>x acc. h (f x acc) = h acc @ g x"
  shows "h (fold f xs acc) = h acc @ concat (map g xs)"
  using assms by (induction xs arbitrary: acc) simp_all

subsection \<open>What each loop adds to the notes\<close>

definition note_hits :: "Clip \<Rightarrow> Pattern \<Rightarrow> ChannelSettings \<Rightarrow> int \<Rightarrow> Note \<Rightarrow> ResolvedNote list" where
  "note_hits clip pat settings index n =
     fa_notes (flatten_note clip pat (patternEffectiveLength pat) settings index n empty_acc)"

definition sequence_hits :: "('a Tables_scheme) \<Rightarrow> FlattenIndex \<Rightarrow> Clip \<Rightarrow> Pattern \<Rightarrow> instrument_id \<times> note_sequence \<Rightarrow> ResolvedNote list" where
  "sequence_hits p fx clip pat = (\<lambda>(iid, s).
     case findInstrument p iid of
       None \<Rightarrow> []
     | Some inst \<Rightarrow>
         if inst_muted inst \<or> (any_instrument_solo p \<and> \<not> inst_soloed inst) then []
         else case om_find (fx_instrument fx) iid of
             None \<Rightarrow> []
           | Some index \<Rightarrow> concat (map (note_hits clip pat (inst_channel_settings inst) index) s))"

definition clip_hits :: "('a Tables_scheme) \<Rightarrow> FlattenIndex \<Rightarrow> clip_id \<Rightarrow> ResolvedNote list" where
  "clip_hits p fx cid =
     (case findClip p cid of
        None \<Rightarrow> []
      | Some clip \<Rightarrow>
          if clip_muted clip \<or> clip_length clip \<le> 0 then []
          else case clip_source clip of
              SrcPattern pid \<Rightarrow>
                (case findPattern p pid of
                   None \<Rightarrow> []
                 | Some pat \<Rightarrow> if patternEffectiveLength pat \<le> 0 then []
                     else concat (map (sequence_hits p fx clip pat) (om_entries (pat_sequences pat))))
            | _ \<Rightarrow> [])"

lemma flatten_note_adds:
  "fa_notes (flatten_note clip pat (patternEffectiveLength pat) settings index n acc) =
     fa_notes acc @ note_hits clip pat settings index n"
  by (simp add: flatten_note_def note_hits_def empty_acc_def Let_def)

lemma flatten_sequence_adds:
  "fa_notes (flatten_sequence p fx clip pat e acc) = fa_notes acc @ sequence_hits p fx clip pat e"
proof (cases e)
  case (Pair iid s)
  have "fa_notes (fold (flatten_note clip pat (patternEffectiveLength pat) st index) s acc) =
      fa_notes acc @ concat (map (note_hits clip pat st index) s)" for st index
    by (rule fold_appends) (rule flatten_note_adds)
  then show ?thesis by (simp add: Pair flatten_sequence_def sequence_hits_def split: option.split)
qed

lemma flatten_automation_adds: "fa_notes (snd (flatten_automation fx clip a acc)) = fa_notes acc"
  by (simp add: flatten_automation_def split: TargetKind.split option.split)

lemma flatten_pattern_adds:
  "fa_notes (flatten_pattern p fx clip pat acc) = fa_notes acc @
     (if patternEffectiveLength pat \<le> 0 then []
      else concat (map (sequence_hits p fx clip pat) (om_entries (pat_sequences pat))))"
proof -
  have "fa_notes (fold (\<lambda>a acc. snd (flatten_automation fx clip a acc)) as acc) = fa_notes acc" for as acc
    using fold_appends [of fa_notes "\<lambda>a acc. snd (flatten_automation fx clip a acc)" "\<lambda>_. []"]
    by (simp add: flatten_automation_adds)
  then show ?thesis
    using fold_appends [of fa_notes "flatten_sequence p fx clip pat", OF flatten_sequence_adds]
    by (simp add: flatten_pattern_def Let_def)
qed

lemma flatten_clip_adds: "fa_notes (flatten_clip p fx cid acc) = fa_notes acc @ clip_hits p fx cid"
proof -
  have "fa_notes (let (found, acc') = flatten_automation fx clip a acc in
      if found then acc'\<lparr>fa_clips_flattened := n acc'\<rparr> else acc') = fa_notes acc" for clip a acc n
    using flatten_automation_adds [of fx clip a acc] by (cases "flatten_automation fx clip a acc") auto
  then show ?thesis
    by (simp add: flatten_clip_def clip_hits_def Let_def flatten_pattern_adds split: option.split ClipSource.split)
qed

lemma collect_notes:
  "fa_notes (collect p fx) = concat (map (\<lambda>lane. concat (map (clip_hits p fx) (clipsOnLane p lane))) (audibleLanes p))"
proof -
  have "fa_notes (fold (flatten_clip p fx) cs acc) = fa_notes acc @ concat (map (clip_hits p fx) cs)" for cs acc
    by (rule fold_appends) (rule flatten_clip_adds)
  then have "fa_notes (collect p fx) = fa_notes empty_acc @
      concat (map (\<lambda>lane. concat (map (clip_hits p fx) (clipsOnLane p lane))) (audibleLanes p))"
    unfolding collect_def by (rule fold_appends)
  then show ?thesis by (simp add: empty_acc_def)
qed

subsection \<open>What sounds\<close>

definition lane_sounds :: "('a Tables_scheme) \<Rightarrow> lane_id \<Rightarrow> bool" where
  "lane_sounds p l \<longleftrightarrow> (\<exists>lane. om_find (lanes p) l = Some lane \<and> \<not> lane_muted lane \<and>
     (lane_soloed lane \<or> (\<forall>other \<in> set (om_values (lanes p)). \<not> lane_soloed other)))"

definition instrument_sounds :: "('a Tables_scheme) \<Rightarrow> instrument_id \<Rightarrow> Instrument \<Rightarrow> bool" where
  "instrument_sounds p i inst \<longleftrightarrow> om_find (instruments p) i = Some inst \<and> \<not> inst_muted inst \<and>
     (inst_soloed inst \<or> (\<forall>other \<in> set (om_values (instruments p)). \<not> inst_soloed other))"

definition played_key :: "Clip \<Rightarrow> Note \<Rightarrow> int" where
  "played_key clip n = note_key n + tr_transpose (clip_transforms clip)"

definition played_note :: "Clip \<Rightarrow> ChannelSettings \<Rightarrow> nat \<Rightarrow> Note \<Rightarrow> ticks \<times> ticks \<Rightarrow> ResolvedNote" where
  "played_note clip settings k n occ =
     \<lparr>rn_start = clip_start clip + fst occ, rn_end = clip_start clip + snd occ, rn_instrument = int k,
      rn_key = played_key clip n,
      rn_velocity = clamp_fp (fmul (velocityToUnit (note_velocity n)) (cs_velocity_tracking settings)) (Fin 0) (Fin 1)\<rparr>"

lemma audible_lane: "l \<in> set (audibleLanes p) \<longleftrightarrow> lane_sounds p l"
proof -
  define any where "any = (\<exists>x \<in> set (om_values (lanes p)). lane_soloed x)"
  have "lane_sounds p l \<longleftrightarrow> (\<exists>lane. om_find (lanes p) l = Some lane \<and> \<not> lane_muted lane \<and> \<not> (any \<and> \<not> lane_soloed lane))"
    unfolding lane_sounds_def any_def by blast
  then show ?thesis by (auto simp: audibleLanes_def Let_def image_iff simp flip: any_def)
qed

lemma assign_indices_find:
  "distinct ks \<Longrightarrow> \<forall>k \<in> set ks. om_find m k = None \<Longrightarrow>
   om_find (fst (fold assign_index ks (m, next))) j =
     (if j \<in> set ks then map_of (zip ks (map (\<lambda>i. next + int i) [0 ..< length ks])) j else om_find m j)"
proof (induction ks arbitrary: m "next")
  case (Cons k ks)
  have z: "zip ks (map (\<lambda>i. next + int i) [1 ..< Suc (length ks)]) = zip ks (map (\<lambda>i. next + 1 + int i) [0 ..< length ks])"
    by (rule arg_cong [of _ _ "zip ks"], rule nth_equalityI) (auto simp del: upt_Suc)
  have e: "zip (k # ks) (map (\<lambda>i. next + int i) [0 ..< length (k # ks)]) =
      (k, next) # zip ks (map (\<lambda>i. next + 1 + int i) [0 ..< length ks])"
    using z by (simp add: upt_conv_Cons del: upt_Suc)
  have "\<forall>i \<in> set ks. om_find (om_emplace k next m) i = None" using Cons.prems by auto
  then show ?case
    unfolding e using Cons.prems Cons.IH [of "om_emplace k next m" "next + 1"]
    by (auto simp: assign_index_def)
qed simp

lemma instrument_index:
  "om_find (fx_instrument (flatten_index p)) i = Some x \<longleftrightarrow>
     (\<exists>k. x = int k \<and> k < om_size (instruments p) \<and> om_keys (instruments p) ! k = i)"
proof -
  let ?ks = "om_keys (instruments p)"
  have "om_find (fx_instrument (flatten_index p)) i = om_find (fst (fold assign_index ?ks (om_empty, 0))) i"
    by (simp add: flatten_index_def assign_indices_def split: prod.split)
  also have "\<dots> = (if i \<in> set ?ks then map_of (zip ?ks (map int [0 ..< length ?ks])) i else None)"
    using assign_indices_find [of ?ks om_empty 0 i] by simp
  finally have f: "om_find (fx_instrument (flatten_index p)) i =
      (if i \<in> set ?ks then map_of (zip ?ks (map int [0 ..< length ?ks])) i else None)" .
  have "map_of (zip ?ks (map int [0 ..< length ?ks])) i = Some x \<longleftrightarrow> (i, x) \<in> set (zip ?ks (map int [0 ..< length ?ks]))"
    by (rule map_of_eq_Some_iff) simp
  also have "\<dots> \<longleftrightarrow> (\<exists>k < length ?ks. ?ks ! k = i \<and> int k = x)" by (auto simp: set_zip)
  finally have "map_of (zip ?ks (map int [0 ..< length ?ks])) i = Some x \<longleftrightarrow> (\<exists>k < length ?ks. ?ks ! k = i \<and> int k = x)" .
  moreover have "i \<in> set ?ks \<longleftrightarrow> (\<exists>k < length ?ks. ?ks ! k = i)" by (simp only: in_set_conv_nth)
  ultimately show ?thesis unfolding f om_keys_length [symmetric] by (metis option.distinct(1))
qed

lemma note_hits_set:
  "r \<in> set (note_hits clip pat settings (int k) n) \<longleftrightarrow>
     0 \<le> played_key clip n \<and> played_key clip n \<le> 127 \<and>
     cs_key_low settings \<le> played_key clip n \<and> played_key clip n \<le> cs_key_high settings \<and>
     (\<exists>occ \<in> set (collectOccurrences (swung_note pat settings n) clip (patternEffectiveLength pat)).
        r = played_note clip settings k n occ)"
proof (cases "0 \<le> played_key clip n \<and> played_key clip n \<le> 127")
  case True
  then have "to_int16 (played_key clip n) = played_key clip n" by (simp add: to_int16_def)
  then show ?thesis using True
    by (auto simp: note_hits_def flatten_note_def Let_def empty_acc_def played_note_def image_iff case_prod_unfold
        simp flip: played_key_def)
next
  case False
  then show ?thesis by (auto simp: note_hits_def flatten_note_def Let_def empty_acc_def simp flip: played_key_def)
qed

lemma no_occurrences: "plen \<le> 0 \<Longrightarrow> collectOccurrences n clip plen = []"
  by (simp add: collectOccurrences_def)

text \<open>Which sequences and which clips a note can come from.\<close>

lemma sequence_hits_set:
  "r \<in> set (sequence_hits p (flatten_index p) clip pat (iid, s)) \<longleftrightarrow>
    (\<exists>inst k n. instrument_sounds p iid inst \<and> k < om_size (instruments p) \<and> om_keys (instruments p) ! k = iid \<and>
       n \<in> set s \<and> r \<in> set (note_hits clip pat (inst_channel_settings inst) (int k) n))"
proof (cases "om_find (instruments p) iid")
  case None
  then show ?thesis by (simp add: sequence_hits_def instrument_sounds_def findInstrument_def)
next
  case (Some inst)
  then obtain k where k: "k < om_size (instruments p)" "om_keys (instruments p) ! k = iid"
    "om_find (fx_instrument (flatten_index p)) iid = Some (int k)"
    using instrument_index [of p iid] by (metis in_set_conv_nth om_keys_length om_keys_set option.distinct(1))
  have u: "k' = k" if "k' < om_size (instruments p)" "om_keys (instruments p) ! k' = iid" for k'
    using that k(1,2) nth_eq_iff_index_eq [of "om_keys (instruments p)" k' k] by (simp add: om_keys_length)
  have solo: "any_instrument_solo p \<longleftrightarrow> \<not> (\<forall>other \<in> set (om_values (instruments p)). \<not> inst_soloed other)"
    by (auto simp: any_instrument_solo_def)
  define ok where "ok \<longleftrightarrow> \<not> inst_muted inst \<and>
    (inst_soloed inst \<or> (\<forall>other \<in> set (om_values (instruments p)). \<not> inst_soloed other))"
  have sounds: "instrument_sounds p iid inst' \<longleftrightarrow> inst' = inst \<and> ok" for inst'
    unfolding instrument_sounds_def ok_def Some by auto
  have c: "(inst_muted inst \<or> (any_instrument_solo p \<and> \<not> inst_soloed inst)) = (\<not> ok)"
    unfolding ok_def solo by blast
  have hits: "sequence_hits p (flatten_index p) clip pat (iid, s) =
      (if ok then concat (map (note_hits clip pat (inst_channel_settings inst) (int k)) s) else [])"
    by (simp add: sequence_hits_def findInstrument_def Some k(3) c)
  have "r \<in> set (sequence_hits p (flatten_index p) clip pat (iid, s)) \<longleftrightarrow>
      ok \<and> (\<exists>n \<in> set s. r \<in> set (note_hits clip pat (inst_channel_settings inst) (int k) n))"
    unfolding hits by auto
  then show ?thesis unfolding sounds using k(1,2) u by blast
qed

lemma clip_hits_set:
  "r \<in> set (clip_hits p (flatten_index p) cid) \<longleftrightarrow>
    (\<exists>clip pid pat iid s. om_find (clips p) cid = Some clip \<and> \<not> clip_muted clip \<and> 0 < clip_length clip \<and>
       clip_source clip = SrcPattern pid \<and> om_find (patterns p) pid = Some pat \<and> 0 < patternEffectiveLength pat \<and>
       om_find (pat_sequences pat) iid = Some s \<and> r \<in> set (sequence_hits p (flatten_index p) clip pat (iid, s)))"
proof (cases "om_find (clips p) cid")
  case None
  then show ?thesis by (simp add: clip_hits_def findClip_def)
next
  case (Some clip)
  show ?thesis
  proof (cases "clip_source clip")
    case (SrcPattern pid)
    show ?thesis
    proof (cases "om_find (patterns p) pid")
      case None
      then show ?thesis using Some SrcPattern by (simp add: clip_hits_def findClip_def findPattern_def)
    next
      case (Some pat)
      have "r \<in> set (concat (map (sequence_hits p (flatten_index p) clip pat) (om_entries (pat_sequences pat)))) \<longleftrightarrow>
          (\<exists>iid s. om_find (pat_sequences pat) iid = Some s \<and> r \<in> set (sequence_hits p (flatten_index p) clip pat (iid, s)))"
        by (auto, blast)
      then show ?thesis using Some SrcPattern \<open>om_find (clips p) cid = Some clip\<close>
        by (simp add: clip_hits_def findClip_def findPattern_def not_le)
    qed
  qed (use Some in \<open>simp_all add: clip_hits_def findClip_def\<close>)
qed


text \<open>
  A consequence the code does not intend: swing or an instrument's shift can move a note's start to
  or past the pattern's effective length, which is computed from the notes as drawn; such a note
  does not sound at all, and is not counted as dropped.
\<close>

lemma late_note_silent:
  assumes "plen \<le> note_start n"
  shows "collectOccurrences n clip plen = []"
proof -
  have "pl \<le> start \<Longrightarrow> occurrence_loop start len clip_len pl pos = []" for start len clip_len pl pos
    by (induction start len clip_len pl pos rule: occurrence_loop.induct) (subst occurrence_loop.simps, simp add: Let_def)
  then show ?thesis using assms by (simp add: collectOccurrences_def Let_def)
qed

lemma shifted_note_silent:
  assumes "patternEffectiveLength pat \<le> swungPosition (note_start n) (pat_swing pat) + cs_shift_ticks settings"
  shows "note_hits clip pat settings index n = [] \<and>
    (0 \<le> played_key clip n \<and> played_key clip n \<le> 127 \<and> cs_key_low settings \<le> played_key clip n \<and>
     played_key clip n \<le> cs_key_high settings \<longrightarrow>
     fa_notes_dropped (flatten_note clip pat (patternEffectiveLength pat) settings index n acc) = fa_notes_dropped acc)"
proof -
  have "collectOccurrences (swung_note pat settings n) clip (patternEffectiveLength pat) = []"
    by (rule late_note_silent) (use assms in \<open>simp add: swung_note_def\<close>)
  then show ?thesis by (auto simp: note_hits_def flatten_note_def Let_def empty_acc_def played_key_def)
qed

end
