(* ===== verification/Mixer_Graph.thy ===== *)
theory Mixer_Graph
  imports Prelude
begin

text \<open>
  The mixer graph the audio thread renders (\<open>core/mixer_graph.h\<close>, \<open>core/mixer_graph.cpp\<close>): nodes
  addressed by dense index, each feeding at most one other, and \<open>finalise\<close>, which sorts them
  into a render order by an explicit-stack depth-first search or refuses a cycle.  The search is
  a partial function (\<open>None\<close> is not returning); that it always returns is proved.
\<close>

definition MaxMixerTracks :: int where "MaxMixerTracks = 64"
definition MaxMixerEffects :: int where "MaxMixerEffects = 256"

record GraphEffect =
  ge_index :: int
  ge_effect_id :: string

record GraphNode =
  gn_output :: int
  gn_effects :: "GraphEffect list"
  gn_track_id :: string

record MixerGraph =
  mg_nodes :: "GraphNode list"
  mg_order :: "nat list"
  mg_master :: int
  mg_effect_count :: int

fun index_loop :: "string \<Rightarrow> nat \<Rightarrow> GraphNode list \<Rightarrow> int" where
  "index_loop track_id i [] = - 1"
| "index_loop track_id i (n # ns) = (if gn_track_id n = track_id then int i else index_loop track_id (Suc i) ns)"

definition indexOf :: "MixerGraph \<Rightarrow> string \<Rightarrow> int" where
  "indexOf g track_id = index_loop track_id 0 (mg_nodes g)"

text \<open>
  The inner \<open>while\<close>: marks are 0 (unvisited), 1 (on the stack), 2 (done).  The result is the
  marks and the post-order, or \<open>None\<close> inside the \<open>Some\<close> for the early \<open>return false\<close>.
\<close>

partial_function (option) dfs_loop ::
  "GraphNode list \<Rightarrow> nat list \<Rightarrow> nat list \<Rightarrow> nat list \<Rightarrow> (nat list \<times> nat list) option option" where
  "dfs_loop nodes marks stack post =
     (case stack of
        [] \<Rightarrow> Some (Some (marks, post))
      | current # rest \<Rightarrow>
          if marks ! current = 2 then dfs_loop nodes marks rest post
          else if marks ! current = 1 then dfs_loop nodes (marks[current := 2]) rest (post @ [current])
          else let marks1 = marks[current := 1]; output = gn_output (nodes ! current) in
            if output < 0 \<or> output \<ge> int (length nodes) then dfs_loop nodes marks1 stack post
            else if marks1 ! nat output = 1 then Some None
            else if marks1 ! nat output = 0 then dfs_loop nodes marks1 (nat output # stack) post
            else dfs_loop nodes marks1 stack post)"

declare dfs_loop.simps [code]

fun dfs_starts :: "GraphNode list \<Rightarrow> nat list \<Rightarrow> nat list \<Rightarrow> nat list \<Rightarrow> (nat list \<times> nat list) option option" where
  "dfs_starts nodes [] marks post = Some (Some (marks, post))"
| "dfs_starts nodes (start # starts) marks post =
     (if marks ! start \<noteq> 0 then dfs_starts nodes starts marks post
      else case dfs_loop nodes marks [start] post of
          None \<Rightarrow> None
        | Some None \<Rightarrow> Some None
        | Some (Some (marks1, post1)) \<Rightarrow> dfs_starts nodes starts marks1 post1)"

fun last_master :: "nat \<Rightarrow> int \<Rightarrow> GraphNode list \<Rightarrow> int" where
  "last_master i found [] = found"
| "last_master i found (n # ns) = last_master (Suc i) (if gn_output n < 0 then int i else found) ns"

definition finalise :: "MixerGraph \<Rightarrow> (bool \<times> MixerGraph) option" where
  "finalise g =
     (let nodes = mg_nodes g;
          g1 = g\<lparr>mg_order := [], mg_master := last_master 0 (- 1) nodes,
            mg_effect_count := (\<Sum>n \<leftarrow> nodes. int (length (gn_effects n)))\<rparr>
      in case dfs_starts nodes [0 ..< length nodes] (replicate (length nodes) 0) [] of
           None \<Rightarrow> None
         | Some None \<Rightarrow> Some (False, g1)
         | Some (Some (marks, reverse)) \<Rightarrow> Some (mg_master g1 \<ge> 0, g1\<lparr>mg_order := rev reverse\<rparr>))"

subsection \<open>The graph\<close>

definition feeds :: "GraphNode list \<Rightarrow> nat rel" where
  "feeds nodes = {(i, out). i < length nodes \<and> out < length nodes \<and> gn_output (nodes ! i) = int out}"

lemma feeds_functional: "(i, a) \<in> feeds nodes \<Longrightarrow> (i, b) \<in> feeds nodes \<Longrightarrow> a = b"
  by (simp add: feeds_def)

lemma feeds_output:
  "i < length nodes \<Longrightarrow> (i, k) \<in> feeds nodes \<longleftrightarrow>
     \<not> (gn_output (nodes ! i) < 0 \<or> gn_output (nodes ! i) \<ge> int (length nodes)) \<and> k = nat (gn_output (nodes ! i))"
  by (auto simp: feeds_def)

text \<open>Everything a node feeds stands before it in the post-order.\<close>

definition post_order :: "GraphNode list \<Rightarrow> nat list \<Rightarrow> bool" where
  "post_order nodes post \<longleftrightarrow> (\<forall>j < length post. \<forall>out. (post ! j, out) \<in> feeds nodes \<longrightarrow> out \<in> set (take j post))"

lemma post_order_snoc:
  "post_order nodes (post @ [c]) \<longleftrightarrow> post_order nodes post \<and> (\<forall>out. (c, out) \<in> feeds nodes \<longrightarrow> out \<in> set post)"
  by (auto simp: post_order_def less_Suc_eq nth_append)

fun chained :: "GraphNode list \<Rightarrow> nat list \<Rightarrow> bool" where
  "chained nodes (a # b # stack) \<longleftrightarrow> (b, a) \<in> feeds nodes \<and> chained nodes (b # stack)"
| "chained nodes _ \<longleftrightarrow> True"

definition top_ok :: "GraphNode list \<Rightarrow> nat list \<Rightarrow> nat list \<Rightarrow> nat list \<Rightarrow> bool" where
  "top_ok nodes marks stack post \<longleftrightarrow>
     (case stack of [] \<Rightarrow> (\<forall>i < length nodes. marks ! i \<noteq> 1)
      | c # rest \<Rightarrow> marks ! c \<noteq> 2 \<and>
          (\<forall>i < length nodes. marks ! i = 1 \<longleftrightarrow> i \<in> set rest \<or> i = c \<and> marks ! c = 1) \<and>
          (marks ! c = 1 \<longrightarrow> (\<forall>out. (c, out) \<in> feeds nodes \<longrightarrow> out \<in> set post)))"

definition dfs_inv :: "GraphNode list \<Rightarrow> nat list \<Rightarrow> nat list \<Rightarrow> nat list \<Rightarrow> bool" where
  "dfs_inv nodes marks stack post \<longleftrightarrow>
     length marks = length nodes \<and> (\<forall>i < length nodes. marks ! i \<le> 2) \<and> set stack \<subseteq> {..< length nodes} \<and>
     distinct stack \<and> (\<forall>i. i \<in> set post \<longleftrightarrow> i < length nodes \<and> marks ! i = 2) \<and> distinct post \<and>
     post_order nodes post \<and> chained nodes stack \<and> top_ok nodes marks stack post"

definition dfs_measure :: "nat list \<Rightarrow> nat" where
  "dfs_measure marks = (\<Sum>m \<leftarrow> marks. 2 - m)"

lemma dfs_measure_update:
  "i < length marks \<Longrightarrow> marks ! i < k \<Longrightarrow> k \<le> 2 \<Longrightarrow> dfs_measure (marks[i := k]) < dfs_measure marks"
proof (induction marks arbitrary: i)
  case (Cons m marks)
  then show ?case by (cases i) (auto simp: dfs_measure_def)
qed simp

lemma chained_path: "chained nodes (a # stack) \<Longrightarrow> x \<in> set stack \<Longrightarrow> (x, a) \<in> (feeds nodes)\<^sup>+"
proof (induction stack arbitrary: a)
  case (Cons b stack)
  then have "(b, a) \<in> feeds nodes" "chained nodes (b # stack)" by simp_all
  with Cons show ?case by (cases "x = b") (auto intro: trancl_into_trancl)
qed simp

subsection \<open>The search returns, with the post-order or a cycle\<close>

definition dfs_good :: "GraphNode list \<Rightarrow> nat set \<Rightarrow> (nat list \<times> nat list) option option \<Rightarrow> bool" where
  "dfs_good nodes seen r \<longleftrightarrow>
     (case r of None \<Rightarrow> False | Some None \<Rightarrow> \<not> acyclic (feeds nodes)
      | Some (Some (marks, post)) \<Rightarrow> dfs_inv nodes marks [] post \<and> seen \<subseteq> set post)"

lemma dfs_good_mono: "dfs_good nodes seen r \<Longrightarrow> seen' \<subseteq> seen \<Longrightarrow> dfs_good nodes seen' r"
  by (auto simp: dfs_good_def split: option.splits)

lemma dfs_inv_parts:
  assumes "dfs_inv nodes marks stack post"
  shows "length marks = length nodes" and "i < length nodes \<Longrightarrow> marks ! i \<le> 2" and "set stack \<subseteq> {..< length nodes}"
    and "distinct stack" and "i \<in> set post \<longleftrightarrow> i < length nodes \<and> marks ! i = 2" and "distinct post"
    and "post_order nodes post" and "chained nodes stack" and "top_ok nodes marks stack post"
  using assms by (simp_all add: dfs_inv_def)

lemma dfs_inv_top:
  assumes "dfs_inv nodes marks (c # rest) post"
  shows "c < length nodes" and "c \<notin> set rest" and "marks ! c \<noteq> 2" and "marks ! c < 2"
    and "i < length nodes \<Longrightarrow> marks ! i = 1 \<longleftrightarrow> i \<in> set rest \<or> i = c \<and> marks ! c = 1"
    and "i \<in> set rest \<Longrightarrow> i < length nodes \<and> marks ! i = 1"
    and "marks ! c = 1 \<Longrightarrow> (c, out) \<in> feeds nodes \<Longrightarrow> out \<in> set post"
proof -
  note p = dfs_inv_parts [OF assms]
  show c: "c < length nodes" and "c \<notin> set rest" using p(3,4) by simp_all
  show two: "marks ! c \<noteq> 2" using p(9) by (simp add: top_ok_def)
  show "marks ! c < 2" using p(2) [OF c] two by simp
  show one: "marks ! i = 1 \<longleftrightarrow> i \<in> set rest \<or> i = c \<and> marks ! c = 1" if "i < length nodes" for i
    using p(9) that by (simp add: top_ok_def)
  show "i < length nodes \<and> marks ! i = 1" if "i \<in> set rest"
    using p(3) that one [of i] by auto
  show "marks ! c = 1 \<Longrightarrow> (c, out) \<in> feeds nodes \<Longrightarrow> out \<in> set post" using p(9) by (simp add: top_ok_def)
qed

lemma dfs_inv_finish:
  assumes "dfs_inv nodes marks (c # rest) post" and "marks ! c = 1"
  shows "dfs_inv nodes (marks[c := 2]) rest (post @ [c])"
proof -
  note p = dfs_inv_parts [OF assms(1)] and t = dfs_inv_top [OF assms(1)]
  let ?m = "marks[c := 2]"
  have m: "?m ! i = (if i = c then 2 else marks ! i)" if "i < length nodes" for i
    using that p(1) by (simp add: nth_list_update)
  have top: "top_ok nodes ?m rest (post @ [c])"
  proof (cases rest)
    case Nil
    then show ?thesis using t(5) by (auto simp: top_ok_def m)
  next
    case (Cons b rest')
    then have b: "b < length nodes" "marks ! b = 1" "b \<noteq> c" "b \<notin> set rest'" using t(2) t(6) [of b] p(4) by auto
    have "(b, c) \<in> feeds nodes" using p(8) Cons by simp
    then have "\<forall>out. (b, out) \<in> feeds nodes \<longrightarrow> out \<in> set (post @ [c])" using feeds_functional by auto
    moreover have "?m ! i = 1 \<longleftrightarrow> i \<in> set rest' \<or> i = b \<and> ?m ! b = 1" if "i < length nodes" for i
      using t(5) [OF that] t(2) b Cons that by (auto simp: m)
    ultimately show ?thesis using b Cons by (simp add: top_ok_def m)
  qed
  have fin: "i \<in> set (post @ [c]) \<longleftrightarrow> i < length nodes \<and> ?m ! i = 2" for i
    using p(5) [of i] t(1) by (auto simp: m)
  have new: "c \<notin> set post" using p(5) [of c] assms(2) by simp
  have order: "post_order nodes (post @ [c])" using p(7) t(7) [OF assms(2)] by (simp add: post_order_snoc)
  have chain: "chained nodes rest" using p(8) by (cases rest) simp_all
  have le: "\<forall>i < length nodes. ?m ! i \<le> 2" using p(2) by (simp add: m)
  show ?thesis unfolding dfs_inv_def using p(1,3,4,6) top fin new order chain le by (intro conjI) simp_all
qed

lemma dfs_inv_visit:
  assumes "dfs_inv nodes marks (c # rest) post" and "marks ! c = 0"
    and "\<forall>out. (c, out) \<in> feeds nodes \<longrightarrow> out \<in> set post"
  shows "dfs_inv nodes (marks[c := 1]) (c # rest) post"
proof -
  note p = dfs_inv_parts [OF assms(1)] and t = dfs_inv_top [OF assms(1)]
  define ms where "ms = marks[c := 1]"
  have m: "ms ! i = (if i = c then 1 else marks ! i)" if "i < length nodes" for i
    using that p(1) by (simp add: ms_def nth_list_update)
  have one: "ms ! i = 1 \<longleftrightarrow> i \<in> set rest \<or> i = c" if "i < length nodes" for i
    using t(5) [OF that] that assms(2) by (auto simp: m)
  have top: "top_ok nodes ms (c # rest) post" using assms(3) t(1) one by (simp add: top_ok_def m)
  have fin: "i \<in> set post \<longleftrightarrow> i < length nodes \<and> ms ! i = 2" for i
    using p(5) [of i] t(1) assms(2) by (auto simp: m split: if_splits)
  have le: "\<forall>i < length nodes. ms ! i \<le> 2" using p(2) by (simp add: m)
  show ?thesis unfolding dfs_inv_def ms_def [symmetric] using length_list_update [of marks c 1] p(1,3,4,6,7,8) top ms_def fin le by (intro conjI) simp_all
qed

lemma dfs_inv_push:
  assumes "dfs_inv nodes marks (c # rest) post" and "marks ! c = 0"
    and "(c, out) \<in> feeds nodes" and "marks[c := 1] ! out = 0"
  shows "dfs_inv nodes (marks[c := 1]) (out # c # rest) post"
proof -
  note p = dfs_inv_parts [OF assms(1)] and t = dfs_inv_top [OF assms(1)]
  define ms where "ms = marks[c := 1]"
  have m: "ms ! i = (if i = c then 1 else marks ! i)" if "i < length nodes" for i
    using that p(1) by (simp add: ms_def nth_list_update)
  have out: "out < length nodes" using assms(3) by (simp add: feeds_def)
  then have new: "out \<noteq> c" "out \<notin> set rest" using assms(4) [folded ms_def] t(6) [of out] by (auto simp: m split: if_splits)
  have one: "ms ! i = 1 \<longleftrightarrow> i \<in> set (c # rest)" if "i < length nodes" for i
    using t(5) [OF that] that assms(2) by (auto simp: m)
  have top: "top_ok nodes ms (out # c # rest) post" using one assms(4) [folded ms_def] by (simp add: top_ok_def)
  have fin: "i \<in> set post \<longleftrightarrow> i < length nodes \<and> ms ! i = 2" for i
    using p(5) [of i] t(1) assms(2) by (auto simp: m split: if_splits)
  have le: "\<forall>i < length nodes. ms ! i \<le> 2" using p(2) by (simp add: m)
  show ?thesis unfolding dfs_inv_def ms_def [symmetric] using length_list_update [of marks c 1] p(1,3,4,6,7,8) top ms_def fin le new out assms(3) by (intro conjI) simp_all
qed

lemma dfs_loop_good:
  assumes "dfs_inv nodes marks stack post"
  shows "dfs_good nodes (set post \<union> set stack) (dfs_loop nodes marks stack post)"
  using assms
proof (induction "dfs_measure marks" arbitrary: marks stack post rule: less_induct)
  case less
  show ?case
  proof (cases stack)
    case Nil
    then show ?thesis using less.prems by (subst dfs_loop.simps) (simp add: dfs_good_def)
  next
    case (Cons c rest)
    note inv = less.prems [unfolded Cons]
    note t = dfs_inv_top [OF inv]
    let ?out = "gn_output (nodes ! c)"
    consider (finished) "marks ! c = 1" | (visit) "marks ! c = 0" using t(4) by linarith
    then show ?thesis
    proof cases
      case finished
      have "dfs_measure (marks[c := 2]) < dfs_measure marks"
        by (rule dfs_measure_update) (use t(1) dfs_inv_parts(1) [OF inv] finished in simp_all)
      from less.hyps [OF this dfs_inv_finish [OF inv finished]]
      have "dfs_good nodes (insert c (set post) \<union> set rest) (dfs_loop nodes (marks[c := 2]) rest (post @ [c]))"
        by simp
      moreover have "dfs_loop nodes marks stack post = dfs_loop nodes (marks[c := 2]) rest (post @ [c])"
        unfolding Cons using finished by (subst dfs_loop.simps) simp
      ultimately show ?thesis using Cons by (auto elim: dfs_good_mono)
    next
      case visit
      let ?m = "marks[c := 1]"
      have less: "dfs_measure ?m < dfs_measure marks"
        by (rule dfs_measure_update) (use t(1) dfs_inv_parts(1) [OF inv] visit in simp_all)
      have stay: "dfs_good nodes (set post \<union> set stack) (dfs_loop nodes ?m stack post)"
        if "\<forall>out. (c, out) \<in> feeds nodes \<longrightarrow> out \<in> set post"
        using less.hyps [OF less dfs_inv_visit [OF inv visit that]] Cons by simp
      note step = dfs_loop.simps [of nodes marks "c # rest" post]
      show ?thesis
      proof (cases "?out < 0 \<or> ?out \<ge> int (length nodes)")
        case True
        then show ?thesis using stay feeds_output [OF t(1)] visit Cons step by (auto simp: Let_def)
      next
        case False
        then have edge: "(c, nat ?out) \<in> feeds nodes" using feeds_output [OF t(1)] by simp
        then have lt: "nat ?out < length nodes" by (simp add: feeds_def)
        have m: "?m ! nat ?out = (if nat ?out = c then 1 else marks ! nat ?out)"
          using lt dfs_inv_parts(1) [OF inv] by (simp add: nth_list_update)
        then have "?m ! nat ?out \<le> 2" using dfs_inv_parts(2) [OF inv lt] by simp
        then consider (zero) "?m ! nat ?out = 0" | (one) "?m ! nat ?out = 1" | (two) "?m ! nat ?out = 2" by linarith
        then show ?thesis
        proof cases
          case zero
          have "dfs_loop nodes marks stack post = dfs_loop nodes ?m (nat ?out # stack) post"
            unfolding Cons using step visit False zero by (simp add: Let_def)
          then show ?thesis
            using less.hyps [OF less dfs_inv_push [OF inv visit edge zero]] Cons by (auto elim: dfs_good_mono)
        next
          case one
          have "nat ?out = c \<or> nat ?out \<in> set rest"
          proof (cases "nat ?out = c")
            case False
            then have "marks ! nat ?out = 1" using one m by metis
            with t(5) [OF lt] False show ?thesis by metis
          qed blast
          then have "(nat ?out, c) \<in> (feeds nodes)\<^sup>*"
            using chained_path [OF dfs_inv_parts(8) [OF inv]] by (auto intro: trancl_into_rtrancl)
          then have "\<not> acyclic (feeds nodes)" using edge by (auto simp: acyclic_def dest: rtrancl_into_trancl2 rtrancl_into_trancl1)
          then show ?thesis unfolding Cons using step visit False one by (simp add: Let_def dfs_good_def)
        next
          case two
          have "nat ?out \<in> set post" using two [unfolded m] dfs_inv_parts(5) [OF inv] lt by (auto split: if_splits)
          then have "\<forall>out. (c, out) \<in> feeds nodes \<longrightarrow> out \<in> set post" using edge feeds_functional by blast
          from stay [OF this] show ?thesis unfolding Cons using step visit False two by (simp add: Let_def)
        qed
      qed
    qed
  qed
qed


lemma dfs_starts_good:
  assumes "dfs_inv nodes marks [] post" and "set starts \<subseteq> {..< length nodes}"
  shows "dfs_good nodes (set post \<union> set starts) (dfs_starts nodes starts marks post)"
  using assms
proof (induction starts arbitrary: marks post)
  case (Cons start starts)
  have start: "start < length nodes" using Cons.prems(2) by simp
  note p = dfs_inv_parts [OF Cons.prems(1)]
  show ?case
  proof (cases "marks ! start = 0")
    case True
    have "dfs_inv nodes marks [start] post"
      unfolding dfs_inv_def using p start True by (simp add: top_ok_def)
    from dfs_loop_good [OF this]
    have good: "dfs_good nodes (insert start (set post)) (dfs_loop nodes marks [start] post)" by simp
    then consider (cycle) "dfs_loop nodes marks [start] post = Some None" "\<not> acyclic (feeds nodes)"
      | (ok) m q where "dfs_loop nodes marks [start] post = Some (Some (m, q))" "dfs_inv nodes m [] q"
          "insert start (set post) \<subseteq> set q"
      by (auto simp: dfs_good_def split: option.splits)
    then show ?thesis
    proof cases
      case cycle
      then show ?thesis using True by (simp add: dfs_good_def)
    next
      case ok
      then have "dfs_good nodes (set q \<union> set starts) (dfs_starts nodes starts m q)"
        using Cons.IH Cons.prems(2) by simp
      then show ?thesis using True ok by (auto elim: dfs_good_mono)
    qed
  next
    case False
    then have "marks ! start = 2" using p(2) [OF start] p(9) start by (auto simp: top_ok_def less_Suc_eq numeral_2_eq_2)
    then have "start \<in> set post" using p(5) start by simp
    moreover have "dfs_good nodes (set post \<union> set starts) (dfs_starts nodes starts marks post)"
      using Cons by simp
    ultimately show ?thesis using False by (auto elim: dfs_good_mono)
  qed
qed (simp add: dfs_good_def)

lemma position_nth: "distinct xs \<Longrightarrow> j < length xs \<Longrightarrow> length (takeWhile (\<lambda>y. y \<noteq> xs ! j) xs) = j"
proof (induction xs arbitrary: j)
  case (Cons x xs)
  then show ?case by (cases j) auto
qed simp

lemma post_order_acyclic:
  assumes "post_order nodes post" and "distinct post" and "set post = {..< length nodes}"
  shows "acyclic (feeds nodes)"
proof -
  let ?pos = "\<lambda>i. length (takeWhile (\<lambda>y. y \<noteq> i) post)"
  have "?pos out < ?pos i" if "(i, out) \<in> feeds nodes" for i out
  proof -
    have "i \<in> set post" using that assms(3) by (auto simp: feeds_def)
    then obtain j where j: "j < length post" "post ! j = i" by (auto simp: in_set_conv_nth)
    then have "out \<in> set (take j post)" using assms(1) that by (auto simp: post_order_def)
    then obtain k where k: "k < j" "post ! k = out" by (auto simp: in_set_conv_nth)
    show ?thesis using position_nth [OF assms(2), of j] position_nth [OF assms(2), of k] j k by simp
  qed
  then have "(feeds nodes)\<inverse> \<subseteq> measure ?pos" by auto
  then have "wf ((feeds nodes)\<inverse>)" by (rule wf_subset [OF wf_measure])
  then show ?thesis using wf_acyclic acyclic_converse by blast
qed

lemma last_master_range:
  "last_master i found ns = found \<and> (\<forall>n \<in> set ns. 0 \<le> gn_output n) \<or>
   (\<exists>k < length ns. last_master i found ns = int (i + k) \<and> gn_output (ns ! k) < 0)"
proof (induction ns arbitrary: i found)
  case (Cons n ns)
  show ?case using Cons.IH [of "Suc i" "if gn_output n < 0 then int i else found"]
  proof (elim disjE conjE exE)
    fix k assume k: "k < length ns" "gn_output (ns ! k) < 0"
      "last_master (Suc i) (if gn_output n < 0 then int i else found) ns = int (Suc i + k)"
    then show ?thesis by (intro disjI2 exI [of _ "Suc k"]) simp
  next
    assume "last_master (Suc i) (if gn_output n < 0 then int i else found) ns = (if gn_output n < 0 then int i else found)"
      "\<forall>n \<in> set ns. 0 \<le> gn_output n"
    then show ?thesis by (cases "gn_output n < 0") (auto intro!: exI [of _ 0])
  qed
qed simp

text \<open>
  Claim C15.  \<open>finalise\<close> always returns.  It accepts the graph exactly when no track feeds itself,
  directly or through others, and some track feeds the device; an accepted graph's order lists
  every track exactly once with every track before the one it feeds, so a bus is complete when it
  is rendered, and the recorded master is a track that feeds the device.
\<close>

theorem finalise_sorts:
  "\<exists>ok g'. finalise g = Some (ok, g') \<and> mg_nodes g' = mg_nodes g \<and>
     (ok \<longleftrightarrow> acyclic (feeds (mg_nodes g)) \<and> (\<exists>n \<in> set (mg_nodes g). gn_output n < 0)) \<and>
     (if ok then distinct (mg_order g') \<and> set (mg_order g') = {..< length (mg_nodes g)} \<and>
         (\<forall>(i, out) \<in> feeds (mg_nodes g). \<exists>us vs. mg_order g' = us @ i # vs \<and> out \<in> set vs) \<and>
         gn_output (mg_nodes g ! nat (mg_master g')) < 0
      else mg_order g' = [] \<or> mg_master g' = - 1)"
proof -
  let ?ns = "mg_nodes g"
  let ?r = "dfs_starts ?ns [0 ..< length ?ns] (replicate (length ?ns) 0) []"
  have start: "dfs_inv ?ns (replicate (length ?ns) 0) [] []"
    by (simp add: dfs_inv_def post_order_def top_ok_def)
  have good: "dfs_good ?ns {..< length ?ns} ?r"
    using dfs_starts_good [OF start, of "[0 ..< length ?ns]"] by (simp add: atLeast0LessThan)
  let ?m = "last_master 0 (- 1) ?ns"
  have master: "0 \<le> ?m \<longleftrightarrow> (\<exists>n \<in> set ?ns. gn_output n < 0)" "0 \<le> ?m \<Longrightarrow> gn_output (?ns ! nat ?m) < 0"
    "\<not> 0 \<le> ?m \<Longrightarrow> ?m = - 1"
    using last_master_range [of 0 "- 1" ?ns] by (auto dest: nth_mem)
  from good consider (cycle) "?r = Some None" "\<not> acyclic (feeds ?ns)"
    | (ok) marks post where "?r = Some (Some (marks, post))" "dfs_inv ?ns marks [] post" "{..< length ?ns} \<subseteq> set post"
    by (auto simp: dfs_good_def split: option.splits)
  then show ?thesis
  proof cases
    case cycle
    then show ?thesis by (auto simp: finalise_def Let_def)
  next
    case ok
    note p = dfs_inv_parts [OF ok(2)]
    have all: "set post = {..< length ?ns}" using ok(3) p(5) by auto
    have acyc: "acyclic (feeds ?ns)" by (rule post_order_acyclic [OF p(7,6) all])
    have "\<exists>us vs. rev post = us @ i # vs \<and> out \<in> set vs" if "(i, out) \<in> feeds ?ns" for i out
    proof -
      have "i \<in> set post" using that all by (auto simp: feeds_def)
      then obtain j where j: "j < length post" "post ! j = i" by (auto simp: in_set_conv_nth)
      then have "out \<in> set (take j post)" using p(7) that by (auto simp: post_order_def)
      moreover have "rev post = rev (drop (Suc j) post) @ i # rev (take j post)"
        using id_take_nth_drop [OF j(1)] j(2) by (metis append.assoc append_Cons append_Nil rev.simps(2) rev_append)
      ultimately show ?thesis by (metis set_rev)
    qed
    then show ?thesis using ok(1) acyc master p(6) all by (auto simp: finalise_def Let_def)
  qed
qed

definition sample_graph :: MixerGraph where
  "sample_graph = \<lparr>mg_nodes = [\<lparr>gn_output = - 1, gn_effects = [], gn_track_id = ''master''\<rparr>,
     \<lparr>gn_output = 0, gn_effects = [\<lparr>ge_index = 0, ge_effect_id = ''e''\<rparr>], gn_track_id = ''bus''\<rparr>,
     \<lparr>gn_output = 1, gn_effects = [], gn_track_id = ''kick''\<rparr>], mg_order = [], mg_master = - 1, mg_effect_count = 0\<rparr>"

theorem finalise_sorts_witness:
  "finalise sample_graph = Some (True, sample_graph\<lparr>mg_order := [2, 1, 0], mg_master := 0, mg_effect_count := 1\<rparr>) \<and>
   acyclic (feeds (mg_nodes sample_graph))"
proof -
  have r: "finalise sample_graph = Some (True, sample_graph\<lparr>mg_order := [2, 1, 0], mg_master := 0, mg_effect_count := 1\<rparr>)"
    by code_simp
  then show ?thesis using finalise_sorts [of sample_graph] by simp
qed

end
