(* ===== verification/Ring.thy ===== *)
theory Ring
  imports Prelude "HOL-Library.Sublist"
begin

text \<open>
  The bounded lock-free ring (\<open>core/rt/mpsc_ring.h\<close>), which carries commands to the audio thread
  and events and log records away from it.  One step is one access to shared memory: a producer or
  the consumer moves from one point of its loop to the next, and the threads interleave in any
  order.  The loads and stores of a cell's \<open>sequence\<close> are acquire and release, so the plain
  accesses to its \<open>data\<close> are ordered by them; the relaxed positions are only compared and
  incremented atomically.  Positions are natural numbers: a \<open>size_t\<close> wraps after \<open>2 ^ 64\<close> operations.
\<close>

subsection \<open>Cells and threads\<close>

record 'a Cell =
  cell_sequence :: nat
  cell_data :: 'a

record 'a MpscRing =
  rg_cells :: "'a Cell list"
  rg_enqueue_pos :: nat
  rg_dequeue_pos :: nat

definition new_ring :: "nat \<Rightarrow> 'a \<Rightarrow> 'a MpscRing" where
  "new_ring capacity d =
     \<lparr>rg_cells = map (\<lambda>i. \<lparr>cell_sequence = i, cell_data = d\<rparr>) [0 ..< capacity], rg_enqueue_pos = 0, rg_dequeue_pos = 0\<rparr>"

definition ring_capacity :: "'a MpscRing \<Rightarrow> nat" where
  "ring_capacity r = length (rg_cells r)"

text \<open>\<open>pos & Mask\<close>, the capacity being a power of two.\<close>

definition slot :: "'a MpscRing \<Rightarrow> nat \<Rightarrow> nat" where
  "slot r pos = pos mod ring_capacity r"

definition cell_at :: "'a MpscRing \<Rightarrow> nat \<Rightarrow> 'a Cell" where
  "cell_at r pos = rg_cells r ! slot r pos"

definition write_data :: "nat \<Rightarrow> 'a \<Rightarrow> 'a MpscRing \<Rightarrow> 'a MpscRing" where
  "write_data pos v r = r\<lparr>rg_cells := (rg_cells r)[slot r pos := (cell_at r pos)\<lparr>cell_data := v\<rparr>]\<rparr>"

definition write_sequence :: "nat \<Rightarrow> nat \<Rightarrow> 'a MpscRing \<Rightarrow> 'a MpscRing" where
  "write_sequence pos seq r = r\<lparr>rg_cells := (rg_cells r)[slot r pos := (cell_at r pos)\<lparr>cell_sequence := seq\<rparr>]\<rparr>"

text \<open>
  Where a producer is in \<open>tryPush\<close>: about to load the position, about to load the cell's sequence,
  about to act on it, claimed (about to write the data), written (about to publish), returned.
\<close>

datatype 'a push_pc = PushStart 'a | PushAt 'a nat | PushSeen 'a nat nat | PushClaimed 'a nat | PushWritten nat
  | PushReturn bool

text \<open>\<open>weak\<close> is a spurious failure of \<open>compare_exchange_weak\<close>, which reloads the position.\<close>

fun push_next :: "bool \<Rightarrow> 'a push_pc \<Rightarrow> 'a MpscRing \<Rightarrow> 'a push_pc \<times> 'a MpscRing" where
  "push_next weak (PushStart v) r = (PushAt v (rg_enqueue_pos r), r)"
| "push_next weak (PushAt v pos) r = (PushSeen v pos (cell_sequence (cell_at r pos)), r)"
| "push_next weak (PushSeen v pos seq) r =
     (if seq = pos then
        (if rg_enqueue_pos r = pos \<and> \<not> weak then (PushClaimed v pos, r\<lparr>rg_enqueue_pos := pos + 1\<rparr>)
         else (PushAt v (rg_enqueue_pos r), r))
      else if seq < pos then (PushReturn False, r)
      else (PushAt v (rg_enqueue_pos r), r))"
| "push_next weak (PushClaimed v pos) r = (PushWritten pos, write_data pos v r)"
| "push_next weak (PushWritten pos) r = (PushReturn True, write_sequence pos (pos + 1) r)"
| "push_next weak (PushReturn ok) r = (PushReturn ok, r)"

datatype 'a pop_pc = PopStart | PopAt nat | PopSeen nat nat | PopClaimed nat | PopRead nat 'a | PopReturn "'a option"

fun pop_next :: "bool \<Rightarrow> 'a pop_pc \<Rightarrow> 'a MpscRing \<Rightarrow> 'a pop_pc \<times> 'a MpscRing" where
  "pop_next weak PopStart r = (PopAt (rg_dequeue_pos r), r)"
| "pop_next weak (PopAt pos) r = (PopSeen pos (cell_sequence (cell_at r pos)), r)"
| "pop_next weak (PopSeen pos seq) r =
     (if seq = pos + 1 then
        (if rg_dequeue_pos r = pos \<and> \<not> weak then (PopClaimed pos, r\<lparr>rg_dequeue_pos := pos + 1\<rparr>)
         else (PopAt (rg_dequeue_pos r), r))
      else if seq < pos + 1 then (PopReturn None, r)
      else (PopAt (rg_dequeue_pos r), r))"
| "pop_next weak (PopClaimed pos) r = (PopRead pos (cell_data (cell_at r pos)), r)"
| "pop_next weak (PopRead pos v) r = (PopReturn (Some v), write_sequence pos (pos + ring_capacity r) r)"
| "pop_next weak (PopReturn res) r = (PopReturn res, r)"

subsection \<open>Interleavings\<close>

text \<open>
  The producers are numbered; \<open>rs_claimed\<close> and \<open>rs_popped\<close> record the history: every claim of a
  position with its producer, and every value the consumer read.
\<close>

record 'a ring_state =
  rs_ring :: "'a MpscRing"
  rs_push :: "nat \<Rightarrow> 'a push_pc"
  rs_pop :: "'a pop_pc"
  rs_claimed :: "(nat \<times> 'a) list"
  rs_popped :: "'a list"

definition initial_state :: "nat \<Rightarrow> 'a \<Rightarrow> 'a ring_state" where
  "initial_state capacity d = \<lparr>rs_ring = new_ring capacity d, rs_push = (\<lambda>t. PushReturn False),
     rs_pop = PopReturn None, rs_claimed = [], rs_popped = []\<rparr>"

datatype 'a ring_move = CallPush nat 'a | StepPush nat bool | CallPop | StepPop bool

fun claims :: "nat \<Rightarrow> 'a push_pc \<Rightarrow> 'a push_pc \<Rightarrow> (nat \<times> 'a) list" where
  "claims t (PushSeen v pos seq) (PushClaimed w pos') = [(t, v)]"
| "claims t pc pc' = []"

fun reads :: "'a pop_pc \<Rightarrow> 'a pop_pc \<Rightarrow> 'a list" where
  "reads (PopClaimed pos) (PopRead pos' v) = [v]"
| "reads pc pc' = []"

fun ring_step :: "'a ring_move \<Rightarrow> 'a ring_state \<Rightarrow> 'a ring_state" where
  "ring_step (CallPush t v) s =
     (case rs_push s t of PushReturn ok \<Rightarrow> s\<lparr>rs_push := (rs_push s)(t := PushStart v)\<rparr> | _ \<Rightarrow> s)"
| "ring_step (StepPush t weak) s =
     (let (pc, r) = push_next weak (rs_push s t) (rs_ring s)
      in s\<lparr>rs_ring := r, rs_push := (rs_push s)(t := pc), rs_claimed := rs_claimed s @ claims t (rs_push s t) pc\<rparr>)"
| "ring_step CallPop s = (case rs_pop s of PopReturn res \<Rightarrow> s\<lparr>rs_pop := PopStart\<rparr> | _ \<Rightarrow> s)"
| "ring_step (StepPop weak) s =
     (let (pc, r) = pop_next weak (rs_pop s) (rs_ring s)
      in s\<lparr>rs_ring := r, rs_pop := pc, rs_popped := rs_popped s @ reads (rs_pop s) pc\<rparr>)"

subsection \<open>The invariant\<close>

lemma ring_shape [simp]:
  "ring_capacity (write_data p v r) = ring_capacity r" "ring_capacity (write_sequence p q r) = ring_capacity r"
  "slot (write_data p v r) = slot r" "slot (write_sequence p q r) = slot r"
  "rg_enqueue_pos (write_data p v r) = rg_enqueue_pos r" "rg_enqueue_pos (write_sequence p q r) = rg_enqueue_pos r"
  "rg_dequeue_pos (write_data p v r) = rg_dequeue_pos r" "rg_dequeue_pos (write_sequence p q r) = rg_dequeue_pos r"
  "ring_capacity (r\<lparr>rg_enqueue_pos := x\<rparr>) = ring_capacity r" "ring_capacity (r\<lparr>rg_dequeue_pos := x\<rparr>) = ring_capacity r"
  "cell_at (r\<lparr>rg_enqueue_pos := x\<rparr>) = cell_at r" "cell_at (r\<lparr>rg_dequeue_pos := x\<rparr>) = cell_at r"
  by (auto simp: ring_capacity_def slot_def write_data_def write_sequence_def cell_at_def fun_eq_iff)

lemma cell_after_write:
  assumes "0 < ring_capacity r"
  shows "cell_at (write_data p v r) x = (if slot r x = slot r p then (cell_at r p)\<lparr>cell_data := v\<rparr> else cell_at r x)"
    and "cell_at (write_sequence p q r) x = (if slot r x = slot r p then (cell_at r p)\<lparr>cell_sequence := q\<rparr> else cell_at r x)"
proof -
  have "slot r p < length (rg_cells r)" using assms by (simp add: slot_def ring_capacity_def)
  then show "cell_at (write_data p v r) x = (if slot r x = slot r p then (cell_at r p)\<lparr>cell_data := v\<rparr> else cell_at r x)"
    and "cell_at (write_sequence p q r) x = (if slot r x = slot r p then (cell_at r p)\<lparr>cell_sequence := q\<rparr> else cell_at r x)"
    by (simp_all add: cell_at_def write_data_def write_sequence_def slot_def ring_capacity_def nth_list_update)
qed

lemma same_slot:
  assumes "f \<le> p" "p < f + ring_capacity r" "f \<le> q" "q < f + ring_capacity r"
  shows "slot r p = slot r q \<longleftrightarrow> p = q"
proof
  assume "slot r p = slot r q"
  then have "int p mod int (ring_capacity r) = int q mod int (ring_capacity r)"
    by (simp add: slot_def flip: of_nat_mod)
  then have "int (ring_capacity r) dvd int p - int q" by (rule mod_eq_dvd_iff [THEN iffD1])
  moreover have "\<bar>int p - int q\<bar> < int (ring_capacity r)" using assms by linarith
  ultimately show "p = q" using dvd_imp_le_int [of "int p - int q" "int (ring_capacity r)"] by force
qed simp

lemma slot_wraps [simp]: "slot r (p + ring_capacity r) = slot r p"
  by (simp add: slot_def)

text \<open>The position the consumer has claimed and not released, and the one a producer has claimed.\<close>

fun held :: "'a pop_pc \<Rightarrow> nat" where
  "held (PopClaimed pos) = 1" | "held (PopRead pos v) = 1" | "held pc = 0"

fun busy :: "'a push_pc \<Rightarrow> nat option" where
  "busy (PushClaimed v pos) = Some pos" | "busy (PushWritten pos) = Some pos" | "busy pc = None"

fun pending_read :: "'a pop_pc \<Rightarrow> nat" where
  "pending_read (PopClaimed pos) = 1" | "pending_read pc = 0"

definition counts_ok :: "'a ring_state \<Rightarrow> nat \<Rightarrow> bool" where
  "counts_ok s f \<longleftrightarrow>
     (let r = rs_ring s; e = rg_enqueue_pos r; d = rg_dequeue_pos r in
      2 \<le> ring_capacity r \<and> e = length (rs_claimed s) \<and> f + held (rs_pop s) = d \<and> d \<le> e \<and>
      e \<le> f + ring_capacity r \<and> length (rs_popped s) + pending_read (rs_pop s) = d \<and>
      prefix (rs_popped s) (map snd (rs_claimed s)))"

definition window_ok :: "'a ring_state \<Rightarrow> nat \<Rightarrow> bool" where
  "window_ok s f \<longleftrightarrow>
     (\<forall>p. f \<le> p \<and> p < f + ring_capacity (rs_ring s) \<longrightarrow>
        cell_sequence (cell_at (rs_ring s) p) =
          (if p < rg_enqueue_pos (rs_ring s) \<and> (\<forall>t. busy (rs_push s t) \<noteq> Some p) then p + 1 else p) \<and>
        (p < rg_enqueue_pos (rs_ring s) \<longrightarrow> (\<forall>t v. rs_push s t \<noteq> PushClaimed v p) \<longrightarrow>
          cell_data (cell_at (rs_ring s) p) = snd (rs_claimed s ! p)))"

fun push_ok :: "'a ring_state \<Rightarrow> nat \<Rightarrow> nat \<Rightarrow> 'a push_pc \<Rightarrow> bool" where
  "push_ok s f t (PushAt v pos) \<longleftrightarrow> pos \<le> rg_enqueue_pos (rs_ring s)"
| "push_ok s f t (PushSeen v pos seq) \<longleftrightarrow> pos \<le> rg_enqueue_pos (rs_ring s) \<and> (seq = pos \<longrightarrow> pos < f + ring_capacity (rs_ring s))"
| "push_ok s f t (PushClaimed v pos) \<longleftrightarrow>
     rg_dequeue_pos (rs_ring s) \<le> pos \<and> pos < rg_enqueue_pos (rs_ring s) \<and> rs_claimed s ! pos = (t, v)"
| "push_ok s f t (PushWritten pos) \<longleftrightarrow>
     rg_dequeue_pos (rs_ring s) \<le> pos \<and> pos < rg_enqueue_pos (rs_ring s) \<and> fst (rs_claimed s ! pos) = t"
| "push_ok s f t pc \<longleftrightarrow> True"

fun pop_ok :: "'a ring_state \<Rightarrow> 'a pop_pc \<Rightarrow> bool" where
  "pop_ok s (PopAt pos) \<longleftrightarrow> pos = rg_dequeue_pos (rs_ring s)"
| "pop_ok s (PopSeen pos seq) \<longleftrightarrow> pos = rg_dequeue_pos (rs_ring s) \<and>
     (seq = pos + 1 \<longrightarrow> pos < rg_enqueue_pos (rs_ring s) \<and> (\<forall>t. busy (rs_push s t) \<noteq> Some pos))"
| "pop_ok s (PopClaimed pos) \<longleftrightarrow> pos + 1 = rg_dequeue_pos (rs_ring s)"
| "pop_ok s (PopRead pos v) \<longleftrightarrow> pos + 1 = rg_dequeue_pos (rs_ring s)"
| "pop_ok s pc \<longleftrightarrow> True"

definition ring_inv :: "'a ring_state \<Rightarrow> nat \<Rightarrow> bool" where
  "ring_inv s f \<longleftrightarrow> counts_ok s f \<and> window_ok s f \<and> (\<forall>t. push_ok s f t (rs_push s t)) \<and> pop_ok s (rs_pop s)"

lemma initial_inv: "2 \<le> n \<Longrightarrow> ring_inv (initial_state n d) 0"
  by (auto simp: ring_inv_def counts_ok_def window_ok_def initial_state_def new_ring_def ring_capacity_def
      cell_at_def slot_def Let_def)

text \<open>What a claim at a position says about the others.\<close>

lemma busy_claimed:
  assumes "ring_inv s f" and "busy (rs_push s t) = Some p"
  shows "rg_dequeue_pos (rs_ring s) \<le> p" "p < rg_enqueue_pos (rs_ring s)" "fst (rs_claimed s ! p) = t"
proof -
  have "push_ok s f t (rs_push s t)" using assms(1) by (simp add: ring_inv_def)
  then show "rg_dequeue_pos (rs_ring s) \<le> p" "p < rg_enqueue_pos (rs_ring s)" "fst (rs_claimed s ! p) = t"
    using assms(2) by (auto elim: busy.elims)
qed

lemma busy_unique:
  assumes "ring_inv s f" and "busy (rs_push s t) = Some p" and "busy (rs_push s t') = Some p"
  shows "t' = t"
  using busy_claimed(3) [OF assms(1,2)] busy_claimed(3) [OF assms(1,3)] by simp

subsection \<open>Every step keeps it\<close>

lemma busy_upd: "busy (((rs_push s)(t := pc)) u) = (if u = t then busy pc else busy (rs_push s u))"
  by simp

lemma push_ok_cong:
  "rs_ring s' = rs_ring s \<Longrightarrow> rs_claimed s' = rs_claimed s \<Longrightarrow> push_ok s' f t pc = push_ok s f t pc"
  by (cases pc) auto

lemma pop_ok_cong:
  "rs_ring s' = rs_ring s \<Longrightarrow> (\<And>u. busy (rs_push s' u) = busy (rs_push s u)) \<Longrightarrow> pop_ok s' pc = pop_ok s pc"
  by (cases pc) auto

lemma claimed_busy: "pc = PushClaimed v p \<Longrightarrow> busy pc = Some p"
  by simp

lemma window_ok_cong:
  assumes "rs_ring s' = rs_ring s" and "rs_claimed s' = rs_claimed s"
    and "\<And>u. busy (rs_push s' u) = busy (rs_push s u)"
    and "\<And>u v p. rs_push s' u = PushClaimed v p \<longleftrightarrow> rs_push s u = PushClaimed v p"
  shows "window_ok s' f = window_ok s f"
  using assms by (simp add: window_ok_def)

text \<open>A producer that holds no position before or after its step touches nothing others look at.\<close>

lemma push_local_inv:
  assumes inv: "ring_inv s f" and before: "busy (rs_push s t) = None" and after: "busy pc = None"
    and ok: "push_ok s f t pc"
  shows "ring_inv (s\<lparr>rs_push := (rs_push s)(t := pc)\<rparr>) f"
proof -
  let ?s = "s\<lparr>rs_push := (rs_push s)(t := pc)\<rparr>"
  have b: "busy (rs_push ?s u) = busy (rs_push s u)" for u using before after by simp
  have c: "rs_push ?s u = PushClaimed v p \<longleftrightarrow> rs_push s u = PushClaimed v p" for u v p
    using before after by auto
  have "counts_ok ?s f" using inv by (simp add: ring_inv_def counts_ok_def Let_def)
  moreover have "window_ok ?s f" using inv window_ok_cong [OF _ _ b c, of f] by (simp add: ring_inv_def)
  moreover have "push_ok ?s f u (rs_push ?s u)" for u
    using inv ok by (simp add: ring_inv_def push_ok_cong [of ?s s])
  moreover have "pop_ok ?s (rs_pop ?s)" using inv by (simp add: ring_inv_def pop_ok_cong [of ?s s, OF _ b])
  ultimately show ?thesis by (simp add: ring_inv_def)
qed

lemma claim_inv:
  assumes inv: "ring_inv s f" and pc: "rs_push s t = PushSeen v pos pos" and e: "rg_enqueue_pos (rs_ring s) = pos"
  shows "ring_inv (s\<lparr>rs_ring := (rs_ring s)\<lparr>rg_enqueue_pos := pos + 1\<rparr>,
    rs_push := (rs_push s)(t := PushClaimed v pos), rs_claimed := rs_claimed s @ [(t, v)]\<rparr>) f" (is "ring_inv ?s f")
proof -
  have ok: "push_ok s f t (PushSeen v pos pos)" using inv by (simp add: ring_inv_def flip: pc)
  then have room: "pos < f + ring_capacity (rs_ring s)" by simp
  have cnt: "counts_ok s f" using inv by (simp add: ring_inv_def)
  then have len: "length (rs_claimed s) = pos" using e by (simp add: counts_ok_def Let_def)
  have d: "rg_dequeue_pos (rs_ring s) \<le> pos" using cnt e by (auto simp: counts_ok_def Let_def)
  have nb: "busy (rs_push s u) \<noteq> Some p" if "pos \<le> p" for u p
    using busy_claimed(2) [OF inv] that e by force
  have "counts_ok ?s f" using cnt room d len e by (auto simp: counts_ok_def Let_def)
  moreover have "window_ok ?s f"
    unfolding window_ok_def
  proof (intro allI impI)
    fix p assume p: "f \<le> p \<and> p < f + ring_capacity (rs_ring ?s)"
    then have w: "cell_sequence (cell_at (rs_ring s) p) =
          (if p < pos \<and> (\<forall>u. busy (rs_push s u) \<noteq> Some p) then p + 1 else p)"
      "p < pos \<Longrightarrow> (\<forall>u w. rs_push s u \<noteq> PushClaimed w p) \<Longrightarrow> cell_data (cell_at (rs_ring s) p) = snd (rs_claimed s ! p)"
      using inv e by (auto simp: ring_inv_def window_ok_def)
    show "cell_sequence (cell_at (rs_ring ?s) p) =
        (if p < rg_enqueue_pos (rs_ring ?s) \<and> (\<forall>u. busy (rs_push ?s u) \<noteq> Some p) then p + 1 else p) \<and>
      (p < rg_enqueue_pos (rs_ring ?s) \<longrightarrow> (\<forall>u w. rs_push ?s u \<noteq> PushClaimed w p) \<longrightarrow>
        cell_data (cell_at (rs_ring ?s) p) = snd (rs_claimed ?s ! p))"
    proof (cases "p = pos")
      case True
      then show ?thesis using w(1) by (auto intro: exI [of _ t])
    next
      case False
      have b: "busy (rs_push ?s u) = Some p \<longleftrightarrow> busy (rs_push s u) = Some p" for u
        using False pc by (cases "u = t") auto
      have c: "rs_push ?s u = PushClaimed w p \<longleftrightarrow> rs_push s u = PushClaimed w p" for u w
        using False pc by (cases "u = t") auto
      have "p < pos + 1 \<longleftrightarrow> p < pos" using False by linarith
      then show ?thesis unfolding b c using w len by (simp add: nth_append)
    qed
  qed
  moreover have "push_ok ?s f u (rs_push ?s u)" for u
  proof (cases "u = t")
    case True
    then show ?thesis using d len by (simp add: nth_append)
  next
    case False
    have "push_ok s f u (rs_push s u)" using inv by (simp add: ring_inv_def)
    then show ?thesis using False e len by (cases "rs_push s u") (auto simp: nth_append)
  qed
  moreover have "pop_ok ?s (rs_pop ?s)"
  proof -
    have "pop_ok s (rs_pop s)" using inv by (simp add: ring_inv_def)
    then show ?thesis using e pc by (cases "rs_pop s") auto
  qed
  ultimately show ?thesis by (simp add: ring_inv_def)
qed

lemma inv_capacity: "ring_inv s f \<Longrightarrow> 2 \<le> ring_capacity (rs_ring s)"
  by (simp add: ring_inv_def counts_ok_def Let_def)

lemma inv_freed:
  "ring_inv s f \<Longrightarrow> f \<le> rg_dequeue_pos (rs_ring s)"
  "ring_inv s f \<Longrightarrow> rg_dequeue_pos (rs_ring s) \<le> f + 1"
  "ring_inv s f \<Longrightarrow> rg_enqueue_pos (rs_ring s) \<le> f + ring_capacity (rs_ring s)"
  by (auto simp: ring_inv_def counts_ok_def Let_def elim!: held.elims intro: order_trans split: pop_pc.splits)
    (cases "rs_pop s"; simp)

lemma busy_window:
  assumes "ring_inv s f" and "busy (rs_push s t) = Some p"
  shows "f \<le> p" "p < f + ring_capacity (rs_ring s)"
  using busy_claimed [OF assms] inv_freed [OF assms(1)] by linarith+

lemma window_at:
  assumes "ring_inv s f" and "f \<le> p" and "p < f + ring_capacity (rs_ring s)"
  shows "cell_sequence (cell_at (rs_ring s) p) =
      (if p < rg_enqueue_pos (rs_ring s) \<and> (\<forall>t. busy (rs_push s t) \<noteq> Some p) then p + 1 else p)"
    and "p < rg_enqueue_pos (rs_ring s) \<Longrightarrow> (\<forall>t v. rs_push s t \<noteq> PushClaimed v p) \<Longrightarrow>
      cell_data (cell_at (rs_ring s) p) = snd (rs_claimed s ! p)"
  using assms by (auto simp: ring_inv_def window_ok_def)

lemma data_inv:
  assumes inv: "ring_inv s f" and pc: "rs_push s t = PushClaimed v pos"
  shows "ring_inv (s\<lparr>rs_ring := write_data pos v (rs_ring s), rs_push := (rs_push s)(t := PushWritten pos)\<rparr>) f"
    (is "ring_inv ?s f")
proof -
  have bt: "busy (rs_push s t) = Some pos" using pc by simp
  have pos: "f \<le> pos" "pos < f + ring_capacity (rs_ring s)" using busy_window [OF inv bt] by simp_all
  have cap: "0 < ring_capacity (rs_ring s)" using inv_capacity [OF inv] by linarith
  have own: "push_ok s f t (PushClaimed v pos)" using inv by (simp add: ring_inv_def flip: pc)
  have b: "busy (rs_push ?s u) = busy (rs_push s u)" for u using bt by simp
  have "counts_ok ?s f" using inv by (simp add: ring_inv_def counts_ok_def Let_def)
  moreover have "window_ok ?s f"
    unfolding window_ok_def
  proof (intro allI impI)
    fix p assume p: "f \<le> p \<and> p < f + ring_capacity (rs_ring ?s)"
    then have w: "f \<le> p" "p < f + ring_capacity (rs_ring s)" by simp_all
    have s: "slot (rs_ring s) p = slot (rs_ring s) pos \<longleftrightarrow> p = pos" using same_slot [OF w pos] .
    have seq: "cell_sequence (cell_at (rs_ring ?s) p) = cell_sequence (cell_at (rs_ring s) p)"
      using s cap by (simp add: cell_after_write)
    have c: "rs_push ?s u = PushClaimed w p \<longleftrightarrow> rs_push s u = PushClaimed w p" if "p \<noteq> pos" for u w
      using that pc by (cases "u = t") auto
    show "cell_sequence (cell_at (rs_ring ?s) p) =
        (if p < rg_enqueue_pos (rs_ring ?s) \<and> (\<forall>u. busy (rs_push ?s u) \<noteq> Some p) then p + 1 else p) \<and>
      (p < rg_enqueue_pos (rs_ring ?s) \<longrightarrow> (\<forall>u w. rs_push ?s u \<noteq> PushClaimed w p) \<longrightarrow>
        cell_data (cell_at (rs_ring ?s) p) = snd (rs_claimed ?s ! p))"
    proof (cases "p = pos")
      case True
      then show ?thesis unfolding b seq using window_at(1) [OF inv w] own cap by (simp add: cell_after_write)
    next
      case False
      then show ?thesis unfolding b seq c [OF False] using window_at [OF inv w] s cap by (simp add: cell_after_write)
    qed
  qed
  moreover have "push_ok ?s f u (rs_push ?s u)" for u
  proof (cases "u = t")
    case True
    then show ?thesis using own by simp
  next
    case False
    have "push_ok s f u (rs_push s u)" using inv by (simp add: ring_inv_def)
    then show ?thesis using False by (cases "rs_push s u") auto
  qed
  moreover have "pop_ok ?s (rs_pop ?s)"
  proof -
    have "pop_ok s (rs_pop s)" using inv by (simp add: ring_inv_def)
    then show ?thesis using b by (cases "rs_pop s") auto
  qed
  ultimately show ?thesis by (simp add: ring_inv_def)
qed

lemma publish_inv:
  assumes inv: "ring_inv s f" and pc: "rs_push s t = PushWritten pos"
  shows "ring_inv (s\<lparr>rs_ring := write_sequence pos (pos + 1) (rs_ring s), rs_push := (rs_push s)(t := PushReturn True)\<rparr>) f"
    (is "ring_inv ?s f")
proof -
  have bt: "busy (rs_push s t) = Some pos" using pc by simp
  have pos: "f \<le> pos" "pos < f + ring_capacity (rs_ring s)" using busy_window [OF inv bt] by simp_all
  have cap: "0 < ring_capacity (rs_ring s)" using inv_capacity [OF inv] by linarith
  have own: "pos < rg_enqueue_pos (rs_ring s)" using busy_claimed [OF inv bt] by simp
  have others: "busy (rs_push ?s u) \<noteq> Some pos" for u
    using busy_unique [OF inv bt, of u] by (cases "u = t") auto
  have b: "busy (rs_push ?s u) = Some p \<longleftrightarrow> busy (rs_push s u) = Some p" if "p \<noteq> pos" for u p
    using that bt by (cases "u = t") auto
  have c: "rs_push ?s u = PushClaimed w p \<longleftrightarrow> rs_push s u = PushClaimed w p" for u w p
    using pc by (cases "u = t") auto
  have nc: "rs_push s u \<noteq> PushClaimed w pos" for u w
    using busy_unique [OF inv bt, of u] pc by auto
  have "counts_ok ?s f" using inv by (simp add: ring_inv_def counts_ok_def Let_def)
  moreover have "window_ok ?s f"
    unfolding window_ok_def
  proof (intro allI impI)
    fix p assume p: "f \<le> p \<and> p < f + ring_capacity (rs_ring ?s)"
    then have w: "f \<le> p" "p < f + ring_capacity (rs_ring s)" by simp_all
    have s: "slot (rs_ring s) p = slot (rs_ring s) pos \<longleftrightarrow> p = pos" using same_slot [OF w pos] .
    have dat: "cell_data (cell_at (rs_ring ?s) p) = cell_data (cell_at (rs_ring s) p)"
      using s cap by (simp add: cell_after_write)
    show "cell_sequence (cell_at (rs_ring ?s) p) =
        (if p < rg_enqueue_pos (rs_ring ?s) \<and> (\<forall>u. busy (rs_push ?s u) \<noteq> Some p) then p + 1 else p) \<and>
      (p < rg_enqueue_pos (rs_ring ?s) \<longrightarrow> (\<forall>u w. rs_push ?s u \<noteq> PushClaimed w p) \<longrightarrow>
        cell_data (cell_at (rs_ring ?s) p) = snd (rs_claimed ?s ! p))"
    proof (cases "p = pos")
      case True
      then show ?thesis unfolding dat c using window_at(2) [OF inv w] nc others own cap
        by (simp add: cell_after_write del: fun_upd_apply)
    next
      case False
      then show ?thesis unfolding dat c b [OF False] using window_at [OF inv w] s cap by (simp add: cell_after_write)
    qed
  qed
  moreover have "push_ok ?s f u (rs_push ?s u)" for u
  proof (cases "u = t")
    case False
    have "push_ok s f u (rs_push s u)" using inv by (simp add: ring_inv_def)
    then show ?thesis using False by (cases "rs_push s u") auto
  qed simp
  moreover have "pop_ok ?s (rs_pop ?s)"
  proof -
    have "pop_ok s (rs_pop s)" using inv by (simp add: ring_inv_def)
    then show ?thesis by (cases "rs_pop s") auto
  qed
  ultimately show ?thesis by (simp add: ring_inv_def)
qed

text \<open>The consumer: a step that holds no position, its claim, its read, its release.\<close>

lemma pop_local_inv:
  assumes inv: "ring_inv s f" and before: "held (rs_pop s) = 0" and after: "held pc = 0" and ok: "pop_ok s pc"
  shows "ring_inv (s\<lparr>rs_pop := pc\<rparr>) f"
proof -
  let ?s = "s\<lparr>rs_pop := pc\<rparr>"
  have p: "pending_read (rs_pop s) = 0" "pending_read pc = 0" using before after by (cases "rs_pop s"; cases pc; simp)+
  have "counts_ok ?s f" using inv before after p by (simp add: ring_inv_def counts_ok_def Let_def)
  moreover have "window_ok ?s f" using inv window_ok_cong [of ?s s f] by (simp add: ring_inv_def)
  moreover have "push_ok ?s f u (rs_push ?s u)" for u using inv by (simp add: ring_inv_def push_ok_cong [of ?s s])
  moreover have "pop_ok ?s pc" using ok pop_ok_cong [of ?s s pc] by simp
  ultimately show ?thesis by (simp add: ring_inv_def)
qed

lemma pop_claim_inv:
  assumes inv: "ring_inv s f" and pc: "rs_pop s = PopSeen pos (pos + 1)" and d: "rg_dequeue_pos (rs_ring s) = pos"
  shows "ring_inv (s\<lparr>rs_ring := (rs_ring s)\<lparr>rg_dequeue_pos := pos + 1\<rparr>, rs_pop := PopClaimed pos\<rparr>) f"
    (is "ring_inv ?s f")
proof -
  have own: "pop_ok s (PopSeen pos (pos + 1))" using inv unfolding ring_inv_def pc by blast
  then have "pos < rg_enqueue_pos (rs_ring s)" by simp
  then have "counts_ok ?s f" using inv pc d by (simp add: ring_inv_def counts_ok_def Let_def)
  moreover have "window_ok ?s f" using inv by (simp add: ring_inv_def window_ok_def)
  moreover have "push_ok ?s f u (rs_push ?s u)" for u
  proof -
    have ok: "push_ok s f u (rs_push s u)" using inv by (simp add: ring_inv_def)
    have "busy (rs_push s u) \<noteq> Some pos" using own unfolding pop_ok.simps by blast
    then show ?thesis using ok d by (cases "rs_push s u") auto
  qed
  ultimately show ?thesis by (simp add: ring_inv_def)
qed

lemma pop_read_inv:
  assumes inv: "ring_inv s f" and pc: "rs_pop s = PopClaimed pos"
  shows "ring_inv (s\<lparr>rs_pop := PopRead pos (cell_data (cell_at (rs_ring s) pos)),
      rs_popped := rs_popped s @ [cell_data (cell_at (rs_ring s) pos)]\<rparr>) f" (is "ring_inv ?s f")
proof -
  have own: "pop_ok s (PopClaimed pos)" using inv by (simp add: ring_inv_def flip: pc)
  have cnt: "counts_ok s f" using inv by (simp add: ring_inv_def)
  then have f: "f = pos" "length (rs_popped s) = pos" "pos < rg_enqueue_pos (rs_ring s)"
    "rg_enqueue_pos (rs_ring s) = length (rs_claimed s)" "prefix (rs_popped s) (map snd (rs_claimed s))"
    using own pc by (auto simp: counts_ok_def Let_def)
  have "busy (rs_push s u) \<noteq> Some pos" for u
    using busy_claimed(1) [OF inv, of u pos] own by auto
  then have "\<forall>u v. rs_push s u \<noteq> PushClaimed v pos" by (metis claimed_busy)
  then have "cell_data (cell_at (rs_ring s) pos) = snd (rs_claimed s ! pos)"
    using window_at(2) [OF inv, of pos] f inv_capacity [OF inv] by simp
  then have "prefix (rs_popped s @ [cell_data (cell_at (rs_ring s) pos)]) (map snd (rs_claimed s))"
    using f append_one_prefix [of "rs_popped s" "map snd (rs_claimed s)"] by simp
  then have "counts_ok ?s f" using cnt pc f by (simp add: counts_ok_def Let_def)
  moreover have "window_ok ?s f" using inv window_ok_cong [of ?s s f] by (simp add: ring_inv_def)
  moreover have "push_ok ?s f u (rs_push ?s u)" for u using inv by (simp add: ring_inv_def push_ok_cong [of ?s s])
  ultimately show ?thesis using own by (simp add: ring_inv_def)
qed

lemma release_inv:
  assumes inv: "ring_inv s f" and pc: "rs_pop s = PopRead pos v"
  shows "ring_inv (s\<lparr>rs_ring := write_sequence pos (pos + ring_capacity (rs_ring s)) (rs_ring s),
      rs_pop := PopReturn res\<rparr>) (f + 1)" (is "ring_inv ?s _")
proof -
  let ?n = "ring_capacity (rs_ring s)"
  have own: "pop_ok s (PopRead pos v)" using inv by (simp add: ring_inv_def flip: pc)
  have cnt: "counts_ok s f" using inv by (simp add: ring_inv_def)
  then have f: "f = pos" using own pc by (auto simp: counts_ok_def Let_def)
  have cap: "0 < ?n" using inv_capacity [OF inv] by linarith
  have e: "rg_enqueue_pos (rs_ring s) \<le> pos + ?n" using inv_freed(3) [OF inv] f by simp
  have "counts_ok ?s (f + 1)" using cnt pc by (simp add: counts_ok_def Let_def)
  moreover have "window_ok ?s (f + 1)"
    unfolding window_ok_def
  proof (intro allI impI)
    fix p assume p: "f + 1 \<le> p \<and> p < f + 1 + ring_capacity (rs_ring ?s)"
    show "cell_sequence (cell_at (rs_ring ?s) p) =
        (if p < rg_enqueue_pos (rs_ring ?s) \<and> (\<forall>u. busy (rs_push ?s u) \<noteq> Some p) then p + 1 else p) \<and>
      (p < rg_enqueue_pos (rs_ring ?s) \<longrightarrow> (\<forall>u w. rs_push ?s u \<noteq> PushClaimed w p) \<longrightarrow>
        cell_data (cell_at (rs_ring ?s) p) = snd (rs_claimed ?s ! p))"
    proof (cases "p = pos + ?n")
      case True
      then show ?thesis using e cap by (simp add: cell_after_write)
    next
      case False
      then have w: "f \<le> p" "p < f + ?n" "p \<noteq> pos" using p f by simp_all
      then have "slot (rs_ring s) p \<noteq> slot (rs_ring s) pos" using same_slot [OF w(1,2)] f cap by simp
      then show ?thesis using window_at [OF inv w(1,2)] cap by (simp add: cell_after_write)
    qed
  qed
  moreover have "push_ok ?s (f + 1) u (rs_push ?s u)" for u
  proof -
    have "push_ok s f u (rs_push s u)" using inv by (simp add: ring_inv_def)
    then show ?thesis by (cases "rs_push s u") auto
  qed
  ultimately show ?thesis by (simp add: ring_inv_def)
qed

lemma push_step_inv:
  assumes inv: "ring_inv s f"
  shows "ring_inv (ring_step (StepPush t weak) s) f"
proof -
  have ok: "push_ok s f t (rs_push s t)" using inv by (simp add: ring_inv_def)
  have le: "rg_enqueue_pos (rs_ring s) \<le> f + ring_capacity (rs_ring s)" by (rule inv_freed(3) [OF inv])
  show ?thesis
  proof (cases "rs_push s t")
    case (PushStart v)
    then show ?thesis using push_local_inv [OF inv, of t "PushAt v (rg_enqueue_pos (rs_ring s))"] by simp
  next
    case (PushAt v pos)
    have pos: "pos \<le> rg_enqueue_pos (rs_ring s)" using ok PushAt by simp
    have "pos < f + ring_capacity (rs_ring s)" if "cell_sequence (cell_at (rs_ring s) pos) = pos"
    proof (rule ccontr)
      assume "\<not> pos < f + ring_capacity (rs_ring s)"
      then have "pos = f + ring_capacity (rs_ring s)" using pos le by linarith
      then have "cell_at (rs_ring s) pos = cell_at (rs_ring s) f" by (simp add: cell_at_def)
      then have "cell_sequence (cell_at (rs_ring s) pos) \<le> f + 1"
        using window_at(1) [OF inv, of f] inv_capacity [OF inv] by simp
      then show False using that \<open>pos = _\<close> inv_capacity [OF inv] by linarith
    qed
    then show ?thesis
      using push_local_inv [OF inv, of t "PushSeen v pos (cell_sequence (cell_at (rs_ring s) pos))"] PushAt pos by simp
  next
    case (PushSeen v pos seq)
    have again: "ring_inv (s\<lparr>rs_push := (rs_push s)(t := PushAt v (rg_enqueue_pos (rs_ring s)))\<rparr>) f"
      using push_local_inv [OF inv, of t "PushAt v (rg_enqueue_pos (rs_ring s))"] PushSeen by simp
    have stop: "ring_inv (s\<lparr>rs_push := (rs_push s)(t := PushReturn False)\<rparr>) f"
      using push_local_inv [OF inv, of t "PushReturn False"] PushSeen by simp
    show ?thesis
    proof (cases "seq = pos \<and> rg_enqueue_pos (rs_ring s) = pos \<and> \<not> weak")
      case True
      then show ?thesis using claim_inv [OF inv, of t v pos] PushSeen by simp
    next
      case False
      then show ?thesis using again stop PushSeen by auto
    qed
  next
    case (PushClaimed v pos)
    then show ?thesis using data_inv [OF inv PushClaimed] by simp
  next
    case (PushWritten pos)
    then show ?thesis using publish_inv [OF inv PushWritten] by simp
  next
    case (PushReturn ok)
    then show ?thesis using push_local_inv [OF inv, of t "PushReturn ok"] by simp
  qed
qed

lemma pop_step_inv:
  assumes inv: "ring_inv s f"
  shows "\<exists>f'. ring_inv (ring_step (StepPop weak) s) f'"
proof (cases "rs_pop s")
  case PopStart
  then show ?thesis using pop_local_inv [OF inv, of "PopAt (rg_dequeue_pos (rs_ring s))"] by auto
next
  case (PopAt pos)
  have own: "pos = rg_dequeue_pos (rs_ring s)" using inv unfolding ring_inv_def PopAt by simp
  have f: "f = pos" using inv PopAt own by (simp add: ring_inv_def counts_ok_def Let_def)
  have "pos < rg_enqueue_pos (rs_ring s) \<and> (\<forall>t. busy (rs_push s t) \<noteq> Some pos)"
    if "cell_sequence (cell_at (rs_ring s) pos) = pos + 1"
  proof (rule ccontr)
    assume n: "\<not> ?thesis"
    have a: "f \<le> pos" "pos < f + ring_capacity (rs_ring s)" using f inv_capacity [OF inv] by auto
    have "cell_sequence (cell_at (rs_ring s) pos) = pos"
      using window_at(1) [OF inv a] unfolding if_not_P [OF n] .
    with that show False by simp
  qed
  then have ok: "pop_ok s (PopSeen pos (cell_sequence (cell_at (rs_ring s) pos)))"
    unfolding pop_ok.simps using own by blast
  have "ring_inv (s\<lparr>rs_pop := PopSeen pos (cell_sequence (cell_at (rs_ring s) pos))\<rparr>) f"
    by (rule pop_local_inv [OF inv _ _ ok]) (simp_all add: PopAt)
  then show ?thesis using PopAt by (intro exI [of _ f]) simp
next
  case (PopSeen pos seq)
  have again: "ring_inv (s\<lparr>rs_pop := PopAt (rg_dequeue_pos (rs_ring s))\<rparr>) f"
    using pop_local_inv [OF inv, of "PopAt (rg_dequeue_pos (rs_ring s))"] PopSeen by simp
  have stop: "ring_inv (s\<lparr>rs_pop := PopReturn None\<rparr>) f"
    using pop_local_inv [OF inv, of "PopReturn None"] PopSeen by simp
  show ?thesis
  proof (cases "seq = pos + 1 \<and> rg_dequeue_pos (rs_ring s) = pos \<and> \<not> weak")
    case True
    then show ?thesis using pop_claim_inv [OF inv, of pos] PopSeen by auto
  next
    case False
    then show ?thesis using again stop PopSeen by auto
  qed
next
  case (PopClaimed pos)
  then show ?thesis using pop_read_inv [OF inv PopClaimed] by auto
next
  case (PopRead pos v)
  then show ?thesis using release_inv [OF inv PopRead] by auto
next
  case (PopReturn res)
  then show ?thesis using pop_local_inv [OF inv, of "PopReturn res"] inv by auto
qed

lemma ring_step_inv: "ring_inv s f \<Longrightarrow> \<exists>f'. ring_inv (ring_step m s) f'"
proof (cases m)
  case (CallPush t v)
  assume inv: "ring_inv s f"
  then show ?thesis
    using CallPush push_local_inv [OF inv, of t "PushStart v"] by (cases "rs_push s t") auto
next
  case CallPop
  assume inv: "ring_inv s f"
  then show ?thesis using CallPop pop_local_inv [OF inv, of PopStart] by (cases "rs_pop s") auto
qed (use push_step_inv pop_step_inv in blast)+

lemma ring_reachable_inv:
  "2 \<le> n \<Longrightarrow> \<exists>f. ring_inv (fold ring_step ms (initial_state n d)) f"
proof (induction ms rule: rev_induct)
  case (snoc m ms)
  then show ?case using ring_step_inv [of _ _ m] by auto
qed (auto intro: initial_inv)

subsection \<open>What the ring promises\<close>

lemma window_covers:
  assumes "0 < ring_capacity r"
  shows "\<exists>p. f \<le> p \<and> p < f + ring_capacity r \<and> slot r p = slot r pos"
proof -
  let ?n = "ring_capacity r"
  have "f \<le> ?n * f" using assms by (cases ?n) simp_all
  then have "f + (pos + ?n * f - f) = pos + ?n * f" by linarith
  then have "(f + (pos + ?n * f - f) mod ?n) mod ?n = pos mod ?n" by (metis mod_add_right_eq mod_mult_self2)
  then show ?thesis using assms by (intro exI [of _ "f + (pos + ?n * f - f) mod ?n"]) (simp add: slot_def)
qed

lemma window_sequence:
  assumes "ring_inv s f" and "f \<le> p" and "p < f + ring_capacity (rs_ring s)"
  shows "p \<le> cell_sequence (cell_at (rs_ring s) p)"
  using window_at(1) [OF assms] by simp

text \<open>\<open>tryPush\<close> reports a full ring only when every cell holds a value that is still to be taken.\<close>

lemma full_is_full:
  assumes inv: "ring_inv s f" and at: "rs_push s t = PushAt v pos"
    and seq: "cell_sequence (cell_at (rs_ring s) pos) < pos"
  shows "rg_enqueue_pos (rs_ring s) + held (rs_pop s) = rg_dequeue_pos (rs_ring s) + ring_capacity (rs_ring s)"
proof -
  have "push_ok s f t (rs_push s t)" using inv by (simp add: ring_inv_def)
  then have pos: "pos \<le> rg_enqueue_pos (rs_ring s)" using at by simp
  obtain p where p: "f \<le> p" "p < f + ring_capacity (rs_ring s)" "slot (rs_ring s) p = slot (rs_ring s) pos"
    using window_covers [of "rs_ring s" f pos] inv_capacity [OF inv] by auto
  have "cell_at (rs_ring s) p = cell_at (rs_ring s) pos" using p(3) by (simp add: cell_at_def)
  then have "p < pos" using window_sequence [OF inv p(1,2)] seq by simp
  then have "f + ring_capacity (rs_ring s) \<le> pos"
    using same_slot [OF p(1,2), of pos] p by force
  then have "rg_enqueue_pos (rs_ring s) = f + ring_capacity (rs_ring s)" using pos inv_freed(3) [OF inv] by linarith
  moreover have "f + held (rs_pop s) = rg_dequeue_pos (rs_ring s)"
    using inv by (simp add: ring_inv_def counts_ok_def Let_def)
  ultimately show ?thesis by linarith
qed

text \<open>\<open>tryPop\<close> reports an empty ring only when the next value has not been pushed or is being written.\<close>

lemma empty_is_empty:
  assumes inv: "ring_inv s f" and at: "rs_pop s = PopAt pos" and seq: "cell_sequence (cell_at (rs_ring s) pos) < pos + 1"
  shows "pos = length (rs_claimed s) \<or> (\<exists>t. busy (rs_push s t) = Some pos)"
proof -
  have cnt: "counts_ok s f" using inv by (simp add: ring_inv_def)
  have own: "pos = rg_dequeue_pos (rs_ring s)" using inv unfolding ring_inv_def at by simp
  have f: "f = pos" "f \<le> rg_enqueue_pos (rs_ring s)" "rg_enqueue_pos (rs_ring s) = length (rs_claimed s)"
    using cnt at own by (auto simp: counts_ok_def Let_def)
  have a: "f \<le> pos" "pos < f + ring_capacity (rs_ring s)" using f inv_capacity [OF inv] by auto
  show ?thesis
  proof (rule ccontr)
    assume "\<not> ?thesis"
    then have "cell_sequence (cell_at (rs_ring s) pos) = pos + 1" using window_at(1) [OF inv a] f by simp
    then show False using seq by simp
  qed
qed

lemma no_race:
  assumes inv: "ring_inv s f" and c: "rs_push s t = PushClaimed v p"
  shows "t' \<noteq> t \<Longrightarrow> rs_push s t' = PushClaimed v' p' \<Longrightarrow> slot (rs_ring s) p' \<noteq> slot (rs_ring s) p"
    and "rs_pop s = PopClaimed q \<Longrightarrow> slot (rs_ring s) q \<noteq> slot (rs_ring s) p"
proof -
  have b: "busy (rs_push s t) = Some p" using c by simp
  have w: "f \<le> p" "p < f + ring_capacity (rs_ring s)" using busy_window [OF inv b] by simp_all
  show "slot (rs_ring s) p' \<noteq> slot (rs_ring s) p" if "t' \<noteq> t" and c': "rs_push s t' = PushClaimed v' p'"
  proof -
    have b': "busy (rs_push s t') = Some p'" using c' by simp
    have "p' \<noteq> p" using busy_unique [OF inv b, of t'] b' that(1) by auto
    then show ?thesis using same_slot [OF busy_window [OF inv b'] w] by simp
  qed
  show "slot (rs_ring s) q \<noteq> slot (rs_ring s) p" if "rs_pop s = PopClaimed q"
  proof -
    have q: "q + 1 = rg_dequeue_pos (rs_ring s)" using inv that unfolding ring_inv_def by simp
    then have "f = q" using inv that by (auto simp: ring_inv_def counts_ok_def Let_def)
    moreover have "q < p" using busy_claimed(1) [OF inv b] q by linarith
    ultimately show ?thesis using same_slot [of f q "rs_ring s" p] w inv_capacity [OF inv] by auto
  qed
qed

lemma fold_capacity:
  fixes s :: "'a ring_state"
  shows "ring_capacity (rs_ring (fold ring_step ms s)) = ring_capacity (rs_ring s)"
proof -
  have push: "ring_capacity (snd (push_next weak pc r)) = ring_capacity r" for weak and pc :: "'a push_pc" and r
    by (cases "(weak, pc, r)" rule: push_next.cases) auto
  have pop: "ring_capacity (snd (pop_next weak pc r)) = ring_capacity r" for weak and pc :: "'a pop_pc" and r
    by (cases "(weak, pc, r)" rule: pop_next.cases) auto
  have "ring_capacity (rs_ring (ring_step m s)) = ring_capacity (rs_ring s)" for m and s :: "'a ring_state"
    using push [of _ "rs_push s _" "rs_ring s"] pop [of _ "rs_pop s" "rs_ring s"]
    by (cases m) (auto simp: case_prod_unfold Let_def split: push_pc.splits pop_pc.splits)
  then show ?thesis by (induction ms arbitrary: s) simp_all
qed


text \<open>Two producers and the consumer, interleaved.\<close>

definition ring_session :: "nat ring_move list" where
  "ring_session = [CallPush 0 7, CallPush 1 9, StepPush 0 False, StepPush 1 False, StepPush 0 False, StepPush 1 False,
     StepPush 1 False, StepPush 0 False, StepPush 0 False, CallPop, StepPop False, StepPop False,
     StepPush 0 False, StepPush 0 False, StepPush 0 False, StepPush 1 False, StepPush 1 False,
     StepPop False, CallPop, StepPop False, StepPop False, StepPop False, StepPop False, StepPop False]"


text \<open>
  The static assertion admits a capacity of 1, for which the algorithm does not work: a second push
  finds the cell's sequence equal to its position and overwrites the value nobody has taken.
\<close>

lemma capacity_one_loses:
  "let s = fold ring_step
      ([CallPush 0 7] @ replicate 5 (StepPush 0 False) @ [CallPush 0 9] @ replicate 5 (StepPush 0 False) @
       [CallPop] @ replicate 5 (StepPop False)) (initial_state 1 (0 :: nat))
   in map snd (rs_claimed s) = [7, 9] \<and> rs_popped s = [] \<and>
      cell_data (cell_at (rs_ring s) 0) = 9"
  by code_simp

end
