(* ===== verification/Publisher.thy ===== *)
theory Publisher
  imports Main
begin

text \<open>
  Publication to the audio thread (\<open>core/rt/publisher.h\<close>): a writer swaps in a complete immutable
  object, the one it replaced is retired with the epoch read after the swap, and a collector frees
  what the audio thread can no longer hold.  One step is one access to shared memory (the retired
  list is under a mutex, so a sweep is one step); any number of writers, the collector and the audio
  thread interleave in any order.  Objects are numbered as they are published.  Epochs count blocks
  and are natural numbers.
\<close>

subsection \<open>State and steps\<close>

datatype publish_pc = PubIdle | PubExchanged "nat option" | PubCounted "nat option" | PubEpoch nat nat

datatype collect_pc = CollectIdle | CollectEpoch bool nat

record Publisher =
  pb_current :: "nat option"
  pb_rt_epoch :: nat
  pb_generation :: nat
  pb_retired :: "(nat \<times> nat) list"
  pb_freed :: "nat list"
  pb_next_object :: nat
  pb_writers :: "nat \<Rightarrow> publish_pc"
  pb_collector :: collect_pc
  pb_in_block :: bool
  pb_held :: "nat list"

definition new_publisher :: Publisher where
  "new_publisher = \<lparr>pb_current = None, pb_rt_epoch = 0, pb_generation = 0, pb_retired = [], pb_freed = [],
     pb_next_object = 0, pb_writers = (\<lambda>w. PubIdle), pb_collector = CollectIdle, pb_in_block = False, pb_held = []\<rparr>"

text \<open>
  The audio thread: \<open>beginBlock\<close> once per block, any number of \<open>acquire\<close>, the end of the block (the
  pointers of the block are dropped).
\<close>

definition beginBlock :: "Publisher \<Rightarrow> Publisher" where
  "beginBlock p = p\<lparr>pb_rt_epoch := pb_rt_epoch p + 1, pb_in_block := True, pb_held := []\<rparr>"

definition acquire :: "Publisher \<Rightarrow> nat option" where
  "acquire p = pb_current p"

definition hold_acquired :: "Publisher \<Rightarrow> Publisher" where
  "hold_acquired p = p\<lparr>pb_held := pb_held p @ (case acquire p of None \<Rightarrow> [] | Some ob \<Rightarrow> [ob])\<rparr>"

text \<open>\<open>publish\<close>, one access at a time: the exchange, the generation, the epoch, the retired list.\<close>

definition publish_exchange :: "nat \<Rightarrow> Publisher \<Rightarrow> Publisher" where
  "publish_exchange w p = p\<lparr>pb_current := Some (pb_next_object p), pb_next_object := pb_next_object p + 1,
     pb_writers := (pb_writers p)(w := PubExchanged (pb_current p))\<rparr>"

definition publish_step :: "nat \<Rightarrow> Publisher \<Rightarrow> Publisher" where
  "publish_step w p =
     (case pb_writers p w of
        PubIdle \<Rightarrow> p
      | PubExchanged previous \<Rightarrow>
          p\<lparr>pb_generation := pb_generation p + 1, pb_writers := (pb_writers p)(w := PubCounted previous)\<rparr>
      | PubCounted None \<Rightarrow> p\<lparr>pb_writers := (pb_writers p)(w := PubIdle)\<rparr>
      | PubCounted (Some previous) \<Rightarrow> p\<lparr>pb_writers := (pb_writers p)(w := PubEpoch previous (pb_rt_epoch p))\<rparr>
      | PubEpoch previous retire_epoch \<Rightarrow>
          p\<lparr>pb_retired := pb_retired p @ [(previous, retire_epoch)], pb_writers := (pb_writers p)(w := PubIdle)\<rparr>)"

text \<open>\<open>collect\<close>: the epoch is read before the lock is taken; the sweep frees what it removes.\<close>

definition doomed :: "bool \<Rightarrow> nat \<Rightarrow> nat \<times> nat \<Rightarrow> bool" where
  "doomed rt_running epoch it \<longleftrightarrow> \<not> rt_running \<or> epoch \<ge> snd it + 2"

definition collect_epoch :: "bool \<Rightarrow> Publisher \<Rightarrow> Publisher" where
  "collect_epoch rt_running p = p\<lparr>pb_collector := CollectEpoch rt_running (pb_rt_epoch p)\<rparr>"

definition collect_sweep :: "Publisher \<Rightarrow> Publisher" where
  "collect_sweep p =
     (case pb_collector p of
        CollectIdle \<Rightarrow> p
      | CollectEpoch rt_running epoch \<Rightarrow>
          p\<lparr>pb_retired := filter (\<lambda>it. \<not> doomed rt_running epoch it) (pb_retired p),
            pb_freed := pb_freed p @ map fst (filter (doomed rt_running epoch) (pb_retired p)),
            pb_collector := CollectIdle\<rparr>)"

definition retiredCount :: "Publisher \<Rightarrow> nat" where
  "retiredCount p = length (pb_retired p)"

datatype pub_move = BeginBlock | Acquire | EndBlock | PublishCall nat | PublishNext nat | CollectCall bool | CollectNext

fun pub_step :: "pub_move \<Rightarrow> Publisher \<Rightarrow> Publisher" where
  "pub_step BeginBlock p = (if pb_in_block p then p else beginBlock p)"
| "pub_step Acquire p = (if pb_in_block p then hold_acquired p else p)"
| "pub_step EndBlock p = p\<lparr>pb_in_block := False, pb_held := []\<rparr>"
| "pub_step (PublishCall w) p = (if pb_writers p w = PubIdle then publish_exchange w p else p)"
| "pub_step (PublishNext w) p = publish_step w p"
| "pub_step (CollectCall rt_running) p = (if pb_collector p = CollectIdle then collect_epoch rt_running p else p)"
| "pub_step CollectNext p = collect_sweep p"

text \<open>
  A sweep told that nothing is rendering must find that so.
\<close>

fun move_sane :: "pub_move \<Rightarrow> Publisher \<Rightarrow> bool" where
  "move_sane CollectNext p \<longleftrightarrow> (case pb_collector p of CollectEpoch False e \<Rightarrow> \<not> pb_in_block p | _ \<Rightarrow> True)"
| "move_sane m p \<longleftrightarrow> True"

fun run_sane :: "pub_move list \<Rightarrow> Publisher \<Rightarrow> bool" where
  "run_sane [] p \<longleftrightarrow> True"
| "run_sane (m # ms) p \<longleftrightarrow> move_sane m p \<and> run_sane ms (pub_step m p)"

subsection \<open>Who owns an object\<close>

text \<open>The object a writer still carries between its exchange and the retired list.\<close>

fun carried :: "publish_pc \<Rightarrow> nat option" where
  "carried PubIdle = None" | "carried (PubExchanged prev) = prev" | "carried (PubCounted prev) = prev"
| "carried (PubEpoch prev e) = Some prev"

definition unowned :: "Publisher \<Rightarrow> nat \<Rightarrow> bool" where
  "unowned p ob \<longleftrightarrow> pb_current p \<noteq> Some ob \<and> (\<forall>w. carried (pb_writers p w) \<noteq> Some ob) \<and> ob \<notin> fst ` set (pb_retired p)"

text \<open>Each object has one owner: the pointer, one writer, one retired entry, or it has been freed once.\<close>

definition owners_ok :: "Publisher \<Rightarrow> bool" where
  "owners_ok p \<longleftrightarrow>
     (\<forall>w ob. carried (pb_writers p w) = Some ob \<longrightarrow> ob < pb_next_object p \<and> pb_current p \<noteq> Some ob \<and>
        ob \<notin> fst ` set (pb_retired p) \<and> (\<forall>w'. carried (pb_writers p w') = Some ob \<longrightarrow> w' = w)) \<and>
     (\<forall>ob. pb_current p = Some ob \<longrightarrow> ob < pb_next_object p) \<and>
     (\<forall>ob \<in> fst ` set (pb_retired p). ob < pb_next_object p \<and> pb_current p \<noteq> Some ob) \<and>
     distinct (map fst (pb_retired p)) \<and>
     (\<forall>ob \<in> set (pb_freed p). ob < pb_next_object p \<and> unowned p ob) \<and> distinct (pb_freed p)"

text \<open>What the audio thread holds is owned, and was not retired with an epoch before this block.\<close>

definition held_ok :: "Publisher \<Rightarrow> bool" where
  "held_ok p \<longleftrightarrow> (\<not> pb_in_block p \<longrightarrow> pb_held p = []) \<and>
     (\<forall>ob \<in> set (pb_held p). ob < pb_next_object p \<and> ob \<notin> set (pb_freed p) \<and>
        (\<forall>e. (ob, e) \<in> set (pb_retired p) \<longrightarrow> pb_rt_epoch p \<le> e) \<and>
        (\<forall>w e. pb_writers p w = PubEpoch ob e \<longrightarrow> pb_rt_epoch p \<le> e)) \<and>
     (\<forall>rt e. pb_collector p = CollectEpoch rt e \<longrightarrow> e \<le> pb_rt_epoch p)"
lemma new_publisher_ok: "owners_ok new_publisher" "held_ok new_publisher"
  by (auto simp: owners_ok_def held_ok_def new_publisher_def)

lemma owners_facts:
  assumes "owners_ok p"
  shows "\<And>v ob. carried (pb_writers p v) = Some ob \<Longrightarrow> ob < pb_next_object p \<and> pb_current p \<noteq> Some ob \<and>
        ob \<notin> fst ` set (pb_retired p) \<and> (\<forall>w'. carried (pb_writers p w') = Some ob \<longrightarrow> w' = v)"
    and "\<And>ob. pb_current p = Some ob \<Longrightarrow> ob < pb_next_object p"
    and "\<And>ob. ob \<in> fst ` set (pb_retired p) \<Longrightarrow> ob < pb_next_object p \<and> pb_current p \<noteq> Some ob"
    and "distinct (map fst (pb_retired p))"
    and "\<And>ob. ob \<in> set (pb_freed p) \<Longrightarrow> ob < pb_next_object p \<and> unowned p ob"
    and "distinct (pb_freed p)"
  using assms unfolding owners_ok_def by blast+

text \<open>Steps that move no object keep the owners.\<close>

lemma owners_cong:
  assumes "pb_current q = pb_current p" "pb_retired q = pb_retired p" "pb_freed q = pb_freed p"
    "pb_next_object q = pb_next_object p" "\<And>w. carried (pb_writers q w) = carried (pb_writers p w)"
  shows "owners_ok q = owners_ok p"
  using assms by (simp add: owners_ok_def unowned_def)

lemma exchange_owners:
  assumes "owners_ok p" and "pb_writers p w = PubIdle"
  shows "owners_ok (publish_exchange w p)"
proof -
  let ?q = "publish_exchange w p"
  have c: "carried (pb_writers ?q v) = (if v = w then pb_current p else carried (pb_writers p v))" for v
    by (simp add: publish_exchange_def)
  have q: "pb_current ?q = Some (pb_next_object p)" "pb_retired ?q = pb_retired p" "pb_freed ?q = pb_freed p"
    "pb_next_object ?q = pb_next_object p + 1" by (simp_all add: publish_exchange_def)
  have idle: "carried (pb_writers p w) = None" using assms(2) by simp
  note a = owners_facts [OF assms(1)]
  show ?thesis
    unfolding owners_ok_def unowned_def c q
  proof (intro conjI allI impI ballI)
    fix v ob assume h: "(if v = w then pb_current p else carried (pb_writers p v)) = Some ob"
    show "ob < pb_next_object p + 1" using h a(1,2) by (auto split: if_splits intro: less_SucI)
    show "Some (pb_next_object p) \<noteq> Some ob" using h a(1,2) by (auto split: if_splits)
    show "ob \<notin> fst ` set (pb_retired p)" using h a(1,3) by (auto split: if_splits)
    show "u = v" if "(if u = w then pb_current p else carried (pb_writers p u)) = Some ob" for u
      using h that a(1) by (auto split: if_splits)
  next
    fix ob assume ob: "ob \<in> set (pb_freed p)"
    show "(if v = w then pb_current p else carried (pb_writers p v)) \<noteq> Some ob" for v
      using a(5) [OF ob] by (simp add: unowned_def)
    show "ob < pb_next_object p + 1" "Some (pb_next_object p) \<noteq> Some ob" "ob \<notin> fst ` set (pb_retired p)"
      using a(5) [OF ob] by (simp_all add: unowned_def)
  next
    fix ob assume ob: "ob \<in> fst ` set (pb_retired p)"
    show "ob < pb_next_object p + 1" "Some (pb_next_object p) \<noteq> Some ob" using a(3) [OF ob] by simp_all
  qed (use a(4,6) in simp_all)
qed

lemma retire_owners:
  assumes "owners_ok p" and "pb_writers p w = PubEpoch prev e"
  shows "owners_ok (publish_step w p)"
proof -
  let ?q = "publish_step w p"
  have c: "carried (pb_writers ?q v) = (if v = w then None else carried (pb_writers p v))" for v
    using assms(2) by (simp add: publish_step_def)
  have q: "pb_current ?q = pb_current p" "pb_retired ?q = pb_retired p @ [(prev, e)]" "pb_freed ?q = pb_freed p"
    "pb_next_object ?q = pb_next_object p" using assms(2) by (simp_all add: publish_step_def)
  have own: "carried (pb_writers p w) = Some prev" using assms(2) by simp
  note a = owners_facts [OF assms(1)]
  show ?thesis
    unfolding owners_ok_def unowned_def c q
  proof (intro conjI allI impI ballI)
    fix v ob assume h: "(if v = w then None else carried (pb_writers p v)) = Some ob"
    show "ob < pb_next_object p" "pb_current p \<noteq> Some ob" using h a(1) by (auto split: if_splits)
    show "ob \<notin> fst ` set (pb_retired p @ [(prev, e)])" using h a(1) own by (auto split: if_splits)
    show "u = v" if "(if u = w then None else carried (pb_writers p u)) = Some ob" for u
      using h that a(1) by (auto split: if_splits)
  next
    show "distinct (map fst (pb_retired p @ [(prev, e)]))" using a(1) [OF own] a(4) by auto
  next
    fix ob assume "ob \<in> fst ` set (pb_retired p @ [(prev, e)])"
    then have ob: "ob = prev \<or> ob \<in> fst ` set (pb_retired p)" by auto
    show "ob < pb_next_object p" "pb_current p \<noteq> Some ob" using ob a(3) a(1) [OF own] by auto
  next
    fix ob assume ob: "ob \<in> set (pb_freed p)"
    show "ob \<notin> fst ` set (pb_retired p @ [(prev, e)])" using a(5) [OF ob] own by (auto simp: unowned_def)
    show "(if v = w then None else carried (pb_writers p v)) \<noteq> Some ob" for v
      using a(5) [OF ob] by (auto simp: unowned_def)
    show "ob < pb_next_object p" "pb_current p \<noteq> Some ob" using a(5) [OF ob] by (auto simp: unowned_def)
  qed (use a in auto)
qed

lemma sweep_owners:
  assumes "owners_ok p"
  shows "owners_ok (collect_sweep p)"
proof (cases "pb_collector p")
  case CollectIdle
  then show ?thesis using assms by (simp add: collect_sweep_def)
next
  case (CollectEpoch rt e)
  let ?q = "collect_sweep p" and ?D = "doomed rt e"
  have q: "pb_current ?q = pb_current p" "pb_writers ?q = pb_writers p" "pb_next_object ?q = pb_next_object p"
    "pb_retired ?q = filter (\<lambda>it. \<not> ?D it) (pb_retired p)" "pb_freed ?q = pb_freed p @ map fst (filter ?D (pb_retired p))"
    using CollectEpoch by (simp_all add: collect_sweep_def)
  note a = owners_facts [OF assms]
  have uniq: "x = y" if "(ob, x) \<in> set (pb_retired p)" "(ob, y) \<in> set (pb_retired p)" for ob x y
    using a(4) that by (metis eq_key_imp_eq_value)
  have gone: "unowned ?q ob" if h: "ob \<in> fst ` set (filter ?D (pb_retired p))" for ob
  proof -
    obtain x where x: "(ob, x) \<in> set (pb_retired p)" "?D (ob, x)" using h by auto
    have r: "ob \<in> fst ` set (pb_retired p)" using x by force
    have "ob \<notin> fst ` set (filter (\<lambda>it. \<not> ?D it) (pb_retired p))" using x uniq by force
    moreover have "pb_current p \<noteq> Some ob" using a(3) [OF r] by simp
    moreover have "\<forall>w. carried (pb_writers p w) \<noteq> Some ob" using a(1) r by blast
    ultimately show ?thesis unfolding unowned_def q by blast
  qed
  have before: "unowned ?q ob" if "ob \<in> set (pb_freed p)" for ob
    using a(5) [OF that] unfolding unowned_def q by auto
  show ?thesis
    unfolding owners_ok_def
  proof (intro conjI)
    show "\<forall>ob \<in> set (pb_freed ?q). ob < pb_next_object ?q \<and> unowned ?q ob"
    proof
      fix ob assume "ob \<in> set (pb_freed ?q)"
      then consider "ob \<in> set (pb_freed p)" | "ob \<in> fst ` set (filter ?D (pb_retired p))" unfolding q by auto
      then show "ob < pb_next_object ?q \<and> unowned ?q ob"
      proof cases
        case 1
        then show ?thesis using before a(5) by (simp add: q(3))
      next
        case 2
        then have "ob \<in> fst ` set (pb_retired p)" by auto
        then show ?thesis using gone [OF 2] a(3) by (simp add: q(3))
      qed
    qed
    show "distinct (pb_freed ?q)"
    proof -
      have "set (pb_freed p) \<inter> set (map fst (filter ?D (pb_retired p))) = {}"
        using a(5) by (force simp: unowned_def)
      then show ?thesis unfolding q using a(4,6) by (simp add: distinct_map_filter)
    qed
    show "distinct (map fst (pb_retired ?q))" using a(4) by (simp add: q(4) distinct_map_filter)
    show "\<forall>w ob. carried (pb_writers ?q w) = Some ob \<longrightarrow> ob < pb_next_object ?q \<and> pb_current ?q \<noteq> Some ob \<and>
        ob \<notin> fst ` set (pb_retired ?q) \<and> (\<forall>w'. carried (pb_writers ?q w') = Some ob \<longrightarrow> w' = w)"
      unfolding q using a(1) by (meson filter_is_subset image_mono subsetD)
    show "\<forall>ob \<in> fst ` set (pb_retired ?q). ob < pb_next_object ?q \<and> pb_current ?q \<noteq> Some ob"
      unfolding q using a(3) by (meson filter_is_subset image_mono subsetD)
  qed (use a(2) in \<open>simp add: q\<close>)
qed

subsection \<open>No object is freed while a block can reach it\<close>

lemma step_owners: "owners_ok p \<Longrightarrow> owners_ok (pub_step m p)"
proof (cases m)
  case BeginBlock
  assume "owners_ok p"
  then show ?thesis using BeginBlock owners_cong [of "beginBlock p" p] by (simp add: beginBlock_def)
next
  case Acquire
  assume "owners_ok p"
  then show ?thesis using Acquire owners_cong [of "hold_acquired p" p] by (simp add: hold_acquired_def)
next
  case EndBlock
  assume "owners_ok p"
  then show ?thesis using EndBlock owners_cong [of "p\<lparr>pb_in_block := False, pb_held := []\<rparr>" p] by simp
next
  case (PublishCall w)
  assume "owners_ok p"
  then show ?thesis using PublishCall exchange_owners by simp
next
  case (PublishNext w)
  assume ok: "owners_ok p"
  show ?thesis
  proof (cases "pb_writers p w")
    case (PubEpoch prev e)
    then show ?thesis using retire_owners [OF ok PubEpoch] PublishNext by simp
  next
    case (PubCounted prev)
    then show ?thesis
      using owners_cong [of "publish_step w p" p] ok PublishNext by (cases prev) (simp_all add: publish_step_def)
  qed (use owners_cong [of "publish_step w p" p] ok PublishNext in \<open>simp_all add: publish_step_def\<close>)
next
  case (CollectCall rt)
  assume "owners_ok p"
  then show ?thesis using CollectCall owners_cong [of "collect_epoch rt p" p] by (simp add: collect_epoch_def)
next
  case CollectNext
  assume "owners_ok p"
  then show ?thesis using CollectNext sweep_owners by simp
qed

lemma acquire_held:
  assumes ok: "owners_ok p" and held: "held_ok p" and block: "pb_in_block p"
  shows "held_ok (hold_acquired p)"
proof (cases "pb_current p")
  case None
  then show ?thesis using held by (simp add: hold_acquired_def acquire_def)
next
  case (Some ob)
  have new: "ob < pb_next_object p" "ob \<notin> set (pb_freed p)" "ob \<notin> fst ` set (pb_retired p)"
    "\<forall>w e. pb_writers p w \<noteq> PubEpoch ob e"
    using owners_facts(2) [OF ok Some] owners_facts(5) [OF ok, of ob] owners_facts(3) [OF ok, of ob]
      owners_facts(1) [OF ok, of _ ob] Some by (auto simp: unowned_def) (metis carried.simps(4))
  show ?thesis
    using held Some block new unfolding held_ok_def by (auto simp: hold_acquired_def acquire_def image_iff)
qed

lemma retire_held:
  assumes held: "held_ok p"
  shows "held_ok (publish_step w p)"
proof (cases "pb_writers p w")
  case (PubCounted prev)
  then show ?thesis using held
    by (cases prev) (auto simp: publish_step_def held_ok_def split: if_splits)
next
  case (PubEpoch prev e)
  then show ?thesis using held by (auto simp: publish_step_def held_ok_def split: if_splits)
qed (use held in \<open>auto simp: publish_step_def held_ok_def split: if_splits\<close>)

lemma sweep_held:
  assumes ok: "owners_ok p" and held: "held_ok p" and sane: "move_sane CollectNext p"
  shows "held_ok (collect_sweep p)"
proof (cases "pb_collector p")
  case CollectIdle
  then show ?thesis using held by (simp add: collect_sweep_def)
next
  case (CollectEpoch rt e)
  have "ob \<notin> fst ` set (filter (doomed rt e) (pb_retired p))" if ob: "ob \<in> set (pb_held p)" for ob
  proof
    assume "ob \<in> fst ` set (filter (doomed rt e) (pb_retired p))"
    then obtain R where R: "(ob, R) \<in> set (pb_retired p)" "doomed rt e (ob, R)" by auto
    have "rt" using sane CollectEpoch held ob by (cases rt) (auto simp: held_ok_def)
    moreover have "pb_rt_epoch p \<le> R" using held ob R(1) by (auto simp: held_ok_def)
    moreover have "e \<le> pb_rt_epoch p" using held CollectEpoch by (auto simp: held_ok_def)
    ultimately show False using R(2) by (simp add: doomed_def)
  qed
  then show ?thesis
    using held CollectEpoch unfolding held_ok_def by (auto simp: collect_sweep_def)
qed

lemma step_held:
  assumes "owners_ok p" and "held_ok p" and "move_sane m p"
  shows "held_ok (pub_step m p)"
proof (cases m)
  case BeginBlock
  then show ?thesis using assms(2) by (auto simp: beginBlock_def held_ok_def intro: le_SucI)
next
  case Acquire
  then show ?thesis using assms acquire_held by simp
next
  case EndBlock
  then show ?thesis using assms(2) by (auto simp: held_ok_def)
next
  case (PublishCall w)
  then show ?thesis using assms(2) by (auto simp: publish_exchange_def held_ok_def intro: less_SucI split: if_splits)
next
  case (PublishNext w)
  then show ?thesis using assms retire_held by simp
next
  case (CollectCall rt)
  then show ?thesis using assms(2) by (auto simp: collect_epoch_def held_ok_def)
next
  case CollectNext
  then show ?thesis using assms sweep_held by simp
qed

lemma run_keeps:
  "owners_ok p \<Longrightarrow> held_ok p \<Longrightarrow> run_sane ms p \<Longrightarrow> owners_ok (fold pub_step ms p) \<and> held_ok (fold pub_step ms p)"
  by (induction ms arbitrary: p) (auto simp: step_owners step_held)

text \<open>
  Claim C5.  Nothing the audio thread acquired in the block it is rendering has been freed, the
  published object has not been freed, and no object is freed twice, for any number of writers and
  any interleaving with the collector, as long as a collection told that nothing is rendering does
  its freeing while nothing is rendering.
\<close>

theorem no_use_after_free:
  assumes "run_sane ms new_publisher"
  shows "let p = fold pub_step ms new_publisher in
    set (pb_held p) \<inter> set (pb_freed p) = {} \<and> pb_current p \<notin> Some ` set (pb_freed p) \<and>
    distinct (pb_freed p) \<and> set (pb_freed p) \<inter> fst ` set (pb_retired p) = {}"
proof -
  let ?p = "fold pub_step ms new_publisher"
  have ok: "owners_ok ?p" and held: "held_ok ?p" using run_keeps [OF new_publisher_ok assms] by blast+
  have "unowned ?p ob" if "ob \<in> set (pb_freed ?p)" for ob using owners_facts(5) [OF ok that] by simp
  then show ?thesis
    unfolding Let_def using held owners_facts(6) [OF ok] by (auto simp: held_ok_def unowned_def)
qed

definition publish_all :: "nat \<Rightarrow> pub_move list" where
  "publish_all w = [PublishCall w, PublishNext w, PublishNext w, PublishNext w]"

definition busy_session :: "pub_move list" where
  "busy_session = publish_all 0 @ [BeginBlock, Acquire] @ publish_all 1 @ [CollectCall True, CollectNext, Acquire, EndBlock,
     BeginBlock, EndBlock, BeginBlock, Acquire, CollectCall True, CollectNext]"

theorem no_use_after_free_witness:
  "let p = fold pub_step busy_session new_publisher in
     pb_held p = [1] \<and> pb_freed p = [0] \<and> set (pb_held p) \<inter> set (pb_freed p) = {}"
proof -
  have sane: "run_sane busy_session new_publisher" by code_simp
  have "pb_held (fold pub_step busy_session new_publisher) = [1]"
    "pb_freed (fold pub_step busy_session new_publisher) = [0]"
    by code_simp+
  then show ?thesis using no_use_after_free [OF sane] by (simp add: Let_def)
qed

text \<open>
  The condition on the collector is needed, and the engine's housekeeping thread does not
  establish it: it samples that nothing is rendering before it calls \<open>collect(false)\<close>, and a block
  that begins after the sample can acquire an object which another thread then replaces before the
  sweep.
\<close>

lemma quiet_collect_frees_held:
  "let p = fold pub_step (publish_all 0 @ [CollectCall False, BeginBlock, Acquire] @ publish_all 1 @ [CollectNext]) new_publisher
   in pb_in_block p \<and> pb_held p = [0] \<and> pb_freed p = [0]"
  by code_simp

end
