(* ===== verification/Json.thy ===== *)
theory Json
  imports Floats "HOL-Library.Char_ord" "HOL-Library.List_Lexorder"
begin

text \<open>
  JSON values, the parser and the canonical writer (\<open>model/json.h\<close>, \<open>model/json.cpp\<close>).  A string is
  its bytes.  An object is the list of the entries of a \<open>std::map\<close>, ascending by key.  The two
  conversions through the locale's decimal point cancel and are left out; \<open>strtod\<close> rounds
  correctly and \<open>%.6f\<close> formats the exact value, ties to even.
\<close>

unbundle bit_operations_syntax

subsection \<open>Values\<close>

datatype Value = JNull | JBool bool | JInt int | JReal fp | JString string | JArray "Value list"
  | JObject "(string \<times> Value) list"

fun isNumber :: "Value \<Rightarrow> bool" where
  "isNumber (JInt i) = True" | "isNumber (JReal x) = True" | "isNumber v = False"

fun isObject :: "Value \<Rightarrow> bool" where
  "isObject (JObject ms) = True" | "isObject v = False"

fun asBool :: "bool \<Rightarrow> Value \<Rightarrow> bool" where
  "asBool fallback (JBool b) = b" | "asBool fallback v = fallback"

text \<open>A real is an integer only when it is exactly one, between the two bounds of the source.\<close>

fun asInt :: "int \<Rightarrow> Value \<Rightarrow> int" where
  "asInt fallback (JInt i) = i"
| "asInt fallback (JReal x) =
     (case x of
        Fin q \<Rightarrow> if q = of_int (trunc_rat q) \<and> - 9200000000000000000 \<le> q \<and> q \<le> 9200000000000000000
                 then trunc_rat q else fallback
      | _ \<Rightarrow> fallback)"
| "asInt fallback v = fallback"

fun asDouble :: "fp \<Rightarrow> Value \<Rightarrow> fp" where
  "asDouble fallback (JReal x) = x" | "asDouble fallback (JInt i) = dofint i" | "asDouble fallback v = fallback"

fun asString :: "Value \<Rightarrow> string option" where
  "asString (JString s) = Some s" | "asString v = None"

fun asArray :: "Value \<Rightarrow> Value list option" where
  "asArray (JArray vs) = Some vs" | "asArray v = None"

fun asObject :: "Value \<Rightarrow> (string \<times> Value) list option" where
  "asObject (JObject ms) = Some ms" | "asObject v = None"

definition json_find :: "string \<Rightarrow> Value \<Rightarrow> Value option" where
  "json_find key v = (case asObject v of None \<Rightarrow> None | Some ms \<Rightarrow> map_of ms key)"

text \<open>\<open>insert_or_assign\<close> on the sorted entries.\<close>

fun insert_or_assign :: "string \<Rightarrow> Value \<Rightarrow> (string \<times> Value) list \<Rightarrow> (string \<times> Value) list" where
  "insert_or_assign k v [] = [(k, v)]"
| "insert_or_assign k v ((j, w) # ms) =
     (if k < j then (k, v) # (j, w) # ms else if k = j then (k, v) # ms else (j, w) # insert_or_assign k v ms)"

subsection \<open>The parser's position\<close>

record ParseError =
  pe_line :: int
  pe_column :: int
  pe_message :: string

definition describe_error :: "ParseError \<Rightarrow> string" where
  "describe_error e = ''line '' @ int_to_string (pe_line e) @ '', column '' @ int_to_string (pe_column e) @ '': '' @ pe_message e"

text \<open>The text from \<open>position_\<close> on, and where that is.\<close>

record Parser =
  ps_rest :: string
  ps_line :: int
  ps_column :: int

definition atEnd :: "Parser \<Rightarrow> bool" where "atEnd st \<longleftrightarrow> ps_rest st = []"

definition next_is :: "char \<Rightarrow> Parser \<Rightarrow> bool" where
  "next_is c st \<longleftrightarrow> (case ps_rest st of [] \<Rightarrow> False | d # cs \<Rightarrow> d = c)"

primrec advance :: "nat \<Rightarrow> Parser \<Rightarrow> Parser" where
  "advance 0 st = st"
| "advance (Suc n) st =
     (case ps_rest st of
        [] \<Rightarrow> st
      | c # cs \<Rightarrow> advance n (if c = CHR 0x0A then \<lparr>ps_rest = cs, ps_line = ps_line st + 1, ps_column = 1\<rparr>
                             else \<lparr>ps_rest = cs, ps_line = ps_line st, ps_column = ps_column st + 1\<rparr>))"

definition parse_fail :: "string \<Rightarrow> Parser \<Rightarrow> ParseError" where
  "parse_fail message st = \<lparr>pe_line = ps_line st, pe_column = ps_column st, pe_message = message\<rparr>"

definition is_space :: "char \<Rightarrow> bool" where
  "is_space c \<longleftrightarrow> c = CHR '' '' \<or> c = CHR 0x09 \<or> c = CHR 0x0A \<or> c = CHR 0x0D"

definition skipWhitespace :: "Parser \<Rightarrow> Parser" where
  "skipWhitespace st = advance (length (takeWhile is_space (ps_rest st))) st"

definition isDigit :: "char \<Rightarrow> bool" where
  "isDigit c \<longleftrightarrow> CHR ''0'' \<le> c \<and> c \<le> CHR ''9''"

subsection \<open>Strings\<close>

definition hex_digit :: "char \<Rightarrow> nat option" where
  "hex_digit c =
     (if isDigit c then Some (of_char c - 48)
      else if CHR ''a'' \<le> c \<and> c \<le> CHR ''f'' then Some (of_char c - 97 + 10)
      else if CHR ''A'' \<le> c \<and> c \<le> CHR ''F'' then Some (of_char c - 65 + 10)
      else None)"

fun hex_value :: "nat \<Rightarrow> string \<Rightarrow> nat option" where
  "hex_value acc [] = Some acc"
| "hex_value acc (c # cs) = (case hex_digit c of None \<Rightarrow> None | Some d \<Rightarrow> hex_value (acc * 16 + d) cs)"

definition parseHex4 :: "Parser \<Rightarrow> ParseError + nat \<times> Parser" where
  "parseHex4 st =
     (if length (ps_rest st) < 4 then Inl (parse_fail (''truncated '' @ CHR 0x5C # ''u escape'') st)
      else case hex_value 0 (take 4 (ps_rest st)) of
          None \<Rightarrow> Inl (parse_fail (''bad hex digit in '' @ CHR 0x5C # ''u escape'') st)
        | Some code \<Rightarrow> Inr (code, advance 4 st))"

definition byte :: "nat \<Rightarrow> char" where "byte n = char_of n"

definition appendUtf8 :: "nat \<Rightarrow> string \<Rightarrow> string" where
  "appendUtf8 code out = out @
     (if code < 0x80 then [byte code]
      else if code < 0x800 then [byte (0xC0 OR code div 2 ^ 6), byte (0x80 OR code mod 2 ^ 6)]
      else if code < 0x10000 then
        [byte (0xE0 OR code div 2 ^ 12), byte (0x80 OR code div 2 ^ 6 mod 2 ^ 6), byte (0x80 OR code mod 2 ^ 6)]
      else [byte (0xF0 OR code div 2 ^ 18), byte (0x80 OR code div 2 ^ 12 mod 2 ^ 6),
            byte (0x80 OR code div 2 ^ 6 mod 2 ^ 6), byte (0x80 OR code mod 2 ^ 6)])"

text \<open>
  The part of an escape after its \<open>u\<close>, with the surrogate pair it may begin.  When the second escape
  is no low surrogate the source goes back in the text but not in the column.
\<close>

definition unicode_escape :: "Parser \<Rightarrow> ParseError + nat \<times> Parser" where
  "unicode_escape st =
     (case parseHex4 st of
        Inl e \<Rightarrow> Inl e
      | Inr (code, mark) \<Rightarrow>
          if 0xD800 \<le> code \<and> code \<le> 0xDBFF \<and> take 2 (ps_rest mark) = [CHR 0x5C, CHR ''u''] then
            (case parseHex4 (advance 2 mark) of
               Inl e \<Rightarrow> Inl e
             | Inr (low, st2) \<Rightarrow>
                 if 0xDC00 \<le> low \<and> low \<le> 0xDFFF
                 then Inr (0x10000 + (code - 0xD800) * 2 ^ 10 + (low - 0xDC00), st2)
                 else Inr (code, st2\<lparr>ps_rest := ps_rest mark\<rparr>))
          else Inr (code, mark))"

definition simple_escape :: "char \<Rightarrow> char option" where
  "simple_escape c =
     (if c = CHR 0x22 then Some (CHR 0x22) else if c = CHR 0x5C then Some (CHR 0x5C)
      else if c = CHR ''/'' then Some (CHR ''/'') else if c = CHR ''b'' then Some (CHR 0x08)
      else if c = CHR ''f'' then Some (CHR 0x0C) else if c = CHR ''n'' then Some (CHR 0x0A)
      else if c = CHR ''r'' then Some (CHR 0x0D) else if c = CHR ''t'' then Some (CHR 0x09) else None)"

lemma advance_rest [simp]: "ps_rest (advance n st) = drop n (ps_rest st)"
  by (induction n arbitrary: st) (auto split: list.split)

lemma parseHex4_rest: "parseHex4 st = Inr (code, st') \<Longrightarrow> ps_rest st' = drop 4 (ps_rest st)"
  by (auto simp: parseHex4_def split: if_splits option.splits)

lemma unicode_escape_rest:
  "unicode_escape st = Inr (code, st') \<Longrightarrow> length (ps_rest st') \<le> length (ps_rest st)"
  by (auto simp: unicode_escape_def split: sum.splits if_splits dest!: parseHex4_rest)

text \<open>The loop of \<open>parseString\<close>, after the opening quote.\<close>

function string_loop :: "string \<Rightarrow> Parser \<Rightarrow> ParseError + string \<times> Parser" where
  "string_loop out st =
     (case ps_rest st of
        [] \<Rightarrow> Inl (parse_fail ''unterminated string'' st)
      | c # cs \<Rightarrow>
          if c = CHR 0x22 then Inr (out, advance 1 st)
          else if c = CHR 0x5C then
            (case cs of
               [] \<Rightarrow> Inl (parse_fail ''unterminated escape'' (advance 1 st))
             | escape # ds \<Rightarrow>
                 if escape = CHR ''u'' then
                   (case unicode_escape (advance 2 st) of
                      Inl e \<Rightarrow> Inl e
                    | Inr (code, st') \<Rightarrow> string_loop (appendUtf8 code out) st')
                 else (case simple_escape escape of
                      None \<Rightarrow> Inl (parse_fail ''unrecognised escape'' (advance 2 st))
                    | Some d \<Rightarrow> string_loop (out @ [d]) (advance 2 st)))
          else if (of_char c :: nat) < 0x20 then Inl (parse_fail ''control character in string'' st)
          else string_loop (out @ [c]) (advance 1 st))"
  by pat_completeness auto
termination
  by (relation "measure (\<lambda>(out, st). length (ps_rest st))") (auto dest!: unicode_escape_rest)

declare string_loop.simps [simp del]

definition parseString :: "Parser \<Rightarrow> ParseError + string \<times> Parser" where
  "parseString st = string_loop [] (advance 1 st)"

subsection \<open>Numbers\<close>

definition starts :: "(char \<Rightarrow> bool) \<Rightarrow> string \<Rightarrow> bool" where
  "starts P s \<longleftrightarrow> (case s of [] \<Rightarrow> False | c # cs \<Rightarrow> P c)"

definition digit_run :: "string \<Rightarrow> nat" where
  "digit_run s = length (takeWhile isDigit s)"

text \<open>The lengths of the parts of a number token: sign and digits, fraction, exponent.\<close>

definition whole_length :: "string \<Rightarrow> nat" where
  "whole_length s = (let sign = (if starts (\<lambda>c. c = CHR ''-'') s then 1 else 0) in sign + digit_run (drop sign s))"

definition fraction_length :: "string \<Rightarrow> nat" where
  "fraction_length s = (if starts (\<lambda>c. c = CHR ''.'') s then 1 + digit_run (drop 1 s) else 0)"

definition exponent_length :: "string \<Rightarrow> nat" where
  "exponent_length s =
     (if starts (\<lambda>c. c = CHR ''e'' \<or> c = CHR ''E'') s then
        let sign = (if starts (\<lambda>c. c = CHR ''+'' \<or> c = CHR ''-'') (drop 1 s) then 1 else 0)
        in 1 + sign + digit_run (drop (1 + sign) s)
      else 0)"

definition number_parts :: "string \<Rightarrow> string \<times> string \<times> string" where
  "number_parts s =
     (let a = whole_length s; b = fraction_length (drop a s); c = exponent_length (drop (a + b) s)
      in (take a s, take b (drop a s), take c (drop (a + b) s)))"

text \<open>\<open>std::from_chars\<close> on a token of an optional sign and digits.\<close>

definition signed_value :: "string \<Rightarrow> int" where
  "signed_value token =
     (if starts (\<lambda>c. c = CHR ''-'') token then - int (decimal_value 0 (drop 1 token)) else int (decimal_value 0 token))"

definition from_chars :: "string \<Rightarrow> int option" where
  "from_chars token = (if in_int64 (signed_value token) then Some (signed_value token) else None)"

text \<open>
  \<open>std::strtod\<close> on such parts: it fails to consume the token when there is no digit before the
  exponent or none in it.
\<close>

definition strtod :: "string \<Rightarrow> string \<Rightarrow> string \<Rightarrow> fp option" where
  "strtod whole fraction exponent =
     (let negative = starts (\<lambda>c. c = CHR ''-'') whole;
          digits = (if negative then drop 1 whole else whole) @ drop 1 fraction;
          sign = (if starts (\<lambda>c. c = CHR ''+'' \<or> c = CHR ''-'') (drop 1 exponent) then 1 else 0);
          scale = (if starts (\<lambda>c. c = CHR ''-'') (drop 1 exponent) then - 1 else 1) *
            int (decimal_value 0 (drop (1 + sign) exponent)) - int (length (drop 1 fraction));
          magnitude = of_nat (decimal_value 0 digits) * 10 powi scale
      in if digits = [] \<or> (exponent \<noteq> [] \<and> length exponent = 1 + sign) then None
         else Some (rnd64 (if negative then - magnitude else magnitude)))"

definition parseNumber :: "Parser \<Rightarrow> ParseError + Value \<times> Parser" where
  "parseNumber st =
     (let (whole, fraction, exponent) = number_parts (ps_rest st);
          token = whole @ fraction @ exponent;
          st' = advance (length token) st;
          real = (case strtod whole fraction exponent of
                    None \<Rightarrow> Inl (parse_fail ''malformed number'' st')
                  | Some x \<Rightarrow> Inr (JReal x, st'))
      in if token = [] \<or> token = ''-'' then Inl (parse_fail ''expected a value'' st')
         else if fraction = [] \<and> exponent = [] then
           (case from_chars whole of Some i \<Rightarrow> Inr (JInt i, st') | None \<Rightarrow> real)
         else real)"

subsection \<open>Values\<close>

definition MaxDepth :: nat where "MaxDepth = 64"

definition parseLiteral :: "string \<Rightarrow> Value \<Rightarrow> Parser \<Rightarrow> ParseError + Value \<times> Parser" where
  "parseLiteral word v st =
     (if take (length word) (ps_rest st) \<noteq> word then Inl (parse_fail ''unrecognised token'' st)
      else Inr (v, advance (length word) st))"

text \<open>
  The recursive descent.  Fuel bounds the calls: \<open>None\<close> is running out of it, which
  \<open>parse_returns\<close> shows not to happen with the fuel \<open>parse\<close> gives.
\<close>

fun bind_result :: "(ParseError + 'a \<times> Parser) option \<Rightarrow> ('a \<Rightarrow> Parser \<Rightarrow> (ParseError + 'b \<times> Parser) option) \<Rightarrow>
    (ParseError + 'b \<times> Parser) option" where
  "bind_result None f = None"
| "bind_result (Some (Inl e)) f = Some (Inl e)"
| "bind_result (Some (Inr (a, st))) f = f a st"

fun parse_value :: "nat \<Rightarrow> nat \<Rightarrow> Parser \<Rightarrow> (ParseError + Value \<times> Parser) option"
  and parse_members :: "nat \<Rightarrow> nat \<Rightarrow> (string \<times> Value) list \<Rightarrow> Parser \<Rightarrow> (ParseError + Value \<times> Parser) option"
  and parse_elements :: "nat \<Rightarrow> nat \<Rightarrow> Value list \<Rightarrow> Parser \<Rightarrow> (ParseError + Value \<times> Parser) option" where
  "parse_value 0 depth st = None"
| "parse_value (Suc fuel) depth st =
     (if depth > MaxDepth then Some (Inl (parse_fail ''nesting too deep'' st))
      else case ps_rest st of
          [] \<Rightarrow> Some (Inl (parse_fail ''unexpected end of input'' st))
        | c # cs \<Rightarrow>
            if c = CHR ''{'' then
              let st1 = skipWhitespace (advance 1 st) in
              if next_is (CHR ''}'') st1 then Some (Inr (JObject [], advance 1 st1)) else parse_members fuel depth [] st1
            else if c = CHR ''['' then
              let st1 = skipWhitespace (advance 1 st) in
              if next_is (CHR '']'') st1 then Some (Inr (JArray [], advance 1 st1)) else parse_elements fuel depth [] st1
            else if c = CHR 0x22 then bind_result (Some (parseString st)) (\<lambda>s st'. Some (Inr (JString s, st')))
            else if c = CHR ''t'' then Some (parseLiteral ''true'' (JBool True) st)
            else if c = CHR ''f'' then Some (parseLiteral ''false'' (JBool False) st)
            else if c = CHR ''n'' then Some (parseLiteral ''null'' JNull st)
            else Some (parseNumber st))"
| "parse_members 0 depth ms st = None"
| "parse_members (Suc fuel) depth ms st =
     (let st1 = skipWhitespace st in
      if \<not> next_is (CHR 0x22) st1 then Some (Inl (parse_fail ''expected a key'' st1))
      else bind_result (Some (parseString st1)) (\<lambda>key st2.
        let st3 = skipWhitespace st2 in
        if \<not> next_is (CHR '':'') st3 then Some (Inl (parse_fail (''expected '' @ CHR 0x27 # '':'' @ CHR 0x27 # '' after key'') st3))
        else bind_result (parse_value fuel (depth + 1) (skipWhitespace (advance 1 st3))) (\<lambda>v st4.
          let ms' = insert_or_assign key v ms; st5 = skipWhitespace st4 in
          if atEnd st5 then Some (Inl (parse_fail ''unterminated object'' st5))
          else if next_is (CHR '','') st5 then parse_members fuel depth ms' (advance 1 st5)
          else if next_is (CHR ''}'') st5 then Some (Inr (JObject ms', advance 1 st5))
          else Some (Inl (parse_fail (''expected '' @ CHR 0x27 # '','' @ CHR 0x27 # '' or '' @ CHR 0x27 # ''}'' @ [CHR 0x27]) st5)))))"
| "parse_elements 0 depth vs st = None"
| "parse_elements (Suc fuel) depth vs st =
     bind_result (parse_value fuel (depth + 1) (skipWhitespace st)) (\<lambda>v st1.
       let vs' = vs @ [v]; st2 = skipWhitespace st1 in
       if atEnd st2 then Some (Inl (parse_fail ''unterminated array'' st2))
       else if next_is (CHR '','') st2 then parse_elements fuel depth vs' (advance 1 st2)
       else if next_is (CHR '']'') st2 then Some (Inr (JArray vs', advance 1 st2))
       else Some (Inl (parse_fail (''expected '' @ CHR 0x27 # '','' @ CHR 0x27 # '' or '' @ CHR 0x27 # '']'' @ [CHR 0x27]) st2)))"

definition parser_run :: "nat \<Rightarrow> Parser \<Rightarrow> (ParseError + Value) option" where
  "parser_run fuel st =
     (case parse_value fuel 0 (skipWhitespace st) of
        None \<Rightarrow> None
      | Some (Inl e) \<Rightarrow> Some (Inl e)
      | Some (Inr (v, st1)) \<Rightarrow>
          let st2 = skipWhitespace st1 in
          if ps_rest st2 \<noteq> [] then Some (Inl (parse_fail ''unexpected trailing content'' st2)) else Some (Inr v))"

definition parse_fuel :: "string \<Rightarrow> nat" where
  "parse_fuel text = 2 * length text + 2"

definition byte_order_mark :: string where
  "byte_order_mark = [CHR 0xEF, CHR 0xBB, CHR 0xBF]"

text \<open>The fallback message is for a failure that reported none; none does.\<close>

definition parse :: "string \<Rightarrow> (ParseError + Value) option" where
  "parse text =
     (let body = (if take 3 text = byte_order_mark then drop 3 text else text)
      in parser_run (parse_fuel body) \<lparr>ps_rest = body, ps_line = 1, ps_column = 1\<rparr>)"

subsection \<open>The canonical writer\<close>

definition escape_char :: "char \<Rightarrow> string" where
  "escape_char c =
     (if c = CHR 0x22 then [CHR 0x5C, CHR 0x22] else if c = CHR 0x5C then [CHR 0x5C, CHR 0x5C]
      else if (of_char c :: nat) < 0x20 then
        [CHR 0x5C, CHR ''u'', CHR ''0'', CHR ''0'', digit_char (of_char c div 16),
         (if of_char c mod 16 < (10 :: nat) then digit_char (of_char c mod 16) else char_of (of_char c mod 16 + 87 :: nat))]
      else [c])"

definition escapeString :: "string \<Rightarrow> string" where
  "escapeString s = CHR 0x22 # concat (map escape_char s) @ [CHR 0x22]"

text \<open>
  \<open>%.6f\<close> of a finite value.  The source formats into 64 bytes and then reads as many bytes as the
  format needed; for a value of more than 63 characters that is outside the buffer, and the model's
  text is what a large enough buffer would hold.
\<close>

definition micro :: "rat \<Rightarrow> int" where "micro q = round_even (q * 10 ^ 6)"

definition six_digits :: "nat \<Rightarrow> string" where
  "six_digits n = map (\<lambda>i. digit_char (n div 10 ^ i mod 10)) [5, 4, 3, 2, 1, 0]"

definition format_micro :: "nat \<Rightarrow> string" where
  "format_micro n = nat_to_string (n div 10 ^ 6) @ ''.'' @ six_digits (n mod 10 ^ 6)"

definition formatReal :: "rat \<Rightarrow> string" where
  "formatReal q =
     (let text = (if q < 0 then CHR ''-'' # format_micro (nat (- micro q)) else format_micro (nat (micro q)))
      in if text = ''-0.000000'' then ''0.000000'' else text)"

definition format_fits :: "rat \<Rightarrow> bool" where
  "format_fits q \<longleftrightarrow> length (formatReal q) \<le> 63"

text \<open>Numbers, then at most one object.\<close>

fun numbers_then_object :: "Value list \<Rightarrow> bool" where
  "numbers_then_object [] = True"
| "numbers_then_object (v # vs) = (if isNumber v then numbers_then_object vs else isObject v \<and> vs = [])"

definition isOneLineArray :: "Value list \<Rightarrow> bool" where
  "isOneLineArray vs = (case vs of [] \<Rightarrow> False | v # _ \<Rightarrow> isNumber v \<and> numbers_then_object vs)"

text \<open>A value that is not a container; \<open>None\<close> is the non-finite number that clears \<open>ok_\<close>.\<close>

fun write_scalar :: "Value \<Rightarrow> string option" where
  "write_scalar JNull = Some ''null''"
| "write_scalar (JBool b) = Some (if b then ''true'' else ''false'')"
| "write_scalar (JInt i) = Some (int_to_string i)"
| "write_scalar (JReal x) = (case x of Fin q \<Rightarrow> Some (formatReal q) | _ \<Rightarrow> None)"
| "write_scalar (JString s) = Some (escapeString s)"
| "write_scalar v = None"

definition joined :: "string \<Rightarrow> string option \<Rightarrow> string option \<Rightarrow> string option" where
  "joined sep a b = (case a of None \<Rightarrow> None | Some s \<Rightarrow> map_option (\<lambda>t. s @ sep @ t) b)"

definition member_text :: "string \<Rightarrow> string option \<Rightarrow> string option" where
  "member_text key v = map_option (\<lambda>t. escapeString key @ '': '' @ t) v"

definition bracketed :: "string \<Rightarrow> string \<Rightarrow> string option \<Rightarrow> string option" where
  "bracketed a b t = map_option (\<lambda>t. a @ t @ b) t"

fun writeInline :: "Value \<Rightarrow> string option"
  and inline_members :: "(string \<times> Value) list \<Rightarrow> string option"
  and inline_elements :: "Value list \<Rightarrow> string option" where
  "writeInline (JObject ms) = bracketed ''{'' ''}'' (inline_members ms)"
| "writeInline (JArray vs) = bracketed ''['' '']'' (inline_elements vs)"
| "writeInline v = write_scalar v"
| "inline_members [] = Some []"
| "inline_members [(k, v)] = member_text k (writeInline v)"
| "inline_members ((k, v) # m # ms) = joined '', '' (member_text k (writeInline v)) (inline_members (m # ms))"
| "inline_elements [] = Some []"
| "inline_elements [v] = writeInline v"
| "inline_elements (v # w # vs) = joined '', '' (writeInline v) (inline_elements (w # vs))"

definition indent :: "nat \<Rightarrow> string" where
  "indent depth = replicate (2 * depth) (CHR '' '')"

definition newline :: string where "newline = [CHR 0x0A]"

definition line_of :: "nat \<Rightarrow> string option \<Rightarrow> string option" where
  "line_of depth t = map_option (\<lambda>t. indent (depth + 1) @ t) t"

definition block :: "string \<Rightarrow> string \<Rightarrow> nat \<Rightarrow> string option \<Rightarrow> string option" where
  "block a b depth t = map_option (\<lambda>t. a @ newline @ t @ newline @ indent depth @ b) t"

fun write_value :: "nat \<Rightarrow> Value \<Rightarrow> string option"
  and write_members :: "nat \<Rightarrow> (string \<times> Value) list \<Rightarrow> string option"
  and write_elements :: "nat \<Rightarrow> Value list \<Rightarrow> string option" where
  "write_value depth (JArray vs) =
     (if vs = [] then Some ''[]''
      else if isOneLineArray vs then bracketed ''['' '']'' (inline_elements vs)
      else block ''['' '']'' depth (write_elements depth vs))"
| "write_value depth (JObject ms) =
     (if ms = [] then Some ''{}'' else block ''{'' ''}'' depth (write_members depth ms))"
| "write_value depth v = write_scalar v"
| "write_members depth [] = Some []"
| "write_members depth [(k, v)] = line_of depth (member_text k (write_value (depth + 1) v))"
| "write_members depth ((k, v) # m # ms) =
     joined ('','' @ newline) (line_of depth (member_text k (write_value (depth + 1) v))) (write_members depth (m # ms))"
| "write_elements depth [] = Some []"
| "write_elements depth [v] = line_of depth (write_value (depth + 1) v)"
| "write_elements depth (v # w # vs) =
     joined ('','' @ newline) (line_of depth (write_value (depth + 1) v)) (write_elements depth (w # vs))"

definition hoisted_entries :: "string list \<Rightarrow> (string \<times> Value) list \<Rightarrow> (string \<times> Value) list" where
  "hoisted_entries order ms =
     concat (map (\<lambda>k. case map_of ms k of None \<Rightarrow> [] | Some v \<Rightarrow> [(k, v)]) order) @
     filter (\<lambda>(k, v). k \<notin> set order) ms"

definition writeCanonical :: "Value \<Rightarrow> string list \<Rightarrow> string option" where
  "writeCanonical document order =
     map_option (\<lambda>t. t @ newline)
       (case document of
          JObject ms \<Rightarrow>
            if ms = [] then Some ''{}'' else block ''{'' ''}'' 0 (write_members 0 (hoisted_entries order ms))
        | _ \<Rightarrow> write_value 0 document)"

end
