(* ===== verification/Json_Text.thy ===== *)
theory Json_Text
  imports Json Ordered_Map
begin

text \<open>
  The tokens of the canonical form read back: strings with their escapes, integers, and reals with
  six decimals, which also determine the value that is read.
\<close>

subsection \<open>White space and strings\<close>

lemma skip_rest [simp]: "ps_rest (skipWhitespace st) = dropWhile is_space (ps_rest st)"
  by (simp add: skipWhitespace_def dropWhile_eq_drop)

lemma below_32:
  assumes "n < (32 :: nat)"
  shows "hex_value 0 [CHR ''0'', CHR ''0'', digit_char (n div 16),
     if n mod 16 < 10 then digit_char (n mod 16) else char_of (n mod 16 + 87 :: nat)] = Some n"
proof -
  have "\<forall>n \<in> set [0 ..< 32]. hex_value 0 [CHR ''0'', CHR ''0'', digit_char (n div 16),
     if n mod 16 < 10 then digit_char (n mod 16) else char_of (n mod 16 + 87 :: nat)] = Some n"
    by code_simp
  moreover have "n \<in> set [0 ..< 32]" using assms by simp
  ultimately show ?thesis by (rule bspec)
qed

lemma control_escape:
  assumes "(of_char c :: nat) < 0x20"
    and "ps_rest st = [CHR ''0'', CHR ''0'', digit_char (of_char c div 16),
      if of_char c mod 16 < (10 :: nat) then digit_char (of_char c mod 16) else char_of (of_char c mod 16 + 87 :: nat)] @ k"
  shows "\<exists>st'. unicode_escape st = Inr (of_char c, st') \<and> ps_rest st' = k"
proof -
  have "parseHex4 st = Inr (of_char c, advance 4 st)"
    using below_32 [of "of_char c"] assms unfolding parseHex4_def by simp
  moreover have "\<not> 0xD800 \<le> (of_char c :: nat)" using assms(1) by linarith
  ultimately show ?thesis using assms(2) by (simp add: unicode_escape_def)
qed

lemma appendUtf8_byte: "(of_char c :: nat) < 0x20 \<Longrightarrow> appendUtf8 (of_char c) out = out @ [c]"
  by (simp add: appendUtf8_def byte_def)

lemma string_loop_reads:
  "ps_rest st = concat (map escape_char s) @ CHR 0x22 # k \<Longrightarrow>
   \<exists>st'. string_loop out st = Inr (out @ s, st') \<and> ps_rest st' = k"
proof (induction s arbitrary: out st)
  case Nil
  then show ?case by (subst string_loop.simps) simp
next
  case (Cons c s)
  let ?r = "concat (map escape_char s) @ CHR 0x22 # k"
  consider "c = CHR 0x22 \<or> c = CHR 0x5C" | "c \<noteq> CHR 0x22" "c \<noteq> CHR 0x5C" "(of_char c :: nat) < 0x20"
    | "c \<noteq> CHR 0x22" "c \<noteq> CHR 0x5C" "\<not> (of_char c :: nat) < 0x20" by blast
  then show ?case
  proof cases
    case 1
    then have "escape_char c = [CHR 0x5C, c]" by (auto simp: escape_char_def)
    then have r: "ps_rest st = CHR 0x5C # c # ?r" using Cons.prems by simp
    have "string_loop out st = string_loop (out @ [c]) (advance 2 st)"
      using 1 by (subst string_loop.simps) (auto simp: r simple_escape_def)
    then show ?thesis using Cons.IH [of "advance 2 st" "out @ [c]"] r by simp
  next
    case 2
    let ?h = "[CHR ''0'', CHR ''0'', digit_char (of_char c div 16),
      if of_char c mod 16 < (10 :: nat) then digit_char (of_char c mod 16) else char_of (of_char c mod 16 + 87 :: nat)]"
    have e: "escape_char c = CHR 0x5C # CHR ''u'' # ?h" using 2 by (simp add: escape_char_def)
    have r: "ps_rest st = CHR 0x5C # CHR ''u'' # ?h @ ?r" using Cons.prems unfolding list.map concat.simps e by simp
    obtain st' where u: "unicode_escape (advance 2 st) = Inr (of_char c, st')" "ps_rest st' = ?r"
      using control_escape [OF 2(3), of "advance 2 st" ?r] r by auto
    have "string_loop out st = string_loop (out @ [c]) st'"
      using appendUtf8_byte [OF 2(3), of out] by (subst string_loop.simps) (simp add: r u(1))
    then show ?thesis using Cons.IH [OF u(2), of "out @ [c]"] by simp
  next
    case 3
    then have "escape_char c = [c]" by (simp add: escape_char_def)
    then have r: "ps_rest st = c # ?r" using Cons.prems by simp
    have "string_loop out st = string_loop (out @ [c]) (advance 1 st)"
      using 3 by (subst string_loop.simps) (simp add: r)
    then show ?thesis using Cons.IH [of "advance 1 st" "out @ [c]"] r by simp
  qed
qed

lemma parseString_reads:
  "ps_rest st = escapeString s @ k \<Longrightarrow> \<exists>st'. parseString st = Inr (s, st') \<and> ps_rest st' = k"
  using string_loop_reads [of "advance 1 st" s k "[]"] by (simp add: parseString_def escapeString_def)

subsection \<open>Digits\<close>

lemma isDigit_digit_char: "d < 10 \<Longrightarrow> isDigit (digit_char d)"
proof -
  have "\<forall>d \<in> set [0 ..< 10]. isDigit (digit_char d)" by code_simp
  moreover assume "d < 10"
  then have "d \<in> set [0 ..< 10]" by simp
  ultimately show "isDigit (digit_char d)" by (rule bspec)
qed

lemma nat_to_string_digits: "list_all isDigit (nat_to_string n) \<and> nat_to_string n \<noteq> []"
proof (induction n rule: nat_to_string.induct)
  case (1 n)
  then show ?case by (subst (1 2) nat_to_string.simps) (auto simp: isDigit_digit_char)
qed

lemma digits_not:
  "isDigit c \<Longrightarrow> c \<noteq> CHR ''-'' \<and> c \<noteq> CHR ''.'' \<and> c \<noteq> CHR ''e'' \<and> c \<noteq> CHR ''E'' \<and> \<not> is_space c \<and>
     c \<noteq> CHR '']'' \<and> c \<noteq> CHR ''}''"
  by (auto simp: isDigit_def is_space_def less_eq_char_def)

text \<open>Text that cannot go on a number.\<close>

definition clean :: "string \<Rightarrow> bool" where
  "clean k \<longleftrightarrow> \<not> starts (\<lambda>c. isDigit c \<or> c = CHR ''.'' \<or> c = CHR ''e'' \<or> c = CHR ''E'') k"

lemma cleanI: "clean []" "\<not> isDigit c \<Longrightarrow> c \<noteq> CHR ''.'' \<Longrightarrow> c \<noteq> CHR ''e'' \<Longrightarrow> c \<noteq> CHR ''E'' \<Longrightarrow> clean (c # cs)"
  by (simp_all add: clean_def starts_def)

lemma clean_starts:
  assumes "clean k"
  shows "takeWhile isDigit k = []" "fraction_length k = 0" "exponent_length k = 0"
  using assms by (auto simp: clean_def starts_def fraction_length_def exponent_length_def split: list.splits)

lemma digit_run_append:
  "list_all isDigit ds \<Longrightarrow> takeWhile isDigit k = [] \<Longrightarrow> digit_run (ds @ k) = length ds"
  by (simp add: digit_run_def list_all_iff takeWhile_append2)

lemma whole_length_append:
  assumes "list_all isDigit ds" and "ds \<noteq> []" and "takeWhile isDigit k = []"
  shows "whole_length (ds @ k) = length ds" "whole_length (CHR ''-'' # ds @ k) = Suc (length ds)"
proof -
  obtain c cs where ds: "ds = c # cs" "isDigit c" using assms(1,2) by (cases ds) auto
  then have "\<not> starts (\<lambda>c. c = CHR ''-'') (ds @ k)" using digits_not [of c] by (simp add: starts_def)
  then show "whole_length (ds @ k) = length ds"
    using digit_run_append [OF assms(1,3)] by (simp add: whole_length_def)
  show "whole_length (CHR ''-'' # ds @ k) = Suc (length ds)"
    using digit_run_append [OF assms(1,3)] by (simp add: whole_length_def starts_def)
qed

text \<open>A sign or none, then digits.\<close>

definition sign_text :: "bool \<Rightarrow> string" where
  "sign_text neg = (if neg then ''-'' else [])"

lemma number_parts_whole:
  assumes "list_all isDigit ds" and "ds \<noteq> []" and "clean k"
  shows "number_parts (sign_text neg @ ds @ k) = (sign_text neg @ ds, [], [])"
  using whole_length_append [OF assms(1,2) clean_starts(1) [OF assms(3)]] clean_starts(2,3) [OF assms(3)]
  by (simp add: number_parts_def Let_def sign_text_def)

lemma number_parts_real:
  assumes "list_all isDigit ds" and "ds \<noteq> []" and "list_all isDigit fs" and "clean k"
  shows "number_parts (sign_text neg @ ds @ CHR ''.'' # fs @ k) = (sign_text neg @ ds, CHR ''.'' # fs, [])"
proof -
  have dot: "takeWhile isDigit (CHR ''.'' # fs @ k) = []" by (simp add: isDigit_def less_eq_char_def)
  have "fraction_length (CHR ''.'' # fs @ k) = Suc (length fs)"
    using digit_run_append [OF assms(3) clean_starts(1) [OF assms(4)]] by (simp add: fraction_length_def starts_def)
  then show ?thesis
    using whole_length_append [OF assms(1,2) dot] clean_starts(3) [OF assms(4)]
    by (simp add: number_parts_def Let_def sign_text_def)
qed

subsection \<open>Integers\<close>

lemma int_to_string_parts: "int_to_string i = sign_text (i < 0) @ nat_to_string (nat \<bar>i\<bar>)"
  by (simp add: int_to_string_def sign_text_def)

lemma starts_digits: "list_all isDigit ds \<Longrightarrow> \<not> starts (\<lambda>c. c = CHR ''-'') ds"
  by (cases ds) (auto simp: starts_def dest: digits_not)

lemma signed_value_parts:
  assumes "list_all isDigit ds"
  shows "signed_value (sign_text neg @ ds) = (if neg then - int (decimal_value 0 ds) else int (decimal_value 0 ds))"
  using starts_digits [OF assms] by (simp add: signed_value_def sign_text_def starts_def)

lemma parseNumber_int:
  assumes "ps_rest st = int_to_string i @ k" and "clean k" and "in_int64 i"
  shows "\<exists>st'. parseNumber st = Inr (JInt i, st') \<and> ps_rest st' = k"
proof -
  let ?ds = "nat_to_string (nat \<bar>i\<bar>)"
  have ds: "list_all isDigit ?ds" "?ds \<noteq> []" using nat_to_string_digits by auto
  have parts: "number_parts (ps_rest st) = (sign_text (i < 0) @ ?ds, [], [])"
    using number_parts_whole [OF ds assms(2)] assms(1) by (simp add: int_to_string_parts)
  have v: "signed_value (sign_text (i < 0) @ ?ds) = i"
    using signed_value_parts [OF ds(1)] by (simp add: decimal_value_nat)
  have "sign_text (i < 0) @ ?ds \<noteq> [] \<and> sign_text (i < 0) @ ?ds \<noteq> ''-''" using ds
    by (cases ?ds) (auto simp: sign_text_def dest: digits_not)
  then have "parseNumber st = Inr (JInt i, advance (length (sign_text (i < 0) @ ?ds)) st)"
    using assms(3) v by (simp add: parseNumber_def parts from_chars_def Let_def)
  then show ?thesis using assms(1) by (simp add: int_to_string_parts)
qed

subsection \<open>Reals with six decimals\<close>

lemma round_even_err: "\<bar>of_int (round_even y) - y\<bar> \<le> 1 / 2"
proof -
  have "of_int \<lfloor>y\<rfloor> \<le> y" "y < of_int \<lfloor>y\<rfloor> + 1" by linarith+
  then show ?thesis by (auto simp: round_even_def Let_def abs_le_iff)
qed

lemma round_even_close:
  assumes "\<bar>y - of_int m\<bar> < 1 / 2"
  shows "round_even y = m"
proof -
  have "\<bar>of_int (round_even y) - of_int m :: rat\<bar> < 1" using round_even_err [of y] assms by linarith
  then have "\<bar>of_int (round_even y - m) :: rat\<bar> < 1" by simp
  then show ?thesis by linarith
qed

lemma round_even_nonpos: "y \<le> 0 \<Longrightarrow> round_even y \<le> 0"
proof (rule ccontr)
  assume y: "y \<le> 0" "\<not> round_even y \<le> 0"
  then have "(1 :: rat) \<le> of_int (round_even y)" by simp
  with round_even_err [of y] y(1) show False by linarith
qed

lemma micro_sign: "0 \<le> q \<Longrightarrow> 0 \<le> micro q" "q < 0 \<Longrightarrow> micro q \<le> 0"
  unfolding micro_def by (auto intro!: round_even_nonneg round_even_nonpos simp: mult_le_0_iff)

lemma six_digits_digits: "list_all isDigit (six_digits b)" "length (six_digits b) = 6"
  by (simp_all add: six_digits_def isDigit_digit_char)

lemma horner_six:
  fixes x0 x1 x2 x3 x4 x5 :: nat
  assumes "x5 = d5" "x4 = 10 * x5 + d4" "x3 = 10 * x4 + d3" "x2 = 10 * x3 + d2" "x1 = 10 * x2 + d1" "x0 = 10 * x1 + d0"
  shows "(((((acc * 10 + d5) * 10 + d4) * 10 + d3) * 10 + d2) * 10 + d1) * 10 + d0 = acc * 10 ^ 6 + x0"
  using assms by simp

lemma decimal_six:
  assumes "b < 10 ^ 6"
  shows "decimal_value acc (six_digits b) = acc * 10 ^ 6 + b"
proof -
  have d: "b div 10 ^ Suc i = b div 10 ^ i div 10" for i
    using div_mult2_eq [of b "10 ^ i" 10] by (simp only: power_Suc2)
  have s: "b div 10 ^ i = 10 * (b div 10 ^ j) + b div 10 ^ i mod 10" if "j = Suc i" for i j unfolding that d by simp
  have top: "b div 10 ^ 6 = 0" using assms by simp
  have "decimal_value acc (six_digits b) =
      (((((acc * 10 + b div 10 ^ 5 mod 10) * 10 + b div 10 ^ 4 mod 10) * 10 + b div 10 ^ 3 mod 10) * 10 +
        b div 10 ^ 2 mod 10) * 10 + b div 10 ^ 1 mod 10) * 10 + b div 10 ^ 0 mod 10"
    by (simp add: six_digits_def of_digit_char)
  also have "\<dots> = acc * 10 ^ 6 + b"
  proof (rule horner_six)
    show "b div 10 ^ 5 = b div 10 ^ 5 mod 10" using s [of 6 5] top by simp
    show "b div 10 ^ 4 = 10 * (b div 10 ^ 5) + b div 10 ^ 4 mod 10" by (rule s) simp
    show "b div 10 ^ 3 = 10 * (b div 10 ^ 4) + b div 10 ^ 3 mod 10" by (rule s) simp
    show "b div 10 ^ 2 = 10 * (b div 10 ^ 3) + b div 10 ^ 2 mod 10" by (rule s) simp
    show "b div 10 ^ 1 = 10 * (b div 10 ^ 2) + b div 10 ^ 1 mod 10" by (rule s) simp
    show "b = 10 * (b div 10 ^ 1) + b div 10 ^ 0 mod 10" using s [of 1 0] by simp
  qed
  finally show ?thesis .
qed

lemma format_micro_value:
  "decimal_value 0 (nat_to_string (n div 10 ^ 6) @ six_digits (n mod 10 ^ 6)) = n"
  by (simp add: decimal_value_append decimal_value_nat decimal_six)

lemma format_micro_parts:
  "number_parts (format_micro n) = (nat_to_string (n div 10 ^ 6), CHR ''.'' # six_digits (n mod 10 ^ 6), [])"
proof -
  have ds: "list_all isDigit (nat_to_string (n div 10 ^ 6))" "nat_to_string (n div 10 ^ 6) \<noteq> []"
    using nat_to_string_digits by auto
  show ?thesis using number_parts_real [OF ds six_digits_digits(1) cleanI(1), of False]
    by (simp add: format_micro_def sign_text_def)
qed

lemma format_micro_inj: "format_micro m = format_micro n \<Longrightarrow> m = n"
proof -
  assume "format_micro m = format_micro n"
  then have "number_parts (format_micro m) = number_parts (format_micro n)" by (rule arg_cong)
  then have "nat_to_string (m div 10 ^ 6) @ six_digits (m mod 10 ^ 6) = nat_to_string (n div 10 ^ 6) @ six_digits (n mod 10 ^ 6)"
    by (simp only: format_micro_parts prod.inject list.inject)
  then have "decimal_value 0 (nat_to_string (m div 10 ^ 6) @ six_digits (m mod 10 ^ 6)) =
      decimal_value 0 (nat_to_string (n div 10 ^ 6) @ six_digits (n mod 10 ^ 6))" by (rule arg_cong)
  then show "m = n" unfolding format_micro_value .
qed

lemma format_micro_zero: "format_micro 0 = ''0.000000''"
proof -
  have "digit_char 0 = CHR ''0''" by code_simp
  then show ?thesis by (simp add: format_micro_def nat_to_string.simps six_digits_def)
qed

lemma format_micro_unsigned: "format_micro n \<noteq> CHR ''-'' # s"
proof -
  have "list_all isDigit (nat_to_string (n div 10 ^ 6))" "nat_to_string (n div 10 ^ 6) \<noteq> []"
    using nat_to_string_digits by auto
  then show ?thesis
    by (cases "nat_to_string (n div 10 ^ 6)") (auto simp: format_micro_def dest: digits_not)
qed

lemma formatReal_micro: "formatReal q = sign_text (micro q < 0) @ format_micro (nat \<bar>micro q\<bar>)"
proof -
  consider "micro q < 0" "q < 0" | "micro q = 0" | "micro q > 0" "\<not> q < 0"
    using micro_sign [of q] by linarith
  then show ?thesis
  proof cases
    case 1
    then have "format_micro (nat (- micro q)) \<noteq> format_micro 0" using format_micro_inj [of "nat (- micro q)" 0] by auto
    then show ?thesis using 1 unfolding formatReal_def Let_def format_micro_zero by (simp add: sign_text_def)
  next
    case 2
    then show ?thesis by (simp add: formatReal_def Let_def format_micro_zero sign_text_def)
  next
    case 3
    then show ?thesis using format_micro_unsigned [of "nat (micro q)"] by (simp add: formatReal_def Let_def sign_text_def)
  qed
qed

lemma formatReal_parts:
  "formatReal q = sign_text (micro q < 0) @ nat_to_string (nat \<bar>micro q\<bar> div 10 ^ 6) @ ''.'' @ six_digits (nat \<bar>micro q\<bar> mod 10 ^ 6)"
  by (simp only: formatReal_micro format_micro_def)

definition requantise :: "rat \<Rightarrow> fp" where
  "requantise q = rnd64 (of_int (micro q) / 10 ^ 6)"

lemma strtod_plain:
  assumes "list_all isDigit ds" and "ds \<noteq> []"
  shows "strtod (sign_text neg @ ds) (CHR ''.'' # fs) [] =
    Some (rnd64 ((if neg then - 1 else 1) * (of_nat (decimal_value 0 (ds @ fs)) * 10 powi - int (length fs))))"
  using starts_digits [OF assms(1)] assms(2)
  by (cases neg) (simp_all add: strtod_def Let_def sign_text_def starts_def)

lemma parseNumber_real:
  assumes "ps_rest st = formatReal q @ k" and "clean k"
  shows "\<exists>st'. parseNumber st = Inr (JReal (requantise q), st') \<and> ps_rest st' = k"
proof -
  let ?n = "nat \<bar>micro q\<bar>"
  define ds where "ds = nat_to_string (?n div 10 ^ 6)"
  define fs where "fs = six_digits (?n mod 10 ^ 6)"
  have ds: "list_all isDigit ds" "ds \<noteq> []" using nat_to_string_digits unfolding ds_def by auto
  have fs: "list_all isDigit fs" "length fs = 6" unfolding fs_def by (rule six_digits_digits)+
  have v: "decimal_value 0 (ds @ fs) = ?n" unfolding ds_def fs_def by (rule format_micro_value)
  have body: "ps_rest st = sign_text (micro q < 0) @ ds @ CHR ''.'' # fs @ k"
    using assms(1) by (simp only: formatReal_parts ds_def fs_def append_assoc append_Cons append_Nil)
  have parts: "number_parts (ps_rest st) = (sign_text (micro q < 0) @ ds, CHR ''.'' # fs, [])"
    unfolding body by (rule number_parts_real [OF ds fs(1) assms(2)])
  have p: "(10 :: rat) powi - int 6 = inverse (10 ^ 6)" by (simp only: power_int_minus power_int_of_nat)
  have "(if micro q < 0 then - 1 else 1) * of_nat ?n = (of_int (micro q) :: rat)" by (cases "micro q < 0") simp_all
  then have "(if micro q < 0 then - 1 else 1) * (of_nat ?n * (10 :: rat) powi - int 6) = of_int (micro q) / 10 ^ 6"
    unfolding p divide_inverse mult.assoc [symmetric] by (rule arg_cong)
  then have "strtod (sign_text (micro q < 0) @ ds) (CHR ''.'' # fs) [] = Some (requantise q)"
    unfolding strtod_plain [OF ds] v fs(2) requantise_def by (simp only:)
  moreover have "length (sign_text (micro q < 0) @ ds @ CHR ''.'' # fs) \<noteq> length ''-''" using fs(2) by simp
  then have "sign_text (micro q < 0) @ ds @ CHR ''.'' # fs \<noteq> ''-''" by metis
  ultimately have "parseNumber st = Inr (JReal (requantise q), advance (length ((sign_text (micro q < 0) @ ds) @ CHR ''.'' # fs)) st)"
    by (simp add: parseNumber_def parts Let_def)
  then show ?thesis by (simp add: body del: advance.simps)
qed

end
