(* ===== verification/Json_Grammar.thy ===== *)
theory Json_Grammar
  imports Json_Text
begin

text \<open>
  The texts the parser accepts, as a grammar with white space between any two tokens, and the
  value each stands for.  The two writers produce texts of it.
\<close>

subsection \<open>The grammar\<close>

definition blank :: "string \<Rightarrow> bool" where
  "blank w \<longleftrightarrow> list_all is_space w"

text \<open>
  \<open>json_text d t v\<close>: at nesting depth \<open>d\<close> the text \<open>t\<close> stands for \<open>v\<close>.  The members and the
  elements carry what was read before them.
\<close>

inductive json_text :: "nat \<Rightarrow> string \<Rightarrow> Value \<Rightarrow> bool"
  and members_text :: "nat \<Rightarrow> string \<Rightarrow> (string \<times> Value) list \<Rightarrow> (string \<times> Value) list \<Rightarrow> bool"
  and elements_text :: "nat \<Rightarrow> string \<Rightarrow> Value list \<Rightarrow> Value list \<Rightarrow> bool" where
  text_null: "d \<le> MaxDepth \<Longrightarrow> json_text d ''null'' JNull"
| text_true: "d \<le> MaxDepth \<Longrightarrow> json_text d ''true'' (JBool True)"
| text_false: "d \<le> MaxDepth \<Longrightarrow> json_text d ''false'' (JBool False)"
| text_int: "d \<le> MaxDepth \<Longrightarrow> in_int64 i \<Longrightarrow> json_text d (int_to_string i) (JInt i)"
| text_real: "d \<le> MaxDepth \<Longrightarrow> json_text d (formatReal q) (JReal (requantise q))"
| text_string: "d \<le> MaxDepth \<Longrightarrow> json_text d (escapeString s) (JString s)"
| text_no_members: "d \<le> MaxDepth \<Longrightarrow> blank w \<Longrightarrow> json_text d (CHR ''{'' # w @ ''}'') (JObject [])"
| text_object: "d \<le> MaxDepth \<Longrightarrow> members_text d t [] ms \<Longrightarrow> json_text d (CHR ''{'' # t @ ''}'') (JObject ms)"
| text_no_elements: "d \<le> MaxDepth \<Longrightarrow> blank w \<Longrightarrow> json_text d (CHR ''['' # w @ '']'') (JArray [])"
| text_array: "d \<le> MaxDepth \<Longrightarrow> elements_text d t [] vs \<Longrightarrow> json_text d (CHR ''['' # t @ '']'') (JArray vs)"
| text_member: "blank w \<Longrightarrow> blank x \<Longrightarrow> blank y \<Longrightarrow> blank z \<Longrightarrow> json_text (d + 1) t v \<Longrightarrow>
    members_text d (w @ escapeString k @ x @ CHR '':'' # y @ t @ z) ms (insert_or_assign k v ms)"
| text_members: "blank w \<Longrightarrow> blank x \<Longrightarrow> blank y \<Longrightarrow> blank z \<Longrightarrow> json_text (d + 1) t v \<Longrightarrow>
    members_text d u (insert_or_assign k v ms) ms' \<Longrightarrow>
    members_text d (w @ escapeString k @ x @ CHR '':'' # y @ t @ z @ CHR '','' # u) ms ms'"
| text_element: "blank w \<Longrightarrow> blank z \<Longrightarrow> json_text (d + 1) t v \<Longrightarrow> elements_text d (w @ t @ z) vs (vs @ [v])"
| text_elements: "blank w \<Longrightarrow> blank z \<Longrightarrow> json_text (d + 1) t v \<Longrightarrow> elements_text d u (vs @ [v]) vs' \<Longrightarrow>
    elements_text d (w @ t @ z @ CHR '','' # u) vs vs'"

lemma blank_simps [simp]:
  "blank []" "blank (c # w) \<longleftrightarrow> is_space c \<and> blank w" "blank (v @ w) \<longleftrightarrow> blank v \<and> blank w"
  by (simp_all add: blank_def)

lemma blank_skip [simp]: "blank w \<Longrightarrow> dropWhile is_space (w @ k) = dropWhile is_space k"
  by (simp add: blank_def list_all_iff)

lemma clean_blank:
  assumes "blank w" and "clean k"
  shows "clean (w @ k)"
proof (cases w)
  case (Cons c cs)
  then have "is_space c" using assms(1) by simp
  then show ?thesis using Cons digits_not [of c] by (auto simp: clean_def starts_def is_space_def)
qed (use assms(2) in simp)

lemma clean_token: "c \<in> set '',:]}'' \<or> c = CHR 0x0A \<Longrightarrow> clean (c # k)"
  by (auto simp: clean_def starts_def isDigit_def less_eq_char_def)

subsection \<open>How a text begins\<close>

definition opens :: "string \<Rightarrow> bool" where
  "opens t \<longleftrightarrow> t \<noteq> [] \<and> \<not> is_space (hd t) \<and> hd t \<notin> set '',:]}'' \<and> hd t \<noteq> CHR 0xEF"

lemma opens_brace: "opens (CHR ''{'' # t)" "opens (CHR ''['' # t)"
  by (simp_all add: opens_def is_space_def)

lemma opens_skip [simp]: "opens t \<Longrightarrow> dropWhile is_space (t @ k) = t @ k"
  by (cases t) (auto simp: opens_def)

lemma opens_digits:
  assumes "list_all isDigit ds" and "ds \<noteq> []"
  shows "\<exists>c cs. sign_text neg @ ds = c # cs \<and> (c = CHR ''-'' \<or> isDigit c)"
  using assms by (cases neg; cases ds) (auto simp: sign_text_def)

lemma number_first:
  "\<exists>c cs. int_to_string i = c # cs \<and> (c = CHR ''-'' \<or> isDigit c)"
  "\<exists>c cs. formatReal q = c # cs \<and> (c = CHR ''-'' \<or> isDigit c)"
proof -
  show "\<exists>c cs. int_to_string i = c # cs \<and> (c = CHR ''-'' \<or> isDigit c)"
    unfolding int_to_string_parts by (rule opens_digits) (simp_all add: nat_to_string_digits)
  have "\<exists>c cs. sign_text (micro q < 0) @ nat_to_string (nat \<bar>micro q\<bar> div 10 ^ 6) = c # cs \<and> (c = CHR ''-'' \<or> isDigit c)"
    by (rule opens_digits) (simp_all add: nat_to_string_digits)
  then show "\<exists>c cs. formatReal q = c # cs \<and> (c = CHR ''-'' \<or> isDigit c)"
    unfolding formatReal_parts append_assoc [symmetric] by (auto simp del: append_assoc)
qed

lemma number_not:
  assumes "c = CHR ''-'' \<or> isDigit c"
  shows "c \<noteq> CHR ''{'' \<and> c \<noteq> CHR ''['' \<and> c \<noteq> CHR 0x22 \<and> c \<noteq> CHR ''t'' \<and> c \<noteq> CHR ''f'' \<and> c \<noteq> CHR ''n''"
    "\<not> is_space c" "c \<notin> set '',:]}''" "c \<noteq> CHR 0xEF"
  using assms by (auto simp: isDigit_def is_space_def less_eq_char_def)

lemma opens_number: "c = CHR ''-'' \<or> isDigit c \<Longrightarrow> opens (c # cs)"
  using number_not [of c] by (simp add: opens_def)

lemma json_text_opens:
  shows "json_text d t v \<Longrightarrow> opens t"
    and "members_text d t ms ms' \<Longrightarrow> True" and "elements_text d t vs vs' \<Longrightarrow> True"
proof (induction rule: json_text_members_text_elements_text.inducts)
  case (text_int d i)
  then show ?case using number_first(1) [of i] opens_number by fastforce
next
  case (text_real d q)
  then show ?case using number_first(2) [of q] opens_number by fastforce
qed (auto simp: opens_def is_space_def escapeString_def)

subsection \<open>The parser accepts every text of the grammar\<close>

declare advance.simps [simp del]

definition value_read :: "nat \<Rightarrow> string \<Rightarrow> Value \<Rightarrow> bool" where
  "value_read d t v \<longleftrightarrow>
     (\<forall>st k fuel. ps_rest st = t @ k \<longrightarrow> clean k \<longrightarrow> length t \<le> fuel \<longrightarrow>
        (\<exists>st'. parse_value fuel d st = Some (Inr (v, st')) \<and> ps_rest st' = k))"

definition members_read :: "nat \<Rightarrow> string \<Rightarrow> (string \<times> Value) list \<Rightarrow> (string \<times> Value) list \<Rightarrow> bool" where
  "members_read d t ms ms' \<longleftrightarrow>
     (\<forall>st k fuel. dropWhile is_space (ps_rest st) = dropWhile is_space (t @ CHR ''}'' # k) \<longrightarrow> length t < fuel \<longrightarrow>
        (\<exists>st'. parse_members fuel d ms st = Some (Inr (JObject ms', st')) \<and> ps_rest st' = k))"

definition elements_read :: "nat \<Rightarrow> string \<Rightarrow> Value list \<Rightarrow> Value list \<Rightarrow> bool" where
  "elements_read d t vs vs' \<longleftrightarrow>
     (\<forall>st k fuel. dropWhile is_space (ps_rest st) = dropWhile is_space (t @ CHR '']'' # k) \<longrightarrow> length t < fuel \<longrightarrow>
        (\<exists>st'. parse_elements fuel d vs st = Some (Inr (JArray vs', st')) \<and> ps_rest st' = k))"

lemma value_readI:
  assumes "d \<le> MaxDepth" and "t \<noteq> []"
    and "\<And>st k fuel. ps_rest st = t @ k \<Longrightarrow> clean k \<Longrightarrow> length t \<le> Suc fuel \<Longrightarrow>
      \<exists>st'. parse_value (Suc fuel) d st = Some (Inr (v, st')) \<and> ps_rest st' = k"
  shows "value_read d t v"
  unfolding value_read_def
proof (intro allI impI)
  fix st :: Parser and k fuel
  assume a: "ps_rest st = t @ k" "clean k" "length t \<le> fuel"
  then obtain f where "fuel = Suc f" using assms(2) by (cases fuel) auto
  with a assms(3) show "\<exists>st'. parse_value fuel d st = Some (Inr (v, st')) \<and> ps_rest st' = k" by blast
qed

lemma read_literal:
  assumes "d \<le> MaxDepth" and "(t, v) \<in> {(''null'', JNull), (''true'', JBool True), (''false'', JBool False)}"
  shows "value_read d t v"
  using assms by (intro value_readI) (auto simp: parseLiteral_def)

lemma read_number:
  assumes "d \<le> MaxDepth" and "\<exists>c cs. t = c # cs \<and> (c = CHR ''-'' \<or> isDigit c)"
    and "\<And>st k. ps_rest st = t @ k \<Longrightarrow> clean k \<Longrightarrow> \<exists>st'. parseNumber st = Inr (v, st') \<and> ps_rest st' = k"
  shows "value_read d t v"
proof (rule value_readI)
  fix st :: Parser and k fuel
  assume a: "ps_rest st = t @ k" "clean k" "length t \<le> Suc fuel"
  obtain c cs where t: "t = c # cs" "c = CHR ''-'' \<or> isDigit c" using assms(2) by blast
  obtain st' where "parseNumber st = Inr (v, st')" "ps_rest st' = k" using assms(3) [OF a(1,2)] by blast
  then show "\<exists>st'. parse_value (Suc fuel) d st = Some (Inr (v, st')) \<and> ps_rest st' = k"
    using a(1) t(1) assms(1) number_not(1) [OF t(2)] by simp
qed (use assms in auto)

lemma read_string:
  assumes "d \<le> MaxDepth"
  shows "value_read d (escapeString s) (JString s)"
proof (rule value_readI)
  fix st :: Parser and k fuel
  assume a: "ps_rest st = escapeString s @ k"
  obtain st' where "parseString st = Inr (s, st')" "ps_rest st' = k" using parseString_reads [OF a] by blast
  then show "\<exists>st'. parse_value (Suc fuel) d st = Some (Inr (JString s, st')) \<and> ps_rest st' = k"
    using a assms by (simp add: escapeString_def)
qed (simp_all add: assms escapeString_def)

lemma read_empty:
  assumes "d \<le> MaxDepth" and "blank w"
  shows "value_read d (CHR ''{'' # w @ ''}'') (JObject [])" "value_read d (CHR ''['' # w @ '']'') (JArray [])"
  using assms by (auto intro!: value_readI simp: next_is_def is_space_def)

lemma read_object:
  assumes "d \<le> MaxDepth" and "members_read d t [] ms" and "\<exists>cs. dropWhile is_space t = CHR 0x22 # cs"
  shows "value_read d (CHR ''{'' # t @ ''}'') (JObject ms)"
proof (rule value_readI)
  fix st :: Parser and k fuel
  assume a: "ps_rest st = (CHR ''{'' # t @ ''}'') @ k" "length (CHR ''{'' # t @ ''}'') \<le> Suc fuel"
  define st1 where "st1 = skipWhitespace (advance 1 st)"
  obtain cs where cs: "dropWhile is_space t = CHR 0x22 # cs" using assms(3) by blast
  have "dropWhile is_space (t @ u) = CHR 0x22 # cs @ u" for u
    using cs by (metis append_Cons dropWhile_append1 dropWhile_eq_Nil_conv list.distinct(1))
  moreover have r: "ps_rest st1 = dropWhile is_space (t @ CHR ''}'' # k)" using a(1) by (simp add: st1_def)
  ultimately have not_end: "\<not> next_is (CHR ''}'') st1" by (simp add: next_is_def)
  have "dropWhile is_space (ps_rest st1) = dropWhile is_space (t @ CHR ''}'' # k)" using r by (simp add: dropWhile_idem)
  moreover have "length t < fuel" using a(2) by simp
  ultimately obtain st' where "parse_members fuel d [] st1 = Some (Inr (JObject ms, st'))" "ps_rest st' = k"
    using assms(2) unfolding members_read_def by blast
  then show "\<exists>st'. parse_value (Suc fuel) d st = Some (Inr (JObject ms, st')) \<and> ps_rest st' = k"
    using a(1) assms(1) not_end by (simp add: Let_def flip: st1_def One_nat_def)
qed (simp_all add: assms)

lemma read_array:
  assumes "d \<le> MaxDepth" and "elements_read d t [] vs" and "\<exists>c cs. dropWhile is_space t = c # cs \<and> c \<noteq> CHR '']''"
  shows "value_read d (CHR ''['' # t @ '']'') (JArray vs)"
proof (rule value_readI)
  fix st :: Parser and k fuel
  assume a: "ps_rest st = (CHR ''['' # t @ '']'') @ k" "length (CHR ''['' # t @ '']'') \<le> Suc fuel"
  define st1 where "st1 = skipWhitespace (advance 1 st)"
  obtain c cs where cs: "dropWhile is_space t = c # cs" "c \<noteq> CHR '']''" using assms(3) by blast
  have "dropWhile is_space (t @ u) = c # cs @ u" for u
    using cs by (metis append_Cons dropWhile_append1 dropWhile_eq_Nil_conv list.distinct(1))
  moreover have r: "ps_rest st1 = dropWhile is_space (t @ CHR '']'' # k)" using a(1) by (simp add: st1_def)
  ultimately have not_end: "\<not> next_is (CHR '']'') st1" using cs(2) by (simp add: next_is_def)
  have "dropWhile is_space (ps_rest st1) = dropWhile is_space (t @ CHR '']'' # k)" using r by (simp add: dropWhile_idem)
  moreover have "length t < fuel" using a(2) by simp
  ultimately obtain st' where "parse_elements fuel d [] st1 = Some (Inr (JArray vs, st'))" "ps_rest st' = k"
    using assms(2) unfolding elements_read_def by blast
  then show "\<exists>st'. parse_value (Suc fuel) d st = Some (Inr (JArray vs, st')) \<and> ps_rest st' = k"
    using a(1) assms(1) not_end by (simp add: Let_def flip: st1_def One_nat_def)
qed (simp_all add: assms)

text \<open>One member up to the separator after it, and one element.\<close>

lemma read_member:
  assumes "blank x" and "blank y" and "blank z" and "value_read (d + 1) t v" and "opens t"
    and "dropWhile is_space (ps_rest st) = escapeString key @ x @ CHR '':'' # y @ t @ z @ c # u"
    and "length t \<le> fuel" and "c \<in> set '',}''"
  shows "\<exists>st'. ps_rest st' = c # u \<and> parse_members (Suc fuel) d ms st =
     (if c = CHR '','' then parse_members fuel d (insert_or_assign key v ms) (advance 1 st')
      else Some (Inr (JObject (insert_or_assign key v ms), advance 1 st')))"
proof -
  define st1 where "st1 = skipWhitespace st"
  have r1: "ps_rest st1 = escapeString key @ x @ CHR '':'' # y @ t @ z @ c # u" using assms(6) by (simp add: st1_def)
  then have q: "next_is (CHR 0x22) st1" by (simp add: next_is_def escapeString_def)
  obtain st2 where s: "parseString st1 = Inr (key, st2)" and r2: "ps_rest st2 = x @ CHR '':'' # y @ t @ z @ c # u"
    using parseString_reads [OF r1] by blast
  define st3 where "st3 = skipWhitespace st2"
  have r3: "ps_rest st3 = CHR '':'' # y @ t @ z @ c # u" using r2 assms(1) by (simp add: st3_def is_space_def)
  then have colon: "next_is (CHR '':'') st3" by (simp add: next_is_def)
  have r4: "ps_rest (skipWhitespace (advance 1 st3)) = t @ z @ c # u"
    using r3 assms(2,5) by (simp)
  have "c \<in> set '',:]}''" using assms(8) by auto
  then have "clean (z @ c # u)" by (intro clean_blank [OF assms(3)] clean_token disjI1)
  then obtain st4 where v: "parse_value fuel (d + 1) (skipWhitespace (advance 1 st3)) = Some (Inr (v, st4))"
    and r5: "ps_rest st4 = z @ c # u"
    using assms(4,7) r4 unfolding value_read_def by blast
  define st5 where "st5 = skipWhitespace st4"
  have "\<not> is_space c" using assms(8) by (auto simp: is_space_def)
  then have r6: "ps_rest st5 = c # u" using r5 assms(3) by (simp add: st5_def)
  then have ends: "\<not> atEnd st5" "next_is (CHR '','') st5 \<longleftrightarrow> c = CHR '',''" "c \<noteq> CHR '','' \<Longrightarrow> next_is (CHR ''}'') st5"
    using assms(8) by (auto simp: atEnd_def next_is_def)
  have "parse_members (Suc fuel) d ms st =
      (if c = CHR '','' then parse_members fuel d (insert_or_assign key v ms) (advance 1 st5)
       else Some (Inr (JObject (insert_or_assign key v ms), advance 1 st5)))"
    unfolding parse_members.simps(2) Let_def st1_def [symmetric] s bind_result.simps st3_def [symmetric] v st5_def [symmetric] ends(2)
    using q colon ends(1,3) by simp
  then show ?thesis using r6 by blast
qed

lemma read_element:
  assumes "blank z" and "value_read (d + 1) t v" and "opens t"
    and "dropWhile is_space (ps_rest st) = t @ z @ c # u"
    and "length t \<le> fuel" and "c \<in> set '',]''"
  shows "\<exists>st'. ps_rest st' = c # u \<and> parse_elements (Suc fuel) d vs st =
     (if c = CHR '','' then parse_elements fuel d (vs @ [v]) (advance 1 st')
      else Some (Inr (JArray (vs @ [v]), advance 1 st')))"
proof -
  have "c \<in> set '',:]}''" using assms(6) by auto
  then have "clean (z @ c # u)" by (intro clean_blank [OF assms(1)] clean_token disjI1)
  moreover have "ps_rest (skipWhitespace st) = t @ z @ c # u" using assms(4) by simp
  ultimately obtain st4 where v: "parse_value fuel (d + 1) (skipWhitespace st) = Some (Inr (v, st4))"
    and r5: "ps_rest st4 = z @ c # u"
    using assms(2,5) unfolding value_read_def by blast
  define st5 where "st5 = skipWhitespace st4"
  have "\<not> is_space c" using assms(6) by (auto simp: is_space_def)
  then have r6: "ps_rest st5 = c # u" using r5 assms(1) by (simp add: st5_def)
  then have ends: "\<not> atEnd st5" "next_is (CHR '','') st5 \<longleftrightarrow> c = CHR '',''" "c \<noteq> CHR '','' \<Longrightarrow> next_is (CHR '']'') st5"
    using assms(6) by (auto simp: atEnd_def next_is_def)
  have "parse_elements (Suc fuel) d vs st =
      (if c = CHR '','' then parse_elements fuel d (vs @ [v]) (advance 1 st5)
       else Some (Inr (JArray (vs @ [v]), advance 1 st5)))"
    unfolding parse_elements.simps(2) Let_def bind_result.simps v st5_def [symmetric] ends(2)
    using ends(1,3) by simp
  then show ?thesis using r6 by blast
qed

lemma first_quote: "blank w \<Longrightarrow> \<exists>cs. dropWhile is_space (w @ escapeString k @ u) = CHR 0x22 # cs"
  by (simp add: escapeString_def is_space_def)

lemma first_element: "blank w \<Longrightarrow> opens t \<Longrightarrow> \<exists>c cs. dropWhile is_space (w @ t @ u) = c # cs \<and> c \<noteq> CHR '']''"
  by (cases t) (auto simp: opens_def)

lemma members_readI:
  assumes "\<And>st k fuel. dropWhile is_space (ps_rest st) = dropWhile is_space (t @ CHR ''}'' # k) \<Longrightarrow>
      length t \<le> fuel \<Longrightarrow> \<exists>st'. parse_members (Suc fuel) d ms st = Some (Inr (JObject ms', st')) \<and> ps_rest st' = k"
  shows "members_read d t ms ms'"
  unfolding members_read_def using assms by (metis Suc_le_D Suc_leI Suc_le_mono)

lemma elements_readI:
  assumes "\<And>st k fuel. dropWhile is_space (ps_rest st) = dropWhile is_space (t @ CHR '']'' # k) \<Longrightarrow>
      length t \<le> fuel \<Longrightarrow> \<exists>st'. parse_elements (Suc fuel) d vs st = Some (Inr (JArray vs', st')) \<and> ps_rest st' = k"
  shows "elements_read d t vs vs'"
  unfolding elements_read_def using assms by (metis Suc_le_D Suc_leI Suc_le_mono)

lemma read_last_member:
  assumes "blank w" "blank x" "blank y" "blank z" "value_read (d + 1) t v" "opens t"
  shows "members_read d (w @ escapeString key @ x @ CHR '':'' # y @ t @ z) ms (insert_or_assign key v ms)"
proof (rule members_readI)
  fix st :: Parser and k fuel
  assume r: "dropWhile is_space (ps_rest st) =
      dropWhile is_space ((w @ escapeString key @ x @ CHR '':'' # y @ t @ z) @ CHR ''}'' # k)"
    and n: "length (w @ escapeString key @ x @ CHR '':'' # y @ t @ z) \<le> fuel"
  have "dropWhile is_space (ps_rest st) = escapeString key @ x @ CHR '':'' # y @ t @ z @ CHR ''}'' # k"
    using r assms(1) by (simp add: escapeString_def is_space_def)
  from read_member [OF assms(2-6) this, of fuel ms] n
  show "\<exists>st'. parse_members (Suc fuel) d ms st = Some (Inr (JObject (insert_or_assign key v ms), st')) \<and> ps_rest st' = k"
    by (auto simp del: parse_members.simps parse_elements.simps)
qed

lemma read_more_members:
  assumes "blank w" "blank x" "blank y" "blank z" "value_read (d + 1) t v" "opens t"
    and "members_read d u (insert_or_assign key v ms) ms'"
  shows "members_read d (w @ escapeString key @ x @ CHR '':'' # y @ t @ z @ CHR '','' # u) ms ms'"
proof (rule members_readI)
  fix st :: Parser and k fuel
  assume r: "dropWhile is_space (ps_rest st) =
      dropWhile is_space ((w @ escapeString key @ x @ CHR '':'' # y @ t @ z @ CHR '','' # u) @ CHR ''}'' # k)"
    and n: "length (w @ escapeString key @ x @ CHR '':'' # y @ t @ z @ CHR '','' # u) \<le> fuel"
  have "dropWhile is_space (ps_rest st) = escapeString key @ x @ CHR '':'' # y @ t @ z @ CHR '','' # u @ CHR ''}'' # k"
    using r assms(1) by (simp add: escapeString_def is_space_def)
  from read_member [OF assms(2-6) this, of fuel ms] n obtain st' where st': "ps_rest st' = CHR '','' # u @ CHR ''}'' # k"
    "parse_members (Suc fuel) d ms st = parse_members fuel d (insert_or_assign key v ms) (advance 1 st')"
    by (auto simp del: parse_members.simps)
  have "dropWhile is_space (ps_rest (advance 1 st')) = dropWhile is_space (u @ CHR ''}'' # k)" using st'(1) by simp
  moreover have "length u < fuel" using n by simp
  ultimately show "\<exists>st'. parse_members (Suc fuel) d ms st = Some (Inr (JObject ms', st')) \<and> ps_rest st' = k"
    using assms(7) unfolding members_read_def st'(2) by blast
qed

lemma read_last_element:
  assumes "blank w" "blank z" "value_read (d + 1) t v" "opens t"
  shows "elements_read d (w @ t @ z) vs (vs @ [v])"
proof (rule elements_readI)
  fix st :: Parser and k fuel
  assume r: "dropWhile is_space (ps_rest st) = dropWhile is_space ((w @ t @ z) @ CHR '']'' # k)"
    and n: "length (w @ t @ z) \<le> fuel"
  have "dropWhile is_space (ps_rest st) = t @ z @ CHR '']'' # k" using r assms(1,4) by simp
  from read_element [OF assms(2-4) this, of fuel vs] n
  show "\<exists>st'. parse_elements (Suc fuel) d vs st = Some (Inr (JArray (vs @ [v]), st')) \<and> ps_rest st' = k"
    by (auto simp del: parse_members.simps parse_elements.simps)
qed

lemma read_more_elements:
  assumes "blank w" "blank z" "value_read (d + 1) t v" "opens t" and "elements_read d u (vs @ [v]) vs'"
  shows "elements_read d (w @ t @ z @ CHR '','' # u) vs vs'"
proof (rule elements_readI)
  fix st :: Parser and k fuel
  assume r: "dropWhile is_space (ps_rest st) = dropWhile is_space ((w @ t @ z @ CHR '','' # u) @ CHR '']'' # k)"
    and n: "length (w @ t @ z @ CHR '','' # u) \<le> fuel"
  have "dropWhile is_space (ps_rest st) = t @ z @ CHR '','' # u @ CHR '']'' # k" using r assms(1,4) by simp
  from read_element [OF assms(2-4) this, of fuel vs] n obtain st' where st': "ps_rest st' = CHR '','' # u @ CHR '']'' # k"
    "parse_elements (Suc fuel) d vs st = parse_elements fuel d (vs @ [v]) (advance 1 st')"
    by (auto simp del: parse_elements.simps)
  have "dropWhile is_space (ps_rest (advance 1 st')) = dropWhile is_space (u @ CHR '']'' # k)" using st'(1) by simp
  moreover have "length u < fuel" using n by simp
  ultimately show "\<exists>st'. parse_elements (Suc fuel) d vs st = Some (Inr (JArray vs', st')) \<and> ps_rest st' = k"
    using assms(5) unfolding elements_read_def st'(2) by blast
qed

lemma grammar_read:
  shows "json_text d t v \<Longrightarrow> value_read d t v \<and> opens t"
    and "members_text d t ms ms' \<Longrightarrow> members_read d t ms ms' \<and> (\<exists>cs. dropWhile is_space t = CHR 0x22 # cs)"
    and "elements_text d t vs vs' \<Longrightarrow> elements_read d t vs vs' \<and> (\<exists>c cs. dropWhile is_space t = c # cs \<and> c \<noteq> CHR '']'')"
proof (induction rule: json_text_members_text_elements_text.inducts)
  case (text_int d i)
  have "value_read d (int_to_string i) (JInt i)"
    by (rule read_number [OF text_int(1) number_first(1)]) (rule parseNumber_int [OF _ _ text_int(2)])
  then show ?case using json_text_opens(1) [OF json_text_members_text_elements_text.text_int [OF text_int]] by blast
next
  case (text_real d q)
  have "value_read d (formatReal q) (JReal (requantise q))"
    by (rule read_number [OF text_real number_first(2)]) (rule parseNumber_real)
  then show ?case using json_text_opens(1) [OF json_text_members_text_elements_text.text_real [OF text_real]] by blast
next
  case (text_member w x y z d t v k ms)
  then show ?case using read_last_member [of w x y z d t v k ms] first_quote [of w] by blast
next
  case (text_members w x y z d t v u k ms ms')
  then show ?case using read_more_members [of w x y z d t v u k ms ms'] first_quote [of w] by blast
next
  case (text_element w z d t v vs)
  then show ?case using read_last_element [of w z d t v vs] first_element [of w t] by blast
next
  case (text_elements w z d t v u vs vs')
  then show ?case using read_more_elements [of w z d t v u vs vs'] first_element [of w t] by blast
next
  case (text_string d s)
  then show ?case using read_string [of d s] by (simp add: opens_def escapeString_def is_space_def)
next
  case (text_object d t ms)
  then show ?case using read_object [of d t ms] by (simp add: opens_brace)
next
  case (text_array d t vs)
  then show ?case using read_array [of d t vs] by (simp add: opens_brace)
qed (simp_all add: read_literal read_empty opens_def is_space_def)

end
