(* ===== verification/Json_Round_Trip.thy ===== *)
theory Json_Round_Trip
  imports Json_Grammar
begin

text \<open>
  A value written in the canonical form and read back: the same value with its reals on the grid of
  six decimals, and the same text when it is written again.
\<close>

subsection \<open>A real on the grid keeps its text\<close>

lemma rnd_close:
  assumes "y \<noteq> 0" and "\<bar>y\<bar> < 2 powi n" and "emin \<le> n - p" and "n + 1 \<le> emax" and "0 \<le> n" and "0 < p"
  shows "\<exists>r. rnd p emin emax y = Fin r \<and> \<bar>r - y\<bar> \<le> 2 powi (n - p) / 2"
proof -
  define e where "e = max emin (ilog2 \<bar>y\<bar> - p + 1)"
  have "ilog2 \<bar>y\<bar> < n" using assms(1,2) by (intro ilog2_less) auto
  then have e: "e \<le> n - p" using assms(3) by (simp add: e_def)
  have pos: "(0 :: rat) < 2 powi e" by simp
  define r :: rat where "r = of_int (round_even (y / 2 powi e)) * 2 powi e"
  have "r - y = (of_int (round_even (y / 2 powi e)) - y / 2 powi e) * 2 powi e"
    using pos by (simp add: r_def left_diff_distrib)
  then have "\<bar>r - y\<bar> = \<bar>of_int (round_even (y / 2 powi e)) - y / 2 powi e\<bar> * 2 powi e" by (simp add: abs_mult)
  also have "\<dots> \<le> 1 / 2 * 2 powi e" by (intro mult_right_mono round_even_err) simp
  also have "\<dots> \<le> 1 / 2 * 2 powi (n - p)" using e by (intro mult_left_mono power_int_increasing) auto
  finally have err: "\<bar>r - y\<bar> \<le> 2 powi (n - p) / 2" by simp
  have "(2 :: rat) powi (n - p) \<le> 2 powi n" using assms(6) by (intro power_int_increasing) auto
  then have "\<bar>r\<bar> < 2 * 2 powi n" using err assms(2) by linarith
  also have "2 * 2 powi n = (2 :: rat) powi (n + 1)" by (simp add: power_int_add)
  also have "\<dots> \<le> 2 powi emax" using assms(4) by (intro power_int_increasing) auto
  finally have "\<not> 2 powi emax \<le> r \<and> \<not> r \<le> - (2 powi emax)" by linarith
  then have "rnd p emin emax y = Fin r" using assms(1) by (simp add: rnd_def Let_def flip: e_def r_def)
  with err show ?thesis by blast
qed

lemma micro_bound:
  assumes "\<bar>q\<bar> \<le> 2 ^ 32"
  shows "\<bar>of_int (micro q) / 10 ^ 6\<bar> < (2 :: rat) powi 33"
proof -
  have "\<bar>of_int (micro q) - q * 10 ^ 6\<bar> \<le> 1 / 2" unfolding micro_def by (rule round_even_err)
  moreover have "\<bar>q * 10 ^ 6\<bar> \<le> 2 ^ 32 * 10 ^ 6" using assms by (simp add: abs_mult)
  ultimately have "\<bar>of_int (micro q)\<bar> \<le> 2 ^ 32 * 10 ^ 6 + (1 / 2 :: rat)" by linarith
  then have "\<bar>of_int (micro q)\<bar> < (2 ^ 33 * 10 ^ 6 :: rat)" by (rule order.strict_trans1) simp
  then show ?thesis by (simp only: power_int_def abs_divide) (simp add: divide_less_eq)
qed

lemma requantise_exact:
  assumes "\<bar>q\<bar> \<le> 2 ^ 32"
  shows "\<exists>r. requantise q = Fin r \<and> micro r = micro q"
proof (cases "micro q = 0")
  case True
  then show ?thesis using round_even_of_int [of 0] by (simp add: requantise_def rnd64_def rnd_def micro_def)
next
  case False
  define y :: rat where "y = of_int (micro q) / 10 ^ 6"
  have "y \<noteq> 0" "\<bar>y\<bar> < 2 powi 33" using False micro_bound [OF assms] by (simp_all add: y_def)
  then obtain r where r: "rnd 53 (- 1074) 1024 y = Fin r" "\<bar>r - y\<bar> \<le> 2 powi (33 - 53) / 2"
    using rnd_close [of y 33 "- 1074" 53 1024] by auto
  have "(2 :: rat) powi (33 - 53) = 1 / 1048576" by (simp add: power_int_def power_divide)
  then have err: "\<bar>r - y\<bar> \<le> 1 / 2097152" using r(2) by simp
  have y6: "y * 10 ^ 6 = of_int (micro q)" by (simp add: y_def)
  have "r * 10 ^ 6 - of_int (micro q) = (r - y) * 10 ^ 6" using y6 by (simp add: left_diff_distrib)
  then have "\<bar>r * 10 ^ 6 - of_int (micro q)\<bar> = \<bar>r - y\<bar> * 10 ^ 6" by (simp only: abs_mult) simp
  then have "\<bar>r * 10 ^ 6 - of_int (micro q)\<bar> < 1 / 2" using err by simp
  then have "micro r = micro q" unfolding micro_def [of r] by (rule round_even_close)
  with r(1) show ?thesis by (simp add: requantise_def rnd64_def y_def)
qed

lemma formatReal_micro_cong: "micro r = micro q \<Longrightarrow> formatReal r = formatReal q"
  by (simp add: formatReal_micro)

subsection \<open>The value that is read back\<close>

primrec requant :: "Value \<Rightarrow> Value" where
  "requant JNull = JNull"
| "requant (JBool b) = JBool b"
| "requant (JInt i) = JInt i"
| "requant (JReal x) = JReal (case x of Fin q \<Rightarrow> requantise q | _ \<Rightarrow> x)"
| "requant (JString s) = JString s"
| "requant (JArray vs) = JArray (map requant vs)"
| "requant (JObject ms) = JObject (map (map_prod id requant) ms)"

text \<open>
  The values that are written and read: integers of the machine, finite reals of at most \<open>2 ^ 32\<close>,
  objects as a \<open>std::map\<close> keeps them, no nesting beyond the parser's.
\<close>

fun value_ok :: "nat \<Rightarrow> Value \<Rightarrow> bool"
  and members_ok :: "nat \<Rightarrow> (string \<times> Value) list \<Rightarrow> bool"
  and elements_ok :: "nat \<Rightarrow> Value list \<Rightarrow> bool" where
  "value_ok d (JInt i) \<longleftrightarrow> d \<le> MaxDepth \<and> in_int64 i"
| "value_ok d (JReal x) \<longleftrightarrow> d \<le> MaxDepth \<and> (case x of Fin q \<Rightarrow> \<bar>q\<bar> \<le> 2 ^ 32 | _ \<Rightarrow> False)"
| "value_ok d (JArray vs) \<longleftrightarrow> d \<le> MaxDepth \<and> elements_ok d vs"
| "value_ok d (JObject ms) \<longleftrightarrow> d \<le> MaxDepth \<and> sorted_wrt (<) (map fst ms) \<and> members_ok d ms"
| "value_ok d v \<longleftrightarrow> d \<le> MaxDepth"
| "members_ok d [] \<longleftrightarrow> True"
| "members_ok d (m # ms) \<longleftrightarrow> value_ok (d + 1) (snd m) \<and> members_ok d ms"
| "elements_ok d [] \<longleftrightarrow> True"
| "elements_ok d (v # vs) \<longleftrightarrow> value_ok (d + 1) v \<and> elements_ok d vs"

lemma members_ok_iff: "members_ok d ms \<longleftrightarrow> (\<forall>m \<in> set ms. value_ok (d + 1) (snd m))"
  by (induction ms) auto

lemma elements_ok_iff: "elements_ok d vs \<longleftrightarrow> (\<forall>v \<in> set vs. value_ok (d + 1) v)"
  by (induction vs) auto

definition read_members :: "(string \<times> Value) list \<Rightarrow> (string \<times> Value) list \<Rightarrow> (string \<times> Value) list" where
  "read_members acc ms = fold (\<lambda>(k, v). insert_or_assign k (requant v)) ms acc"

lemma insert_is_ins_entry: "insert_or_assign k v ms = ins_entry k v ms"
  by (induction k v ms rule: insert_or_assign.induct) simp_all

lemma read_members_spec:
  assumes "sorted_wrt (<) (map fst acc)" and "distinct (map fst ms)"
  shows "sorted_wrt (<) (map fst (read_members acc ms)) \<and>
    map_of (read_members acc ms) = map_of acc ++ map_of (map (map_prod id requant) ms)"
  using assms
proof (induction ms arbitrary: acc)
  case (Cons m ms)
  obtain k v where m: "m = (k, v)" by fastforce
  let ?acc = "insert_or_assign k (requant v) acc"
  have s: "sorted_wrt (<) (map fst ?acc)" using sorted_ins_entry [OF Cons.prems(1)] by (simp add: insert_is_ins_entry)
  have a: "map_of ?acc = (map_of acc)(k \<mapsto> requant v)" using map_of_ins_entry [OF Cons.prems(1)] by (simp add: insert_is_ins_entry)
  have "k \<notin> dom (map_of (map (map_prod id requant) ms))" using Cons.prems(2) m by (force simp: dom_map_of_conv_image_fst)
  then have "(map_of acc)(k \<mapsto> requant v) ++ map_of (map (map_prod id requant) ms) =
      (map_of acc ++ map_of (map (map_prod id requant) ms))(k \<mapsto> requant v)" by (rule map_add_upd_left)
  then have "map_of ?acc ++ map_of (map (map_prod id requant) ms) = map_of acc ++ map_of (map (map_prod id requant) (m # ms))"
    unfolding a m list.map map_prod_simp id_apply map_of.simps fst_conv snd_conv map_add_upd .
  moreover have "read_members acc (m # ms) = read_members ?acc ms" by (simp add: read_members_def m)
  moreover have "distinct (map fst ms)" using Cons.prems(2) by simp
  ultimately show ?case using Cons.IH [OF s] by metis
qed (simp add: read_members_def)

text \<open>However the entries of an object are ordered in the text, they are read back in key order.\<close>

lemma read_members_sorted:
  assumes "sorted_wrt (<) (map fst ms)" and "distinct (map fst ms')" and "map_of ms' = map_of ms"
  shows "read_members [] ms' = map (map_prod id requant) ms"
proof (rule map_of_eq_sorted)
  have spec: "sorted_wrt (<) (map fst (read_members [] ms'))"
      "map_of (read_members [] ms') = map_of (map (map_prod id requant) ms')"
    using read_members_spec [of "[]" ms'] assms(2) by auto
  show "sorted_wrt (<) (map fst (read_members [] ms'))" by (rule spec(1))
  show "sorted_wrt (<) (map fst (map (map_prod id requant) ms))" using assms(1) by (simp add: comp_def)
  have "map_of (map (map_prod id requant) ms) k = map_option requant (map_of ms k)" for ms :: "(string \<times> Value) list" and k
    by (induction ms) auto
  then show "map_of (read_members [] ms') = map_of (map (map_prod id requant) ms)"
    unfolding spec(2) using assms(3) by (intro ext) simp
qed

subsection \<open>The writers produce texts of the grammar\<close>

lemma pad_before:
  shows "members_text d t ms ms' \<Longrightarrow> blank x \<Longrightarrow> members_text d (x @ t) ms ms'"
    and "elements_text d t vs vs' \<Longrightarrow> blank x \<Longrightarrow> elements_text d (x @ t) vs vs'"
proof -
  assume "members_text d t ms ms'" "blank x"
  then show "members_text d (x @ t) ms ms'"
    using text_member [where w = "x @ _"] text_members [where w = "x @ _"]
    by (cases rule: members_text.cases) (simp_all del: append_assoc add: append_assoc [symmetric])
next
  assume "elements_text d t vs vs'" "blank x"
  then show "elements_text d (x @ t) vs vs'"
    using text_element [where w = "x @ _"] text_elements [where w = "x @ _"]
    by (cases rule: elements_text.cases) (simp_all del: append_assoc add: append_assoc [symmetric])
qed

lemma pad_after:
  shows "json_text d t v \<Longrightarrow> True"
    and "members_text d t ms ms' \<Longrightarrow> blank x \<Longrightarrow> members_text d (t @ x) ms ms'"
    and "elements_text d t vs vs' \<Longrightarrow> blank x \<Longrightarrow> elements_text d (t @ x) vs vs'"
proof (induction rule: json_text_members_text_elements_text.inducts)
  case (text_member w a b z d t v k ms)
  then show ?case using json_text_members_text_elements_text.text_member [of w a b "z @ x" d t v k ms] by simp
next
  case (text_members w a b z d t v u k ms ms')
  then show ?case using json_text_members_text_elements_text.text_members [of w a b z d t v "u @ x" k ms ms'] by simp
next
  case (text_element w z d t v vs)
  then show ?case using json_text_members_text_elements_text.text_element [of w "z @ x" d t v vs] by simp
next
  case (text_elements w z d t v u vs vs')
  then show ?case using json_text_members_text_elements_text.text_elements [of w z d t v "u @ x" vs vs'] by simp
qed simp_all

definition written :: "nat \<Rightarrow> Value \<Rightarrow> string option \<Rightarrow> bool" where
  "written d v out \<longleftrightarrow> (\<exists>t. out = Some t \<and> json_text d t (requant v))"

definition members_written :: "nat \<Rightarrow> (string \<times> Value) list \<Rightarrow> string option \<Rightarrow> bool" where
  "members_written d ms out \<longleftrightarrow> (\<exists>t. out = Some t \<and> (\<forall>acc. members_text d t acc (read_members acc ms)))"

definition elements_written :: "nat \<Rightarrow> Value list \<Rightarrow> string option \<Rightarrow> bool" where
  "elements_written d vs out \<longleftrightarrow> (\<exists>t. out = Some t \<and> (\<forall>acc. elements_text d t acc (acc @ map requant vs)))"

lemma written_scalar:
  assumes "value_ok d v" and "\<nexists>vs. v = JArray vs" and "\<nexists>ms. v = JObject ms"
  shows "written d v (write_scalar v)"
  using assms
  by (cases v) (auto simp: written_def intro: json_text_members_text_elements_text.intros split: fp.splits)

lemma written_scalars:
  "value_ok d JNull \<Longrightarrow> written d JNull (write_scalar JNull)"
  "value_ok d (JBool b) \<Longrightarrow> written d (JBool b) (write_scalar (JBool b))"
  "value_ok d (JInt i) \<Longrightarrow> written d (JInt i) (write_scalar (JInt i))"
  "value_ok d (JReal x) \<Longrightarrow> written d (JReal x) (write_scalar (JReal x))"
  "value_ok d (JString s) \<Longrightarrow> written d (JString s) (write_scalar (JString s))"
  by (rule written_scalar, assumption, simp, simp)+

lemma blank_indent [simp]: "blank (indent d)" "blank newline"
  by (simp_all add: blank_def indent_def newline_def is_space_def list_all_iff)

text \<open>Objects and arrays: the text inside the brackets, with white space around it.\<close>

lemma written_object:
  assumes "members_written d ms' out" and "d \<le> MaxDepth" and "read_members [] ms' = map (map_prod id requant) ms"
    and "blank x" and "blank y"
  shows "written d (JObject ms) (map_option (\<lambda>t. ''{'' @ x @ t @ y @ ''}'') out)"
proof -
  obtain t where t: "out = Some t" "members_text d t [] (map (map_prod id requant) ms)"
    using assms(1,3) unfolding members_written_def by metis
  then have "members_text d (x @ t @ y) [] (map (map_prod id requant) ms)"
    using pad_before(1) [OF pad_after(2)] assms(4,5) by simp
  then show ?thesis using text_object [OF assms(2)] t(1) by (fastforce simp: written_def)
qed

lemma written_array:
  assumes "elements_written d vs out" and "d \<le> MaxDepth" and "blank x" and "blank y"
  shows "written d (JArray vs) (map_option (\<lambda>t. ''['' @ x @ t @ y @ '']'') out)"
proof -
  obtain t where t: "out = Some t" "elements_text d t [] ([] @ map requant vs)"
    using assms(1) unfolding elements_written_def by blast
  then have "elements_text d (x @ t @ y) [] (map requant vs)"
    using pad_before(2) [OF pad_after(3)] assms(3,4) by simp
  then show ?thesis using text_array [OF assms(2)] t(1) by (fastforce simp: written_def)
qed

lemma written_member:
  assumes "written (d + 1) v out" and "blank w"
  shows "members_written d [(k, v)] (map_option (\<lambda>t. w @ t) (member_text k out))"
  using assms text_member [where w = w and x = "[]" and y = "'' ''" and z = "[]" and k = k]
  by (fastforce simp: written_def members_written_def member_text_def read_members_def is_space_def)

lemma written_more_members:
  assumes "written (d + 1) v out" and "blank w" and "blank x" and "members_written d ms rest"
  shows "members_written d ((k, v) # ms) (joined ('','' @ x) (map_option (\<lambda>t. w @ t) (member_text k out)) rest)"
proof -
  obtain t u where t: "out = Some t" "json_text (d + 1) t (requant v)"
    and u: "rest = Some u" "\<And>acc. members_text d u acc (read_members acc ms)"
    using assms(1,4) unfolding written_def members_written_def by blast
  have "members_text d (w @ escapeString k @ [] @ CHR '':'' # '' '' @ t @ [] @ CHR '','' # (x @ u)) acc (read_members acc ((k, v) # ms))" for acc
    using text_members [OF assms(2) _ _ _ t(2) pad_before(1) [OF u(2) assms(3)], of "[]" "'' ''" "[]" k acc]
    by (simp add: read_members_def is_space_def)
  then show ?thesis by (simp add: members_written_def joined_def member_text_def t(1) u(1))
qed

lemma written_element:
  assumes "written (d + 1) v out" and "blank w"
  shows "elements_written d [v] (map_option (\<lambda>t. w @ t) out)"
  using assms text_element [where w = w and z = "[]"] by (fastforce simp: written_def elements_written_def)

lemma written_more_elements:
  assumes "written (d + 1) v out" and "blank w" and "blank x" and "elements_written d vs rest"
  shows "elements_written d (v # vs) (joined ('','' @ x) (map_option (\<lambda>t. w @ t) out) rest)"
proof -
  obtain t u where t: "out = Some t" "json_text (d + 1) t (requant v)"
    and u: "rest = Some u" "\<And>acc. elements_text d u acc (acc @ map requant vs)"
    using assms(1,4) unfolding written_def elements_written_def by blast
  have "elements_text d (w @ t @ [] @ CHR '','' # (x @ u)) acc (acc @ map requant (v # vs))" for acc
    using text_elements [OF assms(2) _ t(2) pad_before(2) [OF u(2) assms(3)], of "[]" acc] by simp
  then show ?thesis by (simp add: elements_written_def joined_def t(1) u(1))
qed

lemma written_empty:
  assumes "d \<le> MaxDepth"
  shows "written d (JObject []) (Some ''{}'')" "written d (JArray []) (Some ''[]'')"
  using text_no_members [OF assms, of "[]"] text_no_elements [OF assms, of "[]"] by (simp_all add: written_def)

lemma map_option_empty: "map_option (\<lambda>t. [] @ t) out = out"
  by (simp add: option.map_ident)

lemma read_members_own: "sorted_wrt (<) (map fst ms) \<Longrightarrow> read_members [] ms = map (map_prod id requant) ms"
  using strict_sorted_iff by (intro read_members_sorted) auto

lemma writeInline_written:
  shows "value_ok d v \<Longrightarrow> written d v (writeInline v)"
    and "members_ok d ms \<Longrightarrow> ms \<noteq> [] \<Longrightarrow> members_written d ms (inline_members ms)"
    and "elements_ok d vs \<Longrightarrow> vs \<noteq> [] \<Longrightarrow> elements_written d vs (inline_elements vs)"
proof (induction v and ms and vs arbitrary: d and d and d rule: writeInline_inline_members_inline_elements.induct)
  case (1 ms)
  then show ?case using written_object [of d ms _ ms "[]" "[]"] read_members_own [of ms] written_empty(1) [of d]
    by (cases "ms = []") (auto simp: bracketed_def)
next
  case (2 vs)
  then show ?case using written_array [of d vs _ "[]" "[]"] written_empty(2) [of d]
    by (cases "vs = []") (auto simp: bracketed_def)
next
  case (5 k v)
  then show ?case using written_member [of d v _ "[]" k] by (simp add: option.map_ident)
next
  case (6 k v m ms)
  then show ?case using written_more_members [of d v "writeInline v" "[]" "'' ''" "m # ms" "inline_members (m # ms)" k]
    by (simp add: option.map_ident is_space_def)
next
  case (8 v)
  then show ?case using written_element [of d v _ "[]"] by (simp add: option.map_ident)
next
  case (9 v w vs)
  then show ?case using written_more_elements [of d v "writeInline v" "[]" "'' ''" "w # vs" "inline_elements (w # vs)"]
    by (simp add: option.map_ident is_space_def)
qed (simp_all add: written_scalars del: write_scalar.simps value_ok.simps)

lemma write_value_written:
  shows "value_ok d v \<Longrightarrow> written d v (write_value d v)"
    and "members_ok d ms \<Longrightarrow> ms \<noteq> [] \<Longrightarrow> members_written d ms (write_members d ms)"
    and "elements_ok d vs \<Longrightarrow> vs \<noteq> [] \<Longrightarrow> elements_written d vs (write_elements d vs)"
proof (induction d v and d ms and d vs rule: write_value_write_members_write_elements.induct)
  case (1 d vs)
  then show ?case
    using written_array [of d vs _ newline "newline @ indent d"] written_array [of d vs _ "[]" "[]"] written_empty(2) [of d]
      writeInline_written(3) [of d vs]
    by (auto simp: bracketed_def block_def)
next
  case (2 d ms)
  then show ?case
    using written_object [of d ms _ ms newline "newline @ indent d"] read_members_own [of ms] written_empty(1) [of d]
    by (auto simp: block_def)
next
  case (5 d k v)
  then show ?case using written_member [of d v _ "indent (d + 1)" k] by (simp add: line_of_def)
next
  case (6 d k v m ms)
  then show ?case using written_more_members [of d v _ "indent (d + 1)" newline "m # ms" _ k] by (simp add: line_of_def)
next
  case (8 d v)
  then show ?case using written_element [of d v _ "indent (d + 1)"] by (simp add: line_of_def)
next
  case (9 d v w vs)
  then show ?case using written_more_elements [of d v _ "indent (d + 1)" newline "w # vs"] by (simp add: line_of_def)
qed (simp_all add: written_scalars del: write_scalar.simps value_ok.simps)

subsection \<open>The same text when written again\<close>

lemma scalar_again:
  assumes "value_ok d v"
  shows "write_scalar (requant v) = write_scalar v"
proof (cases "\<exists>q. v = JReal (Fin q)")
  case True
  then obtain q where v: "v = JReal (Fin q)" "\<bar>q\<bar> \<le> 2 ^ 32" using assms by auto
  then obtain r where "requantise q = Fin r" "micro r = micro q" using requantise_exact by blast
  then show ?thesis using formatReal_micro_cong [of r q] by (simp add: v(1))
qed (use assms in \<open>cases v; auto split: fp.splits\<close>)

lemma real_again:
  "value_ok d (JReal x) \<Longrightarrow> write_scalar (JReal (case x of Fin q \<Rightarrow> requantise q | _ \<Rightarrow> x)) = write_scalar (JReal x)"
  using scalar_again [of d "JReal x"] unfolding requant.simps .

lemma isNumber_requant [simp]: "isNumber (requant v) = isNumber v" "isObject (requant v) = isObject v"
  by (cases v; simp)+

lemma numbers_requant [simp]: "numbers_then_object (map requant vs) = numbers_then_object vs"
  by (induction vs) auto

lemma one_line_requant [simp]: "isOneLineArray (map requant vs) = isOneLineArray vs"
  by (cases vs) (simp_all add: isOneLineArray_def)

lemma writeInline_again:
  shows "value_ok d v \<Longrightarrow> writeInline (requant v) = writeInline v"
    and "members_ok d ms \<Longrightarrow> inline_members (map (map_prod id requant) ms) = inline_members ms"
    and "elements_ok d vs \<Longrightarrow> inline_elements (map requant vs) = inline_elements vs"
proof (induction v and ms and vs arbitrary: d and d and d rule: writeInline_inline_members_inline_elements.induct)
  case (5 k v)
  then show ?case by (metis id_apply inline_members.simps(2) list.map(1) list.map(2) map_prod_simp members_ok.simps(2) snd_conv)
next
  case (8 v)
  then show ?case by (metis elements_ok.simps(2) inline_elements.simps(2) list.map(1) list.map(2))
qed (auto simp: map_prod_def split_beta real_again simp del: write_scalar.simps value_ok.simps(2))

lemma write_value_again:
  shows "value_ok d v \<Longrightarrow> write_value d (requant v) = write_value d v"
    and "members_ok d ms \<Longrightarrow> write_members d (map (map_prod id requant) ms) = write_members d ms"
    and "elements_ok d vs \<Longrightarrow> write_elements d (map requant vs) = write_elements d vs"
proof (induction d v and d ms and d vs rule: write_value_write_members_write_elements.induct)
  case (1 d vs)
  then show ?case using writeInline_again(3) [of d vs] by auto
qed (auto simp: map_prod_def split_beta real_again simp del: write_scalar.simps value_ok.simps(2))

subsection \<open>The document\<close>

lemma map_of_hoisted:
  assumes "distinct (map fst ms)" and "distinct order"
  shows "distinct (map fst (hoisted_entries order ms))" "map_of (hoisted_entries order ms) = map_of ms"
proof -
  define pick where "pick = (\<lambda>order. concat (map (\<lambda>k. case map_of ms k of None \<Rightarrow> [] | Some v \<Rightarrow> [(k, v)]) order))"
  have entries: "set (pick ks) = {e \<in> set ms. fst e \<in> set ks}" for ks
  proof (rule set_eqI)
    fix e :: "string \<times> Value"
    have "e \<in> set (pick ks) \<longleftrightarrow> fst e \<in> set ks \<and> map_of ms (fst e) = Some (snd e)"
      by (cases e) (auto simp: pick_def split: option.splits intro: sym)
    also have "\<dots> \<longleftrightarrow> e \<in> {e \<in> set ms. fst e \<in> set ks}" using assms(1) by auto
    finally show "e \<in> set (pick ks) \<longleftrightarrow> e \<in> {e \<in> set ms. fst e \<in> set ks}" .
  qed
  have d: "distinct ks \<Longrightarrow> distinct (map fst (pick ks))" for ks
  proof (induction ks)
    case (Cons k ks)
    have "pick (k # ks) = (case map_of ms k of None \<Rightarrow> [] | Some v \<Rightarrow> [(k, v)]) @ pick ks" by (simp add: pick_def)
    then show ?case using Cons entries [of ks] by (auto split: option.splits)
  qed (simp add: pick_def)
  have rest: "distinct (map fst (filter (\<lambda>(k, v). k \<notin> set order) ms))" using assms(1) by (simp add: distinct_map_filter)
  have h: "hoisted_entries order ms = pick order @ filter (\<lambda>(k, v). k \<notin> set order) ms"
    by (simp add: hoisted_entries_def pick_def)
  show dist: "distinct (map fst (hoisted_entries order ms))"
    unfolding h map_append distinct_append set_map entries using d [OF assms(2)] rest by auto
  have "set (hoisted_entries order ms) = set ms" unfolding h set_append entries by auto
  then show "map_of (hoisted_entries order ms) = map_of ms" using dist assms(1) map_of_inject_set by blast
qed

lemma hoisted_map:
  "hoisted_entries order (map (map_prod id f) ms) = map (map_prod id f) (hoisted_entries order ms)"
proof -
  have m: "map_of (map (map_prod id f) ms) k = map_option f (map_of ms k)" for k by (induction ms) auto
  have "filter (\<lambda>(k, v). k \<notin> set order) (map (map_prod id f) ms) = map (map_prod id f) (filter (\<lambda>(k, v). k \<notin> set order) ms)"
    by (induction ms) auto
  then show ?thesis
    by (auto simp: hoisted_entries_def m map_concat intro!: arg_cong [where f = concat] map_cong split: option.split)
qed

lemma hoisted_ok: "members_ok d ms \<Longrightarrow> members_ok d (hoisted_entries order ms)"
  by (auto simp: members_ok_iff hoisted_entries_def split: option.splits dest!: map_of_SomeD [OF sym])

definition document_text :: "Value \<Rightarrow> string list \<Rightarrow> string option" where
  "document_text v order =
     (case v of
        JObject ms \<Rightarrow> if ms = [] then Some ''{}'' else block ''{'' ''}'' 0 (write_members 0 (hoisted_entries order ms))
      | _ \<Rightarrow> write_value 0 v)"

lemma writeCanonical_text: "writeCanonical v order = map_option (\<lambda>t. t @ newline) (document_text v order)"
  by (simp add: writeCanonical_def document_text_def)

lemma document_written:
  assumes "value_ok 0 v" and "distinct order"
  shows "written 0 v (document_text v order)"
proof (cases "\<exists>ms. v = JObject ms \<and> ms \<noteq> []")
  case True
  then obtain ms where v: "v = JObject ms" "ms \<noteq> []" by blast
  have s: "sorted_wrt (<) (map fst ms)" "members_ok 0 ms" using assms(1) v by auto
  then have d: "distinct (map fst ms)" using strict_sorted_iff by blast
  have "hoisted_entries order ms \<noteq> []" using map_of_hoisted(2) [OF d assms(2)] v(2)
    by (metis map_of_eq_empty_iff)
  then have "members_written 0 (hoisted_entries order ms) (write_members 0 (hoisted_entries order ms))"
    using write_value_written(2) hoisted_ok s(2) by blast
  from written_object [OF this _ read_members_sorted [OF s(1) map_of_hoisted [OF d assms(2)]], of newline "newline @ indent 0"]
  show ?thesis by (simp add: v document_text_def block_def)
next
  case False
  then have "document_text v order = write_value 0 v" by (cases v) (auto simp: document_text_def)
  then show ?thesis using write_value_written(1) [OF assms(1)] by simp
qed

lemma document_again:
  assumes "value_ok 0 v"
  shows "document_text (requant v) order = document_text v order"
proof (cases v)
  case (JObject ms)
  then show ?thesis using assms write_value_again(2) [OF hoisted_ok, of 0 ms order]
    by (simp add: document_text_def hoisted_map)
qed (use write_value_again(1) [OF assms] in \<open>simp_all add: document_text_def\<close>)

lemma parse_document:
  assumes "json_text 0 t v"
  shows "parse (t @ newline) = Some (Inr v)"
proof -
  have read: "value_read 0 t v" "opens t" using grammar_read(1) [OF assms] by auto
  then have "take 3 (t @ newline) \<noteq> byte_order_mark" by (cases t) (auto simp: opens_def byte_order_mark_def)
  moreover define st where "st = \<lparr>ps_rest = t @ newline, ps_line = 1, ps_column = 1\<rparr>"
  have "ps_rest (skipWhitespace st) = t @ newline" using read(2) by (simp add: st_def)
  moreover have "clean newline" unfolding newline_def by (rule clean_token) simp
  moreover have "length t \<le> parse_fuel (t @ newline)" by (simp add: parse_fuel_def)
  ultimately obtain st' where "parse_value (parse_fuel (t @ newline)) 0 (skipWhitespace st) = Some (Inr (v, st'))" "ps_rest st' = newline"
    using read(1) unfolding value_read_def by blast
  moreover have "parse (t @ newline) = parser_run (parse_fuel (t @ newline)) st"
    using \<open>take 3 (t @ newline) \<noteq> byte_order_mark\<close> unfolding parse_def Let_def st_def by (simp only: if_False)
  ultimately show ?thesis by (simp add: parser_run_def newline_def is_space_def)
qed

text \<open>
  Claim C12.  A document of integers, strings, booleans, finite reals of magnitude at most
  \<open>2 ^ 32\<close>, arrays and objects, nested no deeper than the parser allows, is written; the text
  parses, whatever keys were hoisted to the top, to the document with its reals on the grid of six
  decimals; and that document is written as the same text, so a saved file is a fixed point.
\<close>

theorem json_round_trip:
  assumes "value_ok 0 v" and "distinct order"
  shows "\<exists>text. writeCanonical v order = Some text \<and> parse text = Some (Inr (requant v)) \<and>
    writeCanonical (requant v) order = Some text"
proof -
  obtain t where "document_text v order = Some t" "json_text 0 t (requant v)"
    using document_written [OF assms] unfolding written_def by blast
  then show ?thesis
    using parse_document document_again [OF assms(1)] by (simp add: writeCanonical_text)
qed

lemma json_round_trip_witness:
  "value_ok 0 (JObject [(''a'', JArray [JInt 1, JReal (Fin (1 / 3))]), (''b'', JString ''x'')]) \<and> distinct [''b''] \<and>
   (\<exists>text. writeCanonical (JObject [(''a'', JArray [JInt 1, JReal (Fin (1 / 3))]), (''b'', JString ''x'')]) [''b''] = Some text \<and>
     parse text = Some (Inr (requant (JObject [(''a'', JArray [JInt 1, JReal (Fin (1 / 3))]), (''b'', JString ''x'')]))) \<and>
     writeCanonical (requant (JObject [(''a'', JArray [JInt 1, JReal (Fin (1 / 3))]), (''b'', JString ''x'')])) [''b''] = Some text)"
proof (intro conjI)
  show ok: "value_ok 0 (JObject [(''a'', JArray [JInt 1, JReal (Fin (1 / 3))]), (''b'', JString ''x'')])"
    by (simp add: MaxDepth_def in_int64_def int64_min_def int64_max_def)
  show "distinct [''b'']" by simp
  then show "\<exists>text. writeCanonical (JObject [(''a'', JArray [JInt 1, JReal (Fin (1 / 3))]), (''b'', JString ''x'')]) [''b''] = Some text \<and>
     parse text = Some (Inr (requant (JObject [(''a'', JArray [JInt 1, JReal (Fin (1 / 3))]), (''b'', JString ''x'')]))) \<and>
     writeCanonical (requant (JObject [(''a'', JArray [JInt 1, JReal (Fin (1 / 3))]), (''b'', JString ''x'')])) [''b''] = Some text"
    by (rule json_round_trip [OF ok])
qed

subsection \<open>The formatted real and its buffer\<close>

lemma nat_to_string_length: "10 ^ k \<le> n \<Longrightarrow> k < length (nat_to_string n)"
proof (induction n arbitrary: k rule: nat_to_string.induct)
  case (1 n)
  show ?case
  proof (cases k)
    case (Suc j)
    then have "10 * 10 ^ j \<le> n" using 1(2) by simp
    moreover have "(1 :: nat) \<le> 10 ^ j" by simp
    ultimately have "\<not> n < 10" "10 ^ j \<le> n div 10" by (linarith, simp add: less_eq_div_iff_mult_less_eq mult.commute)
    then show ?thesis using 1(1) [of j] Suc by (subst nat_to_string.simps) simp
  qed (use nat_to_string_digits [of n] in simp)
qed

text \<open>A magnitude of \<open>10 ^ 57\<close> needs more than the 64 bytes the source formats into.\<close>

lemma large_real_overruns:
  assumes "10 ^ 57 \<le> q"
  shows "\<not> format_fits q"
proof -
  have "of_int (10 ^ 63) \<le> q * 10 ^ 6" using assms by simp
  then have "(10 ^ 63 :: int) \<le> micro q"
    unfolding micro_def using round_even_err [of "q * 10 ^ 6"] by linarith
  then have "(10 ^ 57 :: nat) \<le> nat \<bar>micro q\<bar> div 10 ^ 6" by (simp add: less_eq_div_iff_mult_less_eq)
  then have "57 < length (nat_to_string (nat \<bar>micro q\<bar> div 10 ^ 6))" by (rule nat_to_string_length)
  then show ?thesis by (simp add: format_fits_def formatReal_parts six_digits_digits(2))
qed

end
