(* ===== verification/Json_Total.thy ===== *)
theory Json_Total
  imports Json
begin

text \<open>
  The parser returns on every text: no step gives back more text than it was given, every level and
  every separator takes a character, and so the fuel of \<open>parse\<close> is enough.
\<close>

declare advance.simps [simp del]

definition no_longer :: "Parser \<Rightarrow> ParseError + 'a \<times> Parser \<Rightarrow> bool" where
  "no_longer st r \<longleftrightarrow> (\<forall>a st'. r = Inr (a, st') \<longrightarrow> length (ps_rest st') \<le> length (ps_rest st))"

lemma no_longer_simps [simp]:
  "no_longer st (Inl e)" "no_longer st (Inr (a, st')) \<longleftrightarrow> length (ps_rest st') \<le> length (ps_rest st)"
  by (simp_all add: no_longer_def)

lemma no_longer_trans: "no_longer st' r \<Longrightarrow> length (ps_rest st') \<le> length (ps_rest st) \<Longrightarrow> no_longer st r"
  by (auto simp: no_longer_def intro: le_trans)

lemma skip_shorter [simp]: "length (ps_rest (skipWhitespace st)) \<le> length (ps_rest st)"
  by (simp add: skipWhitespace_def)

lemma string_loop_shorter: "no_longer st (string_loop out st)"
proof (induction "length (ps_rest st)" arbitrary: out st rule: less_induct)
  case less
  have rec: "no_longer st (string_loop out' st')" if "length (ps_rest st') < length (ps_rest st)" for out' st'
    using that by (intro no_longer_trans [OF less [OF that]]) simp
  show ?case
  proof (cases "ps_rest st")
    case Nil
    then show ?thesis by (subst string_loop.simps) simp
  next
    case (Cons c cs)
    have one: "length (ps_rest (advance 1 st)) < length (ps_rest st)" by (simp add: Cons)
    show ?thesis
    proof (cases "c = CHR 0x5C \<and> cs \<noteq> []")
      case True
      then obtain e ds where cs: "cs = e # ds" by (cases cs) auto
      have two: "length (ps_rest (advance 2 st)) < length (ps_rest st)" by (simp add: Cons cs)
      have u: "length (ps_rest st') < length (ps_rest st)" if "unicode_escape (advance 2 st) = Inr (code, st')" for code st'
        using unicode_escape_rest [OF that] two by simp
      have "string_loop out st = (if e = CHR ''u'' then
          (case unicode_escape (advance 2 st) of Inl err \<Rightarrow> Inl err | Inr (code, st') \<Rightarrow> string_loop (appendUtf8 code out) st')
        else (case simple_escape e of None \<Rightarrow> Inl (parse_fail ''unrecognised escape'' (advance 2 st))
          | Some d \<Rightarrow> string_loop (out @ [d]) (advance 2 st)))"
        using True by (subst string_loop.simps) (simp add: Cons cs)
      then show ?thesis using rec [OF two] rec [OF u] by (auto split: sum.split option.split)
    next
      case False
      then show ?thesis using rec [OF one] by (subst string_loop.simps) (auto simp: Cons)
    qed
  qed
qed

lemma parseString_shorter: "no_longer st (parseString st)"
  unfolding parseString_def by (rule no_longer_trans [OF string_loop_shorter]) simp

lemma parseNumber_shorter: "no_longer st (parseNumber st)"
  by (auto simp: parseNumber_def Let_def split: prod.split option.split)

lemma parseLiteral_shorter: "no_longer st (parseLiteral w v st)"
  by (simp add: parseLiteral_def)

text \<open>A result, with no more text left than before.\<close>

definition returns :: "Parser \<Rightarrow> (ParseError + 'a \<times> Parser) option \<Rightarrow> bool" where
  "returns st r \<longleftrightarrow> (\<exists>x. r = Some x \<and> no_longer st x)"

lemma returns_Some [simp]: "returns st (Some x) \<longleftrightarrow> no_longer st x"
  by (simp add: returns_def)

lemma returns_trans: "returns st' r \<Longrightarrow> length (ps_rest st') \<le> length (ps_rest st) \<Longrightarrow> returns st r"
  by (auto simp: returns_def intro: no_longer_trans)

lemma returns_bind:
  assumes "returns st r" and "\<And>a st'. length (ps_rest st') \<le> length (ps_rest st) \<Longrightarrow> returns st (f a st')"
  shows "returns st (bind_result r f)"
  using assms by (cases "(r, f)" rule: bind_result.cases) (auto simp: returns_def)

lemma next_is_rest: "next_is c st \<Longrightarrow> ps_rest st \<noteq> []"
  by (auto simp: next_is_def)

lemma after_separator:
  assumes "next_is c (skipWhitespace st')" and "length (ps_rest st') \<le> length (ps_rest st)"
  shows "length (ps_rest (advance 1 (skipWhitespace st'))) < length (ps_rest st)"
  using next_is_rest [OF assms(1)] skip_shorter [of st'] assms(2) by (cases "ps_rest (skipWhitespace st')") auto

lemma skip_trans: "length (ps_rest st') \<le> n \<Longrightarrow> length (ps_rest (skipWhitespace st')) \<le> n"
  using le_trans [OF skip_shorter [of st']] .

text \<open>One level: what the three functions do when those they call return.\<close>

lemma value_step:
  assumes M: "\<And>st'. 2 * length (ps_rest st') + 2 \<le> fuel \<Longrightarrow> returns st' (parse_members fuel depth [] st')"
    and E: "\<And>st'. 2 * length (ps_rest st') + 2 \<le> fuel \<Longrightarrow> returns st' (parse_elements fuel depth [] st')"
    and fuel: "2 * length (ps_rest st) \<le> fuel"
  shows "returns st (parse_value (Suc fuel) depth st)"
proof (cases "ps_rest st")
  case (Cons c cs)
  define st1 where "st1 = skipWhitespace (advance 1 st)"
  have st1: "length (ps_rest st1) < length (ps_rest st)"
    unfolding st1_def by (rule le_less_trans [OF skip_shorter]) (simp add: Cons)
  then have "2 * length (ps_rest st1) + 2 \<le> fuel" using fuel by linarith
  then have m: "returns st (parse_members fuel depth [] st1)" and e: "returns st (parse_elements fuel depth [] st1)"
    using M E st1 by (auto intro: returns_trans [OF _ less_imp_le])
  have s: "returns st (bind_result (Some (parseString st)) (\<lambda>s st'. Some (Inr (JString s, st'))))"
    by (rule returns_bind) (simp_all add: parseString_shorter)
  have l: "length (ps_rest st1) - Suc 0 \<le> length (ps_rest st)" using st1 by simp
  show ?thesis
    unfolding parse_value.simps(2) Cons list.case Let_def st1_def [symmetric]
    using l m e s parseNumber_shorter [of st] parseLiteral_shorter [of st]
    by (simp del: bind_result.simps)
qed simp

lemma member_step:
  assumes V: "\<And>st'. 2 * length (ps_rest st') + 1 \<le> fuel \<Longrightarrow> returns st' (parse_value fuel (depth + 1) st')"
    and M: "\<And>ms st'. 2 * length (ps_rest st') + 2 \<le> fuel \<Longrightarrow> returns st' (parse_members fuel depth ms st')"
    and fuel: "2 * length (ps_rest st) + 1 \<le> fuel"
  shows "returns st (parse_members (Suc fuel) depth ms st)"
proof -
  have rest: "returns st
      (let ms' = insert_or_assign key v ms; st5 = skipWhitespace st4 in
       if atEnd st5 then Some (Inl (parse_fail ''unterminated object'' st5))
       else if next_is (CHR '','') st5 then parse_members fuel depth ms' (advance 1 st5)
       else if next_is (CHR ''}'') st5 then Some (Inr (JObject ms', advance 1 st5))
       else Some (Inl (parse_fail msg st5)))" if l: "length (ps_rest st4) \<le> length (ps_rest st)" for key v st4 msg
  proof -
    define st5 where "st5 = skipWhitespace st4"
    have "length (ps_rest st5) - Suc 0 \<le> length (ps_rest st)"
      using le_trans [OF skip_shorter l] unfolding st5_def by linarith
    moreover have "returns st (parse_members fuel depth (insert_or_assign key v ms) (advance 1 st5))" if "next_is (CHR '','') st5"
    proof -
      have n: "length (ps_rest (advance 1 st5)) < length (ps_rest st)"
        using that l unfolding st5_def by (rule after_separator)
      then have "2 * length (ps_rest (advance 1 st5)) + 2 \<le> fuel" using fuel by linarith
      from returns_trans [OF M [OF this] less_imp_le [OF n]] show ?thesis .
    qed
    ultimately show ?thesis unfolding Let_def st5_def [symmetric] by simp
  qed
  have inner: "returns st (bind_result (parse_value fuel (depth + 1) (skipWhitespace (advance 1 st3))) f)"
    if l: "length (ps_rest st3) \<le> length (ps_rest st)" and f: "\<And>v st4. length (ps_rest st4) \<le> length (ps_rest st) \<Longrightarrow> returns st (f v st4)"
    for st3 and f :: "Value \<Rightarrow> Parser \<Rightarrow> (ParseError + Value \<times> Parser) option"
  proof (rule returns_bind [OF _ f])
    have n: "length (ps_rest (skipWhitespace (advance 1 st3))) \<le> length (ps_rest st)"
      using l by (intro skip_trans) simp
    then have "2 * length (ps_rest (skipWhitespace (advance 1 st3))) + 1 \<le> fuel" using fuel by linarith
    from returns_trans [OF V [OF this] n] show "returns st (parse_value fuel (depth + 1) (skipWhitespace (advance 1 st3)))" .
  qed
  show ?thesis
  proof (cases "next_is (CHR 0x22) (skipWhitespace st)")
    case True
    have p: "returns st (Some (parseString (skipWhitespace st)))"
      using no_longer_trans [OF parseString_shorter skip_shorter] by simp
    show ?thesis
      by (simp only: parse_members.simps(2) Let_def [of "skipWhitespace st"] True not_True_eq_False if_False,
          rule returns_bind [OF p], subst Let_def, rule if_split [THEN iffD2], intro conjI impI, simp,
          rule inner, erule skip_trans, erule rest)
  qed (simp add: Let_def)
qed

lemma element_step:
  assumes V: "\<And>st'. 2 * length (ps_rest st') + 1 \<le> fuel \<Longrightarrow> returns st' (parse_value fuel (depth + 1) st')"
    and E: "\<And>vs st'. 2 * length (ps_rest st') + 2 \<le> fuel \<Longrightarrow> returns st' (parse_elements fuel depth vs st')"
    and fuel: "2 * length (ps_rest st) + 1 \<le> fuel"
  shows "returns st (parse_elements (Suc fuel) depth vs st)"
  unfolding parse_elements.simps(2)
proof (rule returns_bind)
  have "2 * length (ps_rest (skipWhitespace st)) + 1 \<le> fuel" using fuel skip_shorter [of st] by linarith
  from returns_trans [OF V [OF this] skip_shorter] show "returns st (parse_value fuel (depth + 1) (skipWhitespace st))" .
next
  fix v and st4 :: Parser
  assume l: "length (ps_rest st4) \<le> length (ps_rest st)"
  define st5 where "st5 = skipWhitespace st4"
  have "length (ps_rest st5) - Suc 0 \<le> length (ps_rest st)"
    using le_trans [OF skip_shorter l] unfolding st5_def by linarith
  moreover have "returns st (parse_elements fuel depth (vs @ [v]) (advance 1 st5))" if "next_is (CHR '','') st5"
  proof -
    have n: "length (ps_rest (advance 1 st5)) < length (ps_rest st)"
      using that l unfolding st5_def by (rule after_separator)
    then have "2 * length (ps_rest (advance 1 st5)) + 2 \<le> fuel" using fuel by linarith
    from returns_trans [OF E [OF this] less_imp_le [OF n]] show ?thesis .
  qed
  ultimately show "returns st
     (let vs' = vs @ [v]; st2 = skipWhitespace st4
      in if atEnd st2 then Some (Inl (parse_fail ''unterminated array'' st2))
         else if next_is (CHR '','') st2 then parse_elements fuel depth vs' (advance 1 st2)
         else if next_is (CHR '']'') st2 then Some (Inr (JArray vs', advance 1 st2))
         else Some (Inl (parse_fail (''expected '' @ CHR 0x27 # '','' @ CHR 0x27 # '' or '' @ CHR 0x27 # '']'' @ [CHR 0x27]) st2)))"
    unfolding Let_def st5_def [symmetric] by simp
qed

lemma parse_returns:
  shows "2 * length (ps_rest st) + 1 \<le> fuel \<Longrightarrow> returns st (parse_value fuel depth st)"
    and "2 * length (ps_rest st) + 2 \<le> fuel \<Longrightarrow> returns st (parse_members fuel depth ms st)"
    and "2 * length (ps_rest st) + 2 \<le> fuel \<Longrightarrow> returns st (parse_elements fuel depth vs st)"
proof (induction fuel arbitrary: depth st ms vs)
  case (Suc fuel)
  {
    case 1
    then show ?case using Suc.IH(2,3) by (intro value_step) auto
  next
    case 2
    then show ?case using Suc.IH(1,2) by (intro member_step) auto
  next
    case 3
    then show ?case using Suc.IH(1,3) by (intro element_step) auto
  }
qed simp_all

text \<open>
  Claim C39.  The parser always answers: whatever the bytes, \<open>parse\<close> gives a value or an error with
  its position, never running out of the recursion its fuel allows.
\<close>

theorem parse_total: "parse text \<noteq> None"
proof -
  have "parser_run (parse_fuel s) \<lparr>ps_rest = s, ps_line = 1, ps_column = 1\<rparr> \<noteq> None" for s
  proof -
    define st where "st = skipWhitespace \<lparr>ps_rest = s, ps_line = 1, ps_column = 1\<rparr>"
    have "length (ps_rest st) \<le> length s" using skip_shorter [of "\<lparr>ps_rest = s, ps_line = 1, ps_column = 1\<rparr>"] by (simp add: st_def)
    then have "returns st (parse_value (parse_fuel s) 0 st)" by (intro parse_returns(1)) (simp add: parse_fuel_def)
    then show ?thesis unfolding parser_run_def st_def [symmetric] returns_def by (auto simp: Let_def split: sum.split prod.split)
  qed
  then show ?thesis unfolding parse_def Let_def .
qed

end
