(* ===== verification/Json_Fields.thy ===== *)
theory Json_Fields
  imports Json Entities "HOL-Library.State_Monad"
begin

text \<open>
  Reading and writing the fields of a project file (\<open>model/project_io\<close>): the consume-and-strip
  readers, what is left over, the spellings of the enumerations, and the load report.  A reader of
  fields is a state monad over the object it takes from and a state of the caller's.
\<close>

type_synonym object = "(string \<times> Value) list"

subsection \<open>Narrowing\<close>

definition to_int32 :: "int \<Rightarrow> int" where
  "to_int32 x = (x + 2 ^ 31) mod 2 ^ 32 - 2 ^ 31"

lemma to_int32_id [simp]: "- 2147483648 \<le> x \<Longrightarrow> x \<le> 2147483647 \<Longrightarrow> to_int32 x = x"
  by (simp add: to_int32_def)

subsection \<open>Taking a field\<close>

definition erase_key :: "string \<Rightarrow> object \<Rightarrow> object" where
  "erase_key k ms = filter (\<lambda>e. fst e \<noteq> k) ms"

definition emplace :: "string \<Rightarrow> Value \<Rightarrow> object \<Rightarrow> object" where
  "emplace k v ms = (if map_of ms k = None then insert_or_assign k v ms else ms)"

definition take_field :: "string \<Rightarrow> object \<Rightarrow> Value \<times> object" where
  "take_field key ms = (case map_of ms key of None \<Rightarrow> (JNull, ms) | Some v \<Rightarrow> (v, erase_key key ms))"

fun string_or :: "string \<Rightarrow> Value \<Rightarrow> string" where
  "string_or fallback (JString s) = s" | "string_or fallback v = fallback"

fun bool_or :: "bool \<Rightarrow> Value \<Rightarrow> bool" where
  "bool_or fallback (JBool b) = b" | "bool_or fallback v = fallback"

definition int_or :: "int \<Rightarrow> Value \<Rightarrow> int" where
  "int_or fallback v = (if isNumber v then asInt fallback v else fallback)"

definition double_or :: "fp \<Rightarrow> Value \<Rightarrow> fp" where
  "double_or fallback v = (if isNumber v then asDouble fallback v else fallback)"

definition stringAt :: "Value \<Rightarrow> string \<Rightarrow> string" where
  "stringAt v key = (case json_find key v of None \<Rightarrow> '''' | Some w \<Rightarrow> string_or '''' w)"

type_synonym ('l, 'a) reader = "(object \<times> 'l, 'a) state"

abbreviation give :: "'a \<Rightarrow> ('l, 'a) reader" where "give \<equiv> State_Monad.return"

definition takeValue :: "string \<Rightarrow> ('l, Value) reader" where
  "takeValue key = State (\<lambda>(ms, l). let (v, ms') = take_field key ms in (v, (ms', l)))"

definition takeString :: "string \<Rightarrow> string \<Rightarrow> ('l, string) reader" where
  "takeString key fallback = do { v \<leftarrow> takeValue key; give (string_or fallback v) }"

definition takeInt :: "string \<Rightarrow> int \<Rightarrow> ('l, int) reader" where
  "takeInt key fallback = do { v \<leftarrow> takeValue key; give (int_or fallback v) }"

definition takeDouble :: "string \<Rightarrow> fp \<Rightarrow> ('l, fp) reader" where
  "takeDouble key fallback = do { v \<leftarrow> takeValue key; give (double_or fallback v) }"

text \<open>The fallback is a float that a double holds exactly.\<close>

definition takeFloat :: "string \<Rightarrow> fp \<Rightarrow> ('l, fp) reader" where
  "takeFloat key fallback = do { x \<leftarrow> takeDouble key fallback; give (to_float x) }"

definition takeBool :: "string \<Rightarrow> bool \<Rightarrow> ('l, bool) reader" where
  "takeBool key fallback = do { v \<leftarrow> takeValue key; give (bool_or fallback v) }"

text \<open>The caller's state, and the fields as they are.\<close>

definition tell :: "('l \<Rightarrow> 'l) \<Rightarrow> ('l, unit) reader" where
  "tell f = State (\<lambda>(ms, l). ((), (ms, f l)))"

definition ask :: "('l \<Rightarrow> 'a) \<Rightarrow> ('l, 'a) reader" where
  "ask f = State (\<lambda>(ms, l). (f l, (ms, l)))"

definition lift_state :: "('l \<Rightarrow> 'a \<times> 'l) \<Rightarrow> ('l, 'a) reader" where
  "lift_state f = State (\<lambda>(ms, l). let (a, l') = f l in (a, (ms, l')))"

definition remaining :: "('l, object) reader" where
  "remaining = State (\<lambda>(ms, l). (ms, (ms, l)))"

definition emplaceField :: "string \<Rightarrow> Value \<Rightarrow> ('l, unit) reader" where
  "emplaceField key v = State (\<lambda>(ms, l). ((), (emplace key v ms, l)))"

text \<open>
  An object inside: taken, read when it is one, and put back with what is left of it unless the
  source forgets to.
\<close>

definition inside :: "bool \<Rightarrow> string \<Rightarrow> 'a \<Rightarrow> ('l, 'a) reader \<Rightarrow> ('l, 'a) reader" where
  "inside put_back key fallback m = State (\<lambda>(ms, l).
     case take_field key ms of
       (JObject inner, ms') \<Rightarrow>
         (case run_state m (inner, l) of
            (a, (left, l')) \<Rightarrow> (a, (if put_back then emplace key (JObject left) ms' else ms', l')))
     | (_, ms') \<Rightarrow> (fallback, (ms', l)))"

text \<open>A map of entities, read in key order: each entry may be changed in place.\<close>

fun each_entry :: "(string \<Rightarrow> Value \<Rightarrow> 'l \<Rightarrow> Value \<times> 'l) \<Rightarrow> object \<Rightarrow> 'l \<Rightarrow> object \<times> 'l" where
  "each_entry f [] l = ([], l)"
| "each_entry f ((k, v) # ms) l =
     (let (v', l1) = f k v l; (ms', l2) = each_entry f ms l1 in ((k, v') # ms', l2))"

definition read_map :: "string \<Rightarrow> (string \<Rightarrow> Value \<Rightarrow> 'l \<Rightarrow> Value \<times> 'l) \<Rightarrow> object \<times> 'l \<Rightarrow> object \<times> 'l" where
  "read_map key f = (\<lambda>(document, l).
     case take_field key document of
       (JObject ms, rest) \<Rightarrow> (let (ms', l') = each_entry f ms l in (emplace key (JObject ms') rest, l'))
     | (_, rest) \<Rightarrow> (rest, l))"

subsection \<open>The residue\<close>

fun pruneEmpty :: "Value \<Rightarrow> Value" and prune_entries :: "object \<Rightarrow> object" where
  "pruneEmpty (JObject ms) = JObject (prune_entries ms)"
| "pruneEmpty v = v"
| "prune_entries [] = []"
| "prune_entries ((k, v) # ms) =
     (let v' = pruneEmpty v in if v' = JObject [] then prune_entries ms else (k, v') # prune_entries ms)"

function mergeResidue :: "object \<Rightarrow> object \<Rightarrow> object" where
  "mergeResidue into [] = into"
| "mergeResidue into ((k, v) # ms) =
     (case map_of into k of
        None \<Rightarrow> mergeResidue (insert_or_assign k v into) ms
      | Some (JObject target) \<Rightarrow>
          (case v of
             JObject source \<Rightarrow> mergeResidue (insert_or_assign k (JObject (mergeResidue target source)) into) ms
           | _ \<Rightarrow> mergeResidue into ms)
      | Some _ \<Rightarrow> mergeResidue into ms)"
  by pat_completeness auto
termination
  by (relation "measure (\<lambda>(into, ms). size_list (size_prod (\<lambda>_. 0) size) ms)") auto

subsection \<open>Spellings\<close>

fun pluginFormatText :: "PluginFormat \<Rightarrow> string" where
  "pluginFormatText FmtBuiltin = ''builtin''"
| "pluginFormatText FmtClap = ''clap''"
| "pluginFormatText FmtVst3 = ''vst3''"
| "pluginFormatText FmtAudioUnit = ''au''"
| "pluginFormatText FmtUnknown = ''''"

fun stretchModeText :: "StretchMode \<Rightarrow> string" where
  "stretchModeText StretchOff = ''off''"
| "stretchModeText StretchResample = ''resample''"
| "stretchModeText StretchStretch = ''stretch''"

definition stretchModeFrom :: "string \<Rightarrow> StretchMode" where
  "stretchModeFrom s =
     (if s = ''resample'' then StretchResample else if s = ''stretch'' then StretchStretch else StretchOff)"

definition pluginFormatFrom :: "string \<Rightarrow> PluginFormat" where
  "pluginFormatFrom s =
     (if s = ''builtin'' then FmtBuiltin else if s = ''clap'' then FmtClap
      else if s = ''vst3'' then FmtVst3 else if s = ''au'' then FmtAudioUnit else FmtUnknown)"

lemma stretch_mode_round_trip [simp]: "stretchModeFrom (stretchModeText m) = m"
  by (cases m) (simp_all add: stretchModeFrom_def)

lemma plugin_format_round_trip [simp]: "pluginFormatFrom (pluginFormatText f) = f"
  by (cases f) (simp_all add: pluginFormatFrom_def)

subsection \<open>The report\<close>

datatype Severity = Info | Warning | Error

record LoadIssue =
  li_severity :: Severity
  li_message :: string

record LoadReport =
  lr_ok :: bool
  lr_issues :: "LoadIssue list"

definition clean_report :: "LoadReport \<Rightarrow> bool" where
  "clean_report r \<longleftrightarrow> lr_ok r \<and> lr_issues r = []"

definition count_issues :: "Severity \<Rightarrow> LoadReport \<Rightarrow> nat" where
  "count_issues s r = length (filter (\<lambda>i. li_severity i = s) (lr_issues r))"

fun severity_text :: "Severity \<Rightarrow> string" where
  "severity_text Error = ''error: ''" | "severity_text Warning = ''warning: ''" | "severity_text Info = ''note: ''"

definition describe_report :: "LoadReport \<Rightarrow> string" where
  "describe_report r = concat (map (\<lambda>i. severity_text (li_severity i) @ li_message i @ [CHR 0x0A]) (lr_issues r))"

text \<open>The long dash and the quotes of the messages.\<close>

definition dash :: string where "dash = [CHR '' '', CHR 0xE2, CHR 0x80, CHR 0x94, CHR '' '']"

definition quoted :: "string \<Rightarrow> string" where "quoted s = CHR 0x27 # s @ [CHR 0x27]"

definition noteKey :: "pattern_id \<Rightarrow> instrument_id \<Rightarrow> Note \<Rightarrow> string" where
  "noteKey pattern instrument n =
     id_str KPattern pattern @ ''/'' @ id_str KInstrument instrument @ ''/'' @ int_to_string (note_start n) @ ''/'' @
     int_to_string (note_length n) @ ''/'' @ int_to_string (note_key n) @ ''/'' @ int_to_string (note_velocity n)"

end
