(* ===== verification/Project_Loader.thy ===== *)
theory Project_Loader
  imports Json_Fields Invariants
begin

text \<open>
  The loader of \<open>model/project_io.cpp\<close>.  Each reader takes what it understands out of the parsed
  document, so that what is left is the residue; references are kept aside and resolved when every
  entity has been read.  A message is the bytes of the source's.
\<close>

subsection \<open>The loader\<close>

record Residue =
  res_document :: Value
  res_note_properties :: "(string, Value) omap"

record Loader =
  ld_tables :: Tables
  ld_issues :: "LoadIssue list"
  ld_properties :: "(string, Value) omap"
  ld_ticks_ok :: bool
  ld_dropped :: "clip_id list"
  pending_track_output :: "(track_id, string) omap"
  pending_routing :: "(instrument_id, OutputRoute list) omap"
  pending_lane_group :: "(lane_id, string) omap"
  pending_clip_pattern :: "(clip_id, pattern_id) omap"
  pending_clip_instrument :: "(clip_id, instrument_id) omap"
  pending_clip_track :: "(clip_id, track_id) omap"
  pending_clip_effect :: "(clip_id, effect_id) omap"

definition empty_tables :: Tables where
  "empty_tables = \<lparr>instruments = om_empty, patterns = om_empty, lanes = om_empty, clips = om_empty,
     mixer_tracks = om_empty, master = no_id, transport = default_transport, meta = default_meta\<rparr>"

definition new_loader :: Loader where
  "new_loader = \<lparr>ld_tables = empty_tables, ld_issues = [], ld_properties = om_empty, ld_ticks_ok = True,
     ld_dropped = [], pending_track_output = om_empty, pending_routing = om_empty,
     pending_lane_group = om_empty, pending_clip_pattern = om_empty, pending_clip_instrument = om_empty,
     pending_clip_track = om_empty, pending_clip_effect = om_empty\<rparr>"

definition issue :: "Severity \<Rightarrow> string \<Rightarrow> Loader \<Rightarrow> Loader" where
  "issue s message l = l\<lparr>ld_issues := ld_issues l @ [\<lparr>li_severity = s, li_message = message\<rparr>]\<rparr>"

abbreviation load_error :: "string \<Rightarrow> Loader \<Rightarrow> Loader" where "load_error \<equiv> issue Error"
abbreviation load_warn :: "string \<Rightarrow> Loader \<Rightarrow> Loader" where "load_warn \<equiv> issue Warning"
abbreviation load_note :: "string \<Rightarrow> Loader \<Rightarrow> Loader" where "load_note \<equiv> issue Info"

definition on_tables :: "(Tables \<Rightarrow> Tables) \<Rightarrow> Loader \<Rightarrow> Loader" where
  "on_tables f l = l\<lparr>ld_tables := f (ld_tables l)\<rparr>"

definition reference :: "entity_kind \<Rightarrow> string \<Rightarrow> string \<Rightarrow> string \<Rightarrow> Loader \<Rightarrow> 'k typed_id option \<times> Loader" where
  "reference k t owner field l =
     (if t = '''' then (None, l)
      else case id_parse k t of
          None \<Rightarrow> (None, load_error (owner @ '' has an unusable '' @ field @ '' ('' @ quoted t @ '')'' @ dash @ ''dropped.'') l)
        | Some i \<Rightarrow> (Some i, l))"

definition not_understood :: "string \<Rightarrow> string \<Rightarrow> Loader \<Rightarrow> Loader" where
  "not_understood noun key = load_note (''Kept, not understood: '' @ noun @ '' '' @ quoted key @ ''.'')"

text \<open>An entry that is an object under a key that is an identifier; \<open>unit\<close> or a flag comes back.\<close>

definition read_entity :: "entity_kind \<Rightarrow> string \<Rightarrow> ('k typed_id \<Rightarrow> (Loader, 'a) reader) \<Rightarrow> 'a \<Rightarrow>
    string \<Rightarrow> Value \<Rightarrow> Loader \<Rightarrow> 'a \<times> Value \<times> Loader" where
  "read_entity k noun read skipped key entry l =
     (case entry of
        JObject ms \<Rightarrow>
          (case id_parse k key of
             None \<Rightarrow> (skipped, entry, not_understood noun key l)
           | Some i \<Rightarrow> (case run_state (read i) (ms, l) of (a, (ms', l')) \<Rightarrow> (a, JObject ms', l')))
      | _ \<Rightarrow> (skipped, entry, l))"

subsection \<open>Meta and transport\<close>

definition read_meta_fields :: "(Loader, ProjectMeta) reader" where
  "read_meta_fields = do {
     name \<leftarrow> takeString ''name'' ''Untitled'';
     created \<leftarrow> takeString ''created_with'' '''';
     tpq \<leftarrow> takeInt ''ticks_per_quarter'' TicksPerQuarter;
     _ \<leftarrow> (if tpq \<noteq> TicksPerQuarter then
            tell (\<lambda>l. load_error (''This project uses '' @ int_to_string tpq @
              '' ticks per quarter note; OneBeat reads 960.'') (l\<lparr>ld_ticks_ok := False\<rparr>))
          else give ());
     give \<lparr>meta_name = name, meta_created_with = created\<rparr>
   }"

definition readMeta :: "(Loader, unit) reader" where
  "readMeta = do {
     m \<leftarrow> inside True ''meta'' default_meta read_meta_fields;
     tell (on_tables (\<lambda>t. t\<lparr>meta := m\<rparr>))
   }"

fun real_text :: "fp \<Rightarrow> string" where
  "real_text (Fin q) = formatReal q" | "real_text PInf = ''inf''" | "real_text NInf = ''-inf''" | "real_text NaN = ''nan''"

definition signature_from :: "Value \<Rightarrow> TimeSignature" where
  "signature_from v =
     (case v of
        JArray [a, b] \<Rightarrow> \<lparr>ts_numerator = to_int32 (asInt 4 a), ts_denominator = to_int32 (asInt 4 b)\<rparr>
      | _ \<Rightarrow> common_time)"

definition read_signature :: "string \<Rightarrow> (Loader, TimeSignature) reader" where
  "read_signature complaint = do {
     v \<leftarrow> takeValue ''time_signature'';
     let s = signature_from v;
     (if ts_numerator s \<le> 0 \<or> ts_denominator s \<le> 0
      then do { _ \<leftarrow> tell (load_warn complaint); give common_time }
      else give s)
   }"

definition read_loop :: "(Loader, bool \<times> int \<times> int) reader" where
  "read_loop = do {
     enabled \<leftarrow> takeBool ''enabled'' False;
     from \<leftarrow> takeInt ''start'' 0;
     to \<leftarrow> takeInt ''end'' from;
     give (enabled, from, to)
   }"

definition read_transport_fields :: "(Loader, TransportState) reader" where
  "read_transport_fields = do {
     tempo \<leftarrow> takeDouble ''tempo'' (Fin 120);
     metronome \<leftarrow> takeBool ''metronome_enabled'' False;
     tempo \<leftarrow> (if \<not> fp_less (Fin 0) tempo \<or> fp_less (Fin 1000) tempo
               then do { _ \<leftarrow> tell (load_warn (''Tempo of '' @ real_text tempo @ '' BPM is out of range; using 120.''));
                         give (Fin 120) }
               else give tempo);
     signature \<leftarrow> read_signature ''Time signature is not usable; using 4/4.'';
     (enabled, from, to) \<leftarrow> inside True ''loop''
        (tp_loop_enabled default_transport, tp_loop_start default_transport, tp_loop_end default_transport) read_loop;
     give \<lparr>tp_tempo = tempo, tp_time_signature = signature, tp_metronome_enabled = metronome,
           tp_loop_enabled = enabled, tp_loop_start = min from to, tp_loop_end = max from to\<rparr>
   }"

definition readTransport :: "(Loader, unit) reader" where
  "readTransport = do {
     t \<leftarrow> inside True ''transport'' default_transport read_transport_fields;
     tell (on_tables (\<lambda>ts. ts\<lparr>transport := t\<rparr>))
   }"

subsection \<open>Mixer tracks\<close>

text \<open>\<open>strtoul\<close> in base ten, on the key up to its first NUL, into a 32-bit \<open>ParamId\<close>.\<close>

definition c_space :: "char \<Rightarrow> bool" where
  "c_space c \<longleftrightarrow> c = CHR '' '' \<or> (9 \<le> (of_char c :: nat) \<and> (of_char c :: nat) \<le> 13)"

definition param_key :: "string \<Rightarrow> param_id option" where
  "param_key key =
     (let s = dropWhile c_space (takeWhile (\<lambda>c. c \<noteq> CHR 0x00) key);
          negative = starts (\<lambda>c. c = CHR ''-'') s;
          t = (if starts (\<lambda>c. c = CHR ''-'' \<or> c = CHR ''+'') s then drop 1 s else s);
          digits = takeWhile isDigit t;
          n = decimal_value 0 digits;
          parsed = (if 2 ^ 64 \<le> n then 2 ^ 64 - 1 else if negative then (2 ^ 64 - int n) mod 2 ^ 64 else int n);
          end_is_nul = (if digits = [] then takeWhile (\<lambda>c. c \<noteq> CHR 0x00) key = [] else drop (length digits) t = [])
      in if key = [] \<or> \<not> end_is_nul then None
         else Some (word_of_int (if digits = [] then 0 else parsed)))"

definition read_params :: "Value \<Rightarrow> (param_id, fp) omap" where
  "read_params slot =
     (case json_find ''params'' slot of
        Some (JObject ms) \<Rightarrow>
          fold (\<lambda>(key, v) m. if \<not> isNumber v then m
                else case param_key key of None \<Rightarrow> m | Some p \<Rightarrow> om_emplace p (to_float (asDouble (Fin 0) v)) m) ms om_empty
      | _ \<Rightarrow> om_empty)"

definition read_slot :: "effect_id \<Rightarrow> Value \<Rightarrow> EffectSlot" where
  "read_slot i v =
     \<lparr>slot_id = i,
      slot_plugin = (case json_find ''plugin'' v of
          None \<Rightarrow> default_plugin_ref
        | Some p \<Rightarrow> default_plugin_ref\<lparr>pr_format := pluginFormatFrom (stringAt p ''format''), pr_id := stringAt p ''id'',
            pr_name := stringAt p ''name'', pr_vendor := stringAt p ''vendor'', pr_path_hint := stringAt p ''path_hint''\<rparr>),
      slot_bypassed = (case json_find ''bypassed'' v of Some (JBool b) \<Rightarrow> b | _ \<Rightarrow> False),
      slot_params = read_params v\<rparr>"

fun read_chain :: "string \<Rightarrow> Value list \<Rightarrow> Loader \<Rightarrow> EffectSlot list \<times> Loader" where
  "read_chain name [] l = ([], l)"
| "read_chain name (v # vs) l =
     (if \<not> isObject v then read_chain name vs l
      else case id_parse KEffect (stringAt v ''id'') of
          None \<Rightarrow> read_chain name vs (load_note (''Kept, not understood: effect '' @ quoted (stringAt v ''id'') @
            '' on '' @ quoted name @ ''.'') l)
        | Some i \<Rightarrow> (case read_chain name vs l of (ss, l') \<Rightarrow> (read_slot i v # ss, l')))"

definition read_track :: "track_id \<Rightarrow> (Loader, unit) reader" where
  "read_track i = do {
     name \<leftarrow> takeString ''name'' ''Track'';
     gain \<leftarrow> takeFloat ''gain'' (Fin 1);
     pan \<leftarrow> takeFloat ''pan'' (Fin 0);
     muted \<leftarrow> takeBool ''muted'' False;
     soloed \<leftarrow> takeBool ''soloed'' False;
     output \<leftarrow> takeString ''output_id'' '''';
     _ \<leftarrow> (if output \<noteq> '''' then
            tell (\<lambda>l. l\<lparr>pending_track_output := om_emplace i output (pending_track_output l)\<rparr>)
          else give ());
     chain \<leftarrow> takeValue ''chain'';
     effects \<leftarrow> (case chain of JArray vs \<Rightarrow> lift_state (read_chain name vs) | _ \<Rightarrow> give []);
     ms \<leftarrow> remaining;
     _ \<leftarrow> (if map_of ms ''sends'' = Some (JArray []) then takeValue ''sends'' else give JNull);
     tell (on_tables (\<lambda>t. t\<lparr>mixer_tracks := om_emplace i
       \<lparr>track_id = i, track_name = name, track_output = None, track_gain = gain, track_pan = pan,
        track_muted = muted, track_soloed = soloed, track_effects = effects\<rparr> (mixer_tracks t)\<rparr>))
   }"

definition readMixerTracks :: "(Loader, unit) reader" where
  "readMixerTracks = do {
     ms \<leftarrow> remaining;
     _ \<leftarrow> (case map_of ms ''mixer_tracks'' of
            Some (JObject _) \<Rightarrow> give ()
          | _ \<Rightarrow> tell (load_warn ''Project has no mixer; a master track was created.''));
     State (\<lambda>s. ((), read_map ''mixer_tracks''
       (\<lambda>key entry l. snd (read_entity KMixerTrack ''mixer track'' read_track () key entry l)) s))
   }"

subsection \<open>Instruments\<close>

definition clampVelocity :: "int \<Rightarrow> string \<Rightarrow> Loader \<Rightarrow> velocity \<times> Loader" where
  "clampVelocity v owner l =
     (if v < 0 \<or> MaxVelocity < v
      then (max 0 (min v MaxVelocity),
            load_warn (''Velocity '' @ int_to_string v @ '' in '' @ owner @ '' is out of range; clamped.'') l)
      else (v, l))"

definition read_plugin :: "string \<Rightarrow> (Loader, PluginRef) reader" where
  "read_plugin owner = do {
     ms \<leftarrow> remaining;
     let written = (case map_of ms ''format'' of Some (JString s) \<Rightarrow> Some s | _ \<Rightarrow> None);
     let format = (case written of None \<Rightarrow> FmtUnknown | Some s \<Rightarrow> pluginFormatFrom s);
     _ \<leftarrow> (if format \<noteq> FmtUnknown then do { _ \<leftarrow> takeValue ''format''; give () }
          else case written of None \<Rightarrow> give ()
            | Some s \<Rightarrow> tell (load_note (''Kept, not understood: plug-in format '' @ quoted s @ '' on '' @ quoted owner @ ''.'')));
     i \<leftarrow> takeString ''id'' '''';
     name \<leftarrow> takeString ''name'' '''';
     vendor \<leftarrow> takeString ''vendor'' '''';
     hint \<leftarrow> takeString ''path_hint'' '''';
     give (default_plugin_ref\<lparr>pr_format := format, pr_id := i, pr_name := name, pr_vendor := vendor, pr_path_hint := hint\<rparr>)
   }"

definition read_note_defaults :: "string \<Rightarrow> (Loader, NoteDefaults) reader" where
  "read_note_defaults owner = do {
     v \<leftarrow> takeInt ''velocity'' DefaultVelocity;
     v \<leftarrow> lift_state (clampVelocity v (''note defaults of '' @ quoted owner));
     pan \<leftarrow> takeFloat ''pan'' (Fin 0);
     pitch \<leftarrow> takeInt ''pitch_offset'' 0;
     give \<lparr>nd_velocity = v, nd_pan = pan, nd_pitch_offset = to_int16 pitch\<rparr>
   }"

definition takeInt32 :: "string \<Rightarrow> int \<Rightarrow> ('l, int) reader" where
  "takeInt32 key fallback = do { v \<leftarrow> takeInt key fallback; give (to_int32 v) }"

definition read_channel_settings :: "(Loader, ChannelSettings) reader" where
  "read_channel_settings = do {
     gate \<leftarrow> takeInt32 ''gate_percent'' 100;
     shift \<leftarrow> takeInt ''shift_ticks'' 0;
     group \<leftarrow> takeInt32 ''cut_group'' 0;
     by_group \<leftarrow> takeInt32 ''cut_by_group'' 0;
     polyphony \<leftarrow> takeInt32 ''max_polyphony'' 0;
     mono \<leftarrow> takeBool ''mono'' False;
     portamento \<leftarrow> takeBool ''portamento'' False;
     root_key \<leftarrow> takeInt32 ''root_key'' 60;
     low \<leftarrow> takeInt32 ''key_low'' 0;
     high \<leftarrow> takeInt32 ''key_high'' 127;
     fine \<leftarrow> takeInt32 ''fine_tune_cents'' 0;
     tracking \<leftarrow> takeFloat ''velocity_tracking'' (Fin 1);
     x \<leftarrow> takeInt32 ''mod_x'' 0;
     y \<leftarrow> takeInt32 ''mod_y'' 0;
     arp \<leftarrow> takeBool ''arpeggiator'' False;
     arp_time \<leftarrow> takeInt32 ''arpeggiator_time_ticks'' (TicksPerQuarter div 4);
     arp_gate \<leftarrow> takeInt32 ''arpeggiator_gate_percent'' 100;
     echo_time \<leftarrow> takeInt32 ''echo_time_ticks'' 0;
     echo_feedback \<leftarrow> takeInt32 ''echo_feedback_percent'' 0;
     give \<lparr>cs_gate_percent = gate, cs_shift_ticks = shift, cs_cut_group = group, cs_cut_by_group = by_group,
           cs_max_polyphony = polyphony, cs_mono = mono, cs_portamento = portamento, cs_root_key = root_key,
           cs_key_low = low, cs_key_high = high, cs_fine_tune_cents = fine, cs_velocity_tracking = tracking,
           cs_mod_x = x, cs_mod_y = y, cs_arpeggiator = arp, cs_arpeggiator_time_ticks = arp_time,
           cs_arpeggiator_gate_percent = arp_gate, cs_echo_time_ticks = echo_time,
           cs_echo_feedback_percent = echo_feedback\<rparr>
   }"

text \<open>A bare identifier takes its position as its port.\<close>

definition route_text :: "Value \<Rightarrow> string" where
  "route_text v = (case v of JString s \<Rightarrow> s | _ \<Rightarrow> stringAt v ''track_id'')"

definition route_port_of :: "int \<Rightarrow> Value \<Rightarrow> port_id" where
  "route_port_of position v =
     (case json_find ''port'' v of
        Some w \<Rightarrow> if isNumber w then word_of_int (asInt 0 w) else word_of_int position
      | None \<Rightarrow> word_of_int position)"

fun read_routes :: "string \<Rightarrow> int \<Rightarrow> Value list \<Rightarrow> Loader \<Rightarrow> OutputRoute list \<times> Loader" where
  "read_routes owner position [] l = ([], l)"
| "read_routes owner position (v # vs) l =
     (case reference KMixerTrack (route_text v) (''Instrument '' @ quoted owner) ''routing destination'' l of
        (track, l1) \<Rightarrow>
          (case read_routes owner (position + 1) vs l1 of
             (rs, l2) \<Rightarrow> (case track of None \<Rightarrow> rs | Some t \<Rightarrow> \<lparr>route_port = route_port_of position v, route_track = t\<rparr> # rs, l2)))"

definition add_pending_routes :: "instrument_id \<Rightarrow> OutputRoute list \<Rightarrow> Loader \<Rightarrow> Loader" where
  "add_pending_routes i rs l =
     (if rs = [] then l
      else l\<lparr>pending_routing := om_insert i ((case om_find (pending_routing l) i of None \<Rightarrow> [] | Some qs \<Rightarrow> qs) @ rs)
               (pending_routing l)\<rparr>)"

definition read_instrument :: "int \<Rightarrow> instrument_id \<Rightarrow> (Loader, unit) reader" where
  "read_instrument fallback_order i = do {
     name \<leftarrow> takeString ''name'' ''Instrument'';
     color \<leftarrow> takeString ''color'' ''#6C8CFF'';
     order \<leftarrow> takeInt32 ''order'' fallback_order;
     muted \<leftarrow> takeBool ''muted'' False;
     soloed \<leftarrow> takeBool ''soloed'' False;
     gain \<leftarrow> takeFloat ''gain'' (Fin 1);
     pan \<leftarrow> takeFloat ''pan'' (Fin 0);
     plugin \<leftarrow> inside True ''plugin'' default_plugin_ref (read_plugin name);
     state_ref \<leftarrow> takeString ''state_ref'' '''';
     state_sha \<leftarrow> takeString ''state_sha256'' '''';
     defaults \<leftarrow> inside True ''note_defaults'' default_note_defaults (read_note_defaults name);
     settings \<leftarrow> inside False ''channel_settings'' default_channel_settings read_channel_settings;
     routing \<leftarrow> takeValue ''routing'';
     _ \<leftarrow> (case routing of
            JArray vs \<Rightarrow> do { rs \<leftarrow> lift_state (read_routes name 0 vs); tell (add_pending_routes i rs) }
          | _ \<Rightarrow> give ());
     tell (on_tables (\<lambda>t. t\<lparr>instruments := om_emplace i
       \<lparr>inst_id = i, inst_name = name, inst_color = color, inst_order = order,
        inst_plugin = plugin\<lparr>pr_state_ref := state_ref, pr_state_sha256 := state_sha\<rparr>,
        inst_note_defaults = defaults, inst_channel_settings = settings, inst_routing = [],
        inst_muted = muted, inst_soloed = soloed, inst_gain = gain, inst_pan = pan\<rparr> (instruments t)\<rparr>))
   }"

text \<open>The fallback order counts the entries that were read.\<close>

definition read_instrument_entry :: "string \<Rightarrow> Value \<Rightarrow> Loader \<times> int \<Rightarrow> Value \<times> (Loader \<times> int)" where
  "read_instrument_entry key entry = (\<lambda>(l, order).
     case read_entity KInstrument ''instrument'' (\<lambda>i. do { _ \<leftarrow> read_instrument order i; give True }) False key entry l of
       (was_read, entry', l') \<Rightarrow> (entry', (l', if was_read then order + 1 else order)))"

definition readInstruments :: "(Loader, unit) reader" where
  "readInstruments = State (\<lambda>(document, l).
     case read_map ''instruments'' read_instrument_entry (document, (l, 0)) of (document', (l', _)) \<Rightarrow> ((), (document', l')))"

subsection \<open>Patterns\<close>

definition read_points :: "Value list \<Rightarrow> AutomationPoint list" where
  "read_points vs = List.map_filter (\<lambda>v. case v of
      JArray (a # b # _) \<Rightarrow> Some \<lparr>pt_position = asInt 0 a, pt_value = to_float (asDouble (Fin 0) b)\<rparr>
    | _ \<Rightarrow> None) vs"

definition pattern_target :: "Value \<Rightarrow> AutomationSource option" where
  "pattern_target v =
     (let kind = stringAt v ''target_kind''; target = stringAt v ''target_id'' in
      if kind = ''instrument'' then
        map_option (\<lambda>i. default_automation\<lparr>as_target_kind := TargetInstrument, as_instrument := i\<rparr>) (id_parse KInstrument target)
      else if kind = ''mixer_track'' then
        map_option (\<lambda>i. default_automation\<lparr>as_target_kind := TargetMixerTrack, as_mixer_track := i\<rparr>) (id_parse KMixerTrack target)
      else if kind = ''effect'' then
        (case (id_parse KMixerTrack target, id_parse KEffect (stringAt v ''effect_id'')) of
           (Some t, Some e) \<Rightarrow> Some (default_automation\<lparr>as_target_kind := TargetEffect, as_mixer_track := t, as_effect := e\<rparr>)
         | _ \<Rightarrow> None)
      else None)"

definition read_pattern_automation :: "Value \<Rightarrow> AutomationSource option" where
  "read_pattern_automation v =
     (if \<not> isObject v then None
      else case pattern_target v of
          None \<Rightarrow> None
        | Some a \<Rightarrow>
            (case json_find ''points'' v of
               Some (JArray ps) \<Rightarrow>
                 if read_points ps = [] then None
                 else Some (a\<lparr>as_points := read_points ps,
                   as_parameter := (case json_find ''parameter'' v of None \<Rightarrow> InvalidParamId | Some w \<Rightarrow> word_of_int (asInt 0 w))\<rparr>)
             | _ \<Rightarrow> None))"

definition malformed :: "Value \<Rightarrow> bool" where
  "malformed v \<longleftrightarrow> (case v of JArray vs \<Rightarrow> length vs < 4 | _ \<Rightarrow> True)"

definition record_field :: "Value \<Rightarrow> nat \<Rightarrow> int \<Rightarrow> int" where
  "record_field v n fallback = (case v of JArray vs \<Rightarrow> asInt fallback (vs ! n) | _ \<Rightarrow> fallback)"

definition note_owner :: "string \<Rightarrow> string" where "note_owner name = ''a note in pattern '' @ quoted name"

definition key_warning :: "string \<Rightarrow> Loader \<Rightarrow> Loader" where
  "key_warning name = load_warn (''A note in pattern '' @ quoted name @ '' is outside the key range; clamped.'')"

definition keep_properties :: "pattern_id \<Rightarrow> instrument_id \<Rightarrow> Note \<Rightarrow> Value \<Rightarrow> Loader \<Rightarrow> Loader" where
  "keep_properties p i n v l =
     (case v of
        JArray (_ # _ # _ # _ # JObject ms # _) \<Rightarrow>
          l\<lparr>ld_properties := om_emplace (noteKey p i n) (JObject ms) (ld_properties l)\<rparr>
      | _ \<Rightarrow> l)"

fun read_records :: "pattern_id \<Rightarrow> instrument_id \<Rightarrow> string \<Rightarrow> Value list \<Rightarrow> Loader \<times> nat \<Rightarrow> Note list \<times> Loader \<times> nat" where
  "read_records p i name [] s = ([], s)"
| "read_records p i name (v # vs) (l, bad) =
     (if malformed v then read_records p i name vs (l, bad + 1)
      else
        let start = record_field v 0 0; len = record_field v 1 0; key = to_int16 (record_field v 2 60);
            (velocity, l1) = clampVelocity (record_field v 3 DefaultVelocity) (note_owner name) l
        in if len \<le> 0 \<or> start < 0 then read_records p i name vs (l1, bad + 1)
           else
             let (key', l2) =
                   (if key < 0 \<or> 127 < key
                    then (max 0 (min key 127),
                          key_warning name l1)
                    else (key, l1));
                 n = \<lparr>note_start = start, note_length = len, note_key = key', note_velocity = velocity\<rparr>;
                 l3 = keep_properties p i n v l2;
                 (ns, s) = read_records p i name vs (l3, bad)
             in (n # ns, s))"

definition readSequence :: "pattern_id \<Rightarrow> instrument_id \<Rightarrow> string \<Rightarrow> Value list \<Rightarrow> Loader \<Rightarrow> note_sequence \<times> Loader" where
  "readSequence p i name records l =
     (case read_records p i name records (l, 0) of
        (ns, l', bad) \<Rightarrow>
          (assignSorted ns,
           if 0 < bad then load_warn (''Pattern '' @ quoted name @ '' has '' @ nat_to_string bad @
             '' unusable note record(s)'' @ dash @ ''dropped.'') l' else l'))"

definition read_sequence_entry :: "pattern_id \<Rightarrow> string \<Rightarrow> string \<Rightarrow> Value \<Rightarrow> Loader \<times> (instrument_id, note_sequence) omap \<Rightarrow>
    Value \<times> Loader \<times> (instrument_id, note_sequence) omap" where
  "read_sequence_entry p name key v = (\<lambda>(l, seqs).
     case id_parse KInstrument key of
       None \<Rightarrow> (v, load_note (''Kept, not understood: sequence key '' @ quoted key @ '' in pattern '' @ quoted name @ ''.'') l, seqs)
     | Some i \<Rightarrow>
         (case v of
            JArray records \<Rightarrow> (case readSequence p i name records l of (s, l') \<Rightarrow> (JArray [], l', om_emplace i s seqs))
          | _ \<Rightarrow> (v, l, seqs)))"

definition read_sequences :: "pattern_id \<Rightarrow> string \<Rightarrow> (Loader, (instrument_id, note_sequence) omap) reader" where
  "read_sequences p name = State (\<lambda>(ms, l).
     case each_entry (read_sequence_entry p name) ms (l, om_empty) of
       (ms', l', seqs) \<Rightarrow> (seqs, (filter (\<lambda>e. snd e \<noteq> JArray []) ms', l')))"

definition read_pattern :: "pattern_id \<Rightarrow> (Loader, unit) reader" where
  "read_pattern p = do {
     name \<leftarrow> takeString ''name'' ''Pattern'';
     color \<leftarrow> takeString ''color'' ''#6C8CFF'';
     len \<leftarrow> takeInt ''length'' (TicksPerBarFourFour * 4);
     order \<leftarrow> takeInt32 ''order'' 0;
     group \<leftarrow> takeString ''group'' '''';
     signature \<leftarrow> read_signature (''Pattern '' @ quoted name @ '' has an invalid time signature; using 4/4.'');
     len \<leftarrow> (if len < 0 then do { _ \<leftarrow> tell (load_warn (''Pattern '' @ quoted name @ '' has an invalid length; using Auto.''));
                                give 0 } else give len);
     swing \<leftarrow> takeDouble ''swing'' (Fin 0);
     swing \<leftarrow> (if fp_less swing (Fin 0) \<or> fp_less (Fin 1) swing
              then do { _ \<leftarrow> tell (load_warn (''Pattern '' @ quoted name @ '' has invalid swing; using none.''));
                        give (Fin 0) } else give swing);
     automation \<leftarrow> takeValue ''automation'';
     (seqs, left) \<leftarrow> inside False ''sequences'' (om_empty, [])
        (do { seqs \<leftarrow> read_sequences p name; left \<leftarrow> remaining; give (seqs, left) });
     _ \<leftarrow> (if left \<noteq> [] then emplaceField ''sequences'' (JObject left) else give ());
     tell (on_tables (\<lambda>t. t\<lparr>patterns := om_emplace p
       \<lparr>pat_id = p, pat_name = name, pat_color = color, pat_length = len, pat_order = order, pat_group = group,
        pat_time_signature = signature, pat_swing = swing, pat_sequences = seqs,
        pat_automation = (case automation of JArray vs \<Rightarrow> List.map_filter read_pattern_automation vs | _ \<Rightarrow> [])\<rparr>
       (patterns t)\<rparr>))
   }"

definition readPatterns :: "(Loader, unit) reader" where
  "readPatterns = State (\<lambda>s. ((), read_map ''patterns''
     (\<lambda>key entry l. snd (read_entity KPattern ''pattern'' read_pattern () key entry l)) s))"

subsection \<open>Lanes\<close>

definition read_lane :: "lane_id \<Rightarrow> (Loader, unit) reader" where
  "read_lane i = do {
     name \<leftarrow> takeString ''name'' ''Lane'';
     color \<leftarrow> takeString ''color'' ''#6C8CFF'';
     height \<leftarrow> takeInt32 ''height'' 88;
     order \<leftarrow> takeInt32 ''order'' 0;
     collapsed \<leftarrow> takeBool ''collapsed'' False;
     muted \<leftarrow> takeBool ''muted'' False;
     soloed \<leftarrow> takeBool ''soloed'' False;
     group \<leftarrow> takeString ''group_id'' '''';
     _ \<leftarrow> (if group \<noteq> '''' then tell (\<lambda>l. l\<lparr>pending_lane_group := om_emplace i group (pending_lane_group l)\<rparr>)
          else give ());
     tell (on_tables (\<lambda>t. t\<lparr>lanes := om_emplace i
       \<lparr>lane_id = i, lane_name = name, lane_color = color, lane_height = height, lane_order = order,
        lane_collapsed = collapsed, lane_muted = muted, lane_soloed = soloed, lane_group_id = None\<rparr> (lanes t)\<rparr>))
   }"

definition readLanes :: "(Loader, unit) reader" where
  "readLanes = State (\<lambda>s. ((), read_map ''lanes''
     (\<lambda>key entry l. snd (read_entity KArrangementLane ''lane'' read_lane () key entry l)) s))"

subsection \<open>Clips\<close>

definition read_transforms :: "(Loader, ClipTransforms) reader" where
  "read_transforms = do {
     transpose \<leftarrow> takeInt ''transpose'' 0;
     loop \<leftarrow> takeBool ''loop'' False;
     window \<leftarrow> takeInt ''window_start'' 0;
     scale \<leftarrow> takeFloat ''velocity_scale'' (Fin 1);
     nudge \<leftarrow> takeInt ''time_nudge'' 0;
     probability \<leftarrow> takeFloat ''probability'' (Fin 1);
     give \<lparr>tr_transpose = to_int16 transpose, tr_loop = loop, tr_window_start = window, tr_velocity_scale = scale,
           tr_time_nudge = nudge, tr_probability = probability\<rparr>
   }"

definition clip_owner :: "string \<Rightarrow> string" where "clip_owner key = ''Clip '' @ quoted key"

definition note_pattern :: "clip_id \<Rightarrow> pattern_id \<Rightarrow> Loader \<Rightarrow> Loader" where
  "note_pattern i p l = l\<lparr>pending_clip_pattern := om_emplace i p (pending_clip_pattern l)\<rparr>"

definition note_instrument :: "clip_id \<Rightarrow> instrument_id \<Rightarrow> Loader \<Rightarrow> Loader" where
  "note_instrument i n l = l\<lparr>pending_clip_instrument := om_emplace i n (pending_clip_instrument l)\<rparr>"

definition note_track :: "clip_id \<Rightarrow> track_id \<Rightarrow> Loader \<Rightarrow> Loader" where
  "note_track i t l = l\<lparr>pending_clip_track := om_emplace i t (pending_clip_track l)\<rparr>"

definition note_effect :: "clip_id \<Rightarrow> effect_id \<Rightarrow> Loader \<Rightarrow> Loader" where
  "note_effect i e l = l\<lparr>pending_clip_effect := om_emplace i e (pending_clip_effect l)\<rparr>"

definition read_pattern_source :: "string \<Rightarrow> clip_id \<Rightarrow> (Loader, ClipSource option) reader" where
  "read_pattern_source key i = do {
     t \<leftarrow> takeString ''pattern_id'' '''';
     p \<leftarrow> lift_state (reference KPattern t (clip_owner key) ''pattern'');
     (case p of
        None \<Rightarrow> give None
      | Some p \<Rightarrow> do { _ \<leftarrow> tell (note_pattern i p); give (Some (SrcPattern p)) })
   }"

definition read_audio_source :: "string \<Rightarrow> clip_id \<Rightarrow> (Loader, ClipSource option) reader" where
  "read_audio_source key i = do {
     path \<leftarrow> takeString ''path'' '''';
     offset \<leftarrow> takeInt ''source_offset'' 0;
     len \<leftarrow> takeInt ''source_length'' 0;
     gain \<leftarrow> takeFloat ''gain'' (Fin 1);
     reversed \<leftarrow> takeBool ''reversed'' False;
     mode \<leftarrow> takeString ''stretch_mode'' ''off'';
     bpm \<leftarrow> takeDouble ''source_bpm'' (Fin 0);
     destination \<leftarrow> takeString ''destination_id'' '''';
     t \<leftarrow> lift_state (reference KMixerTrack destination (clip_owner key) ''destination'');
     (case t of
        None \<Rightarrow> give None
      | Some t \<Rightarrow> do { _ \<leftarrow> tell (note_track i t);
          give (Some (SrcAudio \<lparr>au_path = path, au_source_offset = offset, au_source_length = len, au_gain = gain,
            au_reversed = reversed, au_destination = t, au_stretch_mode = stretchModeFrom mode, au_source_bpm = bpm\<rparr>)) })
   }"

text \<open>The target of an automation clip: \<open>None\<close> makes the clip unusable.\<close>

definition read_effect_target :: "string \<Rightarrow> clip_id \<Rightarrow> AutomationSource \<Rightarrow> (Loader, AutomationSource option) reader" where
  "read_effect_target key i a = do {
     t \<leftarrow> takeString ''effect_id'' '''';
     (case id_parse KEffect t of
        None \<Rightarrow> do { _ \<leftarrow> tell (load_error (clip_owner key @ '' automates an effect it does not name'' @ dash @ ''dropped.''));
                     give None }
      | Some e \<Rightarrow> do { _ \<leftarrow> tell (note_effect i e); give (Some (a\<lparr>as_effect := e\<rparr>)) })
   }"

definition read_target :: "string \<Rightarrow> clip_id \<Rightarrow> string \<Rightarrow> string \<Rightarrow> AutomationSource \<Rightarrow> (Loader, AutomationSource option) reader" where
  "read_target key i kind target a =
     (if kind = ''mixer_track'' \<or> kind = ''effect'' then do {
        t \<leftarrow> lift_state (reference KMixerTrack target (clip_owner key) ''target'');
        (case t of
           None \<Rightarrow> give None
         | Some t \<Rightarrow> do {
             _ \<leftarrow> tell (note_track i t);
             let a' = a\<lparr>as_target_kind := (if kind = ''effect'' then TargetEffect else TargetMixerTrack), as_mixer_track := t\<rparr>;
             (if kind = ''effect'' then read_effect_target key i a' else give (Some a')) })
      } else do {
        n \<leftarrow> lift_state (reference KInstrument target (clip_owner key) ''target'');
        (case n of
           None \<Rightarrow> give None
         | Some n \<Rightarrow> do { _ \<leftarrow> tell (note_instrument i n); give (Some (a\<lparr>as_instrument := n\<rparr>)) })
      })"

definition read_automation_source :: "string \<Rightarrow> clip_id \<Rightarrow> (Loader, ClipSource option) reader" where
  "read_automation_source key i = do {
     kind \<leftarrow> takeString ''target_kind'' ''instrument'';
     target \<leftarrow> takeString ''target_id'' '''';
     parameter \<leftarrow> takeInt ''parameter'' (uint InvalidParamId);
     a \<leftarrow> read_target key i kind target (default_automation\<lparr>as_parameter := word_of_int parameter\<rparr>);
     points \<leftarrow> takeValue ''points'';
     give (map_option (\<lambda>a. SrcAutomation (case points of
         JArray vs \<Rightarrow> a\<lparr>as_points := sort_key pt_position (read_points vs)\<rparr> | _ \<Rightarrow> a)) a)
   }"

definition read_source :: "string \<Rightarrow> clip_id \<Rightarrow> string \<Rightarrow> (Loader, ClipSource option \<times> object) reader" where
  "read_source key i kind = do {
     _ \<leftarrow> takeValue ''type'';
     s \<leftarrow> (if kind = ''pattern'' then read_pattern_source key i
          else if kind = ''audio'' then read_audio_source key i
          else read_automation_source key i);
     left \<leftarrow> remaining;
     give (s, left)
   }"

text \<open>What is left of a clip; the result says whether its fields may stay in the residue.\<close>

definition source_type :: "object \<Rightarrow> string option" where
  "source_type ms = (case map_of ms ''source'' of None \<Rightarrow> None | Some v \<Rightarrow> Option.bind (json_find ''type'' v) asString)"

definition read_known_clip :: "string \<Rightarrow> clip_id \<Rightarrow> string \<Rightarrow> (Loader, bool) reader" where
  "read_known_clip key i kind = do {
     start \<leftarrow> takeInt ''start'' 0;
     len \<leftarrow> takeInt ''length'' 0;
     muted \<leftarrow> takeBool ''muted'' False;
     (if len \<le> 0 then do { _ \<leftarrow> tell (load_error (clip_owner key @ '' has no length'' @ dash @ ''dropped.'')); give False }
      else do {
        lane_text \<leftarrow> takeString ''lane_id'' '''';
        lane \<leftarrow> lift_state (reference KArrangementLane lane_text (clip_owner key) ''lane'');
        (case lane of
           None \<Rightarrow> do { _ \<leftarrow> tell (load_error (clip_owner key @ '' names no lane'' @ dash @ ''dropped.'')); give False }
         | Some lane \<Rightarrow> do {
             transforms \<leftarrow> inside True ''transforms'' default_transforms read_transforms;
             (source, left) \<leftarrow> inside False ''source'' (None, []) (read_source key i kind);
             (case source of
                None \<Rightarrow> give False
              | Some source \<Rightarrow> do {
                  _ \<leftarrow> (if left \<noteq> [] then emplaceField ''source'' (JObject left) else give ());
                  _ \<leftarrow> tell (on_tables (\<lambda>t. t\<lparr>clips := om_emplace i
                    \<lparr>clip_id = i, clip_lane = lane, clip_start = start, clip_length = len, clip_muted = muted,
                     clip_source = source, clip_transforms = transforms\<rparr> (clips t)\<rparr>));
                  give True })
           })
      })
   }"

definition read_clip :: "string \<Rightarrow> clip_id \<Rightarrow> (Loader, bool) reader" where
  "read_clip key i = do {
     ms \<leftarrow> remaining;
     (case source_type ms of
        None \<Rightarrow> do { _ \<leftarrow> tell (load_error (clip_owner key @ '' does not say what it plays'' @ dash @ ''dropped.'')); give False }
      | Some kind \<Rightarrow>
          if kind \<noteq> ''pattern'' \<and> kind \<noteq> ''audio'' \<and> kind \<noteq> ''automation'' then do {
            _ \<leftarrow> tell (load_note (''Kept, not understood: clip '' @ quoted key @ '' plays a '' @ quoted kind @ '' source.''));
            give True }
          else read_known_clip key i kind)
   }"

definition read_clip_entry :: "string \<Rightarrow> Value \<Rightarrow> Loader \<times> string list \<Rightarrow> Value \<times> (Loader \<times> string list)" where
  "read_clip_entry key entry = (\<lambda>(l, unusable).
     case read_entity KClip ''clip'' (read_clip key) True key entry l of
       (usable, entry', l') \<Rightarrow> (entry', (l', if usable then unusable else unusable @ [key])))"

definition readClips :: "(Loader, unit) reader" where
  "readClips = State (\<lambda>(document, l).
     case read_map ''clips'' read_clip_entry (document, (l, [])) of
       (document', (l', unusable)) \<Rightarrow>
         ((), (map (\<lambda>(k, v). (k, case v of
                 JObject ms \<Rightarrow> if k = ''clips'' then JObject (filter (\<lambda>e. fst e \<notin> set unusable) ms) else v
               | _ \<Rightarrow> v)) document', l')))"

subsection \<open>Resolving the references\<close>

definition set_output :: "track_id \<Rightarrow> track_id \<Rightarrow> Tables \<Rightarrow> Tables" where
  "set_output i out t = t\<lparr>mixer_tracks := om_update i (\<lambda>m. m\<lparr>track_output := Some out\<rparr>) (mixer_tracks t)\<rparr>"

definition name_of_track :: "track_id \<Rightarrow> Tables \<Rightarrow> string" where
  "name_of_track i t = (case om_find (mixer_tracks t) i of None \<Rightarrow> '''' | Some m \<Rightarrow> track_name m)"

definition output_to_master :: "string \<Rightarrow> track_id \<Rightarrow> Loader \<Rightarrow> Loader" where
  "output_to_master complaint i l =
     on_tables (\<lambda>t. set_output i (master t) t)
       (load_warn (''Mixer track '' @ quoted (name_of_track i (ld_tables l)) @ complaint) l)"

definition root_tracks :: "Loader \<Rightarrow> track_id list" where
  "root_tracks l = filter (\<lambda>i. om_find (pending_track_output l) i = None) (om_keys (mixer_tracks (ld_tables l)))"

definition chooseMaster :: "64 word \<Rightarrow> project \<Rightarrow> Loader \<Rightarrow> Loader" where
  "chooseMaster clock project l =
     (case root_tracks l of
        [] \<Rightarrow>
          (let m = fst (mintId clock project) in
           load_warn ''Project had no master track; one was created.''
             (on_tables (\<lambda>t. t\<lparr>master := m, mixer_tracks := om_emplace m
               (default_mixer_track\<lparr>track_id := m, track_name := ''Master''\<rparr>) (mixer_tracks t)\<rparr>) l))
      | r # rs \<Rightarrow>
          fold (output_to_master '' had no output; routed to the master.'') rs (on_tables (\<lambda>t. t\<lparr>master := r\<rparr>) l))"

text \<open>The warning comes whether or not the track is the master, whose output stays as it is.\<close>

definition resolve_output :: "track_id \<Rightarrow> Loader \<Rightarrow> Loader" where
  "resolve_output i l =
     (case om_find (pending_track_output l) i of
        None \<Rightarrow> l
      | Some t \<Rightarrow>
          (case reference KMixerTrack t (''Mixer track '' @ quoted (name_of_track i (ld_tables l))) ''output'' l of
             (out, l1) \<Rightarrow>
               (case Option.bind out (\<lambda>o'. if om_find (mixer_tracks (ld_tables l1)) o' \<noteq> None \<and> o' \<noteq> i then Some o' else None) of
                  Some o' \<Rightarrow> on_tables (set_output i o') l1
                | None \<Rightarrow>
                    let l2 = load_warn (''Mixer track '' @ quoted (name_of_track i (ld_tables l1)) @
                          '' routed to a track that is not there; routed to the master.'') l1
                    in if i \<noteq> master (ld_tables l2) then on_tables (\<lambda>t. set_output i (master t) t) l2 else l2)))"

text \<open>The walk along the outputs, with the steps that are left.\<close>

fun fed_back :: "(track_id, MixerTrack) omap \<Rightarrow> track_id \<Rightarrow> nat \<Rightarrow> track_id \<Rightarrow> bool" where
  "fed_back m i left walker =
     (case om_find m walker of
        None \<Rightarrow> False
      | Some t \<Rightarrow>
          (case track_output t of
             None \<Rightarrow> False
           | Some out \<Rightarrow> if out = i then True else (case left of 0 \<Rightarrow> True | Suc n \<Rightarrow> fed_back m i n out)))"

declare fed_back.simps [simp del]

definition break_cycle :: "track_id \<Rightarrow> Loader \<Rightarrow> Loader" where
  "break_cycle i l =
     (let m = mixer_tracks (ld_tables l) in
      if fed_back m i (om_size m) i then output_to_master '' fed back into itself; routed to the master.'' i l else l)"

definition breakMixerCycles :: "Loader \<Rightarrow> Loader" where
  "breakMixerCycles l = fold break_cycle (om_keys (mixer_tracks (ld_tables l))) l"

definition resolve_routing :: "instrument_id \<Rightarrow> Loader \<Rightarrow> Loader" where
  "resolve_routing i l =
     (case om_find (instruments (ld_tables l)) i of
        None \<Rightarrow> l
      | Some inst \<Rightarrow>
          let wanted = (case om_find (pending_routing l) i of None \<Rightarrow> [] | Some rs \<Rightarrow> rs);
              live = (\<lambda>r. om_find (mixer_tracks (ld_tables l)) (route_track r) \<noteq> None);
              kept = filter live wanted;
              routes = (if kept = [] then [\<lparr>route_port = 0, route_track = master (ld_tables l)\<rparr>] else kept)
          in on_tables (\<lambda>t. t\<lparr>instruments := om_update i (\<lambda>n. n\<lparr>inst_routing := routes\<rparr>) (instruments t)\<rparr>)
               (fold (\<lambda>r. load_warn (''Instrument '' @ quoted (inst_name inst) @
                  '' was routed to a mixer track that is not there; routed to the master.''))
                 (filter (\<lambda>r. \<not> live r) wanted) l))"

definition resolve_group :: "lane_id \<Rightarrow> Loader \<Rightarrow> Loader" where
  "resolve_group i l =
     (case (om_find (lanes (ld_tables l)) i, om_find (pending_lane_group l) i) of
        (Some lane, Some t) \<Rightarrow>
          (case Option.bind (id_parse KArrangementLane t)
              (\<lambda>g. if om_find (lanes (ld_tables l)) g \<noteq> None \<and> g \<noteq> i then Some g else None) of
             Some g \<Rightarrow> on_tables (\<lambda>ts. ts\<lparr>lanes := om_update i (\<lambda>n. n\<lparr>lane_group_id := Some g\<rparr>) (lanes ts)\<rparr>) l
           | None \<Rightarrow> load_warn (''Lane '' @ quoted (lane_name lane) @ '' is grouped under a lane that is not there; ungrouped.'') l)
      | _ \<Rightarrow> l)"

definition drop_orphans :: "pattern_id \<Rightarrow> Loader \<Rightarrow> Loader" where
  "drop_orphans p l =
     (case om_find (patterns (ld_tables l)) p of
        None \<Rightarrow> l
      | Some pat \<Rightarrow>
          let live = (\<lambda>i. om_find (instruments (ld_tables l)) i \<noteq> None) in
          on_tables (\<lambda>t. t\<lparr>patterns := om_update p
              (\<lambda>q. q\<lparr>pat_sequences := om_filter (\<lambda>i s. live i) (pat_sequences q)\<rparr>) (patterns t)\<rparr>)
            (fold (\<lambda>(i, s). load_error (''Pattern '' @ quoted (pat_name pat) @ '' has '' @ nat_to_string (length s) @
                '' note(s) for an instrument that is not in this project'' @ dash @ ''removed.''))
              (filter (\<lambda>(i, s). \<not> live i) (om_entries (pat_sequences pat))) l))"

definition effectIsLoaded :: "clip_id \<Rightarrow> effect_id \<Rightarrow> Loader \<Rightarrow> bool" where
  "effectIsLoaded c e l =
     (case om_find (pending_clip_track l) c of
        None \<Rightarrow> False
      | Some t \<Rightarrow> (case om_find (mixer_tracks (ld_tables l)) t of None \<Rightarrow> False | Some m \<Rightarrow> findEffect m e \<noteq> None))"

definition absent_in :: "('i::linorder, 'x) omap \<Rightarrow> (clip_id, 'i) omap \<Rightarrow> clip_id \<Rightarrow> bool" where
  "absent_in table pending c = (case om_find pending c of None \<Rightarrow> False | Some i \<Rightarrow> om_find table i = None)"

definition dangling_reason :: "Loader \<Rightarrow> clip_id \<Rightarrow> Clip \<Rightarrow> string" where
  "dangling_reason l i c =
     (let t = ld_tables l in
      if om_find (lanes t) (clip_lane c) = None then ''its lane is not in this project''
      else if absent_in (patterns t) (pending_clip_pattern l) i then ''the pattern it plays is not in this project''
      else if absent_in (instruments t) (pending_clip_instrument l) i then ''the instrument it automates is not in this project''
      else if absent_in (mixer_tracks t) (pending_clip_track l) i then ''the mixer track it targets is not in this project''
      else if (case om_find (pending_clip_effect l) i of None \<Rightarrow> False | Some e \<Rightarrow> \<not> effectIsLoaded i e l)
        then ''the effect it automates is no longer in that track'' @ CHR 0x27 # ''s chain''
      else '''')"

definition drop_clip :: "clip_id \<times> Clip \<Rightarrow> Loader \<Rightarrow> Loader" where
  "drop_clip e l =
     (let reason = dangling_reason l (fst e) (snd e) in
      if reason = '''' then l
      else (load_error (''Clip '' @ id_str KClip (fst e) @ '' was removed because '' @ reason @ ''.'')
             (on_tables (\<lambda>t. t\<lparr>clips := om_erase (fst e) (clips t)\<rparr>) l))\<lparr>ld_dropped := ld_dropped l @ [fst e]\<rparr>)"

definition dropDanglingClips :: "Loader \<Rightarrow> Loader" where
  "dropDanglingClips l = fold drop_clip (om_entries (clips (ld_tables l))) l"

fun renumber :: "int \<Rightarrow> lane_id list \<Rightarrow> (lane_id, ArrangementLane) omap \<Rightarrow> (lane_id, ArrangementLane) omap" where
  "renumber n [] ls = ls"
| "renumber n (i # is) ls = renumber (n + 1) is (om_update i (\<lambda>l. l\<lparr>lane_order := n\<rparr>) ls)"

definition fixLaneOrder :: "Loader \<Rightarrow> Loader" where
  "fixLaneOrder l =
     (let ls = lanes (ld_tables l);
          ordered = map snd (sort_key fst (map (\<lambda>(i, lane). (lane_order lane, i)) (om_entries ls)));
          ls' = renumber 0 ordered ls
      in if ls' = ls then l
         else load_warn ''Lane order was ambiguous; lanes were renumbered in their saved order.''
                (on_tables (\<lambda>t. t\<lparr>lanes := ls'\<rparr>) l))"

definition resolveReferences :: "64 word \<Rightarrow> project \<Rightarrow> Loader \<Rightarrow> Loader" where
  "resolveReferences clock project l =
     (let l1 = chooseMaster clock project l;
          l2 = fold resolve_output (om_keys (mixer_tracks (ld_tables l1))) l1;
          l3 = breakMixerCycles l2;
          l4 = fold resolve_routing (om_keys (instruments (ld_tables l3))) l3;
          l5 = fold resolve_group (om_keys (lanes (ld_tables l4))) l4;
          l6 = fold drop_orphans (om_keys (patterns (ld_tables l5))) l5
      in fixLaneOrder (dropDanglingClips l6))"

subsection \<open>Loading\<close>

definition FormatTag :: string where "FormatTag = ''onebeat.project''"
definition FormatVersion :: int where "FormatVersion = 1"

definition known_keys :: "string list" where
  "known_keys = [''meta'', ''transport'', ''instruments'', ''patterns'', ''lanes'', ''clips'', ''mixer_tracks'']"

definition note_unknown :: "object \<Rightarrow> Loader \<Rightarrow> Loader" where
  "note_unknown ms l =
     fold (\<lambda>(k, v) l. if k \<in> set known_keys then l
       else load_note (''Kept, not understood: top-level '' @ quoted k @ ''.'') l) ms l"

definition read_project :: "(Loader, unit) reader" where
  "read_project = do {
     ms \<leftarrow> remaining;
     _ \<leftarrow> tell (note_unknown ms);
     _ \<leftarrow> readMeta;
     _ \<leftarrow> readTransport;
     _ \<leftarrow> readMixerTracks;
     _ \<leftarrow> readInstruments;
     _ \<leftarrow> readPatterns;
     _ \<leftarrow> readLanes;
     readClips
   }"

text \<open>The document is taken apart; the result is what is left of it and what was read.\<close>

definition load_document :: "64 word \<Rightarrow> project \<Rightarrow> object \<Rightarrow> Loader \<Rightarrow> object \<times> Loader" where
  "load_document clock project ms l =
     (case run_state read_project (ms, l) of (_, (ms', l')) \<Rightarrow> (ms', resolveReferences clock project l'))"

text \<open>The tag and the version, taken first.\<close>

definition accepted :: "object \<Rightarrow> Loader \<Rightarrow> (object \<times> Loader) option \<times> Loader" where
  "accepted doc l =
     (case take_field ''format'' doc of
        (tag, doc1) \<Rightarrow>
          if string_or '''' tag \<noteq> FormatTag then (None, load_error ''This is not a OneBeat project file.'' l)
          else (case take_field ''version'' doc1 of
             (JInt v, doc2) \<Rightarrow>
               if v > FormatVersion then
                 (None, load_error (''This project was saved by a newer version of OneBeat (project format '' @ int_to_string v @
                   ''; this version reads '' @ int_to_string FormatVersion @ ''). Update OneBeat to open it.'') l)
               else if v < FormatVersion then
                 (let l' = load_note (''Project written with format version '' @ int_to_string v @ ''; migrated to '' @
                    int_to_string FormatVersion @ ''.'') l in (Some (doc2, l'), l'))
               else (Some (doc2, l), l)
           | _ \<Rightarrow> (None, load_error ''This project file does not say which format version it uses.'' l)))"

definition parsed_document :: "string \<Rightarrow> Loader \<Rightarrow> (object \<times> Loader) option \<times> Loader" where
  "parsed_document t l =
     (case parse t of
        Some (Inr (JObject doc)) \<Rightarrow> accepted doc l
      | Some (Inl e) \<Rightarrow> (None, load_error (''This does not look like a OneBeat project: '' @ describe_error e @ ''.'') l)
      | _ \<Rightarrow> (None, load_error ''This does not look like a OneBeat project: the file is not a JSON object.'' l))"

text \<open>The fields of a clip that was dropped leave the residue with it.\<close>

definition purgeDroppedResidue :: "clip_id list \<Rightarrow> Value \<Rightarrow> Value" where
  "purgeDroppedResidue dropped document =
     (case document of
        JObject doc \<Rightarrow>
          (case map_of doc ''clips'' of
             Some (JObject ms) \<Rightarrow>
               let ms' = filter (\<lambda>e. fst e \<notin> id_str KClip ` set dropped) ms
               in JObject (if ms' = [] then erase_key ''clips'' doc else insert_or_assign ''clips'' (JObject ms') doc)
           | _ \<Rightarrow> document)
      | _ \<Rightarrow> document)"

text \<open>
  The staged project exists to mint a master and to be checked; \<open>clock\<close> is the time of the mint and
  \<open>staged\<close> the project made for the load.
\<close>

definition loadProjectJson :: "64 word \<Rightarrow> project \<Rightarrow> string \<Rightarrow> project \<Rightarrow> Residue \<Rightarrow> LoadReport \<times> project \<times> Residue" where
  "loadProjectJson clock staged t p residue =
     (case parsed_document t new_loader of
        (None, l) \<Rightarrow> (\<lparr>lr_ok = False, lr_issues = ld_issues l\<rparr>, p, residue)
      | (Some (doc, l), _) \<Rightarrow>
          (case load_document clock staged doc l of
             (doc', l1) \<Rightarrow>
               let document = pruneEmpty (JObject doc');
                   staged' = adopt (ld_tables l1) staged;
                   l2 = fold (\<lambda>v. load_error (''Internal: '' @ v)) (checkReferentialIntegrity staged') l1
               in if \<not> ld_ticks_ok l2 then (\<lparr>lr_ok = False, lr_issues = ld_issues l2\<rparr>, p, residue)
                  else (\<lparr>lr_ok = True, lr_issues = ld_issues l2\<rparr>, adopt (copyTables staged') p,
                        \<lparr>res_document = purgeDroppedResidue (ld_dropped l2) document,
                         res_note_properties = ld_properties l2\<rparr>)))"

end
