(* ===== verification/Reader_Logic.thy ===== *)
theory Reader_Logic
  imports Project_Loader
begin

text \<open>
  Weakest preconditions for the readers of the loader: \<open>wp m Q l\<close> says that from the loader state
  \<open>l\<close>, whatever the fields, \<open>m\<close> ends in a state where \<open>Q\<close> holds of its result.
\<close>

named_theorems wp_intro "weakest preconditions, one rule per construct of a reader"

definition wp :: "('l, 'a) reader \<Rightarrow> ('a \<Rightarrow> 'l \<Rightarrow> bool) \<Rightarrow> 'l \<Rightarrow> bool" where
  "wp m Q l \<longleftrightarrow> (\<forall>ms. case run_state m (ms, l) of (a, (ms', l')) \<Rightarrow> Q a l')"

lemma wpD: "wp m Q l \<Longrightarrow> run_state m (ms, l) = (a, (ms', l')) \<Longrightarrow> Q a l'"
  unfolding wp_def by (drule spec [of _ ms]) simp

lemma wp_bind [wp_intro]:
  assumes "wp m (\<lambda>a. wp (f a) Q) l"
  shows "wp (m \<bind> f) Q l"
  unfolding wp_def
proof
  fix ms
  obtain a ms1 l1 where m: "run_state m (ms, l) = (a, (ms1, l1))" by (metis prod.exhaust)
  have "wp (f a) Q l1" using wpD [OF assms m] .
  then show "case run_state (m \<bind> f) (ms, l) of (a, (ms', l')) \<Rightarrow> Q a l'"
    using wpD [of "f a" Q l1 ms1] by (auto simp: m split: prod.split)
qed

lemma wp_give [wp_intro]: "Q a l \<Longrightarrow> wp (give a) Q l"
  by (simp add: wp_def)

lemma wp_takeValue [wp_intro]: "(\<And>a. Q a l) \<Longrightarrow> wp (takeValue key) Q l"
  by (simp add: wp_def takeValue_def Let_def split: prod.split)

lemma wp_takeString [wp_intro]: "(\<And>a. Q a l) \<Longrightarrow> wp (takeString key d) Q l"
  unfolding takeString_def by (intro wp_intro)

lemma wp_takeInt [wp_intro]: "(\<And>a. Q a l) \<Longrightarrow> wp (takeInt key d) Q l"
  unfolding takeInt_def by (intro wp_intro)

lemma wp_takeInt32 [wp_intro]: "(\<And>a. Q a l) \<Longrightarrow> wp (takeInt32 key d) Q l"
  unfolding takeInt32_def by (intro wp_intro)

lemma wp_takeDouble [wp_intro]: "(\<And>a. Q a l) \<Longrightarrow> wp (takeDouble key d) Q l"
  unfolding takeDouble_def by (intro wp_intro)

lemma wp_takeFloat [wp_intro]: "(\<And>a. Q a l) \<Longrightarrow> wp (takeFloat key d) Q l"
  unfolding takeFloat_def by (intro wp_intro)

lemma wp_takeBool [wp_intro]: "(\<And>a. Q a l) \<Longrightarrow> wp (takeBool key d) Q l"
  unfolding takeBool_def by (intro wp_intro)

lemma wp_tell [wp_intro]: "Q () (f l) \<Longrightarrow> wp (tell f) Q l"
  by (simp add: wp_def tell_def)

lemma wp_lift [wp_intro]: "(\<And>a l'. f l = (a, l') \<Longrightarrow> Q a l') \<Longrightarrow> wp (lift_state f) Q l"
  by (simp add: wp_def lift_state_def split: prod.split)

lemma wp_remaining [wp_intro]: "(\<And>ms. Q ms l) \<Longrightarrow> wp remaining Q l"
  by (simp add: wp_def remaining_def)

lemma wp_emplaceField [wp_intro]: "Q () l \<Longrightarrow> wp (emplaceField key v) Q l"
  by (simp add: wp_def emplaceField_def)

lemma wp_inside [wp_intro]:
  assumes "Q d l" and "wp m Q l"
  shows "wp (inside b key d m) Q l"
  unfolding wp_def
proof
  fix ms
  obtain v ms' where t: "take_field key ms = (v, ms')" by fastforce
  show "case run_state (inside b key d m) (ms, l) of (a, (ms', l')) \<Rightarrow> Q a l'"
    using assms(1) wpD [OF assms(2)] by (cases v) (auto simp: inside_def t split: prod.split)
qed

lemma wp_if [wp_intro]: "(b \<Longrightarrow> wp m Q l) \<Longrightarrow> (\<not> b \<Longrightarrow> wp n Q l) \<Longrightarrow> wp (if b then m else n) Q l"
  by simp

lemma wp_option [wp_intro]:
  "(x = None \<Longrightarrow> wp m Q l) \<Longrightarrow> (\<And>y. x = Some y \<Longrightarrow> wp (f y) Q l) \<Longrightarrow> wp (case x of None \<Rightarrow> m | Some y \<Rightarrow> f y) Q l"
  by (cases x) simp_all

lemma wp_prod [wp_intro]: "(\<And>a b. p = (a, b) \<Longrightarrow> wp (f a b) Q l) \<Longrightarrow> wp (case p of (a, b) \<Rightarrow> f a b) Q l"
  by (cases p) simp

lemma wp_array [wp_intro]:
  "(\<And>vs. v = JArray vs \<Longrightarrow> wp (f vs) Q l) \<Longrightarrow> wp n Q l \<Longrightarrow> wp (case v of JArray vs \<Rightarrow> f vs | _ \<Rightarrow> n) Q l"
  by (cases v) simp_all

lemma wp_Let [wp_intro]: "wp (f x) Q l \<Longrightarrow> wp (let y = x in f y) Q l"
  by (simp add: Let_def)

text \<open>Entities and maps of them.\<close>

lemma read_entity_post:
  assumes "\<And>i. id_parse k key = Some i \<Longrightarrow> wp (read i) Q l" and "Q d l"
    and "\<And>m. Q d (issue Info m l)"
  shows "case read_entity k noun read d key entry l of (a, entry', l') \<Rightarrow> Q a l'"
  using assms(2,3) wpD [OF assms(1)]
  by (auto simp: read_entity_def not_understood_def split: Value.split option.split prod.split)

lemma each_entry_inv:
  assumes "\<And>k v l. (k, v) \<in> set ms \<Longrightarrow> I l \<Longrightarrow> I (snd (f k v l))" and "I l"
  shows "I (snd (each_entry f ms l))"
  using assms
proof (induction ms arbitrary: l)
  case (Cons e ms)
  obtain k v where e: "e = (k, v)" by fastforce
  have "I (snd (f k v l))" using Cons.prems e by simp
  then have "I (snd (each_entry f ms (snd (f k v l))))" using Cons.prems(1) by (intro Cons.IH) auto
  then show ?case by (simp add: e Let_def split_beta)
qed simp

lemma read_map_inv:
  assumes "\<And>ms k v l. map_of document key = Some (JObject ms) \<Longrightarrow> (k, v) \<in> set ms \<Longrightarrow> I l \<Longrightarrow> I (snd (f k v l))" and "I l"
  shows "I (snd (read_map key f (document, l)))"
proof (cases "map_of document key")
  case (Some w)
  show ?thesis
  proof (cases w)
    case (JObject ms)
    then have m: "map_of document key = Some (JObject ms)" using Some by simp
    have "I (snd (each_entry f ms l))" by (rule each_entry_inv [OF assms(1) [OF m] assms(2)])
    then show ?thesis using Some JObject by (simp add: read_map_def take_field_def Let_def split_beta)
  qed (use Some assms(2) in \<open>simp_all add: read_map_def take_field_def\<close>)
qed (use assms(2) in \<open>simp add: read_map_def take_field_def\<close>)

end
