(* ===== verification/Loader_Reads.thy ===== *)
theory Loader_Reads
  imports Reader_Logic
begin

text \<open>
  What holds when every entity of a document has been read and no reference resolved yet.
\<close>

subsection \<open>Steps that only report\<close>

definition reports :: "Loader \<Rightarrow> Loader \<Rightarrow> bool" where
  "reports l l' \<longleftrightarrow> (\<exists>is ps. l' = l\<lparr>ld_issues := is, ld_properties := ps\<rparr>)"

lemma reports_refl [simp]: "reports l l"
  unfolding reports_def by (intro exI [of _ "ld_issues l"] exI [of _ "ld_properties l"]) simp

lemma reports_trans: "reports l l1 \<Longrightarrow> reports l1 l2 \<Longrightarrow> reports l l2"
  unfolding reports_def by force

lemma reports_upd: "reports l (l\<lparr>ld_issues := is\<rparr>)" "reports l (l\<lparr>ld_properties := ps\<rparr>)"
proof -
  show "reports l (l\<lparr>ld_issues := is\<rparr>)" unfolding reports_def
    by (intro exI [of _ "is"] exI [of _ "ld_properties l"]) simp
  show "reports l (l\<lparr>ld_properties := ps\<rparr>)" unfolding reports_def
    by (intro exI [of _ "ld_issues l"] exI [of _ ps]) simp
qed

lemma reports_issue [simp]: "reports l (issue s m l)"
  unfolding issue_def by (rule reports_upd)

lemma reports_fields:
  assumes "reports l l'"
  shows "ld_tables l' = ld_tables l" "pending_track_output l' = pending_track_output l"
    "pending_routing l' = pending_routing l" "pending_lane_group l' = pending_lane_group l"
    "pending_clip_pattern l' = pending_clip_pattern l" "pending_clip_instrument l' = pending_clip_instrument l"
    "pending_clip_track l' = pending_clip_track l" "pending_clip_effect l' = pending_clip_effect l"
    "ld_dropped l' = ld_dropped l" "ld_ticks_ok l' = ld_ticks_ok l"
  using assms by (auto simp: reports_def)

lemma reference_reports: "reference k t owner f l = (x, l') \<Longrightarrow> reports l l'"
  by (auto simp: reference_def split: if_splits option.splits)

lemma clampVelocity_reports: "clampVelocity v owner l = (x, l') \<Longrightarrow> reports l l'"
  by (auto simp: clampVelocity_def split: if_splits)

lemma clampVelocity_range: "clampVelocity v owner l = (x, l') \<Longrightarrow> 0 \<le> x \<and> x \<le> MaxVelocity"
  by (auto simp: clampVelocity_def MaxVelocity_def split: if_splits)

lemma read_chain_reports: "reports l (snd (read_chain name vs l))"
proof (induction name vs l rule: read_chain.induct)
  case (2 name v vs l)
  show ?case
  proof (cases "id_parse KEffect (stringAt v ''id'') :: effect_id option")
    case None
    then show ?thesis using 2(1,2) reports_trans [OF reports_issue] by auto
  next
    case (Some i)
    then show ?thesis using 2(1,3) by (auto simp: split_beta)
  qed
qed simp

lemma read_routes_reports: "reports l (snd (read_routes owner n vs l))"
proof (induction owner n vs l rule: read_routes.induct)
  case (2 owner n v vs l)
  obtain x l1 where r: "reference KMixerTrack (route_text v) (''Instrument '' @ quoted owner) ''routing destination'' l =
      (x :: track_id option, l1)" by fastforce
  then show ?case using 2 [of x l1] reference_reports [OF r] reports_trans by (auto split: prod.split option.split)
qed simp

subsection \<open>Notes\<close>

definition note_read :: "Note \<Rightarrow> bool" where
  "note_read n \<longleftrightarrow> 0 \<le> note_start n \<and> 0 < note_length n \<and> 0 \<le> note_key n \<and> note_key n \<le> 127 \<and>
     0 \<le> note_velocity n \<and> note_velocity n \<le> MaxVelocity"

lemma read_records_post:
  "case read_records p i name vs (l, bad) of (ns, l', bad') \<Rightarrow> reports l l' \<and> (\<forall>n \<in> set ns. note_read n)"
proof (induction vs arbitrary: l bad)
  case (Cons v vs)
  show ?case
  proof (cases "malformed v")
    case True
    then show ?thesis using Cons by simp
  next
    case False
    define start len key where d: "start = record_field v 0 0" "len = record_field v (Suc 0) 0" "key = to_int16 (record_field v 2 60)"
    obtain vel l1 where vel: "clampVelocity (record_field v 3 DefaultVelocity) (note_owner name) l = (vel, l1)"
      by fastforce
    have r1: "reports l l1" using clampVelocity_reports [OF vel] .
    show ?thesis
    proof (cases "len \<le> 0 \<or> start < 0")
      case True
      then have "read_records p i name (v # vs) (l, bad) = read_records p i name vs (l1, bad + 1)"
        using False by (simp add: vel Let_def d)
      then show ?thesis using Cons [of l1 "bad + 1"] reports_trans [OF r1] by (auto split: prod.splits)
    next
      case ok: False
      obtain key' l2 where key': "(if key < 0 \<or> 127 < key then (max 0 (min key 127), key_warning name l1) else (key, l1)) = (key', l2)"
        by fastforce
      have r2: "reports l l2" using key' reports_trans [OF r1 reports_issue] r1 by (auto simp: key_warning_def split: if_splits)
      have k: "0 \<le> key'" "key' \<le> 127" using key' by (auto split: if_splits)
      define n where "n = \<lparr>note_start = start, note_length = len, note_key = key', note_velocity = vel\<rparr>"
      define l3 where "l3 = keep_properties p i n v l2"
      have r3: "reports l l3" using reports_trans [OF r2 reports_upd(2)] r2
        by (auto simp: l3_def keep_properties_def split: Value.split list.split)
      have n: "note_read n" using ok k clampVelocity_range [OF vel] by (simp add: n_def note_read_def)
      have eq: "read_records p i name (v # vs) (l, bad) =
          (case read_records p i name vs (l3, bad) of (ns, s) \<Rightarrow> (n # ns, s))"
        using False ok by (simp add: d [symmetric] vel key' Let_def flip: n_def l3_def)
      show ?thesis using Cons [of l3 bad] reports_trans [OF r3] n unfolding eq by (auto split: prod.splits)
    qed
  qed
qed simp

definition sequence_read :: "note_sequence \<Rightarrow> bool" where
  "sequence_read s \<longleftrightarrow> isSorted s \<and> (\<forall>n \<in> set s. note_read n)"

lemma readSequence_post: "readSequence p i name vs l = (s, l') \<Longrightarrow> reports l l' \<and> sequence_read s"
  using read_records_post [of l p i name vs 0] reports_trans [OF _ reports_issue]
  by (auto simp: readSequence_def sequence_read_def assignSorted_sorted assignSorted_set split: prod.splits)

subsection \<open>The invariant of the reading phase\<close>

definition tracks_read :: "track_id set \<Rightarrow> Loader \<Rightarrow> bool" where
  "tracks_read T l \<longleftrightarrow>
     (\<forall>i m. om_find (mixer_tracks (ld_tables l)) i = Some m \<longrightarrow> track_output m = None \<and> track_id m = i \<and> i \<in> T) \<and>
     (\<forall>i. om_find (pending_track_output l) i \<noteq> None \<longrightarrow> i \<in> T)"

definition patterns_read :: "Loader \<Rightarrow> bool" where
  "patterns_read l \<longleftrightarrow>
     (\<forall>p pat. om_find (patterns (ld_tables l)) p = Some pat \<longrightarrow> pat_id pat = p \<and>
        (\<forall>i s. om_find (pat_sequences pat) i = Some s \<longrightarrow> sequence_read s))"

definition lanes_read :: "Loader \<Rightarrow> bool" where
  "lanes_read l \<longleftrightarrow> (\<forall>i n. om_find (lanes (ld_tables l)) i = Some n \<longrightarrow> lane_group_id n = None \<and> lane_id n = i)"

definition instruments_read :: "Loader \<Rightarrow> bool" where
  "instruments_read l \<longleftrightarrow> (\<forall>i n. om_find (instruments (ld_tables l)) i = Some n \<longrightarrow> inst_id n = i)"

text \<open>What is kept aside for a clip is what its source names.\<close>

fun source_noted :: "Loader \<Rightarrow> clip_id \<Rightarrow> ClipSource \<Rightarrow> bool" where
  "source_noted l i (SrcPattern p) = (om_find (pending_clip_pattern l) i = Some p)"
| "source_noted l i (SrcAudio a) = (om_find (pending_clip_track l) i = Some (au_destination a))"
| "source_noted l i (SrcAutomation m) =
     (case as_target_kind m of
        TargetInstrument \<Rightarrow> om_find (pending_clip_instrument l) i = Some (as_instrument m)
      | TargetMixerTrack \<Rightarrow> om_find (pending_clip_track l) i = Some (as_mixer_track m)
      | TargetEffect \<Rightarrow> om_find (pending_clip_track l) i = Some (as_mixer_track m) \<and>
          om_find (pending_clip_effect l) i = Some (as_effect m))"

definition clips_read :: "Loader \<Rightarrow> bool" where
  "clips_read l \<longleftrightarrow>
     (\<forall>i c. om_find (clips (ld_tables l)) i = Some c \<longrightarrow> clip_id c = i \<and> 0 < clip_length c \<and> source_noted l i (clip_source c))"

definition unread :: "clip_id \<Rightarrow> Loader \<Rightarrow> bool" where
  "unread i l \<longleftrightarrow> om_find (clips (ld_tables l)) i = None \<and> om_find (pending_clip_pattern l) i = None \<and>
     om_find (pending_clip_instrument l) i = None \<and> om_find (pending_clip_track l) i = None \<and>
     om_find (pending_clip_effect l) i = None"

definition clips_from :: "clip_id set \<Rightarrow> Loader \<Rightarrow> bool" where
  "clips_from C l \<longleftrightarrow> (\<forall>i. i \<notin> C \<longrightarrow> unread i l)"

definition read_inv :: "track_id set \<Rightarrow> clip_id set \<Rightarrow> Loader \<Rightarrow> bool" where
  "read_inv T C l \<longleftrightarrow> tracks_read T l \<and> instruments_read l \<and> patterns_read l \<and> lanes_read l \<and> clips_read l \<and> clips_from C l"

lemmas read_inv_defs = read_inv_def tracks_read_def instruments_read_def patterns_read_def lanes_read_def clips_read_def clips_from_def unread_def

lemma source_noted_cong:
  assumes "om_find (pending_clip_pattern l') i = om_find (pending_clip_pattern l) i"
    and "om_find (pending_clip_instrument l') i = om_find (pending_clip_instrument l) i"
    and "om_find (pending_clip_track l') i = om_find (pending_clip_track l) i"
    and "om_find (pending_clip_effect l') i = om_find (pending_clip_effect l) i"
  shows "source_noted l' i s = source_noted l i s"
  using assms by (cases s) (auto split: TargetKind.split)

lemma read_inv_reports: "reports l l' \<Longrightarrow> read_inv T C l \<Longrightarrow> read_inv T C l'"
  unfolding read_inv_defs using source_noted_cong [of l' _ l] by (simp add: reports_fields)

text \<open>What a reader of one entity does to the loader: it reports, and changes one table or one map.\<close>

lemma read_inv_tracks:
  assumes "read_inv T C l" and "ld_tables l' = (ld_tables l)\<lparr>mixer_tracks := om_emplace i m (mixer_tracks (ld_tables l))\<rparr>"
    and "track_output m = None" and "track_id m = i" and "i \<in> T"
    and "pending_track_output l' = pending_track_output l" "pending_clip_pattern l' = pending_clip_pattern l" "pending_clip_instrument l' = pending_clip_instrument l"
      "pending_clip_track l' = pending_clip_track l" "pending_clip_effect l' = pending_clip_effect l"
  shows "read_inv T C l'"
  using assms(1,3-5) source_noted_cong [of l' _ l] unfolding read_inv_defs
  by (auto simp: assms(2,6-10) om_find_emplace split: if_splits)

lemma read_inv_tables:
  assumes "read_inv T C l" and "mixer_tracks (ld_tables l') = mixer_tracks (ld_tables l)"
    and "instruments (ld_tables l') = instruments (ld_tables l)"
    and "patterns (ld_tables l') = patterns (ld_tables l)" and "lanes (ld_tables l') = lanes (ld_tables l)"
    and "clips (ld_tables l') = clips (ld_tables l)"
    and "pending_track_output l' = pending_track_output l" "pending_clip_pattern l' = pending_clip_pattern l" "pending_clip_instrument l' = pending_clip_instrument l"
      "pending_clip_track l' = pending_clip_track l" "pending_clip_effect l' = pending_clip_effect l"
  shows "read_inv T C l'"
  using assms(1) source_noted_cong [of l' _ l] unfolding read_inv_defs by (simp add: assms(2-))

lemma read_inv_patterns:
  assumes "read_inv T C l" and "ld_tables l' = (ld_tables l)\<lparr>patterns := om_emplace p pat (patterns (ld_tables l))\<rparr>"
    and "pat_id pat = p" and "\<And>i s. om_find (pat_sequences pat) i = Some s \<Longrightarrow> sequence_read s"
    and "pending_track_output l' = pending_track_output l" "pending_clip_pattern l' = pending_clip_pattern l" "pending_clip_instrument l' = pending_clip_instrument l"
      "pending_clip_track l' = pending_clip_track l" "pending_clip_effect l' = pending_clip_effect l"
  shows "read_inv T C l'"
  using assms(1,3,4) source_noted_cong [of l' _ l] unfolding read_inv_defs
  by (auto simp: assms(2,5-9) om_find_emplace split: if_splits)

lemma read_inv_lanes:
  assumes "read_inv T C l" and "ld_tables l' = (ld_tables l)\<lparr>lanes := om_emplace i n (lanes (ld_tables l))\<rparr>"
    and "lane_group_id n = None" and "lane_id n = i"
    and "pending_track_output l' = pending_track_output l" "pending_clip_pattern l' = pending_clip_pattern l" "pending_clip_instrument l' = pending_clip_instrument l"
      "pending_clip_track l' = pending_clip_track l" "pending_clip_effect l' = pending_clip_effect l"
  shows "read_inv T C l'"
  using assms(1,3,4) source_noted_cong [of l' _ l] unfolding read_inv_defs
  by (auto simp: assms(2,5-9) om_find_emplace split: if_splits)

end
