(* ===== verification/Loader_Inv.thy ===== *)
theory Loader_Inv
  imports Loader_Reads
begin

text \<open>
  Every reader of a section keeps \<open>read_inv\<close>, so it holds when the resolution of the references begins.
\<close>

lemma read_inv_issue [simp]: "read_inv T C (issue s m l) = read_inv T C l"
  unfolding read_inv_defs issue_def using source_noted_cong [of "l\<lparr>ld_issues := _\<rparr>" _ l] by simp

lemma read_inv_simps [simp]:
  "read_inv T C (l\<lparr>ld_ticks_ok := b\<rparr>) = read_inv T C l"
  "read_inv T C (l\<lparr>pending_lane_group := pg\<rparr>) = read_inv T C l"
  "read_inv T C (l\<lparr>pending_routing := pr\<rparr>) = read_inv T C l"
  "read_inv T C (on_tables (\<lambda>t. t\<lparr>meta := m\<rparr>) l) = read_inv T C l"
  "read_inv T C (on_tables (\<lambda>t. t\<lparr>transport := tp\<rparr>) l) = read_inv T C l"
  unfolding read_inv_defs on_tables_def
  using source_noted_cong [of "l\<lparr>ld_ticks_ok := b\<rparr>" _ l] 
    source_noted_cong [of "l\<lparr>pending_lane_group := pg\<rparr>" _ l] source_noted_cong [of "l\<lparr>pending_routing := pr\<rparr>" _ l]
    source_noted_cong [of "l\<lparr>ld_tables := (ld_tables l)\<lparr>meta := m\<rparr>\<rparr>" _ l]
    source_noted_cong [of "l\<lparr>ld_tables := (ld_tables l)\<lparr>transport := tp\<rparr>\<rparr>" _ l]
  by simp_all

lemma read_inv_add_output [intro]:
  assumes "read_inv T C l" and "i \<in> T"
  shows "read_inv T C (l\<lparr>pending_track_output := om_emplace i out (pending_track_output l)\<rparr>)"
  using assms source_noted_cong [of "l\<lparr>pending_track_output := om_emplace i out (pending_track_output l)\<rparr>" _ l]
  unfolding read_inv_defs by (auto split: if_splits)

lemma readMeta_inv: "read_inv T C l \<Longrightarrow> wp readMeta (\<lambda>_. read_inv T C) l"
  unfolding readMeta_def read_meta_fields_def by (intro wp_intro) simp_all

lemma readTransport_inv: "read_inv T C l \<Longrightarrow> wp readTransport (\<lambda>_. read_inv T C) l"
  unfolding readTransport_def read_transport_fields_def read_signature_def read_loop_def
  by (intro wp_intro) simp_all

lemma read_inv_add_track [intro]:
  "read_inv T C l \<Longrightarrow> track_output m = None \<Longrightarrow> track_id m = i \<Longrightarrow> i \<in> T \<Longrightarrow>
   read_inv T C (on_tables (\<lambda>t. t\<lparr>mixer_tracks := om_emplace i m (mixer_tracks t)\<rparr>) l)"
  by (rule read_inv_tracks [where l = l and i = i and m = m]) (simp_all add: on_tables_def)

lemma read_inv_add_pattern [intro]:
  "read_inv T C l \<Longrightarrow> pat_id pat = p \<Longrightarrow> (\<And>i s. om_find (pat_sequences pat) i = Some s \<Longrightarrow> sequence_read s) \<Longrightarrow>
   read_inv T C (on_tables (\<lambda>t. t\<lparr>patterns := om_emplace p pat (patterns t)\<rparr>) l)"
  by (rule read_inv_patterns [where l = l and p = p and pat = pat]) (simp_all add: on_tables_def)

lemma read_inv_add_lane [intro]:
  "read_inv T C l \<Longrightarrow> lane_group_id n = None \<Longrightarrow> lane_id n = i \<Longrightarrow>
   read_inv T C (on_tables (\<lambda>t. t\<lparr>lanes := om_emplace i n (lanes t)\<rparr>) l)"
  by (rule read_inv_lanes [where l = l and i = i and n = n]) (simp_all add: on_tables_def)

lemma read_inv_add_instrument [intro]:
  assumes "read_inv T C l" and "inst_id n = i"
  shows "read_inv T C (on_tables (\<lambda>t. t\<lparr>instruments := om_emplace i n (instruments t)\<rparr>) l)"
  using assms source_noted_cong [of "on_tables (\<lambda>t. t\<lparr>instruments := om_emplace i n (instruments t)\<rparr>) l" _ l]
  unfolding read_inv_defs by (auto simp: on_tables_def split: if_splits)

lemma wp_mono: "wp m P l \<Longrightarrow> (\<And>a l'. P a l' \<Longrightarrow> Q a l') \<Longrightarrow> wp m Q l"
  unfolding wp_def by (fastforce split: prod.splits)

lemma read_chain_reports': "read_chain name vs l = (ss, l') \<Longrightarrow> reports l l'"
  using read_chain_reports [of l name vs] by simp

lemma read_routes_reports': "read_routes owner n vs l = (rs, l') \<Longrightarrow> reports l l'"
  using read_routes_reports [of l owner n vs] by simp

lemmas reader_reports = clampVelocity_reports reference_reports read_chain_reports' read_routes_reports'

lemma read_track_inv:
  assumes "read_inv T C l" and "i \<in> T"
  shows "wp (read_track i) (\<lambda>_. read_inv T C) l"
  unfolding read_track_def
  by (intro wp_intro) (auto intro!: assms dest!: read_chain_reports' elim!: read_inv_reports simp: assms)

lemma read_plugin_inv: "read_inv T C l \<Longrightarrow> wp (read_plugin owner) (\<lambda>_. read_inv T C) l"
  unfolding read_plugin_def by (intro wp_intro) simp_all

lemma read_note_defaults_inv: "read_inv T C l \<Longrightarrow> wp (read_note_defaults owner) (\<lambda>_. read_inv T C) l"
  unfolding read_note_defaults_def
  by (intro wp_intro) (auto dest: clampVelocity_reports intro: read_inv_reports)

lemma read_routing_inv: "read_inv T C l \<Longrightarrow> read_routes owner n vs l = (rs, l') \<Longrightarrow> read_inv T C (add_pending_routes i rs l')"
  using read_inv_reports [OF read_routes_reports'] by (simp add: add_pending_routes_def)

lemma read_instrument_inv:
  assumes "read_inv T C l"
  shows "wp (do { _ \<leftarrow> read_instrument order i; give True }) (\<lambda>_. read_inv T C) l"
  unfolding read_instrument_def read_channel_settings_def
  by (intro wp_intro wp_mono [OF read_plugin_inv [of T C]] wp_mono [OF read_note_defaults_inv [of T C]] read_inv_add_instrument)
    (auto intro: read_routing_inv assms)

lemma read_lane_inv:
  assumes "read_inv T C l"
  shows "wp (read_lane i) (\<lambda>_. read_inv T C) l"
  unfolding read_lane_def by (intro wp_intro) (auto simp: assms)

subsection \<open>Patterns\<close>

lemma read_sequences_inv:
  assumes "read_inv T C l"
  shows "wp (read_sequences p name)
    (\<lambda>seqs l'. read_inv T C l' \<and> (\<forall>i s. om_find seqs i = Some s \<longrightarrow> sequence_read s)) l"
proof -
  define I where "I = (\<lambda>(l', seqs). read_inv T C l' \<and>
      (\<forall>i s. om_find (seqs :: (instrument_id, note_sequence) omap) i = Some s \<longrightarrow> sequence_read s))"
  have step: "I (snd (read_sequence_entry p name k v s))" if "I s" for k v s
  proof (cases s)
    case (Pair l1 seqs)
    then show ?thesis
      using that by (auto simp: I_def read_sequence_entry_def split: option.split Value.split prod.split if_splits
          dest!: readSequence_post intro: read_inv_reports)
  qed
  have each: "I (snd (each_entry (read_sequence_entry p name) ms (l, om_empty)))" for ms
    by (rule each_entry_inv, erule step) (simp add: I_def assms)
  show ?thesis
    unfolding wp_def
  proof
    fix ms
    obtain ms' l' seqs where e: "each_entry (read_sequence_entry p name) ms (l, om_empty) = (ms', (l', seqs))"
      by (metis prod.exhaust)
    show "case run_state (read_sequences p name) (ms, l) of (seqs, (ms', l')) \<Rightarrow>
        read_inv T C l' \<and> (\<forall>i s. om_find seqs i = Some s \<longrightarrow> sequence_read s)"
      using each [of ms] by (simp add: read_sequences_def e I_def)
  qed
qed

lemma read_pattern_inv:
  assumes "read_inv T C l"
  shows "wp (read_pattern p) (\<lambda>_. read_inv T C) l"
  unfolding read_pattern_def read_signature_def
  by (intro wp_intro wp_mono [OF read_sequences_inv [of T C]]) (auto simp: assms)

subsection \<open>Clips\<close>

definition noted :: "clip_id \<Rightarrow> Loader \<Rightarrow> Loader \<Rightarrow> bool" where
  "noted i l l' \<longleftrightarrow> ld_tables l' = ld_tables l \<and> pending_track_output l' = pending_track_output l \<and>
     (\<forall>j. j \<noteq> i \<longrightarrow> om_find (pending_clip_pattern l') j = om_find (pending_clip_pattern l) j \<and>
        om_find (pending_clip_instrument l') j = om_find (pending_clip_instrument l) j \<and>
        om_find (pending_clip_track l') j = om_find (pending_clip_track l) j \<and>
        om_find (pending_clip_effect l') j = om_find (pending_clip_effect l) j)"

lemma noted_refl [simp]: "noted i l l"
  by (simp add: noted_def)

lemma noted_trans: "noted i l l1 \<Longrightarrow> noted i l1 l2 \<Longrightarrow> noted i l l2"
  by (simp add: noted_def)

lemma reports_noted: "reports l l' \<Longrightarrow> noted i l l'"
  by (simp add: noted_def reports_fields)

lemma noted_steps [simp]:
  "noted i l (issue s m l') = noted i l l'"
  "noted i l (note_pattern i p l') = noted i l l'"
  "noted i l (note_instrument i n l') = noted i l l'"
  "noted i l (note_track i t l') = noted i l l'"
  "noted i l (note_effect i e l') = noted i l l'"
  by (auto simp: noted_def issue_def note_pattern_def note_instrument_def note_track_def note_effect_def)

lemma noted_inv:
  assumes "read_inv T C l" and "i \<notin> C" and "noted i l l'"
  shows "read_inv T (insert i C) l'"
proof -
  have t: "ld_tables l' = ld_tables l" "pending_track_output l' = pending_track_output l" using assms(3) by (simp_all add: noted_def)
  have u: "unread j l" if "j \<notin> C" for j using assms(1) that by (simp add: read_inv_def clips_from_def)
  have "source_noted l' j (clip_source c) \<and> 0 < clip_length c \<and> clip_id c = j" if c: "om_find (clips (ld_tables l)) j = Some c" for j c
  proof -
    have "j \<noteq> i" using u [OF assms(2)] c by (auto simp: unread_def)
    then have "source_noted l' j (clip_source c) = source_noted l j (clip_source c)"
      using assms(3) by (intro source_noted_cong) (simp_all add: noted_def)
    then show ?thesis using assms(1) c by (simp add: read_inv_def clips_read_def)
  qed
  moreover have "unread j l'" if "j \<notin> insert i C" for j
    using u [of j] that assms(3) by (simp add: unread_def noted_def)
  ultimately show ?thesis
    using assms(1) by (simp add: read_inv_def tracks_read_def instruments_read_def patterns_read_def lanes_read_def clips_read_def clips_from_def t)
qed

lemma read_inv_add_clip:
  assumes "read_inv T C l" and "i \<in> C" and "clip_id c = i" and "0 < clip_length c" and "source_noted l i (clip_source c)"
  shows "read_inv T C (on_tables (\<lambda>t. t\<lparr>clips := om_emplace i c (clips t)\<rparr>) l)" (is "read_inv T C ?l")
proof -
  have "source_noted ?l j s = source_noted l j s" for j s
    by (rule source_noted_cong) (simp_all add: on_tables_def)
  then show ?thesis
    using assms unfolding read_inv_defs by (auto simp: on_tables_def om_find_emplace split: if_splits)
qed

definition source_spec :: "clip_id \<Rightarrow> Loader \<Rightarrow> ClipSource option \<Rightarrow> Loader \<Rightarrow> bool" where
  "source_spec i l s l' \<longleftrightarrow> noted i l l' \<and> (\<forall>src. s = Some src \<longrightarrow> source_noted l' i src)"

lemma reports_unread: "reports l l' \<Longrightarrow> unread i l \<Longrightarrow> unread i l'"
  by (simp add: unread_def reports_fields)

lemma reference_noted: "reference k t owner f l = (x, l') \<Longrightarrow> unread i l \<Longrightarrow> noted i l l' \<and> unread i l'"
  using reference_reports reports_noted reports_unread by blast

lemma noted_at [simp]:
  "unread i l \<Longrightarrow> om_find (pending_clip_pattern (note_pattern i p l)) i = Some p"
  "unread i l \<Longrightarrow> om_find (pending_clip_instrument (note_instrument i n l)) i = Some n"
  "unread i l \<Longrightarrow> om_find (pending_clip_track (note_track i t l)) i = Some t"
  "unread i l \<Longrightarrow> om_find (pending_clip_effect (note_effect i e (note_track i t l))) i = Some e"
  "pending_clip_track (note_effect i e l) = pending_clip_track l"
  by (simp_all add: unread_def note_pattern_def note_instrument_def note_track_def note_effect_def)

lemma read_pattern_source_spec: "unread i l \<Longrightarrow> wp (read_pattern_source key i) (source_spec i l) l"
  unfolding read_pattern_source_def
  by (intro wp_intro) (auto simp: source_spec_def dest: reference_noted)

lemma read_audio_source_spec: "unread i l \<Longrightarrow> wp (read_audio_source key i) (source_spec i l) l"
  unfolding read_audio_source_def
  by (intro wp_intro) (auto simp: source_spec_def dest: reference_noted)

text \<open>The points do not matter to what an automation clip needs.\<close>

lemma source_noted_points [simp]:
  "source_noted l i (SrcAutomation (a\<lparr>as_points := ps\<rparr>)) = source_noted l i (SrcAutomation a)"
  by (simp cong: TargetKind.case_cong)

lemma read_target_spec:
  assumes "unread i l" and "as_target_kind a = TargetInstrument"
  shows "wp (read_target key i kind target a) (\<lambda>r l'. source_spec i l (map_option SrcAutomation r) l') l"
  unfolding read_target_def read_effect_target_def
  by (intro wp_intro) (auto simp: source_spec_def assms dest!: reference_noted [OF _ assms(1)])

lemma source_spec_points:
  "source_spec i l (map_option SrcAutomation r) l' \<Longrightarrow>
   source_spec i l (map_option (\<lambda>a. SrcAutomation (case v of JArray vs \<Rightarrow> a\<lparr>as_points := f vs\<rparr> | _ \<Rightarrow> a)) r) l'"
  by (cases r; cases v) (auto simp: source_spec_def simp del: source_noted.simps)

lemma read_automation_source_spec: "unread i l \<Longrightarrow> wp (read_automation_source key i) (source_spec i l) l"
  unfolding read_automation_source_def
  by (intro wp_intro wp_mono [OF read_target_spec])
    (simp_all add: source_spec_points default_automation_def)

lemma read_source_spec:
  "unread i l \<Longrightarrow> wp (read_source key i kind) (\<lambda>(s, left). source_spec i l s) l"
  unfolding read_source_def
  by (intro wp_intro wp_mono [OF read_pattern_source_spec] wp_mono [OF read_audio_source_spec]
      wp_mono [OF read_automation_source_spec]) auto

lemma read_inv_unread: "read_inv T C l \<Longrightarrow> i \<notin> C \<Longrightarrow> unread i l"
  by (simp add: read_inv_def clips_from_def)

lemma read_known_clip_inv:
  assumes inv: "read_inv T C l" and i: "i \<notin> C"
  shows "wp (read_known_clip key i kind) (\<lambda>_. read_inv T (insert i C)) l"
proof -
  note u = read_inv_unread [OF inv i] and n = noted_inv [OF inv i]
  note n0 = n [OF noted_refl]
  have ref: "unread i l1 \<and> read_inv T (insert i C) l1 \<and> (\<forall>l2. noted i l1 l2 \<longrightarrow> read_inv T (insert i C) l2)"
    if "reference KArrangementLane t ow f l = (x, l1)" for t ow f l1 and x :: "lane_id option"
    using reference_noted [OF that u] n noted_trans by blast
  have src: "read_inv T (insert i C) l2 \<and> (\<forall>c. s = Some (clip_source c) \<longrightarrow> clip_id c = i \<longrightarrow> 0 < clip_length c \<longrightarrow>
      read_inv T (insert i C) (on_tables (\<lambda>t. t\<lparr>clips := om_emplace i c (clips t)\<rparr>) l2))"
    if "source_spec i l1 s l2" and "\<forall>l2. noted i l1 l2 \<longrightarrow> read_inv T (insert i C) l2" for l1 l2 s
    using that by (auto simp: source_spec_def intro!: read_inv_add_clip)
  show ?thesis
    unfolding read_known_clip_def read_transforms_def
    by (intro wp_intro wp_mono [OF read_source_spec]) (auto simp: n0 dest!: ref dest: src)
qed

lemma read_clip_inv:
  assumes "read_inv T C l" and "i \<notin> C"
  shows "wp (read_clip key i) (\<lambda>_. read_inv T (insert i C)) l"
  unfolding read_clip_def
  by (intro wp_intro read_known_clip_inv [OF assms]) (simp_all add: noted_inv [OF assms])

lemma read_clip_entry_inv:
  assumes "read_inv T C l" and "\<And>i. id_parse KClip key = Some i \<Longrightarrow> i \<notin> C"
  shows "read_inv T (C \<union> set_option (id_parse KClip key)) (fst (snd (read_clip_entry key entry (l, unusable))))"
proof -
  have mono: "read_inv T D l1 \<Longrightarrow> read_inv T (D \<union> E) l1" for D E l1
    by (auto simp: read_inv_def clips_from_def)
  have post: "case read_entity KClip ''clip'' (read_clip key) True key entry l of
      (a, entry', l') \<Rightarrow> read_inv T (C \<union> set_option (id_parse KClip key)) l'"
  proof (rule read_entity_post)
    show "wp (read_clip key i) (\<lambda>_. read_inv T (C \<union> set_option (id_parse KClip key))) l" if "id_parse KClip key = Some i" for i
      using read_clip_inv [OF assms(1) assms(2) [OF that]] that by simp
  qed (use assms(1) mono in simp_all)
  then show ?thesis by (simp add: read_clip_entry_def split: prod.splits)
qed

definition key_ids :: "entity_kind \<Rightarrow> object \<Rightarrow> 'k typed_id list" where
  "key_ids k ms = List.map_filter (\<lambda>e. id_parse k (fst e)) ms"

lemma key_ids_simps [simp]:
  "key_ids k [] = []"
  "key_ids k (e # ms) = (case id_parse k (fst e) of None \<Rightarrow> key_ids k ms | Some i \<Rightarrow> i # key_ids k ms)"
  by (simp_all add: key_ids_def map_filter_simps split: option.split)

lemma key_ids_set: "i \<in> set (key_ids k ms) \<longleftrightarrow> (\<exists>e \<in> set ms. id_parse k (fst e) = Some i)"
  by (induction ms) (auto split: option.split)

lemma read_clips_inv:
  assumes "read_inv T C l" and "distinct (key_ids KClip ms :: clip_id list)" and "set (key_ids KClip ms) \<inter> C = {}"
  shows "\<exists>D. read_inv T D (fst (snd (each_entry read_clip_entry ms (l, unusable))))"
  using assms
proof (induction ms arbitrary: C l unusable)
  case (Cons e ms)
  obtain k v where e: "e = (k, v)" by fastforce
  obtain v' l1 un1 where r: "read_clip_entry k v (l, unusable) = (v', (l1, un1))" by (metis prod.exhaust)
  have inv: "read_inv T (C \<union> set_option (id_parse KClip k)) l1"
    using read_clip_entry_inv [of T C l k v unusable] Cons.prems by (auto simp: r e split: option.splits)
  have "\<exists>D. read_inv T D (fst (snd (each_entry read_clip_entry ms (l1, un1))))"
    by (rule Cons.IH [OF inv]) (use Cons.prems in \<open>auto simp: e split: option.splits\<close>)
  then show ?case by (simp add: e r split_beta Let_def)
qed auto

subsection \<open>The sections\<close>

text \<open>A reader of a section leaves the other fields of the document as they are.\<close>

definition confined :: "string \<Rightarrow> (Loader, 'a) reader \<Rightarrow> bool" where
  "confined key m \<longleftrightarrow> (\<forall>ms l k. k \<noteq> key \<longrightarrow> map_of (fst (snd (run_state m (ms, l)))) k = map_of ms k)"

lemma map_of_erase_key [simp]: "map_of (erase_key key ms) k = (if k = key then None else map_of ms k)"
  by (induction ms) (auto simp: erase_key_def)

lemma map_of_insert_or_assign [simp]: "map_of (insert_or_assign key v ms) k = (if k = key then Some v else map_of ms k)"
  by (induction ms) auto

lemma map_of_emplace: "k \<noteq> key \<Longrightarrow> map_of (emplace key v ms) k = map_of ms k"
  by (simp add: emplace_def)

lemma take_field_other: "take_field key ms = (v, ms') \<Longrightarrow> k \<noteq> key \<Longrightarrow> map_of ms' k = map_of ms k"
  by (auto simp: take_field_def split: option.splits)

lemma confined_inside: "confined key (inside b key d m)"
  unfolding confined_def
proof (intro allI impI)
  fix ms l k assume k: "k \<noteq> key"
  obtain v ms' where t: "take_field key ms = (v, ms')" by fastforce
  show "map_of (fst (snd (run_state (inside b key d m) (ms, l)))) k = map_of ms k"
    using take_field_other [OF t k] by (cases v) (simp_all add: inside_def t map_of_emplace k split: prod.split)
qed

lemma read_map_other: "k \<noteq> key \<Longrightarrow> map_of (fst (read_map key f (ms, l))) k = map_of ms k"
proof -
  assume k: "k \<noteq> key"
  obtain v ms' where t: "take_field key ms = (v, ms')" by fastforce
  show ?thesis
    using take_field_other [OF t k] by (cases v) (simp_all add: read_map_def t map_of_emplace k Let_def split: prod.split)
qed

lemma confined_bind: "confined key m \<Longrightarrow> (\<And>a. confined key (f a)) \<Longrightarrow> confined key (m \<bind> f)"
  unfolding confined_def by (simp split: prod.split) (metis fst_conv snd_conv)

lemma confined_simps [simp, intro]:
  "confined key (give a)" "confined key (tell f)" "confined key remaining" "confined key (lift_state h)"
  "confined key (State (\<lambda>s. ((), read_map key g s)))"
  by (simp_all add: confined_def tell_def remaining_def lift_state_def read_map_other split: prod.split)

lemma confined_sections:
  "confined ''meta'' readMeta" "confined ''transport'' readTransport" "confined ''mixer_tracks'' readMixerTracks"
  "confined ''instruments'' readInstruments" "confined ''patterns'' readPatterns" "confined ''lanes'' readLanes"
proof -
  show "confined ''meta'' readMeta" "confined ''transport'' readTransport"
    unfolding readMeta_def readTransport_def by (intro confined_bind confined_inside confined_simps)+
  show "confined ''mixer_tracks'' readMixerTracks"
    unfolding readMixerTracks_def
    by (intro confined_bind confined_simps) (auto split: option.split Value.split)
  show "confined ''instruments'' readInstruments"
    unfolding confined_def readInstruments_def
    using read_map_other [of _ "''instruments''" read_instrument_entry] by (auto split: prod.split) (metis fst_conv)
  show "confined ''patterns'' readPatterns" "confined ''lanes'' readLanes"
    unfolding readPatterns_def readLanes_def by (rule confined_simps)+
qed

lemma read_inv_entity:
  assumes "read_inv T C l" and "\<And>i. id_parse k key = Some i \<Longrightarrow> wp (read i) (\<lambda>_. read_inv T C) l"
  shows "read_inv T C (snd (snd (read_entity k noun read d key entry l)))"
proof -
  have "case read_entity k noun read d key entry l of (a, entry', l') \<Rightarrow> (\<lambda>_. read_inv T C) a l'"
    by (rule read_entity_post) (use assms in simp_all)
  then show ?thesis by (simp split: prod.splits)
qed

lemma readMixerTracks_inv:
  assumes "read_inv T C l"
    and "\<And>es. map_of ms ''mixer_tracks'' = Some (JObject es) \<Longrightarrow> set (key_ids KMixerTrack es) \<subseteq> T"
  shows "read_inv T C (snd (snd (run_state readMixerTracks (ms, l))))"
proof -
  define f where "f = (\<lambda>key entry l. snd (read_entity KMixerTrack ''mixer track'' read_track () key entry l))"
  have "read_inv T C (snd (read_map ''mixer_tracks'' f (ms, l1)))" if "read_inv T C l1" for l1
  proof (rule read_map_inv [where I = "read_inv T C", OF _ that])
    fix es k v l2
    assume es: "map_of ms ''mixer_tracks'' = Some (JObject es)" "(k, v) \<in> set es" and l2: "read_inv T C l2"
    have "i \<in> T" if "id_parse KMixerTrack k = Some i" for i
      using assms(2) [OF es(1)] es(2) that by (force simp: key_ids_set)
    then show "read_inv T C (snd (f k v l2))"
      unfolding f_def using l2 by (intro read_inv_entity read_track_inv) auto
  qed
  then show ?thesis
    using assms(1) by (auto simp: readMixerTracks_def remaining_def tell_def f_def [symmetric] split: option.split Value.split prod.split)
qed

lemma readInstruments_inv:
  assumes "read_inv T C l"
  shows "read_inv T C (snd (snd (run_state readInstruments (ms, l))))"
proof -
  have step: "read_inv T C (fst (snd (read_instrument_entry k v s)))" if "read_inv T C (fst s)" for k v s
  proof -
    have "read_inv T C (snd (snd (read_entity KInstrument ''instrument''
        (\<lambda>i. do { _ \<leftarrow> read_instrument (snd s) i; give True }) False k v (fst s))))"
      by (intro read_inv_entity read_instrument_inv that)
    then show ?thesis by (cases s) (auto simp: read_instrument_entry_def split: prod.splits)
  qed
  have "read_inv T C (fst (snd (read_map ''instruments'' read_instrument_entry (ms, (l, 0)))))"
    by (rule read_map_inv [where I = "\<lambda>s. read_inv T C (fst s)"], erule step) (simp add: assms)
  then show ?thesis by (auto simp: readInstruments_def split: prod.splits)
qed

lemma readPatterns_inv:
  assumes "read_inv T C l"
  shows "read_inv T C (snd (snd (run_state readPatterns (ms, l))))"
proof -
  have "read_inv T C (snd (read_map ''patterns''
      (\<lambda>key entry l. snd (read_entity KPattern ''pattern'' read_pattern () key entry l)) (ms, l)))"
    by (rule read_map_inv [where I = "read_inv T C", OF _ assms]) (intro read_inv_entity read_pattern_inv)
  then show ?thesis by (simp add: readPatterns_def)
qed

lemma readLanes_inv:
  assumes "read_inv T C l"
  shows "read_inv T C (snd (snd (run_state readLanes (ms, l))))"
proof -
  have "read_inv T C (snd (read_map ''lanes''
      (\<lambda>key entry l. snd (read_entity KArrangementLane ''lane'' read_lane () key entry l)) (ms, l)))"
    by (rule read_map_inv [where I = "read_inv T C", OF _ assms]) (intro read_inv_entity read_lane_inv)
  then show ?thesis by (simp add: readLanes_def)
qed

lemma readClips_inv:
  assumes "read_inv T {} l"
    and "\<And>es. map_of ms ''clips'' = Some (JObject es) \<Longrightarrow> distinct (key_ids KClip es :: clip_id list)"
  shows "\<exists>C. read_inv T C (snd (snd (run_state readClips (ms, l))))"
proof -
  have "\<exists>C. read_inv T C (fst (snd (read_map ''clips'' read_clip_entry (ms, (l, [])))))"
  proof (cases "\<exists>es. map_of ms ''clips'' = Some (JObject es)")
    case True
    then obtain es where es: "map_of ms ''clips'' = Some (JObject es)" by blast
    have "\<exists>C. read_inv T C (fst (snd (each_entry read_clip_entry es (l, []))))"
      by (rule read_clips_inv [OF assms(1) assms(2) [OF es]]) simp
    then show ?thesis by (simp add: read_map_def take_field_def es Let_def split_beta)
  next
    case False
    then have "snd (read_map ''clips'' read_clip_entry (ms, (l, []))) = (l, [])"
      by (auto simp: read_map_def take_field_def split: option.split Value.split)
    then show ?thesis using assms(1) by auto
  qed
  then show ?thesis by (simp add: readClips_def split: prod.split) (metis fst_conv snd_conv)
qed

lemma note_unknown_reports: "reports l (note_unknown ms l)"
proof -
  have "reports l (fold (\<lambda>(k, v) l. if k \<in> set known_keys then l
       else load_note (''Kept, not understood: top-level '' @ quoted k @ ''.'') l) es l1)" if "reports l l1" for es l1
    using that
  proof (induction es arbitrary: l1)
    case (Cons e es)
    then show ?case using reports_trans [OF Cons.prems reports_issue] by (cases e) simp
  qed simp
  from this [OF reports_refl] show ?thesis unfolding note_unknown_def .
qed

lemma read_inv_new [simp]: "read_inv T C new_loader"
  by (simp add: read_inv_defs new_loader_def empty_tables_def)

definition section_ids :: "entity_kind \<Rightarrow> string \<Rightarrow> object \<Rightarrow> 'k typed_id list" where
  "section_ids k key doc = (case map_of doc key of Some (JObject es) \<Rightarrow> key_ids k es | _ \<Rightarrow> [])"

lemma read_project_inv:
  assumes "reports new_loader l"
    and "set (section_ids KMixerTrack ''mixer_tracks'' doc) \<subseteq> T"
    and "distinct (section_ids KClip ''clips'' doc :: clip_id list)"
    and run: "run_state read_project (doc, l) = (u, (doc', l'))"
  shows "\<exists>C. read_inv T C l'"
proof -
  define l0 where "l0 = note_unknown doc l"
  have i0: "read_inv T {} l0"
    using read_inv_reports [OF note_unknown_reports read_inv_reports [OF assms(1) read_inv_new]] by (simp add: l0_def)
  obtain u1 m1 l1 where r1: "run_state readMeta (doc, l0) = (u1, (m1, l1))" by (metis prod.exhaust)
  obtain u2 m2 l2 where r2: "run_state readTransport (m1, l1) = (u2, (m2, l2))" by (metis prod.exhaust)
  obtain u3 m3 l3 where r3: "run_state readMixerTracks (m2, l2) = (u3, (m3, l3))" by (metis prod.exhaust)
  obtain u4 m4 l4 where r4: "run_state readInstruments (m3, l3) = (u4, (m4, l4))" by (metis prod.exhaust)
  obtain u5 m5 l5 where r5: "run_state readPatterns (m4, l4) = (u5, (m5, l5))" by (metis prod.exhaust)
  obtain u6 m6 l6 where r6: "run_state readLanes (m5, l5) = (u6, (m6, l6))" by (metis prod.exhaust)
  have l': "l' = snd (snd (run_state readClips (m6, l6)))"
    using run by (simp add: read_project_def remaining_def tell_def r1 r2 r3 r4 r5 r6 flip: l0_def)
  note other = confined_sections [unfolded confined_def, rule_format]
  have m2: "map_of m2 ''mixer_tracks'' = map_of doc ''mixer_tracks''"
    using other(1) [of "''mixer_tracks''" doc l0] other(2) [of "''mixer_tracks''" m1 l1] by (simp add: r1 r2)
  have m6: "map_of m6 ''clips'' = map_of doc ''clips''"
    using other(1) [of "''clips''" doc l0] other(2) [of "''clips''" m1 l1] other(3) [of "''clips''" m2 l2]
      other(4) [of "''clips''" m3 l3] other(5) [of "''clips''" m4 l4] other(6) [of "''clips''" m5 l5]
    by (simp add: r1 r2 r3 r4 r5 r6)
  have tracks: "set (key_ids KMixerTrack es) \<subseteq> T" if "map_of m2 ''mixer_tracks'' = Some (JObject es)" for es
    using assms(2) that by (simp add: m2 section_ids_def)
  have "read_inv T {} l1" using wpD [OF readMeta_inv [OF i0] r1] .
  then have "read_inv T {} l2" using wpD [OF readTransport_inv r2] by blast
  then have "read_inv T {} l3"
    using readMixerTracks_inv [of T "{}" l2 m2, OF _ tracks] by (simp add: r3)
  then have "read_inv T {} l4" using readInstruments_inv [of T "{}" l3 m3] by (simp add: r4)
  then have "read_inv T {} l5" using readPatterns_inv [of T "{}" l4 m4] by (simp add: r5)
  then have "read_inv T {} l6" using readLanes_inv [of T "{}" l5 m5] by (simp add: r6)
  then show ?thesis
    unfolding l' by (rule readClips_inv) (use assms(3) in \<open>simp add: m6 section_ids_def\<close>)
qed

end
