(* ===== verification/Loader_Sound.thy ===== *)
theory Loader_Sound
  imports Loader_Inv Project_Inv
begin

text \<open>
  What the resolution of the references establishes, phase by phase: whatever the document said, every
  reference of the tables that come out of it resolves.
\<close>

lemma fold_establish:
  assumes "I l" and "\<And>x l. x \<in> set xs \<Longrightarrow> I l \<Longrightarrow> I (f x l)"
    and "\<And>x l. x \<in> set xs \<Longrightarrow> I l \<Longrightarrow> G x (f x l)"
    and "\<And>x y l. y \<in> set xs \<Longrightarrow> I l \<Longrightarrow> G x l \<Longrightarrow> G x (f y l)"
  shows "I (fold f xs l) \<and> (\<forall>x \<in> set xs. G x (fold f xs l))"
proof -
  have I: "I (fold f ys l)" if "set ys \<subseteq> set xs" "I l" for ys l
    using that assms(2) by (induction ys arbitrary: l) auto
  have G: "G x (fold f ys l)" if "set ys \<subseteq> set xs" "I l" "G x l" for x ys l
    using that assms(2,4) by (induction ys arbitrary: l) auto
  have "\<forall>x \<in> set ys. G x (fold f ys l)" if "set ys \<subseteq> set xs" "I l" for ys l
    using that
  proof (induction ys arbitrary: l)
    case (Cons y ys)
    have y: "y \<in> set xs" and ys: "set ys \<subseteq> set xs" using Cons.prems by auto
    have "G y (fold f ys (f y l))" using G [OF ys assms(2) [OF y Cons.prems(2)] assms(3) [OF y Cons.prems(2)]] .
    then show ?case using Cons.IH [OF ys assms(2) [OF y Cons.prems(2)]] by simp
  qed simp
  with I assms(1) show ?thesis by blast
qed

subsection \<open>What the steps leave alone\<close>

definition pendings where
  "pendings l = (pending_track_output l, pending_routing l, pending_lane_group l, pending_clip_pattern l,
     pending_clip_instrument l, pending_clip_track l, pending_clip_effect l)"

lemma pendings_eq:
  "pendings l = pendings l' \<longleftrightarrow>
     pending_track_output l = pending_track_output l' \<and> pending_routing l = pending_routing l' \<and>
     pending_lane_group l = pending_lane_group l' \<and> pending_clip_pattern l = pending_clip_pattern l' \<and>
     pending_clip_instrument l = pending_clip_instrument l' \<and> pending_clip_track l = pending_clip_track l' \<and>
     pending_clip_effect l = pending_clip_effect l'"
  by (simp add: pendings_def)

lemma loader_steps [simp]:
  "ld_tables (issue s m l) = ld_tables l" "ld_tables (on_tables f l) = f (ld_tables l)"
  "pendings (issue s m l) = pendings l" "pendings (on_tables f l) = pendings l"
  "pendings (l\<lparr>ld_dropped := d\<rparr>) = pendings l"
  by (simp_all add: issue_def on_tables_def pendings_def)

lemma reports_pendings: "reports l l' \<Longrightarrow> pendings l' = pendings l"
  by (simp add: pendings_def reports_fields)

lemma fold_issue [simp]:
  "ld_tables (fold (\<lambda>x. issue s (g x)) xs l) = ld_tables l" "pendings (fold (\<lambda>x. issue s (g x)) xs l) = pendings l"
  by (induction xs arbitrary: l) simp_all

lemma output_of_update [simp]:
  "output_of (om_update i (\<lambda>m. m\<lparr>track_output := Some out\<rparr>) mt) j =
     (if j = i \<and> om_find mt i \<noteq> None then Some out else output_of mt j)"
  by (simp add: output_of_def split: option.split)

definition tracks_frame :: "Loader \<Rightarrow> Loader \<Rightarrow> bool" where
  "tracks_frame l l' \<longleftrightarrow> pendings l' = pendings l \<and>
     instruments (ld_tables l') = instruments (ld_tables l) \<and> patterns (ld_tables l') = patterns (ld_tables l) \<and>
     lanes (ld_tables l') = lanes (ld_tables l) \<and> clips (ld_tables l') = clips (ld_tables l) \<and>
     master (ld_tables l') = master (ld_tables l) \<and>
     (\<forall>i. map_option track_id (om_find (mixer_tracks (ld_tables l')) i) =
        map_option track_id (om_find (mixer_tracks (ld_tables l)) i))"

lemma tracks_frame_refl [simp]: "tracks_frame l l"
  by (simp add: tracks_frame_def)

lemma tracks_frame_trans: "tracks_frame l l1 \<Longrightarrow> tracks_frame l1 l2 \<Longrightarrow> tracks_frame l l2"
  by (simp add: tracks_frame_def)

lemma tracks_frame_keys:
  assumes "tracks_frame l l'"
  shows "om_find (mixer_tracks (ld_tables l')) i = None \<longleftrightarrow> om_find (mixer_tracks (ld_tables l)) i = None"
  using assms unfolding tracks_frame_def by (metis option.map_disc_iff)

lemma tracks_frame_id:
  assumes "tracks_frame l l'" and "om_find (mixer_tracks (ld_tables l')) i = Some t"
  obtains t0 where "om_find (mixer_tracks (ld_tables l)) i = Some t0" "track_id t0 = track_id t"
proof -
  have "map_option track_id (om_find (mixer_tracks (ld_tables l)) i) = Some (track_id t)"
    using assms unfolding tracks_frame_def by (metis option.simps(9))
  then show ?thesis using that by auto
qed

lemma tracks_frame_reports: "reports l l' \<Longrightarrow> tracks_frame l l'"
  by (simp add: tracks_frame_def reports_fields reports_pendings)

lemma tracks_frame_set_output [simp]:
  "tracks_frame l (issue s m l') = tracks_frame l l'"
  "tracks_frame l (on_tables (set_output i out) l') = tracks_frame l l'"
  by (auto simp: tracks_frame_def set_output_def option.map_comp comp_def)

lemma set_output_sel [simp]:
  "mixer_tracks (set_output i out t) = om_update i (\<lambda>m. m\<lparr>track_output := Some out\<rparr>) (mixer_tracks t)"
  "master (set_output i out t) = master t"
  by (simp_all add: set_output_def)

text \<open>The closure form of the same step.\<close>

lemma set_output_master [simp]:
  "on_tables (\<lambda>t. set_output i (master t) t) l = on_tables (set_output i (master (ld_tables l))) l"
  by (simp add: on_tables_def)

subsection \<open>The master\<close>

definition master_chosen :: "Loader \<Rightarrow> bool" where
  "master_chosen l \<longleftrightarrow>
     (let m = mixer_tracks (ld_tables l); M = master (ld_tables l) in
      om_find m M \<noteq> None \<and> output_of m M = None \<and> om_find (pending_track_output l) M = None \<and>
      (\<forall>i. om_find m i \<noteq> None \<longrightarrow> i \<noteq> M \<longrightarrow> om_find (pending_track_output l) i \<noteq> None \<or> output_of m i = Some M) \<and>
      (\<forall>i t. om_find m i = Some t \<longrightarrow> track_id t = i))"

definition entities_kept :: "Loader \<Rightarrow> Loader \<Rightarrow> bool" where
  "entities_kept l l' \<longleftrightarrow> pendings l' = pendings l \<and>
     instruments (ld_tables l') = instruments (ld_tables l) \<and> patterns (ld_tables l') = patterns (ld_tables l) \<and>
     lanes (ld_tables l') = lanes (ld_tables l) \<and> clips (ld_tables l') = clips (ld_tables l)"

lemma tracks_frame_kept: "tracks_frame l l' \<Longrightarrow> entities_kept l l'"
  by (simp add: tracks_frame_def entities_kept_def)

lemma entities_kept_trans: "entities_kept l l1 \<Longrightarrow> entities_kept l1 l2 \<Longrightarrow> entities_kept l l2"
  by (simp add: entities_kept_def)

lemma output_to_master_frame: "tracks_frame l l' \<Longrightarrow> tracks_frame l (output_to_master c i l')"
  by (simp add: output_to_master_def)

lemma output_to_master_output:
  "output_of (mixer_tracks (ld_tables (output_to_master c i l))) j =
     (if j = i \<and> om_find (mixer_tracks (ld_tables l)) i \<noteq> None then Some (master (ld_tables l))
      else output_of (mixer_tracks (ld_tables l)) j)"
  by (simp add: output_to_master_def)

lemma chooseMaster_chosen:
  assumes inv: "read_inv T C l" and fresh: "fst (mintId clock p) \<notin> T"
  shows "master_chosen (chooseMaster clock p l) \<and> entities_kept l (chooseMaster clock p l)"
proof (cases "root_tracks l")
  case Nil
  define M where "M = (fst (mintId clock p) :: track_id)"
  have M: "om_find (mixer_tracks (ld_tables l)) M = None" "om_find (pending_track_output l) M = None"
    using inv fresh unfolding read_inv_def tracks_read_def M_def by (metis option.exhaust)+
  have "om_find (pending_track_output l) i \<noteq> None" if "om_find (mixer_tracks (ld_tables l)) i \<noteq> None" for i
    using Nil that by (auto simp: root_tracks_def filter_empty_conv)
  moreover have "track_id t = i" if "om_find (mixer_tracks (ld_tables l)) i = Some t" for i t
    using inv that by (simp add: read_inv_def tracks_read_def)
  ultimately show ?thesis
    using M by (auto simp: chooseMaster_def Nil master_chosen_def entities_kept_def output_of_def default_mixer_track_def
        issue_def on_tables_def pendings_def M_def [symmetric] Let_def)
next
  case (Cons r rs)
  define l1 where "l1 = on_tables (\<lambda>t. t\<lparr>master := r\<rparr>) l"
  have distinct: "distinct (r # rs)" unfolding Cons [symmetric] root_tracks_def by simp
  have roots: "i \<in> set (r # rs) \<longleftrightarrow> om_find (mixer_tracks (ld_tables l)) i \<noteq> None \<and> om_find (pending_track_output l) i = None" for i
    unfolding Cons [symmetric] by (auto simp: root_tracks_def)
  have out: "output_of (mixer_tracks (ld_tables l)) i = None" for i
    using inv by (auto simp: read_inv_def tracks_read_def output_of_def split: option.split)
  define f where "f = output_to_master '' had no output; routed to the master.''"
  define I where "I = (\<lambda>l'. tracks_frame l1 l' \<and> output_of (mixer_tracks (ld_tables l')) r = None)"
  define G where "G = (\<lambda>i (l' :: Loader). output_of (mixer_tracks (ld_tables l')) i = Some r)"
  have live: "om_find (mixer_tracks (ld_tables l')) i \<noteq> None" if "tracks_frame l1 l'" "i \<in> set (r # rs)" for i l'
    using tracks_frame_keys [OF that(1)] roots that(2) by (simp add: l1_def)
  have "I (fold f rs l1) \<and> (\<forall>i \<in> set rs. G i (fold f rs l1))"
  proof (rule fold_establish)
    show "I l1" by (simp add: I_def l1_def out)
  next
    fix i l' assume i: "i \<in> set rs" and l': "I l'"
    show "I (f i l')"
      using l' i distinct by (auto simp: I_def f_def output_to_master_frame output_to_master_output)
    show "G i (f i l')"
      using l' live [of l' i] i by (simp add: I_def G_def f_def output_to_master_output) (simp add: tracks_frame_def l1_def)
  next
    fix i j l' assume "j \<in> set rs" and l': "I l'" and "G i l'"
    then show "G i (f j l')"
      by (simp add: I_def G_def f_def output_to_master_output) (simp add: tracks_frame_def l1_def)
  qed
  then have fin: "tracks_frame l1 (fold f rs l1)" "output_of (mixer_tracks (ld_tables (fold f rs l1))) r = None"
    and rest: "\<And>i. i \<in> set rs \<Longrightarrow> output_of (mixer_tracks (ld_tables (fold f rs l1))) i = Some r"
    by (simp_all add: I_def G_def)
  have p: "pending_track_output (fold f rs l1) = pending_track_output l"
    using fin(1) by (simp add: tracks_frame_def l1_def pendings_eq on_tables_def)
  have m: "master (ld_tables (fold f rs l1)) = r"
    using fin(1) by (simp add: tracks_frame_def l1_def)
  have ids: "track_id t = i" if "om_find (mixer_tracks (ld_tables (fold f rs l1))) i = Some t" for i t
    by (rule tracks_frame_id [OF fin(1) that]) (use inv in \<open>auto simp: read_inv_def tracks_read_def l1_def\<close>)
  have "om_find (pending_track_output l) i \<noteq> None \<or> output_of (mixer_tracks (ld_tables (fold f rs l1))) i = Some r"
    if "om_find (mixer_tracks (ld_tables (fold f rs l1))) i \<noteq> None" "i \<noteq> r" for i
    using that roots [of i] rest [of i] tracks_frame_keys [OF fin(1), of i] by (auto simp: l1_def)
  then have "master_chosen (fold f rs l1)"
    using live [OF fin(1), of r] roots [of r] fin(2) ids by (simp add: master_chosen_def p m Let_def)
  moreover have "entities_kept l (fold f rs l1)"
    using tracks_frame_kept [OF fin(1)] by (simp add: entities_kept_def l1_def)
  moreover have "chooseMaster clock p l = fold f rs l1"
    by (simp add: chooseMaster_def Cons f_def l1_def)
  ultimately show ?thesis by simp
qed

subsection \<open>The outputs\<close>

definition outputs_resolved :: "Loader \<Rightarrow> bool" where
  "outputs_resolved l \<longleftrightarrow>
     (let m = mixer_tracks (ld_tables l); M = master (ld_tables l) in
      om_find m M \<noteq> None \<and> output_of m M = None \<and>
      (\<forall>i. om_find m i \<noteq> None \<longrightarrow> i \<noteq> M \<longrightarrow> (\<exists>out. output_of m i = Some out \<and> om_find m out \<noteq> None)) \<and>
      (\<forall>i t. om_find m i = Some t \<longrightarrow> track_id t = i))"

lemma resolve_output_step:
  assumes "om_find (pending_track_output l) i = Some t" and "i \<noteq> master (ld_tables l)"
    and "om_find (mixer_tracks (ld_tables l)) (master (ld_tables l)) \<noteq> None"
  shows "\<exists>l1 out. reports l l1 \<and> resolve_output i l = on_tables (set_output i out) l1 \<and>
    om_find (mixer_tracks (ld_tables l)) out \<noteq> None"
proof -
  define ow where "ow = ''Mixer track '' @ quoted (name_of_track i (ld_tables l))"
  obtain x l1 where r: "reference KMixerTrack t ow ''output'' l = (x :: track_id option, l1)" by fastforce
  have r1: "reports l l1" using reference_reports [OF r] .
  then have tabs: "ld_tables l1 = ld_tables l" by (simp add: reports_fields)
  define y where "y = Option.bind x (\<lambda>o'. if om_find (mixer_tracks (ld_tables l)) o' \<noteq> None \<and> o' \<noteq> i then Some o' else None)"
  show ?thesis
  proof (cases y)
    case None
    define l2 where "l2 = load_warn (''Mixer track '' @ quoted (name_of_track i (ld_tables l)) @
      '' routed to a track that is not there; routed to the master.'') l1"
    have "resolve_output i l = on_tables (set_output i (master (ld_tables l))) l2"
      using assms(2) None unfolding y_def
      by (simp add: resolve_output_def assms(1) r ow_def [symmetric] tabs Let_def l2_def del: append.simps)
    moreover have "reports l l2" unfolding l2_def using reports_trans [OF r1 reports_issue] .
    ultimately show ?thesis using assms(3) by blast
  next
    case (Some out)
    then have "resolve_output i l = on_tables (set_output i out) l1"
      unfolding y_def by (simp add: resolve_output_def assms(1) r ow_def [symmetric] tabs del: append.simps)
    moreover have "om_find (mixer_tracks (ld_tables l)) out \<noteq> None"
      using Some unfolding y_def by (auto simp: bind_eq_Some_conv split: if_splits)
    ultimately show ?thesis using r1 by blast
  qed
qed

lemma resolve_outputs:
  assumes "master_chosen l"
  defines "ks \<equiv> om_keys (mixer_tracks (ld_tables l))"
  shows "outputs_resolved (fold resolve_output ks l) \<and> tracks_frame l (fold resolve_output ks l)"
proof -
  define M where "M = master (ld_tables l)"
  define outp where "outp = (\<lambda>(l :: Loader) i. output_of (mixer_tracks (ld_tables l)) i)"
  define live where "live = (\<lambda>i. om_find (mixer_tracks (ld_tables l)) i \<noteq> None)"
  define I where "I = (\<lambda>l'. tracks_frame l l' \<and> outp l' M = None \<and>
      (\<forall>i. live i \<longrightarrow> om_find (pending_track_output l) i = None \<longrightarrow> i \<noteq> M \<longrightarrow> outp l' i = Some M))"
  define G where "G = (\<lambda>i (l' :: Loader). i \<noteq> M \<longrightarrow> (\<exists>out. outp l' i = Some out \<and> live out))"
  have M: "live M" "outp l M = None" "om_find (pending_track_output l) M = None"
    using assms(1) by (simp_all add: master_chosen_def M_def live_def outp_def Let_def)
  have fr: "pending_track_output l' = pending_track_output l" "master (ld_tables l') = M"
    "om_find (mixer_tracks (ld_tables l')) i \<noteq> None \<longleftrightarrow> live i" if "tracks_frame l l'" for l' i
    using that tracks_frame_keys [OF that] by (simp_all add: tracks_frame_def pendings_eq M_def live_def)
  have step: "om_find (pending_track_output l) x = None \<and> resolve_output x l' = l' \<or>
      (\<exists>l1 out. om_find (pending_track_output l) x \<noteq> None \<and> x \<noteq> M \<and> tracks_frame l l1 \<and> ld_tables l1 = ld_tables l' \<and>
        resolve_output x l' = on_tables (set_output x out) l1 \<and> live out)" if t: "tracks_frame l l'" for x l'
  proof (cases "om_find (pending_track_output l) x")
    case None
    then show ?thesis by (simp add: resolve_output_def fr [OF t])
  next
    case (Some y)
    then have x: "x \<noteq> M" using M(3) by auto
    then obtain l1 out where l1: "reports l' l1" and "resolve_output x l' = on_tables (set_output x out) l1" "live out"
      using resolve_output_step [of l' x y] Some fr [OF t] M(1) by auto
    moreover have "tracks_frame l l1" using tracks_frame_trans [OF t tracks_frame_reports [OF l1]] .
    ultimately show ?thesis using x Some by (auto simp: reports_fields)
  qed
  have update: "outp (on_tables (set_output x out) l1) j = (if j = x \<and> live x then Some out else outp l' j)"
    if "tracks_frame l l'" "ld_tables l1 = ld_tables l'" for x out l1 l' j
    using fr(3) [OF that(1)] that(2) by (simp add: outp_def)
  have fin: "I (fold resolve_output ks l) \<and> (\<forall>i \<in> set ks. G i (fold resolve_output ks l))"
  proof (rule fold_establish)
    show "I l" using assms(1) M by (auto simp: I_def master_chosen_def M_def live_def outp_def Let_def)
  next
    fix x l' assume x: "x \<in> set ks" and l': "I l'"
    then have t: "tracks_frame l l'" and lx: "live x" by (simp_all add: I_def ks_def live_def)
    show "I (resolve_output x l')"
      using step [OF t, of x] l' by (auto simp: I_def update [OF t])
    show "G x (resolve_output x l')"
      using step [OF t, of x] l' lx M(1) by (auto simp: I_def G_def update [OF t])
  next
    fix x y l' assume "y \<in> set ks" and l': "I l'" and g: "G x l'"
    then have t: "tracks_frame l l'" by (simp add: I_def)
    show "G x (resolve_output y l')"
      using step [OF t, of y] g by (auto simp: G_def update [OF t])
  qed
  then have t: "tracks_frame l (fold resolve_output ks l)" by (simp add: I_def)
  have "track_id tr = i" if "om_find (mixer_tracks (ld_tables (fold resolve_output ks l))) i = Some tr" for i tr
    by (rule tracks_frame_id [OF t that]) (use assms(1) in \<open>auto simp: master_chosen_def Let_def\<close>)
  then show ?thesis
    using fin t M(1) fr [OF t] by (auto simp: outputs_resolved_def I_def G_def outp_def live_def ks_def Let_def)
qed

subsection \<open>The cycles\<close>

lemma fed_back_ends: "\<not> fed_back m i n w \<Longrightarrow> \<exists>k. output_steps m k w = None"
proof (induction m i n w rule: fed_back.induct)
  case (1 m i left w)
  show ?case
  proof (cases "output_of m w")
    case None
    then have "output_steps m (Suc 0) w = None" by simp
    then show ?thesis ..
  next
    case (Some out)
    then obtain t where t: "om_find m w = Some t" "track_output t = Some out"
      by (auto simp: output_of_def split: option.splits)
    have "out \<noteq> i"
      using 1(2) t by (auto simp: fed_back.simps [of m i left w] split: if_splits)
    then obtain n where n: "left = Suc n" "\<not> fed_back m i n out"
      using 1(2) t by (cases left) (auto simp: fed_back.simps [of m i _ w])
    then obtain k where "output_steps m k out = None" using 1(1) [OF t \<open>out \<noteq> i\<close> n(1)] by blast
    with Some have "output_steps m (Suc k) w = None" by simp
    then show ?thesis ..
  qed
qed

text \<open>A redirected track ends at the master, and a walk that ended still ends.\<close>

lemma ends_redirected:
  assumes "output_of m M = None" and "i \<noteq> M" and "output_steps m k y = None"
  defines "m' \<equiv> om_update i (\<lambda>t. t\<lparr>track_output := Some M\<rparr>) m"
  shows "\<exists>k'. output_steps m' k' y = None"
  using assms(3)
proof (induction k arbitrary: y)
  case (Suc k)
  have M: "output_of m' M = None" using assms(1,2) by (simp add: m'_def)
  show ?case
  proof (cases "output_of m' y")
    case None
    then have "output_steps m' (Suc 0) y = None" by simp
    then show ?thesis ..
  next
    case (Some out)
    show ?thesis
    proof (cases "y = i \<and> om_find m i \<noteq> None")
      case True
      then have "output_steps m' (Suc (Suc 0)) y = None" using M by (simp add: m'_def)
      then show ?thesis ..
    next
      case False
      then have "output_of m y = Some out" using Some by (simp add: m'_def split: if_splits)
      then obtain k' where "output_steps m' k' out = None" using Suc by auto
      with Some have "output_steps m' (Suc k') y = None" by simp
      then show ?thesis ..
    qed
  qed
qed simp

lemma redirected_ends:
  assumes "output_of m M = None" and "i \<noteq> M"
  shows "\<exists>k. output_steps (om_update i (\<lambda>t. t\<lparr>track_output := Some M\<rparr>) m) k i = None"
proof (cases "om_find m i")
  case None
  then have "output_steps (om_update i (\<lambda>t. t\<lparr>track_output := Some M\<rparr>) m) (Suc 0) i = None"
    by (simp add: output_of_def)
  then show ?thesis ..
next
  case (Some t)
  then have "output_steps (om_update i (\<lambda>t. t\<lparr>track_output := Some M\<rparr>) m) (Suc (Suc 0)) i = None"
    using assms by simp
  then show ?thesis ..
qed

definition mixer_resolved :: "('a Tables_scheme) \<Rightarrow> bool" where
  "mixer_resolved p \<longleftrightarrow>
     om_find (mixer_tracks p) (master p) \<noteq> None \<and> routing_ends (mixer_tracks p) \<and>
     (\<forall>i t. om_find (mixer_tracks p) i = Some t \<longrightarrow> track_id t = i \<and>
        (track_output t = None \<longleftrightarrow> i = master p) \<and>
        (\<forall>out. track_output t = Some out \<longrightarrow> om_find (mixer_tracks p) out \<noteq> None))"

lemma breakMixerCycles_resolved:
  assumes "outputs_resolved l"
  shows "mixer_resolved (ld_tables (breakMixerCycles l)) \<and> tracks_frame l (breakMixerCycles l)"
proof -
  define M where "M = master (ld_tables l)"
  define ks where "ks = om_keys (mixer_tracks (ld_tables l))"
  define live where "live = (\<lambda>i. om_find (mixer_tracks (ld_tables l)) i \<noteq> None)"
  define outp where "outp = (\<lambda>(l :: Loader) i. output_of (mixer_tracks (ld_tables l)) i)"
  define I where "I = (\<lambda>l'. tracks_frame l l' \<and> outp l' M = None \<and>
      (\<forall>i. live i \<longrightarrow> i \<noteq> M \<longrightarrow> (\<exists>out. outp l' i = Some out \<and> live out)))"
  define G where "G = (\<lambda>i (l' :: Loader). \<exists>k. output_steps (mixer_tracks (ld_tables l')) k i = None)"
  have M: "live M" using assms by (simp add: outputs_resolved_def M_def live_def Let_def)
  have step: "G x l' \<and> break_cycle x l' = l' \<or>
      x \<noteq> M \<and> tracks_frame l (break_cycle x l') \<and>
      mixer_tracks (ld_tables (break_cycle x l')) =
        om_update x (\<lambda>t. t\<lparr>track_output := Some M\<rparr>) (mixer_tracks (ld_tables l'))" if l': "I l'" for x l'
  proof -
    let ?m = "mixer_tracks (ld_tables l')"
    have t: "tracks_frame l l'" and out: "output_of ?m M = None" using l' by (simp_all add: I_def outp_def)
    have m: "master (ld_tables l') = M" using t by (simp add: tracks_frame_def M_def)
    show ?thesis
    proof (cases "fed_back ?m x (om_size ?m) x")
      case True
      have "x \<noteq> M"
      proof
        assume "x = M"
        then have "\<not> fed_back ?m x (om_size ?m) x"
          using out by (auto simp: fed_back.simps [of ?m M] output_of_def split: option.split)
        with True show False by simp
      qed
      then show ?thesis
        using True output_to_master_frame [OF t] by (simp add: break_cycle_def Let_def output_to_master_def m)
    next
      case False
      then show ?thesis using fed_back_ends [OF False] by (simp add: break_cycle_def Let_def G_def)
    qed
  qed
  have fin: "I (fold break_cycle ks l) \<and> (\<forall>i \<in> set ks. G i (fold break_cycle ks l))"
  proof (rule fold_establish)
    show "I l" using assms by (auto simp: I_def outputs_resolved_def M_def live_def outp_def Let_def)
  next
    fix x l' assume l': "I l'"
    have out: "output_of (mixer_tracks (ld_tables l')) M = None" using l' by (simp add: I_def outp_def)
    show "I (break_cycle x l')" using step [OF l', of x] l' M by (auto simp: I_def outp_def)
    show "G x (break_cycle x l')" using step [OF l', of x] redirected_ends [OF out] by (auto simp: G_def)
    show "G y (break_cycle x l')" if "G y l'" for y
      using step [OF l', of x] that ends_redirected [OF out] by (auto simp: G_def)
  qed
  define l3 where "l3 = breakMixerCycles l"
  have l3: "l3 = fold break_cycle ks l" by (simp add: l3_def breakMixerCycles_def ks_def)
  have t: "tracks_frame l l3" using fin by (simp add: I_def l3)
  have live3: "om_find (mixer_tracks (ld_tables l3)) i \<noteq> None \<longleftrightarrow> live i" for i
    using tracks_frame_keys [OF t] by (simp add: live_def)
  have "routing_ends (mixer_tracks (ld_tables l3))"
    unfolding routing_ends_def
  proof
    fix i
    show "\<exists>k. output_steps (mixer_tracks (ld_tables l3)) k i = None"
    proof (cases "live i")
      case True
      then show ?thesis using fin by (simp add: G_def l3 ks_def live_def)
    next
      case False
      then have "output_steps (mixer_tracks (ld_tables l3)) (Suc 0) i = None"
        using live3 [of i] by (simp add: output_of_def)
      then show ?thesis ..
    qed
  qed
  moreover have "track_id tr = i \<and> (track_output tr = None \<longleftrightarrow> i = M) \<and>
      (\<forall>out. track_output tr = Some out \<longrightarrow> om_find (mixer_tracks (ld_tables l3)) out \<noteq> None)"
    if tr: "om_find (mixer_tracks (ld_tables l3)) i = Some tr" for i tr
  proof -
    have "track_id tr = i"
      by (rule tracks_frame_id [OF t tr]) (use assms in \<open>auto simp: outputs_resolved_def Let_def\<close>)
    moreover have "outp l3 i = track_output tr" using tr by (simp add: outp_def output_of_def)
    moreover have "live i" using live3 [of i] tr by simp
    ultimately show ?thesis using fin live3 by (auto simp: I_def l3 [symmetric])
  qed
  moreover have "master (ld_tables l3) = M" using t by (simp add: tracks_frame_def M_def)
  ultimately show ?thesis
    using t live3 [of M] M by (simp add: mixer_resolved_def l3_def [symmetric])
qed

subsection \<open>Routes, groups and sequences\<close>

text \<open>A table in which the keys and one field are those of another.\<close>

definition same_ids :: "('e \<Rightarrow> 'i) \<Rightarrow> ('k::linorder, 'e) omap \<Rightarrow> ('k, 'e) omap \<Rightarrow> bool" where
  "same_ids f m m' \<longleftrightarrow> (\<forall>i. map_option f (om_find m' i) = map_option f (om_find m i))"

lemma same_ids_refl [simp]: "same_ids f m m"
  by (simp add: same_ids_def)

lemma same_ids_keys: "same_ids f m m' \<Longrightarrow> om_find m' i = None \<longleftrightarrow> om_find m i = None"
  unfolding same_ids_def by (metis option.map_disc_iff)

lemma same_ids_find:
  assumes "same_ids f m m'" and "om_find m' i = Some e'"
  obtains e where "om_find m i = Some e" "f e = f e'"
proof -
  have "map_option f (om_find m i) = Some (f e')" using assms unfolding same_ids_def by (metis option.simps(9))
  then show ?thesis using that by auto
qed

lemma same_ids_update: "same_ids f m m' \<Longrightarrow> (\<And>e. f (g e) = f e) \<Longrightarrow> same_ids f m (om_update k g m')"
  by (simp add: same_ids_def option.map_comp comp_def)

definition routed :: "('a Tables_scheme) \<Rightarrow> Instrument \<Rightarrow> bool" where
  "routed p n \<longleftrightarrow> inst_routing n \<noteq> [] \<and> (\<forall>r \<in> set (inst_routing n). om_find (mixer_tracks p) (route_track r) \<noteq> None)"

lemma resolve_routing_step:
  assumes "om_find (mixer_tracks (ld_tables l)) (master (ld_tables l)) \<noteq> None"
  obtains routes where "pendings (resolve_routing i l) = pendings l"
    and "ld_tables (resolve_routing i l) =
      (ld_tables l)\<lparr>instruments := om_update i (\<lambda>n. n\<lparr>inst_routing := routes\<rparr>) (instruments (ld_tables l))\<rparr>"
    and "routes \<noteq> []" and "\<And>r. r \<in> set routes \<Longrightarrow> om_find (mixer_tracks (ld_tables l)) (route_track r) \<noteq> None"
proof (cases "om_find (instruments (ld_tables l)) i")
  case None
  then have "om_update i (\<lambda>n. n\<lparr>inst_routing := [\<lparr>route_port = 0, route_track = master (ld_tables l)\<rparr>]\<rparr>)
      (instruments (ld_tables l)) = instruments (ld_tables l)" by (simp add: om_eq_iff)
  then show ?thesis
    using that [of "[\<lparr>route_port = 0, route_track = master (ld_tables l)\<rparr>]"] assms None by (simp add: resolve_routing_def)
next
  case (Some inst)
  define live where "live = (\<lambda>r :: OutputRoute. om_find (mixer_tracks (ld_tables l)) (route_track r) \<noteq> None)"
  define kept where "kept = filter live (case om_find (pending_routing l) i of None \<Rightarrow> [] | Some rs \<Rightarrow> rs)"
  define routes where "routes = (if kept = [] then [\<lparr>route_port = 0, route_track = master (ld_tables l)\<rparr>] else kept)"
  show ?thesis
  proof (rule that [of routes])
    show "pendings (resolve_routing i l) = pendings l"
      by (simp add: resolve_routing_def Some Let_def del: append.simps)
    show "ld_tables (resolve_routing i l) =
      (ld_tables l)\<lparr>instruments := om_update i (\<lambda>n. n\<lparr>inst_routing := routes\<rparr>) (instruments (ld_tables l))\<rparr>"
      by (simp add: resolve_routing_def Some Let_def routes_def kept_def live_def del: append.simps)
    show "routes \<noteq> []" by (simp add: routes_def)
    show "om_find (mixer_tracks (ld_tables l)) (route_track r) \<noteq> None" if "r \<in> set routes" for r
      using that assms by (auto simp: routes_def kept_def live_def split: if_splits)
  qed
qed

lemma resolve_routings:
  assumes "om_find (mixer_tracks (ld_tables l)) (master (ld_tables l)) \<noteq> None"
  defines "l' \<equiv> fold resolve_routing (om_keys (instruments (ld_tables l))) l"
  obtains ins where "pendings l' = pendings l" and "ld_tables l' = (ld_tables l)\<lparr>instruments := ins\<rparr>"
    and "same_ids inst_id (instruments (ld_tables l)) ins"
    and "\<And>i n. om_find ins i = Some n \<Longrightarrow> routed (ld_tables l) n"
proof -
  define same where "same = same_ids inst_id (instruments (ld_tables l))"
  define I where "I = (\<lambda>l1 :: Loader. pendings l1 = pendings l \<and> (\<exists>ins. ld_tables l1 = (ld_tables l)\<lparr>instruments := ins\<rparr> \<and> same ins))"
  define G where "G = (\<lambda>i (l1 :: Loader). \<forall>n. om_find (instruments (ld_tables l1)) i = Some n \<longrightarrow> routed (ld_tables l) n)"
  have "I l' \<and> (\<forall>i \<in> set (om_keys (instruments (ld_tables l))). G i l')"
    unfolding l'_def
  proof (rule fold_establish)
    have "ld_tables l = (ld_tables l)\<lparr>instruments := instruments (ld_tables l)\<rparr>" by simp
    then show "I l" unfolding I_def same_def using same_ids_refl by blast
  next
    fix i l1 assume "I l1"
    then obtain ins where l1: "pendings l1 = pendings l" "ld_tables l1 = (ld_tables l)\<lparr>instruments := ins\<rparr>" "same ins"
      by (auto simp: I_def)
    then have "om_find (mixer_tracks (ld_tables l1)) (master (ld_tables l1)) \<noteq> None" using assms(1) by simp
    from resolve_routing_step [OF this, of i] obtain routes where r: "pendings (resolve_routing i l1) = pendings l1"
      "ld_tables (resolve_routing i l1) = (ld_tables l)\<lparr>instruments := om_update i (\<lambda>n. n\<lparr>inst_routing := routes\<rparr>) ins\<rparr>"
      "routes \<noteq> []" "\<And>r. r \<in> set routes \<Longrightarrow> om_find (mixer_tracks (ld_tables l)) (route_track r) \<noteq> None"
      unfolding l1(2) by simp blast
    have "same (om_update i (\<lambda>n. n\<lparr>inst_routing := routes\<rparr>) ins)"
      using l1(3) unfolding same_def by (rule same_ids_update) simp
    then show "I (resolve_routing i l1)" using r(1,2) l1(1) by (auto simp: I_def)
    show "G i (resolve_routing i l1)" using r by (auto simp: G_def routed_def)
    show "G j (resolve_routing i l1)" if "G j l1" for j
      using that r by (auto simp: G_def routed_def l1)
  qed
  then obtain ins where l': "pendings l' = pendings l" "ld_tables l' = (ld_tables l)\<lparr>instruments := ins\<rparr>" "same ins"
    and g: "\<And>i. om_find (instruments (ld_tables l)) i \<noteq> None \<Longrightarrow> G i l'"
    by (auto simp: I_def)
  show ?thesis
  proof (rule that [OF l'(1,2)])
    show "same_ids inst_id (instruments (ld_tables l)) ins" using l'(3) by (simp add: same_def)
    show "routed (ld_tables l) n" if n: "om_find ins i = Some n" for i n
      using g [of i] n same_ids_keys [OF l'(3) [unfolded same_def], of i] by (simp add: G_def l'(2))
  qed
qed

definition grouped :: "(lane_id, ArrangementLane) omap \<Rightarrow> bool" where
  "grouped ls \<longleftrightarrow> (\<forall>i n g. om_find ls i = Some n \<longrightarrow> lane_group_id n = Some g \<longrightarrow> g \<noteq> i \<and> om_find ls g \<noteq> None)"

lemma resolve_group_step:
  obtains "pendings (resolve_group i l) = pendings l" and "ld_tables (resolve_group i l) = ld_tables l"
  | g where "pendings (resolve_group i l) = pendings l"
      and "ld_tables (resolve_group i l) =
        (ld_tables l)\<lparr>lanes := om_update i (\<lambda>n. n\<lparr>lane_group_id := Some g\<rparr>) (lanes (ld_tables l))\<rparr>"
      and "om_find (lanes (ld_tables l)) g \<noteq> None" and "g \<noteq> i"
proof (cases "om_find (lanes (ld_tables l)) i = None \<or> om_find (pending_lane_group l) i = None")
  case True
  then have "resolve_group i l = l" by (auto simp: resolve_group_def split: option.split)
  then show ?thesis using that(1) by simp
next
  case False
  then obtain lane t where t: "om_find (lanes (ld_tables l)) i = Some lane" "om_find (pending_lane_group l) i = Some t"
    by auto
  define x where "x = Option.bind (id_parse KArrangementLane t)
    (\<lambda>g. if om_find (lanes (ld_tables l)) g \<noteq> None \<and> g \<noteq> i then Some g else None)"
  show ?thesis
  proof (cases x)
    case None
    then show ?thesis using that(1) unfolding x_def by (simp add: resolve_group_def t del: append.simps)
  next
    case (Some g)
    then have "om_find (lanes (ld_tables l)) g \<noteq> None" "g \<noteq> i"
      unfolding x_def by (auto simp: bind_eq_Some_conv split: if_splits)
    then show ?thesis using that(2) [of g] Some unfolding x_def by (simp add: resolve_group_def t del: append.simps)
  qed
qed

lemma resolve_groups:
  assumes "grouped (lanes (ld_tables l))"
  shows "\<exists>ls. pendings (fold resolve_group ks l) = pendings l \<and> ld_tables (fold resolve_group ks l) = (ld_tables l)\<lparr>lanes := ls\<rparr> \<and>
    same_ids lane_id (lanes (ld_tables l)) ls \<and> grouped ls"
  using assms
proof (induction ks arbitrary: l)
  case Nil
  then show ?case by (intro exI [of _ "lanes (ld_tables l)"]) simp
next
  case (Cons i ks)
  show ?case
  proof (cases rule: resolve_group_step [of i l])
    case 1
    then show ?thesis using Cons.IH [of "resolve_group i l"] Cons.prems by simp
  next
    case (2 g)
    define ls where "ls = om_update i (\<lambda>n. n\<lparr>lane_group_id := Some g\<rparr>) (lanes (ld_tables l))"
    have ids: "same_ids lane_id (lanes (ld_tables l)) ls" unfolding ls_def by (rule same_ids_update) simp_all
    have "grouped ls"
      using Cons.prems 2(3,4) by (auto simp: grouped_def ls_def split: if_splits)
    then obtain ls' where ls': "pendings (fold resolve_group ks (resolve_group i l)) = pendings l"
      "ld_tables (fold resolve_group ks (resolve_group i l)) = (ld_tables l)\<lparr>lanes := ls'\<rparr>"
      "same_ids lane_id ls ls'" "grouped ls'"
      using Cons.IH [of "resolve_group i l"] 2(1,2) by (auto simp: ls_def)
    moreover have "same_ids lane_id (lanes (ld_tables l)) ls'" using ids ls'(3) by (simp add: same_ids_def)
    ultimately show ?thesis by auto
  qed
qed

definition sequences_live :: "('a Tables_scheme) \<Rightarrow> Pattern \<Rightarrow> bool" where
  "sequences_live p pat \<longleftrightarrow> (\<forall>i s. om_find (pat_sequences pat) i = Some s \<longrightarrow> om_find (instruments p) i \<noteq> None \<and> sequence_read s)"

lemma fold_issue_pair [simp]:
  "ld_tables (fold (\<lambda>(i, x). issue s (g i x)) xs l) = ld_tables l" "pendings (fold (\<lambda>(i, x). issue s (g i x)) xs l) = pendings l"
  by (induction xs arbitrary: l) (simp_all add: split_beta)

lemma drop_orphans_step:
  "pendings (drop_orphans p l) = pendings l"
  "ld_tables (drop_orphans p l) = (ld_tables l)\<lparr>patterns := om_update p
     (\<lambda>q. q\<lparr>pat_sequences := om_filter (\<lambda>i s. om_find (instruments (ld_tables l)) i \<noteq> None) (pat_sequences q)\<rparr>) (patterns (ld_tables l))\<rparr>"
proof -
  have "om_find (patterns (ld_tables l)) p = None \<Longrightarrow>
      om_update p f (patterns (ld_tables l)) = patterns (ld_tables l)" for f by (simp add: om_eq_iff)
  then show "pendings (drop_orphans p l) = pendings l"
    and "ld_tables (drop_orphans p l) = (ld_tables l)\<lparr>patterns := om_update p
     (\<lambda>q. q\<lparr>pat_sequences := om_filter (\<lambda>i s. om_find (instruments (ld_tables l)) i \<noteq> None) (pat_sequences q)\<rparr>) (patterns (ld_tables l))\<rparr>"
    by (simp_all add: drop_orphans_def Let_def del: append.simps split: option.split)
qed

lemma drop_all_orphans:
  "pendings (fold drop_orphans (om_keys (patterns (ld_tables l))) l) = pendings l"
  "ld_tables (fold drop_orphans (om_keys (patterns (ld_tables l))) l) = (ld_tables l)\<lparr>patterns :=
     om_map (\<lambda>p q. q\<lparr>pat_sequences := om_filter (\<lambda>i s. om_find (instruments (ld_tables l)) i \<noteq> None) (pat_sequences q)\<rparr>)
       (patterns (ld_tables l))\<rparr>"
proof -
  define f where "f = (\<lambda>q :: Pattern. q\<lparr>pat_sequences := om_filter (\<lambda>i s. om_find (instruments (ld_tables l)) i \<noteq> None) (pat_sequences q)\<rparr>)"
  have "pendings (fold drop_orphans ks l1) = pendings l1 \<and>
      ld_tables (fold drop_orphans ks l1) = (ld_tables l1)\<lparr>patterns := fold (\<lambda>p. om_update p f) ks (patterns (ld_tables l1))\<rparr>"
    if "instruments (ld_tables l1) = instruments (ld_tables l)" for ks l1
    using that by (induction ks arbitrary: l1) (simp_all add: drop_orphans_step f_def)
  from this [OF refl, of "om_keys (patterns (ld_tables l))"] show
    "pendings (fold drop_orphans (om_keys (patterns (ld_tables l))) l) = pendings l"
    "ld_tables (fold drop_orphans (om_keys (patterns (ld_tables l))) l) = (ld_tables l)\<lparr>patterns :=
     om_map (\<lambda>p q. q\<lparr>pat_sequences := om_filter (\<lambda>i s. om_find (instruments (ld_tables l)) i \<noteq> None) (pat_sequences q)\<rparr>)
       (patterns (ld_tables l))\<rparr>"
    using fold_update_keys [of "\<lambda>_. f" "patterns (ld_tables l)"] by (simp_all add: f_def)
qed

subsection \<open>Clips\<close>

lemma no_reason:
  assumes "dangling_reason l i c = ''''" and "source_noted l i (clip_source c)"
  shows "om_find (lanes (ld_tables l)) (clip_lane c) \<noteq> None \<and> source_resolves (ld_tables l) (clip_source c)"
proof -
  have r: "om_find (lanes (ld_tables l)) (clip_lane c) \<noteq> None"
    "\<not> absent_in (patterns (ld_tables l)) (pending_clip_pattern l) i"
    "\<not> absent_in (instruments (ld_tables l)) (pending_clip_instrument l) i"
    "\<not> absent_in (mixer_tracks (ld_tables l)) (pending_clip_track l) i"
    "om_find (pending_clip_effect l) i = Some e \<Longrightarrow> effectIsLoaded i e l" for e
    using assms(1) by (auto simp: dangling_reason_def Let_def split: if_splits)
  show ?thesis
  proof (cases "clip_source c")
    case (SrcAutomation m)
    then show ?thesis
      using r assms(2)
      by (cases "as_target_kind m")
        (auto simp: source_resolves_def automation_resolves_def absent_in_def find_defs effectIsLoaded_def
          split: option.splits)
  qed (use r assms(2) in \<open>auto simp: source_resolves_def absent_in_def split: option.splits\<close>)
qed

text \<open>A dropped clip changes nothing a reason looks at.\<close>

definition clips_frame :: "Loader \<Rightarrow> Loader \<Rightarrow> bool" where
  "clips_frame l l' \<longleftrightarrow> pendings l' = pendings l \<and>
     (\<exists>cs. ld_tables l' = (ld_tables l)\<lparr>clips := cs\<rparr> \<and> (\<forall>i c. om_find cs i = Some c \<longrightarrow> om_find (clips (ld_tables l)) i = Some c))"

lemma clips_frame_refl [simp]: "clips_frame l l"
  unfolding clips_frame_def by (intro conjI exI [of _ "clips (ld_tables l)"]) simp_all

lemma dangling_reason_frame: "clips_frame l l' \<Longrightarrow> dangling_reason l' i c = dangling_reason l i c"
  unfolding clips_frame_def pendings_eq
  by (auto simp: dangling_reason_def effectIsLoaded_def Let_def split: option.splits)

lemma drop_clip_step:
  "drop_clip (i, c) l = l \<and> dangling_reason l i c = '''' \<or>
   pendings (drop_clip (i, c) l) = pendings l \<and> ld_tables (drop_clip (i, c) l) = (ld_tables l)\<lparr>clips := om_erase i (clips (ld_tables l))\<rparr>"
  by (simp add: drop_clip_def Let_def pendings_def issue_def on_tables_def)

lemma dropDanglingClips_sound:
  "clips_frame l (dropDanglingClips l) \<and>
   (\<forall>i c. om_find (clips (ld_tables (dropDanglingClips l))) i = Some c \<longrightarrow> dangling_reason l i c = '''')"
proof -
  define G where "G = (\<lambda>(i, c) (l' :: Loader). om_find (clips (ld_tables l')) i = Some c \<longrightarrow> dangling_reason l i c = '''')"
  have fin: "clips_frame l (dropDanglingClips l) \<and> (\<forall>e \<in> set (om_entries (clips (ld_tables l))). G e (dropDanglingClips l))"
    unfolding dropDanglingClips_def
  proof (rule fold_establish)
    fix e :: "clip_id \<times> Clip" and l' assume l': "clips_frame l l'"
    obtain i c where e: "e = (i, c)" by fastforce
    obtain cs where cs: "pendings l' = pendings l" "ld_tables l' = (ld_tables l)\<lparr>clips := cs\<rparr>"
      "\<And>i c. om_find cs i = Some c \<Longrightarrow> om_find (clips (ld_tables l)) i = Some c"
      using l' by (auto simp: clips_frame_def)
    show "clips_frame l (drop_clip e l')"
      using drop_clip_step [of i c l']
    proof (elim disjE conjE)
      assume "pendings (drop_clip (i, c) l') = pendings l'"
        and "ld_tables (drop_clip (i, c) l') = (ld_tables l')\<lparr>clips := om_erase i (clips (ld_tables l'))\<rparr>"
      then show ?thesis
        unfolding clips_frame_def e by (intro conjI exI [of _ "om_erase i cs"]) (auto simp: cs split: if_splits)
    qed (use l' in \<open>simp add: e\<close>)
    show "G e (drop_clip e l')"
      using drop_clip_step [of i c l'] dangling_reason_frame [OF l'] by (auto simp: e G_def cs)
    show "G e1 (drop_clip e l')" if "G e1 l'" for e1
      using drop_clip_step [of i c l'] that by (cases e1) (auto simp: e G_def cs split: if_splits)
  qed simp
  then show ?thesis by (auto simp: clips_frame_def G_def)
qed

subsection \<open>Lane order\<close>

lemma renumber_other: "i \<notin> set is \<Longrightarrow> om_find (renumber n is ls) i = om_find ls i"
  by (induction n "is" ls rule: renumber.induct) auto

lemma renumber_nth:
  "distinct is \<Longrightarrow> k < length is \<Longrightarrow>
   om_find (renumber n is ls) (is ! k) = map_option (\<lambda>l. l\<lparr>lane_order := n + int k\<rparr>) (om_find ls (is ! k))"
proof (induction n "is" ls arbitrary: k rule: renumber.induct)
  case (2 n i "is" ls)
  show ?case
  proof (cases k)
    case 0
    then show ?thesis using 2(2) by (simp add: renumber_other)
  next
    case (Suc m)
    then have "is ! m \<noteq> i" using 2(2,3) by auto
    then show ?thesis using 2(1) [of m] 2(2,3) Suc by (simp add: algebra_simps)
  qed
qed simp

lemma fixLaneOrder_sound:
  "\<exists>ls. ld_tables (fixLaneOrder l) = (ld_tables l)\<lparr>lanes := ls\<rparr> \<and>
     (\<forall>i. map_option (\<lambda>n. n\<lparr>lane_order := 0\<rparr>) (om_find ls i) =
        map_option (\<lambda>n. n\<lparr>lane_order := 0\<rparr>) (om_find (lanes (ld_tables l)) i)) \<and>
     (\<forall>i j n m. om_find ls i = Some n \<longrightarrow> om_find ls j = Some m \<longrightarrow> lane_order n = lane_order m \<longrightarrow> i = j)"
proof -
  define ls where "ls = lanes (ld_tables l)"
  define ordered where "ordered = map snd (sort_key fst (map (\<lambda>(i, lane). (lane_order lane, i)) (om_entries ls)))"
  have map: "map snd (map (\<lambda>(i, lane). (lane_order lane, i)) (om_entries ls)) = om_keys ls"
    by (simp add: om_keys_def split_beta comp_def)
  have "mset ordered = mset (om_keys ls)"
    unfolding ordered_def map [symmetric] by (simp only: mset_map mset_sort)
  then have set: "set ordered = set (om_keys ls)" and "distinct ordered"
    by (metis mset_eq_setD, metis mset_eq_imp_distinct_iff om_keys_distinct)
  define ls' where "ls' = renumber 0 ordered ls"
  have find: "om_find ls' i = (if om_find ls i = None then None else map_option (\<lambda>n. n\<lparr>lane_order := int k\<rparr>) (om_find ls i))"
    if "k < length ordered" "ordered ! k = i" for i k
    using renumber_nth [OF \<open>distinct ordered\<close> that(1), of 0 ls] that by (simp add: ls'_def)
  have index: "\<exists>k < length ordered. ordered ! k = i" if "om_find ls i \<noteq> None" for i
    using that set by (simp add: in_set_conv_nth [symmetric])
  have none: "om_find ls' i = None" if "om_find ls i = None" for i
    using that set by (simp add: ls'_def renumber_other)
  show ?thesis
  proof (intro exI [of _ ls'] conjI allI impI)
    show "ld_tables (fixLaneOrder l) = (ld_tables l)\<lparr>lanes := ls'\<rparr>"
      by (simp add: fixLaneOrder_def Let_def ls'_def ordered_def ls_def)
    show "map_option (\<lambda>n. n\<lparr>lane_order := 0\<rparr>) (om_find ls' i) = map_option (\<lambda>n. n\<lparr>lane_order := 0\<rparr>) (om_find (lanes (ld_tables l)) i)" for i
    proof (cases "om_find ls i")
      case None
      then show ?thesis using none by (simp add: ls_def)
    next
      case (Some n)
      then obtain k where "k < length ordered" "ordered ! k = i" using index by blast
      then show ?thesis using find Some by (simp add: ls_def)
    qed
    show "i = j" if i: "om_find ls' i = Some n" and j: "om_find ls' j = Some m" and eq: "lane_order n = lane_order m" for i j n m
    proof -
      have "om_find ls i \<noteq> None" "om_find ls j \<noteq> None" using none i j by fastforce+
      then obtain a b where a: "a < length ordered" "ordered ! a = i" and b: "b < length ordered" "ordered ! b = j"
        using index by blast
      have "lane_order n = int a" "lane_order m = int b"
        using find [OF a] find [OF b] i j by (auto split: if_splits)
      then show ?thesis using eq a b by simp
    qed
  qed
qed

subsection \<open>All phases\<close>

definition references_resolve :: "('a Tables_scheme) \<Rightarrow> bool" where
  "references_resolve p \<longleftrightarrow>
     mixer_resolved p \<and>
     (\<forall>i n. om_find (instruments p) i = Some n \<longrightarrow> inst_id n = i \<and> routed p n) \<and>
     (\<forall>i pat. om_find (patterns p) i = Some pat \<longrightarrow> pat_id pat = i \<and> sequences_live p pat) \<and>
     lanes_ok p \<and> (\<forall>i n. om_find (lanes p) i = Some n \<longrightarrow> lane_id n = i) \<and>
     (\<forall>i c. om_find (clips p) i = Some c \<longrightarrow> clip_id c = i \<and> 0 < clip_length c \<and>
        om_find (lanes p) (clip_lane c) \<noteq> None \<and> source_resolves p (clip_source c))"

lemma resolveReferences_resolve:
  assumes inv: "read_inv T C l" and fresh: "fst (mintId clock p) \<notin> T"
  shows "references_resolve (ld_tables (resolveReferences clock p l))"
proof -
  define l1 where "l1 = chooseMaster clock p l"
  define l2 where "l2 = fold resolve_output (om_keys (mixer_tracks (ld_tables l1))) l1"
  define l3 where "l3 = breakMixerCycles l2"
  define l4 where "l4 = fold resolve_routing (om_keys (instruments (ld_tables l3))) l3"
  define l5 where "l5 = fold resolve_group (om_keys (lanes (ld_tables l4))) l4"
  define l6 where "l6 = fold drop_orphans (om_keys (patterns (ld_tables l5))) l5"
  define l7 where "l7 = dropDanglingClips l6"
  define t where "t = ld_tables (fixLaneOrder l7)"
  have c1: "master_chosen l1" "entities_kept l l1"
    using chooseMaster_chosen [OF inv fresh] by (simp_all add: l1_def)
  have c2: "outputs_resolved l2" "tracks_frame l1 l2"
    using resolve_outputs [OF c1(1)] by (simp_all add: l2_def)
  have c3: "mixer_resolved (ld_tables l3)" "tracks_frame l2 l3"
    using breakMixerCycles_resolved [OF c2(1)] by (simp_all add: l3_def)
  have kept: "entities_kept l l3"
    using entities_kept_trans [OF entities_kept_trans [OF c1(2) tracks_frame_kept [OF c2(2)]] tracks_frame_kept [OF c3(2)]] .
  have "om_find (mixer_tracks (ld_tables l3)) (master (ld_tables l3)) \<noteq> None"
    using c3(1) by (simp add: mixer_resolved_def)
  from resolve_routings [OF this] obtain ins where c4: "pendings l4 = pendings l3"
    "ld_tables l4 = (ld_tables l3)\<lparr>instruments := ins\<rparr>" "same_ids inst_id (instruments (ld_tables l3)) ins"
    "\<And>i n. om_find ins i = Some n \<Longrightarrow> routed (ld_tables l3) n"
    unfolding l4_def by blast
  have lanes0: "lanes (ld_tables l4) = lanes (ld_tables l)" using kept by (simp add: c4(2) entities_kept_def)
  have "grouped (lanes (ld_tables l4))"
    using inv by (simp add: lanes0 grouped_def read_inv_def lanes_read_def)
  from resolve_groups [OF this] obtain ls where c5: "pendings l5 = pendings l4"
    "ld_tables l5 = (ld_tables l4)\<lparr>lanes := ls\<rparr>" "same_ids lane_id (lanes (ld_tables l)) ls" "grouped ls"
    unfolding l5_def lanes0 by blast
  define live where "live = (\<lambda>i (s :: note_sequence). om_find ins i \<noteq> None)"
  define ps where "ps = om_map (\<lambda>p q. q\<lparr>pat_sequences := om_filter live (pat_sequences q)\<rparr>) (patterns (ld_tables l))"
  have c6: "pendings l6 = pendings l5" "ld_tables l6 = (ld_tables l5)\<lparr>patterns := ps\<rparr>"
    using drop_all_orphans [of l5] kept
    by (simp_all add: l6_def ps_def live_def c5(2) c4(2) entities_kept_def)
  obtain cs where c7: "pendings l7 = pendings l6" "ld_tables l7 = (ld_tables l6)\<lparr>clips := cs\<rparr>"
    "\<And>i c. om_find cs i = Some c \<Longrightarrow> om_find (clips (ld_tables l6)) i = Some c \<and> dangling_reason l6 i c = ''''"
    using dropDanglingClips_sound [of l6] by (auto simp: l7_def clips_frame_def)
  have l7: "lanes (ld_tables l7) = ls" by (simp add: c7(2) c6(2) c5(2))
  obtain ls' where c8: "t = (ld_tables l7)\<lparr>lanes := ls'\<rparr>"
    "\<And>i. map_option (\<lambda>n. n\<lparr>lane_order := 0\<rparr>) (om_find ls' i) = map_option (\<lambda>n. n\<lparr>lane_order := 0\<rparr>) (om_find ls i)"
    "\<And>i j n m. om_find ls' i = Some n \<Longrightarrow> om_find ls' j = Some m \<Longrightarrow> lane_order n = lane_order m \<Longrightarrow> i = j"
    using fixLaneOrder_sound [of l7] unfolding t_def l7 by blast
  have lane: "\<exists>n0. om_find ls i = Some n0 \<and> lane_id n0 = lane_id n \<and> lane_group_id n0 = lane_group_id n"
    if "om_find ls' i = Some n" for i n
  proof -
    have "map_option (\<lambda>n. n\<lparr>lane_order := 0\<rparr>) (om_find ls i) = Some (n\<lparr>lane_order := 0\<rparr>)"
      using c8(2) [of i] that by simp
    then obtain n0 where "om_find ls i = Some n0" "n0\<lparr>lane_order := 0\<rparr> = n\<lparr>lane_order := 0\<rparr>" by auto
    then show ?thesis by (metis ArrangementLane.select_convs ArrangementLane.surjective ArrangementLane.update_convs(5))
  qed
  have lane_keys: "om_find ls' i = None \<longleftrightarrow> om_find ls i = None" for i
    using c8(2) [of i] by (cases "om_find ls' i"; cases "om_find ls i") simp_all
  have tabs: "instruments t = ins" "patterns t = ps" "lanes t = ls'" "clips t = cs"
    "mixer_tracks t = mixer_tracks (ld_tables l3)" "master t = master (ld_tables l3)"
    by (simp_all add: c8(1) c7(2) c6(2) c5(2) c4(2))
  have pend: "pendings l6 = pendings l"
    using kept by (simp add: c6(1) c5(1) c4(1) entities_kept_def)
  have clip: "clip_id c = i \<and> 0 < clip_length c \<and> om_find (lanes t) (clip_lane c) \<noteq> None \<and> source_resolves t (clip_source c)"
    if c: "om_find cs i = Some c" for i c
  proof -
    have c0: "om_find (clips (ld_tables l)) i = Some c" and reason: "dangling_reason l6 i c = ''''"
      using c7(3) [OF c] kept by (simp_all add: c6(2) c5(2) c4(2) entities_kept_def)
    have "clip_id c = i \<and> 0 < clip_length c" and noted: "source_noted l i (clip_source c)"
      using inv c0 by (simp_all add: read_inv_def clips_read_def)
    have "source_noted l6 i (clip_source c)"
      using noted source_noted_cong [of l6 i l "clip_source c"] pend by (simp add: pendings_eq)
    then have "om_find (lanes (ld_tables l6)) (clip_lane c) \<noteq> None" "source_resolves (ld_tables l6) (clip_source c)"
      using no_reason [OF reason] by simp_all
    moreover have "source_resolves t s = source_resolves (ld_tables l6) s" for s
      by (simp add: source_resolves_def automation_resolves_def find_defs tabs c6(2) c5(2) c4(2) split: ClipSource.split TargetKind.split)
    moreover have "lanes (ld_tables l6) = ls" by (simp add: c6(2) c5(2))
    ultimately show ?thesis
      using \<open>clip_id c = i \<and> 0 < clip_length c\<close> lane_keys by (simp add: tabs)
  qed
  have pattern: "pat_id q = i \<and> sequences_live t q" if q: "om_find ps i = Some q" for i q
  proof -
    obtain q0 where q0: "om_find (patterns (ld_tables l)) i = Some q0"
      "q = q0\<lparr>pat_sequences := om_filter live (pat_sequences q0)\<rparr>"
      using q by (auto simp: ps_def)
    have "pat_id q0 = i" "\<And>j s. om_find (pat_sequences q0) j = Some s \<Longrightarrow> sequence_read s"
      using inv q0(1) by (simp_all add: read_inv_def patterns_read_def)
    then show ?thesis by (auto simp: q0(2) sequences_live_def live_def tabs split: if_splits option.splits)
  qed
  have instrument: "inst_id n = i \<and> routed t n" if n: "om_find ins i = Some n" for i n
  proof -
    have "inst_id n = i"
      by (rule same_ids_find [OF c4(3) n]) (use inv kept in \<open>simp add: read_inv_def instruments_read_def entities_kept_def\<close>)
    then show ?thesis using c4(4) [OF n] by (simp add: routed_def tabs)
  qed
  have "lanes_ok t"
    unfolding lanes_ok_def tabs
  proof (intro conjI allI impI)
    show "i = j" if "om_find ls' i = Some n" "om_find ls' j = Some m" "lane_order n = lane_order m" for i j n m
      using c8(3) [OF that] .
    show "g \<noteq> i" "om_find ls' g \<noteq> None" if "om_find ls' i = Some n" "lane_group_id n = Some g" for i n g
      using lane [OF that(1)] that(2) c5(4) lane_keys unfolding grouped_def by (metis, metis)
  qed
  moreover have "lane_id n = i" if "om_find ls' i = Some n" for i n
  proof -
    obtain n0 where n0: "om_find ls i = Some n0" "lane_id n0 = lane_id n" using lane [OF \<open>om_find ls' i = Some n\<close>] by blast
    obtain n1 where "om_find (lanes (ld_tables l)) i = Some n1" "lane_id n1 = lane_id n0" by (rule same_ids_find [OF c5(3) n0(1)])
    then show ?thesis using n0(2) inv by (simp add: read_inv_def lanes_read_def)
  qed
  moreover have "mixer_resolved t" using c3(1) by (simp add: mixer_resolved_def tabs)
  ultimately have "references_resolve t"
    using instrument pattern clip by (simp add: references_resolve_def tabs)
  then show ?thesis
    by (simp add: t_def l7_def l6_def l5_def l4_def l3_def l2_def l1_def resolveReferences_def Let_def)
qed

end
