(* ===== verification/Loader_Ticks.thy ===== *)
theory Loader_Ticks
  imports Loader_Inv
begin

text \<open>
  The resolution of the file is judged where its meta section is read and nowhere else.
\<close>

definition judged :: "bool \<Rightarrow> Loader \<Rightarrow> bool" where
  "judged b l \<longleftrightarrow> ld_ticks_ok l = b"

lemma judged_steps [simp]:
  "judged b (issue s m l) = judged b l" "judged b (on_tables f l) = judged b l"
  "judged b (l\<lparr>pending_track_output := po\<rparr>) = judged b l" "judged b (l\<lparr>pending_lane_group := pg\<rparr>) = judged b l"
  "judged b (add_pending_routes i rs l) = judged b l" "judged b (l\<lparr>ld_dropped := d\<rparr>) = judged b l"
  "judged b (note_pattern c p l) = judged b l" "judged b (note_instrument c n l) = judged b l"
  "judged b (note_track c t l) = judged b l" "judged b (note_effect c e l) = judged b l"
  by (simp_all add: judged_def issue_def on_tables_def add_pending_routes_def note_pattern_def note_instrument_def
      note_track_def note_effect_def)

lemma judged_reports: "reports l l' \<Longrightarrow> judged b l' = judged b l"
  by (simp add: judged_def reports_fields)

lemmas judged_reader = reader_reports [THEN judged_reports]

lemma readTransport_judged: "judged b l \<Longrightarrow> wp readTransport (\<lambda>_. judged b) l"
  unfolding readTransport_def read_transport_fields_def read_signature_def read_loop_def
  by (intro wp_intro) simp_all

lemma read_track_judged: "judged b l \<Longrightarrow> wp (read_track i) (\<lambda>_. judged b) l"
  unfolding read_track_def by (intro wp_intro) (auto simp: judged_reader)

lemma read_instrument_judged: "judged b l \<Longrightarrow> wp (do { _ \<leftarrow> read_instrument order i; give True }) (\<lambda>_. judged b) l"
proof -
  assume l: "judged b l"
  have plugin: "judged b l1 \<Longrightarrow> wp (read_plugin owner) (\<lambda>_. judged b) l1" for owner l1
    unfolding read_plugin_def by (intro wp_intro) simp_all
  have defaults: "judged b l1 \<Longrightarrow> wp (read_note_defaults owner) (\<lambda>_. judged b) l1" for owner l1
    unfolding read_note_defaults_def by (intro wp_intro) (auto simp: judged_reader)
  show ?thesis
    unfolding read_instrument_def read_channel_settings_def
    by (intro wp_intro wp_mono [OF plugin] wp_mono [OF defaults]) (auto simp: judged_reader l)
qed

lemma read_pattern_judged:
  assumes "judged b l"
  shows "wp (read_pattern p) (\<lambda>_. judged b) l"
proof -
  have step: "judged b (fst (snd (read_sequence_entry p name k v s)))" if "judged b (fst s)" for name k v s
    using that by (cases s) (auto simp: read_sequence_entry_def judged_reports split: option.split Value.split prod.split
        dest!: readSequence_post)
  have seqs: "wp (read_sequences p name) (\<lambda>_. judged b) l1" if l1: "judged b l1" for name l1
    unfolding wp_def
  proof
    fix ms
    have "judged b (fst (snd (each_entry (read_sequence_entry p name) ms (l1, om_empty))))"
      by (rule each_entry_inv [where I = "\<lambda>s. judged b (fst s)"], erule step) (simp add: l1)
    then show "case run_state (read_sequences p name) (ms, l1) of (a, (ms', l')) \<Rightarrow> judged b l'"
      by (auto simp: read_sequences_def split: prod.splits)
  qed
  show ?thesis
    unfolding read_pattern_def read_signature_def
    by (intro wp_intro wp_mono [OF seqs]) (auto simp: assms)
qed

lemma read_lane_judged: "judged b l \<Longrightarrow> wp (read_lane i) (\<lambda>_. judged b) l"
  unfolding read_lane_def by (intro wp_intro) simp_all

lemma read_clip_judged: "judged b l \<Longrightarrow> wp (read_clip key i) (\<lambda>_. judged b) l"
  unfolding read_clip_def read_known_clip_def read_transforms_def read_source_def read_pattern_source_def
    read_audio_source_def read_automation_source_def read_target_def read_effect_target_def
  by (intro wp_intro) (auto simp: judged_reader)

lemma judged_entity:
  assumes "judged b l" and "\<And>i l. judged b l \<Longrightarrow> wp (read i) (\<lambda>_. judged b) l"
  shows "judged b (snd (snd (read_entity k noun read d key entry l)))"
proof -
  have "case read_entity k noun read d key entry l of (a, entry', l') \<Rightarrow> (\<lambda>_. judged b) a l'"
    by (rule read_entity_post) (use assms in simp_all)
  then show ?thesis by (simp split: prod.splits)
qed

lemma judged_map:
  assumes "judged b l" and "\<And>i l. judged b l \<Longrightarrow> wp (read i) (\<lambda>_. judged b) l"
  shows "judged b (snd (read_map key (\<lambda>key entry l. snd (read_entity k noun read () key entry l)) (ms, l)))"
  by (rule read_map_inv [where I = "judged b", OF judged_entity assms(1)]) (simp_all add: assms(2))

lemma sections_judged:
  assumes "judged b l"
  shows "judged b (snd (snd (run_state readMixerTracks (ms, l))))" "judged b (snd (snd (run_state readInstruments (ms, l))))"
    "judged b (snd (snd (run_state readPatterns (ms, l))))" "judged b (snd (snd (run_state readLanes (ms, l))))"
    "judged b (snd (snd (run_state readClips (ms, l))))"
proof -
  have tracks: "judged b (snd (read_map ''mixer_tracks''
      (\<lambda>key entry l. snd (read_entity KMixerTrack ''mixer track'' read_track () key entry l)) (ms, l1)))" if "judged b l1" for l1
    by (rule judged_map [OF that]) (rule read_track_judged)
  show "judged b (snd (snd (run_state readMixerTracks (ms, l))))"
    using assms tracks
    by (auto simp: readMixerTracks_def remaining_def tell_def split: option.split Value.split prod.split)
  show "judged b (snd (snd (run_state readPatterns (ms, l))))" "judged b (snd (snd (run_state readLanes (ms, l))))"
    using judged_map [OF assms read_pattern_judged] judged_map [OF assms read_lane_judged]
    by (simp_all add: readPatterns_def readLanes_def)
  have ins: "judged b (fst (snd (read_instrument_entry k v s)))" if "judged b (fst s)" for k v s
    using judged_entity [of b "fst s" "\<lambda>i. do { _ \<leftarrow> read_instrument (snd s) i; give True }" KInstrument "''instrument''" False k v,
        OF that read_instrument_judged]
    by (cases s) (auto simp: read_instrument_entry_def split: prod.splits)
  have "judged b (fst (snd (read_map ''instruments'' read_instrument_entry (ms, (l, 0)))))"
    by (rule read_map_inv [where I = "\<lambda>s. judged b (fst s)"], erule ins) (simp add: assms)
  then show "judged b (snd (snd (run_state readInstruments (ms, l))))"
    by (auto simp: readInstruments_def split: prod.splits)
  have clip: "judged b (fst (snd (read_clip_entry k v s)))" if "judged b (fst s)" for k v s
    using judged_entity [of b "fst s" "read_clip k" KClip "''clip''" True k v, OF that read_clip_judged]
    by (cases s) (auto simp: read_clip_entry_def split: prod.splits)
  have "judged b (fst (snd (read_map ''clips'' read_clip_entry (ms, (l, [])))))"
    by (rule read_map_inv [where I = "\<lambda>s. judged b (fst s)"], erule clip) (simp add: assms)
  then show "judged b (snd (snd (run_state readClips (ms, l))))"
    by (auto simp: readClips_def split: prod.splits)
qed

subsection \<open>The meta section\<close>

definition document_ticks :: "object \<Rightarrow> int" where
  "document_ticks doc =
     (case map_of doc ''meta'' of
        Some (JObject ms) \<Rightarrow> (case map_of ms ''ticks_per_quarter'' of None \<Rightarrow> TicksPerQuarter | Some v \<Rightarrow> int_or TicksPerQuarter v)
      | _ \<Rightarrow> TicksPerQuarter)"

lemma run_takeValue: "run_state (takeValue key) (ms, l) = (fst (take_field key ms), (snd (take_field key ms), l))"
  by (simp add: takeValue_def split_beta Let_def)

lemma take_field_map_of:
  "fst (take_field key ms) = (case map_of ms key of None \<Rightarrow> JNull | Some v \<Rightarrow> v)"
  "map_of (snd (take_field key ms)) k = (if k = key then None else map_of ms k)"
  by (auto simp: take_field_def split: option.split)

lemma int_or_null [simp]: "int_or d JNull = d"
  by (simp add: int_or_def)

lemma read_meta_fields_ticks:
  "ld_ticks_ok (snd (snd (run_state read_meta_fields (ms, l)))) =
     (ld_ticks_ok l \<and> (case map_of ms ''ticks_per_quarter'' of None \<Rightarrow> TicksPerQuarter | Some v \<Rightarrow> int_or TicksPerQuarter v) = TicksPerQuarter)"
  by (auto simp: read_meta_fields_def takeString_def takeInt_def run_takeValue take_field_map_of tell_def issue_def
      split: option.splits)

lemma readMeta_ticks:
  "ld_ticks_ok (snd (snd (run_state readMeta (ms, l)))) = (ld_ticks_ok l \<and> document_ticks ms = TicksPerQuarter)"
proof (cases "\<exists>inner. map_of ms ''meta'' = Some (JObject inner)")
  case True
  then obtain inner where i: "map_of ms ''meta'' = Some (JObject inner)" by blast
  obtain m left l1 where r: "run_state read_meta_fields (inner, l) = (m, (left, l1))" by (metis prod.exhaust)
  have "ld_ticks_ok (snd (snd (run_state readMeta (ms, l)))) = ld_ticks_ok l1"
    by (simp add: readMeta_def inside_def take_field_def i r tell_def on_tables_def)
  then show ?thesis using read_meta_fields_ticks [of inner l] by (simp add: r document_ticks_def i)
next
  case False
  have "ld_ticks_ok (snd (snd (run_state (inside True ''meta'' default_meta read_meta_fields) (ms, l)))) = ld_ticks_ok l"
    using False by (auto simp: inside_def take_field_def split: option.split Value.split)
  moreover have "document_ticks ms = TicksPerQuarter"
    using False by (auto simp: document_ticks_def split: option.split Value.split)
  ultimately show ?thesis by (auto simp: readMeta_def tell_def on_tables_def split: prod.splits)
qed

lemma note_unknown_reports': "judged b (note_unknown ms l) = judged b l"
  by (rule judged_reports) (rule note_unknown_reports)

lemma read_project_ticks:
  "ld_ticks_ok (snd (snd (run_state read_project (ms, l)))) = (ld_ticks_ok l \<and> document_ticks ms = TicksPerQuarter)"
proof -
  define l0 where "l0 = note_unknown ms l"
  obtain u1 m1 l1 where r1: "run_state readMeta (ms, l0) = (u1, (m1, l1))" by (metis prod.exhaust)
  obtain u2 m2 l2 where r2: "run_state readTransport (m1, l1) = (u2, (m2, l2))" by (metis prod.exhaust)
  obtain u3 m3 l3 where r3: "run_state readMixerTracks (m2, l2) = (u3, (m3, l3))" by (metis prod.exhaust)
  obtain u4 m4 l4 where r4: "run_state readInstruments (m3, l3) = (u4, (m4, l4))" by (metis prod.exhaust)
  obtain u5 m5 l5 where r5: "run_state readPatterns (m4, l4) = (u5, (m5, l5))" by (metis prod.exhaust)
  obtain u6 m6 l6 where r6: "run_state readLanes (m5, l5) = (u6, (m6, l6))" by (metis prod.exhaust)
  obtain u7 m7 l7 where r7: "run_state readClips (m6, l6) = (u7, (m7, l7))" by (metis prod.exhaust)
  define b where "b = (ld_ticks_ok l \<and> document_ticks ms = TicksPerQuarter)"
  have "judged b l1"
    using readMeta_ticks [of ms l0] note_unknown_reports' [of "ld_ticks_ok l" ms l]
    by (simp add: r1 l0_def [symmetric] judged_def b_def)
  then have "judged b l2" using wpD [OF readTransport_judged r2] by blast
  then have "judged b l3" using sections_judged(1) [of b l2 m2] by (simp add: r3)
  then have "judged b l4" using sections_judged(2) [of b l3 m3] by (simp add: r4)
  then have "judged b l5" using sections_judged(3) [of b l4 m4] by (simp add: r5)
  then have "judged b l6" using sections_judged(4) [of b l5 m5] by (simp add: r6)
  then have "judged b l7" using sections_judged(5) [of b l6 m6] by (simp add: r7)
  then show ?thesis
    by (simp add: read_project_def remaining_def tell_def r1 r2 r3 r4 r5 r6 r7 l0_def [symmetric] judged_def b_def)
qed

subsection \<open>The resolution of the references\<close>

lemma judged_fold: "(\<And>x l. judged b (f x l) = judged b l) \<Longrightarrow> judged b (fold f xs l) = judged b l"
  by (induction xs arbitrary: l) simp_all

lemma judged_output_to_master [simp]: "judged b (output_to_master c i l) = judged b l"
  by (simp add: output_to_master_def)

lemma judged_resolution [simp]:
  "judged b (resolve_output i l) = judged b l" "judged b (break_cycle i l) = judged b l"
  "judged b (resolve_routing n l) = judged b l" "judged b (resolve_group g l) = judged b l"
  "judged b (drop_orphans p l) = judged b l" "judged b (drop_clip e l) = judged b l"
proof -
  show "judged b (resolve_output i l) = judged b l"
    by (auto simp: resolve_output_def Let_def reference_reports [THEN judged_reports] split: option.split prod.split)
  show "judged b (break_cycle i l) = judged b l" by (simp add: break_cycle_def Let_def)
  show "judged b (resolve_routing n l) = judged b l"
    by (simp add: resolve_routing_def Let_def judged_fold split: option.split)
  show "judged b (resolve_group g l) = judged b l" by (simp add: resolve_group_def split: option.split)
  show "judged b (drop_orphans p l) = judged b l"
    by (simp add: drop_orphans_def Let_def judged_fold split_beta split: option.split)
  show "judged b (drop_clip e l) = judged b l" by (simp add: drop_clip_def Let_def)
qed

lemma judged_chooseMaster [simp]: "judged b (chooseMaster clock p l) = judged b l"
  by (simp add: chooseMaster_def Let_def judged_fold split: list.split)

lemma resolveReferences_ticks [simp]: "ld_ticks_ok (resolveReferences clock p l) = ld_ticks_ok l"
proof -
  have "judged b (resolveReferences clock p l) = judged b l" for b
    by (simp add: resolveReferences_def Let_def fixLaneOrder_def dropDanglingClips_def breakMixerCycles_def judged_fold)
  then show ?thesis by (simp add: judged_def)
qed

end
