(* ===== verification/Loader_Properties.thy ===== *)
theory Loader_Properties
  imports Loader_Sound Loader_Ticks Sample
begin

text \<open>
  What a load promises: which documents it refuses, and what holds of a project that was loaded.
\<close>

subsection \<open>What the file may still get wrong\<close>

text \<open>
  The conditions of \<open>project_ok\<close> that the loader does not establish; the checker then reports each
  breach as an internal error.
\<close>

definition tidy :: "('a Tables_scheme) \<Rightarrow> bool" where
  "tidy p \<longleftrightarrow>
     (\<forall>i n. om_find (instruments p) i = Some n \<longrightarrow> valid_id i \<and> distinct (map route_port (inst_routing n))) \<and>
     (\<forall>i pat. om_find (patterns p) i = Some pat \<longrightarrow> valid_id i \<and>
        (\<forall>j s. om_find (pat_sequences pat) j = Some s \<longrightarrow> s \<noteq> [] \<and> (\<forall>n \<in> set s. note_length n \<le> int64_max - note_start n))) \<and>
     (\<forall>i n. om_find (lanes p) i = Some n \<longrightarrow> valid_id i) \<and>
     (\<forall>i c. om_find (clips p) i = Some c \<longrightarrow> valid_id i \<and> 0 \<le> clip_start c \<and>
        (case clip_source c of SrcAudio a \<Rightarrow> 0 \<le> au_source_offset a \<and> 0 \<le> au_source_length a | _ \<Rightarrow> True)) \<and>
     (\<forall>i t. om_find (mixer_tracks p) i = Some t \<longrightarrow> valid_id i \<and> effects_ok (track_effects t))"

lemma sequence_ok_read:
  "sequence_read s \<Longrightarrow> sequence_ok s \<longleftrightarrow> s \<noteq> [] \<and> (\<forall>n \<in> set s. note_length n \<le> int64_max - note_start n)"
  by (auto simp: sequence_ok_def sequence_read_def note_read_def isValidNote_def)

lemma resolved_ok:
  assumes "references_resolve p"
  shows "project_ok p \<longleftrightarrow> tidy p"
proof -
  note a = assms [unfolded references_resolve_def]
  have m: "mixer_resolved p" using a by blast
  have ins: "instruments_ok p \<longleftrightarrow> (\<forall>i n. om_find (instruments p) i = Some n \<longrightarrow> distinct (map route_port (inst_routing n)))"
    using a unfolding instruments_ok_def routed_def by blast
  have pat: "patterns_ok p \<longleftrightarrow> (\<forall>i pat. om_find (patterns p) i = Some pat \<longrightarrow>
      (\<forall>j s. om_find (pat_sequences pat) j = Some s \<longrightarrow> s \<noteq> [] \<and> (\<forall>n \<in> set s. note_length n \<le> int64_max - note_start n)))"
  proof -
    have "om_find (instruments p) j \<noteq> None \<and> sequence_read s"
      if "om_find (patterns p) i = Some pat" "om_find (pat_sequences pat) j = Some s" for i pat j s
      using a that unfolding sequences_live_def by blast
    then show ?thesis unfolding patterns_ok_def using sequence_ok_read by blast
  qed
  have clip: "clip_ok p c \<longleftrightarrow> 0 \<le> clip_start c \<and>
      (case clip_source c of SrcAudio a \<Rightarrow> 0 \<le> au_source_offset a \<and> 0 \<le> au_source_length a | _ \<Rightarrow> True)"
    if "om_find (clips p) i = Some c" for i c
  proof -
    have "0 < clip_length c" "om_find (lanes p) (clip_lane c) \<noteq> None" "source_resolves p (clip_source c)"
      using a that by blast+
    then show ?thesis by (cases "clip_source c") (auto simp: clip_ok_def source_resolves_def)
  qed
  have mixer: "mixer_ok p \<longleftrightarrow> (\<forall>i t. om_find (mixer_tracks p) i = Some t \<longrightarrow> effects_ok (track_effects t))"
  proof -
    obtain mt where mt: "om_find (mixer_tracks p) (master p) = Some mt" using m by (auto simp: mixer_resolved_def)
    have "\<exists>!i. \<exists>t. om_find (mixer_tracks p) i = Some t \<and> track_output t = None"
      using m mt unfolding mixer_resolved_def by (intro ex1I [of _ "master p"]) blast+
    then show ?thesis using m unfolding mixer_ok_def mixer_resolved_def by blast
  qed
  have rooted: "rooted p"
    using m unfolding rooted_def mixer_resolved_def by (metis option.exhaust)
  have keyed: "keyed p \<longleftrightarrow> (\<forall>i e. om_find (instruments p) i = Some e \<longrightarrow> valid_id i) \<and>
      (\<forall>i e. om_find (patterns p) i = Some e \<longrightarrow> valid_id i) \<and> (\<forall>i e. om_find (lanes p) i = Some e \<longrightarrow> valid_id i) \<and>
      (\<forall>i e. om_find (clips p) i = Some e \<longrightarrow> valid_id i) \<and> (\<forall>i e. om_find (mixer_tracks p) i = Some e \<longrightarrow> valid_id i)"
  proof -
    have ids: "om_find (instruments p) i = Some e1 \<Longrightarrow> (inst_id e1 = i) = True" "om_find (patterns p) j = Some e2 \<Longrightarrow> (pat_id e2 = j) = True"
      "om_find (lanes p) k = Some e3 \<Longrightarrow> (lane_id e3 = k) = True" "om_find (clips p) n = Some e4 \<Longrightarrow> (clip_id e4 = n) = True"
      "om_find (mixer_tracks p) t = Some e5 \<Longrightarrow> (track_id e5 = t) = True" for i j k n t e1 e2 e3 e4 e5
      using a m by (simp_all add: mixer_resolved_def)
    show ?thesis by (simp add: keyed_def ids)
  qed
  have lanes: "lanes_ok p" using a by blast
  have clips: "clips_ok p \<longleftrightarrow> (\<forall>i c. om_find (clips p) i = Some c \<longrightarrow> 0 \<le> clip_start c \<and>
      (case clip_source c of SrcAudio a \<Rightarrow> 0 \<le> au_source_offset a \<and> 0 \<le> au_source_length a | _ \<Rightarrow> True))"
    unfolding clips_ok_def using clip by blast
  show ?thesis
    unfolding project_ok_def project_integrity_def tidy_def ins pat clips mixer keyed
    using rooted lanes by blast
qed

lemma references_resolve_adopt [simp]: "references_resolve (adopt t p) = references_resolve t"
  by (simp add: references_resolve_def mixer_resolved_def routed_def sequences_live_def lanes_ok_def source_resolves_def
      automation_resolves_def find_defs adopt_def cong: ClipSource.case_cong TargetKind.case_cong)

subsection \<open>The document\<close>

text \<open>The identifiers a section of the file names, in the order of its keys.\<close>

definition file_ids :: "entity_kind \<Rightarrow> string \<Rightarrow> string \<Rightarrow> 'k typed_id list" where
  "file_ids k key t = (case parse t of Some (Inr (JObject doc)) \<Rightarrow> section_ids k key doc | _ \<Rightarrow> [])"

lemma section_ids_cong: "map_of doc' key = map_of doc key \<Longrightarrow> section_ids k key doc' = section_ids k key doc"
  by (simp add: section_ids_def)

lemma accepted_some:
  assumes "accepted doc l = (Some (doc', l'), l'')"
  shows "reports l l'" and "k \<noteq> ''format'' \<Longrightarrow> k \<noteq> ''version'' \<Longrightarrow> map_of doc' k = map_of doc k"
proof -
  obtain tag doc1 where t1: "take_field ''format'' doc = (tag, doc1)" by fastforce
  obtain v doc2 where t2: "take_field ''version'' doc1 = (v, doc2)" by fastforce
  have "doc' = doc2 \<and> reports l l'"
    using assms by (auto simp: accepted_def t1 t2 Let_def split: if_splits Value.splits)
  then show "reports l l'" and "k \<noteq> ''format'' \<Longrightarrow> k \<noteq> ''version'' \<Longrightarrow> map_of doc' k = map_of doc k"
    using take_field_other [OF t1, of k] take_field_other [OF t2, of k] by auto
qed

lemma load_document_resolves:
  assumes "parsed_document t new_loader = (Some (doc, l), l0)" and "load_document clock staged doc l = (doc', l1)"
    and "distinct (file_ids KClip ''clips'' t :: clip_id list)"
    and "fst (mintId clock staged) \<notin> set (file_ids KMixerTrack ''mixer_tracks'' t :: track_id list)"
  shows "references_resolve (ld_tables l1)"
proof -
  obtain full where p: "parse t = Some (Inr (JObject full))" and acc: "accepted full new_loader = (Some (doc, l), l0)"
    using assms(1) by (auto simp: parsed_document_def split: option.splits sum.splits Value.splits)
  note acc' = accepted_some [OF acc]
  have ids: "section_ids k key doc = file_ids k key t" if "key \<noteq> ''format''" "key \<noteq> ''version''" for k key
    using section_ids_cong [OF acc'(2) [OF that]] by (simp add: file_ids_def p)
  obtain u doc2 l2 where run: "run_state read_project (doc, l) = (u, (doc2, l2))" by (metis prod.exhaust)
  have "\<exists>C. read_inv (set (file_ids KMixerTrack ''mixer_tracks'' t)) C l2"
    by (rule read_project_inv [OF acc'(1) _ _ run]) (use assms(3) in \<open>simp_all add: ids\<close>)
  then show ?thesis
    using assms(2) resolveReferences_resolve [OF _ assms(4)] by (auto simp: load_document_def run)
qed

subsection \<open>Refusals\<close>

text \<open>
  A document is refused when it is not a JSON object, carries another format tag, has no integer
  version or a newer one, or counts its ticks in another resolution; nothing else refuses it.
\<close>

definition loadable :: "string \<Rightarrow> bool" where
  "loadable t \<longleftrightarrow>
     (case parse t of
        Some (Inr (JObject doc)) \<Rightarrow>
          map_of doc ''format'' = Some (JString FormatTag) \<and>
          (case map_of doc ''version'' of Some (JInt v) \<Rightarrow> v \<le> FormatVersion | _ \<Rightarrow> False) \<and>
          document_ticks doc = TicksPerQuarter
      | _ \<Rightarrow> False)"

lemma string_or_tag: "string_or '''' v = FormatTag \<longleftrightarrow> v = JString FormatTag"
  by (cases v) (simp_all add: FormatTag_def)

lemma accepted_iff:
  "fst (accepted doc l) \<noteq> None \<longleftrightarrow> map_of doc ''format'' = Some (JString FormatTag) \<and>
     (case map_of doc ''version'' of Some (JInt v) \<Rightarrow> v \<le> FormatVersion | _ \<Rightarrow> False)"
proof -
  obtain tag doc1 where t1: "take_field ''format'' doc = (tag, doc1)" by fastforce
  obtain v doc2 where t2: "take_field ''version'' doc1 = (v, doc2)" by fastforce
  have tag: "tag = JString FormatTag \<longleftrightarrow> map_of doc ''format'' = Some (JString FormatTag)"
    using take_field_map_of(1) [of "''format''" doc] t1 by (auto split: option.splits)
  have v: "v = (case map_of doc ''version'' of None \<Rightarrow> JNull | Some w \<Rightarrow> w)"
    using take_field_map_of(1) [of "''version''" doc1] take_field_map_of(2) [of "''format''" doc "''version''"] t1 t2 by simp
  have "fst (accepted doc l) \<noteq> None \<longleftrightarrow> tag = JString FormatTag \<and> (case v of JInt n \<Rightarrow> n \<le> FormatVersion | _ \<Rightarrow> False)"
    by (cases v) (auto simp: accepted_def t1 t2 string_or_tag Let_def)
  then show ?thesis unfolding tag by (auto simp: v split: option.splits Value.splits)
qed

lemma fold_internal_ticks: "ld_ticks_ok (fold (\<lambda>v. load_error (g v)) vs l) = ld_ticks_ok l"
proof -
  have "judged b (fold (\<lambda>v. load_error (g v)) vs l) = judged b l" for b by (rule judged_fold) simp
  then show ?thesis by (simp add: judged_def)
qed

lemma accepted_ticks:
  assumes "accepted doc l = (Some (doc', l'), l'')"
  shows "document_ticks doc' = document_ticks doc" "ld_ticks_ok l' = ld_ticks_ok l"
  using accepted_some [OF assms] judged_reports [of l l'] by (simp_all add: document_ticks_def judged_def)

lemma load_document_ticks:
  "load_document clock staged doc l = (doc', l') \<Longrightarrow> ld_ticks_ok l' = (ld_ticks_ok l \<and> document_ticks doc = TicksPerQuarter)"
  using read_project_ticks [of doc l] by (auto simp: load_document_def split: prod.splits)

lemma parsed_document_None: "\<forall>doc. parse t \<noteq> Some (Inr (JObject doc)) \<Longrightarrow> fst (parsed_document t l) = None"
  by (auto simp: parsed_document_def split: option.split sum.split Value.split)

lemma load_ok_iff: "lr_ok (fst (loadProjectJson clock staged t p r)) \<longleftrightarrow> loadable t"
proof (cases "\<exists>doc. parse t = Some (Inr (JObject doc))")
  case False
  then show ?thesis
    using parsed_document_None [of t new_loader]
    by (auto simp: loadProjectJson_def loadable_def split: prod.split option.split sum.split Value.split)
next
  case True
  then obtain doc where p: "parse t = Some (Inr (JObject doc))" by blast
  show ?thesis
  proof (cases "accepted doc new_loader")
    case (Pair x l0)
    show ?thesis
    proof (cases x)
      case None
      then show ?thesis
        using accepted_iff [of doc new_loader] Pair by (auto simp: loadProjectJson_def parsed_document_def p loadable_def)
    next
      case (Some y)
      obtain doc1 l where y: "y = (doc1, l)" by fastforce
      have acc: "accepted doc new_loader = (Some (doc1, l), l0)" using Pair Some y by simp
      obtain doc2 l1 where ld: "load_document clock staged doc1 l = (doc2, l1)" by fastforce
      have "ld_ticks_ok l1 \<longleftrightarrow> document_ticks doc = TicksPerQuarter"
        using load_document_ticks [OF ld] accepted_ticks [OF acc] by (simp add: new_loader_def)
      moreover have "loadable t \<longleftrightarrow> document_ticks doc = TicksPerQuarter"
        using accepted_iff [of doc new_loader] acc by (simp add: loadable_def p)
      ultimately show ?thesis
        by (simp add: loadProjectJson_def parsed_document_def p acc ld Let_def fold_internal_ticks)
    qed
  qed
qed

subsection \<open>Properties\<close>

lemma loadProjectJson_cases:
  assumes "loadProjectJson clock staged t p r = (report, p', r')"
  obtains "\<not> lr_ok report" and "p' = p" and "r' = r"
  | doc l l0 doc' l1 where "lr_ok report" and "parsed_document t new_loader = (Some (doc, l), l0)"
      and "load_document clock staged doc l = (doc', l1)" and "p' = adopt (ld_tables l1) p"
proof (cases "parsed_document t new_loader")
  case (Pair x l0)
  show ?thesis
  proof (cases x)
    case None
    then show ?thesis using assms Pair that(1) by (auto simp: loadProjectJson_def)
  next
    case (Some y)
    obtain doc l where y: "y = (doc, l)" by fastforce
    obtain doc' l1 where ld: "load_document clock staged doc l = (doc', l1)" by fastforce
    show ?thesis
      using assms that(1) that(2) [of doc l l0 doc' l1] Pair Some y ld
      by (auto simp: loadProjectJson_def Let_def split: if_splits)
  qed
qed



text \<open>Two tracks that feed each other and a clip that plays nothing.\<close>

definition backquoted :: "string \<Rightarrow> string" where
  "backquoted = map (\<lambda>c. if c = CHR 0x60 then CHR 0x22 else c)"

definition cyclic_text :: string where
  "cyclic_text = backquoted (
     ''{`format`:`onebeat.project`,`version`:1,`mixer_tracks`:{'' @
     ''`mix_00000000000000000000000001`:{`output_id`:`mix_00000000000000000000000002`},'' @
     ''`mix_00000000000000000000000002`:{`output_id`:`mix_00000000000000000000000001`}},`clips`:{'' @
     ''`clp_00000000000000000000000004`:{`length`:960,`lane_id`:`lan_00000000000000000000000003`}}}'')"

lemma cyclic_text_loads: "loadable cyclic_text"
  by code_simp

lemma cyclic_text_clips: "distinct (file_ids KClip ''clips'' cyclic_text :: clip_id list)"
  by code_simp

lemma cyclic_text_tracks:
  "fst (mintId 0 sample_project) \<notin> set (file_ids KMixerTrack ''mixer_tracks'' cyclic_text :: track_id list)"
  by code_simp


end
