(* ===== verification/File_System.thy ===== *)
theory File_System
  imports Json_Fields
begin

text \<open>
  The file system as the saving of a project sees it (\<open>std::filesystem\<close> and the POSIX calls of
  \<open>model/project_io.cpp\<close>): a tree of directories and files, each call a step that may fail as its
  environment says.  Every tree there ever was is kept, so that what a crash leaves behind is one of them.
\<close>

type_synonym path = "string list"

datatype node = Dir | File string bool

text \<open>A file has its bytes, and whether they have been flushed to the device.\<close>

type_synonym files = "(path, node) omap"

text \<open>
  What the environment decides of a call: whether it fails and with which text, which entries a removal
  had reached, how many bytes a copy had written, and the results of the successive writes.
\<close>

datatype write_result = Wrote nat | Interrupted | WriteFailed

record outcome =
  out_fails :: bool
  out_text :: string
  out_removed :: "path \<Rightarrow> bool"
  out_copied :: nat
  out_writes :: "write_result list"

record World =
  w_files :: files
  w_seen :: "files list"
  w_fate :: "nat \<Rightarrow> outcome"
  w_calls :: nat

type_synonym 'a io = "(World, 'a) state"

subsection \<open>Paths\<close>

definition under :: "path \<Rightarrow> path \<Rightarrow> bool" where
  "under p q \<longleftrightarrow> take (length p) q = p"

fun resolve_from :: "path \<Rightarrow> path \<Rightarrow> path" where
  "resolve_from acc [] = rev acc"
| "resolve_from acc (c # cs) =
     (if c = ''.'' \<or> c = '''' then resolve_from acc cs
      else if c = ''..'' then resolve_from (tl acc) cs
      else resolve_from (c # acc) cs)"

definition resolve :: "path \<Rightarrow> path" where "resolve p = resolve_from [] p"

fun split_path :: "string \<Rightarrow> path" where
  "split_path [] = [[]]"
| "split_path (c # cs) = (if c = CHR ''/'' then [] # split_path cs
     else case split_path cs of [] \<Rightarrow> [[c]] | s # ss \<Rightarrow> (c # s) # ss)"

text \<open>\<open>path / text\<close>: an absolute text replaces the path.\<close>

definition path_append :: "path \<Rightarrow> string \<Rightarrow> path" where
  "path_append p s = (case s of CHR ''/'' # _ \<Rightarrow> split_path s | _ \<Rightarrow> p @ split_path s)"

definition path_text :: "path \<Rightarrow> string" where
  "path_text p = concat (map (\<lambda>c. CHR ''/'' # c) p)"

subsection \<open>Trees\<close>

definition is_dir :: "files \<Rightarrow> path \<Rightarrow> bool" where
  "is_dir fs p \<longleftrightarrow> p = [] \<or> om_find fs p = Some Dir"

definition swap_key :: "path \<Rightarrow> path \<Rightarrow> path \<Rightarrow> path" where
  "swap_key p q r = (if under p r then q @ drop (length p) r else if under q r then p @ drop (length q) r else r)"

definition rekey :: "(path \<Rightarrow> path) \<Rightarrow> files \<Rightarrow> files" where
  "rekey h fs = fold (\<lambda>(r, n). om_insert (h r) n) (om_entries fs) om_empty"

definition without :: "path \<Rightarrow> files \<Rightarrow> files" where
  "without p fs = om_filter (\<lambda>r n. \<not> under p r) fs"

subsection \<open>Calls\<close>

abbreviation ret :: "'a \<Rightarrow> 'a io" where "ret \<equiv> State_Monad.return"

definition next_call :: "outcome io" where
  "next_call = State (\<lambda>w. (w_fate w (w_calls w), w\<lparr>w_calls := w_calls w + 1\<rparr>))"

definition change :: "(files \<Rightarrow> files) \<Rightarrow> unit io" where
  "change f = State (\<lambda>w. ((), w\<lparr>w_files := f (w_files w), w_seen := w_files w # w_seen w\<rparr>))"

definition files_now :: "files io" where
  "files_now = State (\<lambda>w. (w_files w, w))"

definition file_exists :: "path \<Rightarrow> bool io" where
  "file_exists p = do { out \<leftarrow> next_call; fs \<leftarrow> files_now; ret (\<not> out_fails out \<and> om_find fs (resolve p) \<noteq> None) }"

text \<open>A removal takes the entries below first, in whatever order, and the path itself last.\<close>

definition remove_all :: "path \<Rightarrow> bool io" where
  "remove_all p = do {
     out \<leftarrow> next_call;
     let q = resolve p;
     _ \<leftarrow> change (om_filter (\<lambda>r n. \<not> (under q r \<and> r \<noteq> q \<and> out_removed out r)));
     (if out_fails out then ret False else do { _ \<leftarrow> change (without q); ret True })
   }"

definition create_directory :: "path \<Rightarrow> bool io" where
  "create_directory p = do {
     out \<leftarrow> next_call;
     fs \<leftarrow> files_now;
     let q = resolve p;
     (if out_fails out \<or> om_find fs q \<noteq> None \<or> \<not> is_dir fs (butlast q) then ret False
      else do { _ \<leftarrow> change (om_insert q Dir); ret True })
   }"

fun make_directories :: "path \<Rightarrow> path \<Rightarrow> unit io" where
  "make_directories made [] = ret ()"
| "make_directories made (c # cs) = do {
     out \<leftarrow> next_call;
     fs \<leftarrow> files_now;
     let q = made @ [c];
     (if om_find fs q = Some Dir then make_directories q cs
      else if om_find fs q \<noteq> None \<or> out_fails out then ret ()
      else do { _ \<leftarrow> change (om_insert q Dir); make_directories q cs })
   }"

definition create_directories :: "path \<Rightarrow> unit io" where
  "create_directories p = make_directories [] (resolve p)"

text \<open>\<open>O_WRONLY | O_CREAT | O_TRUNC\<close>: nothing, or why not.\<close>

definition openForWrite :: "path \<Rightarrow> string option io" where
  "openForWrite p = do {
     out \<leftarrow> next_call;
     fs \<leftarrow> files_now;
     let q = resolve p;
     (if out_fails out \<or> om_find fs q = Some Dir \<or> q = [] \<or> \<not> is_dir fs (butlast q) then ret (Some (out_text out))
      else do { _ \<leftarrow> change (om_insert q (File '''' False)); ret None })
   }"

definition append_bytes :: "path \<Rightarrow> string \<Rightarrow> files \<Rightarrow> files" where
  "append_bytes q bytes fs =
     (case om_find fs q of Some (File content _) \<Rightarrow> om_insert q (File (content @ bytes) False) fs | _ \<Rightarrow> fs)"

text \<open>
  The loop over \<open>write\<close>, which may write less than asked and is tried again when interrupted; the writes
  after the last listed result go through at once.
\<close>

fun write_loop :: "path \<Rightarrow> write_result list \<Rightarrow> string \<Rightarrow> bool io" where
  "write_loop q rs [] = ret True"
| "write_loop q [] bytes = do { _ \<leftarrow> change (append_bytes q bytes); ret True }"
| "write_loop q (Wrote n # rs) bytes = do {
     _ \<leftarrow> change (append_bytes q (take (Suc n) bytes));
     write_loop q rs (drop (Suc n) bytes) }"
| "write_loop q (Interrupted # rs) bytes = write_loop q rs bytes"
| "write_loop q (WriteFailed # rs) bytes = ret False"

definition mark_flushed :: "path \<Rightarrow> files \<Rightarrow> files" where
  "mark_flushed q fs = (case om_find fs q of Some (File content _) \<Rightarrow> om_insert q (File content True) fs | _ \<Rightarrow> fs)"

definition flushFile :: "path \<Rightarrow> string option io" where
  "flushFile q = do {
     out \<leftarrow> next_call;
     (if out_fails out then ret (Some (out_text out)) else do { _ \<leftarrow> change (mark_flushed q); ret None })
   }"

definition copy_file :: "path \<Rightarrow> path \<Rightarrow> bool io" where
  "copy_file p p' = do {
     out \<leftarrow> next_call;
     fs \<leftarrow> files_now;
     let q = resolve p';
     (case om_find fs (resolve p) of
        Some (File content _) \<Rightarrow>
          if om_find fs q = Some Dir \<or> q = [] \<or> \<not> is_dir fs (butlast q) then ret False
          else do {
            _ \<leftarrow> change (om_insert q (File (take (out_copied out) content) False));
            (if out_fails out then ret False
             else do { _ \<leftarrow> change (om_insert q (File content False)); ret True }) }
      | _ \<Rightarrow> ret False)
   }"

text \<open>A rename onto an entry succeeds for an empty directory only; neither path may be inside the other.\<close>

definition vacant :: "files \<Rightarrow> path \<Rightarrow> bool" where
  "vacant fs q \<longleftrightarrow> (\<forall>(r, n) \<in> set (om_entries fs). under q r \<longrightarrow> r = q \<and> n = Dir)"

definition rename_to :: "path \<Rightarrow> path \<Rightarrow> string option io" where
  "rename_to p p' = do {
     out \<leftarrow> next_call;
     fs \<leftarrow> files_now;
     let q = resolve p;
     let q' = resolve p';
     (if out_fails out \<or> om_find fs q = None \<or> under q q' \<or> under q' q \<or> \<not> vacant fs q' \<or> \<not> is_dir fs (butlast q')
      then ret (Some (out_text out))
      else do { _ \<leftarrow> change (\<lambda>fs. rekey (swap_key q q') (without q' fs)); ret None })
   }"

text \<open>\<open>renamex_np\<close> with \<open>RENAME_SWAP\<close>.\<close>

definition rename_swap :: "path \<Rightarrow> path \<Rightarrow> string option io" where
  "rename_swap p p' = do {
     out \<leftarrow> next_call;
     fs \<leftarrow> files_now;
     let q = resolve p;
     let q' = resolve p';
     (if out_fails out \<or> om_find fs q = None \<or> om_find fs q' = None \<or> under q q' \<or> under q' q then ret (Some (out_text out))
      else do { _ \<leftarrow> change (rekey (swap_key q q')); ret None })
   }"

text \<open>Flushing a directory changes no tree; its failure is ignored.\<close>

definition syncDirectory :: "path \<Rightarrow> unit io" where
  "syncDirectory p = do { _ \<leftarrow> next_call; ret () }"

text \<open>
  A file that opens is read whole.  Whether a directory opens depends on the platform; it then reads as
  empty.
\<close>

definition readFile :: "path \<Rightarrow> (string + string) io" where
  "readFile p = do {
     out \<leftarrow> next_call;
     fs \<leftarrow> files_now;
     (if out_fails out \<or> om_find fs (resolve p) = None then ret (Inl (''could not open '' @ quoted (path_text p)))
      else case om_find fs (resolve p) of Some (File content _) \<Rightarrow> ret (Inr content) | _ \<Rightarrow> ret (Inr ''''))
   }"

end
