(* ===== verification/Project_Writer.thy ===== *)
theory Project_Writer
  imports Project_Loader
begin

text \<open>
  The writer of \<open>model/project_io.cpp\<close>: the document of a project, one function per kind of entity, with
  the residue merged in, and its canonical text.
\<close>

definition fields_of :: "object \<Rightarrow> object" where
  "fields_of kvs = fold (\<lambda>(k, v). emplace k v) kvs []"

abbreviation json_object :: "object \<Rightarrow> Value" where
  "json_object kvs \<equiv> JObject (fields_of kvs)"

definition writeTransport :: "TransportState \<Rightarrow> Value" where
  "writeTransport t = json_object (
     [(''tempo'', JReal (tp_tempo t))] @
     (if tp_metronome_enabled t then [(''metronome_enabled'', JBool True)] else []) @
     [(''time_signature'', JArray [JInt (ts_numerator (tp_time_signature t)), JInt (ts_denominator (tp_time_signature t))]),
      (''loop'', json_object [
         (''enabled'', JBool (tp_loop_enabled t)), (''start'', JInt (tp_loop_start t)), (''end'', JInt (tp_loop_end t))])])"

definition string_or_null :: "string \<Rightarrow> Value" where
  "string_or_null s = (if s = '''' then JNull else JString s)"

text \<open>A format without a spelling leaves its key to the residue.\<close>

definition plugin_fields :: "PluginRef \<Rightarrow> object" where
  "plugin_fields p =
     (if pluginFormatText (pr_format p) = '''' then [] else [(''format'', JString (pluginFormatText (pr_format p)))]) @
     [(''id'', JString (pr_id p)), (''name'', JString (pr_name p)), (''vendor'', JString (pr_vendor p)),
      (''path_hint'', JString (pr_path_hint p))]"

definition write_route :: "OutputRoute \<Rightarrow> Value" where
  "write_route r = json_object [(''port'', JInt (uint (route_port r))), (''track_id'', JString (id_str KMixerTrack (route_track r)))]"

definition write_note_defaults :: "NoteDefaults \<Rightarrow> Value" where
  "write_note_defaults d = json_object [
     (''velocity'', JInt (nd_velocity d)), (''pan'', JReal (nd_pan d)), (''pitch_offset'', JInt (nd_pitch_offset d))]"

definition write_channel_settings :: "ChannelSettings \<Rightarrow> Value" where
  "write_channel_settings s = json_object [
     (''gate_percent'', JInt (cs_gate_percent s)), (''shift_ticks'', JInt (cs_shift_ticks s)),
     (''cut_group'', JInt (cs_cut_group s)), (''cut_by_group'', JInt (cs_cut_by_group s)),
     (''max_polyphony'', JInt (cs_max_polyphony s)), (''mono'', JBool (cs_mono s)), (''portamento'', JBool (cs_portamento s)),
     (''root_key'', JInt (cs_root_key s)), (''key_low'', JInt (cs_key_low s)), (''key_high'', JInt (cs_key_high s)),
     (''fine_tune_cents'', JInt (cs_fine_tune_cents s)), (''velocity_tracking'', JReal (cs_velocity_tracking s)),
     (''mod_x'', JInt (cs_mod_x s)), (''mod_y'', JInt (cs_mod_y s)), (''arpeggiator'', JBool (cs_arpeggiator s)),
     (''arpeggiator_time_ticks'', JInt (cs_arpeggiator_time_ticks s)),
     (''arpeggiator_gate_percent'', JInt (cs_arpeggiator_gate_percent s)),
     (''echo_time_ticks'', JInt (cs_echo_time_ticks s)), (''echo_feedback_percent'', JInt (cs_echo_feedback_percent s))]"

record StateRecord =
  sr_state_ref :: string
  sr_sha256 :: string

definition instrument_fields :: "StateRecord option \<Rightarrow> Instrument \<Rightarrow> object" where
  "instrument_fields override n =
     (let state_ref = (case override of None \<Rightarrow> pr_state_ref (inst_plugin n) | Some r \<Rightarrow> sr_state_ref r);
          state_sha = (case override of None \<Rightarrow> pr_state_sha256 (inst_plugin n) | Some r \<Rightarrow> sr_sha256 r)
      in [(''name'', JString (inst_name n)), (''color'', JString (inst_color n)), (''order'', JInt (inst_order n)),
          (''muted'', JBool (inst_muted n))] @
         (if inst_soloed n then [(''soloed'', JBool True)] else []) @
         [(''gain'', JReal (inst_gain n)), (''pan'', JReal (inst_pan n)),
          (''plugin'', json_object (plugin_fields (inst_plugin n))),
          (''note_defaults'', write_note_defaults (inst_note_defaults n))] @
         (if inst_channel_settings n \<noteq> default_channel_settings
          then [(''channel_settings'', write_channel_settings (inst_channel_settings n))] else []) @
         [(''routing'', JArray (map write_route (inst_routing n))),
          (''state_ref'', string_or_null state_ref), (''state_sha256'', string_or_null state_sha)])"

definition writeInstrument :: "StateRecord option \<Rightarrow> Instrument \<Rightarrow> Value" where
  "writeInstrument override n = json_object (instrument_fields override n)"

definition write_points :: "AutomationPoint list \<Rightarrow> Value" where
  "write_points ps = JArray (map (\<lambda>p. JArray [JInt (pt_position p), JReal (pt_value p)]) ps)"

text \<open>The target of an automation, a track and a slot for an effect.\<close>

definition target_fields :: "AutomationSource \<Rightarrow> object" where
  "target_fields a =
     (case as_target_kind a of
        TargetInstrument \<Rightarrow>
          [(''target_kind'', JString ''instrument''), (''target_id'', JString (id_str KInstrument (as_instrument a)))]
      | TargetMixerTrack \<Rightarrow>
          [(''target_kind'', JString ''mixer_track''), (''target_id'', JString (id_str KMixerTrack (as_mixer_track a)))]
      | TargetEffect \<Rightarrow>
          [(''target_kind'', JString ''effect''), (''target_id'', JString (id_str KMixerTrack (as_mixer_track a))),
           (''effect_id'', JString (id_str KEffect (as_effect a)))]) @
     [(''parameter'', JInt (uint (as_parameter a))), (''points'', write_points (as_points a))]"

definition writePatternAutomation :: "AutomationSource \<Rightarrow> Value" where
  "writePatternAutomation a = json_object (target_fields a)"

definition write_note :: "Residue \<Rightarrow> pattern_id \<Rightarrow> instrument_id \<Rightarrow> Note \<Rightarrow> Value" where
  "write_note residue p i n = JArray (
     [JInt (note_start n), JInt (note_length n), JInt (note_key n), JInt (note_velocity n)] @
     (case om_find (res_note_properties residue) (noteKey p i n) of None \<Rightarrow> [] | Some v \<Rightarrow> [v]))"

definition write_sequences :: "Residue \<Rightarrow> Pattern \<Rightarrow> Value" where
  "write_sequences residue p = json_object (map (\<lambda>(i, s).
     (id_str KInstrument i, JArray (map (write_note residue (pat_id p) i) s))) (om_entries (pat_sequences p)))"

definition pattern_fields :: "Residue \<Rightarrow> Pattern \<Rightarrow> object" where
  "pattern_fields residue p =
     [(''name'', JString (pat_name p)), (''color'', JString (pat_color p)), (''length'', JInt (pat_length p))] @
     (if pat_order p \<noteq> 0 then [(''order'', JInt (pat_order p))] else []) @
     (if pat_group p \<noteq> '''' then [(''group'', JString (pat_group p))] else []) @
     (if ts_numerator (pat_time_signature p) \<noteq> 4 \<or> ts_denominator (pat_time_signature p) \<noteq> 4
      then [(''time_signature'', JArray [JInt (ts_numerator (pat_time_signature p)), JInt (ts_denominator (pat_time_signature p))])]
      else []) @
     [(''swing'', JReal (pat_swing p)), (''sequences'', write_sequences residue p)] @
     (if pat_automation p \<noteq> [] then [(''automation'', JArray (map writePatternAutomation (pat_automation p)))] else [])"

definition writePattern :: "Residue \<Rightarrow> Pattern \<Rightarrow> Value" where
  "writePattern residue p = json_object (pattern_fields residue p)"

definition lane_fields :: "ArrangementLane \<Rightarrow> object" where
  "lane_fields n = [
     (''name'', JString (lane_name n)), (''color'', JString (lane_color n)), (''height'', JInt (lane_height n)),
     (''order'', JInt (lane_order n)), (''collapsed'', JBool (lane_collapsed n)), (''muted'', JBool (lane_muted n)),
     (''soloed'', JBool (lane_soloed n)),
     (''group_id'', case lane_group_id n of None \<Rightarrow> JNull | Some g \<Rightarrow> JString (id_str KArrangementLane g))]"

definition writeLane :: "ArrangementLane \<Rightarrow> Value" where
  "writeLane n = json_object (lane_fields n)"

definition source_fields :: "ClipSource \<Rightarrow> object" where
  "source_fields s =
     (case s of
        SrcPattern p \<Rightarrow> [(''type'', JString ''pattern''), (''pattern_id'', JString (id_str KPattern p))]
      | SrcAudio a \<Rightarrow>
          [(''type'', JString ''audio''), (''path'', JString (au_path a)), (''source_offset'', JInt (au_source_offset a)),
           (''source_length'', JInt (au_source_length a)), (''gain'', JReal (au_gain a)), (''reversed'', JBool (au_reversed a)),
           (''stretch_mode'', JString (stretchModeText (au_stretch_mode a))), (''source_bpm'', JReal (au_source_bpm a)),
           (''destination_id'', JString (id_str KMixerTrack (au_destination a)))]
      | SrcAutomation m \<Rightarrow> (''type'', JString ''automation'') # target_fields m)"

definition writeClipSource :: "ClipSource \<Rightarrow> Value" where
  "writeClipSource s = json_object (source_fields s)"

definition transform_fields :: "ClipTransforms \<Rightarrow> object" where
  "transform_fields t = [
     (''transpose'', JInt (tr_transpose t)), (''loop'', JBool (tr_loop t)), (''window_start'', JInt (tr_window_start t)),
     (''velocity_scale'', JReal (tr_velocity_scale t)), (''time_nudge'', JInt (tr_time_nudge t)),
     (''probability'', JReal (tr_probability t))]"

definition clip_fields :: "Clip \<Rightarrow> object" where
  "clip_fields c = [
     (''lane_id'', JString (id_str KArrangementLane (clip_lane c))), (''start'', JInt (clip_start c)),
     (''length'', JInt (clip_length c)), (''muted'', JBool (clip_muted c)), (''source'', writeClipSource (clip_source c)),
     (''transforms'', json_object (transform_fields (clip_transforms c)))]"

definition writeClip :: "Clip \<Rightarrow> Value" where
  "writeClip c = json_object (clip_fields c)"

definition write_slot :: "EffectSlot \<Rightarrow> Value" where
  "write_slot s = json_object [
     (''id'', JString (id_str KEffect (slot_id s))), (''bypassed'', JBool (slot_bypassed s)),
     (''plugin'', json_object (plugin_fields (slot_plugin s))),
     (''params'', json_object (map (\<lambda>(p, v). (nat_to_string (unat p), JReal v)) (om_entries (slot_params s))))]"

definition track_fields :: "MixerTrack \<Rightarrow> object" where
  "track_fields t = [
     (''name'', JString (track_name t)), (''gain'', JReal (track_gain t)), (''pan'', JReal (track_pan t)),
     (''muted'', JBool (track_muted t)), (''soloed'', JBool (track_soloed t)),
     (''output_id'', case track_output t of None \<Rightarrow> JNull | Some out \<Rightarrow> JString (id_str KMixerTrack out)),
     (''chain'', JArray (map write_slot (track_effects t))), (''sends'', JArray [])]"

definition writeMixerTrack :: "MixerTrack \<Rightarrow> Value" where
  "writeMixerTrack t = json_object (track_fields t)"

definition write_table :: "entity_kind \<Rightarrow> ('k typed_id \<Rightarrow> 'e \<Rightarrow> Value) \<Rightarrow> ('k typed_id, 'e) omap \<Rightarrow> Value" where
  "write_table k write m = json_object (map (\<lambda>(i, e). (id_str k i, write i e)) (om_entries m))"

definition write_meta :: "string \<Rightarrow> ProjectMeta \<Rightarrow> Value" where
  "write_meta created_with m = json_object [
     (''name'', JString (meta_name m)),
     (''created_with'', JString (if created_with = '''' then meta_created_with m else created_with)),
     (''ticks_per_quarter'', JInt TicksPerQuarter)]"

definition document_fields :: "Tables \<Rightarrow> Residue \<Rightarrow> string \<Rightarrow> (instrument_id, StateRecord) omap \<Rightarrow> object" where
  "document_fields p residue created_with state = [
     (''format'', JString FormatTag), (''version'', JInt FormatVersion),
     (''meta'', write_meta created_with (meta p)), (''transport'', writeTransport (transport p)),
     (''instruments'', write_table KInstrument (\<lambda>i n. writeInstrument (om_find state i) n) (instruments p)),
     (''patterns'', write_table KPattern (\<lambda>i q. writePattern residue q) (patterns p)),
     (''lanes'', write_table KArrangementLane (\<lambda>i n. writeLane n) (lanes p)),
     (''clips'', write_table KClip (\<lambda>i c. writeClip c) (clips p)),
     (''mixer_tracks'', write_table KMixerTrack (\<lambda>i t. writeMixerTrack t) (mixer_tracks p))]"

definition project_document :: "Tables \<Rightarrow> Residue \<Rightarrow> string \<Rightarrow> (instrument_id, StateRecord) omap \<Rightarrow> object" where
  "project_document p residue created_with state =
     (let fields = fields_of (document_fields p residue created_with state)
      in case res_document residue of JObject extra \<Rightarrow> mergeResidue fields extra | _ \<Rightarrow> fields)"

definition writeProjectJson :: "Tables \<Rightarrow> Residue \<Rightarrow> string \<Rightarrow> (instrument_id, StateRecord) omap \<Rightarrow> string" where
  "writeProjectJson p residue created_with state =
     (case writeCanonical (JObject (project_document p residue created_with state)) [''format'', ''version''] of
        None \<Rightarrow> '''' | Some t \<Rightarrow> t)"

end
