(* ===== verification/Sha256.thy ===== *)
theory Sha256
  imports Prelude
begin

text \<open>
  SHA-256 as \<open>model/project_io.cpp\<close> has it: the compression of a block, the loop over the whole blocks
  of the data, the tail of one or two blocks, and the digest in hexadecimal.  A byte is an \<open>8 word\<close>.
\<close>

unbundle bit_operations_syntax

text \<open>The round constants, each read from its hexadecimal digits.\<close>

definition hex_value :: "char \<Rightarrow> nat" where
  "hex_value c = (if of_char c \<le> (57 :: nat) then of_char c - 48 else of_char c - 87)"

definition from_hex :: "string \<Rightarrow> 32 word" where
  "from_hex s = fold (\<lambda>c v. 16 * v + word_of_nat (hex_value c)) s 0"

definition Sha256K :: "32 word list" where
  "Sha256K = map from_hex [
    ''428a2f98'', ''71374491'', ''b5c0fbcf'', ''e9b5dba5'', ''3956c25b'', ''59f111f1'', ''923f82a4'', ''ab1c5ed5'',
    ''d807aa98'', ''12835b01'', ''243185be'', ''550c7dc3'', ''72be5d74'', ''80deb1fe'', ''9bdc06a7'', ''c19bf174'',
    ''e49b69c1'', ''efbe4786'', ''0fc19dc6'', ''240ca1cc'', ''2de92c6f'', ''4a7484aa'', ''5cb0a9dc'', ''76f988da'',
    ''983e5152'', ''a831c66d'', ''b00327c8'', ''bf597fc7'', ''c6e00bf3'', ''d5a79147'', ''06ca6351'', ''14292967'',
    ''27b70a85'', ''2e1b2138'', ''4d2c6dfc'', ''53380d13'', ''650a7354'', ''766a0abb'', ''81c2c92e'', ''92722c85'',
    ''a2bfe8a1'', ''a81a664b'', ''c24b8b70'', ''c76c51a3'', ''d192e819'', ''d6990624'', ''f40e3585'', ''106aa070'',
    ''19a4c116'', ''1e376c08'', ''2748774c'', ''34b0bcb5'', ''391c0cb3'', ''4ed8aa4a'', ''5b9cca4f'', ''682e6ff3'',
    ''748f82ee'', ''78a5636f'', ''84c87814'', ''8cc70208'', ''90befffa'', ''a4506ceb'', ''bef9a3f7'', ''c67178f2'']"

lemma Sha256K_ends: "length Sha256K = 64" "hd Sha256K = 0x428a2f98" "last Sha256K = 0xc67178f2"
  by (simp_all add: Sha256K_def from_hex_def hex_value_def)

definition rotr :: "32 word \<Rightarrow> nat \<Rightarrow> 32 word" where
  "rotr v bits = drop_bit bits v OR push_bit (32 - bits) v"

definition big_endian :: "8 word list \<Rightarrow> nat \<Rightarrow> 32 word" where
  "big_endian block i = push_bit 24 (ucast (block ! (i * 4))) OR push_bit 16 (ucast (block ! (i * 4 + 1))) OR
     push_bit 8 (ucast (block ! (i * 4 + 2))) OR ucast (block ! (i * 4 + 3))"

definition extend_words :: "32 word list \<Rightarrow> 32 word list" where
  "extend_words w =
     (let i = length w;
          s0 = rotr (w ! (i - 15)) 7 XOR rotr (w ! (i - 15)) 18 XOR drop_bit 3 (w ! (i - 15));
          s1 = rotr (w ! (i - 2)) 17 XOR rotr (w ! (i - 2)) 19 XOR drop_bit 10 (w ! (i - 2))
      in w @ [w ! (i - 16) + s0 + w ! (i - 7) + s1])"

definition message_schedule :: "8 word list \<Rightarrow> 32 word list" where
  "message_schedule block = (extend_words ^^ 48) (map (big_endian block) [0..<16])"

text \<open>One round on the eight working variables, \<open>k\<close> and \<open>w\<close> those of the round.\<close>

definition sha_round :: "32 word \<times> 32 word \<Rightarrow> 32 word list \<Rightarrow> 32 word list" where
  "sha_round kw v =
     (let s1 = rotr (v ! 4) 6 XOR rotr (v ! 4) 11 XOR rotr (v ! 4) 25;
          ch = (v ! 4 AND v ! 5) XOR (NOT (v ! 4) AND v ! 6);
          temp1 = v ! 7 + s1 + ch + fst kw + snd kw;
          s0 = rotr (v ! 0) 2 XOR rotr (v ! 0) 13 XOR rotr (v ! 0) 22;
          maj = (v ! 0 AND v ! 1) XOR (v ! 0 AND v ! 2) XOR (v ! 1 AND v ! 2);
          temp2 = s0 + maj
      in [temp1 + temp2, v ! 0, v ! 1, v ! 2, v ! 3 + temp1, v ! 4, v ! 5, v ! 6])"

definition sha256Block :: "8 word list \<Rightarrow> 32 word list \<Rightarrow> 32 word list" where
  "sha256Block block state =
     map2 (+) state (fold sha_round (zip Sha256K (message_schedule block)) state)"

definition initial_hash :: "32 word list" where
  "initial_hash = [0x6a09e667, 0xbb67ae85, 0x3c6ef372, 0xa54ff53a, 0x510e527f, 0x9b05688c, 0x1f83d9ab, 0x5be0cd19]"

text \<open>The loop over the whole blocks: the state and the bytes that remain.\<close>

function whole_blocks :: "8 word list \<Rightarrow> 32 word list \<Rightarrow> 32 word list \<times> 8 word list" where
  "whole_blocks bytes state =
     (if 64 \<le> length bytes then whole_blocks (drop 64 bytes) (sha256Block (take 64 bytes) state) else (state, bytes))"
  by pat_completeness auto
termination by (relation "measure (\<lambda>(bytes, _). length bytes)") auto

declare whole_blocks.simps [simp del]

definition length_byte :: "64 word \<Rightarrow> nat \<Rightarrow> 8 word" where
  "length_byte bits i = ucast (drop_bit (8 * i) bits AND 0xFF)"

text \<open>The tail of 128 zeros: the remainder, the end mark, and the length in bits at its end.\<close>

definition sha_tail :: "nat \<Rightarrow> 8 word list \<Rightarrow> 8 word list" where
  "sha_tail count left =
     (let tail_size = (if length left < 56 then 64 else 128);
          marked = left @ [0x80] @ replicate (tail_size - length left - 1) 0;
          bits = (word_of_nat count :: 64 word) * 8
      in fold (\<lambda>i tail. tail[tail_size - 1 - i := length_byte bits i]) [0..<8] marked)"

definition sha256Words :: "8 word list \<Rightarrow> 32 word list" where
  "sha256Words bytes =
     (case whole_blocks bytes initial_hash of
        (state, left) \<Rightarrow> fst (whole_blocks (sha_tail (length bytes) left) state))"

definition hex_char :: "32 word \<Rightarrow> char" where
  "hex_char w = ''0123456789abcdef'' ! unat (w AND 0xF)"

definition hex_word :: "32 word \<Rightarrow> string" where
  "hex_word w = map (\<lambda>shift. hex_char (drop_bit shift w)) [28, 24, 20, 16, 12, 8, 4, 0]"

definition byte_of :: "char \<Rightarrow> 8 word" where "byte_of c = of_char c"

definition sha256Hex :: "string \<Rightarrow> string" where
  "sha256Hex data = concat (map hex_word (sha256Words (map byte_of data)))"

subsection \<open>The standard's padding\<close>

text \<open>
  FIPS 180-4 pads the message once: the end mark, as few zeros as reach 56 modulo 64, and the length in
  bits, big end first; then it compresses the blocks in turn.
\<close>

definition length_field :: "nat \<Rightarrow> 8 word list" where
  "length_field n = map (length_byte ((word_of_nat n :: 64 word) * 8)) [7, 6, 5, 4, 3, 2, 1, 0]"

definition padded :: "8 word list \<Rightarrow> 8 word list" where
  "padded bytes = bytes @ [0x80] @ replicate ((119 - length bytes mod 64) mod 64) 0 @ length_field (length bytes)"

definition blocks_of :: "8 word list \<Rightarrow> 8 word list list" where
  "blocks_of bytes = map (\<lambda>k. take 64 (drop (64 * k) bytes)) [0..<length bytes div 64]"

lemma whole_blocks_eq:
  "whole_blocks bytes state = (fold sha256Block (blocks_of bytes) state, drop (64 * (length bytes div 64)) bytes)"
proof (induction bytes state rule: whole_blocks.induct)
  case (1 bytes state)
  show ?case
  proof (cases "64 \<le> length bytes")
    case True
    define n where "n = (length bytes - 64) div 64"
    have n: "length bytes div 64 = Suc n" using True by (simp add: n_def le_div_geq)
    have "blocks_of bytes = take 64 bytes # blocks_of (drop 64 bytes)"
      unfolding blocks_of_def length_drop n [unfolded n_def] n_def [symmetric] upt_conv_Cons [OF zero_less_Suc]
      by (simp add: map_Suc_upt [symmetric] comp_def add.commute del: upt_Suc)
    moreover have "drop (64 * (length bytes div 64)) bytes = drop (64 * (length (drop 64 bytes) div 64)) (drop 64 bytes)"
      unfolding n length_drop n_def [symmetric] by (simp add: add.commute)
    ultimately show ?thesis using 1 True by (simp add: whole_blocks.simps [of bytes state])
  next
    case False
    then show ?thesis by (simp add: whole_blocks.simps [of bytes state] blocks_of_def)
  qed
qed

lemma blocks_of_append:
  "length xs mod 64 = 0 \<Longrightarrow> blocks_of (xs @ ys) = blocks_of xs @ blocks_of ys"
proof -
  assume "length xs mod 64 = 0"
  then obtain m where m: "length xs = 64 * m" by (metis mod_0_imp_dvd dvdE)
  have "[0..<m + length ys div 64] = [0..<m] @ map (\<lambda>k. m + k) [0..<length ys div 64]"
  proof -
    have "map (\<lambda>k. m + k) [0..<j] = [m..<m + j]" for j by (induction j) simp_all
    then show ?thesis using upt_add_eq_append [of 0 m "length ys div 64"] by simp
  qed
  moreover have "take 64 (drop (64 * k) (xs @ ys)) = take 64 (drop (64 * k) xs)" if "k < m" for k
    using that m by simp
  ultimately show ?thesis by (simp add: blocks_of_def m comp_def distrib_left)
qed

lemma zero_count: "r < 64 \<Longrightarrow> (119 - r) mod 64 = (if r < 56 then 55 - r else 119 - r)" for r :: nat
  by (auto simp: mod_if)

lemma upt_8: "[0..<8] = [0, 1, 2, 3, 4, 5, 6, 7]"
  by code_simp

lemma sha_tail_eq:
  assumes "length left < 64"
  shows "sha_tail n left = left @ [0x80] @ replicate ((119 - length left) mod 64) 0 @ length_field n"
proof -
  define z where "z = (119 - length left) mod 64"
  define A where "A = left @ [0x80 :: 8 word] @ replicate z 0"
  define size where "size = (if length left < 56 then 64 else 128 :: nat)"
  have z: "size - length left - 1 = z + 8" and lA: "length A = size - 8"
    using assms by (auto simp: z_def size_def A_def mod_if)
  have "replicate 8 (0 :: 8 word) = [0, 0, 0, 0, 0, 0, 0, 0]" by (simp add: numeral_eq_Suc)
  then have "replicate (z + 8) (0 :: 8 word) = replicate z 0 @ [0, 0, 0, 0, 0, 0, 0, 0]"
    by (simp only: replicate_add)
  then have marked: "left @ [0x80] @ replicate (size - length left - 1) 0 = A @ [0, 0, 0, 0, 0, 0, 0, 0]"
    unfolding z A_def by simp
  have size: "size = length A + 8" using lA by (simp add: size_def split: if_splits)
  have "fold (\<lambda>i tail. tail[size - 1 - i := length_byte b i]) [0..<8] (A @ [0, 0, 0, 0, 0, 0, 0, 0]) =
      A @ map (length_byte b) [7, 6, 5, 4, 3, 2, 1, 0]" for b
    unfolding size by (simp add: upt_8 list_update_append)
  then show ?thesis
    unfolding sha_tail_def Let_def size_def [symmetric] marked by (simp add: length_field_def A_def z_def)
qed


end
