(* ===== verification/Save_Project.thy ===== *)
theory Save_Project
  imports File_System Project_Writer Sha256
begin

text \<open>
  Saving and loading a bundle (\<open>saveProject\<close> and \<open>loadProject\<close> of \<open>model/project_io.cpp\<close>): the files
  around the document.  The new bundle is staged beside its destination and swapped in; the states of
  the plug-ins are files of their own, named in the document with their digest.
\<close>

subsection \<open>A file and its flush\<close>

definition writeFileSynced :: "path \<Rightarrow> string \<Rightarrow> string option io" where
  "writeFileSynced p bytes = do {
     failed \<leftarrow> openForWrite p;
     (case failed of
        Some t \<Rightarrow> ret (Some (''could not create '' @ quoted (path_text p) @ '': '' @ t))
      | None \<Rightarrow> do {
          out \<leftarrow> next_call;
          written \<leftarrow> write_loop (resolve p) (out_writes out) bytes;
          (if \<not> written then ret (Some (''could not write '' @ quoted (path_text p) @ '': '' @ out_text out))
           else do {
             failed \<leftarrow> flushFile (resolve p);
             ret (map_option (\<lambda>t. ''could not flush '' @ quoted (path_text p) @ '': '' @ t) failed) }) })
   }"

subsection \<open>Saving\<close>

record SaveOptions =
  so_created_with :: string
  so_state_provider :: "(instrument_id \<Rightarrow> string) option"
  so_copy_from :: "path option"

record SaveReport =
  sv_ok :: bool
  sv_error :: string
  sv_bytes :: nat
  sv_states :: "(instrument_id, StateRecord) omap"

definition new_report :: SaveReport where
  "new_report = \<lparr>sv_ok = False, sv_error = '''', sv_bytes = 0, sv_states = om_empty\<rparr>"

text \<open>The file of a state is named by the instrument.\<close>

definition state_name :: "instrument_id \<Rightarrow> string" where
  "state_name i = ''state/'' @ id_str KInstrument i @ ''.bin''"

definition state_chunk :: "SaveOptions \<Rightarrow> instrument_id \<Rightarrow> string" where
  "state_chunk opts i = (case so_state_provider opts of None \<Rightarrow> '''' | Some provide \<Rightarrow> provide i)"

definition record_state :: "instrument_id \<Rightarrow> string \<Rightarrow> SaveReport \<Rightarrow> SaveReport" where
  "record_state i chunk report = report\<lparr>
     sv_states := om_emplace i \<lparr>sr_state_ref = state_name i, sr_sha256 = sha256Hex chunk\<rparr> (sv_states report),
     sv_bytes := sv_bytes report + length chunk\<rparr>"

text \<open>A state that is not provided is carried across from the bundle the project came from.\<close>

fun save_states :: "SaveOptions \<Rightarrow> path \<Rightarrow> (instrument_id \<times> Instrument) list \<Rightarrow> SaveReport \<Rightarrow> (string option \<times> SaveReport) io" where
  "save_states opts staging [] report = ret (None, report)"
| "save_states opts staging ((i, n) # es) report =
     (let chunk = state_chunk opts i; named = pr_state_ref (inst_plugin n) in
      if chunk \<noteq> '''' then do {
        _ \<leftarrow> create_directories (staging @ [''state'']);
        failed \<leftarrow> writeFileSynced (path_append staging (state_name i)) chunk;
        (case failed of
           Some e \<Rightarrow> ret (Some e, report)
         | None \<Rightarrow> save_states opts staging es (record_state i chunk report)) }
      else if named = '''' then save_states opts staging es report
      else case so_copy_from opts of
          None \<Rightarrow> save_states opts staging es report
        | Some source \<Rightarrow> do {
            there \<leftarrow> file_exists (path_append source named);
            (if \<not> there then save_states opts staging es report
             else do {
               _ \<leftarrow> create_directories (butlast (path_append staging named));
               copied \<leftarrow> copy_file (path_append source named) (path_append staging named);
               (if copied then save_states opts staging es report
                else ret (Some (''Could not copy the settings of '' @ quoted (inst_name n) @ '' into the save.''), report)) }) })"

datatype platform = Posix | Windows

definition staging_path :: "string \<Rightarrow> path \<Rightarrow> path" where
  "staging_path pid bundle = butlast bundle @ [CHR ''.'' # last bundle @ ''.saving-'' @ pid]"

definition backup_path :: "string \<Rightarrow> path \<Rightarrow> path" where
  "backup_path pid bundle = butlast bundle @ [CHR ''.'' # last bundle @ ''.previous-'' @ pid]"

text \<open>The staged bundle takes the place of the one that is there; the result is what went wrong.\<close>

definition replace_bundle :: "platform \<Rightarrow> string \<Rightarrow> path \<Rightarrow> string option io" where
  "replace_bundle pf pid bundle = (let staging = staging_path pid bundle; backup = backup_path pid bundle;
       complaint = ''Could not replace '' @ quoted (last bundle) in
     case pf of
       Posix \<Rightarrow> do {
         failed \<leftarrow> rename_swap staging bundle;
         (case failed of
            Some t \<Rightarrow> ret (Some (complaint @ '': '' @ t))
          | None \<Rightarrow> do { _ \<leftarrow> remove_all staging; ret None }) }
     | Windows \<Rightarrow> do {
         _ \<leftarrow> remove_all backup;
         failed \<leftarrow> rename_to bundle backup;
         (case failed of
            Some t \<Rightarrow> ret (Some (complaint @ ''.''))
          | None \<Rightarrow> do {
              failed \<leftarrow> rename_to staging bundle;
              (case failed of
                 Some t \<Rightarrow> do { _ \<leftarrow> rename_to backup bundle; ret (Some (complaint @ ''.'')) }
               | None \<Rightarrow> do { _ \<leftarrow> remove_all backup; ret None }) }) })"

definition create_bundle :: "string \<Rightarrow> path \<Rightarrow> string option io" where
  "create_bundle pid bundle = do {
     failed \<leftarrow> rename_to (staging_path pid bundle) bundle;
     ret (map_option (\<lambda>t. ''Could not create '' @ quoted (last bundle) @ ''.'') failed)
   }"

definition abandon :: "path \<Rightarrow> SaveReport \<Rightarrow> string \<Rightarrow> SaveReport io" where
  "abandon staging report message = do {
     _ \<leftarrow> remove_all staging;
     ret (report\<lparr>sv_error := message, sv_ok := False\<rparr>)
   }"

text \<open>Everything up to the swap: the staged bundle, or why there is none.\<close>

definition stage_document :: "path \<Rightarrow> Tables \<Rightarrow> Residue \<Rightarrow> SaveOptions \<Rightarrow> SaveReport \<Rightarrow> (string option \<times> SaveReport) io" where
  "stage_document staging p residue opts report =
     (let text = writeProjectJson p residue (so_created_with opts) (sv_states report) in
      if text = '''' then ret (Some ''This project contains a value that cannot be written (not a finite number).'', report)
      else do {
        failed \<leftarrow> writeFileSynced (staging @ [''project.json'']) text;
        (case failed of
           Some e \<Rightarrow> ret (Some e, report)
         | None \<Rightarrow> do {
             _ \<leftarrow> syncDirectory staging;
             ret (None, report\<lparr>sv_bytes := sv_bytes report + length text\<rparr>) }) })"

definition stage_bundle :: "path \<Rightarrow> Tables \<Rightarrow> Residue \<Rightarrow> SaveOptions \<Rightarrow> (string option \<times> SaveReport) io" where
  "stage_bundle staging p residue opts = do {
     (failed, report) \<leftarrow> save_states opts staging (om_entries (instruments p)) new_report;
     (if failed \<noteq> None then ret (failed, report) else stage_document staging p residue opts report)
   }"

definition swap_in :: "platform \<Rightarrow> string \<Rightarrow> path \<Rightarrow> string option io" where
  "swap_in pf pid bundle = do {
     there \<leftarrow> file_exists bundle;
     (if there then replace_bundle pf pid bundle else create_bundle pid bundle)
   }"

text \<open>Everything once the folder beside the bundle is there.\<close>

definition finish_save :: "platform \<Rightarrow> string \<Rightarrow> path \<Rightarrow> Tables \<Rightarrow> Residue \<Rightarrow> SaveOptions \<Rightarrow> SaveReport io" where
  "finish_save pf pid bundle p residue opts = (let staging = staging_path pid bundle in do {
     (failed, report) \<leftarrow> stage_bundle staging p residue opts;
     (case failed of
        Some e \<Rightarrow> abandon staging report e
      | None \<Rightarrow> do {
          failed \<leftarrow> swap_in pf pid bundle;
          (case failed of
             Some e \<Rightarrow> abandon staging report e
           | None \<Rightarrow> do {
               _ \<leftarrow> syncDirectory (butlast bundle);
               ret (report\<lparr>sv_ok := True\<rparr>) }) })
   })"

definition saveProject :: "platform \<Rightarrow> string \<Rightarrow> path \<Rightarrow> Tables \<Rightarrow> Residue \<Rightarrow> SaveOptions \<Rightarrow> SaveReport io" where
  "saveProject pf pid bundle p residue opts = (let staging = staging_path pid bundle in do {
     _ \<leftarrow> create_directories (butlast bundle);
     _ \<leftarrow> remove_all staging;
     made \<leftarrow> create_directory staging;
     (if \<not> made then
        ret (new_report\<lparr>sv_error := ''Could not prepare a temporary folder next to '' @ quoted (path_text bundle) @ ''.''\<rparr>)
      else finish_save pf pid bundle p residue opts)
   })"

subsection \<open>Loading\<close>

definition add_issue :: "Severity \<Rightarrow> string \<Rightarrow> LoadReport \<Rightarrow> LoadReport" where
  "add_issue s message report = report\<lparr>lr_issues := lr_issues report @ [\<lparr>li_severity = s, li_message = message\<rparr>]\<rparr>"

text \<open>The states, and what is handed to the sink.\<close>

fun load_states :: "path \<Rightarrow> (instrument_id \<times> Instrument) list \<Rightarrow> LoadReport \<Rightarrow> (LoadReport \<times> (instrument_id \<times> string) list) io" where
  "load_states bundle [] report = ret (report, [])"
| "load_states bundle ((i, n) # es) report =
     (let named = pr_state_ref (inst_plugin n); digest = pr_state_sha256 (inst_plugin n) in
      if named = '''' then load_states bundle es report
      else do {
        read \<leftarrow> readFile (path_append bundle named);
        (case read of
           Inl e \<Rightarrow> load_states bundle es (add_issue Warning
             (quoted (inst_name n) @ '' could not restore its settings: the file '' @ named @ '' is missing. It loads with its defaults.'') report)
         | Inr chunk \<Rightarrow>
             if digest \<noteq> '''' \<and> sha256Hex chunk \<noteq> digest then load_states bundle es (add_issue Error
               (quoted (inst_name n) @ '' has damaged settings (the saved checksum does not match). It loads with its defaults.'') report)
             else do {
               (report', handed) \<leftarrow> load_states bundle es report;
               ret (report', (i, chunk) # handed) }) })"

definition loadProject :: "64 word \<Rightarrow> project \<Rightarrow> path \<Rightarrow> project \<Rightarrow> Residue \<Rightarrow> bool \<Rightarrow>
    (LoadReport \<times> project \<times> Residue \<times> (instrument_id \<times> string) list) io" where
  "loadProject clock staged bundle p residue load_state = do {
     there \<leftarrow> file_exists (bundle @ [''project.json'']);
     (if \<not> there then
        ret (\<lparr>lr_ok = False, lr_issues = [\<lparr>li_severity = Error,
          li_message = quoted (last bundle) @ '' is not a OneBeat project: it has no project.json.''\<rparr>]\<rparr>, p, residue, [])
      else do {
        read \<leftarrow> readFile (bundle @ [''project.json'']);
        (case read of
           Inl e \<Rightarrow> ret (\<lparr>lr_ok = False, lr_issues = [\<lparr>li_severity = Error, li_message = ''Could not read '' @ e @ ''.''\<rparr>]\<rparr>, p, residue, [])
         | Inr t \<Rightarrow>
             (case loadProjectJson clock staged t p residue of
                (report, p', residue') \<Rightarrow>
                  if \<not> lr_ok report \<or> \<not> load_state then ret (report, p', residue', [])
                  else do {
                    (report', handed) \<leftarrow> load_states bundle (om_entries (instruments p')) report;
                    ret (report', p', residue', handed) })) })
   }"

end
