(* ===== verification/Save_Fields.thy ===== *)
theory Save_Fields
  imports Project_Writer Loader_Sound Loader_Ticks Json_Round_Trip
begin

text \<open>
  Reading back what the writer writes, entity by entity: a reader that meets the fields of a written
  entity takes them all, and finds the entity again.
\<close>

subsection \<open>Fields\<close>

lemma sorted_insert_or_assign:
  "sorted_wrt (<) (map fst ms) \<Longrightarrow> sorted_wrt (<) (map fst (insert_or_assign k v ms))"
proof (induction k v ms rule: insert_or_assign.induct)
  case (2 k v j w ms)
  have "fst ` set (insert_or_assign k v ms) \<subseteq> insert k (fst ` set ms)" for k v and ms :: object
    by (induction k v ms rule: insert_or_assign.induct) auto
  then have "\<forall>x \<in> set (insert_or_assign k v ms). fst x = k \<or> fst x \<in> fst ` set ms" by blast
  then show ?case using 2 by (fastforce split: if_splits)
qed simp

lemma fields_of_sorted [simp]: "sorted_wrt (<) (map fst (fields_of kvs))"
proof -
  have "sorted_wrt (<) (map fst (fold (\<lambda>(k, v). emplace k v) kvs ms))" if "sorted_wrt (<) (map fst ms)" for ms
    using that by (induction kvs arbitrary: ms) (auto simp: emplace_def sorted_insert_or_assign)
  then show ?thesis by (simp add: fields_of_def)
qed

lemma map_of_emplace_all:
  "map_of (emplace key v ms) k = (case map_of ms k of None \<Rightarrow> if k = key then Some v else None | Some w \<Rightarrow> Some w)"
  by (auto simp: emplace_def split: option.split)

lemma map_of_fields_of [simp]: "map_of (fields_of kvs) k = map_of kvs k"
proof -
  have "map_of (fold (\<lambda>(k, v). emplace k v) kvs ms) k = (case map_of ms k of None \<Rightarrow> map_of kvs k | Some v \<Rightarrow> Some v)" for ms
    by (induction kvs arbitrary: ms) (auto simp: map_of_emplace_all split: option.split)
  then show ?thesis by (simp add: fields_of_def)
qed

lemma sorted_erase_key: "sorted_wrt (<) (map fst ms) \<Longrightarrow> sorted_wrt (<) (map fst (erase_key k ms))"
  by (induction ms) (auto simp: erase_key_def)

lemma erase_fields_of [simp]: "erase_key k (fields_of kvs) = fields_of (erase_key k kvs)"
  by (rule map_of_eq_sorted) (auto simp: sorted_erase_key)

lemma fields_of_Nil [simp]: "fields_of [] = []"
  by (simp add: fields_of_def)

lemma emplace_fields_of: "map_of kvs k = None \<Longrightarrow> emplace k v (fields_of kvs) = fields_of ((k, v) # kvs)"
  by (rule map_of_eq_sorted) (auto simp: emplace_def sorted_insert_or_assign)

lemma take_fields_of:
  "take_field key (fields_of kvs) = ((case map_of kvs key of None \<Rightarrow> JNull | Some v \<Rightarrow> v), fields_of (erase_key key kvs))"
proof (cases "map_of kvs key")
  case None
  then have "fields_of (erase_key key kvs) = fields_of kvs" by (intro map_of_eq_sorted) auto
  then show ?thesis by (simp add: take_field_def None)
qed (simp add: take_field_def)

lemma erase_key_simps [simp]:
  "erase_key k [] = []" "erase_key k ((j, v) # ms) = (if j = k then erase_key k ms else (j, v) # erase_key k ms)"
  "erase_key k (xs @ ys) = erase_key k xs @ erase_key k ys"
  by (auto simp: erase_key_def)

lemma run_bind: "run_state (m \<bind> f) s = (case run_state m s of (a, s') \<Rightarrow> run_state (f a) s')"
  by (simp add: split_beta)

lemma run_take [simp]:
  "run_state (takeValue key) (fields_of kvs, l) = ((case map_of kvs key of None \<Rightarrow> JNull | Some v \<Rightarrow> v), (fields_of (erase_key key kvs), l))"
  "run_state (takeString key s) (fields_of kvs, l) =
     (string_or s (case map_of kvs key of None \<Rightarrow> JNull | Some v \<Rightarrow> v), (fields_of (erase_key key kvs), l))"
  "run_state (takeInt key i) (fields_of kvs, l) =
     (int_or i (case map_of kvs key of None \<Rightarrow> JNull | Some v \<Rightarrow> v), (fields_of (erase_key key kvs), l))"
  "run_state (takeInt32 key i) (fields_of kvs, l) =
     (to_int32 (int_or i (case map_of kvs key of None \<Rightarrow> JNull | Some v \<Rightarrow> v)), (fields_of (erase_key key kvs), l))"
  "run_state (takeDouble key x) (fields_of kvs, l) =
     (double_or x (case map_of kvs key of None \<Rightarrow> JNull | Some v \<Rightarrow> v), (fields_of (erase_key key kvs), l))"
  "run_state (takeFloat key x) (fields_of kvs, l) =
     (to_float (double_or x (case map_of kvs key of None \<Rightarrow> JNull | Some v \<Rightarrow> v)), (fields_of (erase_key key kvs), l))"
  "run_state (takeBool key b) (fields_of kvs, l) =
     (bool_or b (case map_of kvs key of None \<Rightarrow> JNull | Some v \<Rightarrow> v), (fields_of (erase_key key kvs), l))"
  by (simp_all add: takeString_def takeInt_def takeInt32_def takeDouble_def takeFloat_def takeBool_def run_takeValue take_fields_of)

lemma run_steps [simp]:
  "run_state (tell f) (ms, l) = ((), (ms, f l))"
  "run_state (lift_state g) (ms, l) = (fst (g l), (ms, snd (g l)))"
  "run_state remaining (ms, l) = (ms, (ms, l))"
  by (simp_all add: tell_def lift_state_def remaining_def split_beta Let_def)

lemma run_inside:
  "map_of kvs key = Some (JObject ms) \<Longrightarrow>
   run_state (inside b key d m) (fields_of kvs, l) =
     (case run_state m (ms, l) of (a, (left, l')) \<Rightarrow>
        (a, (if b then fields_of ((key, JObject left) # erase_key key kvs) else fields_of (erase_key key kvs), l')))"
  by (simp add: inside_def take_fields_of emplace_fields_of split: prod.split)

text \<open>The fields as they are read: each real on the grid of six decimals.\<close>

abbreviation on_grid :: "object \<Rightarrow> object" where "on_grid ms \<equiv> map (map_prod id requant) ms"

lemma map_of_on_grid: "map_of (on_grid ms) k = map_option requant (map_of ms k)"
  by (induction ms) auto

lemma on_grid_fields_of [simp]: "on_grid (fields_of kvs) = fields_of (on_grid kvs)"
proof (rule map_of_eq_sorted)
  have "map fst (on_grid (fields_of kvs)) = map fst (fields_of kvs)" by simp
  then show "sorted_wrt (<) (map fst (on_grid (fields_of kvs)))" by (simp only: fields_of_sorted)
qed (auto simp: map_of_on_grid)

definition grid :: "fp \<Rightarrow> fp" where
  "grid x = (case x of Fin q \<Rightarrow> requantise q | _ \<Rightarrow> x)"

lemma requant_real [simp]: "requant (JReal x) = JReal (grid x)"
  by (simp add: grid_def)

declare requant.simps(4) [simp del]

lemma read_values [simp]:
  "int_or d (JInt i) = i" "double_or x (JReal y) = y" "int_or d JNull = d" "double_or x JNull = x"
  by (simp_all add: int_or_def double_or_def)

subsection \<open>What the file can carry\<close>

text \<open>
  The widths of the fields: an \<open>int32_t\<close>, an \<open>int16_t\<close>, an \<open>int64_t\<close>; a \<open>double\<close> on the grid and a
  \<open>float\<close> that the grid does not move to another one.
\<close>

definition int32_value :: "int \<Rightarrow> bool" where "int32_value i \<longleftrightarrow> - 2147483648 \<le> i \<and> i \<le> 2147483647"

definition int16_value :: "int \<Rightarrow> bool" where "int16_value i \<longleftrightarrow> - 32768 \<le> i \<and> i \<le> 32767"

definition small_real :: "fp \<Rightarrow> bool" where
  "small_real x \<longleftrightarrow> (case x of Fin q \<Rightarrow> \<bar>q\<bar> \<le> 2 ^ 32 | _ \<Rightarrow> False)"

definition double_value :: "fp \<Rightarrow> bool" where "double_value x \<longleftrightarrow> small_real x \<and> grid x = x"

definition float_value :: "fp \<Rightarrow> bool" where "float_value x \<longleftrightarrow> small_real x \<and> to_float (grid x) = x"

lemma widths [simp]:
  "int32_value i \<Longrightarrow> to_int32 i = i" "int16_value i \<Longrightarrow> to_int16 i = i"
  "double_value x \<Longrightarrow> grid x = x" "float_value x \<Longrightarrow> to_float (grid x) = x"
  by (simp_all add: int32_value_def int16_value_def float_value_def double_value_def to_int16_def)

lemma id_str_nonempty [simp]: "id_str k i \<noteq> ''''"
  by (cases k) (simp_all add: id_str_def)

declare id_parse_str [simp]

lemma reference_str [simp]: "reference k (id_str k i) owner f l = (Some i, l)"
  by (simp add: reference_def)

subsection \<open>Lanes and tracks\<close>

definition keep_pending :: "('i::linorder) \<Rightarrow> 'v option \<Rightarrow> ('i, 'v) omap \<Rightarrow> ('i, 'v) omap" where
  "keep_pending i t m = (case t of None \<Rightarrow> m | Some s \<Rightarrow> om_emplace i s m)"

definition storable_lane :: "ArrangementLane \<Rightarrow> bool" where
  "storable_lane n \<longleftrightarrow> int32_value (lane_height n) \<and> int32_value (lane_order n)"

definition lane_step :: "lane_id \<Rightarrow> ArrangementLane \<Rightarrow> Loader \<Rightarrow> Loader" where
  "lane_step i n l = on_tables (\<lambda>t. t\<lparr>lanes := om_emplace i (n\<lparr>lane_group_id := None\<rparr>) (lanes t)\<rparr>)
     (l\<lparr>pending_lane_group := keep_pending i (map_option (id_str KArrangementLane) (lane_group_id n)) (pending_lane_group l)\<rparr>)"

lemma lane_ungrouped:
  "n\<lparr>lane_group_id := g\<rparr> = \<lparr>lane_id = lane_id n, lane_name = lane_name n, lane_color = lane_color n, lane_height = lane_height n,
     lane_order = lane_order n, lane_collapsed = lane_collapsed n, lane_muted = lane_muted n, lane_soloed = lane_soloed n,
     lane_group_id = g\<rparr>" for n :: ArrangementLane
  by simp

lemma read_lane_written:
  assumes "storable_lane n" and "lane_id n = i"
  shows "run_state (read_lane i) (fields_of (on_grid (lane_fields n)), l) = ((), ([], lane_step i n l))"
  using assms
  by (cases "lane_group_id n")
    (simp_all add: read_lane_def lane_fields_def storable_lane_def lane_step_def keep_pending_def on_tables_def lane_ungrouped)

definition storable_slot :: "EffectSlot \<Rightarrow> bool" where
  "storable_slot s \<longleftrightarrow> pr_state_ref (slot_plugin s) = '''' \<and> pr_state_sha256 (slot_plugin s) = '''' \<and>
     (\<forall>p v. om_find (slot_params s) p = Some v \<longrightarrow> float_value v)"

lemma plugin_format_cases [simp]:
  "pluginFormatText f = '''' \<longleftrightarrow> f = FmtUnknown" "pluginFormatFrom '''' = FmtUnknown"
  by (cases f) (simp_all add: pluginFormatFrom_def)

lemma digit_plain: "isDigit c \<Longrightarrow> c \<noteq> CHR 0x00 \<and> \<not> c_space c \<and> c \<noteq> CHR ''-'' \<and> c \<noteq> CHR ''+''"
  by (auto simp: isDigit_def c_space_def less_eq_char_def)

lemma param_key_written [simp]: "param_key (nat_to_string (unat p)) = Some p" for p :: param_id
proof -
  define s where "s = nat_to_string (unat p)"
  have digits: "\<forall>c \<in> set s. isDigit c" and ne: "s \<noteq> []"
    using nat_to_string_digits [of "unat p"] by (simp_all add: s_def list_all_iff)
  obtain c cs where s: "s = c # cs" using ne by (cases s) auto
  have nul: "takeWhile (\<lambda>c. c \<noteq> CHR 0x00) s = s" and all: "takeWhile isDigit s = s"
    using digits digit_plain by (auto simp: takeWhile_eq_all_conv)
  have trim: "dropWhile c_space s = s" and sign: "\<not> starts (\<lambda>c. c = CHR ''-'') s" "\<not> starts (\<lambda>c. c = CHR ''-'' \<or> c = CHR ''+'') s"
    using digits digit_plain by (auto simp: s starts_def)
  have n: "decimal_value 0 s = unat p" by (simp add: s_def decimal_value_nat)
  have "unat p < 2 ^ LENGTH(32)" by (rule unsigned_less)
  then have "unat p < 2 ^ 64" by simp
  then have "param_key s = Some (word_of_int (int (unat p)))"
    using ne by (simp add: param_key_def Let_def nul trim sign all n)
  then show ?thesis by (simp add: s_def)
qed

text \<open>A map read back from its written entries, whatever their order in the file.\<close>

lemma om_find_fold_emplace:
  "om_find (fold (\<lambda>(k, v). om_emplace k v) xs m) j = (case om_find m j of None \<Rightarrow> map_of xs j | Some v \<Rightarrow> Some v)"
  by (induction xs arbitrary: m) (auto split: option.split)

lemma set_fields_of: "distinct (map fst kvs) \<Longrightarrow> set (fields_of kvs) = set kvs"
proof -
  assume d: "distinct (map fst kvs)"
  have "distinct (map fst (fields_of kvs))" using fields_of_sorted strict_sorted_iff by blast
  then have "(k, v) \<in> set (fields_of kvs) \<longleftrightarrow> (k, v) \<in> set kvs" for k v
    using d by (metis map_of_eq_Some_iff map_of_fields_of)
  then show ?thesis by auto
qed

lemma set_fields_of_subset: "set (fields_of kvs) \<subseteq> set kvs"
proof
  fix e assume e: "e \<in> set (fields_of kvs)"
  have "distinct (map fst (fields_of kvs))" using fields_of_sorted strict_sorted_iff by blast
  then have "map_of (fields_of kvs) (fst e) = Some (snd e)" using e by (metis map_of_is_SomeI prod.collapse)
  then show "e \<in> set kvs" by (metis map_of_SomeD map_of_fields_of prod.collapse)
qed

lemma map_of_same_set: "distinct (map fst xs) \<Longrightarrow> distinct (map fst ys) \<Longrightarrow> set xs = set ys \<Longrightarrow> map_of xs = map_of ys"
  by (rule map_of_eqI) auto

text \<open>A table is written in the order of the keys' text, whatever the order of the keys.\<close>

lemma fields_of_table:
  fixes es0 :: "('i::linorder \<times> 'e) list"
  assumes "inj key" and "distinct (map fst es0)"
  shows "\<exists>es. fields_of (map (\<lambda>(i, e). (key i, w i e)) es0) = map (\<lambda>(i, e). (key i, w i e)) es \<and>
    set es = set es0 \<and> distinct (map fst es)"
proof -
  define h where "h = (\<lambda>(i, e). (key i, w i e))"
  have fst_h: "fst \<circ> h = key \<circ> fst" by (auto simp: h_def)
  have d: "distinct (map fst (map h es0))"
    using assms unfolding map_map fst_h by (metis distinct_map inj_on_subset map_map subset_UNIV)
  define ms where "ms = fields_of (map h es0)"
  have s: "set ms = h ` set es0" using set_fields_of [OF d] by (simp add: ms_def)
  have inj: "inj_on h (set es0)"
    by (rule inj_onI) (auto simp: h_def dest: injD [OF assms(1)] eq_key_imp_eq_value [OF assms(2)])
  define g where "g = the_inv_into (set es0) h"
  have "map h (map g ms) = ms"
    by (rule trans [OF map_map], rule map_idI) (simp add: g_def f_the_inv_into_f [OF inj] s)
  moreover have "set (map g ms) = set es0"
    using the_inv_into_f_f [OF inj] by (simp add: s image_image g_def)
  moreover have "distinct (map fst (map g ms))"
  proof -
    have eq: "map fst (map h xs) = map key (map fst xs)" for xs by (simp only: map_map fst_h)
    have "distinct (map fst ms)" using fields_of_sorted strict_sorted_iff unfolding ms_def by blast
    then have "distinct (map key (map fst (map g ms)))" unfolding eq [symmetric] calculation(1) .
    then show ?thesis by (rule distinct_map [THEN iffD1, THEN conjunct1])
  qed
  ultimately show ?thesis unfolding h_def [symmetric] ms_def [symmetric] by metis
qed

lemma fold_emplace_entries:
  assumes "set es = set (om_entries m)" and "distinct (map fst es)"
  shows "fold (\<lambda>(i, e). om_emplace i e) es om_empty = m"
proof (rule om_eqI)
  fix k
  have "map_of es = map_of (om_entries m)" using assms by (intro map_of_same_set) simp_all
  then show "om_find (fold (\<lambda>(i, e). om_emplace i e) es om_empty) k = om_find m k"
    by (simp add: om_find_fold_emplace)
qed


lemma id_str_inj: "inj (id_str k)"
  by (rule injI) (metis id_parse_str option.inject)

lemma param_text_inj: "inj (\<lambda>p :: param_id. nat_to_string (unat p))"
  by (rule injI) (metis param_key_written option.inject)

subsection \<open>Mixer tracks\<close>

lemma json_find_object [simp]: "json_find key (JObject ms) = map_of ms key"
  by (simp add: json_find_def)

lemma stringAt_object [simp]:
  "stringAt (JObject ms) key = (case map_of ms key of None \<Rightarrow> '''' | Some v \<Rightarrow> string_or '''' v)"
  by (simp add: stringAt_def)

lemma read_params_written:
  assumes "\<And>p v. om_find m p = Some v \<Longrightarrow> float_value v"
    and "map_of ms ''params'' =
      Some (JObject (fields_of (on_grid (map (\<lambda>(p, v). (nat_to_string (unat p), JReal v)) (om_entries m)))))"
  shows "read_params (JObject ms) = (m :: (param_id, fp) omap)"
proof -
  have eq: "on_grid (map (\<lambda>(p, v). (nat_to_string (unat p), JReal v)) xs) =
      map (\<lambda>(p, v). (nat_to_string (unat p), JReal (grid v))) xs" for xs :: "(param_id \<times> fp) list"
    by (simp add: split_beta)
  obtain es where es: "fields_of (map (\<lambda>(p, v). (nat_to_string (unat p), JReal (grid v))) (om_entries m)) =
      map (\<lambda>(p, v). (nat_to_string (unat p), JReal (grid v))) es" "set es = set (om_entries m)" "distinct (map fst es)"
    using fields_of_table [OF param_text_inj om_entries_distinct [of m], of "\<lambda>p v. JReal (grid v)"] by blast
  have "fold (\<lambda>(key, v) m. if \<not> isNumber v then m
      else case param_key key of None \<Rightarrow> m | Some p \<Rightarrow> om_emplace p (to_float (asDouble (Fin 0) v)) m)
        (map (\<lambda>(p, v). (nat_to_string (unat p), JReal (grid v))) xs) m' = fold (\<lambda>(p, v). om_emplace p v) xs m'"
    if "set xs \<subseteq> set (om_entries m)" for xs m'
    using that assms(1) by (induction xs arbitrary: m') auto
  then show ?thesis
    using fold_emplace_entries [OF es(2,3)] es(2) unfolding read_params_def json_find_object assms(2) eq es(1) by simp
qed

lemma plugin_ref_eq:
  "pr_state_ref p = '''' \<Longrightarrow> pr_state_sha256 p = '''' \<Longrightarrow>
   default_plugin_ref\<lparr>pr_format := pr_format p, pr_id := pr_id p, pr_name := pr_name p, pr_vendor := pr_vendor p,
     pr_path_hint := pr_path_hint p\<rparr> = p"
  by (simp add: default_plugin_ref_def)

lemma read_slot_written:
  assumes "storable_slot s"
  shows "read_slot (slot_id s) (requant (write_slot s)) = s"
proof -
  have p: "read_params (requant (write_slot s)) = slot_params s"
    unfolding write_slot_def requant.simps on_grid_fields_of
    by (rule read_params_written) (use assms in \<open>auto simp: storable_slot_def\<close>)
  show ?thesis
    using assms plugin_ref_eq [of "slot_plugin s"]
    unfolding read_slot_def p
    by (cases "pr_format (slot_plugin s) = FmtUnknown") (simp_all add: write_slot_def plugin_fields_def storable_slot_def)
qed

lemma read_chain_written:
  "\<forall>s \<in> set ss. storable_slot s \<Longrightarrow> read_chain name (map (requant \<circ> write_slot) ss) l = (ss, l)"
proof (induction ss)
  case (Cons s ss)
  have "isObject (requant (write_slot s))" "stringAt (requant (write_slot s)) ''id'' = id_str KEffect (slot_id s)"
    by (simp_all add: write_slot_def)
  then show ?case using Cons by (simp add: read_slot_written)
qed simp

definition storable_track :: "MixerTrack \<Rightarrow> bool" where
  "storable_track t \<longleftrightarrow> float_value (track_gain t) \<and> float_value (track_pan t) \<and> (\<forall>s \<in> set (track_effects t). storable_slot s)"

definition track_step :: "track_id \<Rightarrow> MixerTrack \<Rightarrow> Loader \<Rightarrow> Loader" where
  "track_step i t l = on_tables (\<lambda>ts. ts\<lparr>mixer_tracks := om_emplace i (t\<lparr>track_output := None\<rparr>) (mixer_tracks ts)\<rparr>)
     (l\<lparr>pending_track_output := keep_pending i (map_option (id_str KMixerTrack) (track_output t)) (pending_track_output l)\<rparr>)"

lemma track_unrouted:
  "t\<lparr>track_output := out\<rparr> = \<lparr>track_id = track_id t, track_name = track_name t, track_output = out, track_gain = track_gain t,
     track_pan = track_pan t, track_muted = track_muted t, track_soloed = track_soloed t, track_effects = track_effects t\<rparr>"
  for t :: MixerTrack
  by simp

lemma read_track_written:
  assumes "storable_track t" and "track_id t = i"
  shows "run_state (read_track i) (fields_of (on_grid (track_fields t)), l) = ((), ([], track_step i t l))"
  using assms
  by (cases "track_output t")
    (simp_all add: read_track_def track_fields_def storable_track_def track_step_def keep_pending_def on_tables_def track_unrouted
      read_chain_written)

subsection \<open>Instruments\<close>

lemma run_inside_none:
  "map_of kvs key = None \<Longrightarrow> run_state (inside b key d m) (fields_of kvs, l) = (d, (fields_of kvs, l))"
proof -
  assume none: "map_of kvs key = None"
  then have "fields_of (erase_key key kvs) = fields_of kvs" by (intro map_of_eq_sorted) auto
  with none show ?thesis by (simp add: inside_def take_fields_of)
qed

lemma run_state_if: "run_state (if b then m else n) s = (if b then run_state m s else run_state n s)"
  by simp

lemma read_plugin_written:
  "run_state (read_plugin owner) (fields_of (on_grid (plugin_fields p)), l) =
     (p\<lparr>pr_state_ref := '''', pr_state_sha256 := ''''\<rparr>, ([], l))"
  by (cases "pr_format p = FmtUnknown") (simp_all add: read_plugin_def plugin_fields_def default_plugin_ref_def)

lemma read_note_defaults_written:
  assumes "write_note_defaults d = JObject ms"
    and "0 \<le> nd_velocity d" "nd_velocity d \<le> MaxVelocity" "float_value (nd_pan d)" "int16_value (nd_pitch_offset d)"
  shows "run_state (read_note_defaults owner) (on_grid ms, l) = (d, ([], l))"
  using assms by (auto simp: read_note_defaults_def clampVelocity_def write_note_defaults_def)

definition storable_settings :: "ChannelSettings \<Rightarrow> bool" where
  "storable_settings s \<longleftrightarrow>
     (\<forall>i \<in> {cs_gate_percent s, cs_cut_group s, cs_cut_by_group s, cs_max_polyphony s, cs_root_key s, cs_key_low s, cs_key_high s,
        cs_fine_tune_cents s, cs_mod_x s, cs_mod_y s, cs_arpeggiator_time_ticks s, cs_arpeggiator_gate_percent s,
        cs_echo_time_ticks s, cs_echo_feedback_percent s}. int32_value i) \<and>
     in_int64 (cs_shift_ticks s) \<and> float_value (cs_velocity_tracking s)"

lemma read_settings_written:
  assumes "write_channel_settings s = JObject ms" and "storable_settings s"
  shows "run_state read_channel_settings (on_grid ms, l) = (s, ([], l))"
  using assms by (auto simp: read_channel_settings_def write_channel_settings_def storable_settings_def)

lemma read_routes_written: "read_routes owner n (map (requant \<circ> write_route) rs) l = (rs, l)"
proof (induction rs arbitrary: n)
  case (Cons r rs)
  have "route_text (requant (write_route r)) = id_str KMixerTrack (route_track r)"
    "route_port_of n (requant (write_route r)) = route_port r"
    by (simp_all add: write_route_def route_text_def route_port_of_def)
  then show ?case using Cons by simp
qed simp

definition keep_routes :: "('i::linorder) \<Rightarrow> OutputRoute list \<Rightarrow> ('i, OutputRoute list) omap \<Rightarrow> ('i, OutputRoute list) omap" where
  "keep_routes i rs m = (if rs = [] then m else om_insert i ((case om_find m i of None \<Rightarrow> [] | Some qs \<Rightarrow> qs) @ rs) m)"

definition with_state :: "StateRecord option \<Rightarrow> PluginRef \<Rightarrow> PluginRef" where
  "with_state override p =
     (case override of None \<Rightarrow> p | Some r \<Rightarrow> p\<lparr>pr_state_ref := sr_state_ref r, pr_state_sha256 := sr_sha256 r\<rparr>)"

definition storable_instrument :: "Instrument \<Rightarrow> bool" where
  "storable_instrument n \<longleftrightarrow>
     int32_value (inst_order n) \<and> float_value (inst_gain n) \<and> float_value (inst_pan n) \<and>
     (let d = inst_note_defaults n in 0 \<le> nd_velocity d \<and> nd_velocity d \<le> MaxVelocity \<and> float_value (nd_pan d) \<and>
        int16_value (nd_pitch_offset d)) \<and>
     storable_settings (inst_channel_settings n) \<and> inst_routing n \<noteq> []"

definition stored_instrument :: "StateRecord option \<Rightarrow> Instrument \<Rightarrow> Instrument" where
  "stored_instrument override n = n\<lparr>inst_plugin := with_state override (inst_plugin n)\<rparr>"

definition unrouted :: "Instrument \<Rightarrow> Instrument" where
  "unrouted n = n\<lparr>inst_routing := []\<rparr>"

definition instrument_step :: "StateRecord option \<Rightarrow> instrument_id \<Rightarrow> Instrument \<Rightarrow> Loader \<Rightarrow> Loader" where
  "instrument_step override i n l =
     on_tables (\<lambda>t. t\<lparr>instruments := om_emplace i (unrouted (stored_instrument override n)) (instruments t)\<rparr>)
       (l\<lparr>pending_routing := keep_routes i (inst_routing n) (pending_routing l)\<rparr>)"

lemma string_or_null_read [simp]: "string_or '''' (requant (string_or_null s)) = s"
  by (simp add: string_or_null_def)

lemma instrument_stored:
  "unrouted (stored_instrument override n) =
     \<lparr>inst_id = inst_id n, inst_name = inst_name n, inst_color = inst_color n, inst_order = inst_order n,
      inst_plugin = with_state override (inst_plugin n),
      inst_note_defaults = inst_note_defaults n, inst_channel_settings = inst_channel_settings n, inst_routing = [],
      inst_muted = inst_muted n, inst_soloed = inst_soloed n, inst_gain = inst_gain n, inst_pan = inst_pan n\<rparr>"
  by (simp add: unrouted_def stored_instrument_def)

lemma read_instrument_written:
  assumes "storable_instrument n" and "inst_id n = i"
  shows "run_state (read_instrument order i) (fields_of (on_grid (instrument_fields override n)), l) =
    ((), (fields_of [(''note_defaults'', JObject []), (''plugin'', JObject [])], instrument_step override i n l))"
proof -
  obtain ds where ds: "write_note_defaults (inst_note_defaults n) = JObject ds" by (simp add: write_note_defaults_def)
  obtain cs where cs: "write_channel_settings (inst_channel_settings n) = JObject cs" by (simp add: write_channel_settings_def)
  define ps where "ps = on_grid (plugin_fields (inst_plugin n))"
  note d = read_note_defaults_written [OF ds] and c = read_settings_written [OF cs]
  have p: "run_state (read_plugin owner) (fields_of ps, l) = ((inst_plugin n)\<lparr>pr_state_ref := '''', pr_state_sha256 := ''''\<rparr>, ([], l))"
    for owner l by (simp add: ps_def read_plugin_written)
  show ?thesis
    using assms
    by (cases "inst_channel_settings n = default_channel_settings"; cases "inst_soloed n"; cases override)
      (simp_all add: read_instrument_def instrument_fields_def Let_def storable_instrument_def ds cs d c p flip: ps_def
        add: run_inside run_inside_none read_routes_written instrument_step_def on_tables_def add_pending_routes_def
        keep_routes_def instrument_stored with_state_def)
qed

subsection \<open>Patterns\<close>

lemma read_points_written:
  assumes "\<forall>p \<in> set ps. float_value (pt_value p)" and "write_points ps = JArray vs"
  shows "read_points (map requant vs) = ps"
proof -
  have "read_points (map requant (map (\<lambda>p. JArray [JInt (pt_position p), JReal (pt_value p)]) ps)) = ps"
    using assms(1) by (induction ps) (simp_all add: read_points_def map_filter_simps)
  then show ?thesis using assms(2) by (auto simp: write_points_def)
qed

definition storable_automation :: "AutomationSource \<Rightarrow> bool" where
  "storable_automation a \<longleftrightarrow>
     (case as_target_kind a of
        TargetInstrument \<Rightarrow> as_mixer_track a = no_id \<and> as_effect a = no_id
      | TargetMixerTrack \<Rightarrow> as_instrument a = no_id \<and> as_effect a = no_id
      | TargetEffect \<Rightarrow> as_instrument a = no_id) \<and>
     (\<forall>p \<in> set (as_points a). in_int64 (pt_position p) \<and> float_value (pt_value p))"

lemma automation_stored:
  "\<lparr>as_target_kind = as_target_kind a, as_instrument = as_instrument a, as_mixer_track = as_mixer_track a, as_effect = as_effect a,
    as_parameter = as_parameter a, as_points = as_points a\<rparr> = a" for a :: AutomationSource
  by simp

lemma read_pattern_automation_written:
  assumes "storable_automation a" and "as_points a \<noteq> []"
  shows "read_pattern_automation (requant (writePatternAutomation a)) = Some a"
proof -
  obtain vs where vs: "write_points (as_points a) = JArray vs" by (simp add: write_points_def)
  have "read_points (map requant vs) = as_points a"
    using read_points_written [OF _ vs] assms(1) by (simp add: storable_automation_def)
  then show ?thesis
    using assms
    by (cases "as_target_kind a")
      (simp_all add: writePatternAutomation_def target_fields_def read_pattern_automation_def pattern_target_def Let_def vs
        storable_automation_def default_automation_def AutomationSource.equality)
qed

definition storable_note :: "Note \<Rightarrow> bool" where
  "storable_note n \<longleftrightarrow> isValidNote n \<and> 0 \<le> note_velocity n"

lemma read_records_written:
  assumes "\<forall>n \<in> set ns. storable_note n" and "res_note_properties residue = om_empty"
  shows "read_records p i name (map (requant \<circ> write_note residue p i) ns) (l, bad) = (ns, l, bad)"
  using assms(1)
proof (induction ns)
  case (Cons n ns)
  define v where "v = requant (write_note residue p i n)"
  have v: "v = JArray [JInt (note_start n), JInt (note_length n), JInt (note_key n), JInt (note_velocity n)]"
    by (simp add: v_def write_note_def assms(2))
  have n: "0 \<le> note_start n" "0 < note_length n" "0 \<le> note_key n" "note_key n \<le> 127" "0 \<le> note_velocity n"
    "note_velocity n \<le> MaxVelocity"
    using Cons(2) by (auto simp: storable_note_def isValidNote_def)
  have "\<not> malformed v" "record_field v 0 0 = note_start n" "record_field v (Suc 0) 0 = note_length n"
    "record_field v 2 60 = note_key n" "record_field v 3 DefaultVelocity = note_velocity n" "keep_properties p i m v l = l" for m
    by (simp_all add: v malformed_def record_field_def keep_properties_def numeral_eq_Suc)
  then show ?case using n Cons by (simp add: clampVelocity_def Let_def flip: v_def)
qed simp

lemma readSequence_written:
  assumes "\<forall>n \<in> set s. storable_note n" and "isSorted s" and "res_note_properties residue = om_empty"
  shows "readSequence p i name (map (requant \<circ> write_note residue p i) s) l = (s, l)"
  using assms by (simp add: readSequence_def read_records_written assignSorted_def)

definition storable_sequences :: "(instrument_id, note_sequence) omap \<Rightarrow> bool" where
  "storable_sequences m \<longleftrightarrow> (\<forall>i s. om_find m i = Some s \<longrightarrow> isSorted s \<and> (\<forall>n \<in> set s. storable_note n))"

lemma each_sequence_written:
  assumes "\<forall>(i, s) \<in> set es. isSorted s \<and> (\<forall>n \<in> set s. storable_note n)" and "res_note_properties residue = om_empty"
  shows "each_entry (read_sequence_entry p name)
      (map (\<lambda>(i, s). (id_str KInstrument i, JArray (map (requant \<circ> write_note residue p i) s))) es) (l, seqs) =
    (map (\<lambda>(i, s). (id_str KInstrument i, JArray [])) es, l, fold (\<lambda>(i, s). om_emplace i s) es seqs)"
  using assms(1)
  by (induction es arbitrary: seqs)
    (auto simp: read_sequence_entry_def readSequence_written assms(2) id_parse_str split: prod.split)

lemma read_sequences_written:
  assumes "write_sequences residue q = JObject ms" and "storable_sequences (pat_sequences q)"
    and "res_note_properties residue = om_empty"
  shows "run_state (read_sequences (pat_id q) name) (on_grid ms, l) = (pat_sequences q, ([], l))"
proof -
  let ?w = "\<lambda>i s. JArray (map (requant \<circ> write_note residue (pat_id q) i) s)"
  obtain es where es: "fields_of (map (\<lambda>(i, s). (id_str KInstrument i, ?w i s)) (om_entries (pat_sequences q))) =
      map (\<lambda>(i, s). (id_str KInstrument i, ?w i s)) es"
    "set es = set (om_entries (pat_sequences q))" "distinct (map fst es)"
    using fields_of_table [OF id_str_inj om_entries_distinct [of "pat_sequences q"], of KInstrument ?w] by blast
  have "ms = fields_of (map (\<lambda>(i, s). (id_str KInstrument i, JArray (map (write_note residue (pat_id q) i) s)))
      (om_entries (pat_sequences q)))"
    using assms(1) by (simp add: write_sequences_def)
  then have ms: "on_grid ms = map (\<lambda>(i, s). (id_str KInstrument i, ?w i s)) es"
    using es(1) by (simp add: case_prod_unfold comp_def)
  have s: "\<forall>(i, s) \<in> set es. isSorted s \<and> (\<forall>n \<in> set s. storable_note n)"
    using assms(2) es(2) by (auto simp: storable_sequences_def)
  show ?thesis
    unfolding ms read_sequences_def
    by (auto simp: each_sequence_written [OF s assms(3)] fold_emplace_entries [OF es(2,3)] filter_empty_conv)
qed

definition storable_signature :: "TimeSignature \<Rightarrow> bool" where
  "storable_signature s \<longleftrightarrow> 0 < ts_numerator s \<and> 0 < ts_denominator s \<and> int32_value (ts_numerator s) \<and> int32_value (ts_denominator s)"

definition storable_pattern :: "Pattern \<Rightarrow> bool" where
  "storable_pattern q \<longleftrightarrow>
     0 \<le> pat_length q \<and> in_int64 (pat_length q) \<and> int32_value (pat_order q) \<and> storable_signature (pat_time_signature q) \<and>
     double_value (pat_swing q) \<and> \<not> fp_less (pat_swing q) (Fin 0) \<and> \<not> fp_less (Fin 1) (pat_swing q) \<and>
     storable_sequences (pat_sequences q) \<and> (\<forall>a \<in> set (pat_automation q). storable_automation a \<and> as_points a \<noteq> [])"

definition pattern_step :: "pattern_id \<Rightarrow> Pattern \<Rightarrow> Loader \<Rightarrow> Loader" where
  "pattern_step i q = on_tables (\<lambda>t. t\<lparr>patterns := om_emplace i q (patterns t)\<rparr>)"

lemma read_signature_written:
  assumes "storable_signature s"
  shows "map_of kvs ''time_signature'' = Some (JArray [JInt (ts_numerator s), JInt (ts_denominator s)]) \<Longrightarrow>
      run_state (read_signature c) (fields_of kvs, l) = (s, (fields_of (erase_key ''time_signature'' kvs), l))"
    and "map_of kvs ''time_signature'' = None \<Longrightarrow>
      run_state (read_signature c) (fields_of kvs, l) = (common_time, (fields_of (erase_key ''time_signature'' kvs), l))"
  using assms by (simp_all add: read_signature_def signature_from_def storable_signature_def Let_def common_time_def)

lemma map_filter_written:
  "\<forall>a \<in> set as. storable_automation a \<and> as_points a \<noteq> [] \<Longrightarrow>
   List.map_filter read_pattern_automation (map (requant \<circ> writePatternAutomation) as) = as"
  by (induction as) (simp_all add: map_filter_simps read_pattern_automation_written)

lemma signature_common: "ts_numerator s = 4 \<and> ts_denominator s = 4 \<longleftrightarrow> s = common_time"
  by (auto simp: common_time_def)

lemma pattern_stored:
  "pat_id q = i \<Longrightarrow> pat_order q = order \<Longrightarrow> pat_group q = g \<Longrightarrow> pat_time_signature q = signature \<Longrightarrow> pat_automation q = as \<Longrightarrow>
   \<lparr>pat_id = i, pat_name = pat_name q, pat_color = pat_color q, pat_length = pat_length q, pat_order = order, pat_group = g,
    pat_time_signature = signature, pat_swing = pat_swing q, pat_sequences = pat_sequences q, pat_automation = as\<rparr> = q"
  by auto

lemma read_pattern_written:
  assumes "storable_pattern q" and "pat_id q = i" and "res_note_properties residue = om_empty"
  shows "run_state (read_pattern i) (fields_of (on_grid (pattern_fields residue q)), l) = ((), ([], pattern_step i q l))"
proof -
  obtain ss where ss: "write_sequences residue q = JObject ss" by (simp add: write_sequences_def)
  have s: "run_state (read_sequences i name) (on_grid ss, l) = (pat_sequences q, ([], l))" for name l
    using read_sequences_written [OF ss _ assms(3)] assms(1,2) by (simp add: storable_pattern_def)
  have a: "\<forall>a \<in> set (pat_automation q). storable_automation a \<and> as_points a \<noteq> []"
    using assms(1) by (simp add: storable_pattern_def)
  define c where "c = (ts_numerator (pat_time_signature q) = 4 \<and> ts_denominator (pat_time_signature q) = 4)"
  show ?thesis
    using assms(1,2) signature_common [of "pat_time_signature q"]
    by (cases "pat_order q = 0"; cases "pat_group q = []"; cases c; cases "pat_automation q = []")
      (simp_all add: read_pattern_def pattern_fields_def ss s storable_pattern_def run_inside
        read_signature_written [of "pat_time_signature q"] map_filter_written [OF a] pattern_step_def on_tables_def c_def pattern_stored)
qed

subsection \<open>Clips\<close>

definition storable_source :: "ClipSource \<Rightarrow> bool" where
  "storable_source s \<longleftrightarrow>
     (case s of
        SrcPattern p \<Rightarrow> True
      | SrcAudio a \<Rightarrow> in_int64 (au_source_offset a) \<and> in_int64 (au_source_length a) \<and> float_value (au_gain a) \<and>
          double_value (au_source_bpm a)
      | SrcAutomation m \<Rightarrow> storable_automation m \<and> sorted (map pt_position (as_points m)))"

definition storable_transforms :: "ClipTransforms \<Rightarrow> bool" where
  "storable_transforms t \<longleftrightarrow> int16_value (tr_transpose t) \<and> in_int64 (tr_window_start t) \<and> float_value (tr_velocity_scale t) \<and>
     in_int64 (tr_time_nudge t) \<and> float_value (tr_probability t)"

definition storable_clip :: "Clip \<Rightarrow> bool" where
  "storable_clip c \<longleftrightarrow> 0 < clip_length c \<and> in_int64 (clip_length c) \<and> in_int64 (clip_start c) \<and>
     storable_transforms (clip_transforms c) \<and> storable_source (clip_source c)"

definition source_step :: "clip_id \<Rightarrow> ClipSource \<Rightarrow> Loader \<Rightarrow> Loader" where
  "source_step i s =
     (case s of
        SrcPattern p \<Rightarrow> note_pattern i p
      | SrcAudio a \<Rightarrow> note_track i (au_destination a)
      | SrcAutomation m \<Rightarrow>
          (case as_target_kind m of
             TargetInstrument \<Rightarrow> note_instrument i (as_instrument m)
           | TargetMixerTrack \<Rightarrow> note_track i (as_mixer_track m)
           | TargetEffect \<Rightarrow> note_effect i (as_effect m) \<circ> note_track i (as_mixer_track m)))"

definition clip_step :: "clip_id \<Rightarrow> Clip \<Rightarrow> Loader \<Rightarrow> Loader" where
  "clip_step i c l = on_tables (\<lambda>t. t\<lparr>clips := om_emplace i c (clips t)\<rparr>) (source_step i (clip_source c) l)"

definition source_kind :: "ClipSource \<Rightarrow> string" where
  "source_kind s = (case s of SrcPattern p \<Rightarrow> ''pattern'' | SrcAudio a \<Rightarrow> ''audio'' | SrcAutomation m \<Rightarrow> ''automation'')"

lemma read_transforms_written:
  assumes "storable_transforms t"
  shows "run_state read_transforms (fields_of (on_grid (transform_fields t)), l) = (t, ([], l))"
  using assms by (simp add: read_transforms_def transform_fields_def storable_transforms_def)

lemma sort_points: "sorted (map pt_position ps) \<Longrightarrow> sort_key pt_position ps = ps"
  by (rule sort_key_id_if_sorted)

lemma automation_again:
  "as_instrument a = n \<Longrightarrow> as_mixer_track a = t \<Longrightarrow> as_effect a = e \<Longrightarrow> as_target_kind a = k \<Longrightarrow>
   \<lparr>as_target_kind = k, as_instrument = n, as_mixer_track = t, as_effect = e, as_parameter = as_parameter a, as_points = as_points a\<rparr> = a"
  for a :: AutomationSource
  by auto

lemma read_source_written:
  assumes "storable_source s"
  shows "run_state (read_source key i (source_kind s)) (fields_of (on_grid (source_fields s)), l) =
    ((Some s, []), ([], source_step i s l))"
proof (cases s)
  case (SrcPattern p)
  then show ?thesis by (simp add: read_source_def source_kind_def read_pattern_source_def source_fields_def source_step_def)
next
  case (SrcAudio a)
  then show ?thesis using assms
    by (simp add: read_source_def source_kind_def read_audio_source_def source_fields_def source_step_def storable_source_def)
next
  case (SrcAutomation m)
  obtain vs where vs: "write_points (as_points m) = JArray vs" by (simp add: write_points_def)
  have p: "read_points (map requant vs) = as_points m" "sort_key pt_position (as_points m) = as_points m"
    using read_points_written [OF _ vs] assms SrcAutomation
    by (simp_all add: storable_source_def storable_automation_def sort_points)
  show ?thesis using assms
    by (cases "as_target_kind m")
      (simp_all add: SrcAutomation read_source_def source_kind_def read_automation_source_def source_fields_def source_step_def
        storable_source_def storable_automation_def target_fields_def vs p read_target_def read_effect_target_def
        default_automation_def automation_again)
qed

lemma source_type_written:
  "map_of kvs ''source'' = Some (JObject (on_grid ss)) \<Longrightarrow> writeClipSource s = JObject ss \<Longrightarrow>
   source_type (fields_of kvs) = Some (source_kind s)"
  by (cases s) (auto simp: source_type_def writeClipSource_def source_fields_def source_kind_def)

lemma clip_again:
  "clip_id c = i \<Longrightarrow>
   \<lparr>clip_id = i, clip_lane = clip_lane c, clip_start = clip_start c, clip_length = clip_length c, clip_muted = clip_muted c,
    clip_source = clip_source c, clip_transforms = clip_transforms c\<rparr> = c"
  by auto

lemma source_kinds: "(source_kind s \<noteq> ''pattern'' \<and> source_kind s \<noteq> ''audio'' \<and> source_kind s \<noteq> ''automation'') = False"
  by (cases s) (simp_all add: source_kind_def)

lemma read_clip_written:
  assumes "storable_clip c" and "clip_id c = i"
  shows "run_state (read_clip key i) (fields_of (on_grid (clip_fields c)), l) =
    (True, (fields_of [(''transforms'', JObject [])], clip_step i c l))"
proof -
  obtain ss where ss: "writeClipSource (clip_source c) = JObject ss" by (simp add: writeClipSource_def)
  have src: "run_state (read_source key i (source_kind (clip_source c))) (on_grid ss, l) =
      ((Some (clip_source c), []), ([], source_step i (clip_source c) l))" for key l
    using read_source_written [of "clip_source c" key i l] assms(1) ss by (auto simp: storable_clip_def writeClipSource_def)
  define ts where "ts = on_grid (transform_fields (clip_transforms c))"
  have trs: "run_state read_transforms (fields_of ts, l) = (clip_transforms c, ([], l))" for l
    using read_transforms_written [of "clip_transforms c" l] assms(1) by (simp add: ts_def storable_clip_def)
  have kind: "source_type (fields_of (on_grid (clip_fields c))) = Some (source_kind (clip_source c))"
    by (rule source_type_written [OF _ ss]) (simp add: clip_fields_def ss)
  show ?thesis
    using assms
    unfolding read_clip_def run_bind run_steps(3) prod.case kind option.case source_kinds if_False
    by (simp add: read_known_clip_def clip_fields_def ss src trs storable_clip_def run_inside clip_step_def on_tables_def
        clip_again flip: ts_def)
qed

subsection \<open>Transport and name\<close>

definition storable_transport :: "TransportState \<Rightarrow> bool" where
  "storable_transport t \<longleftrightarrow> double_value (tp_tempo t) \<and> fp_less (Fin 0) (tp_tempo t) \<and> \<not> fp_less (Fin 1000) (tp_tempo t) \<and>
     storable_signature (tp_time_signature t) \<and> in_int64 (tp_loop_start t) \<and> in_int64 (tp_loop_end t) \<and>
     tp_loop_start t \<le> tp_loop_end t"

lemma read_transport_written:
  assumes "storable_transport t" and "writeTransport t = JObject ms"
  shows "run_state read_transport_fields (on_grid ms, l) = (t, (fields_of [(''loop'', JObject [])], l))"
proof -
  show ?thesis
    using assms
    by (cases "tp_metronome_enabled t")
      (auto simp: read_transport_fields_def writeTransport_def storable_transport_def run_inside read_loop_def
        read_signature_written [of "tp_time_signature t"])
qed

lemma read_meta_written:
  assumes "write_meta created_with m = JObject ms"
  shows "run_state read_meta_fields (on_grid ms, l) =
    (m\<lparr>meta_created_with := if created_with = '''' then meta_created_with m else created_with\<rparr>, ([], l))"
  using assms by (auto simp: read_meta_fields_def write_meta_def)

end
