(* ===== verification/Save_Load.thy ===== *)
theory Save_Load
  imports Save_Fields Loader_Properties
begin

text \<open>
  Loading what was saved gives the project back: the sections are read whatever the order of their
  keys, every reference resolves to what it was, and nothing is left over.
\<close>

subsection \<open>A section\<close>

lemma prune_entries_Nil: "prune_entries ms = [] \<longleftrightarrow> (\<forall>(k, v) \<in> set ms. pruneEmpty v = JObject [])"
  by (induction ms) (auto simp: Let_def split: if_splits)

lemma each_entry_written:
  assumes "\<And>i e l. (i, e) \<in> set es \<Longrightarrow> \<exists>v'. f (key i) (w i e) l = (v', step i e l) \<and> pruneEmpty v' = JObject []"
  shows "\<exists>ms'. each_entry f (map (\<lambda>(i, e). (key i, w i e)) es) l = (ms', fold (\<lambda>(i, e). step i e) es l) \<and> prune_entries ms' = []"
  using assms
proof (induction es arbitrary: l)
  case (Cons x es)
  obtain i e where x: "x = (i, e)" by fastforce
  have "\<exists>v'. f (key i) (w i e) l = (v', step i e l) \<and> pruneEmpty v' = JObject []"
    using Cons(2) [of i e l] x by simp
  moreover have "\<exists>ms'. each_entry f (map (\<lambda>(i, e). (key i, w i e)) es) (step i e l) =
      (ms', fold (\<lambda>(i, e). step i e) es (step i e l)) \<and> prune_entries ms' = []"
    by (rule Cons(1)) (use Cons(2) in simp)
  ultimately show ?case by (auto simp: x)
qed simp

lemma read_map_written:
  fixes m :: "('k typed_id, 'e) omap"
  assumes "map_of kvs key = Some (requant (write_table k write m))"
    and "\<And>i e l. om_find m i = Some e \<Longrightarrow>
      \<exists>v'. f (id_str k i) (requant (write i e)) l = (v', step i e l) \<and> pruneEmpty v' = JObject []"
  shows "\<exists>ms' es. read_map key f (fields_of kvs, l) =
      (fields_of ((key, JObject ms') # erase_key key kvs), fold (\<lambda>(i, e). step i e) es l) \<and>
    prune_entries ms' = [] \<and> set es = set (om_entries m) \<and> distinct (map fst es)"
proof -
  obtain es where es: "fields_of (map (\<lambda>(i, e). (id_str k i, requant (write i e))) (om_entries m)) =
      map (\<lambda>(i, e). (id_str k i, requant (write i e))) es" "set es = set (om_entries m)" "distinct (map fst es)"
    using fields_of_table [OF id_str_inj om_entries_distinct [of m], of k "\<lambda>i e. requant (write i e)"] by blast
  have w: "requant (write_table k write m) = JObject (map (\<lambda>(i, e). (id_str k i, requant (write i e))) es)"
    using es(1) by (simp add: write_table_def case_prod_unfold comp_def)
  have "\<exists>ms'. each_entry f (map (\<lambda>(i, e). (id_str k i, requant (write i e))) es) l = (ms', fold (\<lambda>(i, e). step i e) es l) \<and>
      prune_entries ms' = []"
    by (rule each_entry_written [of es f "id_str k" "\<lambda>i e. requant (write i e)" step l])
      (use assms(2) es(2) in simp)
  then obtain ms' where "each_entry f (map (\<lambda>(i, e). (id_str k i, requant (write i e))) es) l = (ms', fold (\<lambda>(i, e). step i e) es l)"
    "prune_entries ms' = []" by blast
  then show ?thesis
    using es(2,3) assms(1) by (auto simp: read_map_def take_fields_of w emplace_fields_of)
qed

lemma read_entity_written:
  assumes "run_state (read i) (ms, l) = (a, (ms', l'))" and "prune_entries ms' = []"
  shows "\<exists>v'. read_entity k noun read skipped (id_str k i) (JObject ms) l = (a, v', l') \<and> pruneEmpty v' = JObject []"
  using assms by (simp add: read_entity_def)

lemma read_entity_unit:
  assumes "run_state (read i) (ms, l) = ((), (ms', l'))" and "prune_entries ms' = []"
  shows "\<exists>v'. snd (read_entity k noun read () (id_str k i) (JObject ms) l) = (v', l') \<and> pruneEmpty v' = JObject []"
  using assms by (simp add: read_entity_def)

subsection \<open>The maps that are built\<close>

lemma om_find_fold_keep:
  "distinct (map fst es) \<Longrightarrow>
   om_find (fold (\<lambda>(i, e). keep_pending i (g e)) es m) j =
     (case om_find m j of None \<Rightarrow> Option.bind (map_of es j) g | Some v \<Rightarrow> Some v)"
proof (induction es arbitrary: m)
  case (Cons x es)
  obtain i e where x: "x = (i, e)" by fastforce
  have "map_of es i = None" using Cons(2) x by (simp add: map_of_eq_None_iff)
  then show ?case using Cons x by (auto simp: keep_pending_def split: option.splits)
qed (simp split: option.split)

lemma fold_keep_written:
  assumes "set es = set (om_entries m)" and "distinct (map fst es)"
  shows "fold (\<lambda>(i, e). keep_pending i (g e)) es om_empty = om_collect (\<lambda>i. g) m"
proof (rule om_eqI)
  fix k
  have "map_of es = map_of (om_entries m)" using assms by (intro map_of_same_set) simp_all
  then show "om_find (fold (\<lambda>(i, e). keep_pending i (g e)) es om_empty) k = om_find (om_collect (\<lambda>i. g) m) k"
    by (simp add: om_find_fold_keep [OF assms(2)])
qed

lemma fold_emplace_written:
  assumes "set es = set (om_entries m)" and "distinct (map fst es)"
  shows "fold (\<lambda>(i, e). om_emplace i (g i e)) es om_empty = om_map g m"
proof (rule om_eqI)
  fix k
  have eq: "fold (\<lambda>(i, e). om_emplace i (g i e)) xs m' = fold (\<lambda>(i, e). om_emplace i e) (map (\<lambda>(i, e). (i, g i e)) xs) m'" for xs m'
    by (induction xs arbitrary: m') auto
  have "map_of es = map_of (om_entries m)" using assms by (intro map_of_same_set) simp_all
  then show "om_find (fold (\<lambda>(i, e). om_emplace i (g i e)) es om_empty) k = om_find (om_map g m) k"
    by (simp add: eq om_find_fold_emplace map_of_map_key)
qed

lemma keep_routes_pending:
  "om_find m i = None \<Longrightarrow> keep_routes i rs m = keep_pending i (if rs = [] then None else Some rs) m"
  by (simp add: keep_routes_def keep_pending_def om_emplace_def)

lemma fold_keep_routes:
  "distinct (map fst es) \<Longrightarrow> \<forall>i \<in> fst ` set es. om_find m i = None \<Longrightarrow>
   fold (\<lambda>(i, e). keep_routes i (g e)) es m = fold (\<lambda>(i, e). keep_pending i (if g e = [] then None else Some (g e))) es m"
proof (induction es arbitrary: m)
  case (Cons x es)
  obtain i e where x: "x = (i, e)" by fastforce
  have "\<forall>j \<in> fst ` set es. om_find (keep_pending i t m) j = None" for t
    using Cons(2,3) x by (auto simp: keep_pending_def split: option.splits)
  then show ?case using Cons x by (simp add: keep_routes_pending)
qed simp

subsection \<open>The sections\<close>

definition storable_table :: "('e \<Rightarrow> bool) \<Rightarrow> ('e \<Rightarrow> 'i) \<Rightarrow> ('i::linorder, 'e) omap \<Rightarrow> bool" where
  "storable_table P own m \<longleftrightarrow> (\<forall>i e. om_find m i = Some e \<longrightarrow> P e \<and> own e = i)"

lemma fold_lane_step:
  "fold (\<lambda>(i, n). lane_step i n) es l =
     l\<lparr>ld_tables := (ld_tables l)\<lparr>lanes := fold (\<lambda>(i, n). om_emplace i (n\<lparr>lane_group_id := None\<rparr>)) es (lanes (ld_tables l))\<rparr>,
       pending_lane_group := fold (\<lambda>(i, n). keep_pending i (map_option (id_str KArrangementLane) (lane_group_id n))) es (pending_lane_group l)\<rparr>"
  by (induction es arbitrary: l) (auto simp: lane_step_def on_tables_def)

lemma fold_track_step:
  "fold (\<lambda>(i, t). track_step i t) es l =
     l\<lparr>ld_tables := (ld_tables l)\<lparr>mixer_tracks := fold (\<lambda>(i, t). om_emplace i (t\<lparr>track_output := None\<rparr>)) es (mixer_tracks (ld_tables l))\<rparr>,
       pending_track_output := fold (\<lambda>(i, t). keep_pending i (map_option (id_str KMixerTrack) (track_output t))) es (pending_track_output l)\<rparr>"
  by (induction es arbitrary: l) (auto simp: track_step_def on_tables_def)

lemma fold_pattern_step:
  "fold (\<lambda>(i, q). pattern_step i q) es l =
     l\<lparr>ld_tables := (ld_tables l)\<lparr>patterns := fold (\<lambda>(i, q). om_emplace i q) es (patterns (ld_tables l))\<rparr>\<rparr>"
  by (induction es arbitrary: l) (auto simp: pattern_step_def on_tables_def)

lemma fold_instrument_step:
  "fold (\<lambda>(i, n). instrument_step (om_find state i) i n) es l =
     l\<lparr>ld_tables := (ld_tables l)\<lparr>instruments := fold (\<lambda>(i, n). om_emplace i (unrouted (stored_instrument (om_find state i) n))) es
         (instruments (ld_tables l))\<rparr>,
       pending_routing := fold (\<lambda>(i, n). keep_routes i (inst_routing n)) es (pending_routing l)\<rparr>"
  by (induction es arbitrary: l) (auto simp: instrument_step_def on_tables_def)

text \<open>What a clip's source refers to.\<close>

fun pattern_ref :: "ClipSource \<Rightarrow> pattern_id option" where
  "pattern_ref (SrcPattern p) = Some p" | "pattern_ref s = None"

fun instrument_ref :: "ClipSource \<Rightarrow> instrument_id option" where
  "instrument_ref (SrcAutomation m) = (if as_target_kind m = TargetInstrument then Some (as_instrument m) else None)"
| "instrument_ref s = None"

fun track_ref :: "ClipSource \<Rightarrow> track_id option" where
  "track_ref (SrcAudio a) = Some (au_destination a)"
| "track_ref (SrcAutomation m) = (if as_target_kind m = TargetInstrument then None else Some (as_mixer_track m))"
| "track_ref s = None"

fun effect_ref :: "ClipSource \<Rightarrow> effect_id option" where
  "effect_ref (SrcAutomation m) = (if as_target_kind m = TargetEffect then Some (as_effect m) else None)"
| "effect_ref s = None"

lemma clip_step_refs:
  "clip_step i c l =
     l\<lparr>ld_tables := (ld_tables l)\<lparr>clips := om_emplace i c (clips (ld_tables l))\<rparr>,
       pending_clip_pattern := keep_pending i (pattern_ref (clip_source c)) (pending_clip_pattern l),
       pending_clip_instrument := keep_pending i (instrument_ref (clip_source c)) (pending_clip_instrument l),
       pending_clip_track := keep_pending i (track_ref (clip_source c)) (pending_clip_track l),
       pending_clip_effect := keep_pending i (effect_ref (clip_source c)) (pending_clip_effect l)\<rparr>"
proof (cases "clip_source c")
  case (SrcAutomation m)
  then show ?thesis
    by (cases "as_target_kind m")
      (simp_all add: clip_step_def source_step_def on_tables_def keep_pending_def note_track_def note_instrument_def note_effect_def)
qed (simp_all add: clip_step_def source_step_def on_tables_def keep_pending_def note_pattern_def note_track_def)

lemma fold_clip_step:
  "fold (\<lambda>(i, c). clip_step i c) es l =
     l\<lparr>ld_tables := (ld_tables l)\<lparr>clips := fold (\<lambda>(i, c). om_emplace i c) es (clips (ld_tables l))\<rparr>,
       pending_clip_pattern := fold (\<lambda>(i, c). keep_pending i (pattern_ref (clip_source c))) es (pending_clip_pattern l),
       pending_clip_instrument := fold (\<lambda>(i, c). keep_pending i (instrument_ref (clip_source c))) es (pending_clip_instrument l),
       pending_clip_track := fold (\<lambda>(i, c). keep_pending i (track_ref (clip_source c))) es (pending_clip_track l),
       pending_clip_effect := fold (\<lambda>(i, c). keep_pending i (effect_ref (clip_source c))) es (pending_clip_effect l)\<rparr>"
  by (induction es arbitrary: l) (auto simp: clip_step_refs)

lemma readLanes_written:
  assumes "map_of kvs ''lanes'' = Some (requant (write_table KArrangementLane (\<lambda>i n. writeLane n) m))"
    and "storable_table storable_lane lane_id m" and "lanes (ld_tables l) = om_empty" and "pending_lane_group l = om_empty"
  shows "\<exists>ms. run_state readLanes (fields_of kvs, l) = ((), (fields_of ((''lanes'', JObject ms) # erase_key ''lanes'' kvs),
      l\<lparr>ld_tables := (ld_tables l)\<lparr>lanes := om_map (\<lambda>i n. n\<lparr>lane_group_id := None\<rparr>) m\<rparr>,
        pending_lane_group := om_collect (\<lambda>i n. map_option (id_str KArrangementLane) (lane_group_id n)) m\<rparr>)) \<and>
    prune_entries ms = []"
proof -
  let ?f = "\<lambda>key entry l. snd (read_entity KArrangementLane ''lane'' read_lane () key entry l)"
  have "\<exists>v'. ?f (id_str KArrangementLane i) (requant (writeLane n)) l = (v', lane_step i n l) \<and> pruneEmpty v' = JObject []"
    if "om_find m i = Some n" for i n l
  proof -
    have "run_state (read_lane i) (fields_of (on_grid (lane_fields n)), l) = ((), ([], lane_step i n l))"
      by (rule read_lane_written) (use assms(2) that in \<open>auto simp: storable_table_def\<close>)
    then show ?thesis
      unfolding writeLane_def requant.simps on_grid_fields_of by (rule read_entity_unit [of read_lane i]) simp
  qed
  from read_map_written [where f = ?f and step = lane_step, OF assms(1) this, of l]
  show ?thesis
    using assms(3,4) by (auto simp: readLanes_def fold_lane_step fold_keep_written fold_emplace_written)
qed

lemma readMixerTracks_written:
  assumes "map_of kvs ''mixer_tracks'' = Some (requant (write_table KMixerTrack (\<lambda>i t. writeMixerTrack t) m))"
    and "storable_table storable_track track_id m" and "mixer_tracks (ld_tables l) = om_empty" and "pending_track_output l = om_empty"
  shows "\<exists>ms. run_state readMixerTracks (fields_of kvs, l) = ((), (fields_of ((''mixer_tracks'', JObject ms) # erase_key ''mixer_tracks'' kvs),
      l\<lparr>ld_tables := (ld_tables l)\<lparr>mixer_tracks := om_map (\<lambda>i t. t\<lparr>track_output := None\<rparr>) m\<rparr>,
        pending_track_output := om_collect (\<lambda>i t. map_option (id_str KMixerTrack) (track_output t)) m\<rparr>)) \<and>
    prune_entries ms = []"
proof -
  let ?f = "\<lambda>key entry l. snd (read_entity KMixerTrack ''mixer track'' read_track () key entry l)"
  have "\<exists>v'. ?f (id_str KMixerTrack i) (requant (writeMixerTrack t)) l = (v', track_step i t l) \<and> pruneEmpty v' = JObject []"
    if "om_find m i = Some t" for i t l
  proof -
    have "run_state (read_track i) (fields_of (on_grid (track_fields t)), l) = ((), ([], track_step i t l))"
      by (rule read_track_written) (use assms(2) that in \<open>auto simp: storable_table_def\<close>)
    then show ?thesis
      unfolding writeMixerTrack_def requant.simps on_grid_fields_of by (rule read_entity_unit [of read_track i]) simp
  qed
  from read_map_written [where f = ?f and step = track_step, OF assms(1) this, of l]
  show ?thesis
    using assms(1,3,4)
    by (auto simp: readMixerTracks_def fold_track_step fold_keep_written fold_emplace_written write_table_def)
qed

lemma readPatterns_written:
  assumes "map_of kvs ''patterns'' = Some (requant (write_table KPattern (\<lambda>i q. writePattern residue q) m))"
    and "storable_table storable_pattern pat_id m" and "res_note_properties residue = om_empty"
    and "patterns (ld_tables l) = om_empty"
  shows "\<exists>ms. run_state readPatterns (fields_of kvs, l) = ((), (fields_of ((''patterns'', JObject ms) # erase_key ''patterns'' kvs),
      l\<lparr>ld_tables := (ld_tables l)\<lparr>patterns := m\<rparr>\<rparr>)) \<and> prune_entries ms = []"
proof -
  let ?f = "\<lambda>key entry l. snd (read_entity KPattern ''pattern'' read_pattern () key entry l)"
  have "\<exists>v'. ?f (id_str KPattern i) (requant (writePattern residue q)) l = (v', pattern_step i q l) \<and> pruneEmpty v' = JObject []"
    if "om_find m i = Some q" for i q l
  proof -
    have "run_state (read_pattern i) (fields_of (on_grid (pattern_fields residue q)), l) = ((), ([], pattern_step i q l))"
      by (rule read_pattern_written) (use assms(2,3) that in \<open>auto simp: storable_table_def\<close>)
    then show ?thesis
      unfolding writePattern_def requant.simps on_grid_fields_of by (rule read_entity_unit [of read_pattern i]) simp
  qed
  from read_map_written [where f = ?f and step = pattern_step, OF assms(1) this, of l]
  show ?thesis
    using assms(4) by (auto simp: readPatterns_def fold_pattern_step fold_emplace_entries)
qed

lemma readInstruments_written:
  assumes "map_of kvs ''instruments'' = Some (requant (write_table KInstrument (\<lambda>i n. writeInstrument (om_find state i) n) m))"
    and "storable_table storable_instrument inst_id m" and "instruments (ld_tables l) = om_empty" and "pending_routing l = om_empty"
  shows "\<exists>ms. run_state readInstruments (fields_of kvs, l) = ((), (fields_of ((''instruments'', JObject ms) # erase_key ''instruments'' kvs),
      l\<lparr>ld_tables := (ld_tables l)\<lparr>instruments := om_map (\<lambda>i n. unrouted (stored_instrument (om_find state i) n)) m\<rparr>,
        pending_routing := om_collect (\<lambda>i n. if inst_routing n = [] then None else Some (inst_routing n)) m\<rparr>)) \<and>
    prune_entries ms = []"
proof -
  define step where "step = (\<lambda>i n (l, order :: int). (instrument_step (om_find state i) i n l, order + 1))"
  have "\<exists>v'. read_instrument_entry (id_str KInstrument i) (requant (writeInstrument (om_find state i) n)) l = (v', step i n l) \<and>
      pruneEmpty v' = JObject []"
    if "om_find m i = Some n" for i n l
  proof -
    obtain l0 order where l: "l = (l0, order)" by fastforce
    let ?read = "\<lambda>i. do { _ \<leftarrow> read_instrument order i; give True }"
    let ?left = "fields_of [(''note_defaults'', JObject []), (''plugin'', JObject [])]"
    have "run_state (read_instrument order i) (fields_of (on_grid (instrument_fields (om_find state i) n)), l0) =
        ((), (?left, instrument_step (om_find state i) i n l0))"
      by (rule read_instrument_written) (use assms(2) that in \<open>auto simp: storable_table_def\<close>)
    then have r: "run_state (?read i) (fields_of (on_grid (instrument_fields (om_find state i) n)), l0) =
        (True, (?left, instrument_step (om_find state i) i n l0))" by simp
    have "prune_entries ?left = []" unfolding prune_entries_Nil using set_fields_of_subset by fastforce
    from read_entity_written [of ?read i, OF r this]
    obtain v' where "read_entity KInstrument ''instrument'' ?read False (id_str KInstrument i)
        (json_object (on_grid (instrument_fields (om_find state i) n))) l0 =
        (True, v', instrument_step (om_find state i) i n l0)" "pruneEmpty v' = JObject []" by blast
    then show ?thesis by (simp add: read_instrument_entry_def writeInstrument_def l step_def)
  qed
  from read_map_written [where f = read_instrument_entry and step = step, OF assms(1) this, of "(l, 0)"]
  obtain ms es where r: "read_map ''instruments'' read_instrument_entry (fields_of kvs, (l, 0)) =
      (fields_of ((''instruments'', JObject ms) # erase_key ''instruments'' kvs), fold (\<lambda>(i, n). step i n) es (l, 0))"
    and ms: "prune_entries ms = []" and es: "set es = set (om_entries m)" "distinct (map fst es)" by blast
  have "fold (\<lambda>(i, n). step i n) xs (l, k) = (fold (\<lambda>(i, n). instrument_step (om_find state i) i n) xs l, k + int (length xs))" for xs l k
    by (induction xs arbitrary: l k) (auto simp: step_def)
  then show ?thesis
    using ms r assms(3,4) fold_keep_routes [OF es(2), of om_empty inst_routing]
    by (intro exI [of _ ms]) (simp add: readInstruments_def fold_instrument_step fold_keep_written [OF es] fold_emplace_written [OF es])
qed

lemma readClips_written:
  assumes "map_of kvs ''clips'' = Some (requant (write_table KClip (\<lambda>i c. writeClip c) m))"
    and "storable_table storable_clip clip_id m" and "clips (ld_tables l) = om_empty"
    and "pending_clip_pattern l = om_empty" and "pending_clip_instrument l = om_empty" and "pending_clip_track l = om_empty"
    and "pending_clip_effect l = om_empty"
  shows "\<exists>ms. run_state readClips (fields_of kvs, l) = ((), (fields_of ((''clips'', JObject ms) # erase_key ''clips'' kvs),
      l\<lparr>ld_tables := (ld_tables l)\<lparr>clips := m\<rparr>,
        pending_clip_pattern := om_collect (\<lambda>i c. pattern_ref (clip_source c)) m,
        pending_clip_instrument := om_collect (\<lambda>i c. instrument_ref (clip_source c)) m,
        pending_clip_track := om_collect (\<lambda>i c. track_ref (clip_source c)) m,
        pending_clip_effect := om_collect (\<lambda>i c. effect_ref (clip_source c)) m\<rparr>)) \<and> prune_entries ms = []"
proof -
  define step where "step = (\<lambda>i c (l, unusable :: string list). (clip_step i c l, unusable))"
  have "\<exists>v'. read_clip_entry (id_str KClip i) (requant (writeClip c)) l = (v', step i c l) \<and> pruneEmpty v' = JObject []"
    if "om_find m i = Some c" for i c l
  proof -
    obtain l0 unusable where l: "l = (l0, unusable)" by fastforce
    let ?left = "fields_of [(''transforms'', JObject [])]"
    have r: "run_state (read_clip (id_str KClip i) i) (fields_of (on_grid (clip_fields c)), l0) = (True, (?left, clip_step i c l0))"
      by (rule read_clip_written) (use assms(2) that in \<open>auto simp: storable_table_def\<close>)
    have "prune_entries ?left = []" unfolding prune_entries_Nil using set_fields_of_subset by fastforce
    from read_entity_written [of "read_clip (id_str KClip i)" i, OF r this]
    obtain v' where "read_entity KClip ''clip'' (read_clip (id_str KClip i)) True (id_str KClip i)
        (json_object (on_grid (clip_fields c))) l0 = (True, v', clip_step i c l0)" "pruneEmpty v' = JObject []" by blast
    then show ?thesis by (simp add: read_clip_entry_def writeClip_def l step_def)
  qed
  from read_map_written [where f = read_clip_entry and step = step, OF assms(1) this, of "(l, [])"]
  obtain ms es where r: "read_map ''clips'' read_clip_entry (fields_of kvs, (l, [])) =
      (fields_of ((''clips'', JObject ms) # erase_key ''clips'' kvs), fold (\<lambda>(i, n). step i n) es (l, []))"
    and ms: "prune_entries ms = []" and es: "set es = set (om_entries m)" "distinct (map fst es)" by blast
  have "fold (\<lambda>(i, n). step i n) xs (l, k) = (fold (\<lambda>(i, n). clip_step i n) xs l, k)" for xs l k
    by (induction xs arbitrary: l k) (auto simp: step_def)
  moreover have "map (\<lambda>(k, v). (k, case v of JObject ms \<Rightarrow> if k = ''clips'' then JObject (filter (\<lambda>e. fst e \<notin> set []) ms) else v
      | _ \<Rightarrow> v)) xs = xs" for xs :: object
    by (rule map_idI) (auto split: Value.split)
  ultimately show ?thesis
    using ms r assms(3-)
    by (intro exI [of _ ms]) (simp add: readClips_def fold_clip_step fold_keep_written [OF es] fold_emplace_entries [OF es])
qed

subsection \<open>The document\<close>

definition storable :: "Tables \<Rightarrow> bool" where
  "storable p \<longleftrightarrow>
     storable_table storable_instrument inst_id (instruments p) \<and> storable_table storable_pattern pat_id (patterns p) \<and>
     storable_table storable_lane lane_id (lanes p) \<and> storable_table storable_clip clip_id (clips p) \<and>
     storable_table storable_track track_id (mixer_tracks p) \<and> storable_transport (transport p)"

definition saved_meta :: "string \<Rightarrow> ProjectMeta \<Rightarrow> ProjectMeta" where
  "saved_meta created_with m = m\<lparr>meta_created_with := if created_with = '''' then meta_created_with m else created_with\<rparr>"

text \<open>What the readers make of a saved document, before the references are resolved.\<close>

definition read_back :: "Tables \<Rightarrow> string \<Rightarrow> (instrument_id, StateRecord) omap \<Rightarrow> Loader" where
  "read_back p created_with state = new_loader\<lparr>
     ld_tables := \<lparr>instruments = om_map (\<lambda>i n. unrouted (stored_instrument (om_find state i) n)) (instruments p),
       patterns = patterns p, lanes = om_map (\<lambda>i n. n\<lparr>lane_group_id := None\<rparr>) (lanes p), clips = clips p,
       mixer_tracks = om_map (\<lambda>i t. t\<lparr>track_output := None\<rparr>) (mixer_tracks p), master = no_id,
       transport = transport p, meta = saved_meta created_with (meta p)\<rparr>,
     pending_track_output := om_collect (\<lambda>i t. map_option (id_str KMixerTrack) (track_output t)) (mixer_tracks p),
     pending_routing := om_collect (\<lambda>i n. if inst_routing n = [] then None else Some (inst_routing n)) (instruments p),
     pending_lane_group := om_collect (\<lambda>i n. map_option (id_str KArrangementLane) (lane_group_id n)) (lanes p),
     pending_clip_pattern := om_collect (\<lambda>i c. pattern_ref (clip_source c)) (clips p),
     pending_clip_instrument := om_collect (\<lambda>i c. instrument_ref (clip_source c)) (clips p),
     pending_clip_track := om_collect (\<lambda>i c. track_ref (clip_source c)) (clips p),
     pending_clip_effect := om_collect (\<lambda>i c. effect_ref (clip_source c)) (clips p)\<rparr>"

definition content_fields :: "Tables \<Rightarrow> Residue \<Rightarrow> string \<Rightarrow> (instrument_id, StateRecord) omap \<Rightarrow> object" where
  "content_fields p residue created_with state = on_grid [
     (''meta'', write_meta created_with (meta p)), (''transport'', writeTransport (transport p)),
     (''instruments'', write_table KInstrument (\<lambda>i n. writeInstrument (om_find state i) n) (instruments p)),
     (''patterns'', write_table KPattern (\<lambda>i q. writePattern residue q) (patterns p)),
     (''lanes'', write_table KArrangementLane (\<lambda>i n. writeLane n) (lanes p)),
     (''clips'', write_table KClip (\<lambda>i c. writeClip c) (clips p)),
     (''mixer_tracks'', write_table KMixerTrack (\<lambda>i t. writeMixerTrack t) (mixer_tracks p))]"

lemma note_unknown_known: "\<forall>k \<in> fst ` set ms. k \<in> set known_keys \<Longrightarrow> note_unknown ms l = l"
  unfolding note_unknown_def by (induction ms) auto

lemma prune_fields_of: "\<forall>(k, v) \<in> set kvs. pruneEmpty v = JObject [] \<Longrightarrow> prune_entries (fields_of kvs) = []"
  unfolding prune_entries_Nil using set_fields_of_subset by blast

lemma read_project_written:
  assumes "storable p" and "res_note_properties residue = om_empty"
  shows "\<exists>ms. run_state read_project (fields_of (content_fields p residue created_with state), new_loader) =
      ((), (ms, read_back p created_with state)) \<and> prune_entries ms = []"
proof -
  obtain mt where mt: "write_meta created_with (meta p) = JObject mt" by (simp add: write_meta_def)
  obtain ts where ts: "writeTransport (transport p) = JObject ts" by (simp add: writeTransport_def)
  note s = assms(1) [unfolded storable_def]
  define kvs where "kvs = content_fields p residue created_with state"
  have "fst ` set (fields_of kvs) \<subseteq> fst ` set kvs" using set_fields_of_subset by (rule image_mono)
  then have u: "note_unknown (fields_of kvs) l = l" for l
    by (intro note_unknown_known) (auto simp: kvs_def content_fields_def known_keys_def)
  define l1 where "l1 = on_tables (\<lambda>t. t\<lparr>meta := saved_meta created_with (meta p)\<rparr>) new_loader"
  define kvs1 where "kvs1 = (''meta'', JObject []) # erase_key ''meta'' kvs"
  have 1: "run_state readMeta (fields_of kvs, new_loader) = ((), (fields_of kvs1, l1))"
    using read_meta_written [OF mt, of new_loader]
    by (simp add: readMeta_def kvs_def content_fields_def mt run_inside l1_def kvs1_def saved_meta_def)
  define l2 where "l2 = on_tables (\<lambda>t. t\<lparr>transport := transport p\<rparr>) l1"
  define loop where "loop = JObject (fields_of [(''loop'', JObject [])])"
  define kvs2 where "kvs2 = (''transport'', loop) # erase_key ''transport'' kvs1"
  have 2: "run_state readTransport (fields_of kvs1, l1) = ((), (fields_of kvs2, l2))"
    using read_transport_written [OF _ ts, of l1] s
    by (simp add: readTransport_def kvs1_def kvs_def content_fields_def ts run_inside l2_def kvs2_def loop_def)
  obtain m3 l3 kvs3 where 3: "run_state readMixerTracks (fields_of kvs2, l2) = ((), (fields_of kvs3, l3))" "prune_entries m3 = []"
    and kvs3: "kvs3 = (''mixer_tracks'', JObject m3) # erase_key ''mixer_tracks'' kvs2"
    and l3: "l3 = l2\<lparr>ld_tables := (ld_tables l2)\<lparr>mixer_tracks := om_map (\<lambda>i t. t\<lparr>track_output := None\<rparr>) (mixer_tracks p)\<rparr>,
        pending_track_output := om_collect (\<lambda>i t. map_option (id_str KMixerTrack) (track_output t)) (mixer_tracks p)\<rparr>"
    using readMixerTracks_written [of kvs2 "mixer_tracks p" l2] s
    by (auto simp: kvs2_def kvs1_def kvs_def content_fields_def l2_def l1_def on_tables_def new_loader_def empty_tables_def)
  note defs = kvs3 kvs2_def kvs1_def kvs_def content_fields_def l3 l2_def l1_def on_tables_def new_loader_def empty_tables_def
  obtain m4 l4 kvs4 where 4: "run_state readInstruments (fields_of kvs3, l3) = ((), (fields_of kvs4, l4))" "prune_entries m4 = []"
    and kvs4: "kvs4 = (''instruments'', JObject m4) # erase_key ''instruments'' kvs3"
    and l4: "l4 = l3\<lparr>ld_tables := (ld_tables l3)\<lparr>instruments := om_map (\<lambda>i n. unrouted (stored_instrument (om_find state i) n)) (instruments p)\<rparr>,
        pending_routing := om_collect (\<lambda>i n. if inst_routing n = [] then None else Some (inst_routing n)) (instruments p)\<rparr>"
    using readInstruments_written [of kvs3 state "instruments p" l3] s by (auto simp: defs)
  obtain m5 l5 kvs5 where 5: "run_state readPatterns (fields_of kvs4, l4) = ((), (fields_of kvs5, l5))" "prune_entries m5 = []"
    and kvs5: "kvs5 = (''patterns'', JObject m5) # erase_key ''patterns'' kvs4"
    and l5: "l5 = l4\<lparr>ld_tables := (ld_tables l4)\<lparr>patterns := patterns p\<rparr>\<rparr>"
    using readPatterns_written [of kvs4 residue "patterns p" l4] s assms(2) by (auto simp: kvs4 l4 defs)
  obtain m6 l6 kvs6 where 6: "run_state readLanes (fields_of kvs5, l5) = ((), (fields_of kvs6, l6))" "prune_entries m6 = []"
    and kvs6: "kvs6 = (''lanes'', JObject m6) # erase_key ''lanes'' kvs5"
    and l6: "l6 = l5\<lparr>ld_tables := (ld_tables l5)\<lparr>lanes := om_map (\<lambda>i n. n\<lparr>lane_group_id := None\<rparr>) (lanes p)\<rparr>,
        pending_lane_group := om_collect (\<lambda>i n. map_option (id_str KArrangementLane) (lane_group_id n)) (lanes p)\<rparr>"
    using readLanes_written [of kvs5 "lanes p" l5] s by (auto simp: kvs5 l5 kvs4 l4 defs)
  obtain m7 kvs7 where 7: "run_state readClips (fields_of kvs6, l6) = ((), (fields_of kvs7, read_back p created_with state))" "prune_entries m7 = []"
    and kvs7: "kvs7 = (''clips'', JObject m7) # erase_key ''clips'' kvs6"
    using readClips_written [of kvs6 "clips p" l6] s by (auto simp: kvs6 l6 kvs5 l5 kvs4 l4 defs read_back_def)
  have loop: "pruneEmpty loop = JObject []" by (simp add: loop_def prune_fields_of)
  have "prune_entries (fields_of kvs7) = []"
    by (rule prune_fields_of)
      (simp add: kvs7 kvs6 kvs5 kvs4 kvs3 kvs2_def kvs1_def kvs_def content_fields_def loop 3(2) 4(2) 5(2) 6(2) 7(2))
  moreover have "run_state read_project (fields_of kvs, new_loader) = ((), (fields_of kvs7, read_back p created_with state))"
    unfolding read_project_def run_bind by (simp add: u 1 2 3(1) 4(1) 5(1) 6(1) 7(1) del: run_steps(1)) (simp add: tell_def u 1 2 3(1) 4(1) 5(1) 6(1) 7(1))
  ultimately show ?thesis unfolding kvs_def by blast
qed

subsection \<open>Resolving what was written\<close>

lemma filter_single:
  "distinct xs \<Longrightarrow> x \<in> set xs \<Longrightarrow> (\<And>y. y \<in> set xs \<Longrightarrow> P y \<longleftrightarrow> y = x) \<Longrightarrow> filter P xs = [x]"
  by (induction xs) (auto simp: filter_empty_conv)

lemma fold_still: "(\<And>x. x \<in> set xs \<Longrightarrow> f x l = l) \<Longrightarrow> fold f xs l = l"
  by (induction xs) auto

text \<open>A phase that updates each entry of one table, where the table's keys are all that matters.\<close>

lemma fold_put:
  fixes m0 :: "('i::linorder, 'e) omap" and put :: "('i, 'e) omap \<Rightarrow> 'l"
  assumes "\<And>i m. om_find m0 i \<noteq> None \<Longrightarrow> om_keys m = om_keys m0 \<Longrightarrow> f i (put m) = put (om_update i (g i) m)"
  shows "fold f (om_keys m0) (put m0) = put (om_map g m0)"
proof -
  have keys: "om_keys (om_update i h m) = om_keys m" for i h and m :: "('i, 'e) omap"
    by (rule strict_sorted_equal) (auto simp: set_eq_iff)
  have "fold f ks (put m) = put (fold (\<lambda>i. om_update i (g i)) ks m)" if "set ks \<subseteq> set (om_keys m0)" "om_keys m = om_keys m0" for ks m
    using that
  proof (induction ks arbitrary: m)
    case (Cons i ks)
    have "f i (put m) = put (om_update i (g i) m)" by (rule assms) (use Cons(2,3) in auto)
    then show ?case using Cons by (simp add: keys)
  qed simp
  from this [of "om_keys m0" m0] show ?thesis by (simp add: fold_update_keys)
qed

lemma same_live: "om_keys m = om_keys m' \<Longrightarrow> om_find m i = None \<longleftrightarrow> om_find m' i = None"
  by (metis om_keys_set)

abbreviation put_tracks :: "Loader \<Rightarrow> (track_id, MixerTrack) omap \<Rightarrow> Loader" where
  "put_tracks l m \<equiv> on_tables (\<lambda>t. t\<lparr>mixer_tracks := m\<rparr>) l"

lemma on_tables_on_tables [simp]: "on_tables f (on_tables g l) = on_tables (f \<circ> g) l"
  by (simp add: on_tables_def)

lemma on_tables_pendings [simp]:
  "pending_track_output (on_tables f l) = pending_track_output l" "pending_routing (on_tables f l) = pending_routing l"
  "pending_lane_group (on_tables f l) = pending_lane_group l" "pending_clip_pattern (on_tables f l) = pending_clip_pattern l"
  "pending_clip_instrument (on_tables f l) = pending_clip_instrument l" "pending_clip_track (on_tables f l) = pending_clip_track l"
  "pending_clip_effect (on_tables f l) = pending_clip_effect l" "ld_issues (on_tables f l) = ld_issues l"
  "ld_properties (on_tables f l) = ld_properties l" "ld_dropped (on_tables f l) = ld_dropped l" "ld_ticks_ok (on_tables f l) = ld_ticks_ok l"
  by (simp_all add: on_tables_def)

lemma resolve_outputs_written:
  fixes m :: "(track_id, MixerTrack) omap"
  assumes "mixer_tracks (ld_tables l) = om_map (\<lambda>i t. t\<lparr>track_output := None\<rparr>) m"
    and "pending_track_output l = om_collect (\<lambda>i t. map_option (id_str KMixerTrack) (track_output t)) m"
    and "\<And>i t out. om_find m i = Some t \<Longrightarrow> track_output t = Some out \<Longrightarrow> out \<noteq> i \<and> om_find m out \<noteq> None"
  shows "fold resolve_output (om_keys (mixer_tracks (ld_tables l))) l = put_tracks l m"
proof -
  define g where "g = (\<lambda>i (t :: MixerTrack). case output_of m i of None \<Rightarrow> t | Some out \<Rightarrow> t\<lparr>track_output := Some out\<rparr>)"
  have start: "put_tracks l (mixer_tracks (ld_tables l)) = l" by (simp add: on_tables_def)
  have "fold resolve_output (om_keys (mixer_tracks (ld_tables l))) (put_tracks l (mixer_tracks (ld_tables l))) =
      put_tracks l (om_map g (mixer_tracks (ld_tables l)))"
  proof (rule fold_put)
    fix i and m' :: "(track_id, MixerTrack) omap"
    assume live: "om_find (mixer_tracks (ld_tables l)) i \<noteq> None" and keys: "om_keys m' = om_keys (mixer_tracks (ld_tables l))"
    have live': "om_find m' j = None \<longleftrightarrow> om_find m j = None" for j using same_live [OF keys, of j] by (simp add: assms(1))
    obtain t where t: "om_find m i = Some t" using live by (auto simp: assms(1))
    show "resolve_output i (put_tracks l m') = put_tracks l (om_update i (g i) m')"
    proof (cases "track_output t")
      case None
      then have "om_update i (g i) m' = m'" by (intro om_eqI) (simp add: g_def output_of_def t option.map_ident)
      then show ?thesis using None by (simp add: resolve_output_def assms(2) t)
    next
      case (Some out)
      then have "out \<noteq> i" "om_find m' out \<noteq> None" using assms(3) [OF t] live' by simp_all
      then show ?thesis using Some
        by (simp add: resolve_output_def assms(2) t set_output_def g_def output_of_def on_tables_def)
    qed
  qed
  moreover have "om_map g (mixer_tracks (ld_tables l)) = m"
    unfolding assms(1) om_map_om_map by (rule om_map_idI) (auto simp: g_def output_of_def split: option.split)
  ultimately show ?thesis unfolding start by simp
qed

lemma om_size_card: "om_size m = card (set (om_keys m))"
  by (metis distinct_card length_map om_keys_def om_keys_distinct om_size_def)

lemma not_fed_back:
  "routing_height m h \<Longrightarrow> S \<subseteq> set (om_keys m) \<Longrightarrow> om_size m \<le> card S + left \<Longrightarrow> \<forall>s \<in> S. h walker < h s \<Longrightarrow>
   h walker \<le> h i \<Longrightarrow> \<not> fed_back m i left walker"
proof (induction m i left walker arbitrary: S rule: fed_back.induct)
  case (1 m i left walker)
  show ?case
  proof (cases "output_of m walker")
    case None
    then show ?thesis by (auto simp: fed_back.simps [of m i left walker] output_of_def split: option.splits)
  next
    case (Some out)
    then obtain t where t: "om_find m walker = Some t" "track_output t = Some out"
      by (auto simp: output_of_def split: option.splits)
    have out: "h out < h walker" using 1(2) Some by (simp add: routing_height_def)
    have "walker \<notin> S" using 1(5) by blast
    moreover have "finite S" using 1(3) finite_subset by blast
    ultimately have card: "card (insert walker S) = card S + 1" by simp
    have sub: "insert walker S \<subseteq> set (om_keys m)" using 1(3) t by simp
    then have "card S + 1 \<le> om_size m" unfolding card [symmetric] om_size_card by (intro card_mono) simp_all
    then obtain n where n: "left = Suc n" using 1(4) by (cases left) auto
    have "\<not> fed_back m i n out"
      by (rule "1.IH" [OF t _ n 1(2) sub]) (use 1(4-6) out n card in auto)
    then show ?thesis using t n out 1(6) by (auto simp: fed_back.simps [of m i "Suc n" walker])
  qed
qed

lemma breakMixerCycles_still:
  assumes "routing_ends (mixer_tracks (ld_tables l))"
  shows "breakMixerCycles l = l"
proof -
  obtain h where "routing_height (mixer_tracks (ld_tables l)) h" using assms by (rule routing_ends_height)
  then have "break_cycle i l = l" for i
    using not_fed_back [of "mixer_tracks (ld_tables l)" h "{}" "om_size (mixer_tracks (ld_tables l))" i i]
    by (simp add: break_cycle_def)
  then show ?thesis unfolding breakMixerCycles_def by (intro fold_still)
qed

lemma resolve_routings_written:
  fixes m :: "(instrument_id, Instrument) omap"
  assumes "instruments (ld_tables l) = om_map (\<lambda>i. unrouted) m"
    and "pending_routing l = om_collect (\<lambda>i n. if inst_routing n = [] then None else Some (inst_routing n)) m"
    and "\<And>i n. om_find m i = Some n \<Longrightarrow> routed (ld_tables l) n"
  shows "fold resolve_routing (om_keys (instruments (ld_tables l))) l = on_tables (\<lambda>t. t\<lparr>instruments := m\<rparr>) l"
proof -
  define g where "g = (\<lambda>i (n :: Instrument). n\<lparr>inst_routing := (case om_find m i of None \<Rightarrow> [] | Some n \<Rightarrow> inst_routing n)\<rparr>)"
  define put where "put = (\<lambda>m. on_tables (\<lambda>t. t\<lparr>instruments := m\<rparr>) l)"
  have start: "put (instruments (ld_tables l)) = l" by (simp add: on_tables_def put_def)
  have "fold resolve_routing (om_keys (instruments (ld_tables l))) (put (instruments (ld_tables l))) =
      put (om_map g (instruments (ld_tables l)))"
  proof (rule fold_put)
    fix i and m' :: "(instrument_id, Instrument) omap"
    assume live: "om_find (instruments (ld_tables l)) i \<noteq> None" and keys: "om_keys m' = om_keys (instruments (ld_tables l))"
    obtain n where n: "om_find m i = Some n" using live by (auto simp: assms(1))
    obtain n' where n': "om_find m' i = Some n'" using live same_live [OF keys, of i] by auto
    have r: "inst_routing n \<noteq> []" "\<forall>r \<in> set (inst_routing n). om_find (mixer_tracks (ld_tables l)) (route_track r) \<noteq> None"
      using assms(3) [OF n] by (auto simp: routed_def)
    then have "filter (\<lambda>r. om_find (mixer_tracks (ld_tables l)) (route_track r) \<noteq> None) (inst_routing n) = inst_routing n"
      "filter (\<lambda>r. om_find (mixer_tracks (ld_tables l)) (route_track r) = None) (inst_routing n) = []"
      by (auto simp: filter_id_conv filter_empty_conv)
    then show "resolve_routing i (put m') = put (om_update i (g i) m')"
      using r(1) by (simp add: resolve_routing_def put_def assms(2) n n' Let_def g_def on_tables_def)
  qed
  moreover have "om_map g (instruments (ld_tables l)) = m"
    unfolding assms(1) om_map_om_map by (rule om_map_idI) (simp add: g_def unrouted_def)
  ultimately show ?thesis unfolding start by (simp add: put_def)
qed

lemma resolve_groups_written:
  fixes m :: "(lane_id, ArrangementLane) omap"
  assumes "lanes (ld_tables l) = om_map (\<lambda>i n. n\<lparr>lane_group_id := None\<rparr>) m"
    and "pending_lane_group l = om_collect (\<lambda>i n. map_option (id_str KArrangementLane) (lane_group_id n)) m"
    and "\<And>i n g. om_find m i = Some n \<Longrightarrow> lane_group_id n = Some g \<Longrightarrow> g \<noteq> i \<and> om_find m g \<noteq> None"
  shows "fold resolve_group (om_keys (lanes (ld_tables l))) l = on_tables (\<lambda>t. t\<lparr>lanes := m\<rparr>) l"
proof -
  define group where "group = (\<lambda>i. Option.bind (om_find m i) lane_group_id)"
  define g where "g = (\<lambda>i (n :: ArrangementLane). case group i of None \<Rightarrow> n | Some j \<Rightarrow> n\<lparr>lane_group_id := Some j\<rparr>)"
  define put where "put = (\<lambda>m. on_tables (\<lambda>t. t\<lparr>lanes := m\<rparr>) l)"
  have start: "put (lanes (ld_tables l)) = l" by (simp add: on_tables_def put_def)
  have "fold resolve_group (om_keys (lanes (ld_tables l))) (put (lanes (ld_tables l))) = put (om_map g (lanes (ld_tables l)))"
  proof (rule fold_put)
    fix i and m' :: "(lane_id, ArrangementLane) omap"
    assume live: "om_find (lanes (ld_tables l)) i \<noteq> None" and keys: "om_keys m' = om_keys (lanes (ld_tables l))"
    have live': "om_find m' j = None \<longleftrightarrow> om_find m j = None" for j using same_live [OF keys, of j] by (simp add: assms(1))
    obtain n where n: "om_find m i = Some n" using live by (auto simp: assms(1))
    obtain n' where n': "om_find m' i = Some n'" using live same_live [OF keys, of i] by auto
    show "resolve_group i (put m') = put (om_update i (g i) m')"
    proof (cases "lane_group_id n")
      case None
      then have "om_update i (g i) m' = m'" by (intro om_eqI) (simp add: g_def group_def n option.map_ident)
      then show ?thesis using None by (simp add: resolve_group_def put_def assms(2) n n')
    next
      case (Some j)
      then have "j \<noteq> i" "om_find m' j \<noteq> None" using assms(3) [OF n] live' by simp_all
      then show ?thesis using Some by (simp add: resolve_group_def put_def assms(2) n n' g_def group_def on_tables_def)
    qed
  qed
  moreover have "om_map g (lanes (ld_tables l)) = m"
    unfolding assms(1) om_map_om_map by (rule om_map_idI) (auto simp: g_def group_def split: option.split)
  ultimately show ?thesis unfolding start by (simp add: put_def)
qed

lemma drop_orphans_still:
  assumes "\<And>i q j s. om_find (patterns (ld_tables l)) i = Some q \<Longrightarrow> om_find (pat_sequences q) j = Some s \<Longrightarrow>
    om_find (instruments (ld_tables l)) j \<noteq> None"
  shows "fold drop_orphans ks l = l"
proof (rule fold_still)
  fix i
  show "drop_orphans i l = l"
  proof (cases "om_find (patterns (ld_tables l)) i")
    case (Some q)
    let ?live = "\<lambda>j. om_find (instruments (ld_tables l)) j \<noteq> None"
    have all: "om_filter (\<lambda>j s. ?live j) (pat_sequences q) = pat_sequences q"
      by (rule om_filter_True) (rule assms [OF Some])
    have none: "filter (\<lambda>(j, s). \<not> ?live j) (om_entries (pat_sequences q)) = []"
      using assms [OF Some] by (auto simp: filter_empty_conv)
    define f where "f = (\<lambda>q :: Pattern. q\<lparr>pat_sequences := om_filter (\<lambda>j s. ?live j) (pat_sequences q)\<rparr>)"
    have "f q = q" unfolding f_def all by simp
    then have "om_update i f (patterns (ld_tables l)) = patterns (ld_tables l)" by (intro om_eqI) (simp add: Some)
    then show ?thesis
      unfolding drop_orphans_def Some option.case Let_def none f_def [symmetric] by (simp add: on_tables_def)
  qed (simp add: drop_orphans_def)
qed

definition saved :: "Tables \<Rightarrow> string \<Rightarrow> (instrument_id, StateRecord) omap \<Rightarrow> Tables" where
  "saved p created_with state =
     p\<lparr>instruments := om_map (\<lambda>i. stored_instrument (om_find state i)) (instruments p), meta := saved_meta created_with (meta p)\<rparr>"

lemma no_dangling:
  assumes "clip_ok p c" and "om_find (clips p) i = Some c"
  shows "dangling_reason ((read_back p created_with state)\<lparr>ld_tables := saved p created_with state\<rparr>) i c = ''''"
proof (cases "clip_source c")
  case (SrcAutomation m)
  then show ?thesis using assms
    by (cases "as_target_kind m")
      (auto simp: dangling_reason_def Let_def saved_def read_back_def absent_in_def effectIsLoaded_def clip_ok_def
        automation_resolves_def find_defs split: option.splits)
qed (use assms in \<open>auto simp: dangling_reason_def Let_def saved_def read_back_def absent_in_def clip_ok_def\<close>)

lemma dropDanglingClips_still:
  assumes "clips_ok p"
  shows "dropDanglingClips ((read_back p created_with state)\<lparr>ld_tables := saved p created_with state\<rparr>) =
    (read_back p created_with state)\<lparr>ld_tables := saved p created_with state\<rparr>"
  unfolding dropDanglingClips_def
proof (rule fold_still)
  fix e assume e: "e \<in> set (om_entries (clips (ld_tables ((read_back p created_with state)\<lparr>ld_tables := saved p created_with state\<rparr>))))"
  obtain i c where ic: "e = (i, c)" by fastforce
  have "om_find (clips p) i = Some c" using e ic by (simp add: saved_def)
  then have "dangling_reason ((read_back p created_with state)\<lparr>ld_tables := saved p created_with state\<rparr>) i c = ''''"
    using assms no_dangling unfolding clips_ok_def by blast
  then show "drop_clip e ((read_back p created_with state)\<lparr>ld_tables := saved p created_with state\<rparr>) =
      (read_back p created_with state)\<lparr>ld_tables := saved p created_with state\<rparr>"
    by (simp add: drop_clip_def ic)
qed

lemma on_tables_upd: "on_tables f (l\<lparr>ld_tables := t\<rparr>) = l\<lparr>ld_tables := f t\<rparr>"
  by (simp add: on_tables_def)

lemma resolve_written:
  assumes "project_ok p" and "storable p"
  shows "resolveReferences clock staged (read_back p created_with state) =
    fixLaneOrder ((read_back p created_with state)\<lparr>ld_tables := saved p created_with state\<rparr>)"
proof -
  define L where "L = read_back p created_with state"
  have ok: "instruments_ok p" "patterns_ok p" "lanes_ok p" "clips_ok p" "mixer_ok p" "rooted p"
    using assms(1) by (simp_all add: project_ok_def project_integrity_def)
  have root: "om_find (mixer_tracks p) i = Some t \<Longrightarrow> track_output t = None \<longleftrightarrow> i = master p" for i t
    using ok(5,6) unfolding mixer_ok_def rooted_def by (metis option.inject)
  have height: "out \<noteq> i \<and> om_find (mixer_tracks p) out \<noteq> None" if "om_find (mixer_tracks p) i = Some t" "track_output t = Some out" for i t out
  proof -
    obtain h where "routing_height (mixer_tracks p) h" using ok(5) routing_ends_height by (auto simp: mixer_ok_def)
    then have "h out < h i" using that by (simp add: routing_height_def output_of_def)
    then show ?thesis using ok(5) that by (auto simp: mixer_ok_def)
  qed
  define T where "T = ld_tables L"
  have "root_tracks L = [master p]"
    unfolding root_tracks_def
  proof (rule filter_single)
    show "master p \<in> set (om_keys (mixer_tracks (ld_tables L)))" using ok(6) by (auto simp: L_def read_back_def rooted_def)
    show "om_find (pending_track_output L) i = None \<longleftrightarrow> i = master p" if i: "i \<in> set (om_keys (mixer_tracks (ld_tables L)))" for i
    proof -
      obtain t where "om_find (mixer_tracks p) i = Some t" using i by (auto simp: L_def read_back_def)
      then show ?thesis using root by (simp add: L_def read_back_def)
    qed
  qed simp
  then have c: "chooseMaster clock staged L = L\<lparr>ld_tables := T\<lparr>master := master p\<rparr>\<rparr>"
    by (simp add: chooseMaster_def on_tables_def T_def)
  define l2 where "l2 = L\<lparr>ld_tables := T\<lparr>master := master p, mixer_tracks := mixer_tracks p\<rparr>\<rparr>"
  have "fold resolve_output (om_keys (mixer_tracks (ld_tables (chooseMaster clock staged L)))) (chooseMaster clock staged L) =
      put_tracks (chooseMaster clock staged L) (mixer_tracks p)"
    unfolding c by (rule resolve_outputs_written) (use height in \<open>simp_all add: T_def L_def read_back_def\<close>)
  then have 2: "fold resolve_output (om_keys (mixer_tracks (ld_tables (chooseMaster clock staged L)))) (chooseMaster clock staged L) = l2"
    by (simp add: c on_tables_upd l2_def)
  have 3: "breakMixerCycles l2 = l2"
    by (rule breakMixerCycles_still) (use ok(5) in \<open>simp add: l2_def mixer_ok_def\<close>)
  define ins where "ins = om_map (\<lambda>i. stored_instrument (om_find state i)) (instruments p)"
  define l4 where "l4 = L\<lparr>ld_tables := T\<lparr>master := master p, mixer_tracks := mixer_tracks p, instruments := ins\<rparr>\<rparr>"
  have routes: "inst_routing (stored_instrument o' n) = inst_routing n" for o' n by (simp add: stored_instrument_def)
  have "fold resolve_routing (om_keys (instruments (ld_tables l2))) l2 = on_tables (\<lambda>t. t\<lparr>instruments := ins\<rparr>) l2"
  proof (rule resolve_routings_written)
    show "pending_routing l2 = om_collect (\<lambda>i n. if inst_routing n = [] then None else Some (inst_routing n)) ins"
      by (rule om_eqI) (simp add: l2_def L_def read_back_def ins_def routes bind_map_option comp_def cong: if_cong)
    show "routed (ld_tables l2) n" if "om_find ins i = Some n" for i n
      using that ok(1) assms(2) by (auto simp: ins_def routed_def routes instruments_ok_def l2_def storable_def storable_table_def storable_instrument_def)
  qed (simp add: l2_def T_def L_def read_back_def ins_def om_map_om_map)
  then have 4: "fold resolve_routing (om_keys (instruments (ld_tables l2))) l2 = l4"
    by (simp add: l2_def l4_def on_tables_upd)
  define l5 where "l5 = L\<lparr>ld_tables := saved p created_with state\<rparr>"
  have "fold resolve_group (om_keys (lanes (ld_tables l4))) l4 = on_tables (\<lambda>t. t\<lparr>lanes := lanes p\<rparr>) l4"
    by (rule resolve_groups_written) (use ok(3) in \<open>simp_all add: l4_def T_def L_def read_back_def lanes_ok_def\<close>)
  then have 5: "fold resolve_group (om_keys (lanes (ld_tables l4))) l4 = l5"
    by (simp add: l4_def l5_def on_tables_upd saved_def T_def L_def read_back_def ins_def)
  have 6: "fold drop_orphans ks l5 = l5" for ks
    by (rule drop_orphans_still) (use ok(2) in \<open>auto simp: l5_def saved_def patterns_ok_def\<close>)
  have 7: "dropDanglingClips l5 = l5"
    unfolding l5_def L_def by (rule dropDanglingClips_still) (rule ok(4))
  show ?thesis
    unfolding resolveReferences_def Let_def L_def [symmetric] 2 3 4 5 6 7 by (simp add: l5_def)
qed

subsection \<open>What is written can be read\<close>

lemma value_ok_fields:
  assumes "d \<le> MaxDepth" and "\<forall>(k, v) \<in> set kvs. value_ok (Suc d) v"
  shows "value_ok d (json_object kvs)"
  using assms set_fields_of_subset [of kvs] by (fastforce simp: members_ok_iff)

lemma value_ok_real: "small_real x \<Longrightarrow> d \<le> MaxDepth \<Longrightarrow> value_ok d (JReal x)"
  by (auto simp: small_real_def split: fp.splits)

lemma word_int64 [simp]: "in_int64 (uint w)" for w :: "32 word"
proof -
  have "uint w < 2 ^ LENGTH(32)" "0 \<le> uint w" by (rule unsigned_less, rule unsigned_greater_eq)
  then have "uint w < 4294967296" "0 \<le> uint w" by simp_all
  then show ?thesis by (simp add: in_int64_def int64_min_def int64_max_def order_trans [of "- 9223372036854775808" 0])
qed

lemma int64_widths: "int32_value i \<Longrightarrow> in_int64 i" "int16_value i \<Longrightarrow> in_int64 i"
  by (simp_all add: int32_value_def int16_value_def in_int64_def int64_min_def int64_max_def)

lemma small_values: "double_value x \<Longrightarrow> small_real x" "float_value x \<Longrightarrow> small_real x"
  by (simp_all add: double_value_def float_value_def)

lemmas value_ok_facts = MaxDepth_def value_ok_real int64_widths small_values elements_ok_iff

declare value_ok.simps(2,4) [simp del]

lemma lane_ok: "storable_lane n \<Longrightarrow> value_ok 2 (writeLane n)"
  unfolding writeLane_def
  by (rule value_ok_fields) (auto simp: value_ok_facts lane_fields_def storable_lane_def split: option.split)

lemma plugin_ok: "d \<le> 60 \<Longrightarrow> value_ok d (json_object (plugin_fields p))"
  by (rule value_ok_fields) (auto simp: value_ok_facts plugin_fields_def)

lemma slot_ok: "storable_slot s \<Longrightarrow> value_ok 4 (write_slot s)"
proof -
  assume s: "storable_slot s"
  have "value_ok 5 (json_object (map (\<lambda>(p, v). (nat_to_string (unat p), JReal v)) (om_entries (slot_params s))))"
    by (rule value_ok_fields) (use s in \<open>auto simp: value_ok_facts storable_slot_def\<close>)
  then show ?thesis unfolding write_slot_def
    by (intro value_ok_fields) (auto simp: value_ok_facts intro!: plugin_ok)
qed

lemma track_ok: "storable_track t \<Longrightarrow> value_ok 2 (writeMixerTrack t)"
  unfolding writeMixerTrack_def
  by (rule value_ok_fields) (auto simp: value_ok_facts track_fields_def storable_track_def slot_ok split: option.split)

lemma route_ok: "value_ok 4 (write_route r)"
  unfolding write_route_def by (rule value_ok_fields) (auto simp: value_ok_facts)

lemma settings_ok: "storable_settings s \<Longrightarrow> value_ok 3 (write_channel_settings s)"
  unfolding write_channel_settings_def by (rule value_ok_fields) (auto simp: value_ok_facts storable_settings_def)

lemma defaults_ok: "0 \<le> nd_velocity d \<Longrightarrow> nd_velocity d \<le> MaxVelocity \<Longrightarrow> float_value (nd_pan d) \<Longrightarrow> int16_value (nd_pitch_offset d) \<Longrightarrow>
  value_ok 3 (write_note_defaults d)"
  unfolding write_note_defaults_def
  by (rule value_ok_fields) (auto simp: value_ok_facts in_int64_def int64_min_def int64_max_def MaxVelocity_def int16_value_def)

lemma instrument_ok: "storable_instrument n \<Longrightarrow> value_ok 2 (writeInstrument state n)"
  unfolding writeInstrument_def
  by (rule value_ok_fields)
    (auto simp: value_ok_facts instrument_fields_def storable_instrument_def Let_def string_or_null_def route_ok
      intro!: plugin_ok settings_ok defaults_ok)

lemma points_ok: "storable_automation a \<Longrightarrow> d \<le> 8 \<Longrightarrow> value_ok d (write_points (as_points a))"
  by (auto simp: value_ok_facts write_points_def storable_automation_def)

lemma target_ok: "storable_automation a \<Longrightarrow> d \<le> 7 \<Longrightarrow> \<forall>(k, v) \<in> set (target_fields a). value_ok (Suc d) v"
  by (auto simp: target_fields_def points_ok value_ok_facts split: TargetKind.split)

lemma note_ok: "storable_note n \<Longrightarrow> res_note_properties residue = om_empty \<Longrightarrow> value_ok 5 (write_note residue p i n)"
  by (auto simp: write_note_def value_ok_facts storable_note_def isValidNote_def in_int64_def int64_min_def int64_max_def MaxVelocity_def)

lemma pattern_ok:
  assumes "storable_pattern q" and "res_note_properties residue = om_empty"
  shows "value_ok 2 (writePattern residue q)"
proof -
  have s: "value_ok 3 (write_sequences residue q)"
    unfolding write_sequences_def
    by (rule value_ok_fields)
      (use assms in \<open>auto simp: value_ok_facts storable_pattern_def storable_sequences_def note_ok\<close>)
  have "value_ok 4 (writePatternAutomation a)" if "a \<in> set (pat_automation q)" for a
    unfolding writePatternAutomation_def
    by (rule value_ok_fields) (use assms that target_ok [of a 4] in \<open>auto simp: value_ok_facts storable_pattern_def\<close>)
  then show ?thesis
    unfolding writePattern_def
    by (intro value_ok_fields)
      (use assms s in \<open>auto simp: value_ok_facts pattern_fields_def storable_pattern_def storable_signature_def\<close>)
qed

lemma clip_value_ok: "storable_clip c \<Longrightarrow> value_ok 2 (writeClip c)"
proof -
  assume c: "storable_clip c"
  have "value_ok 3 (writeClipSource (clip_source c))"
    unfolding writeClipSource_def
    by (rule value_ok_fields)
      (use c target_ok [of _ 3] in \<open>auto simp: value_ok_facts source_fields_def storable_clip_def storable_source_def split: ClipSource.splits\<close>)
  moreover have "value_ok 3 (json_object (transform_fields (clip_transforms c)))"
    by (rule value_ok_fields) (use c in \<open>auto simp: value_ok_facts transform_fields_def storable_clip_def storable_transforms_def\<close>)
  ultimately show ?thesis
    unfolding writeClip_def by (intro value_ok_fields) (use c in \<open>auto simp: value_ok_facts clip_fields_def storable_clip_def\<close>)
qed

lemma table_ok:
  assumes "\<And>i e. om_find m i = Some e \<Longrightarrow> value_ok 2 (write i e)"
  shows "value_ok 1 (write_table k write m)"
  unfolding write_table_def by (rule value_ok_fields) (use assms in \<open>auto simp: value_ok_facts numeral_2_eq_2\<close>)

lemma transport_ok: "storable_transport t \<Longrightarrow> value_ok 1 (writeTransport t)"
proof -
  assume t: "storable_transport t"
  have "value_ok 2 (json_object [(''enabled'', JBool (tp_loop_enabled t)), (''start'', JInt (tp_loop_start t)), (''end'', JInt (tp_loop_end t))])"
    by (rule value_ok_fields) (use t in \<open>auto simp: value_ok_facts storable_transport_def\<close>)
  then show ?thesis
    unfolding writeTransport_def
    by (intro value_ok_fields) (use t in \<open>auto simp: value_ok_facts storable_transport_def storable_signature_def numeral_2_eq_2\<close>)
qed

lemma meta_ok: "value_ok 1 (write_meta created_with m)"
  unfolding write_meta_def
  by (rule value_ok_fields) (auto simp: value_ok_facts TicksPerQuarter_def in_int64_def int64_min_def int64_max_def)

lemma document_ok:
  assumes "storable p" and "res_note_properties residue = om_empty"
  shows "value_ok 0 (json_object (document_fields p residue created_with state))"
proof (rule value_ok_fields)
  note s = assms(1) [unfolded storable_def storable_table_def]
  have "value_ok 1 (write_table KInstrument (\<lambda>i n. writeInstrument (om_find state i) n) (instruments p))"
    by (rule table_ok) (use s in \<open>simp add: instrument_ok\<close>)
  moreover have "value_ok 1 (write_table KPattern (\<lambda>i q. writePattern residue q) (patterns p))"
    by (rule table_ok) (use s assms(2) in \<open>simp add: pattern_ok\<close>)
  moreover have "value_ok 1 (write_table KArrangementLane (\<lambda>i n. writeLane n) (lanes p))"
    by (rule table_ok) (use s in \<open>simp add: lane_ok\<close>)
  moreover have "value_ok 1 (write_table KClip (\<lambda>i c. writeClip c) (clips p))"
    by (rule table_ok) (use s in \<open>simp add: clip_value_ok\<close>)
  moreover have "value_ok 1 (write_table KMixerTrack (\<lambda>i t. writeMixerTrack t) (mixer_tracks p))"
    by (rule table_ok) (use s in \<open>simp add: track_ok\<close>)
  moreover have "value_ok 1 (writeTransport (transport p))" using s by (intro transport_ok) blast
  ultimately show "\<forall>(k, v) \<in> set (document_fields p residue created_with state). value_ok (Suc 0) v"
    using meta_ok by (auto simp: document_fields_def FormatVersion_def MaxDepth_def in_int64_def int64_min_def int64_max_def)
qed (simp add: MaxDepth_def)

subsection \<open>Lane order\<close>

definition renumbered :: "(lane_id, ArrangementLane) omap \<Rightarrow> (lane_id, ArrangementLane) omap" where
  "renumbered ls = renumber 0 (map snd (sort_key fst (map (\<lambda>(i, lane). (lane_order lane, i)) (om_entries ls)))) ls"

definition lane_complaint :: string where
  "lane_complaint = ''Lane order was ambiguous; lanes were renumbered in their saved order.''"

lemma fixLaneOrder_renumbered:
  "fixLaneOrder l = (if renumbered (lanes (ld_tables l)) = lanes (ld_tables l) then l
     else load_warn lane_complaint (on_tables (\<lambda>t. t\<lparr>lanes := renumbered (lanes (ld_tables l))\<rparr>) l))"
  by (simp add: fixLaneOrder_def Let_def renumbered_def lane_complaint_def)

lemma renumbered_ok:
  assumes "lanes_ok p"
  shows "lanes_ok (p\<lparr>lanes := renumbered (lanes p)\<rparr>)" and "om_find (renumbered (lanes p)) i = None \<longleftrightarrow> om_find (lanes p) i = None"
proof -
  define l where "l = on_tables (\<lambda>t. t\<lparr>lanes := lanes p\<rparr>) new_loader"
  have l: "lanes (ld_tables l) = lanes p" by (simp add: l_def)
  obtain ls where t: "ld_tables (fixLaneOrder l) = (ld_tables l)\<lparr>lanes := ls\<rparr>"
    and same: "\<And>i. map_option (\<lambda>n. n\<lparr>lane_order := 0\<rparr>) (om_find ls i) = map_option (\<lambda>n. n\<lparr>lane_order := 0\<rparr>) (om_find (lanes p) i)"
    and unique: "\<And>i j n m. om_find ls i = Some n \<Longrightarrow> om_find ls j = Some m \<Longrightarrow> lane_order n = lane_order m \<Longrightarrow> i = j"
    using fixLaneOrder_sound [of l] l by auto
  have "lanes (ld_tables (fixLaneOrder l)) = renumbered (lanes p)"
    by (simp add: fixLaneOrder_renumbered l)
  then have ls: "ls = renumbered (lanes p)" by (simp add: t)
  have live: "om_find ls i = None \<longleftrightarrow> om_find (lanes p) i = None" for i using same [of i] by (metis option.map_disc_iff)
  have group: "\<exists>n0. om_find (lanes p) i = Some n0 \<and> lane_group_id n0 = lane_group_id n" if n: "om_find ls i = Some n" for i n
  proof -
    obtain n0 where n0: "om_find (lanes p) i = Some n0" using live [of i] n by auto
    then have "n0\<lparr>lane_order := 0\<rparr> = n\<lparr>lane_order := 0\<rparr>" using same [of i] n by simp
    then have "lane_group_id (n0\<lparr>lane_order := 0\<rparr>) = lane_group_id (n\<lparr>lane_order := 0\<rparr>)" by simp
    then show ?thesis using n0 by simp
  qed
  have "g \<noteq> i \<and> om_find ls g \<noteq> None" if "om_find ls i = Some n" "lane_group_id n = Some g" for i n g
    using group [OF that(1)] that(2) assms live unfolding lanes_ok_def by metis
  then show "lanes_ok (p\<lparr>lanes := renumbered (lanes p)\<rparr>)"
    using unique unfolding lanes_ok_def ls [symmetric] by (auto simp: ls)
  show "om_find (renumbered (lanes p)) i = None \<longleftrightarrow> om_find (lanes p) i = None" using live ls by simp
qed

subsection \<open>The project that comes back\<close>

definition reopened :: "Tables \<Rightarrow> string \<Rightarrow> (instrument_id, StateRecord) omap \<Rightarrow> Tables" where
  "reopened p created_with state = (saved p created_with state)\<lparr>lanes := renumbered (lanes p)\<rparr>"

definition blank_residue :: "Residue \<Rightarrow> bool" where
  "blank_residue r \<longleftrightarrow> (\<forall>ms. res_document r = JObject ms \<longrightarrow> ms = []) \<and> res_note_properties r = om_empty"

lemma reopened_integrity:
  assumes "project_integrity p"
  shows "checkReferentialIntegrity (adopt (reopened p created_with state) staged) = []"
proof -
  define q where "q = adopt (reopened p created_with state) staged"
  have q: "instruments q = om_map (\<lambda>i. stored_instrument (om_find state i)) (instruments p)" "patterns q = patterns p"
    "lanes q = renumbered (lanes p)" "clips q = clips p" "mixer_tracks q = mixer_tracks p" "master q = master p"
    by (simp_all add: q_def adopt_def reopened_def saved_def)
  have ok: "instruments_ok p" "patterns_ok p" "lanes_ok p" "clips_ok p" "mixer_ok p"
    using assms by (simp_all add: project_integrity_def)
  have 1: "instruments_ok q" using ok(1) by (auto simp: instruments_ok_def q stored_instrument_def)
  have 2: "patterns_ok q" using ok(2) by (auto simp: patterns_ok_def q)
  have 3: "lanes_ok q" using renumbered_ok(1) [OF ok(3)] by (simp add: lanes_ok_def q)
  have "automation_resolves q m \<longleftrightarrow> automation_resolves p m" for m
    by (simp add: automation_resolves_def find_defs q split: TargetKind.split)
  then have "clip_ok q c \<longleftrightarrow> clip_ok p c" for c
    using renumbered_ok(2) [OF ok(3), of "clip_lane c"] unfolding clip_ok_def q by (simp split: ClipSource.split)
  then have 4: "clips_ok q" using ok(4) by (simp add: clips_ok_def q)
  have 5: "mixer_ok q" using ok(5) by (simp add: mixer_ok_def q)
  show ?thesis unfolding integrity_iff q_def [symmetric] project_integrity_def using 1 2 3 4 5 by blast
qed

lemma blank_document:
  "blank_residue r \<Longrightarrow> project_document p r created_with state = fields_of (document_fields p r created_with state)"
  by (auto simp: project_document_def blank_residue_def Let_def split: Value.split)

lemma parsed_written:
  assumes "storable p" and "blank_residue r"
  shows "parsed_document (writeProjectJson p r created_with state) new_loader =
    (Some (fields_of (content_fields p r created_with state), new_loader), new_loader)"
proof -
  let ?doc = "json_object (document_fields p r created_with state)"
  have ok: "value_ok 0 ?doc" by (rule document_ok) (use assms in \<open>simp_all add: blank_residue_def\<close>)
  obtain t where t: "document_text ?doc [''format'', ''version''] = Some t" "json_text 0 t (requant ?doc)"
    using document_written [OF ok, of "[''format'', ''version'']"] unfolding written_def by auto
  then have w: "writeProjectJson p r created_with state = t @ newline"
    by (simp add: writeProjectJson_def blank_document [OF assms(2)] writeCanonical_text)
  have "accepted (fields_of (on_grid (document_fields p r created_with state))) new_loader =
      (Some (fields_of (content_fields p r created_with state), new_loader), new_loader)"
    by (simp add: accepted_def take_fields_of document_fields_def content_fields_def FormatTag_def FormatVersion_def)
  then show ?thesis using parse_document [OF t(2)] by (simp add: parsed_document_def w)
qed

text \<open>
  Claim C13. Saving and loading is the identity: for a sound project with values the file can carry
  (\<open>storable\<close>: machine integers of their field's width, reals on the grid of six decimals and floats that
  the grid does not move, every instrument routed, clips with a length), the text that is written loads
  without an error into any project, and gives back the tables that were saved, with the states the
  save wrote, an empty residue, and the lanes renumbered from zero; there is one warning, exactly when
  that renumbering changed an order.
\<close>

theorem save_load_round_trip:
  assumes "project_ok p" and "storable p" and "blank_residue r"
  shows "loadProjectJson clock staged (writeProjectJson p r created_with state) q r0 =
    (\<lparr>lr_ok = True, lr_issues = (if renumbered (lanes p) = lanes p then []
       else [\<lparr>li_severity = Warning, li_message = lane_complaint\<rparr>])\<rparr>,
     adopt (reopened p created_with state) q, \<lparr>res_document = JObject [], res_note_properties = om_empty\<rparr>)"
proof -
  obtain ms where ms: "run_state read_project (fields_of (content_fields p r created_with state), new_loader) =
      ((), (ms, read_back p created_with state))" "prune_entries ms = []"
    using read_project_written [OF assms(2), of r] assms(3) unfolding blank_residue_def by blast
  define L where "L = (read_back p created_with state)\<lparr>ld_tables := saved p created_with state\<rparr>"
  define l where "l = fixLaneOrder L"
  have doc: "load_document clock staged (fields_of (content_fields p r created_with state)) new_loader = (ms, l)"
    by (simp add: load_document_def ms(1) resolve_written [OF assms(1,2)] l_def L_def)
  have L: "ld_tables L = saved p created_with state" "ld_issues L = []" "ld_properties L = om_empty" "ld_ticks_ok L" "ld_dropped L = []"
    by (simp_all add: L_def read_back_def new_loader_def)
  have lanes: "lanes (saved p created_with state) = lanes p" by (simp add: saved_def)
  have l: "ld_tables l = reopened p created_with state" "ld_properties l = om_empty" "ld_ticks_ok l" "ld_dropped l = []"
    "ld_issues l = (if renumbered (lanes p) = lanes p then [] else [\<lparr>li_severity = Warning, li_message = lane_complaint\<rparr>])"
    unfolding l_def fixLaneOrder_renumbered L(1) lanes
    by (auto simp: L reopened_def issue_def lanes intro: sym)
  have "project_integrity p" using assms(1) by (simp add: project_ok_def)
  note check = reopened_integrity [OF this, of created_with state staged]
  show ?thesis
    by (simp add: loadProjectJson_def parsed_written [OF assms(2,3)] doc l check ms(2) purgeDroppedResidue_def Let_def)
qed

lemma storable_table_code [code]:
  "storable_table P own m \<longleftrightarrow> (\<forall>(i, e) \<in> set (om_entries m). P e \<and> own e = i)"
  by (simp add: storable_table_def om_entries_ball)

lemma storable_sequences_code [code]:
  "storable_sequences m \<longleftrightarrow> (\<forall>(i, s) \<in> set (om_entries m). isSorted s \<and> (\<forall>n \<in> set s. storable_note n))"
  by (simp add: storable_sequences_def om_entries_ball)

lemma storable_slot_code [code]:
  "storable_slot s \<longleftrightarrow> pr_state_ref (slot_plugin s) = '''' \<and> pr_state_sha256 (slot_plugin s) = '''' \<and>
     (\<forall>(p, v) \<in> set (om_entries (slot_params s)). float_value v)"
  by (simp add: storable_slot_def om_entries_ball)

text \<open>A whole number is on the grid.\<close>

lemma whole_values:
  assumes "\<bar>n\<bar> < 2 ^ 24"
  shows "double_value (Fin (of_int n))" and "float_value (Fin (of_int n))"
proof -
  have m: "micro (of_int n) = n * 10 ^ 6"
    unfolding micro_def using round_even_of_int [of "n * 10 ^ 6"] by simp
  have g: "grid (Fin (of_int n)) = Fin (of_int n)"
    using rnd64_int [of n] assms by (simp add: grid_def requantise_def m)
  have s: "small_real (Fin (of_int n))"
  proof -
    have "\<bar>n\<bar> \<le> 2 ^ 32" using assms by simp
    then have "of_int \<bar>n\<bar> \<le> (of_int (2 ^ 32) :: rat)" by (rule of_int_le_iff [THEN iffD2])
    then show ?thesis by (simp add: small_real_def)
  qed
  have f: "to_float (Fin (of_int n)) = Fin (of_int n)"
    using rnd_int [of n 24 "- 149" 128] assms by (simp add: rnd32_def)
  show "double_value (Fin (of_int n))" "float_value (Fin (of_int n))" using g s f by (simp_all add: double_value_def float_value_def)
qed

lemma whole_value:
  assumes "q = of_int \<lfloor>q\<rfloor>" and "\<bar>\<lfloor>q\<rfloor>\<bar> < 2 ^ 24"
  shows "double_value (Fin q)" and "float_value (Fin q)"
  using whole_values [OF assms(2)] by (simp_all flip: assms(1))

lemma whole_values_code [code]:
  "double_value x \<longleftrightarrow> (case x of Fin q \<Rightarrow> q = of_int \<lfloor>q\<rfloor> \<and> \<bar>\<lfloor>q\<rfloor>\<bar> < 2 ^ 24 \<or> small_real x \<and> grid x = x | _ \<Rightarrow> False)"
  "float_value x \<longleftrightarrow> (case x of Fin q \<Rightarrow> q = of_int \<lfloor>q\<rfloor> \<and> \<bar>\<lfloor>q\<rfloor>\<bar> < 2 ^ 24 \<or> small_real x \<and> to_float (grid x) = x | _ \<Rightarrow> False)"
proof -
  have "(double_value x \<longleftrightarrow> (case x of Fin q \<Rightarrow> q = of_int \<lfloor>q\<rfloor> \<and> \<bar>\<lfloor>q\<rfloor>\<bar> < 2 ^ 24 \<or> small_real x \<and> grid x = x | _ \<Rightarrow> False)) \<and>
      (float_value x \<longleftrightarrow> (case x of Fin q \<Rightarrow> q = of_int \<lfloor>q\<rfloor> \<and> \<bar>\<lfloor>q\<rfloor>\<bar> < 2 ^ 24 \<or> small_real x \<and> to_float (grid x) = x | _ \<Rightarrow> False))"
  proof (cases x)
    case (Fin q)
    show ?thesis unfolding Fin fp.case using whole_value [of q] unfolding double_value_def float_value_def by blast
  qed (simp_all add: double_value_def float_value_def small_real_def)
  then show "double_value x \<longleftrightarrow> (case x of Fin q \<Rightarrow> q = of_int \<lfloor>q\<rfloor> \<and> \<bar>\<lfloor>q\<rfloor>\<bar> < 2 ^ 24 \<or> small_real x \<and> grid x = x | _ \<Rightarrow> False)"
    "float_value x \<longleftrightarrow> (case x of Fin q \<Rightarrow> q = of_int \<lfloor>q\<rfloor> \<and> \<bar>\<lfloor>q\<rfloor>\<bar> < 2 ^ 24 \<or> small_real x \<and> to_float (grid x) = x | _ \<Rightarrow> False)"
    by simp_all
qed

lemma sample_storable: "storable (copyTables sample_project)"
  by code_simp

lemma save_load_round_trip_witness:
  "loadProjectJson 0 sample_project (writeProjectJson (copyTables sample_project) \<lparr>res_document = JNull, res_note_properties = om_empty\<rparr> '''' om_empty)
      sample_project \<lparr>res_document = JNull, res_note_properties = om_empty\<rparr> =
    (\<lparr>lr_ok = True, lr_issues = (if renumbered (lanes (copyTables sample_project)) = lanes (copyTables sample_project) then []
       else [\<lparr>li_severity = Warning, li_message = lane_complaint\<rparr>])\<rparr>,
     adopt (reopened (copyTables sample_project) '''' om_empty) sample_project, \<lparr>res_document = JObject [], res_note_properties = om_empty\<rparr>)"
proof (rule save_load_round_trip)
  show "project_ok (copyTables sample_project)" using sample_sound by (simp add: sound_def)
  show "storable (copyTables sample_project)" by (rule sample_storable)
  show "blank_residue \<lparr>res_document = JNull, res_note_properties = om_empty\<rparr>" by (simp add: blank_residue_def)
qed

text \<open>
  Deleting a lane leaves the orders of the others as they are, so a project saved after it is reported
  as ambiguous when it is opened.
\<close>

lemma deleted_lane_warns:
  "renumbered (lanes (snd (deleteLane lan1 sample_project))) \<noteq> lanes (snd (deleteLane lan1 sample_project))"
  by code_simp

end
