(* ===== verification/Save_Safety.thy ===== *)
theory Save_Safety
  imports Save_Project Save_Load Sample
begin

text \<open>
  A save never destroys the save before it: whatever fails, and wherever the process dies, the bundle
  holds what it held or the complete new project.
\<close>

subsection \<open>Paths\<close>

lemma under_append: "under p r \<longleftrightarrow> (\<exists>s. r = p @ s)"
  unfolding under_def by (metis append_eq_conv_conj)

lemma under_self [simp]: "under p p" "under p (p @ s)" "under [] r"
  by (simp_all add: under_def)

lemma under_length: "under p r \<Longrightarrow> length p \<le> length r"
  by (auto simp: under_append)

definition plain :: "path \<Rightarrow> bool" where
  "plain p \<longleftrightarrow> (\<forall>c \<in> set p. c \<noteq> '''' \<and> c \<noteq> ''.'' \<and> c \<noteq> ''..'')"

lemma resolve_from_plain: "plain p \<Longrightarrow> resolve_from acc p = rev acc @ p"
  by (induction p arbitrary: acc) (auto simp: plain_def)

lemma resolve_plain [simp]: "plain p \<Longrightarrow> resolve p = p"
  by (simp add: resolve_def resolve_from_plain)

lemma plain_append [simp]: "plain (p @ q) \<longleftrightarrow> plain p \<and> plain q" "plain (c # p) \<longleftrightarrow> c \<noteq> '''' \<and> c \<noteq> ''.'' \<and> c \<noteq> ''..'' \<and> plain p" "plain []"
  by (auto simp: plain_def)

text \<open>Two entries of one directory: nothing is below both.\<close>

lemma siblings_apart:
  assumes "a \<noteq> b"
  shows "\<not> under (d @ [a]) (d @ [b])" "under (d @ [a]) r \<Longrightarrow> \<not> under (d @ [b]) r"
proof -
  show "\<not> under (d @ [a]) (d @ [b])" using assms by (simp add: under_def)
  show "\<not> under (d @ [b]) r" if "under (d @ [a]) r"
  proof
    assume "under (d @ [b]) r"
    then have "take (length d + 1) r = d @ [b]" by (simp add: under_def)
    moreover have "take (length d + 1) r = d @ [a]" using that by (simp add: under_def)
    ultimately show False using assms by simp
  qed
qed

definition sidecar :: "instrument_id \<Rightarrow> path" where
  "sidecar i = [''state'', id_str KInstrument i @ ''.bin'']"

lemma split_path_plain: "CHR ''/'' \<notin> set s \<Longrightarrow> split_path s = [s]"
  by (induction s) auto

lemma split_path_append: "CHR ''/'' \<notin> set s \<Longrightarrow> split_path (s @ CHR ''/'' # t) = s # split_path t"
  by (induction s) auto

lemma id_str_plain: "CHR ''/'' \<notin> set (id_str k i)"
proof -
  have "length Alphabet = 32" by (simp add: Alphabet_def)
  then have "Alphabet ! fiveBitsAt r b \<in> set Alphabet" for r b using fiveBitsAt_less by (metis nth_mem)
  moreover have "CHR ''/'' \<notin> set Alphabet" by (simp add: Alphabet_def)
  ultimately have "CHR ''/'' \<notin> set (encodeUlid r)" for r by (auto simp: encodeUlid_def)
  moreover have "CHR ''/'' \<notin> set (entityPrefix k)" by (cases k) simp_all
  ultimately show ?thesis by (simp add: id_str_def)
qed

lemma state_path [simp]: "path_append p (state_name i) = p @ sidecar i"
proof -
  have "split_path (''state'' @ CHR ''/'' # id_str KInstrument i @ ''.bin'') = ''state'' # [id_str KInstrument i @ ''.bin'']"
    using id_str_plain [of KInstrument i] by (subst split_path_append) (simp_all add: split_path_plain)
  then show ?thesis by (simp add: path_append_def state_name_def sidecar_def)
qed

lemma state_name_some [simp]: "state_name i \<noteq> []"
  by (simp add: state_name_def)

lemma sidecar_plain [simp]: "plain (sidecar i)"
proof -
  have "4 < length (id_str KInstrument i @ ''.bin'')" by (simp add: id_str_def)
  then show ?thesis by (auto simp: sidecar_def)
qed

lemma sidecar_inject [simp]: "sidecar i = sidecar j \<longleftrightarrow> i = j"
  by (auto simp: sidecar_def dest: injD [OF id_str_inj])


subsection \<open>What a call leaves alone\<close>

text \<open>Every tree there ever was, the newest first.\<close>

definition trace :: "World \<Rightarrow> files list" where
  "trace w = w_files w # w_seen w"

definition same_on :: "(path \<Rightarrow> bool) \<Rightarrow> files \<Rightarrow> files \<Rightarrow> bool" where
  "same_on P fs fs' \<longleftrightarrow> (\<forall>r. P r \<longrightarrow> om_find fs' r = om_find fs r)"

definition keeps :: "(path \<Rightarrow> bool) \<Rightarrow> 'a io \<Rightarrow> bool" where
  "keeps P m \<longleftrightarrow> (\<forall>w. \<exists>new. trace (snd (run_state m w)) = new @ trace w \<and> (\<forall>fs \<in> set new. same_on P (w_files w) fs))"

named_theorems keeps_intro

lemma same_on_refl [simp]: "same_on P fs fs"
  by (simp add: same_on_def)

lemma same_on_trans: "same_on P a b \<Longrightarrow> same_on P b c \<Longrightarrow> same_on P a c"
  by (simp add: same_on_def)

lemma keepsD:
  assumes "keeps P m" and "run_state m w = (a, w')"
  shows "\<exists>new. trace w' = new @ trace w \<and> (\<forall>fs \<in> set new. same_on P (w_files w) fs) \<and> same_on P (w_files w) (w_files w')"
proof -
  obtain new where new: "trace w' = new @ trace w" "\<forall>fs \<in> set new. same_on P (w_files w) fs"
    using assms unfolding keeps_def by (metis snd_conv)
  moreover have "same_on P (w_files w) (w_files w')"
    using new by (cases new) (auto simp: trace_def)
  ultimately show ?thesis by blast
qed

lemma keeps_bind [keeps_intro]:
  assumes "keeps P m" and "\<And>a. keeps P (f a)"
  shows "keeps P (do { a \<leftarrow> m; f a })"
  unfolding keeps_def
proof
  fix w
  obtain a w1 where m: "run_state m w = (a, w1)" by fastforce
  obtain b w2 where f: "run_state (f a) w1 = (b, w2)" by fastforce
  obtain n1 where n1: "trace w1 = n1 @ trace w" "\<forall>fs \<in> set n1. same_on P (w_files w) fs" "same_on P (w_files w) (w_files w1)"
    using keepsD [OF assms(1) m] by blast
  obtain n2 where n2: "trace w2 = n2 @ trace w1" "\<forall>fs \<in> set n2. same_on P (w_files w1) fs"
    using keepsD [OF assms(2) f] by blast
  have "\<forall>fs \<in> set (n2 @ n1). same_on P (w_files w) fs" using n1 n2(2) same_on_trans by fastforce
  then show "\<exists>new. trace (snd (run_state (do { a \<leftarrow> m; f a }) w)) = new @ trace w \<and> (\<forall>fs \<in> set new. same_on P (w_files w) fs)"
    using n1(1) n2(1) by (intro exI [of _ "n2 @ n1"]) (simp add: m f)
qed

lemma keeps_still: "(\<And>w. trace (snd (run_state m w)) = trace w) \<Longrightarrow> keeps P m"
  unfolding keeps_def by (metis append_Nil empty_iff list.set(1))

lemma keeps_simple [keeps_intro]: "keeps P (ret a)" "keeps P next_call" "keeps P files_now"
  by (rule keeps_still, simp add: next_call_def files_now_def trace_def)+

lemma keeps_change: "(\<And>fs. same_on P fs (f fs)) \<Longrightarrow> keeps P (change f)"
  unfolding keeps_def by (auto simp: change_def trace_def intro!: exI [of _ "[f (w_files w)]" for w])

lemma keeps_if [keeps_intro]: "(b \<Longrightarrow> keeps P m) \<Longrightarrow> (\<not> b \<Longrightarrow> keeps P n) \<Longrightarrow> keeps P (if b then m else n)"
  by simp

lemma keeps_Let [keeps_intro]: "keeps P (f x) \<Longrightarrow> keeps P (let y = x in f y)"
  by simp

lemma keeps_option [keeps_intro]:
  "keeps P m \<Longrightarrow> (\<And>a. x = Some a \<Longrightarrow> keeps P (f a)) \<Longrightarrow> keeps P (case x of None \<Rightarrow> m | Some a \<Rightarrow> f a)"
  by (cases x) simp_all

lemma keeps_prod [keeps_intro]: "(\<And>a b. x = (a, b) \<Longrightarrow> keeps P (f a b)) \<Longrightarrow> keeps P (case x of (a, b) \<Rightarrow> f a b)"
  by (cases x) simp_all

lemma keeps_node [keeps_intro]:
  "keeps P m \<Longrightarrow> (\<And>c s. keeps P (f c s)) \<Longrightarrow> keeps P (case n of Dir \<Rightarrow> m | File c s \<Rightarrow> f c s)"
  by (cases n) simp_all

lemma keeps_insert: "\<not> P q \<Longrightarrow> keeps P (change (om_insert q n))"
  by (rule keeps_change) (auto simp: same_on_def)

lemma keeps_file_exists [keeps_intro]: "keeps P (file_exists p)"
  unfolding file_exists_def by (intro keeps_intro)

lemma keeps_remove_all [keeps_intro]: "(\<And>r. under (resolve p) r \<Longrightarrow> \<not> P r) \<Longrightarrow> keeps P (remove_all p)"
  unfolding remove_all_def
  by (intro keeps_intro keeps_change) (auto simp: same_on_def without_def split: option.split)

lemma keeps_create_directory [keeps_intro]: "\<not> P (resolve p) \<Longrightarrow> keeps P (create_directory p)"
  unfolding create_directory_def by (intro keeps_intro keeps_insert)

lemma keeps_make_directories:
  "(\<And>q. q \<noteq> [] \<Longrightarrow> under q cs \<Longrightarrow> \<not> P (made @ q)) \<Longrightarrow> keeps P (make_directories made cs)"
proof (induction made cs rule: make_directories.induct)
  case (2 made c cs)
  have "\<not> P (made @ [c])" using 2(3) [of "[c]"] by (simp add: under_def)
  moreover have "\<not> P ((made @ [c]) @ q)" if "q \<noteq> []" "under q cs" for q
    using 2(3) [of "c # q"] that by (simp add: under_def)
  ultimately show ?case
    unfolding make_directories.simps using 2(1,2) by (intro keeps_intro keeps_insert) auto
qed (simp add: keeps_simple)

lemma keeps_create_directories [keeps_intro]:
  "(\<And>q. q \<noteq> [] \<Longrightarrow> under q (resolve p) \<Longrightarrow> \<not> P q) \<Longrightarrow> keeps P (create_directories p)"
  unfolding create_directories_def by (rule keeps_make_directories) simp

lemma keeps_append_bytes: "\<not> P q \<Longrightarrow> keeps P (change (append_bytes q b))"
  by (rule keeps_change) (auto simp: same_on_def append_bytes_def split: option.split node.split)

lemma keeps_write_loop: "\<not> P q \<Longrightarrow> keeps P (write_loop q rs b)"
  by (induction q rs b rule: write_loop.induct) (auto intro!: keeps_intro keeps_append_bytes)

lemma keeps_flushFile: "\<not> P q \<Longrightarrow> keeps P (flushFile q)"
  unfolding flushFile_def
  by (intro keeps_intro keeps_change) (auto simp: same_on_def mark_flushed_def split: option.split node.split)

lemma keeps_writeFileSynced [keeps_intro]: "\<not> P (resolve p) \<Longrightarrow> keeps P (writeFileSynced p b)"
  unfolding writeFileSynced_def openForWrite_def
  by (intro keeps_intro keeps_insert keeps_write_loop keeps_flushFile)

lemma keeps_copy_file [keeps_intro]: "\<not> P (resolve p') \<Longrightarrow> keeps P (copy_file p p')"
  unfolding copy_file_def by (intro keeps_intro keeps_insert)

lemma keeps_syncDirectory [keeps_intro]: "keeps P (syncDirectory p)"
  unfolding syncDirectory_def by (intro keeps_intro)

subsection \<open>Staging touches nothing else\<close>

text \<open>The states the bundle came with are named as this version names them.\<close>

definition own_refs :: "(instrument_id \<times> Instrument) list \<Rightarrow> bool" where
  "own_refs es \<longleftrightarrow> (\<forall>(i, n) \<in> set es. pr_state_ref (inst_plugin n) = '''' \<or> pr_state_ref (inst_plugin n) = state_name i)"

lemma butlast_sidecar [simp]: "butlast (p @ sidecar i) = p @ [''state'']"
  by (simp add: sidecar_def butlast_append)

lemma keeps_save_states:
  assumes "plain staging" and "\<And>q. q \<noteq> [] \<Longrightarrow> under q (staging @ [''state'']) \<Longrightarrow> \<not> P q"
  shows "own_refs es \<Longrightarrow> (\<And>i. i \<in> fst ` set es \<Longrightarrow> \<not> P (staging @ sidecar i)) \<Longrightarrow> keeps P (save_states opts staging es report)"
proof (induction es arbitrary: report)
  case (Cons x es)
  obtain i n where x: "x = (i, n)" by fastforce
  have rest: "keeps P (save_states opts staging es report')" for report'
    by (rule Cons.IH) (use Cons.prems in \<open>auto simp: own_refs_def\<close>)
  have dirs: "keeps P (create_directories (staging @ [''state'']))"
    by (rule keeps_create_directories) (use assms in simp)
  have fresh: "\<not> P (staging @ sidecar i)" using Cons.prems(2) [of i] by (simp add: x)
  then have target: "\<not> P (resolve (staging @ sidecar i))" using assms(1) by simp
  have ref: "pr_state_ref (inst_plugin n) = '''' \<or> pr_state_ref (inst_plugin n) = state_name i"
    using Cons.prems(1) by (simp add: x own_refs_def)
  show ?case
    unfolding x save_states.simps state_path
    by (intro keeps_intro rest dirs target)
      (use ref in \<open>auto simp: dirs fresh assms(1) dest: assms(2) intro!: keeps_intro rest\<close>)
qed (simp add: keeps_simple)

lemma keeps_stage_document:
  "plain staging \<Longrightarrow> \<not> P (staging @ [''project.json'']) \<Longrightarrow> keeps P (stage_document staging p residue opts report)"
  unfolding stage_document_def by (intro keeps_intro) simp

lemma keeps_stage_bundle:
  assumes "plain staging" and "own_refs (om_entries (instruments p))"
    and "\<And>q. q \<noteq> [] \<Longrightarrow> under q staging \<or> under staging q \<Longrightarrow> \<not> P q"
  shows "keeps P (stage_bundle staging p residue opts)"
proof -
  have "\<not> P q" if "q \<noteq> []" "under q (staging @ [''state''])" for q
  proof -
    have "under q staging \<or> under staging q" using that by (auto simp: under_append append_eq_append_conv2)
    then show ?thesis using assms(3) that(1) by blast
  qed
  then have "keeps P (save_states opts staging (om_entries (instruments p)) new_report)"
    by (intro keeps_save_states [OF assms(1) _ assms(2)]) (use assms(3) in \<open>auto simp: sidecar_def\<close>)
  moreover have "keeps P (stage_document staging p residue opts report)" for report
    by (rule keeps_stage_document [OF assms(1)]) (use assms(3) in simp)
  ultimately show ?thesis unfolding stage_bundle_def by (intro keeps_intro)
qed

subsection \<open>What stays\<close>

definition stays :: "path \<Rightarrow> node \<Rightarrow> 'a io \<Rightarrow> bool" where
  "stays r v m \<longleftrightarrow> (\<forall>w. om_find (w_files w) r = Some v \<longrightarrow> om_find (w_files (snd (run_state m w))) r = Some v)"

named_theorems stays_intro

lemma staysD: "stays r v m \<Longrightarrow> run_state m w = (a, w') \<Longrightarrow> om_find (w_files w) r = Some v \<Longrightarrow> om_find (w_files w') r = Some v"
  unfolding stays_def by (metis snd_conv)

lemma stays_keeps: "keeps (\<lambda>q. q = r) m \<Longrightarrow> stays r v m"
proof -
  assume k: "keeps (\<lambda>q. q = r) m"
  have "om_find (w_files w') r = om_find (w_files w) r" if "run_state m w = (a, w')" for w a w'
    using keepsD [OF k that] by (auto simp: same_on_def)
  then show ?thesis unfolding stays_def by (metis prod.collapse)
qed

lemma stays_bind [stays_intro]: "stays r v m \<Longrightarrow> (\<And>a. stays r v (f a)) \<Longrightarrow> stays r v (do { a \<leftarrow> m; f a })"
  by (simp add: stays_def split_beta)

lemma stays_simple [stays_intro]:
  "stays r v (ret a)" "stays r v next_call" "stays r v files_now"
  by (rule stays_keeps, rule keeps_simple)+

lemma stays_calls [stays_intro]: "stays r v (file_exists p)" "stays r v (syncDirectory p)"
  by (rule stays_keeps, rule keeps_file_exists keeps_syncDirectory)+

lemma stays_cases [stays_intro]:
  "(b \<Longrightarrow> stays r v m) \<Longrightarrow> (\<not> b \<Longrightarrow> stays r v n) \<Longrightarrow> stays r v (if b then m else n)"
  "stays r v (g x) \<Longrightarrow> stays r v (let y = x in g y)"
  "stays r v m \<Longrightarrow> (\<And>a. z = Some a \<Longrightarrow> stays r v (f a)) \<Longrightarrow> stays r v (case z of None \<Rightarrow> m | Some a \<Rightarrow> f a)"
  by (simp, simp, cases z, simp_all)

lemma stays_written [stays_intro]: "r \<noteq> resolve p \<Longrightarrow> stays r v (writeFileSynced p b)"
  by (rule stays_keeps, rule keeps_writeFileSynced) simp

lemma stays_copied [stays_intro]: "r \<noteq> resolve p' \<Longrightarrow> stays r v (copy_file p p')"
  by (rule stays_keeps, rule keeps_copy_file) simp

lemma stays_make_directories: "stays r v (make_directories made cs)"
proof (induction made cs rule: make_directories.induct)
  case (2 made c cs)
  have new: "stays r v (do { _ \<leftarrow> change (om_insert (made @ [c]) Dir); make_directories (made @ [c]) cs })"
    if "\<not> (om_find fs (made @ [c]) \<noteq> None \<or> out_fails out)" "om_find fs (made @ [c]) \<noteq> Some Dir" "r \<noteq> made @ [c]"
    for fs and out :: outcome
  proof (rule stays_bind)
    show "stays r v (change (om_insert (made @ [c]) Dir))" using that(3) by (simp add: stays_def change_def)
    show "stays r v (make_directories (made @ [c]) cs)" by (rule 2(2) [OF refl that(2,1)])
  qed
  show ?case
    unfolding stays_def
  proof (intro allI impI)
    fix w :: World assume r: "om_find (w_files w) r = Some v"
    define w1 where "w1 = w\<lparr>w_calls := w_calls w + 1\<rparr>"
    define out where "out = w_fate w (w_calls w)"
    let ?q = "made @ [c]"
    have step: "run_state (make_directories made (c # cs)) w =
        (if om_find (w_files w) ?q = Some Dir then run_state (make_directories ?q cs) w1
         else if om_find (w_files w) ?q \<noteq> None \<or> out_fails out then ((), w1)
         else run_state (do { _ \<leftarrow> change (om_insert ?q Dir); make_directories ?q cs }) w1)"
      by (simp add: next_call_def files_now_def w1_def out_def Let_def)
    have r1: "om_find (w_files w1) r = Some v" using r by (simp add: w1_def)
    show "om_find (w_files (snd (run_state (make_directories made (c # cs)) w))) r = Some v"
    proof (cases "om_find (w_files w) ?q = Some Dir")
      case True
      have "stays r v (make_directories ?q cs)" by (rule 2(1) [OF refl True])
      then show ?thesis using True r1 unfolding step by (simp add: stays_def)
    next
      case False
      show ?thesis
      proof (cases "om_find (w_files w) ?q \<noteq> None \<or> out_fails out")
        case True
        then show ?thesis using False r1 unfolding step by simp
      next
        case ok: False
        then have "r \<noteq> ?q" using r by auto
        from new [OF ok False this] show ?thesis using False ok r1 unfolding step by (simp add: stays_def)
      qed
    qed
  qed
qed (simp add: stays_simple)

lemma stays_directories [stays_intro]: "stays r v (create_directories p)"
  by (simp add: create_directories_def stays_make_directories)

lemma stays_save_states:
  "plain staging \<Longrightarrow> own_refs es \<Longrightarrow> (\<And>i. i \<in> fst ` set es \<Longrightarrow> r \<noteq> staging @ sidecar i) \<Longrightarrow> stays r v (save_states opts staging es report)"
proof (induction es arbitrary: report)
  case (Cons x es)
  obtain i n where x: "x = (i, n)" by fastforce
  have rest: "stays r v (save_states opts staging es report')" for report'
    by (rule Cons.IH) (use Cons.prems in \<open>auto simp: own_refs_def\<close>)
  have target: "r \<noteq> resolve (staging @ sidecar i)" using Cons.prems(3) [of i] Cons.prems(1) by (simp add: x)
  have ref: "pr_state_ref (inst_plugin n) = '''' \<or> pr_state_ref (inst_plugin n) = state_name i"
    using Cons.prems(2) by (simp add: x own_refs_def)
  show ?case
    unfolding x save_states.simps state_path
    by (intro stays_intro rest target) (use ref in \<open>auto simp: target intro!: stays_intro rest\<close>)
qed (simp add: stays_simple)
subsection \<open>What a finished call has done\<close>

lemma bind_run:
  assumes "run_state (do { a \<leftarrow> m; f a }) w = (b, w')"
  obtains a w1 where "run_state m w = (a, w1)" and "run_state (f a) w1 = (b, w')"
  using assms by (auto split: prod.splits)

lemma write_loop_ok:
  "run_state (write_loop q rs b) w = (True, w') \<Longrightarrow> om_find (w_files w) q = Some (File c s) \<Longrightarrow>
   \<exists>s'. om_find (w_files w') q = Some (File (c @ b) s')"
proof (induction q rs b arbitrary: w c s rule: write_loop.induct)
  case (3 q n rs b bs)
  let ?part = "take (Suc n) (b # bs)"
  obtain w1 where w1: "run_state (change (append_bytes q ?part)) w = ((), w1)" "run_state (write_loop q rs (drop (Suc n) (b # bs))) w1 = (True, w')"
    using 3(2) unfolding write_loop.simps by (elim bind_run) auto
  then have "om_find (w_files w1) q = Some (File (c @ ?part) False)" using 3(3) by (auto simp: change_def append_bytes_def)
  from 3(1) [OF w1(2) this] show ?case by simp
qed (auto simp: change_def append_bytes_def)

lemma file_written:
  assumes "run_state (writeFileSynced p b) w = (None, w')"
  shows "om_find (w_files w') (resolve p) = Some (File b True)"
proof -
  let ?q = "resolve p"
  from assms obtain failed w1 where opened: "run_state (openForWrite p) w = (failed, w1)"
    and rest: "run_state (case failed of
        Some t \<Rightarrow> ret (Some (''could not create '' @ quoted (path_text p) @ '': '' @ t))
      | None \<Rightarrow> do {
          out \<leftarrow> next_call;
          written \<leftarrow> write_loop ?q (out_writes out) b;
          (if \<not> written then ret (Some (''could not write '' @ quoted (path_text p) @ '': '' @ out_text out))
           else do {
             failed \<leftarrow> flushFile ?q;
             ret (map_option (\<lambda>t. ''could not flush '' @ quoted (path_text p) @ '': '' @ t) failed) }) }) w1 = (None, w')"
    unfolding writeFileSynced_def by (rule bind_run)
  have "failed = None" using rest by (cases failed) auto
  note rest = rest [unfolded this option.case]
  have "om_find (w_files w1) ?q = Some (File '''' False)"
    using opened \<open>failed = None\<close> by (auto simp: openForWrite_def next_call_def files_now_def change_def Let_def split: if_splits)
  moreover from rest obtain out w2 where w2: "run_state next_call w1 = (out, w2)"
    and rest2: "run_state (do { written \<leftarrow> write_loop ?q (out_writes out) b;
          (if \<not> written then ret (Some (''could not write '' @ quoted (path_text p) @ '': '' @ out_text out))
           else do {
             failed \<leftarrow> flushFile ?q;
             ret (map_option (\<lambda>t. ''could not flush '' @ quoted (path_text p) @ '': '' @ t) failed) }) }) w2 = (None, w')"
    by (rule bind_run)
  moreover have "w_files w2 = w_files w1" using w2 by (auto simp: next_call_def)
  moreover from rest2 obtain written w3 where w3: "run_state (write_loop ?q (out_writes out) b) w2 = (written, w3)"
    and rest3: "run_state (if \<not> written then ret (Some (''could not write '' @ quoted (path_text p) @ '': '' @ out_text out))
           else do {
             failed \<leftarrow> flushFile ?q;
             ret (map_option (\<lambda>t. ''could not flush '' @ quoted (path_text p) @ '': '' @ t) failed) }) w3 = (None, w')"
    by (rule bind_run)
  moreover have "written" using rest3 by (auto split: if_splits)
  ultimately obtain s where "om_find (w_files w3) ?q = Some (File b s)" using write_loop_ok [of ?q "out_writes out" b w2 w3] by auto
  then show ?thesis using rest3 \<open>written\<close>
    by (auto simp: flushFile_def next_call_def change_def mark_flushed_def split: if_splits)
qed

subsection \<open>The staged bundle\<close>

definition state_record :: "SaveOptions \<Rightarrow> instrument_id \<Rightarrow> StateRecord option" where
  "state_record opts i = (if state_chunk opts i = '''' then None
     else Some \<lparr>sr_state_ref = state_name i, sr_sha256 = sha256Hex (state_chunk opts i)\<rparr>)"

definition state_records :: "SaveOptions \<Rightarrow> Tables \<Rightarrow> (instrument_id, StateRecord) omap" where
  "state_records opts p = om_collect (\<lambda>i n. state_record opts i) (instruments p)"

lemma save_states_step:
  assumes "run_state (save_states opts staging ((i, n) # es) report) w = ((None, report'), w')" and "plain staging"
  obtains w1 where "run_state (save_states opts staging es
      (if state_chunk opts i = '''' then report else record_state i (state_chunk opts i) report)) w1 = ((None, report'), w')"
    and "state_chunk opts i \<noteq> '''' \<Longrightarrow> om_find (w_files w1) (staging @ sidecar i) = Some (File (state_chunk opts i) True)"
proof (cases "state_chunk opts i = ''''")
  case True
  then show thesis using assms(1) that unfolding save_states.simps
    by (auto simp: Let_def split: if_splits option.splits prod.splits)
next
  case False
  from assms(1) False obtain w0 failed w1
    where w1: "run_state (writeFileSynced (staging @ sidecar i) (state_chunk opts i)) w0 = (failed, w1)"
    and rest: "run_state (case failed of
           Some e \<Rightarrow> ret (Some e, report)
         | None \<Rightarrow> save_states opts staging es (record_state i (state_chunk opts i) report)) w1 = ((None, report'), w')"
    unfolding save_states.simps Let_def state_path by (simp only: if_True if_False not_not simp_thms) (elim bind_run, blast)
  have "failed = None" using rest by (cases failed) auto
  moreover have "resolve (staging @ sidecar i) = staging @ sidecar i" using assms(2) by simp
  ultimately have "om_find (w_files w1) (staging @ sidecar i) = Some (File (state_chunk opts i) True)"
    using file_written w1 by metis
  then show thesis using that [of w1] rest \<open>failed = None\<close> False by simp
qed

lemma save_states_recorded:
  "run_state (save_states opts staging es report) w = ((None, report'), w') \<Longrightarrow> plain staging \<Longrightarrow>
   om_find (sv_states report') j = (case om_find (sv_states report) j of
     None \<Rightarrow> if j \<in> fst ` set es then state_record opts j else None | Some r \<Rightarrow> Some r)"
proof (induction es arbitrary: report w)
  case (Cons x es)
  obtain i n where x: "x = (i, n)" by fastforce
  obtain w1 where "run_state (save_states opts staging es
      (if state_chunk opts i = '''' then report else record_state i (state_chunk opts i) report)) w1 = ((None, report'), w')"
    using save_states_step Cons(2,3) unfolding x by metis
  from Cons(1) [OF this Cons(3)] show ?case
    by (auto simp: x state_record_def record_state_def split: option.split)
qed (simp split: option.split)

lemma sidecars_staged:
  "run_state (save_states opts staging es report) w = ((None, report'), w') \<Longrightarrow> plain staging \<Longrightarrow> own_refs es \<Longrightarrow>
   distinct (map fst es) \<Longrightarrow> i \<in> fst ` set es \<Longrightarrow> state_chunk opts i \<noteq> '''' \<Longrightarrow>
   om_find (w_files w') (staging @ sidecar i) = Some (File (state_chunk opts i) True)"
proof (induction es arbitrary: report w)
  case (Cons x es)
  obtain j n where x: "x = (j, n)" by fastforce
  let ?next = "if state_chunk opts j = '''' then report else record_state j (state_chunk opts j) report"
  obtain w1 where run: "run_state (save_states opts staging es ?next) w1 = ((None, report'), w')"
    and written: "state_chunk opts j \<noteq> '''' \<Longrightarrow> om_find (w_files w1) (staging @ sidecar j) = Some (File (state_chunk opts j) True)"
    using save_states_step Cons(2,3) unfolding x by metis
  have own: "own_refs es" and d: "distinct (map fst es)" "j \<notin> fst ` set es" using Cons(4,5) by (simp_all add: x own_refs_def)
  show ?case
  proof (cases "i = j")
    case True
    have "stays (staging @ sidecar i) (File (state_chunk opts i) True) (save_states opts staging es ?next)"
      using True d(2) by (intro stays_save_states [OF Cons(3) own]) auto
    from staysD [OF this run] written show ?thesis using True Cons(7) by simp
  next
    case False
    then show ?thesis using Cons(1) [OF run Cons(3) own d(1)] Cons(6,7) x by simp
  qed
qed simp
text \<open>The bundle with everything in it and on the device.\<close>

definition complete_save :: "files \<Rightarrow> path \<Rightarrow> Tables \<Rightarrow> Residue \<Rightarrow> SaveOptions \<Rightarrow> bool" where
  "complete_save fs bundle p residue opts \<longleftrightarrow>
     om_find fs bundle = Some Dir \<and>
     om_find fs (bundle @ [''project.json'']) =
       Some (File (writeProjectJson p residue (so_created_with opts) (state_records opts p)) True) \<and>
     (\<forall>i \<in> set (om_keys (instruments p)). state_chunk opts i \<noteq> '''' \<longrightarrow>
        om_find fs (bundle @ sidecar i) = Some (File (state_chunk opts i) True))"

lemma document_staged:
  assumes "run_state (stage_document staging p residue opts report) w = ((None, report'), w')" and "plain staging"
  shows "om_find (w_files w') (staging @ [''project.json'']) =
      Some (File (writeProjectJson p residue (so_created_with opts) (sv_states report)) True)"
    and "sv_states report' = sv_states report"
    and "\<And>r v. r \<noteq> staging @ [''project.json''] \<Longrightarrow> om_find (w_files w) r = Some v \<Longrightarrow> om_find (w_files w') r = Some v"
proof -
  let ?text = "writeProjectJson p residue (so_created_with opts) (sv_states report)"
  let ?doc = "staging @ [''project.json'']"
  have some: "?text \<noteq> ''''" using assms(1) by (auto simp: stage_document_def Let_def)
  from assms(1) obtain failed w1 where w1: "run_state (writeFileSynced ?doc ?text) w = (failed, w1)"
    and rest: "run_state (case failed of Some e \<Rightarrow> ret (Some e, report)
         | None \<Rightarrow> do { _ \<leftarrow> syncDirectory staging; ret (None, report\<lparr>sv_bytes := sv_bytes report + length ?text\<rparr>) }) w1 = ((None, report'), w')"
    unfolding stage_document_def Let_def by (simp only: some if_False) (elim bind_run, blast)
  have "failed = None" using rest by (cases failed) auto
  then have rest: "w_files w' = w_files w1" "sv_states report' = sv_states report"
    using rest by (auto simp: syncDirectory_def next_call_def)
  show "sv_states report' = sv_states report" by (rule rest)
  have "om_find (w_files w1) (resolve ?doc) = Some (File ?text True)" using file_written w1 \<open>failed = None\<close> by metis
  then show "om_find (w_files w') ?doc = Some (File ?text True)" using assms(2) rest by simp
  show "om_find (w_files w') r = Some v" if "r \<noteq> ?doc" "om_find (w_files w) r = Some v" for r v
    using staysD [OF stays_written w1 that(2)] that(1) assms(2) rest by simp
qed

lemma states_recorded:
  assumes "run_state (save_states opts staging (om_entries (instruments p)) new_report) w = ((None, report), w')" and "plain staging"
  shows "sv_states report = state_records opts p"
proof (rule om_eqI)
  fix j
  have "j \<in> fst ` set (om_entries (instruments p)) \<longleftrightarrow> om_find (instruments p) j \<noteq> None"
    using om_keys_set [of j "instruments p"] by (simp add: om_keys_def)
  then show "om_find (sv_states report) j = om_find (state_records opts p) j"
    using save_states_recorded [OF assms, of j]
    by (auto simp: new_report_def state_records_def split: option.split)
qed

lemma bundle_staged:
  assumes "run_state (stage_bundle staging p residue opts) w = ((None, report), w')"
    and "plain staging" and "own_refs (om_entries (instruments p))" and "om_find (w_files w) staging = Some Dir"
  shows "complete_save (w_files w') staging p residue opts" and "sv_states report = state_records opts p"
proof -
  let ?es = "om_entries (instruments p)"
  from assms(1) obtain failed report1 w1 where states: "run_state (save_states opts staging ?es new_report) w = ((failed, report1), w1)"
    and rest: "run_state (if failed \<noteq> None then ret (failed, report1) else stage_document staging p residue opts report1) w1 = ((None, report), w')"
    unfolding stage_bundle_def by (elim bind_run) (auto split: prod.splits)
  have none: "failed = None" using rest by (auto split: if_splits)
  note states = states [unfolded this] and document = document_staged [OF _ assms(2), of p residue opts report1 w1 report w']
  have run: "run_state (stage_document staging p residue opts report1) w1 = ((None, report), w')" using rest none by simp
  note records = states_recorded [OF states assms(2)]
  show "sv_states report = state_records opts p" using document(2) [OF run] records by simp
  have "stays staging Dir (save_states opts staging ?es new_report)"
    by (rule stays_save_states [OF assms(2,3)]) (simp add: sidecar_def)
  from staysD [OF this states assms(4)] have "om_find (w_files w') staging = Some Dir"
    using document(3) [OF run] by simp
  moreover have "om_find (w_files w') (staging @ sidecar i) = Some (File (state_chunk opts i) True)"
    if "i \<in> set (om_keys (instruments p))" "state_chunk opts i \<noteq> ''''" for i
  proof -
    have "i \<in> fst ` set ?es" using that(1) by (simp add: om_keys_def)
    from sidecars_staged [OF states assms(2,3) om_entries_distinct this that(2)] show ?thesis
      using document(3) [OF run] by (simp add: sidecar_def)
  qed
  ultimately show "complete_save (w_files w') staging p residue opts"
    using document(1) [OF run] records by (simp add: complete_save_def)
qed

subsection \<open>The swap\<close>

lemma om_find_rekey:
  assumes "\<And>r. h (h r) = r"
  shows "om_find (rekey h fs) r = om_find fs (h r)"
proof -
  have "om_find (fold (\<lambda>(r, n). om_insert (h r) n) es m) r = (case map_of es (h r) of None \<Rightarrow> om_find m r | Some n \<Rightarrow> Some n)"
    if "distinct (map fst es)" for es m
    using that
  proof (induction es arbitrary: m)
    case (Cons x es)
    obtain q n where x: "x = (q, n)" by fastforce
    have "map_of es q = None" using Cons(2) x by (simp add: map_of_eq_None_iff)
    moreover have "r = h q \<longleftrightarrow> h r = q" using assms by metis
    ultimately show ?case using Cons by (auto simp: x split: option.splits)
  qed simp
  from this [OF om_entries_distinct, of fs om_empty] show ?thesis by (simp add: rekey_def split: option.splits)
qed

lemma swap_key_twice:
  assumes "\<not> under p q" and "\<not> under q p"
  shows "swap_key p q (swap_key p q r) = r"
proof -
  have apart: "\<not> under p (q @ s)" for s
    using assms by (auto simp: under_append append_eq_append_conv2)
  show ?thesis using apart unfolding swap_key_def by (auto simp: under_append)
qed

text \<open>The entries below one path are now below another.\<close>

definition moved :: "path \<Rightarrow> path \<Rightarrow> files \<Rightarrow> files \<Rightarrow> bool" where
  "moved p q fs fs' \<longleftrightarrow> (\<forall>s. om_find fs' (q @ s) = om_find fs (p @ s))"

lemma moved_rekey:
  assumes "\<not> under p q" and "\<not> under q p"
  shows "moved p q fs (rekey (swap_key p q) fs)"
proof -
  have "\<not> under p (q @ s)" for s using assms by (auto simp: under_append append_eq_append_conv2)
  then show ?thesis by (simp add: moved_def om_find_rekey [OF swap_key_twice [OF assms]] swap_key_def)
qed

lemma moved_without: "\<not> under q p \<Longrightarrow> \<not> under p q \<Longrightarrow> moved p q (without q fs) fs' \<Longrightarrow> moved p q fs fs'"
  by (auto simp: moved_def without_def under_append append_eq_append_conv2 split: option.split)

lemma complete_moved: "moved p q fs fs' \<Longrightarrow> complete_save fs p pr residue opts \<Longrightarrow> complete_save fs' q pr residue opts"
  unfolding moved_def complete_save_def by (metis append_Nil2)
text \<open>A stretch of a run in which every tree satisfies \<open>Q\<close>.\<close>

definition through :: "(files \<Rightarrow> bool) \<Rightarrow> World \<Rightarrow> World \<Rightarrow> bool" where
  "through Q w w' \<longleftrightarrow> (\<exists>new. trace w' = new @ trace w \<and> (\<forall>fs \<in> set new. Q fs))"

lemma through_same: "trace w' = trace w \<Longrightarrow> through Q w w'"
  by (simp add: through_def)

lemma through_trans:
  assumes "through Q w w'" and "through Q w' w''"
  shows "through Q w w''"
proof -
  obtain n1 n2 where "trace w' = n1 @ trace w" "\<forall>fs \<in> set n1. Q fs" "trace w'' = n2 @ trace w'" "\<forall>fs \<in> set n2. Q fs"
    using assms unfolding through_def by blast
  then have "trace w'' = (n2 @ n1) @ trace w" "\<forall>fs \<in> set (n2 @ n1). Q fs" by auto
  then show ?thesis unfolding through_def by blast
qed

lemma through_mono: "through Q w w' \<Longrightarrow> (\<And>fs. Q fs \<Longrightarrow> Q' fs) \<Longrightarrow> through Q' w w'"
  unfolding through_def by blast

lemma through_keeps: "keeps P m \<Longrightarrow> run_state m w = (a, w') \<Longrightarrow> through (same_on P (w_files w)) w w' \<and> same_on P (w_files w) (w_files w')"
  by (drule (1) keepsD) (auto simp: through_def)

lemma through_moved:
  assumes "through (same_on (under q) fs1) w w'" and "moved p q fs fs1"
  shows "through (moved p q fs) w w'"
proof (rule through_mono [OF assms(1)])
  show "moved p q fs fs'" if "same_on (under q) fs1 fs'" for fs'
    using assms(2) that by (simp add: moved_def same_on_def)
qed

lemma rename_swap_moves:
  assumes "run_state (rename_swap p q) w = (failed, w')" and "plain p" and "plain q"
  shows "if failed = None then trace w' = w_files w' # trace w \<and> moved p q (w_files w) (w_files w') else trace w' = trace w"
  using assms
  by (auto simp: rename_swap_def next_call_def files_now_def change_def trace_def Let_def moved_rekey split: if_splits)

lemma rename_to_moves:
  assumes "run_state (rename_to p q) w = (failed, w')" and "plain p" and "plain q"
  shows "if failed = None then trace w' = w_files w' # trace w \<and> moved p q (w_files w) (w_files w') else trace w' = trace w"
  using assms
  by (auto simp: rename_to_def next_call_def files_now_def change_def trace_def Let_def moved_rekey
      intro: moved_without split: if_splits)

lemma staging_apart:
  assumes "bundle \<noteq> []"
  shows "under (staging_path pid bundle) r \<Longrightarrow> \<not> under bundle r" "under bundle r \<Longrightarrow> \<not> under (staging_path pid bundle) r"
    "\<not> under bundle (staging_path pid bundle)"
proof -
  have ne: "last bundle \<noteq> CHR ''.'' # last bundle @ ''.saving-'' @ pid"
    by (metis append_Cons append_self_conv list.distinct(1) length_append length_Cons le_add1 not_less_eq_eq)
  have b: "bundle = butlast bundle @ [last bundle]" using assms by simp
  show "\<not> under bundle r" if "under (staging_path pid bundle) r"
    using siblings_apart(2) [OF ne [symmetric]] that b unfolding staging_path_def by metis
  show "\<not> under (staging_path pid bundle) r" if "under bundle r"
    using siblings_apart(2) [OF ne] that b unfolding staging_path_def by metis
  show "\<not> under bundle (staging_path pid bundle)"
    using siblings_apart(1) [OF ne] b unfolding staging_path_def by metis
qed

lemma staging_plain: "plain bundle \<Longrightarrow> plain (staging_path pid bundle)"
  by (auto simp: staging_path_def plain_def dest: in_set_butlastD)

lemma swap_in_moves:
  assumes "run_state (swap_in Posix pid bundle) w = (failed, w')" and "plain bundle" and "bundle \<noteq> []"
  shows "if failed = None then through (moved (staging_path pid bundle) bundle (w_files w)) w w' \<and>
       moved (staging_path pid bundle) bundle (w_files w) (w_files w')
     else trace w' = trace w"
proof -
  let ?staging = "staging_path pid bundle"
  have staging: "plain ?staging" by (rule staging_plain [OF assms(2)])
  from assms(1) obtain there w1 where w1: "run_state (file_exists bundle) w = (there, w1)"
    and rest: "run_state (if there then replace_bundle Posix pid bundle else create_bundle pid bundle) w1 = (failed, w')"
    unfolding swap_in_def by (rule bind_run)
  have t1: "trace w1 = trace w" "w_files w1 = w_files w" using w1 by (auto simp: file_exists_def next_call_def files_now_def trace_def)
  show ?thesis
  proof (cases there)
    case False
    then obtain f where "run_state (rename_to ?staging bundle) w1 = (f, w')" and "failed = map_option (\<lambda>t. ''Could not create '' @ quoted (last bundle) @ ''.'') f"
      using rest unfolding create_bundle_def by (auto split: prod.splits)
    with rename_to_moves [OF this(1) staging assms(2)] show ?thesis
      by (auto simp: t1 through_def split: if_splits)
  next
    case True
    then have run: "run_state (do {
         failed \<leftarrow> rename_swap ?staging bundle;
         (case failed of
            Some t \<Rightarrow> ret (Some ((''Could not replace '' @ quoted (last bundle)) @ '': '' @ t))
          | None \<Rightarrow> do { _ \<leftarrow> remove_all ?staging; ret None }) }) w1 = (failed, w')"
      using rest unfolding replace_bundle_def Let_def by (simp only: if_True platform.case)
    obtain f w2 where w2: "run_state (rename_swap ?staging bundle) w1 = (f, w2)"
      and rest2: "run_state (case f of
            Some t \<Rightarrow> ret (Some ((''Could not replace '' @ quoted (last bundle)) @ '': '' @ t))
          | None \<Rightarrow> do { _ \<leftarrow> remove_all ?staging; ret None }) w2 = (failed, w')"
      using run by (rule bind_run)
    note swapped = rename_swap_moves [OF w2 staging assms(2)]
    show ?thesis
    proof (cases f)
      case (Some t)
      then show ?thesis using rest2 swapped t1 by auto
    next
      case None
      then obtain b where removed: "run_state (remove_all ?staging) w2 = (b, w')" and failed: "failed = None"
        using rest2 by (auto split: prod.splits)
      have "keeps (under bundle) (remove_all ?staging)"
        by (rule keeps_remove_all) (use staging staging_apart(1) [OF assms(3)] in auto)
      note kept = through_keeps [OF this removed]
      have m: "moved ?staging bundle (w_files w) (w_files w2)" using swapped None t1 by simp
      have "through (moved ?staging bundle (w_files w)) w1 w2" using swapped None m by (auto simp: through_def)
      then have "through (moved ?staging bundle (w_files w)) w w2" using t1 by (simp add: through_def)
      moreover have "through (moved ?staging bundle (w_files w)) w2 w'" by (rule through_moved [OF conjunct1 [OF kept] m])
      moreover have "moved ?staging bundle (w_files w) (w_files w')"
        using m conjunct2 [OF kept] by (simp add: moved_def same_on_def)
      ultimately show ?thesis using failed through_trans by auto
    qed
  qed
qed
subsection \<open>The whole save\<close>

text \<open>The parent of the bundle, and an empty folder beside it.\<close>

lemma prepared:
  assumes "run_state (create_directories (butlast bundle)) w = (u, w1)"
    and "run_state (remove_all (staging_path pid bundle)) w1 = (b, w2)"
    and "run_state (create_directory (staging_path pid bundle)) w2 = (made, w3)"
    and "plain bundle" and "bundle \<noteq> []"
  shows "through (same_on (under bundle) (w_files w)) w w3" and "same_on (under bundle) (w_files w) (w_files w3)"
    and "made \<Longrightarrow> om_find (w_files w3) (staging_path pid bundle) = Some Dir"
proof -
  let ?staging = "staging_path pid bundle"
  have staging: "plain ?staging" by (rule staging_plain [OF assms(4)])
  have parent: "plain (butlast bundle)" using assms(4) by (auto simp: plain_def dest: in_set_butlastD)
  have "\<not> under bundle q" if "under q (butlast bundle)" for q
  proof
    assume "under bundle q"
    then have "length bundle \<le> length q" by (rule under_length)
    moreover have "length q \<le> length (butlast bundle)" using that by (rule under_length)
    moreover have "length (butlast bundle) < length bundle" using assms(5) by simp
    ultimately show False by linarith
  qed
  then have k1: "keeps (under bundle) (create_directories (butlast bundle))"
    by (intro keeps_create_directories) (simp add: parent)
  have k2: "keeps (under bundle) (remove_all ?staging)"
    by (rule keeps_remove_all) (use staging staging_apart(1) [OF assms(5)] in auto)
  have k3: "keeps (under bundle) (create_directory ?staging)"
    by (rule keeps_create_directory) (use staging staging_apart(3) [OF assms(5)] in auto)
  note t1 = through_keeps [OF k1 assms(1)] and t2 = through_keeps [OF k2 assms(2)] and t3 = through_keeps [OF k3 assms(3)]
  have s2: "same_on (under bundle) (w_files w) (w_files w2)" using t1 t2 same_on_trans by blast
  show "same_on (under bundle) (w_files w) (w_files w3)" using s2 t3 same_on_trans by blast
  have "through (same_on (under bundle) (w_files w)) w w1" using t1 by blast
  moreover have "through (same_on (under bundle) (w_files w)) w1 w2"
    using t1 t2 by (blast intro: through_mono same_on_trans)
  moreover have "through (same_on (under bundle) (w_files w)) w2 w3"
    using s2 t3 by (blast intro: through_mono same_on_trans)
  ultimately show "through (same_on (under bundle) (w_files w)) w w3" using through_trans by blast
  show "om_find (w_files w3) ?staging = Some Dir" if made
    using assms(3) that staging
    by (auto simp: create_directory_def next_call_def files_now_def change_def Let_def split: if_splits)
qed

definition old_or_new :: "files \<Rightarrow> path \<Rightarrow> Tables \<Rightarrow> Residue \<Rightarrow> SaveOptions \<Rightarrow> files \<Rightarrow> bool" where
  "old_or_new fs0 bundle p residue opts fs \<longleftrightarrow>
     (\<forall>s. om_find fs (bundle @ s) = om_find fs0 (bundle @ s)) \<or> complete_save fs bundle p residue opts"

lemma old_or_new_same: "same_on (under bundle) fs0 fs \<Longrightarrow> old_or_new fs0 bundle p residue opts fs"
  by (simp add: old_or_new_def same_on_def)

lemma old_or_new_moved:
  "complete_save fs1 staging p residue opts \<Longrightarrow> moved staging bundle fs1 fs \<Longrightarrow> old_or_new fs0 bundle p residue opts fs"
  using complete_moved unfolding old_or_new_def by blast

lemma abandoned:
  assumes "run_state (abandon (staging_path pid bundle) report e) w = (report', w')" and "plain bundle" and "bundle \<noteq> []"
  shows "through (same_on (under bundle) (w_files w)) w w'" and "same_on (under bundle) (w_files w) (w_files w')" and "\<not> sv_ok report'"
proof -
  obtain b w1 where removed: "run_state (remove_all (staging_path pid bundle)) w = (b, w1)"
    and rest: "w1 = w'" "report' = report\<lparr>sv_error := e, sv_ok := False\<rparr>"
    using assms(1) unfolding abandon_def by (elim bind_run) auto
  have "keeps (under bundle) (remove_all (staging_path pid bundle))"
    by (rule keeps_remove_all) (use staging_plain [OF assms(2)] staging_apart(1) [OF assms(3)] in auto)
  from through_keeps [OF this removed] show "through (same_on (under bundle) (w_files w)) w w'"
    "same_on (under bundle) (w_files w) (w_files w')" by (simp_all add: rest)
  show "\<not> sv_ok report'" by (simp add: rest)
qed
lemma beside_staging:
  assumes "bundle \<noteq> []" and "under q (staging_path pid bundle) \<or> under (staging_path pid bundle) q"
  shows "\<not> under bundle q"
  using assms(2)
proof
  assume q: "under q (staging_path pid bundle)"
  show ?thesis
  proof
    assume "under bundle q"
    then have "under bundle (staging_path pid bundle)" using q by (auto simp: under_append)
    then show False using staging_apart(3) [OF assms(1)] by blast
  qed
qed (rule staging_apart(1) [OF assms(1)])

text \<open>The three ways a save goes once its folder is there.\<close>

lemma save_steps:
  assumes "run_state (saveProject pf pid bundle p residue opts) w = (report, w')"
  obtains u w1 b w2 made w3 where "run_state (create_directories (butlast bundle)) w = (u, w1)"
    and "run_state (remove_all (staging_path pid bundle)) w1 = (b, w2)"
    and "run_state (create_directory (staging_path pid bundle)) w2 = (made, w3)"
    and "\<not> made \<longrightarrow> \<not> sv_ok report \<and> w' = w3"
    and "made \<longrightarrow> run_state (finish_save pf pid bundle p residue opts) w3 = (report, w')"
proof -
  from assms show thesis unfolding saveProject_def Let_def
  proof (elim bind_run)
    fix u w1 b w2 made w3
    assume steps: "run_state (create_directories (butlast bundle)) w = (u, w1)"
      "run_state (remove_all (staging_path pid bundle)) w1 = (b, w2)" "run_state (create_directory (staging_path pid bundle)) w2 = (made, w3)"
      and rest: "run_state (if \<not> made then
        ret (new_report\<lparr>sv_error := ''Could not prepare a temporary folder next to '' @ quoted (path_text bundle) @ ''.''\<rparr>)
      else finish_save pf pid bundle p residue opts) w3 = (report, w')"
    show thesis
    proof (rule that [OF steps])
      show "\<not> made \<longrightarrow> \<not> sv_ok report \<and> w' = w3" using rest by (auto simp: new_report_def)
    qed (use rest in \<open>auto split: if_splits\<close>)
  qed
qed

lemma staged_steps:
  assumes "run_state (finish_save pf pid bundle p residue opts) w = (report, w')"
  obtains (unstaged) e report1 w1 where "run_state (stage_bundle (staging_path pid bundle) p residue opts) w = ((Some e, report1), w1)"
      and "run_state (abandon (staging_path pid bundle) report1 e) w1 = (report, w')"
    | (unswapped) report1 w1 e w2 where "run_state (stage_bundle (staging_path pid bundle) p residue opts) w = ((None, report1), w1)"
      and "run_state (swap_in pf pid bundle) w1 = (Some e, w2)" and "run_state (abandon (staging_path pid bundle) report1 e) w2 = (report, w')"
    | (swapped) report1 w1 w2 where "run_state (stage_bundle (staging_path pid bundle) p residue opts) w = ((None, report1), w1)"
      and "run_state (swap_in pf pid bundle) w1 = (None, w2)" and "trace w' = trace w2" and "report = report1\<lparr>sv_ok := True\<rparr>"
proof -
  let ?staging = "staging_path pid bundle"
  from assms obtain failed report1 w1 where staged: "run_state (stage_bundle ?staging p residue opts) w = ((failed, report1), w1)"
    and rest: "run_state (case failed of
           Some e \<Rightarrow> abandon ?staging report1 e
         | None \<Rightarrow> do {
             failed \<leftarrow> swap_in pf pid bundle;
             (case failed of
                Some e \<Rightarrow> abandon ?staging report1 e
              | None \<Rightarrow> do {
                  _ \<leftarrow> syncDirectory (butlast bundle);
                  ret (report1\<lparr>sv_ok := True\<rparr>) }) }) w1 = (report, w')"
    unfolding finish_save_def Let_def by (elim bind_run, auto)
  show thesis
  proof (cases failed)
    case (Some e)
    then show ?thesis using unstaged staged rest by simp
  next
    case None
    from rest [unfolded this option.case] obtain f w2 where swap: "run_state (swap_in pf pid bundle) w1 = (f, w2)"
      and last: "run_state (case f of
                Some e \<Rightarrow> abandon ?staging report1 e
              | None \<Rightarrow> do {
                  _ \<leftarrow> syncDirectory (butlast bundle);
                  ret (report1\<lparr>sv_ok := True\<rparr>) }) w2 = (report, w')"
      by (rule bind_run)
    show ?thesis
    proof (cases f)
      case (Some e)
      then show ?thesis using unswapped staged None swap last by simp
    next
      case f: None
      then have "trace w' = trace w2" "report = report1\<lparr>sv_ok := True\<rparr>"
        using last by (auto simp: syncDirectory_def next_call_def trace_def)
      then show ?thesis using swapped staged None swap f by simp
    qed
  qed
qed

text \<open>Giving up leaves the old bundle.\<close>

lemma given_up:
  assumes "run_state (abandon (staging_path pid bundle) report1 e) w1 = (report, w')" and place: "plain bundle" "bundle \<noteq> []"
    and "trace w1 = trace w4" and "same_on (under bundle) fs0 (w_files w4)"
  shows "through (old_or_new fs0 bundle p residue opts) w4 w'" and "same_on (under bundle) fs0 (w_files w')" and "\<not> sv_ok report"
proof -
  note a = abandoned [OF assms(1) place]
  have same: "same_on (under bundle) fs0 (w_files w1)" using assms(4,5) by (simp add: trace_def)
  show "same_on (under bundle) fs0 (w_files w')" using same a(2) same_on_trans by blast
  have "through (old_or_new fs0 bundle p residue opts) w1 w'"
    using a(1) by (rule through_mono) (use same in \<open>auto intro: old_or_new_same same_on_trans\<close>)
  then show "through (old_or_new fs0 bundle p residue opts) w4 w'" using assms(4) by (simp add: through_def)
  show "\<not> sv_ok report" by (rule a(3))
qed

lemma save_safe:
  assumes run: "run_state (saveProject Posix pid bundle p residue opts) w = (report, w')"
    and place: "plain bundle" "bundle \<noteq> []" and own: "own_refs (om_entries (instruments p))"
  shows "through (old_or_new (w_files w) bundle p residue opts) w w' \<and>
    (if sv_ok report then complete_save (w_files w') bundle p residue opts \<and> sv_states report = state_records opts p
      else same_on (under bundle) (w_files w) (w_files w'))" (is ?done)
  using run
proof (rule save_steps)
  let ?staging = "staging_path pid bundle"
  let ?Q = "old_or_new (w_files w) bundle p residue opts"
  fix u w1 b w2 made w3
  assume steps: "run_state (create_directories (butlast bundle)) w = (u, w1)"
    "run_state (remove_all ?staging) w1 = (b, w2)" "run_state (create_directory ?staging) w2 = (made, w3)"
    and unmade: "\<not> made \<longrightarrow> \<not> sv_ok report \<and> w' = w3"
    and rest: "made \<longrightarrow> run_state (finish_save Posix pid bundle p residue opts) w3 = (report, w')"
  note prep = prepared [OF steps place]
  have staging: "plain ?staging" by (rule staging_plain [OF place(1)])
  have q3: "through ?Q w w3" using prep(1) by (rule through_mono) (rule old_or_new_same)
  show ?done
  proof (cases made)
    case False
    then show ?thesis using unmade q3 prep(2) by auto
  next
    case True
    have keep: "keeps (under bundle) (stage_bundle ?staging p residue opts)"
      by (rule keeps_stage_bundle [OF staging own]) (use beside_staging [OF place(2)] in blast)
    have same4: "same_on (under bundle) (w_files w) (w_files w4)" and q4: "through ?Q w w4"
      if "run_state (stage_bundle ?staging p residue opts) w3 = (r, w4)" for r w4
      using through_keeps [OF keep that] prep(2) q3
      by (blast intro: same_on_trans, blast intro: through_trans through_mono same_on_trans old_or_new_same)
    from rest True have "run_state (finish_save Posix pid bundle p residue opts) w3 = (report, w')" by simp
    then show ?thesis
    proof (cases rule: staged_steps)
      case (unstaged e report1 w4)
      then show ?thesis using given_up [OF unstaged(2) place refl same4 [OF unstaged(1)]] q4 through_trans by auto
    next
      case (unswapped report1 w4 e w5)
      have "trace w5 = trace w4" using swap_in_moves [OF unswapped(2) place] by simp
      from given_up [OF unswapped(3) place this same4 [OF unswapped(1)]] show ?thesis
        using q4 [OF unswapped(1)] through_trans by auto
    next
      case (swapped report1 w4 w5)
      note full = bundle_staged [OF swapped(1) staging own prep(3) [OF True]] and moves = swap_in_moves [OF swapped(2) place]
      have files: "w_files w' = w_files w5" using swapped(3) by (simp add: trace_def)
      have "complete_save (w_files w') bundle p residue opts" using moves complete_moved full(1) files by auto
      moreover have "through ?Q w4 w5" using moves full(1) by (auto elim!: through_mono intro: old_or_new_moved)
      ultimately show ?thesis using q4 [OF swapped(1)] swapped(3,4) full(2) through_trans by (auto simp: through_def)
    qed
  qed
qed

text \<open>
  On Windows the bundle is replaced by two renames, and between them there is none: a crash there leaves
  the project under its backup name only.
\<close>

lemma rename_to_removes:
  assumes "run_state (rename_to p q) w = (None, w')" and "plain p" and "plain q"
  shows "om_find (w_files w') p = None"
  using assms swap_key_twice [of p q]
  by (auto simp: rename_to_def next_call_def files_now_def change_def Let_def om_find_rekey swap_key_def without_def
      split: if_splits option.split)

lemma keeps_rename_to: "keeps (\<lambda>r. False) (rename_to p q)"
  unfolding rename_to_def by (intro keeps_intro keeps_change) (simp add: same_on_def)

lemma windows_gap:
  assumes "run_state (replace_bundle Windows pid bundle) w = (None, w')" and "plain bundle"
  shows "\<exists>fs \<in> set (trace w'). om_find fs bundle = None"
proof -
  let ?backup = "backup_path pid bundle"
  have backup: "plain ?backup" using assms(2) by (auto simp: backup_path_def plain_def dest: in_set_butlastD)
  let ?complaint = "''Could not replace '' @ quoted (last bundle)"
  let ?second = "do {
      failed \<leftarrow> rename_to (staging_path pid bundle) bundle;
      (case failed of
         Some t \<Rightarrow> do { _ \<leftarrow> rename_to ?backup bundle; ret (Some (?complaint @ ''.'')) }
       | None \<Rightarrow> do { _ \<leftarrow> remove_all ?backup; ret None }) }"
  from assms(1) obtain u w1 failed w2 where first: "run_state (rename_to bundle ?backup) w1 = (failed, w2)"
    and rest: "run_state (case failed of Some t \<Rightarrow> ret (Some (?complaint @ ''.'')) | None \<Rightarrow> ?second) w2 = (None, w')"
    unfolding replace_bundle_def Let_def platform.case by (elim bind_run) blast
  have none: "failed = None" using rest by (cases failed) auto
  have gone: "om_find (w_files w2) bundle = None" using rename_to_removes [OF first [unfolded none] assms(2) backup] .
  have "keeps (\<lambda>r. False) ?second" by (intro keeps_intro keeps_rename_to) simp
  from keepsD [OF this rest [unfolded none option.case]] obtain new where "trace w' = new @ trace w2" by blast
  then have "w_files w2 \<in> set (trace w')" by (simp add: trace_def)
  then show ?thesis using gone by blast
qed

definition quiet :: outcome where
  "quiet = \<lparr>out_fails = False, out_text = '''', out_removed = (\<lambda>r. True), out_copied = 0, out_writes = []\<rparr>"

definition empty_disk :: World where
  "empty_disk = \<lparr>w_files = om_empty, w_seen = [], w_fate = (\<lambda>k. quiet), w_calls = 0\<rparr>"

definition sample_options :: SaveOptions where
  "sample_options = \<lparr>so_created_with = ''OneBeat'', so_state_provider = Some (\<lambda>i. ''chunk''), so_copy_from = None\<rparr>"

definition no_residue :: Residue where
  "no_residue = \<lparr>res_document = JNull, res_note_properties = om_empty\<rparr>"

lemma sample_refs: "own_refs (om_entries (instruments (copyTables sample_project)))"
  by code_simp

text \<open>
  Claim C2.  A save on a POSIX system never leaves the bundle in between: whatever calls fail, in every
  tree the file system goes through - so in what a crash at any moment leaves - the bundle is as it was or
  is the complete new one, with the document and every state the plug-ins gave written and flushed; at the
  end it is the new one when the save reports success, with the digests of the states it holds, and
  untouched when it reports failure.
\<close>

theorem save_is_atomic:
  assumes "run_state (saveProject Posix pid bundle p residue opts) w = (report, w')"
    and "plain bundle" and "bundle \<noteq> []" and "own_refs (om_entries (instruments p))"
  shows "(\<exists>new. w_files w' # w_seen w' = new @ w_files w # w_seen w \<and>
       (\<forall>fs \<in> set new. (\<forall>s. om_find fs (bundle @ s) = om_find (w_files w) (bundle @ s)) \<or> complete_save fs bundle p residue opts)) \<and>
     (if sv_ok report then complete_save (w_files w') bundle p residue opts \<and> sv_states report = state_records opts p
      else \<forall>s. om_find (w_files w') (bundle @ s) = om_find (w_files w) (bundle @ s))"
  using save_safe [OF assms] unfolding through_def trace_def old_or_new_def same_on_def
  by (auto simp: under_append split: if_splits)

lemma save_is_atomic_witness:
  "\<exists>report w'. run_state (saveProject Posix ''7'' [''song''] (copyTables sample_project) no_residue sample_options) empty_disk = (report, w') \<and>
     (\<exists>new. w_files w' # w_seen w' = new @ w_files empty_disk # w_seen empty_disk \<and>
       (\<forall>fs \<in> set new. (\<forall>s. om_find fs ([''song''] @ s) = om_find (w_files empty_disk) ([''song''] @ s)) \<or>
         complete_save fs [''song''] (copyTables sample_project) no_residue sample_options)) \<and>
     (if sv_ok report then complete_save (w_files w') [''song''] (copyTables sample_project) no_residue sample_options \<and>
         sv_states report = state_records sample_options (copyTables sample_project)
      else \<forall>s. om_find (w_files w') ([''song''] @ s) = om_find (w_files empty_disk) ([''song''] @ s))"
proof -
  obtain report w'
    where run: "run_state (saveProject Posix ''7'' [''song''] (copyTables sample_project) no_residue sample_options) empty_disk = (report, w')"
    by fastforce
  have place: "plain [''song'']" "[''song''] \<noteq> []" by simp_all
  show ?thesis by (rule exI, rule exI, rule conjI [OF run save_is_atomic [OF run place sample_refs]])
qed

end
