(* ===== verification/Save_Success.thy ===== *)
theory Save_Success
  imports Save_Safety
begin

text \<open>
  When no call fails a save succeeds, and what was saved is what a load gives back: the document and the
  states of the plug-ins together.
\<close>

subsection \<open>No call fails\<close>

definition calm :: "World \<Rightarrow> bool" where
  "calm w \<longleftrightarrow> (\<forall>k. \<not> out_fails (w_fate w k) \<and> WriteFailed \<notin> set (out_writes (w_fate w k)))"

lemma calm_update [simp]:
  "calm (w\<lparr>w_calls := n\<rparr>) = calm w" "calm (w\<lparr>w_files := fs\<rparr>) = calm w" "calm (w\<lparr>w_seen := fss\<rparr>) = calm w"
  "calm (w\<lparr>w_files := fs, w_seen := fss\<rparr>) = calm w"
  by (simp_all add: calm_def)

lemma calm_fate: "calm w \<Longrightarrow> \<not> out_fails (w_fate w k)" "calm w \<Longrightarrow> WriteFailed \<notin> set (out_writes (w_fate w k))"
  by (simp_all add: calm_def)

lemmas call_defs = next_call_def files_now_def change_def Let_def

lemma make_directories_step:
  assumes "run_state (make_directories made (c # cs)) w = (u, w')" and "calm w"
    and "om_find (w_files w) (made @ [c]) = None \<or> om_find (w_files w) (made @ [c]) = Some Dir"
  obtains w1 where "run_state (make_directories (made @ [c]) cs) w1 = (u, w')" and "calm w1"
    and "om_find (w_files w1) (made @ [c]) = Some Dir" and "\<And>r. r \<noteq> made @ [c] \<Longrightarrow> om_find (w_files w1) r = om_find (w_files w) r"
  using assms by (cases "om_find (w_files w) (made @ [c]) = Some Dir") (auto simp: call_defs calm_fate)

lemma make_directories_calm:
  "run_state (make_directories made cs) w = (u, w') \<Longrightarrow> calm w \<Longrightarrow>
   (\<And>q. q \<noteq> [] \<Longrightarrow> under q cs \<Longrightarrow> om_find (w_files w) (made @ q) = None \<or> om_find (w_files w) (made @ q) = Some Dir) \<Longrightarrow>
   calm w' \<and> (\<forall>q. q \<noteq> [] \<longrightarrow> under q cs \<longrightarrow> om_find (w_files w') (made @ q) = Some Dir)"
proof (induction cs arbitrary: made w)
  case (Cons c cs)
  have "om_find (w_files w) (made @ [c]) = None \<or> om_find (w_files w) (made @ [c]) = Some Dir"
    by (rule Cons(4)) (simp_all add: under_def)
  from make_directories_step [OF Cons(2,3) this] obtain w1 where w1: "run_state (make_directories (made @ [c]) cs) w1 = (u, w')" "calm w1"
      "om_find (w_files w1) (made @ [c]) = Some Dir" "\<And>r. r \<noteq> made @ [c] \<Longrightarrow> om_find (w_files w1) r = om_find (w_files w) r"
    by metis
  have free: "om_find (w_files w1) ((made @ [c]) @ q) = None \<or> om_find (w_files w1) ((made @ [c]) @ q) = Some Dir"
    if "q \<noteq> []" "under q cs" for q
    using Cons(4) [of "c # q"] w1(4) [of "made @ c # q"] that by (simp add: under_def)
  have below: "calm w' \<and> (\<forall>q. q \<noteq> [] \<longrightarrow> under q cs \<longrightarrow> om_find (w_files w') ((made @ [c]) @ q) = Some Dir)"
    by (rule Cons(1) [OF w1(1,2) free])
  have here: "om_find (w_files w') (made @ [c]) = Some Dir"
    by (rule staysD [OF stays_make_directories w1(1,3)])
  have "om_find (w_files w') (made @ q) = Some Dir" if q: "q \<noteq> []" "under q (c # cs)" for q
  proof -
    obtain q' where q': "q = c # q'" "under q' cs" using q by (cases q) (auto simp: under_def)
    then show ?thesis using below here by (cases "q' = []") auto
  qed
  then show ?case using below by blast
qed (simp add: under_def)

lemma directories_calm:
  assumes "run_state (create_directories p) w = (u, w')" and "calm w" and "plain p"
    and "\<And>q. q \<noteq> [] \<Longrightarrow> under q p \<Longrightarrow> om_find (w_files w) q = None \<or> om_find (w_files w) q = Some Dir"
  shows "calm w'" and "\<And>q. q \<noteq> [] \<Longrightarrow> under q p \<Longrightarrow> om_find (w_files w') q = Some Dir"
  using make_directories_calm [of "[]" p w u w'] assms by (simp_all add: create_directories_def)

lemma removed_calm:
  assumes "run_state (remove_all p) w = (b, w')" and "calm w"
  shows "calm w'" and "\<And>r. under (resolve p) r \<Longrightarrow> om_find (w_files w') r = None"
  using assms by (auto simp: remove_all_def call_defs calm_fate without_def split: option.split)

lemma directory_calm:
  assumes "run_state (create_directory p) w = (made, w')" and "calm w" and "om_find (w_files w) (resolve p) = None"
    and "is_dir (w_files w) (butlast (resolve p))"
  shows "made" and "calm w'"
  using assms by (auto simp: create_directory_def call_defs calm_fate)

lemma write_loop_calm:
  "run_state (write_loop q rs b) w = (ok, w') \<Longrightarrow> WriteFailed \<notin> set rs \<Longrightarrow> ok \<and> calm w' = calm w"
proof (induction q rs b arbitrary: w rule: write_loop.induct)
  case (3 q n rs b bs)
  then obtain w1 where "run_state (write_loop q rs (drop (Suc n) (b # bs))) w1 = (ok, w')" "calm w1 = calm w"
    by (auto simp: change_def)
  with 3(1) [of w1] 3(3) show ?case by simp
qed (auto simp: change_def)

lemma written_calm:
  assumes run: "run_state (writeFileSynced p b) w = (failed, w')" and "calm w" and "om_find (w_files w) (resolve p) \<noteq> Some Dir"
    and "resolve p \<noteq> []" and "is_dir (w_files w) (butlast (resolve p))"
  shows "failed = None" and "calm w'"
proof -
  define w1 where "w1 = w\<lparr>w_calls := Suc (w_calls w), w_files := om_insert (resolve p) (File '''' False) (w_files w), w_seen := w_files w # w_seen w\<rparr>"
  define out where "out = w_fate w1 (w_calls w1)"
  define w2 where "w2 = w1\<lparr>w_calls := Suc (w_calls w1)\<rparr>"
  have opened: "run_state (openForWrite p) w = (None, w1)"
    using assms by (simp add: openForWrite_def call_defs calm_fate w1_def)
  have call: "run_state next_call w1 = (out, w2)" by (simp add: next_call_def out_def w2_def)
  have c: "calm w1" "calm w2" using assms(2) by (simp_all add: calm_def w1_def w2_def)
  obtain ok w3 where w3: "run_state (write_loop (resolve p) (out_writes out) b) w2 = (ok, w3)" by fastforce
  have ok: ok "calm w3"
    using write_loop_calm [OF w3] calm_fate(2) [OF c(1)] c(2) by (simp_all add: out_def)
  obtain w4 where w4: "run_state (flushFile (resolve p)) w3 = (None, w4)" "calm w4"
    using ok(2) by (auto simp: flushFile_def call_defs calm_fate)
  have "run_state (writeFileSynced p b) w = (None, w4)"
    by (simp add: writeFileSynced_def opened call w3 ok(1) w4(1))
  then show "failed = None" "calm w'" using run w4(2) by simp_all
qed

lemma copied_calm:
  assumes "run_state (copy_file p p') w = (ok, w')" and "calm w" and "om_find (w_files w) (resolve p) = Some (File content s)"
    and "om_find (w_files w) (resolve p') \<noteq> Some Dir" and "resolve p' \<noteq> []" and "is_dir (w_files w) (butlast (resolve p'))"
  shows ok and "calm w'"
  using assms by (auto simp: copy_file_def call_defs calm_fate)
subsection \<open>Staging succeeds\<close>

text \<open>
  The staged bundle has its folders; the files still to come are not in the way of a directory, and
  neither are the ones that may be copied.
\<close>

definition ready :: "path \<Rightarrow> path \<Rightarrow> instrument_id set \<Rightarrow> World \<Rightarrow> bool" where
  "ready bundle staging I w \<longleftrightarrow> calm w \<and>
     (\<forall>q. q \<noteq> [] \<longrightarrow> under q (staging @ [''state'']) \<longrightarrow> om_find (w_files w) q = None \<or> om_find (w_files w) q = Some Dir) \<and>
     (\<forall>i \<in> I. om_find (w_files w) (staging @ sidecar i) \<noteq> Some Dir \<and> om_find (w_files w) (bundle @ sidecar i) \<noteq> Some Dir)"

lemma ready_calm: "ready bundle staging I w \<Longrightarrow> calm w"
  by (simp add: ready_def)

lemma ready_later: "ready bundle staging I w \<Longrightarrow> ready bundle staging I (w\<lparr>w_calls := n\<rparr>)"
  by (simp add: ready_def)

lemma not_under_sidecar: "under q (staging @ [''state'']) \<Longrightarrow> q \<noteq> staging @ sidecar i"
  using under_length by (fastforce simp: sidecar_def)

lemma ready_kept:
  assumes "ready bundle staging I w" and "calm w'" and "J \<subseteq> I"
    and "same_on (\<lambda>r. under r (staging @ [''state'']) \<or> (\<exists>i \<in> J. r = staging @ sidecar i) \<or> under bundle r) (w_files w) (w_files w')"
  shows "ready bundle staging J w'"
  using assms unfolding ready_def same_on_def by (auto simp: subset_iff)

lemma directories_ready:
  assumes "ready bundle staging I w" and "run_state (create_directories (staging @ [''state''])) w = (u, w')"
    and "plain staging" and "\<And>q. q \<noteq> [] \<Longrightarrow> under q (staging @ [''state'']) \<Longrightarrow> \<not> under bundle q"
  shows "ready bundle staging I w'" and "om_find (w_files w') (staging @ [''state'']) = Some Dir"
proof -
  have p: "plain (staging @ [''state''])" using assms(3) by simp
  have free: "om_find (w_files w) q = None \<or> om_find (w_files w) q = Some Dir" if "q \<noteq> []" "under q (staging @ [''state''])" for q
    using assms(1) that unfolding ready_def by blast
  note d = directories_calm [OF assms(2) ready_calm [OF assms(1)] p free]
  have "keeps (\<lambda>r. (\<exists>i \<in> I. r = staging @ sidecar i) \<or> under bundle r) (create_directories (staging @ [''state'']))"
    by (rule keeps_create_directories) (use p assms(4) not_under_sidecar in auto)
  from through_keeps [OF this assms(2)] show "ready bundle staging I w'"
    using assms(1) d unfolding ready_def same_on_def by auto
  show "om_find (w_files w') (staging @ [''state'']) = Some Dir" using d(2) by simp
qed

text \<open>One state file more, written or copied.\<close>

lemma state_file_ready:
  assumes "ready bundle staging (insert i I) w" and "i \<notin> I" and "run_state m w = (a, w')" and "calm w'"
    and "\<And>P. \<not> P (staging @ sidecar i) \<Longrightarrow> keeps P m" and "\<not> under bundle (staging @ sidecar i)"
  shows "ready bundle staging I w'"
proof (rule ready_kept [OF assms(1,4)])
  let ?P = "\<lambda>r. under r (staging @ [''state'']) \<or> (\<exists>i \<in> I. r = staging @ sidecar i) \<or> under bundle r"
  have "\<not> ?P (staging @ sidecar i)" using assms(2,6) not_under_sidecar by auto
  from through_keeps [OF assms(5) [of ?P, OF this] assms(3)] show "same_on ?P (w_files w) (w_files w')" by blast
qed blast

lemma save_states_calm:
  assumes "plain staging" and "plain bundle" and "\<And>q. q \<noteq> [] \<Longrightarrow> under q staging \<or> under staging q \<Longrightarrow> \<not> under bundle q"
    and "so_copy_from opts = None \<or> so_copy_from opts = Some bundle"
  shows "run_state (save_states opts staging es report) w = (result, w') \<Longrightarrow> own_refs es \<Longrightarrow> distinct (map fst es) \<Longrightarrow>
    ready bundle staging (fst ` set es) w \<Longrightarrow> fst result = None \<and> calm w'"
proof (induction es arbitrary: report w)
  case (Cons x es)
  obtain i n where x: "x = (i, n)" by fastforce
  let ?I = "fst ` set es"
  let ?chunk = "state_chunk opts i"
  have rest: "fst result = None \<and> calm w'"
    if "run_state (save_states opts staging es report') w1 = (result, w')" "ready bundle staging ?I w1" for report' w1
    by (rule Cons(1) [OF that(1) _ _ that(2)]) (use Cons(3,4) in \<open>simp_all add: own_refs_def x\<close>)
  have i: "i \<notin> ?I" using Cons(4) by (simp add: x)
  have rdy: "ready bundle staging (insert i ?I) w" using Cons(5) by (simp add: x)
  have ref: "pr_state_ref (inst_plugin n) = '''' \<or> pr_state_ref (inst_plugin n) = state_name i"
    using Cons(3) by (simp add: x own_refs_def)
  have smaller: "ready bundle staging ?I (w\<lparr>w_calls := k\<rparr>)" "ready bundle staging ?I w" for k
    using rdy by (auto simp: ready_def)
  have dirs: "\<not> under bundle q" if "q \<noteq> []" "under q (staging @ [''state''])" for q
  proof -
    have "under q staging \<or> under staging q" using that(2) by (auto simp: under_append append_eq_append_conv2)
    then show ?thesis using assms(3) that(1) by blast
  qed
  have apart: "\<not> under bundle (staging @ sidecar i)" by (rule assms(3)) (simp_all add: sidecar_def)
  have target: "resolve (staging @ sidecar i) = staging @ sidecar i" "staging @ sidecar i \<noteq> []"
    "butlast (staging @ sidecar i) = staging @ [''state'']"
    using assms(1) by (simp_all add: sidecar_def butlast_append)
  show ?case
  proof (cases "?chunk = ''''")
    case False
    from Cons(2) False obtain u w1 failed w2
      where w1: "run_state (create_directories (staging @ [''state''])) w = (u, w1)"
      and w2: "run_state (writeFileSynced (staging @ sidecar i) ?chunk) w1 = (failed, w2)"
      and next_run: "run_state (case failed of
           Some e \<Rightarrow> ret (Some e, report)
         | None \<Rightarrow> save_states opts staging es (record_state i ?chunk report)) w2 = (result, w')"
      unfolding x save_states.simps Let_def state_path by (simp only: if_True if_False not_not simp_thms) (elim bind_run, blast)
    note d = directories_ready [OF rdy w1 assms(1) dirs]
    have free: "om_find (w_files w1) (staging @ sidecar i) \<noteq> Some Dir" using d(1) by (simp add: ready_def)
    have "failed = None" "calm w2"
      using written_calm [OF w2 ready_calm [OF d(1)]] target free d(2) by (auto simp: is_dir_def)
    moreover have "keeps P (writeFileSynced (staging @ sidecar i) ?chunk)" if "\<not> P (staging @ sidecar i)" for P
      by (rule keeps_writeFileSynced) (use that target(1) in simp)
    note state_file_ready [OF d(1) i w2 \<open>calm w2\<close> this apart]
    ultimately show ?thesis using rest next_run by simp
  next
    case empty: True
    show ?thesis
    proof (cases "pr_state_ref (inst_plugin n) = '''' \<or> so_copy_from opts = None")
      case True
      then have "run_state (save_states opts staging es report) w = (result, w')"
        using Cons(2) empty by (auto simp: x Let_def split: option.splits if_splits)
      then show ?thesis using rest smaller(2) by blast
    next
      case False
      then have src: "so_copy_from opts = Some bundle" and named: "pr_state_ref (inst_plugin n) = state_name i"
        using assms(4) ref by auto
      have there: "resolve (bundle @ sidecar i) = bundle @ sidecar i" using assms(2) by simp
      define w1 where "w1 = w\<lparr>w_calls := Suc (w_calls w)\<rparr>"
      let ?there = "om_find (w_files w) (bundle @ sidecar i) \<noteq> None"
      have exists: "run_state (file_exists (bundle @ sidecar i)) w = (?there, w1)"
        using ready_calm [OF rdy] there by (simp add: file_exists_def call_defs calm_fate w1_def)
      have run: "run_state (if \<not> ?there then save_states opts staging es report
             else do {
               _ \<leftarrow> create_directories (staging @ [''state'']);
               copied \<leftarrow> copy_file (bundle @ sidecar i) (staging @ sidecar i);
               (if copied then save_states opts staging es report
                else ret (Some (''Could not copy the settings of '' @ quoted (inst_name n) @ '' into the save.''), report)) }) w1 = (result, w')"
        using Cons(2) empty False src named exists by (cases "om_find (w_files w) (bundle @ sidecar i)") (simp_all add: x Let_def)
      have rdy1: "ready bundle staging (insert i ?I) w1" unfolding w1_def by (rule ready_later [OF rdy])
      show ?thesis
      proof (cases ?there)
        case False
        then show ?thesis using run rest smaller(1) w1_def by simp
      next
        case True
        from run True obtain u w2 copied w3
          where w2: "run_state (create_directories (staging @ [''state''])) w1 = (u, w2)"
          and w3: "run_state (copy_file (bundle @ sidecar i) (staging @ sidecar i)) w2 = (copied, w3)"
          and next_run: "run_state (if copied then save_states opts staging es report
                else ret (Some (''Could not copy the settings of '' @ quoted (inst_name n) @ '' into the save.''), report)) w3 = (result, w')"
          by (simp only: not_True_eq_False not_False_eq_True simp_thms if_False) (elim bind_run, blast)
        note d = directories_ready [OF rdy1 w2 assms(1) dirs]
        have "keeps (under bundle) (create_directories (staging @ [''state'']))"
          by (rule keeps_create_directories) (use assms(1) dirs in simp)
        from through_keeps [OF this w2] have "om_find (w_files w2) (bundle @ sidecar i) = om_find (w_files w1) (bundle @ sidecar i)"
          by (simp add: same_on_def)
        moreover have "om_find (w_files w1) (bundle @ sidecar i) \<noteq> Some Dir" using rdy1 by (simp add: ready_def)
        ultimately obtain content s where content: "om_find (w_files w2) (bundle @ sidecar i) = Some (File content s)"
          using True by (simp add: w1_def) (metis node.exhaust)
        have free: "om_find (w_files w2) (staging @ sidecar i) \<noteq> Some Dir" using d(1) by (simp add: ready_def)
        have "copied" "calm w3"
          using copied_calm [OF w3 ready_calm [OF d(1)]] content there target free d(2) by (auto simp: is_dir_def)
        moreover have "keeps P (copy_file (bundle @ sidecar i) (staging @ sidecar i))" if "\<not> P (staging @ sidecar i)" for P
          by (rule keeps_copy_file) (use that target(1) in simp)
        note state_file_ready [OF d(1) i w3 \<open>calm w3\<close> this apart]
        ultimately show ?thesis using rest next_run by simp
      qed
    qed
  qed
qed (simp add: ready_calm, metis fst_conv prod.inject)
lemma stays_stage_bundle:
  assumes "plain staging" and "own_refs (om_entries (instruments p))"
    and "r \<noteq> staging @ [''project.json'']" and "\<And>i. r \<noteq> staging @ sidecar i"
  shows "stays r v (stage_bundle staging p residue opts)"
  using assms unfolding stage_bundle_def stage_document_def
  by (intro stays_intro stays_save_states) (auto simp: Let_def intro!: stays_intro)

lemma stage_bundle_calm:
  assumes run: "run_state (stage_bundle staging p residue opts) w = (result, w')"
    and place: "plain staging" "staging \<noteq> []" "plain bundle" "\<And>q. q \<noteq> [] \<Longrightarrow> under q staging \<or> under staging q \<Longrightarrow> \<not> under bundle q"
    and opts: "so_copy_from opts = None \<or> so_copy_from opts = Some bundle"
    and own: "own_refs (om_entries (instruments p))"
    and rdy: "ready bundle staging (set (om_keys (instruments p))) w"
    and here: "om_find (w_files w) staging = Some Dir" "om_find (w_files w) (staging @ [''project.json'']) \<noteq> Some Dir"
    and finite: "writeProjectJson p residue (so_created_with opts) (state_records opts p) \<noteq> ''''"
  shows "fst result = None" and "calm w'"
proof -
  let ?es = "om_entries (instruments p)"
  let ?doc = "staging @ [''project.json'']"
  from run obtain failed report1 w1 where states: "run_state (save_states opts staging ?es new_report) w = ((failed, report1), w1)"
    and rest: "run_state (if failed \<noteq> None then ret (failed, report1) else stage_document staging p residue opts report1) w1 = (result, w')"
    unfolding stage_bundle_def by (elim bind_run) (auto split: prod.splits)
  have calm1: "failed = None" "calm w1"
    using save_states_calm [OF place(1,3,4) opts states own om_entries_distinct] rdy by (simp_all add: om_keys_def)
  note states = states [unfolded calm1(1)]
  have records: "sv_states report1 = state_records opts p"
    by (rule states_recorded [OF states place(1)])
  have "stays staging Dir (save_states opts staging ?es new_report)"
    by (rule stays_save_states [OF place(1) own]) (simp add: sidecar_def)
  then have dir: "om_find (w_files w1) staging = Some Dir" by (rule staysD [OF _ states here(1)])
  have "keeps (\<lambda>r. r = ?doc) (save_states opts staging ?es new_report)"
  proof (rule keeps_save_states [OF place(1) _ own])
    show "q \<noteq> ?doc" if "under q (staging @ [''state''])" for q
      using that by (auto simp: under_append)
  qed (simp add: sidecar_def)
  from through_keeps [OF this states] have doc: "om_find (w_files w1) ?doc \<noteq> Some Dir" using here(2) by (simp add: same_on_def)
  let ?text = "writeProjectJson p residue (so_created_with opts) (state_records opts p)"
  have "run_state (stage_document staging p residue opts report1) w1 = (result, w')" using rest calm1 by simp
  then obtain failed2 w2 where w2: "run_state (writeFileSynced ?doc ?text) w1 = (failed2, w2)"
    and last: "run_state (case failed2 of Some e \<Rightarrow> ret (Some e, report1)
         | None \<Rightarrow> do { _ \<leftarrow> syncDirectory staging; ret (None, report1\<lparr>sv_bytes := sv_bytes report1 + length ?text\<rparr>) }) w2 = (result, w')"
    unfolding stage_document_def Let_def records by (simp only: finite if_False) (elim bind_run, blast)
  have "failed2 = None" "calm w2"
    using written_calm [OF w2 calm1(2)] doc dir place(1) by (auto simp: is_dir_def butlast_append)
  then show "fst result = None" "calm w'" using last by (auto simp: syncDirectory_def next_call_def)
qed

lemma swap_in_calm:
  assumes "run_state (swap_in Posix pid bundle) w = (failed, w')" and "calm w" and "plain bundle" and "bundle \<noteq> []"
    and "om_find (w_files w) (staging_path pid bundle) = Some Dir" and "is_dir (w_files w) (butlast bundle)"
    and "om_find (w_files w) bundle = None \<Longrightarrow> \<forall>s. om_find (w_files w) (bundle @ s) = None"
  shows "failed = None"
proof -
  let ?staging = "staging_path pid bundle"
  define w1 where "w1 = w\<lparr>w_calls := Suc (w_calls w)\<rparr>"
  have res: "resolve bundle = bundle" "resolve ?staging = ?staging" using assms(3) staging_plain by auto
  have exists: "run_state (file_exists bundle) w = (om_find (w_files w) bundle \<noteq> None, w1)"
    using assms(2) res by (simp add: file_exists_def call_defs calm_fate w1_def)
  have apart: "\<not> under ?staging bundle" "\<not> under bundle ?staging"
    using staging_apart(1) [OF assms(4), where pid = pid and r = "bundle"] staging_apart(3) [OF assms(4)] by auto
  have calm1: "calm w1" using assms(2) by (simp add: w1_def)
  have files: "w_files w1 = w_files w" by (simp add: w1_def)
  show ?thesis
  proof (cases "om_find (w_files w) bundle")
    case None
    have "vacant (w_files w) bundle" using assms(7) [OF None] by (auto simp: vacant_def under_append)
    then have "fst (run_state (rename_to ?staging bundle) w1) = None"
      using assms(5,6) res apart calm1 by (simp add: rename_to_def call_defs calm_fate files)
    then show ?thesis using assms(1) None exists
      by (auto simp: swap_in_def create_bundle_def split: prod.splits)
  next
    case (Some n)
    then have "fst (run_state (rename_swap ?staging bundle) w1) = None"
      using assms(5) res apart calm1 by (simp add: rename_swap_def call_defs calm_fate files)
    then obtain w2 where "run_state (rename_swap ?staging bundle) w1 = (None, w2)" by (metis prod.collapse)
    then show ?thesis using assms(1) Some exists
      by (auto simp: swap_in_def replace_bundle_def Let_def split: prod.splits)
  qed
qed
subsection \<open>Saving succeeds\<close>

text \<open>Nothing on the way to the bundle is a file, nothing in it is a directory where a state goes.\<close>

definition clear_way :: "files \<Rightarrow> path \<Rightarrow> instrument_id list \<Rightarrow> bool" where
  "clear_way fs bundle is \<longleftrightarrow>
     (\<forall>q. q \<noteq> [] \<longrightarrow> under q (butlast bundle) \<longrightarrow> om_find fs q = None \<or> om_find fs q = Some Dir) \<and>
     (om_find fs bundle = None \<longrightarrow> (\<forall>s. om_find fs (bundle @ s) = None)) \<and>
     (\<forall>i \<in> set is. om_find fs (bundle @ sidecar i) \<noteq> Some Dir)"

lemma prepared_calm:
  assumes "run_state (create_directories (butlast bundle)) w = (u, w1)"
    and "run_state (remove_all (staging_path pid bundle)) w1 = (b, w2)"
    and "run_state (create_directory (staging_path pid bundle)) w2 = (made, w3)"
    and "plain bundle" and "bundle \<noteq> []" and "calm w" and "clear_way (w_files w) bundle is"
  shows made and "ready bundle (staging_path pid bundle) (set is) w3" and "is_dir (w_files w3) (butlast bundle)"
    and "om_find (w_files w3) (staging_path pid bundle @ [''project.json'']) = None"
proof -
  let ?staging = "staging_path pid bundle"
  have staging: "plain ?staging" "resolve ?staging = ?staging" using staging_plain [OF assms(4)] by auto
  have parent: "plain (butlast bundle)" using assms(4) by (auto simp: plain_def dest: in_set_butlastD)
  have above: "butlast ?staging = butlast bundle" by (simp add: staging_path_def)
  have higher: "\<not> under ?staging q" if "under q (butlast bundle)" for q
  proof
    assume "under ?staging q"
    then have "length ?staging \<le> length (butlast bundle)" using that under_length le_trans by blast
    then show False by (simp add: staging_path_def)
  qed
  have d1: "calm w1" "\<And>q. q \<noteq> [] \<Longrightarrow> under q (butlast bundle) \<Longrightarrow> om_find (w_files w1) q = Some Dir"
    using directories_calm [OF assms(1,6) parent] assms(7) unfolding clear_way_def by blast+
  have k2: "keeps (\<lambda>q. under q (butlast bundle)) (remove_all ?staging)"
    by (rule keeps_remove_all) (use staging(2) higher in auto)
  have d2: "calm w2" "\<And>q. q \<noteq> [] \<Longrightarrow> under q (butlast bundle) \<Longrightarrow> om_find (w_files w2) q = Some Dir"
    "\<And>s. om_find (w_files w2) (?staging @ s) = None"
    using removed_calm [OF assms(2) d1(1)] through_keeps [OF k2 assms(2)] d1(2) staging(2) by (simp_all add: same_on_def)
  have dir2: "is_dir (w_files w2) (butlast bundle)" using d2(2) [of "butlast bundle"] by (auto simp: is_dir_def)
  have made: made "calm w3"
    using directory_calm [OF assms(3) d2(1)] d2(3) [of "[]"] dir2 staging(2) above by simp_all
  then show made by simp
  have k3: "keeps (\<lambda>q. q \<noteq> ?staging) (create_directory ?staging)"
    by (rule keeps_create_directory) (simp add: staging(2))
  have other: "om_find (w_files w3) q = om_find (w_files w2) q" if "q \<noteq> ?staging" for q
    using through_keeps [OF k3 assms(3)] that by (simp add: same_on_def)
  have d3: "om_find (w_files w3) q = Some Dir" if "q \<noteq> []" "under q (butlast bundle)" for q
    using other [of q] d2(2) [OF that] d2(3) [of "[]"] by (cases "q = ?staging") auto
  show "is_dir (w_files w3) (butlast bundle)" using d3 [of "butlast bundle"] by (auto simp: is_dir_def)
  show "om_find (w_files w3) (?staging @ [''project.json'']) = None" using other d2(3) by simp
  note prep = prepared [OF assms(1-5)]
  have old: "om_find (w_files w3) (bundle @ sidecar i) \<noteq> Some Dir" if "i \<in> set is" for i
    using prep(2) assms(7) that by (simp add: same_on_def clear_way_def)
  have new: "om_find (w_files w3) (?staging @ sidecar i) \<noteq> Some Dir" for i
    using other [of "?staging @ sidecar i"] d2(3) by (simp add: sidecar_def)
  have "om_find (w_files w3) q = None \<or> om_find (w_files w3) q = Some Dir" if q: "q \<noteq> []" "under q (?staging @ [''state''])" for q
  proof -
    have cut: "q = take (length q) (?staging @ [''state''])" using q(2) by (simp add: under_def)
    show ?thesis
    proof (cases "length q \<le> length (butlast bundle)")
      case True
      then have "q = take (length q) (butlast bundle)" using cut by (simp add: staging_path_def)
      then have "under q (butlast bundle)" by (simp add: under_def)
      then show ?thesis using d3 q(1) by blast
    next
      case False
      define s' where "s' = take (length q - length ?staging) [''state'']"
      have "length ?staging \<le> length q" using False by (simp add: staging_path_def)
      then have s': "q = ?staging @ s'" using cut by (simp add: s'_def)
      then show ?thesis using prep(3) made(1) other [of q] d2(3) [of s'] unfolding s' by (cases "s' = []") auto
    qed
  qed
  then show "ready bundle ?staging (set is) w3" using made(2) old new unfolding ready_def by blast
qed

lemma save_goes_through:
  assumes "\<forall>k. \<not> out_fails (w_fate w k) \<and> WriteFailed \<notin> set (out_writes (w_fate w k))"
    and "plain bundle" and "bundle \<noteq> []" and "own_refs (om_entries (instruments p))"
    and "clear_way (w_files w) bundle (om_keys (instruments p))"
    and "so_copy_from opts = None \<or> so_copy_from opts = Some bundle"
    and "writeProjectJson p residue (so_created_with opts) (state_records opts p) \<noteq> ''''"
  shows "sv_ok (fst (run_state (saveProject Posix pid bundle p residue opts) w))"
proof -
  let ?staging = "staging_path pid bundle"
  obtain report w' where run: "run_state (saveProject Posix pid bundle p residue opts) w = (report, w')" by fastforce
  have calm0: "calm w" using assms(1) by (simp add: calm_def)
  have staging: "plain ?staging" "?staging \<noteq> []" using staging_plain [OF assms(2)] by (auto simp: staging_path_def)
  from run obtain u w1 b w2 made w3
    where steps: "run_state (create_directories (butlast bundle)) w = (u, w1)"
      "run_state (remove_all ?staging) w1 = (b, w2)" "run_state (create_directory ?staging) w2 = (made, w3)"
    and rest: "made \<longrightarrow> run_state (finish_save Posix pid bundle p residue opts) w3 = (report, w')"
    by (rule save_steps) simp
  note fine = prepared_calm [OF steps assms(2,3) calm0 assms(5)] and prep = prepared [OF steps assms(2,3)]
  note dir = prep(3) [OF fine(1)]
  have beside: "\<not> under bundle q" if "q \<noteq> []" "under q ?staging \<or> under ?staging q" for q
    using beside_staging [OF assms(3) that(2)] .
  have keep: "keeps (under bundle) (stage_bundle ?staging p residue opts)"
    by (rule keeps_stage_bundle [OF staging(1) assms(4) beside])
  have staged: "failed = None \<and> calm w4"
    if "run_state (stage_bundle ?staging p residue opts) w3 = ((failed, report1), w4)" for failed report1 w4
    using stage_bundle_calm [OF that staging assms(2) beside assms(6,4) fine(2) dir _ assms(7)] fine(4) by simp
  have swap: "f = None"
    if run: "run_state (stage_bundle ?staging p residue opts) w3 = ((None, report1), w4)" "run_state (swap_in Posix pid bundle) w4 = (f, w5)"
    for f report1 w4 w5
  proof (rule swap_in_calm [OF run(2) _ assms(2,3)])
    show "calm w4" using staged [OF run(1)] by blast
    show "om_find (w_files w4) ?staging = Some Dir"
      by (rule staysD [OF stays_stage_bundle [OF staging(1) assms(4)] run(1) dir]) (simp_all add: sidecar_def)
    have "\<not> under ?staging (butlast bundle)" using under_length [of ?staging "butlast bundle"] by (auto simp: staging_path_def)
    then have "butlast bundle \<noteq> ?staging @ s" for s by auto
    then have "stays (butlast bundle) Dir (stage_bundle ?staging p residue opts)"
      by (intro stays_stage_bundle [OF staging(1) assms(4)]) simp_all
    from staysD [OF this run(1)] have "om_find (w_files w4) (butlast bundle) = Some Dir" if "om_find (w_files w3) (butlast bundle) = Some Dir"
      using that .
    then show "is_dir (w_files w4) (butlast bundle)" using fine(3) unfolding is_dir_def by blast
    have "same_on (under bundle) (w_files w) (w_files w4)"
      by (rule same_on_trans [OF prep(2) conjunct2 [OF through_keeps [OF keep run(1)]]])
    then show "\<forall>s. om_find (w_files w4) (bundle @ s) = None" if "om_find (w_files w4) bundle = None"
      using assms(5) that by (simp add: clear_way_def same_on_def)
  qed
  from rest fine(1) have finished: "run_state (finish_save Posix pid bundle p residue opts) w3 = (report, w')" by simp
  then have "sv_ok report"
  proof (cases rule: staged_steps)
    case (unstaged e report1 w4)
    then show ?thesis using staged [OF unstaged(1)] by simp
  next
    case (unswapped report1 w4 e w5)
    then show ?thesis using swap [OF unswapped(1,2)] by simp
  qed simp
  then show ?thesis using run by simp
qed


text \<open>
  Claim C20.  A save goes through: when no call of the file system fails, no file stands where a directory is
  needed and the document can be written, a save on a POSIX system reports success - whether the bundle is
  new or replaced, and whether the states are given by the plug-ins or carried across from the bundle.
\<close>

theorem save_succeeds:
  assumes "\<forall>k. \<not> out_fails (w_fate w k) \<and> WriteFailed \<notin> set (out_writes (w_fate w k))"
    and "plain bundle" and "bundle \<noteq> []" and "own_refs (om_entries (instruments p))"
    and "clear_way (w_files w) bundle (om_keys (instruments p))"
    and "so_copy_from opts = None \<or> so_copy_from opts = Some bundle"
    and "writeProjectJson p residue (so_created_with opts) (state_records opts p) \<noteq> ''''"
  shows "sv_ok (fst (run_state (saveProject Posix pid bundle p residue opts) w))"
  by (rule save_goes_through [OF assms])

lemma written_some:
  assumes "storable p" and "blank_residue r"
  shows "writeProjectJson p r created_with state \<noteq> ''''"
proof
  assume "writeProjectJson p r created_with state = ''''"
  then have "fst (parsed_document '''' new_loader) \<noteq> None" using parsed_written [OF assms, of created_with state] by simp
  moreover have "fst (parsed_document '''' new_loader) = None" by code_simp
  ultimately show False by simp
qed

lemma sample_saves:
  "\<forall>k. \<not> out_fails (w_fate empty_disk k) \<and> WriteFailed \<notin> set (out_writes (w_fate empty_disk k))"
  "plain [''song'']" "own_refs (om_entries (instruments (copyTables sample_project)))"
  "clear_way (w_files empty_disk) [''song''] is" "blank_residue no_residue"
  "writeProjectJson (copyTables sample_project) no_residue cw st \<noteq> ''''"
proof -
  show "own_refs (om_entries (instruments (copyTables sample_project)))" by (rule sample_refs)
  show blank: "blank_residue no_residue" by (simp add: blank_residue_def no_residue_def)
  show "writeProjectJson (copyTables sample_project) no_residue cw st \<noteq> ''''" by (rule written_some [OF sample_storable blank])
qed (simp_all add: empty_disk_def quiet_def clear_way_def)

lemma save_succeeds_witness:
  "sv_ok (fst (run_state (saveProject Posix ''7'' [''song''] (copyTables sample_project) no_residue sample_options) empty_disk))"
  using sample_saves by (intro save_succeeds) (simp_all add: sample_options_def)

subsection \<open>Loading what was saved\<close>

definition provided :: "SaveOptions \<Rightarrow> Tables \<Rightarrow> (instrument_id \<times> string) list" where
  "provided opts p = filter (\<lambda>(i, chunk). chunk \<noteq> '''') (map (\<lambda>i. (i, state_chunk opts i)) (om_keys (instruments p)))"

definition reliable :: "World \<Rightarrow> bool" where
  "reliable w \<longleftrightarrow> (\<forall>k \<ge> w_calls w. \<not> out_fails (w_fate w k))"

lemma read_reliable:
  assumes "reliable w" and "om_find (w_files w) (resolve p) = Some (File content s)"
  shows "run_state (readFile p) w = (Inr content, w\<lparr>w_calls := Suc (w_calls w)\<rparr>)"
  using assms by (simp add: readFile_def next_call_def files_now_def reliable_def)

lemma reliable_next [simp]: "reliable w \<Longrightarrow> reliable (w\<lparr>w_calls := Suc (w_calls w)\<rparr>)"
  by (simp add: reliable_def)

lemma states_loaded:
  assumes "plain bundle"
  shows "reliable w \<Longrightarrow>
    (\<And>i n. (i, n) \<in> set es \<Longrightarrow>
      if chunk i = '''' then pr_state_ref (inst_plugin n) = ''''
      else pr_state_ref (inst_plugin n) = state_name i \<and> pr_state_sha256 (inst_plugin n) = sha256Hex (chunk i) \<and>
        om_find (w_files w) (bundle @ sidecar i) = Some (File (chunk i) True)) \<Longrightarrow>
    fst (run_state (load_states bundle es report) w) =
      (report, filter (\<lambda>(i, c). c \<noteq> '''') (map (\<lambda>i. (i, chunk i)) (map fst es)))"
proof (induction es arbitrary: w)
  case (Cons x es)
  obtain i n where x: "x = (i, n)" by fastforce
  note here = Cons(3) [of i n, unfolded x, simplified]
  show ?case
  proof (cases "chunk i = ''''")
    case True
    have "fst (run_state (load_states bundle es report) w) =
        (report, filter (\<lambda>(i, c). c \<noteq> []) (map (\<lambda>i. (i, chunk i)) (map fst es)))"
      by (rule Cons(1) [OF Cons(2) Cons(3) [OF list.set_intros(2)]])
    then show ?thesis using True here by (simp add: x Let_def)
  next
    case False
    let ?w = "w\<lparr>w_calls := Suc (w_calls w)\<rparr>"
    have "resolve (bundle @ sidecar i) = bundle @ sidecar i" using assms by simp
    then have "run_state (readFile (bundle @ sidecar i)) w = (Inr (chunk i), ?w)"
      using read_reliable [OF Cons(2)] here False by simp
    moreover have "fst (run_state (load_states bundle es report) ?w) =
        (report, filter (\<lambda>(i, c). c \<noteq> '''') (map (\<lambda>i. (i, chunk i)) (map fst es)))"
    proof (rule Cons(1))
      show "reliable ?w" using Cons(2) by simp
    qed (use Cons(3) [OF list.set_intros(2)] in simp)
    ultimately show ?thesis using here False
      by (cases "run_state (load_states bundle es report) ?w") (auto simp: x Let_def)
  qed
qed simp

text \<open>The environment is never changed.\<close>

definition same_fate :: "'a io \<Rightarrow> bool" where
  "same_fate m \<longleftrightarrow> (\<forall>w. w_fate (snd (run_state m w)) = w_fate w)"

named_theorems fate_intro

lemma same_fate_bind [fate_intro]: "same_fate m \<Longrightarrow> (\<And>a. same_fate (f a)) \<Longrightarrow> same_fate (do { a \<leftarrow> m; f a })"
  by (simp add: same_fate_def split_beta)

lemma same_fate_simple [fate_intro]: "same_fate (ret a)" "same_fate next_call" "same_fate files_now" "same_fate (change g)"
  by (simp_all add: same_fate_def call_defs)

lemma same_fate_cases [fate_intro]:
  "same_fate m \<Longrightarrow> same_fate n \<Longrightarrow> same_fate (if b then m else n)"
  "same_fate (f x) \<Longrightarrow> same_fate (let y = x in f y)"
  "same_fate m \<Longrightarrow> (\<And>a. same_fate (g a)) \<Longrightarrow> same_fate (case z of None \<Rightarrow> m | Some a \<Rightarrow> g a)"
  "(\<And>a b. same_fate (h a b)) \<Longrightarrow> same_fate (case y of (a, b) \<Rightarrow> h a b)"
  "same_fate m \<Longrightarrow> (\<And>c s. same_fate (k c s)) \<Longrightarrow> same_fate (case v of Dir \<Rightarrow> m | File c s \<Rightarrow> k c s)"
  by (simp_all split: option.split prod.split node.split)

lemma same_fate_make_directories: "same_fate (make_directories made cs)"
  by (induction cs arbitrary: made) (auto simp: Let_def simp del: if_split intro!: fate_intro)

lemma same_fate_write_loop: "same_fate (write_loop q rs b)"
  by (induction q rs b rule: write_loop.induct) (auto intro!: fate_intro)

lemma same_fate_calls [fate_intro]:
  "same_fate (file_exists p)" "same_fate (remove_all p)" "same_fate (create_directory p)" "same_fate (create_directories p)"
  "same_fate (writeFileSynced p b)" "same_fate (copy_file p p')" "same_fate (rename_to p p')" "same_fate (rename_swap p p')"
  "same_fate (syncDirectory p)"
  unfolding file_exists_def remove_all_def create_directory_def create_directories_def writeFileSynced_def openForWrite_def
    flushFile_def copy_file_def rename_to_def rename_swap_def syncDirectory_def
  by (intro fate_intro same_fate_make_directories same_fate_write_loop)+

lemma same_fate_save_states [fate_intro]: "same_fate (save_states opts staging es report)"
  by (induction es arbitrary: report) (auto simp: Let_def split: option.split intro!: fate_intro)

lemma save_fate: "w_fate (snd (run_state (saveProject pf pid bundle p residue opts) w)) = w_fate w"
proof -
  have "same_fate (replace_bundle pf pid bundle)"
    unfolding replace_bundle_def by (cases pf) (simp_all add: Let_def, (intro fate_intro)+)
  then have "same_fate (saveProject pf pid bundle p residue opts)"
    unfolding saveProject_def finish_save_def stage_bundle_def stage_document_def swap_in_def create_bundle_def abandon_def
    by (intro fate_intro)
  then show ?thesis by (simp add: same_fate_def)
qed



end
