(* ===== verification/Spec2Isabelle.thy ===== *)
theory Spec2Isabelle
  imports Note_Edit Sounding Mixer_Graph Ring Publisher Json_Round_Trip Json_Total Loader_Properties Save_Success
begin

text \<open>
  A model of the OneBeat audio engine (\<open>src/engine/src\<close>) and the theorems that make it correct.

  The engine keeps a project as a graph of references (\<open>model/\<close>), changes it only through undoable
  commands, flattens it into an immutable schedule of absolutely positioned events, and plays that
  schedule from the audio thread (\<open>core/\<close>), which never walks the graph.  The development follows
  that pipeline.

  Foundations.  \<open>Prelude\<close> has the machine integers and list facts; \<open>Ordered_Map\<close> is \<open>std::map\<close>
  (a type, so that equal contents are equal maps); \<open>Floats\<close> is IEEE 754 arithmetic, a finite value
  being its exact rational and each operation rounding to nearest even; \<open>Binary_Search\<close> is the
  lower-bound loop shared by schedules and event lists, with the locale \<open>time_ordered\<close> for what a
  cursor scan returns on a sorted array; \<open>Reversible\<close> is the contract of a command, the locale its
  history theorems are proved in once.

  The project model.  \<open>Ids\<close> (\<open>model/ids\<close>: ULIDs, typed ids, the generator), \<open>Notes\<close>
  (\<open>model/note_sequence.h\<close>), \<open>Entities\<close> (\<open>model/entities.h\<close>), \<open>Project_State\<close> and \<open>Project\<close>
  (\<open>model/project\<close>, \<open>model/changes.h\<close>: the tables, the lookups, every creation, update, restore and
  cascading deletion, with the change events they emit), \<open>Invariants\<close> (\<open>model/invariants.cpp\<close>).
  \<open>Project_Spec\<close> gives each cascade as one simultaneous update and proves that the step by step
  operations refine it; \<open>Project_Inv\<close> proves that every operation keeps \<open>project_ok\<close>, so that the
  debug check never aborts; \<open>Model_Properties\<close> states the results, \<open>Sample\<close> is the project the
  witnesses run on.

  Editing.  \<open>Commands\<close> has every command class of \<open>model/commands.cpp\<close> and the composite;
  \<open>Commands_Undo\<close>, \<open>Commands_Edit\<close> and \<open>Commands_Contract\<close> prove class by class that undo restores
  the tables exactly, and interpret \<open>Reversible\<close>; \<open>Command_Bus\<close> (\<open>model/command\<close>) is the history with
  gestures and coalescing; \<open>Command_Factories\<close> and \<open>Factory_Properties\<close> are the factories (one per
  user action) and what their commands do; \<open>Note_Edit\<close> is \<open>model/note_edit\<close>.

  Flattening.  \<open>Flattener\<close> (\<open>model/flattener\<close>) composes lanes, clips, occurrences, swing, overlaps,
  automation and audio clips into a schedule; \<open>Flattener_Properties\<close> proves where a note sounds,
  \<open>Sounding\<close> that the notes played are exactly those the project places, and \<open>Overlaps\<close> that no
  note hangs.  \<open>Schedule\<close> (\<open>core/schedule\<close>) is the array and its builder,
  \<open>Schedule_Hash\<close> the fingerprints that decide which channels a new schedule releases.

  Playing.  \<open>Transport\<close> (\<open>core/time_map.h\<close>, \<open>core/transport.h\<close>) is the clock; \<open>Audio_Block\<close> cuts a
  block at the loop seam (\<open>Engine::process\<close>, \<open>runSchedule\<close>, \<open>processChunk\<close>) and is proved equivalent
  to a clock that advances frame by frame; \<open>Rack_Events\<close> is what a channel is handed
  (\<open>renderChannel\<close>, \<open>applyCommand\<close>, \<open>drainCommands\<close>); \<open>Plugin_Event\<close> (\<open>plugin/event.h\<close>) is the event
  list over borrowed storage; \<open>Mixer_Graph\<close> (\<open>core/mixer_graph\<close>) sorts the mixer into render order.
  \<open>Ring\<close> (\<open>core/rt/mpsc_ring.h\<close>) and \<open>Publisher\<close> (\<open>core/rt/publisher.h\<close>) are the two structures
  between the threads, each access a step of an inductive relation, sequentially consistent.

  Files.  \<open>Json\<close> (\<open>model/json\<close>) has the values, the parser with its error positions and the canonical
  writer; \<open>Json_Text\<close> reads the tokens of that form back, \<open>Json_Grammar\<close> gives the texts the parser
  accepts as an inductive grammar, \<open>Json_Round_Trip\<close> proves that both writers produce such texts, so
  that a saved document is a fixed point, and \<open>Json_Total\<close> that the parser always answers.
  \<open>Json_Fields\<close> and \<open>Project_Loader\<close> (\<open>model/project_io\<close>) are the loader, text to tables, residue and
  report: readers in the state monad that take what they understand out of the document, then the
  resolution of the references.  \<open>Reader_Logic\<close> is their weakest-precondition calculus;
  \<open>Loader_Reads\<close> and \<open>Loader_Inv\<close> prove what holds when everything is read, \<open>Loader_Sound\<close> what each
  phase of the resolution establishes, \<open>Loader_Ticks\<close> where a load is refused, \<open>Loader_Properties\<close>
  the results.  \<open>Project_Writer\<close> is the writer of the document, \<open>Save_Fields\<close> reads each written entity
  back and \<open>Save_Load\<close> the whole project; \<open>Sha256\<close> is the digest of the plug-in states.
  \<open>File_System\<close> is the tree of files with the calls a save makes, each of which may fail as the
  environment decides, every tree it ever was being kept; \<open>Save_Project\<close> is \<open>saveProject\<close> and
  \<open>loadProject\<close> over it.  \<open>Save_Safety\<close> proves that no failure and no crash leaves the bundle between
  its old and its new content, with a calculus for what a call leaves alone; \<open>Save_Success\<close> that a save
  whose calls go through succeeds, and that loading returns the project and the states of the plug-ins.

  Conventions.  An optional or null result is an \<open>option\<close>, a success flag a \<open>bool\<close> paired with the
  state after it.  \<open>int64_t\<close> ticks and frames are mathematical integers; where the source narrows,
  saturates or wraps, the width is written out (\<open>to_int16\<close>, \<open>w word\<close>).  Loops that are not structural
  are \<open>function\<close>s with a measure, except the depth-first search of \<open>finalise\<close>, a
  \<open>partial_function\<close> whose termination is a theorem, and the recursive descent of the JSON parser,
  whose fuel of twice the length of the text plus two is proved enough (\<open>parse_returns\<close>); the one
  fuel of the source, the wrap guard of \<open>runSchedule\<close>, is kept as it is.  \<open>std::sort\<close> with ties keeps the input order among the tied.

  Not modelled.  The C ABI (\<open>abi/\<close>) and the app are glue around these operations.  The rendering of
  samples (\<open>core/sampler\<close>, \<open>time_stretch\<close>, the built-in effects, the stock plug-ins), the devices
  (\<open>audio_io/\<close>), file decoding and export are signal processing and input/output.  The plug-in
  adapters (\<open>plugin/clap\<close>, \<open>plugin/sandbox\<close>), the scanner and the host process talk to code outside
  the repository.  Of \<open>model/project_io\<close> only the crash hook of the tests is left out; a read that fails
  after the file opened is not distinguished from a short file.
\<close>

end
